(* ===== verification/Go_Base.thy ===== *)
theory Go_Base
  imports Main "HOL-Library.Char_ord" "HOL-Library.List_Lexorder" "HOL-Library.Multiset"
begin

text \<open>
  The part of the Go language and of its standard library that the modelled packages use:
  strings (package strings), slices (package slices), optional errors and time values.

  A Go string is a sequence of bytes and is modelled by \<^typ>\<open>string\<close>, a list of 8-bit
  characters; \<open><\<close> on strings is the bytewise lexicographic order of Go. Case mapping
  and white space are those of ASCII text: the callers apply them to DNS names in their
  presentation format, to the output of IDNA conversion and to SPF terms.
  A \<open>time.Time\<close> is the number of nanoseconds since Go's zero time, so that
  \<open>IsZero\<close> is \<open>= 0\<close>; a \<open>time.Duration\<close> is a number of nanoseconds.
\<close>

named_theorems go_strings \<open>unfolding of the string functions\<close>
named_theorems inv_intros \<open>preservation of component invariants\<close>

type_synonym gotime = int
type_synonym duration = int

text \<open>Results with an error: \<open>Inl\<close> is the error of Go's \<open>(value, error)\<close> pairs.\<close>

type_synonym ('e, 'a) result = "'e + 'a"

section \<open>Package strings\<close>

definition has_prefix :: "string \<Rightarrow> string \<Rightarrow> bool" where
  "has_prefix s p = (take (length p) s = p)"

definition has_suffix :: "string \<Rightarrow> string \<Rightarrow> bool" where
  "has_suffix s p = (length p \<le> length s \<and> drop (length s - length p) s = p)"

definition trim_suffix :: "string \<Rightarrow> string \<Rightarrow> string" where
  "trim_suffix s p = (if has_suffix s p then take (length s - length p) s else s)"

definition trim_prefix :: "string \<Rightarrow> string \<Rightarrow> string" where
  "trim_prefix s p = (if has_prefix s p then drop (length p) s else s)"

text \<open>\<open>strings.Cut\<close> at a single byte: the part before the first occurrence, the part after
  it and whether it was found.\<close>

fun cut :: "char \<Rightarrow> string \<Rightarrow> string \<times> string \<times> bool" where
  "cut c [] = ([], [], False)"
| "cut c (x # xs) =
     (if x = c then ([], xs, True)
      else (case cut c xs of (a, b, f) \<Rightarrow> (x # a, b, f)))"

text \<open>\<open>strings.Split\<close> at a single byte. Splitting the empty string gives one empty part.\<close>

fun split_on :: "char \<Rightarrow> string \<Rightarrow> string list" where
  "split_on c [] = [[]]"
| "split_on c (x # xs) =
     (if x = c then [] # split_on c xs
      else (case split_on c xs of [] \<Rightarrow> [[x]] | p # ps \<Rightarrow> (x # p) # ps))"

fun join :: "string \<Rightarrow> string list \<Rightarrow> string" where
  "join sep [] = []"
| "join sep [p] = p"
| "join sep (p # q # ps) = p @ sep @ join sep (q # ps)"

definition lower_char :: "char \<Rightarrow> char" where
  "lower_char c = (if CHR ''A'' \<le> c \<and> c \<le> CHR ''Z'' then char_of (of_char c + 32 :: nat) else c)"

definition to_lower :: "string \<Rightarrow> string" where
  "to_lower s = map lower_char s"

definition equal_fold :: "string \<Rightarrow> string \<Rightarrow> bool" where
  "equal_fold s t = (to_lower s = to_lower t)"

definition is_space :: "char \<Rightarrow> bool" where
  "is_space c = (c \<in> {CHR '' '', CHR 0x09, CHR 0x0A, CHR 0x0B, CHR 0x0C, CHR 0x0D})"

definition trim_space :: "string \<Rightarrow> string" where
  "trim_space s = rev (dropWhile is_space (rev (dropWhile is_space s)))"

definition trim_left :: "char \<Rightarrow> string \<Rightarrow> string" where
  "trim_left c s = dropWhile (\<lambda>x. x = c) s"

definition trim_right :: "char \<Rightarrow> string \<Rightarrow> string" where
  "trim_right c s = rev (dropWhile (\<lambda>x. x = c) (rev s))"

text \<open>\<open>strings.Contains\<close> and \<open>strings.IndexAny\<close>, the latter without the index \<open>-1\<close>.\<close>

fun contains :: "string \<Rightarrow> string \<Rightarrow> bool" where
  "contains [] p = (p = [])"
| "contains (x # xs) p = (has_prefix (x # xs) p \<or> contains xs p)"

fun index_any :: "char list \<Rightarrow> string \<Rightarrow> nat option" where
  "index_any cs [] = None"
| "index_any cs (x # xs) = (if x \<in> set cs then Some 0 else map_option Suc (index_any cs xs))"

text \<open>\<open>strings.Fields\<close>: the maximal runs of bytes that are not white space.\<close>

fun fields_acc :: "string \<Rightarrow> string \<Rightarrow> string list" where
  "fields_acc [] w = (if w = [] then [] else [rev w])"
| "fields_acc (x # xs) w =
     (if is_space x then (if w = [] then fields_acc xs [] else rev w # fields_acc xs [])
      else fields_acc xs (x # w))"

definition fields :: "string \<Rightarrow> string list" where
  "fields s = fields_acc s []"

definition is_lower_letter :: "char \<Rightarrow> bool" where
  "is_lower_letter c = (CHR ''a'' \<le> c \<and> c \<le> CHR ''z'')"

definition is_digit :: "char \<Rightarrow> bool" where
  "is_digit c = (CHR ''0'' \<le> c \<and> c \<le> CHR ''9'')"

text \<open>\<open>strconv.Itoa\<close> on a natural number, and \<open>utf8.ValidString\<close>.\<close>

fun nat_string :: "nat \<Rightarrow> string" where
  "nat_string n =
     (if n < 10 then [char_of (48 + n)] else nat_string (n div 10) @ [char_of (48 + n mod 10)])"

declare nat_string.simps [simp del]

definition byte_in :: "nat \<Rightarrow> nat \<Rightarrow> char \<Rightarrow> bool" where
  "byte_in lo hi c = (lo \<le> of_char c \<and> of_char c \<le> hi)"

fun valid_utf8 :: "string \<Rightarrow> bool" where
  "valid_utf8 [] = True"
| "valid_utf8 (a # s) =
     (if byte_in 0 127 a then valid_utf8 s
      else if byte_in 194 223 a then
        (case s of b # r \<Rightarrow> byte_in 128 191 b \<and> valid_utf8 r | _ \<Rightarrow> False)
      else if byte_in 224 239 a then
        (case s of b # c # r \<Rightarrow>
             byte_in (if of_char a = (224::nat) then 160 else 128)
                     (if of_char a = (237::nat) then 159 else 191) b
             \<and> byte_in 128 191 c \<and> valid_utf8 r | _ \<Rightarrow> False)
      else if byte_in 240 244 a then
        (case s of b # c # d # r \<Rightarrow>
             byte_in (if of_char a = (240::nat) then 144 else 128)
                     (if of_char a = (244::nat) then 143 else 191) b
             \<and> byte_in 128 191 c \<and> byte_in 128 191 d \<and> valid_utf8 r | _ \<Rightarrow> False)
      else False)"

section \<open>Package slices\<close>

text \<open>\<open>slices.Compact\<close> removes adjacent repetitions; \<open>slices.Sort\<close> is \<^const>\<open>sort\<close>.
  \<open>slices.SortFunc\<close> with a comparison of one key is \<^const>\<open>sort_key\<close>; Go does not
  promise the order of elements with equal keys.\<close>

fun compact :: "'a list \<Rightarrow> 'a list" where
  "compact [] = []"
| "compact [x] = [x]"
| "compact (x # y # xs) = (if x = y then compact (y # xs) else x # compact (y # xs))"

section \<open>Results\<close>

text \<open>Sequencing of calls that may return an error, as \<open>if err != nil { return err }\<close> does.\<close>

definition and_then :: "'e + 'a \<Rightarrow> ('a \<Rightarrow> 'e + 'b) \<Rightarrow> 'e + 'b" where
  "and_then r f = (case r of Inl e \<Rightarrow> Inl e | Inr x \<Rightarrow> f x)"

lemma and_then_simps [simp]:
  "and_then (Inl e) f = Inl e"
  "and_then (Inr x) f = f x"
  by (simp_all add: and_then_def)

lemma and_then_Inr_iff: "and_then r f = Inr y \<longleftrightarrow> (\<exists>x. r = Inr x \<and> f x = Inr y)"
  by (cases r) simp_all

lemma and_then_Inl_iff:
  "and_then r f = Inl e \<longleftrightarrow> r = Inl e \<or> (\<exists>x. r = Inr x \<and> f x = Inl e)"
  by (cases r) simp_all

text \<open>A loop that stops at the first error.\<close>

fun map_result :: "('a \<Rightarrow> 'e + 'b) \<Rightarrow> 'a list \<Rightarrow> 'e + 'b list" where
  "map_result f [] = Inr []"
| "map_result f (x # xs) = and_then (f x) (\<lambda>y. and_then (map_result f xs) (\<lambda>ys. Inr (y # ys)))"

lemma map_result_Inr:
  "map_result f xs = Inr ys \<Longrightarrow> list_all2 (\<lambda>x y. f x = Inr y) xs ys"
  by (induction xs arbitrary: ys) (auto simp: and_then_Inr_iff)

lemma map_result_set:
  "map_result f xs = Inr ys \<Longrightarrow> y \<in> set ys \<Longrightarrow> \<exists>x \<in> set xs. f x = Inr y"
  by (induction xs arbitrary: ys) (auto simp: and_then_Inr_iff)

section \<open>Lemmas on strings and slices\<close>

lemma has_prefix_iff: "has_prefix s p \<longleftrightarrow> (\<exists>t. s = p @ t)"
  unfolding has_prefix_def by (metis append_eq_conv_conj append_take_drop_id)

lemma has_suffix_iff: "has_suffix s p \<longleftrightarrow> (\<exists>t. s = t @ p)"
proof
  assume "has_suffix s p"
  then have "s = take (length s - length p) s @ p"
    unfolding has_suffix_def by (metis append_take_drop_id)
  then show "\<exists>t. s = t @ p" by blast
qed (auto simp: has_suffix_def)

lemma has_suffix_append [simp]: "has_suffix (t @ p) p"
  by (auto simp: has_suffix_iff)

lemma has_suffix_trans: "has_suffix a b \<Longrightarrow> has_suffix b c \<Longrightarrow> has_suffix a c"
  unfolding has_suffix_iff by (metis append_assoc)

lemma cut_not_found: "cut c s = (a, b, False) \<Longrightarrow> a = s \<and> b = [] \<and> c \<notin> set s"
  by (induction s arbitrary: a b) (auto split: if_splits prod.splits)

lemma cut_found: "cut c s = (a, b, True) \<Longrightarrow> s = a @ c # b \<and> c \<notin> set a"
  by (induction s arbitrary: a b) (auto split: if_splits prod.splits)

lemma cut_found_iff: "(\<exists>a b. cut c s = (a, b, True)) \<longleftrightarrow> c \<in> set s"
proof (induction s)
  case (Cons x s)
  then show ?case by (cases "cut c s") (auto split: prod.splits)
qed simp

lemma set_compact [simp]: "set (compact xs) = set xs"
  by (induction xs rule: compact.induct) auto

lemma length_compact_le: "length (compact xs) \<le> length xs"
  by (induction xs rule: compact.induct) auto

lemma compact_eq_Nil [simp]: "compact xs = [] \<longleftrightarrow> xs = []"
  by (induction xs rule: compact.induct) auto

lemma sorted_compact: "sorted xs \<Longrightarrow> sorted (compact xs)"
  by (induction xs rule: compact.induct) auto

lemma strict_sorted_compact: "sorted xs \<Longrightarrow> sorted_wrt (<) (compact xs)"
  by (induction xs rule: compact.induct) auto

lemma compact_sort_eq: "compact (sort xs) = sorted_list_of_set (set xs)"
proof (rule sorted_distinct_set_unique)
  have "sorted_wrt (<) (compact (sort xs))" by (rule strict_sorted_compact) simp
  then show "sorted (compact (sort xs))" and "distinct (compact (sort xs))"
    by (simp_all add: strict_sorted_iff)
qed simp_all

lemma distinct_compact_sort [simp]: "distinct (compact (sort xs))"
  by (simp add: compact_sort_eq)

lemma sorted_compact_sort [simp]: "sorted (compact (sort xs))"
  by (simp add: compact_sort_eq)

text \<open>Two enumerations of the same elements sort to the same list when the keys are distinct.\<close>

lemma sort_key_permutation:
  assumes "mset xs = mset ys" and "inj_on f (set xs)"
  shows "sort_key f xs = sort_key f ys"
proof -
  have "map f (sort_key f xs) = map f (sort_key f ys)"
  proof (rule properties_for_sort [THEN trans [OF sym]])
    show "mset (map f (sort_key f xs)) = mset (map f ys)" using assms(1) by simp
    show "sort (map f ys) = map f (sort_key f ys)"
      by (rule properties_for_sort) simp_all
  qed simp
  moreover have "set ys = set xs" using assms(1) by (metis set_mset_mset)
  ultimately show ?thesis using assms(2) by (simp add: map_inj_on)
qed

section \<open>Suffixes at a label boundary\<close>

text \<open>A name has the suffix \<open>root\<close> at a dot exactly when its labels end with the labels
  of \<open>root\<close>.\<close>

lemma split_on_not_Nil [simp]: "split_on c s \<noteq> []"
  by (induction s) (auto split: list.splits)

lemma split_on_append: "split_on c (t @ c # r) = split_on c t @ split_on c r"
proof (induction t)
  case (Cons x t)
  then show ?case by (cases "split_on c t") auto
qed simp

lemma join_split_on: "join [c] (split_on c s) = s"
proof (induction s)
  case (Cons x s)
  obtain p ps where "split_on c s = p # ps" by (cases "split_on c s") auto
  with Cons show ?case by (cases ps) auto
qed simp

lemma join_append:
  "xs \<noteq> [] \<Longrightarrow> ys \<noteq> [] \<Longrightarrow> join sep (xs @ ys) = join sep xs @ sep @ join sep ys"
proof (induction xs)
  case (Cons x xs)
  show ?case
  proof (cases "xs = []")
    case True
    with Cons.prems(2) show ?thesis by (cases ys) auto
  next
    case False
    with Cons show ?thesis by (cases xs) auto
  qed
qed simp

definition at_or_below :: "string \<Rightarrow> string \<Rightarrow> bool" where
  "at_or_below name root = (\<exists>ls. split_on CHR ''.'' name = ls @ split_on CHR ''.'' root)"

lemma label_suffix_iff: "name = root \<or> has_suffix name (CHR ''.'' # root) \<longleftrightarrow> at_or_below name root"
proof
  assume "name = root \<or> has_suffix name (CHR ''.'' # root)"
  then show "at_or_below name root"
    by (auto simp: has_suffix_iff split_on_append at_or_below_def)
next
  assume "at_or_below name root"
  then obtain ls where ls: "split_on CHR ''.'' name = ls @ split_on CHR ''.'' root"
    by (auto simp: at_or_below_def)
  then have "name = join ''.'' (ls @ split_on CHR ''.'' root)"
    by (metis join_split_on)
  then have "name = root \<or> name = join ''.'' ls @ ''.'' @ root"
    by (cases "ls = []") (simp_all add: join_append join_split_on)
  then show "name = root \<or> has_suffix name (CHR ''.'' # root)"
    by (auto simp: has_suffix_iff)
qed

lemma at_or_below_refl [simp]: "at_or_below name name"
  by (simp add: at_or_below_def)

lemma at_or_below_trans: "at_or_below a b \<Longrightarrow> at_or_below b c \<Longrightarrow> at_or_below a c"
  unfolding at_or_below_def by (metis append_assoc)

end
