(* ===== verification/Netip.thy ===== *)
theory Netip
  imports Go_Base "HOL-Library.Word"
begin

unbundle bit_operations_syntax

text \<open>
  Go's package net/netip as the sources use it: addresses, prefixes, the classification
  predicates and the textual parser. An address is invalid (the zero value), an IPv4 address
  or an IPv6 address with a possibly empty zone. The tables of internal/policy are given in
  this theory's syntax as the literals of the source.
\<close>

type_synonym ip4 = "32 word"
type_synonym ip6 = "128 word"

datatype addr = NoAddr | V4 ip4 | V6 ip6 string

fun addr_valid :: "addr \<Rightarrow> bool" where
  "addr_valid NoAddr = False"
| "addr_valid _ = True"

fun is4 :: "addr \<Rightarrow> bool" where
  "is4 (V4 _) = True"
| "is4 _ = False"

fun is6 :: "addr \<Rightarrow> bool" where
  "is6 (V6 _ _) = True"
| "is6 _ = False"

fun zone :: "addr \<Rightarrow> string" where
  "zone (V6 _ z) = z"
| "zone _ = []"

definition is_4in6 :: "ip6 \<Rightarrow> bool" where
  "is_4in6 w = (drop_bit 32 w = 0xffff)"

text \<open>\<open>Addr.Unmap\<close> turns an IPv4-mapped IPv6 address into the IPv4 address.\<close>

fun unmap :: "addr \<Rightarrow> addr" where
  "unmap (V6 w z) = (if is_4in6 w then V4 (ucast w) else V6 w z)"
| "unmap a = a"

text \<open>\<open>Addr.Compare\<close>: first by bit length, then by value, then by zone.\<close>

fun bit_len :: "addr \<Rightarrow> nat" where
  "bit_len NoAddr = 0"
| "bit_len (V4 _) = 32"
| "bit_len (V6 _ _) = 128"

fun addr_value :: "addr \<Rightarrow> nat" where
  "addr_value NoAddr = 0"
| "addr_value (V4 w) = unat w"
| "addr_value (V6 w _) = unat w"

definition addr_compare :: "addr \<Rightarrow> addr \<Rightarrow> int" where
  "addr_compare a b =
     (if bit_len a < bit_len b then -1 else if bit_len a > bit_len b then 1
      else if addr_value a < addr_value b then -1 else if addr_value a > addr_value b then 1
      else if zone a < zone b then -1 else if zone a > zone b then 1 else 0)"

section \<open>Prefixes\<close>

record ip_prefix =
  pfx_addr :: addr
  pfx_bits :: nat

text \<open>\<open>Prefix.Contains\<close>: a zoned address lies in no prefix, and families never mix.\<close>

fun prefix_contains :: "ip_prefix \<Rightarrow> addr \<Rightarrow> bool" where
  "prefix_contains p (V4 w) =
     (case pfx_addr p of V4 b \<Rightarrow> pfx_bits p \<le> 32 \<and> drop_bit (32 - pfx_bits p) (w XOR b) = 0 | _ \<Rightarrow> False)"
| "prefix_contains p (V6 w z) =
     (case pfx_addr p of V6 b _ \<Rightarrow> z = [] \<and> pfx_bits p \<le> 128 \<and> drop_bit (128 - pfx_bits p) (w XOR b) = 0 | _ \<Rightarrow> False)"
| "prefix_contains p NoAddr = False"

definition prefix_masked :: "ip_prefix \<Rightarrow> ip_prefix" where
  "prefix_masked p =
     (case pfx_addr p of
        V4 w \<Rightarrow> p\<lparr>pfx_addr := V4 (w AND NOT (mask (32 - pfx_bits p)))\<rparr>
      | V6 w z \<Rightarrow> p\<lparr>pfx_addr := V6 (w AND NOT (mask (128 - pfx_bits p))) []\<rparr>
      | NoAddr \<Rightarrow> p)"

section \<open>Classification\<close>

text \<open>The predicates look through an IPv4-mapped address, except \<open>IsUnspecified\<close>.\<close>

definition is_loopback :: "addr \<Rightarrow> bool" where
  "is_loopback a = (case unmap a of V4 w \<Rightarrow> drop_bit 24 w = 127 | V6 w _ \<Rightarrow> w = 1 | NoAddr \<Rightarrow> False)"

definition is_private :: "addr \<Rightarrow> bool" where
  "is_private a = (case unmap a of
       V4 w \<Rightarrow> drop_bit 24 w = 10 \<or> drop_bit 20 w = 0xac1 \<or> drop_bit 16 w = 0xc0a8
     | V6 w _ \<Rightarrow> drop_bit 121 w = 0x7e
     | NoAddr \<Rightarrow> False)"

definition is_link_local_unicast :: "addr \<Rightarrow> bool" where
  "is_link_local_unicast a = (case unmap a of
       V4 w \<Rightarrow> drop_bit 16 w = 0xa9fe | V6 w _ \<Rightarrow> drop_bit 118 w = 0x3fa | NoAddr \<Rightarrow> False)"

definition is_link_local_multicast :: "addr \<Rightarrow> bool" where
  "is_link_local_multicast a = (case unmap a of
       V4 w \<Rightarrow> drop_bit 8 w = 0xe00000 | V6 w _ \<Rightarrow> drop_bit 112 w AND 0xff0f = 0xff02 | NoAddr \<Rightarrow> False)"

definition is_unspecified :: "addr \<Rightarrow> bool" where
  "is_unspecified a = (a = V4 0 \<or> a = V6 0 [])"

definition is_multicast :: "addr \<Rightarrow> bool" where
  "is_multicast a = (case unmap a of
       V4 w \<Rightarrow> drop_bit 28 w = 0xe | V6 w _ \<Rightarrow> drop_bit 120 w = 0xff | NoAddr \<Rightarrow> False)"

definition is_global_unicast :: "addr \<Rightarrow> bool" where
  "is_global_unicast a =
     (addr_valid a \<and>
      (let u = unmap a in
        \<not> (is4 u \<and> (u = V4 0 \<or> u = V4 0xffffffff)) \<and>
        u \<noteq> V6 0 [] \<and> \<not> is_loopback u \<and> \<not> is_multicast u \<and> \<not> is_link_local_unicast u))"

section \<open>Parsing\<close>

definition digit_value :: "char \<Rightarrow> nat" where
  "digit_value c = of_char c - 48"

definition decimal_value :: "string \<Rightarrow> nat" where
  "decimal_value s = foldl (\<lambda>n c. 10 * n + digit_value c) 0 s"

text \<open>One octet of dotted notation: one to three digits, no leading zero, at most 255.\<close>

definition parse_octet :: "string \<Rightarrow> nat option" where
  "parse_octet s =
     (if s = [] \<or> \<not> list_all is_digit s \<or> (length s > 1 \<and> hd s = CHR ''0'') \<or> length s > 3 then None
      else if decimal_value s > 255 then None else Some (decimal_value s))"

definition parse_ip4_fields :: "string \<Rightarrow> ip4 option" where
  "parse_ip4_fields s =
     (case map parse_octet (split_on CHR ''.'' s) of
        [Some a, Some b, Some c, Some d] \<Rightarrow>
          Some (of_nat (((a * 256 + b) * 256 + c) * 256 + d))
      | _ \<Rightarrow> None)"

definition hex_value :: "char \<Rightarrow> nat option" where
  "hex_value c =
     (if is_digit c then Some (digit_value c)
      else if CHR ''a'' \<le> c \<and> c \<le> CHR ''f'' then Some (of_char c - 87)
      else if CHR ''A'' \<le> c \<and> c \<le> CHR ''F'' then Some (of_char c - 55)
      else None)"

text \<open>The longest run of hexadecimal digits and its value.\<close>

fun scan_hex :: "string \<Rightarrow> nat \<Rightarrow> nat \<times> nat \<times> string" where
  "scan_hex [] acc = (0, acc, [])"
| "scan_hex (c # cs) acc =
     (case hex_value c of
        None \<Rightarrow> (0, acc, c # cs)
      | Some v \<Rightarrow> (case scan_hex cs (16 * acc + v) of (n, a, r) \<Rightarrow> (Suc n, a, r)))"

text \<open>
  The group loop of \<open>parseIPv6\<close>. \<open>gs\<close> are the 16-bit groups read so far (so the byte
  position is \<open>2 * length gs\<close>), \<open>ell\<close> the group position of the ellipsis. At most eight
  groups are read, which is the first argument. The result is the groups, the ellipsis and
  the unread rest.
\<close>

fun ip6_groups :: "nat \<Rightarrow> nat list \<Rightarrow> nat option \<Rightarrow> string \<Rightarrow> (nat list \<times> nat option \<times> string) option" where
  "ip6_groups 0 gs ell s = Some (gs, ell, s)"
| "ip6_groups (Suc k) gs ell s =
     (case scan_hex s 0 of (n, acc, rest) \<Rightarrow>
        if n = 0 \<or> n > 4 then None
        else if rest \<noteq> [] \<and> hd rest = CHR ''.'' then
          (if ell = None \<and> length gs \<noteq> 6 then None
           else if length gs + 2 > 8 then None
           else (case parse_ip4_fields s of
                   None \<Rightarrow> None
                 | Some w \<Rightarrow> Some (gs @ [unat w div 65536, unat w mod 65536], ell, [])))
        else if rest = [] then Some (gs @ [acc], ell, [])
        else if hd rest \<noteq> CHR '':'' \<or> length rest = 1 then None
        else (let r = tl rest; gs' = gs @ [acc] in
              if hd r = CHR '':'' then
                (if ell \<noteq> None then None
                 else if tl r = [] then Some (gs', Some (length gs'), [])
                 else ip6_groups k gs' (Some (length gs')) (tl r))
              else ip6_groups k gs' ell r))"

definition groups_value :: "nat list \<Rightarrow> nat" where
  "groups_value gs = foldl (\<lambda>n g. 65536 * n + g) 0 gs"

definition parse_ip6 :: "string \<Rightarrow> addr option" where
  "parse_ip6 input =
     (case cut CHR ''%'' input of (s, z, zoned) \<Rightarrow>
        if zoned \<and> z = [] then None
        else if s = ''::'' then Some (V6 0 z)
        else (case (if has_prefix s ''::'' then ip6_groups 8 [] (Some 0) (drop 2 s)
                    else ip6_groups 8 [] None s) of
                None \<Rightarrow> None
              | Some (gs, ell, rest) \<Rightarrow>
                  if rest \<noteq> [] then None
                  else if length gs < 8 then
                    (case ell of
                       None \<Rightarrow> None
                     | Some e \<Rightarrow> Some (V6 (of_nat (groups_value
                                   (take e gs @ replicate (8 - length gs) 0 @ drop e gs))) z))
                  else if ell \<noteq> None then None
                  else Some (V6 (of_nat (groups_value gs)) z)))"

text \<open>\<open>netip.ParseAddr\<close>: the first dot, colon or percent sign decides the family.\<close>

fun parse_addr_scan :: "string \<Rightarrow> string \<Rightarrow> addr option" where
  "parse_addr_scan s [] = None"
| "parse_addr_scan s (c # cs) =
     (if c = CHR ''.'' then map_option V4 (parse_ip4_fields s)
      else if c = CHR '':'' then parse_ip6 s
      else if c = CHR ''%'' then None
      else parse_addr_scan s cs)"

definition parse_addr :: "string \<Rightarrow> addr option" where
  "parse_addr s = parse_addr_scan s s"

text \<open>\<open>netip.ParsePrefix\<close>: address, slash and a length without sign or leading zero; zones
  are refused.\<close>

definition parse_prefix :: "string \<Rightarrow> ip_prefix option" where
  "parse_prefix s =
     (let parts = split_on CHR ''/'' s in
      if length parts < 2 then None
      else let bits = last parts; a = join ''/'' (butlast parts) in
        (case parse_addr a of
           None \<Rightarrow> None
         | Some ip \<Rightarrow>
             if (is6 ip \<and> zone ip \<noteq> []) \<or> bits = [] \<or> \<not> list_all is_digit bits
                \<or> (length bits > 1 \<and> hd bits = CHR ''0'') \<or> decimal_value bits > bit_len ip
             then None
             else Some \<lparr>pfx_addr = ip, pfx_bits = decimal_value bits\<rparr>))"

text \<open>Evaluation of the parser on literals: the group loop unfolds at a numeral.\<close>

lemmas ip6_groups_numeral = ip6_groups.simps(2) [of "pred_numeral k" for k, folded numeral_eq_Suc]

lemmas replicate_numeral_unfold = replicate.simps(2) [of "pred_numeral k" for k, folded numeral_eq_Suc]

lemmas netip_parse = replicate_numeral_unfold
  ip6_groups_numeral has_prefix_def is_digit_def
  parse_addr_def parse_ip4_fields_def parse_octet_def decimal_value_def digit_value_def
  hex_value_def groups_value_def parse_ip6_def parse_prefix_def

lemma parse_addr_examples:
  "parse_addr ''192.0.2.1'' = Some (V4 0xC0000201)"
  "parse_addr ''2001:db8::ff'' = Some (V6 0x20010db80000000000000000000000ff [])"
  "parse_addr ''::ffff:10.0.0.1'' = Some (V6 0xffff0a000001 [])"
  "parse_addr ''fe80::1%eth0'' = Some (V6 0xfe800000000000000000000000000001 ''eth0'')"
  "parse_addr ''1.2.3.04'' = None"
  "parse_addr ''1::2::3'' = None"
  by (simp_all add: netip_parse)

section \<open>Printing\<close>

definition ip4_string :: "ip4 \<Rightarrow> string" where
  "ip4_string w = join ''.'' (map nat_string
     [unat w div 16777216, unat w div 65536 mod 256, unat w div 256 mod 256, unat w mod 256])"

definition hex_digit :: "nat \<Rightarrow> char" where
  "hex_digit d = (if d < 10 then char_of (48 + d) else char_of (87 + d))"

fun hex_string :: "nat \<Rightarrow> string" where
  "hex_string n = (if n < 16 then [hex_digit n] else hex_string (n div 16) @ [hex_digit (n mod 16)])"

declare hex_string.simps [simp del]

definition ip6_words :: "ip6 \<Rightarrow> nat list" where
  "ip6_words w = map (\<lambda>i. unat w div 65536 ^ (7 - i) mod 65536) [0..<8]"

definition zero_run :: "nat list \<Rightarrow> nat \<Rightarrow> nat" where
  "zero_run gs i = length (takeWhile (\<lambda>g. g = 0) (drop i gs))"

text \<open>The first longest run of at least two zero groups, as start and length.\<close>

definition best_zero_run :: "nat list \<Rightarrow> (nat \<times> nat) option" where
  "best_zero_run gs =
     fold (\<lambda>i best. let l = zero_run gs i in
             if l \<ge> 2 \<and> (case best of None \<Rightarrow> True | Some (_, m) \<Rightarrow> l > m) then Some (i, l) else best)
       [0..<8] None"

definition ip6_string :: "ip6 \<Rightarrow> string" where
  "ip6_string w =
     (let gs = ip6_words w; hx = (\<lambda>xs. join '':'' (map hex_string xs)) in
      if is_4in6 w then ''::ffff:'' @ ip4_string (ucast w)
      else (case best_zero_run gs of
              None \<Rightarrow> hx gs
            | Some (i, l) \<Rightarrow> hx (take i gs) @ ''::'' @ hx (drop (i + l) gs)))"

fun addr_string :: "addr \<Rightarrow> string" where
  "addr_string NoAddr = ''invalid IP''"
| "addr_string (V4 w) = ip4_string w"
| "addr_string (V6 w z) = ip6_string w @ (if z = [] then [] else ''%'' @ z)"

section \<open>Facts about addresses\<close>

lemma unmap_unmap [simp]: "unmap (unmap a) = unmap a"
  by (cases a) auto

lemma addr_valid_unmap [simp]: "addr_valid (unmap a) = addr_valid a"
  by (cases a) auto

lemma drop_bit_xor_eq_0_iff:
  fixes a b :: "'a::len word"
  shows "drop_bit n (a XOR b) = 0 \<longleftrightarrow> drop_bit n a = drop_bit n b"
proof -
  have "x = y" if "x XOR y = 0" for x y :: "'a word"
  proof -
    have "x = (x XOR y) XOR y" by (simp add: xor.assoc)
    with that show ?thesis by simp
  qed
  then show ?thesis by (auto simp: drop_bit_xor)
qed

lemma drop_bit_eq_iff_unat:
  fixes a :: "'a::len word"
  shows "drop_bit n a = drop_bit n b \<longleftrightarrow> unat a div 2 ^ n = unat b div 2 ^ n"
proof -
  have "unat (drop_bit n c) = unat c div 2 ^ n" for c :: "'a word"
    unfolding unat_drop_bit_eq by (rule drop_bit_eq_div)
  then show ?thesis by (metis unsigned_word_eqI)
qed

text \<open>Containment in an IPv4 prefix is equality of the leading bits, and so an interval.\<close>

lemma prefix_contains_V4:
  "prefix_contains \<lparr>pfx_addr = V4 b, pfx_bits = n\<rparr> (V4 w) \<longleftrightarrow>
     n \<le> 32 \<and> unat w div 2 ^ (32 - n) = unat b div 2 ^ (32 - n)"
  by (simp add: drop_bit_xor_eq_0_iff drop_bit_eq_iff_unat del: drop_bit_xor)

lemma prefix_contains_V6:
  "prefix_contains \<lparr>pfx_addr = V6 b y, pfx_bits = n\<rparr> (V6 w z) \<longleftrightarrow>
     z = [] \<and> n \<le> 128 \<and> unat w div 2 ^ (128 - n) = unat b div 2 ^ (128 - n)"
  by (simp add: drop_bit_xor_eq_0_iff drop_bit_eq_iff_unat del: drop_bit_xor)

section \<open>Printed IPv4 addresses parse back\<close>

lemma digit_char:
  assumes "d < 10"
  shows "is_digit (char_of (48 + d))" "digit_value (char_of (48 + d)) = d"
    "char_of (48 + d) = CHR ''0'' \<longleftrightarrow> d = 0"
  using assms
  by (simp_all add: is_digit_def digit_value_def less_eq_char_def char_of_eq_iff take_bit_eq_mod)

lemma decimal_value_snoc: "decimal_value (s @ [c]) = 10 * decimal_value s + digit_value c"
  by (simp add: decimal_value_def)

text \<open>The decimal rendering: its value, its digits and no leading zero.\<close>

lemma nat_string_props:
  "decimal_value (nat_string n) = n \<and> nat_string n \<noteq> [] \<and> list_all is_digit (nat_string n)
   \<and> (hd (nat_string n) = CHR ''0'' \<longrightarrow> n = 0)"
proof (induction n rule: nat_string.induct)
  case (1 n)
  show ?case
  proof (cases "n < 10")
    case True
    then show ?thesis
      by (simp add: nat_string.simps [of n] digit_char decimal_value_def)
  next
    case False
    with 1 have IH: "decimal_value (nat_string (n div 10)) = n div 10" "nat_string (n div 10) \<noteq> []"
      "list_all is_digit (nat_string (n div 10))" "hd (nat_string (n div 10)) = CHR ''0'' \<longrightarrow> n div 10 = 0"
      by auto
    have "n mod 10 < 10" by simp
    with False IH show ?thesis
      by (simp add: nat_string.simps [of n] digit_char decimal_value_snoc) auto
  qed
qed

lemma length_nat_string_le: "n < 10 ^ k \<Longrightarrow> 0 < k \<Longrightarrow> length (nat_string n) \<le> k"
proof (induction n arbitrary: k rule: nat_string.induct)
  case (1 n)
  show ?case
  proof (cases "n < 10")
    case True
    with "1.prems" show ?thesis by (simp add: nat_string.simps [of n])
  next
    case False
    obtain m where k: "k = Suc m" using "1.prems" by (cases k) auto
    have "0 < m" using False "1.prems"(1) k by (cases m) auto
    moreover have "n div 10 < 10 ^ m" using "1.prems"(1) k by (simp add: div_less_iff_less_mult mult.commute)
    ultimately have "length (nat_string (n div 10)) \<le> m" using "1.IH" False by blast
    with False k show ?thesis by (simp add: nat_string.simps [of n])
  qed
qed

lemma nat_string_digits: "\<forall>c \<in> set (nat_string n). is_digit c"
  using nat_string_props [of n] by (simp add: list_all_iff)

lemma nat_string_byte:
  assumes "n < 256"
  shows "parse_octet (nat_string n) = Some n"
proof -
  have "length (nat_string n) \<le> 3"
    using assms by (intro length_nat_string_le) auto
  moreover have "\<not> (length (nat_string n) > 1 \<and> hd (nat_string n) = CHR ''0'')"
    using nat_string_props [of n] by (auto simp: nat_string.simps [of n] split: if_splits)
  ultimately show ?thesis using nat_string_props [of n] assms by (simp add: parse_octet_def)
qed

lemma nat_string_no_dot: "CHR ''.'' \<notin> set (nat_string n)"
  using nat_string_digits [of n] by (auto simp: is_digit_def)

lemma split_on_no_sep: "c \<notin> set s \<Longrightarrow> split_on c s = [s]"
  by (induction s) auto

lemma split_on_append_sep: "c \<notin> set s \<Longrightarrow> split_on c (s @ c # t) = s # split_on c t"
  by (induction s) auto

lemma parse_ip4_string: "parse_ip4_fields (ip4_string w) = Some w"
proof -
  define n where "n = unat w"
  have n: "n < 4294967296" using unsigned_less [of w] by (simp add: n_def)
  have w: "w = of_nat n" by (simp add: n_def)
  have "n div 16777216 < 256" using n by (simp add: div_less_iff_less_mult)
  then have "parse_ip4_fields (ip4_string w) =
     Some (of_nat (((n div 16777216 * 256 + n div 65536 mod 256) * 256 + n div 256 mod 256) * 256 + n mod 256))"
    using nat_string_byte nat_string_no_dot
    by (simp add: parse_ip4_fields_def ip4_string_def split_on_append_sep split_on_no_sep flip: n_def)
  also have "((n div 16777216 * 256 + n div 65536 mod 256) * 256 + n div 256 mod 256) * 256 + n mod 256 = n"
    using div_mult2_eq [of n 256 256] div_mult2_eq [of n 65536 256]
      div_mult_mod_eq [of n 256] div_mult_mod_eq [of "n div 256" 256] div_mult_mod_eq [of "n div 65536" 256]
    by simp
  finally show ?thesis using w by simp
qed

lemma parse_addr_scan_dot:
  "\<forall>c \<in> set s. c \<noteq> CHR '':'' \<and> c \<noteq> CHR ''%'' \<Longrightarrow> CHR ''.'' \<in> set s \<Longrightarrow>
   parse_addr_scan t s = map_option V4 (parse_ip4_fields t)"
  by (induction s) auto

lemma parse_addr_ip4_string: "parse_addr (addr_string (V4 w)) = Some (V4 w)"
proof -
  let ?s = "ip4_string w"
  have *: "c \<noteq> CHR '':'' \<and> c \<noteq> CHR ''%''" if "is_digit c" for c
    using that by (auto simp: is_digit_def)
  have "\<forall>c \<in> set ?s. c \<noteq> CHR '':'' \<and> c \<noteq> CHR ''%''"
    unfolding ip4_string_def using nat_string_digits * by auto
  moreover have "CHR ''.'' \<in> set ?s" by (simp add: ip4_string_def)
  ultimately show ?thesis
    by (simp add: parse_addr_def parse_addr_scan_dot parse_ip4_string)
qed

end
