(* ===== verification/Model.thy ===== *)
theory Model
  imports Netip
begin

text \<open>
  Package internal/model: the report values, the typed application errors and their mapping
  to the two interfaces, the result-status contract, provenance and attribution views.

  The string types of the code that cross the JSON boundary (relations, strengths, scopes,
  modes, kinds) stay strings, with the named constants as abbreviations; the status types
  that only the program produces are datatypes, with a constructor for Go's zero value where
  a zero value occurs. A \<open>*T\<close> field is an option, so copying it needs no definition:
  values do not alias here.
\<close>

section \<open>Enumerations\<close>

type_synonym target_kind = string
abbreviation "TargetDomain \<equiv> ''domain''"
abbreviation "TargetURL \<equiv> ''url''"
abbreviation "TargetIP \<equiv> ''ip''"

type_synonym analysis_mode = string
abbreviation "ModeFull \<equiv> ''full''"
abbreviation "ModeDNS \<equiv> ''dns''"
abbreviation "ModeIP \<equiv> ''ip''"
abbreviation "ModeReclassify \<equiv> ''reclassify''"

datatype report_status = StatusUnset | StatusComplete | StatusPartial | StatusFailed | StatusCancelled

datatype coverage_status =
  CoverageUnset | CoverageComplete | CoveragePartial | CoverageUnavailable | CoverageSkipped

type_synonym relation = string
abbreviation "RelationWebDelivery \<equiv> ''web_delivery''"
abbreviation "RelationWebIntegration \<equiv> ''web_integration''"
abbreviation "RelationNetworkProvider \<equiv> ''network_provider''"
abbreviation "RelationNetworkOrigin \<equiv> ''network_origin''"
abbreviation "RelationServiceRange \<equiv> ''service_range''"

type_synonym strength = string
abbreviation "StrengthStrong \<equiv> ''strong''"
abbreviation "StrengthModerate \<equiv> ''moderate''"
abbreviation "StrengthWeak \<equiv> ''weak''"

type_synonym activity = string
abbreviation "ActivityConfigured \<equiv> ''configured''"
abbreviation "ActivityResponding \<equiv> ''responding''"
abbreviation "ActivityVerificationOnly \<equiv> ''verification_only''"
abbreviation "ActivityHistorical \<equiv> ''historical''"
abbreviation "ActivityUnknown \<equiv> ''unknown''"

type_synonym scope = string
abbreviation "ScopeRoot \<equiv> ''root''"
abbreviation "ScopeSubdomain \<equiv> ''subdomain''"
abbreviation "ScopeCNAME \<equiv> ''cname_target''"
abbreviation "ScopeMailDependency \<equiv> ''mail_dependency''"
abbreviation "ScopeDNSDependency \<equiv> ''dns_dependency''"
abbreviation "ScopeInheritedZone \<equiv> ''inherited_zone''"
abbreviation "ScopeExternalRedirect \<equiv> ''external_redirect''"

datatype dns_outcome =
  OutcomeUnset | Answered | NoData | NXDomain | SERVFAIL | Refused | TimedOut | OutcomeCancelled
| BudgetExhausted | OutcomeFailed

section \<open>Errors\<close>

datatype error_code =
  CodeNone | CodeInvalidSyntax | CodeInvalidTarget | CodeInvalidOptions | CodeNotFound
| CodeInputTooLarge | CodePolicyBlocked | CodeTimeout | CodeBudgetExceeded
| CodeSourceUnavailable | CodeCapabilityUnavailable | CodeBundleUnavailable
| CodeBundleIncompatible | CodeQueueCapacityExceeded | CodeIdempotencyConflict
| CodePersistenceUnavailable | CodePersistenceFailed | CodeCollectionFailed | CodeCancelled
| CodeLimitExceeded

fun error_code_string :: "error_code \<Rightarrow> string" where
  "error_code_string CodeNone = []"
| "error_code_string CodeInvalidSyntax = ''invalid_syntax''"
| "error_code_string CodeInvalidTarget = ''invalid_target''"
| "error_code_string CodeInvalidOptions = ''invalid_options''"
| "error_code_string CodeNotFound = ''not_found''"
| "error_code_string CodeInputTooLarge = ''input_too_large''"
| "error_code_string CodePolicyBlocked = ''policy_blocked''"
| "error_code_string CodeTimeout = ''timeout''"
| "error_code_string CodeBudgetExceeded = ''budget_exceeded''"
| "error_code_string CodeSourceUnavailable = ''source_unavailable''"
| "error_code_string CodeCapabilityUnavailable = ''capability_unavailable''"
| "error_code_string CodeBundleUnavailable = ''bundle_unavailable''"
| "error_code_string CodeBundleIncompatible = ''bundle_incompatible''"
| "error_code_string CodeQueueCapacityExceeded = ''queue_capacity_exceeded''"
| "error_code_string CodeIdempotencyConflict = ''idempotency_conflict''"
| "error_code_string CodePersistenceUnavailable = ''persistence_unavailable''"
| "error_code_string CodePersistenceFailed = ''persistence_failed''"
| "error_code_string CodeCollectionFailed = ''collection_failed''"
| "error_code_string CodeCancelled = ''cancelled''"
| "error_code_string CodeLimitExceeded = ''limit_exceeded''"

text \<open>
  An error value: an \<open>*AppError\<close> with its code, message and cause; an untyped error; an error
  wrapped with \<open>fmt.Errorf("...: %w", err)\<close>; two errors joined with \<open>errors.Join\<close>, whose tree
  is searched from the left; or one of the two errors of a finished context.
\<close>

datatype go_error =
  AppError error_code string "go_error option"
| Errorf string
| Wrap string go_error
| Joined go_error go_error
| ContextCanceled
| DeadlineExceeded

definition NewError :: "error_code \<Rightarrow> string \<Rightarrow> go_error option \<Rightarrow> go_error" where
  "NewError code message cause = AppError code message cause"

fun error_string :: "go_error \<Rightarrow> string" where
  "error_string (AppError code message _) =
     (if message \<noteq> [] then message else error_code_string code)"
| "error_string (Errorf m) = m"
| "error_string (Wrap m e) = m @ '': '' @ error_string e"
| "error_string (Joined d e) = error_string d @ CHR 0x0A # error_string e"
| "error_string ContextCanceled = ''context canceled''"
| "error_string DeadlineExceeded = ''context deadline exceeded''"

text \<open>The error a value unwraps to, and \<open>errors.Is\<close> for the two context errors.\<close>

fun unwrap :: "go_error \<Rightarrow> go_error option" where
  "unwrap (AppError _ _ cause) = cause"
| "unwrap (Wrap _ e) = Some e"
| "unwrap _ = None"

fun errors_is :: "go_error \<Rightarrow> go_error \<Rightarrow> bool" where
  "errors_is (AppError code m cause) t =
     (AppError code m cause = t \<or> (case cause of None \<Rightarrow> False | Some c \<Rightarrow> errors_is c t))"
| "errors_is (Wrap m e) t = (Wrap m e = t \<or> errors_is e t)"
| "errors_is (Joined d e) t = (Joined d e = t \<or> errors_is d t \<or> errors_is e t)"
| "errors_is e t = (e = t)"

fun has_app_error :: "go_error \<Rightarrow> bool" where
  "has_app_error (AppError _ _ _) = True"
| "has_app_error (Wrap _ e) = has_app_error e"
| "has_app_error (Joined d e) = (has_app_error d \<or> has_app_error e)"
| "has_app_error _ = False"

fun error_code_of_error :: "go_error \<Rightarrow> error_code" where
  "error_code_of_error (AppError code _ _) = code"
| "error_code_of_error (Wrap _ e) = error_code_of_error e"
| "error_code_of_error (Joined d e) = (if has_app_error d then error_code_of_error d else error_code_of_error e)"
| "error_code_of_error _ = CodeNone"

definition ErrorCodeOf :: "go_error option \<Rightarrow> error_code" where
  "ErrorCodeOf err = (case err of None \<Rightarrow> CodeNone | Some e \<Rightarrow> error_code_of_error e)"

definition WrapError :: "string \<Rightarrow> go_error option \<Rightarrow> go_error option" where
  "WrapError operation err = (case err of None \<Rightarrow> None | Some e \<Rightarrow> Some (Wrap operation e))"

definition HTTPStatus :: "go_error option \<Rightarrow> nat" where
  "HTTPStatus err =
     (case ErrorCodeOf err of
        CodeInvalidSyntax \<Rightarrow> 400
      | CodeInvalidTarget \<Rightarrow> 422 | CodeInvalidOptions \<Rightarrow> 422
      | CodeNotFound \<Rightarrow> 404
      | CodeInputTooLarge \<Rightarrow> 413
      | CodeIdempotencyConflict \<Rightarrow> 409
      | CodeQueueCapacityExceeded \<Rightarrow> 429
      | CodeCapabilityUnavailable \<Rightarrow> 503 | CodeBundleUnavailable \<Rightarrow> 503
      | CodeBundleIncompatible \<Rightarrow> 503 | CodePersistenceUnavailable \<Rightarrow> 503
      | CodePersistenceFailed \<Rightarrow> 503
      | CodeBudgetExceeded \<Rightarrow> 200 | CodeCollectionFailed \<Rightarrow> 200 | CodeCancelled \<Rightarrow> 200
      | _ \<Rightarrow> 500)"

definition CLIExit :: "go_error option \<Rightarrow> nat" where
  "CLIExit err =
     (case ErrorCodeOf err of
        CodeInvalidSyntax \<Rightarrow> 2 | CodeInvalidTarget \<Rightarrow> 2 | CodeInvalidOptions \<Rightarrow> 2
      | CodeNotFound \<Rightarrow> 2 | CodeInputTooLarge \<Rightarrow> 2 | CodeIdempotencyConflict \<Rightarrow> 2
      | CodeQueueCapacityExceeded \<Rightarrow> 2
      | CodeBudgetExceeded \<Rightarrow> 3 | CodeCollectionFailed \<Rightarrow> 3 | CodeCancelled \<Rightarrow> 3
      | CodeCapabilityUnavailable \<Rightarrow> 4 | CodeBundleUnavailable \<Rightarrow> 4
      | CodeBundleIncompatible \<Rightarrow> 4 | CodePersistenceUnavailable \<Rightarrow> 4
      | CodePersistenceFailed \<Rightarrow> 4
      | _ \<Rightarrow> 4)"

section \<open>Execution status (SPEC section 14.2)\<close>

record execution_summary =
  UsablePath :: bool
  UsefulEvidence :: bool
  CompletedSearch :: bool
  RequestedIncomplete :: bool
  CollectionFailed :: bool
  Cancelled :: bool

record execution_decision =
  dec_Status :: report_status
  dec_ErrorCode :: error_code
  dec_HTTPStatus :: nat
  dec_CLIExit :: nat

definition DecideExecution :: "execution_summary \<Rightarrow> execution_decision" where
  "DecideExecution s =
     (if Cancelled s then
        \<lparr>dec_Status = StatusCancelled, dec_ErrorCode = CodeCancelled, dec_HTTPStatus = 200, dec_CLIExit = 3\<rparr>
      else if \<not> UsablePath s then
        \<lparr>dec_Status = StatusUnset, dec_ErrorCode = CodeCapabilityUnavailable, dec_HTTPStatus = 503, dec_CLIExit = 4\<rparr>
      else if CollectionFailed s \<and> \<not> UsefulEvidence s \<and> \<not> CompletedSearch s then
        \<lparr>dec_Status = StatusFailed, dec_ErrorCode = CodeCollectionFailed, dec_HTTPStatus = 200, dec_CLIExit = 3\<rparr>
      else if RequestedIncomplete s then
        \<lparr>dec_Status = StatusPartial, dec_ErrorCode = CodeNone, dec_HTTPStatus = 200, dec_CLIExit = 3\<rparr>
      else
        \<lparr>dec_Status = StatusComplete, dec_ErrorCode = CodeNone, dec_HTTPStatus = 200, dec_CLIExit = 0\<rparr>)"

section \<open>Requests\<close>

record target =
  tg_Original :: string
  tg_Canonical :: string
  tg_Kind :: target_kind

record analyze_request =
  ar_Target :: string
  ar_Kind :: target_kind
  ar_Mode :: analysis_mode
  ar_IncludeWWW :: "bool option"
  ar_AdditionalHostnames :: "string list"
  ar_ScopeRoots :: "string list"
  ar_CTDiscovery :: bool
  ar_OrganizationLabel :: string

definition zero_analyze_request :: analyze_request where
  "zero_analyze_request = \<lparr>ar_Target = [], ar_Kind = [], ar_Mode = [], ar_IncludeWWW = None,
     ar_AdditionalHostnames = [], ar_ScopeRoots = [], ar_CTDiscovery = False, ar_OrganizationLabel = []\<rparr>"

record normalized_request =
  nr_Target :: target
  nr_Mode :: analysis_mode
  nr_SeedHostnames :: "string list"
  nr_ScopeRoots :: "string list"
  nr_OrganizationLabel :: string
  nr_CTDiscovery :: bool
  nr_IDNAProfileVersion :: string
  nr_PublicSuffixVersion :: string

record reclassify_request =
  rr_ReportID :: string
  rr_BundleID :: string

section \<open>Observations, evidence and findings\<close>

type_synonym json_value = string

record dns_question =
  q_Name :: string
  q_Type :: "16 word"

record dns_payload =
  dp_RRType :: string
  dp_Owner :: string
  dp_Outcome :: dns_outcome
  dp_Value :: string
  dp_Address :: addr
  dp_TTL :: "32 word"
  dp_Section :: string
  dp_ResponseCode :: int
  dp_Resolver :: string
  dp_Transport :: string
  dp_PolicyReason :: string

record http_header =
  hh_Name :: string
  hh_Values :: "string list"

record http_payload =
  hp_URL :: string
  hp_StatusCode :: int
  hp_PeerAddress :: addr
  hp_Headers :: "http_header list"
  hp_BodyHash :: string
  hp_BodyLength :: int
  hp_BodyTruncated :: bool
  hp_BodyReadFailed :: bool
  hp_ScriptURLs :: "string list"
  hp_ScriptURLsOmitted :: int
  hp_ScriptScanComplete :: "bool option"

record technology_payload =
  tp_Name :: string
  tp_DetectorID :: string
  tp_ExplanationGranularity :: string

record observation =
  ob_ID :: string
  ob_Type :: string
  ob_Subject :: string
  ob_Relation :: relation
  ob_Scope :: scope
  ob_ObservedAt :: gotime
  ob_CollectorVersion :: string
  ob_Status :: string
  ob_Payload :: json_value
  ob_ContentHash :: string

record dns_result =
  dr_Question :: dns_question
  dr_Attempt :: int
  dr_Outcome :: dns_outcome
  dr_ResponseCode :: int
  dr_Transport :: string
  dr_Resolver :: string
  dr_Records :: "observation list"
  dr_Addresses :: "addr list"
  dr_NegativeTTL :: "32 word"
  dr_Omitted :: int

record dataset_record =
  ds_SourceID :: string
  ds_Revision :: string
  ds_Digest :: string
  ds_RecordRef :: string
  ds_Fields :: json_value
  ds_PublishedAt :: "gotime option"
  ds_EffectiveAt :: "gotime option"

record evidence =
  ev_ID :: string
  ev_ObservationIDs :: "string list"
  ev_DatasetRecords :: "dataset_record list"
  ev_ClassifiedAt :: gotime
  ev_DetectorID :: string
  ev_RuleID :: string
  ev_Subject :: string
  ev_ProviderID :: string
  ev_ProductID :: string
  ev_Category :: string
  ev_Relation :: relation
  ev_Strength :: strength
  ev_Activity :: activity
  ev_Scope :: scope
  ev_Explanation :: string

record finding =
  fi_ID :: string
  fi_Subject :: string
  fi_ProviderID :: string
  fi_ProductID :: string
  fi_Category :: string
  fi_Relation :: relation
  fi_Strength :: strength
  fi_Activity :: activity
  fi_Scope :: scope
  fi_EvidenceIDs :: "string list"
  fi_ConflictIDs :: "string list"
  fi_Limitations :: "string list"

record coverage =
  cv_Capability :: string
  cv_Status :: coverage_status
  cv_Attempted :: int
  cv_Completed :: int
  cv_ErrorCodes :: "error_code list"
  cv_Truncated :: int
  cv_Omitted :: int
  cv_DataAgeSeconds :: "int option"
  cv_Reason :: string

definition zero_coverage :: coverage where
  "zero_coverage = \<lparr>cv_Capability = [], cv_Status = CoverageUnset, cv_Attempted = 0,
     cv_Completed = 0, cv_ErrorCodes = [], cv_Truncated = 0, cv_Omitted = 0,
     cv_DataAgeSeconds = None, cv_Reason = []\<rparr>"

section \<open>Provenance\<close>

datatype provenance_status = ProvenanceUnset | ProvenanceKnown | ProvenanceUnknown

record provenance_value =
  pv_Status :: provenance_status
  pv_Value :: string

definition UnknownProvenance :: provenance_value where
  "UnknownProvenance = \<lparr>pv_Status = ProvenanceUnknown, pv_Value = []\<rparr>"

definition KnownProvenance :: "string \<Rightarrow> provenance_value" where
  "KnownProvenance value =
     (if value = [] then UnknownProvenance
      else \<lparr>pv_Status = ProvenanceKnown, pv_Value = value\<rparr>)"

definition pv_Explicit :: "provenance_value \<Rightarrow> provenance_value" where
  "pv_Explicit v =
     (if pv_Status v \<noteq> ProvenanceKnown \<or> pv_Value v = [] then UnknownProvenance else v)"

datatype build_dirty_state = BuildUnset | BuildClean | BuildDirty | BuildDirtyUnknown

record build_provenance =
  bp_Revision :: provenance_value
  bp_Dirty :: build_dirty_state

definition bp_Explicit :: "build_provenance \<Rightarrow> build_provenance" where
  "bp_Explicit b =
     (let b = b\<lparr>bp_Revision := pv_Explicit (bp_Revision b)\<rparr> in
      if bp_Dirty b \<noteq> BuildClean \<and> bp_Dirty b \<noteq> BuildDirty
      then b\<lparr>bp_Dirty := BuildDirtyUnknown\<rparr> else b)"

definition CompatibilityID :: "build_provenance \<Rightarrow> string" where
  "CompatibilityID b =
     (let b = bp_Explicit b in
      if pv_Status (bp_Revision b) \<noteq> ProvenanceKnown then ''unknown''
      else (case bp_Dirty b of
              BuildDirty \<Rightarrow> ''git:'' @ pv_Value (bp_Revision b) @ ''+dirty''
            | BuildDirtyUnknown \<Rightarrow> ''git:'' @ pv_Value (bp_Revision b) @ ''+dirty-unknown''
            | _ \<Rightarrow> ''git:'' @ pv_Value (bp_Revision b)))"

record collection_provenance =
  cp_Build :: build_provenance
  cp_PolicyRevision :: provenance_value
  cp_FingerprintDigest :: provenance_value
  cp_ObservationContext :: "provenance_value option"

record classification_provenance =
  lp_Build :: build_provenance
  lp_RulesDigest :: provenance_value

record report_provenance =
  rp_Collection :: collection_provenance
  rp_Classification :: classification_provenance

definition ExplicitReportProvenance ::
    "build_provenance \<Rightarrow> provenance_value \<Rightarrow> provenance_value \<Rightarrow> provenance_value \<Rightarrow> report_provenance" where
  "ExplicitReportProvenance build policyRevision fingerprintDigest rulesDigest =
     (let build = bp_Explicit build in
      \<lparr>rp_Collection = \<lparr>cp_Build = build, cp_PolicyRevision = pv_Explicit policyRevision,
         cp_FingerprintDigest = pv_Explicit fingerprintDigest, cp_ObservationContext = None\<rparr>,
       rp_Classification = \<lparr>lp_Build = build, lp_RulesDigest = pv_Explicit rulesDigest\<rparr>\<rparr>)"

definition UnknownCollectionProvenance :: collection_provenance where
  "UnknownCollectionProvenance =
     \<lparr>cp_Build = bp_Explicit \<lparr>bp_Revision = \<lparr>pv_Status = ProvenanceUnset, pv_Value = []\<rparr>, bp_Dirty = BuildUnset\<rparr>,
      cp_PolicyRevision = UnknownProvenance, cp_FingerprintDigest = UnknownProvenance,
      cp_ObservationContext = Some UnknownProvenance\<rparr>"

section \<open>The report\<close>

record report =
  re_SchemaVersion :: string
  re_ContentIDVersion :: string
  re_ID :: string
  re_OriginalReportID :: string
  re_Target :: target
  re_Mode :: analysis_mode
  re_StartedAt :: gotime
  re_EndedAt :: gotime
  re_ClassifiedAt :: gotime
  re_BundleID :: string
  re_BuildID :: string
  re_Provenance :: "report_provenance option"
  re_Status :: report_status
  re_Observations :: "observation list"
  re_Evidence :: "evidence list"
  re_Findings :: "finding list"
  re_Coverage :: "coverage list"
  re_Warnings :: "string list"

definition zero_report :: report where
  "zero_report = \<lparr>re_SchemaVersion = [], re_ContentIDVersion = [], re_ID = [],
     re_OriginalReportID = [], re_Target = \<lparr>tg_Original = [], tg_Canonical = [], tg_Kind = []\<rparr>,
     re_Mode = [], re_StartedAt = 0, re_EndedAt = 0, re_ClassifiedAt = 0, re_BundleID = [],
     re_BuildID = [], re_Provenance = None, re_Status = StatusUnset, re_Observations = [],
     re_Evidence = [], re_Findings = [], re_Coverage = [], re_Warnings = []\<rparr>"

section \<open>Attribution views\<close>

record capability_state =
  cs_Name :: string
  cs_Status :: coverage_status
  cs_Reason :: string
  cs_SourceAge :: "duration option"
  cs_PublishedAt :: "gotime option"

definition CapabilityAt :: "capability_state \<Rightarrow> gotime \<Rightarrow> capability_state" where
  "CapabilityAt c now =
     (case cs_PublishedAt c of
        Some published \<Rightarrow> c\<lparr>cs_SourceAge := Some (max 0 (now - published))\<rparr>
      | None \<Rightarrow> c)"

record attribution_view =
  av_bundleID :: string
  av_policyVersion :: string
  av_detectorIDs :: "string list"
  av_capabilities :: "capability_state list"

text \<open>A copied capability with a publication time forgets a stored age, which is recomputed on use.\<close>

definition cloneCapability :: "capability_state \<Rightarrow> capability_state" where
  "cloneCapability c = (if cs_PublishedAt c \<noteq> None then c\<lparr>cs_SourceAge := None\<rparr> else c)"

definition cloneCapabilities :: "capability_state list \<Rightarrow> capability_state list" where
  "cloneCapabilities cs = map cloneCapability cs"

definition NewAttributionView ::
    "string \<Rightarrow> string \<Rightarrow> string list \<Rightarrow> capability_state list \<Rightarrow> attribution_view" where
  "NewAttributionView bundleID policyVersion detectorIDs capabilities =
     \<lparr>av_bundleID = bundleID, av_policyVersion = policyVersion, av_detectorIDs = detectorIDs,
      av_capabilities = cloneCapabilities capabilities\<rparr>"

definition Capabilities :: "attribution_view \<Rightarrow> capability_state list" where
  "Capabilities v = cloneCapabilities (av_capabilities v)"

definition CapabilitiesAt :: "attribution_view \<Rightarrow> gotime \<Rightarrow> capability_state list" where
  "CapabilitiesAt v now = map (\<lambda>c. CapabilityAt c now) (av_capabilities v)"

record association =
  as_ID :: string
  as_Prefix :: ip_prefix
  as_ProviderID :: string
  as_ProductID :: string
  as_Service :: string
  as_Region :: string
  as_Role :: string
  as_Lifecycle :: string
  as_LifecycleTime :: string
  as_LifecycleSourceRevision :: string
  as_LifecycleSourceDigest :: string
  as_LifecycleRecordRef :: string
  as_SourceID :: string
  as_SourceRevision :: string
  as_SourceDigest :: string
  as_RecordRef :: string
  as_RecordRefs :: "string list"
  as_CoverageNotes :: string
  as_ProvenanceGroup :: string

record asn_record =
  an_ASN :: "32 word"
  an_Description :: string
  an_CountryCode :: string
  an_SourceID :: string
  an_SourceRevision :: string
  an_SourceDigest :: string
  an_RecordRef :: string

record ip_lookup_request =
  lk_Address :: addr
  lk_Match :: string
  lk_IncludeRetired :: bool
  lk_Categories :: "string list"

section \<open>Properties\<close>

lemma error_code_string_inject [simp]: "error_code_string a = error_code_string b \<longleftrightarrow> a = b"
  by (cases a; cases b) simp_all

lemma ErrorCodeOf_WrapError [simp]: "ErrorCodeOf (WrapError op e) = ErrorCodeOf e"
  by (cases e) (simp_all add: ErrorCodeOf_def WrapError_def)

lemma ErrorCodeOf_NewError [simp]: "ErrorCodeOf (Some (NewError c m e)) = c"
  by (simp add: ErrorCodeOf_def NewError_def)

lemma pv_Explicit_idem [simp]: "pv_Explicit (pv_Explicit v) = pv_Explicit v"
  by (simp add: pv_Explicit_def UnknownProvenance_def)

lemma bp_Explicit_idem [simp]: "bp_Explicit (bp_Explicit b) = bp_Explicit b"
  by (simp add: bp_Explicit_def Let_def)

lemma cloneCapability_idem [simp]: "cloneCapability (cloneCapability c) = cloneCapability c"
  by (simp add: cloneCapability_def)

lemma CapabilityAt_clone:
  "cs_PublishedAt c \<noteq> None \<Longrightarrow> CapabilityAt (cloneCapability c) now = CapabilityAt c now"
  by (auto simp: CapabilityAt_def cloneCapability_def split: option.splits)

end
