(* ===== verification/Report.thy ===== *)
theory Report
  imports Model
begin

text \<open>
  Package internal/model, json.go: the canonical form of a report, the check of its references
  and the canonical JSON writer behind content identifiers. The JSON encoding of a Go value
  (encoding/json) is an argument where it is used.
\<close>

section \<open>Canonical reports\<close>

definition canonical_evidence :: "evidence \<Rightarrow> evidence" where
  "canonical_evidence e = e\<lparr>ev_ObservationIDs := sort (ev_ObservationIDs e),
     ev_DatasetRecords := sort_key (\<lambda>d. [ds_SourceID d, ds_RecordRef d]) (ev_DatasetRecords e)\<rparr>"

definition canonical_finding :: "finding \<Rightarrow> finding" where
  "canonical_finding f = f\<lparr>fi_EvidenceIDs := sort (fi_EvidenceIDs f),
     fi_ConflictIDs := sort (fi_ConflictIDs f), fi_Limitations := sort (fi_Limitations f)\<rparr>"

definition canonical_coverage :: "coverage \<Rightarrow> coverage" where
  "canonical_coverage c = c\<lparr>cv_ErrorCodes := sort_key error_code_string (cv_ErrorCodes c)\<rparr>"

definition canonicalReport :: "report \<Rightarrow> report" where
  "canonicalReport r = r\<lparr>
     re_Observations := sort_key ob_ID (re_Observations r),
     re_Evidence := map canonical_evidence (sort_key ev_ID (re_Evidence r)),
     re_Findings := map canonical_finding (sort_key fi_ID (re_Findings r)),
     re_Coverage := map canonical_coverage (sort_key cv_Capability (re_Coverage r)),
     re_Warnings := sort (re_Warnings r)\<rparr>"

definition CanonicalJSON :: "(report \<Rightarrow> go_error + string) \<Rightarrow> report \<Rightarrow> go_error + string" where
  "CanonicalJSON marshal r = marshal (canonicalReport r)"

section \<open>References\<close>

text \<open>The loops of \<open>ValidateReferences\<close>. Each returns the first error or the set of
  identifiers it has collected, as the map of the source does.\<close>

fun check_observations :: "observation list \<Rightarrow> string list \<Rightarrow> go_error + string list" where
  "check_observations [] seen = Inr seen"
| "check_observations (ob # obs) seen =
     (if ob_ID ob = [] then Inl (Errorf ''observation has empty ID'')
      else if ob_ID ob \<in> set seen then Inl (Errorf (''duplicate observation ID '' @ ob_ID ob))
      else check_observations obs (ob_ID ob # seen))"

fun check_refs :: "string \<Rightarrow> string list \<Rightarrow> string list \<Rightarrow> go_error option" where
  "check_refs what known [] = None"
| "check_refs what known (i # ids) =
     (if i \<notin> set known then Some (Errorf (what @ i)) else check_refs what known ids)"

fun check_evidence :: "string list \<Rightarrow> evidence list \<Rightarrow> string list \<Rightarrow> go_error + string list" where
  "check_evidence observations [] seen = Inr seen"
| "check_evidence observations (item # items) seen =
     (if ev_ID item = [] then Inl (Errorf ''evidence has empty ID'')
      else if ev_ID item \<in> set seen then Inl (Errorf (''duplicate evidence ID '' @ ev_ID item))
      else (case check_refs (''evidence '' @ ev_ID item @ '' references missing observation '')
                   observations (ev_ObservationIDs item) of
              Some e \<Rightarrow> Inl e
            | None \<Rightarrow> check_evidence observations items (ev_ID item # seen)))"

definition technology_only :: "finding \<Rightarrow> bool" where
  "technology_only f = (\<not> (fi_ProductID f = [] \<or> fi_Category f \<noteq> ''web_technology''
     \<or> fi_Relation f \<noteq> RelationWebIntegration))"

fun check_findings :: "string list \<Rightarrow> finding list \<Rightarrow> string list \<Rightarrow> go_error option" where
  "check_findings known [] seen = None"
| "check_findings known (f # fs) seen =
     (if fi_ID f = [] then Some (Errorf ''finding has empty ID'')
      else if fi_ID f \<in> set seen then Some (Errorf (''duplicate finding ID '' @ fi_ID f))
      else if fi_ProviderID f = [] \<and> \<not> technology_only f
      then Some (Errorf (''finding '' @ fi_ID f @ '' has no provider and is not a technology-only finding''))
      else if fi_EvidenceIDs f = [] then Some (Errorf (''finding '' @ fi_ID f @ '' has no evidence''))
      else (case check_refs (''finding '' @ fi_ID f @ '' references missing evidence '') known (fi_EvidenceIDs f) of
              Some e \<Rightarrow> Some e
            | None \<Rightarrow> check_findings known fs (fi_ID f # seen)))"

definition ValidateReferences :: "report \<Rightarrow> go_error option" where
  "ValidateReferences r =
     (case check_observations (re_Observations r) [] of
        Inl e \<Rightarrow> Some e
      | Inr observations \<Rightarrow>
          (case check_evidence observations (re_Evidence r) [] of
             Inl e \<Rightarrow> Some e
           | Inr evidence \<Rightarrow> check_findings evidence (re_Findings r) []))"

section \<open>Canonical JSON\<close>

text \<open>The values \<open>json.Decoder\<close> with \<open>UseNumber\<close> produces. An object is a Go map: its keys
  are distinct and its order in the list below is the (arbitrary) iteration order.\<close>

datatype json =
  JNull | JBool bool | JString string | JNumber string | JArray "json list" | JObject "(string \<times> json) list"

text \<open>Go's \<open>big.Int\<close> text: an optional sign and at least one digit.\<close>

definition parse_big :: "string \<Rightarrow> int option" where
  "parse_big s =
     (let (neg, ds) = (case s of
           c # r \<Rightarrow> if c = CHR ''-'' then (True, r) else if c = CHR ''+'' then (False, r) else (False, s)
         | [] \<Rightarrow> (False, []))
      in if ds = [] \<or> \<not> list_all is_digit ds then None
         else Some ((if neg then -1 else 1) * int (decimal_value ds)))"

definition big_string :: "int \<Rightarrow> string" where
  "big_string i = (if i < 0 then ''-'' @ nat_string (nat (- i)) else nat_string (nat i))"

text \<open>The sign, the integer and fraction digits and the exponent text of a number.\<close>

definition number_split :: "string \<Rightarrow> bool \<times> string \<times> string \<times> string" where
  "number_split v =
     (let negative = has_prefix v ''-'';
          value = (if negative then trim_prefix v ''-'' else v);
          (mantissa, exponentText, hasExponent) =
            (case cut CHR ''e'' value of (m, x, found) \<Rightarrow>
               if found then (m, x, True) else cut CHR ''E'' value);
          (integer, fraction, hasFraction) = cut CHR ''.'' mantissa
      in (negative, integer, fraction, if hasExponent then exponentText else ''0''))"

definition normalizeJSONNumber :: "string \<Rightarrow> go_error + string" where
  "normalizeJSONNumber v =
     (case number_split v of (negative, integer, fraction, exponentText) \<Rightarrow>
        case parse_big exponentText of
          None \<Rightarrow> Inl (Errorf (''invalid JSON number '' @ (if negative then trim_prefix v ''-'' else v)))
        | Some exponent \<Rightarrow>
            let digits = trim_left CHR ''0'' (integer @ fraction) in
            if digits = [] then Inr ''0''
            else let trimmed = trim_right CHR ''0'' digits;
                     baseExponent = exponent - int (length fraction)
                       + (int (length digits) - int (length trimmed));
                     scientificExponent = baseExponent + (int (length trimmed) - 1);
                     coefficient = take 1 trimmed @ (if length trimmed > 1 then ''.'' @ drop 1 trimmed else [])
                 in Inr ((if negative then ''-'' else []) @ coefficient @ ''e'' @ big_string scientificExponent))"

text \<open>The writer appends to a buffer; \<open>quote\<close> is \<open>json.Marshal\<close> of a string. Keys are
  written in sorted order.\<close>

primrec writeCanonicalJSON :: "(string \<Rightarrow> string) \<Rightarrow> json \<Rightarrow> go_error + string" where
  "writeCanonicalJSON quote JNull = Inr ''null''"
| "writeCanonicalJSON quote (JBool b) = Inr (if b then ''true'' else ''false'')"
| "writeCanonicalJSON quote (JString s) = Inr (quote s)"
| "writeCanonicalJSON quote (JNumber n) = normalizeJSONNumber n"
| "writeCanonicalJSON quote (JArray vs) =
     and_then (map_result id (map (writeCanonicalJSON quote) vs)) (\<lambda>parts.
       Inr (''['' @ join '','' parts @ '']''))"
| "writeCanonicalJSON quote (JObject m) =
     (let written = map (map_prod id (writeCanonicalJSON quote)) m in
      and_then
        (map_result (\<lambda>(k, w). and_then w (\<lambda>t. Inr (quote k @ '':'' @ t))) (sort_key fst written)) (\<lambda>parts.
        Inr (''{'' @ join '','' parts @ ''}'')))"

section \<open>Content identifiers\<close>

text \<open>Marshalling a report and decoding it into a map of JSON values is \<open>ce_project\<close>. Times are instants
  here, so reading them in UTC changes nothing.\<close>

record content_env =
  ce_project :: "report \<Rightarrow> go_error + (string \<times> json) list"
  ce_quote :: "string \<Rightarrow> string"
  ce_sha256 :: "string \<Rightarrow> string"

abbreviation "SchemaVersion \<equiv> ''1''"
abbreviation "ReportContentIDVersion \<equiv> ''2''"

definition contentCanonicalJSON :: "content_env \<Rightarrow> report \<Rightarrow> go_error + string" where
  "contentCanonicalJSON C r =
     (let version = (if re_ContentIDVersion r = [] then ReportContentIDVersion else re_ContentIDVersion r) in
      if version \<noteq> ''1'' \<and> version \<noteq> ReportContentIDVersion
      then Inl (Errorf (''unsupported content ID version '' @ ce_quote C version))
      else and_then (ce_project C ((canonicalReport r)\<lparr>re_ContentIDVersion := version\<rparr>)) (\<lambda>projection.
        writeCanonicalJSON (ce_quote C) (JObject (filter
          (\<lambda>(key, _). key \<noteq> ''report_id'' \<and> (version = ''1'' \<longrightarrow> key \<noteq> ''provenance'')) projection))))"

definition ContentID :: "content_env \<Rightarrow> report \<Rightarrow> go_error + string" where
  "ContentID C r =
     (case contentCanonicalJSON C r of
        Inl e \<Rightarrow> Inl (Wrap ''encode canonical report content'' e)
      | Inr data \<Rightarrow> Inr (''sha256:'' @ ce_sha256 C data))"

section \<open>Well-formed reports\<close>

definition wf_finding :: "string set \<Rightarrow> finding \<Rightarrow> bool" where
  "wf_finding known f \<longleftrightarrow> fi_ID f \<noteq> [] \<and> (fi_ProviderID f \<noteq> [] \<or> technology_only f)
     \<and> fi_EvidenceIDs f \<noteq> [] \<and> set (fi_EvidenceIDs f) \<subseteq> known"

definition wf_report :: "report \<Rightarrow> bool" where
  "wf_report r \<longleftrightarrow>
     distinct (map ob_ID (re_Observations r)) \<and> [] \<notin> ob_ID ` set (re_Observations r)
     \<and> distinct (map ev_ID (re_Evidence r)) \<and> [] \<notin> ev_ID ` set (re_Evidence r)
     \<and> (\<forall>e \<in> set (re_Evidence r). set (ev_ObservationIDs e) \<subseteq> ob_ID ` set (re_Observations r))
     \<and> distinct (map fi_ID (re_Findings r))
     \<and> (\<forall>f \<in> set (re_Findings r). wf_finding (ev_ID ` set (re_Evidence r)) f)"

lemma check_observations_Inr:
  "check_observations obs seen = Inr ids \<longleftrightarrow>
     distinct (map ob_ID obs) \<and> ob_ID ` set obs \<inter> set seen = {} \<and> [] \<notin> ob_ID ` set obs
     \<and> ids = rev (map ob_ID obs) @ seen"
  by (induction obs arbitrary: seen) auto

lemma check_refs_None: "check_refs what known ids = None \<longleftrightarrow> set ids \<subseteq> set known"
  by (induction ids) auto

lemma check_refs_case [simp]:
  "(case check_refs what known ids of None \<Rightarrow> a | Some e \<Rightarrow> Inl e) = Inr x \<longleftrightarrow>
     set ids \<subseteq> set known \<and> a = Inr x"
  "(case check_refs what known ids of None \<Rightarrow> b | Some e \<Rightarrow> Some e) = None \<longleftrightarrow>
     set ids \<subseteq> set known \<and> b = None"
  using check_refs_None [of what known ids] by (cases "check_refs what known ids"; simp)+

lemma check_evidence_Inr:
  "check_evidence observations items seen = Inr ids \<longleftrightarrow>
     distinct (map ev_ID items) \<and> ev_ID ` set items \<inter> set seen = {} \<and> [] \<notin> ev_ID ` set items
     \<and> (\<forall>e \<in> set items. set (ev_ObservationIDs e) \<subseteq> set observations)
     \<and> ids = rev (map ev_ID items) @ seen"
  by (induction items arbitrary: seen) auto

lemma check_findings_None:
  "check_findings known fs seen = None \<longleftrightarrow>
     distinct (map fi_ID fs) \<and> fi_ID ` set fs \<inter> set seen = {} \<and> (\<forall>f \<in> set fs. wf_finding (set known) f)"
  by (induction fs arbitrary: seen) (auto simp: wf_finding_def)

lemma ValidateReferences_iff: "ValidateReferences r = None \<longleftrightarrow> wf_report r"
proof (cases "check_observations (re_Observations r) []")
  case (Inl e)
  then have "\<not> (distinct (map ob_ID (re_Observations r)) \<and> [] \<notin> ob_ID ` set (re_Observations r))"
    using check_observations_Inr [of "re_Observations r" "[]"] by fastforce
  with Inl show ?thesis by (auto simp: ValidateReferences_def wf_report_def)
next
  case obs: (Inr ids)
  then have ids: "set ids = ob_ID ` set (re_Observations r)"
    "distinct (map ob_ID (re_Observations r)) \<and> [] \<notin> ob_ID ` set (re_Observations r)"
    by (auto simp: check_observations_Inr)
  show ?thesis
  proof (cases "check_evidence ids (re_Evidence r) []")
    case (Inl e)
    then have "\<not> (distinct (map ev_ID (re_Evidence r)) \<and> [] \<notin> ev_ID ` set (re_Evidence r)
      \<and> (\<forall>e \<in> set (re_Evidence r). set (ev_ObservationIDs e) \<subseteq> set ids))"
      using check_evidence_Inr [of ids "re_Evidence r" "[]"] by fastforce
    with obs Inl ids show ?thesis by (auto simp: ValidateReferences_def wf_report_def)
  next
    case (Inr evs)
    then have "set evs = ev_ID ` set (re_Evidence r)"
      "distinct (map ev_ID (re_Evidence r)) \<and> [] \<notin> ev_ID ` set (re_Evidence r)
       \<and> (\<forall>e \<in> set (re_Evidence r). set (ev_ObservationIDs e) \<subseteq> set ids)"
      by (auto simp: check_evidence_Inr)
    with obs Inr ids show ?thesis
      by (auto simp: ValidateReferences_def wf_report_def check_findings_None)
  qed
qed

lemma wf_report_canonical: "wf_report (canonicalReport r) \<longleftrightarrow> wf_report r"
proof -
  have d: "distinct (map f (sort_key f xs)) \<longleftrightarrow> distinct (map f xs)" for f :: "'a \<Rightarrow> string" and xs
    by (metis distinct_map distinct_sort set_sort)
  have e: "map ev_ID (map canonical_evidence es) = map ev_ID es"
    "ev_ID (canonical_evidence x) = ev_ID x"
    "set (ev_ObservationIDs (canonical_evidence x)) = set (ev_ObservationIDs x)" for es x
    by (simp_all add: canonical_evidence_def)
  have f: "map fi_ID (map canonical_finding fs) = map fi_ID fs"
    "wf_finding k (canonical_finding x) = wf_finding k x" for fs k x
    by (auto simp: canonical_finding_def wf_finding_def technology_only_def)
       (metis empty_set set_empty set_sort)+
  show ?thesis
    unfolding wf_report_def canonicalReport_def by (simp add: d e f image_image del: map_map)
qed

text \<open>The reference check accepts a report exactly when it is well formed: identifiers are
  non-empty and unique, evidence refers only to observations of the report, and every finding
  names a provider or is technology-only and rests on evidence of the report. Sorting a report
  into its canonical form changes neither verdict.\<close>

lemma validate_references_correct:
  "(ValidateReferences r = None \<longleftrightarrow> wf_report r)
   \<and> (ValidateReferences (canonicalReport r) = None \<longleftrightarrow> wf_report r)"
  by (simp add: ValidateReferences_iff wf_report_canonical)

section \<open>The canonical form does not depend on the order of the collections\<close>

definition reordered :: "report \<Rightarrow> report \<Rightarrow> bool" where
  "reordered r s \<longleftrightarrow>
     mset (re_Observations r) = mset (re_Observations s) \<and> mset (re_Evidence r) = mset (re_Evidence s)
     \<and> mset (re_Findings r) = mset (re_Findings s) \<and> mset (re_Coverage r) = mset (re_Coverage s)
     \<and> mset (re_Warnings r) = mset (re_Warnings s)
     \<and> r\<lparr>re_Observations := [], re_Evidence := [], re_Findings := [], re_Coverage := [], re_Warnings := []\<rparr>
       = s\<lparr>re_Observations := [], re_Evidence := [], re_Findings := [], re_Coverage := [], re_Warnings := []\<rparr>"

lemma sort_key_reordered:
  "mset xs = mset ys \<Longrightarrow> distinct (map f xs) \<Longrightarrow> sort_key f xs = sort_key f ys"
  by (rule sort_key_permutation) (auto simp: distinct_map)

text \<open>Two reports that list the same observations, evidence, findings, coverage and warnings in a
  different order have the same canonical form, hence the same canonical JSON, provided the
  report is valid and names each capability once.\<close>

lemma canonical_report_order_independent:
  assumes "ValidateReferences r = None" and "distinct (map cv_Capability (re_Coverage r))"
    and "reordered r s"
  shows "canonicalReport r = canonicalReport s \<and> CanonicalJSON marshal r = CanonicalJSON marshal s"
proof -
  from assms(1) have "distinct (map ob_ID (re_Observations r))" "distinct (map ev_ID (re_Evidence r))"
    "distinct (map fi_ID (re_Findings r))"
    by (simp_all add: ValidateReferences_iff wf_report_def)
  then have "sort_key ob_ID (re_Observations r) = sort_key ob_ID (re_Observations s)"
    "sort_key ev_ID (re_Evidence r) = sort_key ev_ID (re_Evidence s)"
    "sort_key fi_ID (re_Findings r) = sort_key fi_ID (re_Findings s)"
    "sort_key cv_Capability (re_Coverage r) = sort_key cv_Capability (re_Coverage s)"
    using assms(2,3) by (simp_all add: sort_key_reordered reordered_def)
  moreover have "sort (re_Warnings r) = sort (re_Warnings s)"
    using assms(3) by (intro sort_key_permutation) (simp_all add: reordered_def)
  ultimately have "canonicalReport r = canonicalReport s"
    using assms(3) by (cases r; cases s) (simp add: canonicalReport_def reordered_def)
  then show ?thesis by (simp add: CanonicalJSON_def)
qed

definition sample_observation :: "string \<Rightarrow> observation" where
  "sample_observation i = \<lparr>ob_ID = i, ob_Type = ''dns_record'', ob_Subject = ''example.com'', ob_Relation = [],
     ob_Scope = [], ob_ObservedAt = 1, ob_CollectorVersion = [], ob_Status = ''answered'',
     ob_Payload = [], ob_ContentHash = []\<rparr>"

lemma canonical_report_order_independent_example:
  "canonicalReport (zero_report\<lparr>re_Observations := [sample_observation ''a'', sample_observation ''b'']\<rparr>) =
   canonicalReport (zero_report\<lparr>re_Observations := [sample_observation ''b'', sample_observation ''a'']\<rparr>)"
  by (rule conjunct1 [OF canonical_report_order_independent])
     (simp_all add: ValidateReferences_def zero_report_def sample_observation_def reordered_def
        add_mset_commute)

section \<open>The canonical JSON writer\<close>

text \<open>Two decoded values are the same up to the iteration order of their objects, at any depth.\<close>

inductive same_json :: "json \<Rightarrow> json \<Rightarrow> bool" where
  same_refl: "same_json v v"
| same_array: "list_all2 same_json vs ws \<Longrightarrow> same_json (JArray vs) (JArray ws)"
| same_object: "distinct (map fst m) \<Longrightarrow>
    list_all2 (\<lambda>kv kw. fst kv = fst kw \<and> same_json (snd kv) (snd kw)) m m' \<Longrightarrow> mset n = mset m' \<Longrightarrow>
    same_json (JObject m) (JObject n)"

text \<open>The canonical JSON text of a decoded value does not depend on the order in which Go
  iterates over the maps in it, at any nesting depth: two values that are equal up to that
  order are written to the same bytes or rejected with the same error.\<close>

lemma canonical_json_order_independent:
  "same_json v w \<Longrightarrow> writeCanonicalJSON quote v = writeCanonicalJSON quote w"
proof (induction rule: same_json.induct)
  case (same_array vs ws)
  then have "map (writeCanonicalJSON quote) vs = map (writeCanonicalJSON quote) ws"
    by (auto simp: list_all2_conv_all_nth intro: nth_equalityI)
  then show ?case by simp
next
  case (same_object m m' n)
  let ?w = "map_prod id (writeCanonicalJSON quote)"
  from same_object.IH have eq: "map ?w m = map ?w m'"
    by (auto simp: list_all2_conv_all_nth intro!: nth_equalityI prod_eqI)
  have "map fst (map ?w m) = map fst m" by simp
  with same_object.hyps(1) have "distinct (map fst (map ?w m))" by simp
  moreover have "mset (map ?w m) = mset (map ?w n)" unfolding eq using same_object.hyps(2) by simp
  ultimately have "sort_key fst (map ?w m) = sort_key fst (map ?w n)" by (rule sort_key_reordered [rotated])
  then show ?case by simp
qed simp

lemma canonical_json_order_independent_example:
  "writeCanonicalJSON id (JArray [JObject [(''b'', JNumber ''10.0''), (''a'', JNull)]]) = Inr ''[{a:null,b:1e1}]''
   \<and> writeCanonicalJSON id (JArray [JObject [(''b'', JNumber ''10.0''), (''a'', JNull)]]) =
     writeCanonicalJSON id (JArray [JObject [(''a'', JNull), (''b'', JNumber ''10.0'')]])"
proof
  show "writeCanonicalJSON id (JArray [JObject [(''b'', JNumber ''10.0''), (''a'', JNull)]]) = Inr ''[{a:null,b:1e1}]''"
    by (simp add: normalizeJSONNumber_def number_split_def has_prefix_def Let_def parse_big_def is_digit_def decimal_value_def
          digit_value_def trim_left_def trim_right_def big_string_def nat_string.simps char_of_eq_iff)
  show "writeCanonicalJSON id (JArray [JObject [(''b'', JNumber ''10.0''), (''a'', JNull)]]) =
     writeCanonicalJSON id (JArray [JObject [(''a'', JNull), (''b'', JNumber ''10.0'')]])"
    by (rule canonical_json_order_independent)
       (auto simp: add_mset_commute intro!: same_json.intros
         exI [of _ "[(''b'', JNumber ''10.0''), (''a'', JNull)]"])
qed

end
