(* ===== verification/Json_Number.thy ===== *)
theory Json_Number
  imports Complex_Main Report
begin

text \<open>
  What the canonical number text of json.go means: the value of a JSON number as a real
  number, and the lemmas that canonical texts and values correspond one to one.
\<close>

definition json_number :: "string \<Rightarrow> bool" where
  "json_number v = (case number_split v of (_, integer, fraction, exponentText) \<Rightarrow>
     list_all is_digit integer \<and> list_all is_digit fraction \<and> parse_big exponentText \<noteq> None)"

definition number_value :: "string \<Rightarrow> real" where
  "number_value v = (case number_split v of (negative, integer, fraction, exponentText) \<Rightarrow>
     (if negative then -1 else 1) * real (decimal_value (integer @ fraction))
       * 10 powi (the (parse_big exponentText) - int (length fraction)))"

section \<open>Decimal digits\<close>

lemma decimal_value_Nil [simp]: "decimal_value [] = 0"
  by (simp add: decimal_value_def)

lemma decimal_value_trim_left [simp]: "decimal_value (trim_left CHR ''0'' s) = decimal_value s"
proof (induction s)
  case (Cons c s)
  then show ?case
    by (auto simp: trim_left_def decimal_value_def digit_value_def)
qed (simp add: trim_left_def)

lemma trim_right_snoc:
  "trim_right c (s @ [d]) = (if d = c then trim_right c s else s @ [d])"
  by (simp add: trim_right_def)

lemma length_trim_right_le: "length (trim_right c s) \<le> length s"
  by (induction s rule: rev_induct) (auto simp: trim_right_snoc, simp add: trim_right_def)

lemma decimal_value_trim_right:
  "decimal_value s = decimal_value (trim_right CHR ''0'' s) * 10 ^ (length s - length (trim_right CHR ''0'' s))"
proof (induction s rule: rev_induct)
  case (snoc d s)
  then show ?case using length_trim_right_le [of "CHR ''0''" s]
    by (auto simp: trim_right_snoc decimal_value_snoc digit_value_def Suc_diff_le)
qed (simp add: trim_right_def)

lemma digit_value_bounds: "is_digit c \<Longrightarrow> digit_value c < 10 \<and> (digit_value c = 0 \<longleftrightarrow> c = CHR ''0'')"
proof -
  assume "is_digit c"
  then have "48 \<le> (of_char c :: nat)" "(of_char c :: nat) \<le> 57"
    by (auto simp: is_digit_def less_eq_char_def)
  moreover have "(of_char c :: nat) = 48 \<longleftrightarrow> c = CHR ''0''"
    using of_char_eq_iff [of c "CHR ''0''", where ?'a = nat] by simp
  ultimately show ?thesis by (auto simp: digit_value_def)
qed

lemma char_of_digit_value: "is_digit c \<Longrightarrow> char_of (48 + digit_value c) = c"
  by (simp add: is_digit_def less_eq_char_def digit_value_def)

lemma nat_string_decimal_value:
  "s \<noteq> [] \<Longrightarrow> list_all is_digit s \<Longrightarrow> hd s \<noteq> CHR ''0'' \<Longrightarrow>
   nat_string (decimal_value s) = s \<and> 0 < decimal_value s"
proof (induction s rule: rev_induct)
  case (snoc c s)
  have c: "digit_value c < 10" "is_digit c" using snoc.prems digit_value_bounds by auto
  show ?case
  proof (cases "s = []")
    case True
    with snoc.prems c digit_value_bounds [of c] show ?thesis
      by (simp add: decimal_value_def nat_string.simps [of "digit_value c"] char_of_digit_value)
  next
    case False
    with snoc have IH: "nat_string (decimal_value s) = s" "0 < decimal_value s" by auto
    then have "nat_string (10 * decimal_value s + digit_value c) = s @ [c]"
      using c by (subst nat_string.simps) (simp add: char_of_digit_value)
    with IH show ?thesis by (simp add: decimal_value_snoc)
  qed
qed simp

lemma not_dvd_last_digit:
  assumes "s \<noteq> []" "list_all is_digit s" "last s \<noteq> CHR ''0''"
  shows "\<not> 10 dvd decimal_value s"
proof -
  obtain t c where s: "s = t @ [c]" using assms(1) by (metis append_butlast_last_id)
  with assms digit_value_bounds [of c] have "digit_value c < 10" "digit_value c \<noteq> 0" by auto
  then show ?thesis unfolding s decimal_value_snoc by presburger
qed

lemma parse_big_string [simp]: "parse_big (big_string i) = Some i"
proof -
  obtain c r where n: "nat_string (nat \<bar>i\<bar>) = c # r" and c: "is_digit c"
    using nat_string_props [of "nat \<bar>i\<bar>"] by (cases "nat_string (nat \<bar>i\<bar>)") auto
  have "c \<noteq> CHR ''-''" "c \<noteq> CHR ''+''" using c by (auto simp: is_digit_def)
  then show ?thesis using nat_string_props [of "nat \<bar>i\<bar>"] n
    by (cases "i < 0") (auto simp: parse_big_def big_string_def)
qed

section \<open>Scientific notation\<close>

text \<open>The mantissa without trailing zeros and its exponent determine the value and conversely.\<close>

lemma mantissa_unique_le:
  fixes m n :: nat and e f :: int
  assumes "real m * 10 powi e = real n * 10 powi f" "\<not> 10 dvd m" "e \<le> f"
  shows "m = n \<and> e = f"
proof -
  define k where "k = nat (f - e)"
  have "f = e + int k" using assms(3) by (simp add: k_def)
  then have "real m * 10 powi e = real (n * 10 ^ k) * 10 powi e"
    using assms(1) by (simp add: power_int_add mult.assoc mult.commute mult.left_commute)
  then have "real m = real (n * 10 ^ k)" by simp
  then have m: "m = n * 10 ^ k" by (simp only: of_nat_eq_iff)
  have "k = 0"
  proof (rule ccontr)
    assume "k \<noteq> 0"
    then have "10 dvd n * 10 ^ k" by (simp add: dvd_power)
    with m assms(2) show False by simp
  qed
  with m \<open>f = e + int k\<close> show ?thesis by simp
qed

lemma mantissa_unique:
  fixes m n :: nat and e f :: int
  assumes "real m * 10 powi e = real n * 10 powi f" "\<not> 10 dvd m" "\<not> 10 dvd n"
  shows "m = n \<and> e = f"
  using assms mantissa_unique_le [of m e n f] mantissa_unique_le [of n f m e] by (cases "e \<le> f") auto

definition scientific :: "bool \<Rightarrow> nat \<Rightarrow> int \<Rightarrow> string" where
  "scientific negative m e =
     (if m = 0 then ''0''
      else (if negative then ''-'' else []) @ take 1 (nat_string m)
        @ (if length (nat_string m) > 1 then ''.'' @ drop 1 (nat_string m) else [])
        @ ''e'' @ big_string (e + (int (length (nat_string m)) - 1)))"

text \<open>The canonical text is the scientific notation of a mantissa that 10 does not divide.\<close>

lemma normalizeJSONNumber_scientific:
  assumes "json_number v"
  obtains m e where "normalizeJSONNumber v = Inr (scientific (fst (number_split v)) m e)"
    "number_value v = (if fst (number_split v) then -1 else 1) * (real m * 10 powi e)"
    "m = 0 \<and> e = 0 \<or> \<not> 10 dvd m"
proof -
  obtain negative integer fraction x where split: "number_split v = (negative, integer, fraction, x)"
    by (cases "number_split v") auto
  from assms obtain exponent where x: "parse_big x = Some exponent"
    and ds: "list_all is_digit (integer @ fraction)"
    by (auto simp: json_number_def split)
  let ?d = "trim_left CHR ''0'' (integer @ fraction)"
  let ?t = "trim_right CHR ''0'' ?d"
  let ?e = "exponent - int (length fraction)"
  have val: "number_value v = (if negative then -1 else 1) * (real (decimal_value ?d) * 10 powi ?e)"
    by (simp add: number_value_def split x)
  show thesis
  proof (cases "?d = []")
    case True
    then have "normalizeJSONNumber v = Inr (scientific negative 0 0)"
      by (simp add: normalizeJSONNumber_def split x scientific_def)
    moreover from True have "decimal_value ?d = 0" by (metis decimal_value_Nil)
    then have "number_value v = 0" using val by simp
    ultimately show thesis using that [of 0 0] split by simp
  next
    case False
    have dd: "list_all is_digit ?d"
      using ds by (auto simp: trim_left_def list_all_iff dest: set_dropWhileD)
    have hd: "hd ?d \<noteq> CHR ''0''" using False hd_dropWhile [of "\<lambda>x. x = CHR ''0''"] by (auto simp: trim_left_def)
    have pos: "0 < decimal_value ?d" using nat_string_decimal_value False dd hd by blast
    have ne: "?t \<noteq> []" using pos decimal_value_trim_right [of ?d] by (metis decimal_value_Nil mult_is_0 neq0_conv)
    have td: "list_all is_digit ?t"
      using dd by (auto simp: trim_right_def list_all_iff dest: set_dropWhileD)
    have last: "last ?t \<noteq> CHR ''0''"
      using ne hd_dropWhile [of "\<lambda>x. x = CHR ''0''" "rev ?d"] by (simp add: trim_right_def last_rev)
    obtain tail where pre: "?d = ?t @ tail"
      unfolding trim_right_def by (metis rev_append rev_rev_ident takeWhile_dropWhile_id)
    then have "hd ?t \<noteq> CHR ''0''" using ne hd by (metis hd_append2)
    then have ns: "nat_string (decimal_value ?t) = ?t" "0 < decimal_value ?t"
      using nat_string_decimal_value ne td by blast+
    have len: "length ?t \<le> length ?d" by (rule length_trim_right_le)
    let ?k = "?e + (int (length ?d) - int (length ?t))"
    have "normalizeJSONNumber v = Inr (scientific negative (decimal_value ?t) ?k)"
      using False ns by (simp add: normalizeJSONNumber_def split x scientific_def Let_def)
    moreover have "real (decimal_value ?d) * 10 powi ?e = real (decimal_value ?t) * 10 powi ?k"
    proof -
      have "real (decimal_value ?d) = real (decimal_value ?t) * 10 ^ (length ?d - length ?t)"
        by (subst decimal_value_trim_right) simp
      moreover have "(10::real) powi ?k = 10 ^ (length ?d - length ?t) * 10 powi ?e"
        using len by (simp add: power_int_add of_nat_diff flip: power_int_of_nat)
      ultimately show ?thesis by simp
    qed
    moreover have "\<not> 10 dvd decimal_value ?t" using not_dvd_last_digit ne td last by blast
    ultimately show thesis using that [of "decimal_value ?t" ?k] val split by simp
  qed
qed

lemma cut_append: "c \<notin> set a \<Longrightarrow> cut c (a @ c # b) = (a, b, True)"
  by (induction a) auto

lemma cut_absent: "c \<notin> set a \<Longrightarrow> cut c a = (a, [], False)"
  by (induction a) auto

lemma number_value_zero: "number_value ''0'' = 0"
  by (simp add: number_value_def number_split_def has_prefix_def decimal_value_def digit_value_def Let_def)

text \<open>Reading a canonical text back: the value is that of the mantissa and exponent.\<close>

lemma number_value_scientific:
  "number_value (scientific negative m e) = (if negative then -1 else 1) * (real m * 10 powi e)"
proof (cases "m = 0")
  case True
  then show ?thesis by (simp add: scientific_def number_value_zero)
next
  case False
  obtain c r where n: "nat_string m = c # r" using nat_string_props [of m] by (cases "nat_string m") auto
  have d: "is_digit x" if "x \<in> set (c # r)" for x using nat_string_digits [of m] that by (auto simp: n)
  have no: "x \<noteq> CHR ''e'' \<and> x \<noteq> CHR ''.'' \<and> x \<noteq> CHR ''-''" if "x \<in> set (c # r)" for x
    using d [OF that] by (auto simp: is_digit_def)
  define b where "b = big_string (e + int (length r))"
  let ?man = "c # (if r = [] then [] else CHR ''.'' # r)"
  have written: "scientific negative m e = (if negative then ''-'' else []) @ ?man @ CHR ''e'' # b"
    using False by (auto simp: scientific_def n b_def)
  have "cut CHR ''e'' (?man @ CHR ''e'' # b) = (?man, b, True)"
    using no by (intro cut_append) auto
  moreover have "cut CHR ''.'' ?man = ([c], r, r \<noteq> [])"
    using no cut_append [of "CHR ''.''" "[c]" r] by auto
  moreover have "c \<noteq> CHR ''-''" using no by simp
  ultimately have "number_split (scientific negative m e) = (negative, [c], r, b)"
    unfolding written by (cases negative; cases "r = []") (simp_all add: number_split_def has_prefix_def trim_prefix_def)
  then have "number_value (scientific negative m e) =
      (if negative then -1 else 1) * real (decimal_value (c # r)) * 10 powi e"
    by (simp add: number_value_def b_def)
  also have "decimal_value (c # r) = m" using nat_string_props [of m] by (simp add: n)
  finally show ?thesis by (simp add: mult.assoc)
qed

text \<open>C33: The canonical text of a JSON number denotes the same number, and two JSON numbers get the
  same canonical text exactly when they are numerically equal. So the content identifier of
  a report depends on the values of its numbers and not on how they were written.\<close>

theorem canonical_number_iff_same_value:
  assumes "json_number v" "json_number w"
  shows "\<exists>text. normalizeJSONNumber v = Inr text \<and> number_value text = number_value v
    \<and> (normalizeJSONNumber w = Inr text \<longleftrightarrow> number_value v = number_value w)"
proof -
  obtain m e where v: "normalizeJSONNumber v = Inr (scientific (fst (number_split v)) m e)"
    "number_value v = (if fst (number_split v) then -1 else 1) * (real m * 10 powi e)"
    "m = 0 \<and> e = 0 \<or> \<not> 10 dvd m" using normalizeJSONNumber_scientific [OF assms(1)] .
  obtain n f where w: "normalizeJSONNumber w = Inr (scientific (fst (number_split w)) n f)"
    "number_value w = (if fst (number_split w) then -1 else 1) * (real n * 10 powi f)"
    "n = 0 \<and> f = 0 \<or> \<not> 10 dvd n" using normalizeJSONNumber_scientific [OF assms(2)] .
  have same: "scientific (fst (number_split w)) n f = scientific (fst (number_split v)) m e"
    if eq: "number_value v = number_value w"
  proof (cases "m = 0 \<or> n = 0")
    case True
    with eq v(2) w(2) have "real m * 10 powi e = 0 \<and> real n * 10 powi f = 0"
      by (auto split: if_splits)
    then have "m = 0" "n = 0" by simp_all
    then show ?thesis by (simp add: scientific_def)
  next
    case False
    then have "0 < real m * 10 powi e" "0 < real n * 10 powi f" by simp_all
    with eq v(2) w(2) have "fst (number_split w) = fst (number_split v)"
      "real m * 10 powi e = real n * 10 powi f"
      by (auto split: if_splits)
    moreover from this False v(3) w(3) have "m = n \<and> e = f" by (intro mantissa_unique) auto
    ultimately show ?thesis by simp
  qed
  moreover have "number_value v = number_value w"
    if "scientific (fst (number_split w)) n f = scientific (fst (number_split v)) m e"
    using that v(2) w(2) number_value_scientific by metis
  ultimately show ?thesis using v w by (auto simp: number_value_scientific)
qed

theorem canonical_number_iff_same_value_witness:
  "\<exists>text. normalizeJSONNumber ''100'' = Inr text \<and> number_value text = number_value ''100''
    \<and> (normalizeJSONNumber ''1.0E2'' = Inr text \<longleftrightarrow> number_value ''100'' = number_value ''1.0E2'')"
  by (rule canonical_number_iff_same_value)
     (simp_all add: json_number_def number_split_def has_prefix_def parse_big_def is_digit_def Let_def)

end
