(* ===== verification/Target.thy ===== *)
theory Target
  imports Model
begin

text \<open>
  Package internal/target: normalisation of caller input into a bounded seed plan
  (normalize.go). The IDNA conversion and the public-suffix list are third-party packages
  (golang.org/x/net): they are the fields of \<open>target_env\<close>, an argument of every definition
  that uses them. \<open>url.Parse\<close> and \<open>(*URL).String\<close> are fields of the same record, so
  that every statement holds whatever they return; the parts of a parsed URL that the code reads or
  writes are those of the record \<open>url\<close>.
\<close>

record url =
  u_Scheme :: string
  u_User :: "string option"
  u_Host :: string
  u_Rest :: string
  u_Fragment :: string

record target_env =
  idna_ToASCII :: "string \<Rightarrow> go_error + string"
  EffectiveTLDPlusOne :: "string \<Rightarrow> go_error + string"
  url_Parse :: "string \<Rightarrow> go_error + url"
  url_String :: "url \<Rightarrow> string"

abbreviation "maxDomainInput \<equiv> 1024 :: nat"
abbreviation "maxURLInput \<equiv> 8192 :: nat"
definition idnaVersion :: string where
  "idnaVersion = ''golang.org/x/net/idna@v0.58.0/lookup''"
definition pslVersion :: string where
  "pslVersion = ''golang.org/x/net/publicsuffix@v0.58.0''"

definition invalidTarget :: "string \<Rightarrow> go_error" where
  "invalidTarget message = NewError CodeInvalidTarget message None"

definition invalidOptions :: "string \<Rightarrow> go_error" where
  "invalidOptions message = NewError CodeInvalidOptions message None"

section \<open>Names\<close>

definition containsControl :: "string \<Rightarrow> bool" where
  "containsControl value = list_ex (\<lambda>c. c < CHR 0x20 \<or> c = CHR 0x7F) value"

definition dns_char :: "char \<Rightarrow> bool" where
  "dns_char c = (\<not> ((c < CHR ''a'' \<or> c > CHR ''z'') \<and> (c < CHR ''0'' \<or> c > CHR ''9'') \<and> c \<noteq> CHR ''-''))"

definition valid_label :: "string \<Rightarrow> bool" where
  "valid_label label =
     (\<not> (label = [] \<or> length label > 63 \<or> hd label = CHR ''-'' \<or> last label = CHR ''-'')
      \<and> list_all dns_char label)"

definition validDNSName :: "string \<Rightarrow> bool" where
  "validDNSName name = list_all valid_label (split_on CHR ''.'' name)"

definition withinAnyScope :: "string \<Rightarrow> string list \<Rightarrow> bool" where
  "withinAnyScope name roots = list_ex (\<lambda>root. name = root \<or> has_suffix name (''.'' @ root)) roots"

definition ValidatePersistentInput :: "analyze_request \<Rightarrow> go_error option" where
  "ValidatePersistentInput req =
     (if CHR ''?'' \<in> set (ar_Target req)
      then Some (invalidTarget ''URL query values are not accepted'') else None)"

definition normalizeDomain :: "target_env \<Rightarrow> string \<Rightarrow> go_error + string" where
  "normalizeDomain env input =
     (if input = [] \<or> length input > maxDomainInput then Inl (invalidTarget ''domain length is invalid'')
      else let input = trim_suffix input ''.'' in
        if input = [] \<or> has_suffix input ''.'' then Inl (invalidTarget ''domain has invalid terminal dots'')
        else (case idna_ToASCII env input of
                Inl e \<Rightarrow> Inl (NewError CodeInvalidTarget ''domain is not valid IDNA'' (Some e))
              | Inr ascii \<Rightarrow>
                  let ascii = to_lower ascii in
                  if length ascii > 253 \<or> \<not> validDNSName ascii
                  then Inl (invalidTarget ''domain is not a valid DNS name'')
                  else (case EffectiveTLDPlusOne env ascii of
                          Inl _ \<Rightarrow> Inl (invalidTarget ''domain must be below a public suffix'')
                        | Inr _ \<Rightarrow> Inr ascii)))"

definition normalizeIP :: "string \<Rightarrow> go_error + addr" where
  "normalizeIP input =
     (case parse_addr input of
        None \<Rightarrow> Inl (NewError CodeInvalidTarget ''IP address is invalid'' (Some (Errorf ''ParseAddr'')))
      | Some address \<Rightarrow>
          if zone address \<noteq> [] then Inl (invalidTarget ''IP address zones are not allowed'')
          else Inr (unmap address))"

section \<open>URLs\<close>

text \<open>\<open>(*URL).Hostname\<close> and \<open>Port\<close> split the host at its last colon when a port follows.\<close>

definition split_host_port :: "string \<Rightarrow> string \<times> string" where
  "split_host_port hp =
     (let (host, port) =
        (case cut CHR '':'' (rev hp) of (p, h, found) \<Rightarrow>
           if found \<and> list_all is_digit p then (rev h, rev p) else (hp, [])) in
      if has_prefix host ''['' \<and> has_suffix host '']'' then (butlast (tl host), port) else (host, port))"

definition u_Hostname :: "url \<Rightarrow> string" where "u_Hostname u = fst (split_host_port (u_Host u))"
definition u_Port :: "url \<Rightarrow> string" where "u_Port u = snd (split_host_port (u_Host u))"

definition JoinHostPort :: "string \<Rightarrow> string \<Rightarrow> string" where
  "JoinHostPort host port =
     (if CHR '':'' \<in> set host then ''['' @ host @ '']:'' @ port else host @ '':'' @ port)"

definition normalizeURL :: "target_env \<Rightarrow> string \<Rightarrow> go_error + (string \<times> string)" where
  "normalizeURL env input =
     (if input = [] \<or> length input > maxURLInput then Inl (invalidTarget ''URL length is invalid'')
      else (case url_Parse env input of
        Inl e \<Rightarrow> Inl (NewError CodeInvalidTarget ''URL is invalid'' (Some e))
      | Inr parsed \<Rightarrow>
          if u_Scheme parsed \<noteq> ''http'' \<and> u_Scheme parsed \<noteq> ''https''
          then Inl (invalidTarget ''URL scheme must be http or https'')
          else if u_User parsed \<noteq> None then Inl (invalidTarget ''URL userinfo is not allowed'')
          else if u_Fragment parsed \<noteq> [] then Inl (invalidTarget ''URL fragments are not allowed'')
          else if u_Hostname parsed = [] then Inl (invalidTarget ''URL hostname is required'')
          else let port = u_Port parsed in
            if port \<noteq> [] \<and> port \<noteq> ''80'' \<and> port \<noteq> ''443''
            then Inl (invalidTarget ''URL port must be 80 or 443'')
            else and_then
              (case parse_addr (u_Hostname parsed) of
                 Some address \<Rightarrow>
                   if zone address \<noteq> [] then Inl (invalidTarget ''URL address zones are not allowed'')
                   else let hostname = addr_string (unmap address);
                            host = (if is6 (unmap address) then ''['' @ hostname @ '']'' else hostname)
                        in Inr (hostname, if port \<noteq> [] then JoinHostPort hostname port else host)
               | None \<Rightarrow>
                   and_then (normalizeDomain env (u_Hostname parsed)) (\<lambda>hostname.
                     Inr (hostname, if port \<noteq> [] then JoinHostPort hostname port else hostname)))
              (\<lambda>(hostname, host).
                 Inr (url_String env (parsed\<lparr>u_Host := host, u_Scheme := to_lower (u_Scheme parsed)\<rparr>),
                      hostname))))"

section \<open>Scope and the seed plan\<close>

definition normalizeScopeRoots :: "target_env \<Rightarrow> string list \<Rightarrow> string \<Rightarrow> go_error + string list" where
  "normalizeScopeRoots env values seed =
     (if values = [] then
        (case parse_addr seed of
           Some _ \<Rightarrow> Inr [seed]
         | None \<Rightarrow> (case EffectiveTLDPlusOne env seed of
                     Inl _ \<Rightarrow> Inl (invalidTarget ''scope root cannot be derived'')
                   | Inr root \<Rightarrow> Inr [root]))
      else and_then
        (map_result (\<lambda>value. case normalizeDomain env value of
                       Inl e \<Rightarrow> Inl (Wrap ''normalize scope root'' e) | Inr root \<Rightarrow> Inr root) values)
        (\<lambda>roots. Inr (compact (sort roots))))"

fun add_hostnames :: "target_env \<Rightarrow> string list \<Rightarrow> string list \<Rightarrow> string list \<Rightarrow> go_error + string list" where
  "add_hostnames env roots [] seeds = Inr seeds"
| "add_hostnames env roots (additional # rest) seeds =
     (case normalizeDomain env additional of
        Inl e \<Rightarrow> Inl (Wrap ''normalize additional hostname'' e)
      | Inr name \<Rightarrow>
          if \<not> withinAnyScope name roots
          then Inl (invalidOptions ''additional hostname is outside the declared scope'')
          else add_hostnames env roots rest (seeds @ [name]))"

text \<open>The part of \<open>NormalizeWithSeedLimit\<close> after the switch over the target kind: the scope
  roots, the additional host names, the sorted seeds and their limit.\<close>

definition plan_seeds ::
    "target_env \<Rightarrow> analyze_request \<Rightarrow> int \<Rightarrow> normalized_request \<Rightarrow> go_error + normalized_request" where
  "plan_seeds env req seedLimit r =
     and_then (normalizeScopeRoots env (ar_ScopeRoots req) (hd (nr_SeedHostnames r))) (\<lambda>scopeRoots.
     and_then (add_hostnames env scopeRoots (ar_AdditionalHostnames req) (nr_SeedHostnames r)) (\<lambda>names.
       let seeds = compact (sort names) in
       if int (length seeds) > seedLimit
       then Inl (invalidOptions (''seed hostname limit exceeds '' @ nat_string (nat seedLimit)))
       else Inr (r\<lparr>nr_ScopeRoots := scopeRoots, nr_SeedHostnames := seeds\<rparr>)))"

text \<open>The mode after defaulting, the result under construction, and one definition per case
  of the switch.\<close>

definition request_mode :: "analyze_request \<Rightarrow> analysis_mode" where
  "request_mode req =
     (if ar_Mode req = [] then (if ar_Kind req = TargetIP then ModeIP else ModeFull) else ar_Mode req)"

definition plan_result :: "analyze_request \<Rightarrow> string \<Rightarrow> target_kind \<Rightarrow> string list \<Rightarrow> normalized_request" where
  "plan_result req canonical kind seeds =
     \<lparr>nr_Target = \<lparr>tg_Original = ar_Target req, tg_Canonical = canonical, tg_Kind = kind\<rparr>,
      nr_Mode = request_mode req, nr_SeedHostnames = seeds, nr_ScopeRoots = [],
      nr_OrganizationLabel = ar_OrganizationLabel req, nr_CTDiscovery = ar_CTDiscovery req,
      nr_IDNAProfileVersion = idnaVersion, nr_PublicSuffixVersion = pslVersion\<rparr>"

definition normalize_domain_target :: "target_env \<Rightarrow> analyze_request \<Rightarrow> int \<Rightarrow> go_error + normalized_request" where
  "normalize_domain_target env req seedLimit =
     and_then (normalizeDomain env (ar_Target req)) (\<lambda>name.
       if request_mode req \<noteq> ModeFull \<and> request_mode req \<noteq> ModeDNS
       then Inl (invalidOptions ''domain target requires full or dns mode'')
       else (case EffectiveTLDPlusOne env name of
               Inl _ \<Rightarrow> Inl (invalidTarget ''domain must be below a public suffix'')
             | Inr registrable \<Rightarrow>
                 let includeWWW = (ar_IncludeWWW req = None \<or> ar_IncludeWWW req = Some True);
                     seeds = (if includeWWW \<and> name = registrable then [name, ''www.'' @ name] else [name])
                 in plan_seeds env req seedLimit (plan_result req name TargetDomain seeds)))"

definition normalize_url_target :: "target_env \<Rightarrow> analyze_request \<Rightarrow> int \<Rightarrow> go_error + normalized_request" where
  "normalize_url_target env req seedLimit =
     and_then (normalizeURL env (ar_Target req)) (\<lambda>(normalizedURL, hostname).
       if request_mode req \<noteq> ModeFull \<and> request_mode req \<noteq> ModeDNS
       then Inl (invalidOptions ''URL target requires full or dns mode'')
       else plan_seeds env req seedLimit (plan_result req normalizedURL TargetURL [hostname]))"

definition normalize_ip_target :: "analyze_request \<Rightarrow> go_error + normalized_request" where
  "normalize_ip_target req =
     and_then (normalizeIP (ar_Target req)) (\<lambda>address.
       if request_mode req \<noteq> ModeIP then Inl (invalidOptions ''IP target requires ip mode'')
       else if ar_AdditionalHostnames req \<noteq> [] \<or> ar_ScopeRoots req \<noteq> [] \<or> ar_CTDiscovery req
       then Inl (invalidOptions ''IP target cannot request live collection scope'')
       else Inr (plan_result req (addr_string address) TargetIP []))"

definition NormalizeWithSeedLimit ::
    "target_env \<Rightarrow> analyze_request \<Rightarrow> int \<Rightarrow> go_error + normalized_request" where
  "NormalizeWithSeedLimit env req seedLimit =
     (if seedLimit \<le> 0 then Inl (invalidOptions ''seed hostname limit must be positive'')
      else if \<not> valid_utf8 (ar_Target req) \<or> containsControl (ar_Target req)
      then Inl (invalidTarget ''target contains invalid text'')
      else (case ValidatePersistentInput req of
              Some e \<Rightarrow> Inl e
            | None \<Rightarrow>
                if ar_Kind req = TargetDomain then normalize_domain_target env req seedLimit
                else if ar_Kind req = TargetURL then normalize_url_target env req seedLimit
                else if ar_Kind req = TargetIP then normalize_ip_target req
                else Inl (invalidTarget ''unsupported target kind'')))"

definition Normalize :: "target_env \<Rightarrow> analyze_request \<Rightarrow> go_error + normalized_request" where
  "Normalize env req = NormalizeWithSeedLimit env req 32"

section \<open>Properties\<close>

lemma normalizeDomain_Inr:
  assumes "normalizeDomain env input = Inr name"
  shows "validDNSName name" "length name \<le> 253" "\<exists>r. EffectiveTLDPlusOne env name = Inr r"
  using assms
  by (auto simp: normalizeDomain_def Let_def split: if_splits sum.splits)

lemma withinAnyScope_iff: "withinAnyScope name roots \<longleftrightarrow> (\<exists>root \<in> set roots. at_or_below name root)"
  by (auto simp: withinAnyScope_def list_ex_iff simp flip: label_suffix_iff)

lemma add_hostnames_Inr:
  assumes "add_hostnames env roots additional seeds = Inr names"
  shows "\<exists>new. names = seeds @ new \<and> length new = length additional
    \<and> (\<forall>h \<in> set new. withinAnyScope h roots \<and> validDNSName h)"
  using assms
proof (induction additional arbitrary: seeds)
  case (Cons a additional)
  then obtain name where name: "normalizeDomain env a = Inr name" "withinAnyScope name roots"
    "add_hostnames env roots additional (seeds @ [name]) = Inr names"
    by (auto split: sum.splits if_splits)
  from Cons.IH [OF name(3)] name normalizeDomain_Inr(1) show ?case
    by (metis append.assoc append_Cons append_Nil length_Cons set_ConsD)
qed simp

lemma plan_seeds_Inr:
  assumes "plan_seeds env req k r = Inr r'"
  shows "\<exists>names. normalizeScopeRoots env (ar_ScopeRoots req) (hd (nr_SeedHostnames r)) = Inr (nr_ScopeRoots r')
    \<and> add_hostnames env (nr_ScopeRoots r') (ar_AdditionalHostnames req) (nr_SeedHostnames r) = Inr names
    \<and> nr_SeedHostnames r' = compact (sort names) \<and> int (length (nr_SeedHostnames r')) \<le> k
    \<and> nr_Target r' = nr_Target r \<and> nr_Mode r' = nr_Mode r"
  using assms
  by (auto simp: plan_seeds_def and_then_Inr_iff Let_def split: if_splits)

lemma plan_result_simps [simp]:
  "nr_SeedHostnames (plan_result req c k seeds) = seeds"
  "nr_ScopeRoots (plan_result req c k seeds) = []"
  "nr_Mode (plan_result req c k seeds) = request_mode req"
  "tg_Canonical (nr_Target (plan_result req c k seeds)) = c"
  "tg_Kind (nr_Target (plan_result req c k seeds)) = k"
  by (simp_all add: plan_result_def)

text \<open>An accepted host-name request: its seeds are planned from the host and, for a
  registrable domain, its www name.\<close>

definition host_plan :: "target_env \<Rightarrow> analyze_request \<Rightarrow> int \<Rightarrow> normalized_request \<Rightarrow> bool" where
  "host_plan env req k r = (\<exists>q host. hd (nr_SeedHostnames q) = host \<and>
     set (nr_SeedHostnames q) \<subseteq> {host, ''www.'' @ host} \<and> nr_SeedHostnames q \<noteq> []
     \<and> nr_Mode q \<in> {ModeFull, ModeDNS} \<and> plan_seeds env req k q = Inr r)"

lemma normalize_domain_target_plan:
  assumes "normalize_domain_target env req k = Inr r"
  shows "host_plan env req k r"
proof -
  from assms obtain name where name: "normalizeDomain env (ar_Target req) = Inr name"
    by (auto simp: normalize_domain_target_def and_then_Inr_iff)
  obtain registrable where reg: "EffectiveTLDPlusOne env name = Inr registrable"
    using normalizeDomain_Inr(3) [OF name] by blast
  from assms name reg obtain seeds where
    "request_mode req \<in> {ModeFull, ModeDNS}" "seeds = [name] \<or> seeds = [name, ''www.'' @ name]"
    "plan_seeds env req k (plan_result req name TargetDomain seeds) = Inr r"
    by (auto simp: normalize_domain_target_def Let_def split: if_splits)
  then show ?thesis
    unfolding host_plan_def
    by (intro exI [of _ "plan_result req name TargetDomain seeds"] exI [of _ name]) auto
qed

lemma normalize_url_target_plan:
  assumes "normalize_url_target env req k = Inr r"
  shows "host_plan env req k r"
proof -
  from assms obtain u host where "request_mode req \<in> {ModeFull, ModeDNS}"
    "plan_seeds env req k (plan_result req u TargetURL [host]) = Inr r"
    by (auto simp: normalize_url_target_def and_then_Inr_iff split: if_splits)
  then show ?thesis
    unfolding host_plan_def
    by (intro exI [of _ "plan_result req u TargetURL [host]"] exI [of _ host]) auto
qed

lemma normalize_ip_target_Inr:
  assumes "normalize_ip_target req = Inr r"
  shows "nr_Mode r = ModeIP \<and> nr_SeedHostnames r = [] \<and> nr_ScopeRoots r = []
    \<and> ar_AdditionalHostnames req = [] \<and> ar_ScopeRoots req = [] \<and> \<not> ar_CTDiscovery req"
  using assms by (auto simp: normalize_ip_target_def and_then_Inr_iff split: if_splits)

lemma NormalizeWithSeedLimit_cases:
  assumes "NormalizeWithSeedLimit env req k = Inr r"
  obtains (host) "ar_Kind req \<in> {TargetDomain, TargetURL}" "host_plan env req k r"
    | (ip) "ar_Kind req = TargetIP" "normalize_ip_target req = Inr r"
proof -
  from assms have "(ar_Kind req = TargetDomain \<and> normalize_domain_target env req k = Inr r)
    \<or> (ar_Kind req = TargetURL \<and> normalize_url_target env req k = Inr r)
    \<or> (ar_Kind req = TargetIP \<and> normalize_ip_target req = Inr r)"
    by (auto simp: NormalizeWithSeedLimit_def split: if_splits option.splits)
  then show ?thesis
    using host ip normalize_domain_target_plan normalize_url_target_plan by blast
qed

lemma host_plan_seeds:
  assumes "host_plan env req k r"
  shows "sorted (nr_SeedHostnames r)" "distinct (nr_SeedHostnames r)" "nr_SeedHostnames r \<noteq> []"
    "int (length (nr_SeedHostnames r)) \<le> k" "nr_Mode r \<in> {ModeFull, ModeDNS}"
proof -
  from assms obtain q where q: "nr_SeedHostnames q \<noteq> []" "nr_Mode q \<in> {ModeFull, ModeDNS}"
    "plan_seeds env req k q = Inr r"
    by (auto simp: host_plan_def)
  from plan_seeds_Inr [OF q(3)] obtain names where
    n: "add_hostnames env (nr_ScopeRoots r) (ar_AdditionalHostnames req) (nr_SeedHostnames q) = Inr names"
    "nr_SeedHostnames r = compact (sort names)" "int (length (nr_SeedHostnames r)) \<le> k" "nr_Mode r = nr_Mode q"
    by blast
  from add_hostnames_Inr [OF n(1)] q(1) have "names \<noteq> []" by auto
  then show "nr_SeedHostnames r \<noteq> []" using n(2) by (metis compact_eq_Nil set_empty set_sort)
  show "sorted (nr_SeedHostnames r)" "distinct (nr_SeedHostnames r)"
    "int (length (nr_SeedHostnames r)) \<le> k" "nr_Mode r \<in> {ModeFull, ModeDNS}"
    using n q by simp_all
qed

text \<open>A concrete environment: names are kept as they are and the registrable name is the
  last two labels. It shows that the hypotheses below can hold.\<close>

definition last_two_labels :: "string \<Rightarrow> go_error + string" where
  "last_two_labels s =
     (let ls = split_on CHR ''.'' s in
      if length ls < 2 then Inl (Errorf ''is a suffix'') else Inr (join ''.'' (drop (length ls - 2) ls)))"

definition plain_env :: target_env where
  "plain_env = \<lparr>idna_ToASCII = Inr, EffectiveTLDPlusOne = last_two_labels,
     url_Parse = (\<lambda>s. Inl (Errorf s)), url_String = (\<lambda>u. u_Host u)\<rparr>"

definition domain_request :: "string \<Rightarrow> string list \<Rightarrow> analyze_request" where
  "domain_request name additional = \<lparr>ar_Target = name, ar_Kind = TargetDomain, ar_Mode = [],
     ar_IncludeWWW = None, ar_AdditionalHostnames = additional, ar_ScopeRoots = [],
     ar_CTDiscovery = False, ar_OrganizationLabel = []\<rparr>"

lemmas target_eval =
  NormalizeWithSeedLimit_def normalize_domain_target_def normalize_url_target_def normalize_ip_target_def
  plan_seeds_def plan_result_def request_mode_def normalizeScopeRoots_def normalizeDomain_def normalizeIP_def
  ValidatePersistentInput_def containsControl_def validDNSName_def valid_label_def dns_char_def
  withinAnyScope_def plain_env_def domain_request_def last_two_labels_def trim_suffix_def has_suffix_def
  to_lower_def lower_char_def byte_in_def netip_parse Let_def

text \<open>A request that normalisation accepts yields a plan whose seed host names are sorted,
  free of repetitions and within the seed limit; there are seeds exactly when the target is
  not an address, and the mode fits the kind of target.\<close>

lemma normalize_seed_plan:
  assumes "NormalizeWithSeedLimit env req k = Inr r"
  shows "sorted (nr_SeedHostnames r) \<and> distinct (nr_SeedHostnames r)
    \<and> int (length (nr_SeedHostnames r)) \<le> k
    \<and> (nr_SeedHostnames r = [] \<longleftrightarrow> ar_Kind req = TargetIP)
    \<and> nr_Mode r \<in> (if ar_Kind req = TargetIP then {ModeIP} else {ModeFull, ModeDNS})"
  using assms
proof (cases rule: NormalizeWithSeedLimit_cases)
  case host
  with host_plan_seeds [OF host(2)] show ?thesis by auto
next
  case ip
  have "0 < k" using assms by (auto simp: NormalizeWithSeedLimit_def split: if_splits)
  with ip normalize_ip_target_Inr [OF ip(2)] show ?thesis by simp
qed

lemma example_plan:
  "NormalizeWithSeedLimit plain_env (domain_request ''example.com'' [''api.example.com'']) 32 =
   Inr ((plan_result (domain_request ''example.com'' [''api.example.com'']) ''example.com'' TargetDomain
          [''api.example.com'', ''example.com'', ''www.example.com''])\<lparr>nr_ScopeRoots := [''example.com'']\<rparr>)"
  by (simp add: target_eval)

lemma normalize_seed_plan_example:
  "\<exists>r. NormalizeWithSeedLimit plain_env (domain_request ''example.com'' [''api.example.com'']) 32 = Inr r
     \<and> sorted (nr_SeedHostnames r) \<and> distinct (nr_SeedHostnames r) \<and> length (nr_SeedHostnames r) = 3"
  using normalize_seed_plan [OF example_plan] example_plan by auto

text \<open>C32: Without declared scope roots every planned seed lies at or below a scope root, label
  by label: no name outside the scope derived from the target is planned. The hypothesis on
  the public-suffix list is that an effective TLD plus one is a label suffix of its name.\<close>

theorem normalize_seeds_in_scope:
  assumes psl: "\<And>name root. EffectiveTLDPlusOne env name = Inr root \<Longrightarrow> at_or_below name root"
    and roots: "ar_ScopeRoots req = []"
    and ok: "NormalizeWithSeedLimit env req k = Inr r"
    and seed: "h \<in> set (nr_SeedHostnames r)"
  shows "\<exists>root \<in> set (nr_ScopeRoots r). at_or_below h root"
  using ok
proof (cases rule: NormalizeWithSeedLimit_cases)
  case host
  then obtain q where q: "set (nr_SeedHostnames q) \<subseteq> {hd (nr_SeedHostnames q), ''www.'' @ hd (nr_SeedHostnames q)}"
    "plan_seeds env req k q = Inr r"
    by (auto simp: host_plan_def)
  from plan_seeds_Inr [OF q(2)] obtain names where
    n: "normalizeScopeRoots env [] (hd (nr_SeedHostnames q)) = Inr (nr_ScopeRoots r)"
    "add_hostnames env (nr_ScopeRoots r) (ar_AdditionalHostnames req) (nr_SeedHostnames q) = Inr names"
    "nr_SeedHostnames r = compact (sort names)"
    unfolding roots by blast
  have root: "\<exists>root \<in> set (nr_ScopeRoots r). at_or_below (hd (nr_SeedHostnames q)) root"
    using n(1) psl
    by (auto simp: normalizeScopeRoots_def eq_commute [of _ "nr_ScopeRoots r"] split: option.splits sum.splits)
  have "at_or_below (''www.'' @ x) x" for x
    by (metis append.assoc append_Cons append_Nil has_suffix_append label_suffix_iff)
  with root have www: "\<exists>root \<in> set (nr_ScopeRoots r). at_or_below (''www.'' @ hd (nr_SeedHostnames q)) root"
    using at_or_below_trans by blast
  from add_hostnames_Inr [OF n(2)] seed n(3) have
    "h \<in> set (nr_SeedHostnames q) \<or> withinAnyScope h (nr_ScopeRoots r)" by auto
  with q(1) root www show ?thesis by (auto simp: withinAnyScope_iff)
next
  case ip
  with normalize_ip_target_Inr [OF ip(2)] seed show ?thesis by simp
qed

lemma last_two_labels_at_or_below:
  assumes "EffectiveTLDPlusOne plain_env name = Inr root"
  shows "at_or_below name root"
proof -
  let ?ls = "split_on CHR ''.'' name"
  have "root = join ''.'' (drop (length ?ls - 2) ?ls)" and len: "2 \<le> length ?ls"
    using assms by (auto simp: plain_env_def last_two_labels_def Let_def split: if_splits)
  then have root: "root = join ''.'' (drop (length ?ls - 2) ?ls)" by simp
  have "name = root \<or> name = join ''.'' (take (length ?ls - 2) ?ls) @ ''.'' @ root"
    unfolding root
    using join_append [of "take (length ?ls - 2) ?ls" "drop (length ?ls - 2) ?ls" "''.''"] len
    by (cases "length ?ls = 2") (simp_all add: join_split_on)
  then show ?thesis by (auto simp: has_suffix_iff simp flip: label_suffix_iff)
qed

theorem normalize_seeds_in_scope_witness:
  "\<exists>r. NormalizeWithSeedLimit plain_env (domain_request ''example.com'' [''api.example.com'']) 32 = Inr r
     \<and> ''api.example.com'' \<in> set (nr_SeedHostnames r)
     \<and> (\<exists>root \<in> set (nr_ScopeRoots r). at_or_below ''api.example.com'' root)"
  using normalize_seeds_in_scope [OF last_two_labels_at_or_below _ example_plan, of "''api.example.com''"]
    example_plan
  by (simp add: domain_request_def)

text \<open>Input that could not be stored safely never passes normalisation: a target with a
  query, a control character or invalid UTF-8 is rejected with the code \<open>invalid_target\<close>,
  whatever its kind and mode.\<close>

lemma normalize_rejects_unsafe_input:
  assumes "CHR ''?'' \<in> set (ar_Target req) \<or> containsControl (ar_Target req) \<or> \<not> valid_utf8 (ar_Target req)"
    and "0 < k"
  shows "\<exists>m. NormalizeWithSeedLimit env req k = Inl (NewError CodeInvalidTarget m None)"
  using assms
  by (auto simp: NormalizeWithSeedLimit_def ValidatePersistentInput_def invalidTarget_def)

lemma normalize_rejects_unsafe_input_example:
  "\<exists>m. NormalizeWithSeedLimit plain_env (domain_request ''example.com?x'' []) 32 =
       Inl (NewError CodeInvalidTarget m None)"
  using normalize_rejects_unsafe_input [of "domain_request ''example.com?x'' []" 32 plain_env]
  by (simp add: domain_request_def)

end
