(* ===== verification/Jobs.thy ===== *)
theory Jobs
  imports Target Report
begin

text \<open>
  Package internal/jobs: the data of durable batches (types.go), their validation
  (validation.go) and the in-process store (memory.go).

  Every operation of the store takes the result of \<open>ctx.Err()\<close>, the clock reading and what it
  draws from outside the package as arguments, and returns the new store with its result; it
  runs under the store's mutex, so one call is one step. The clock is read once per call.
  Random identifiers come from a source \<open>draw\<close> whose \<open>i\<close>-th value is the \<open>i\<close>-th draw of
  the call. The digest of a request and the JSON encoding of a report are arguments.
\<close>

section \<open>Data\<close>

datatype job_status = JobQueued | JobRunning | JobCompleted | JobPartial | JobFailed | JobCancelled

datatype target_status =
  TargetQueued | TargetRunning | TargetCompleted | TargetPartial | TargetFailed | TargetCancelled

record inventory_selection =
  is_AssetID :: string
  is_DeletionGeneration :: int

record submit_request =
  sr_OperatorID :: string
  sr_IdempotencyKey :: string
  sr_BundleID :: string
  sr_Targets :: "analyze_request list"
  sr_Reclassifications :: "reclassify_request list"
  sr_InventorySelections :: "inventory_selection list"

definition WorkCount :: "submit_request \<Rightarrow> nat" where
  "WorkCount r = length (sr_Targets r) + length (sr_Reclassifications r)"

record job_target =
  jt_ID :: string
  jt_Index :: nat
  jt_Request :: analyze_request
  jt_Reclassify :: "reclassify_request option"
  jt_Status :: target_status
  jt_Attempts :: int
  jt_AttemptToken :: string
  jt_LeaseOwner :: string
  jt_LeaseExpiresAt :: gotime
  jt_NextAttemptAt :: gotime
  jt_TerminalReason :: string
  jt_ReportID :: string
  jt_Report :: report
  jt_ReportAvailable :: bool

record job =
  jb_ID :: string
  jb_OperatorID :: string
  jb_IdempotencyKey :: string
  jb_BundleID :: string
  jb_Status :: job_status
  jb_CancelRequested :: bool
  jb_CancelRequestedBy :: string
  jb_CreatedAt :: gotime
  jb_UpdatedAt :: gotime
  jb_Targets :: "job_target list"
  jb_payloadHash :: string
  jb_pinReleased :: bool

record job_claim =
  cl_JobID :: string
  cl_TargetID :: string
  cl_BundleID :: string
  cl_Request :: analyze_request
  cl_Reclassify :: "reclassify_request option"
  cl_Attempt :: int
  cl_AttemptToken :: string
  cl_LeaseExpires :: gotime

text \<open>A Go map read at a missing key gives the zero value, so the pin counts are a total function.\<close>

record memory_store =
  ms_maximumTargets :: int
  ms_reservations :: int
  ms_jobs :: "string \<rightharpoonup> job"
  ms_order :: "string list"
  ms_idempotency :: "string \<times> string \<rightharpoonup> string"
  ms_pins :: "string \<Rightarrow> int"

definition NewMemoryStore :: "int \<Rightarrow> memory_store" where
  "NewMemoryStore maximumTargets = \<lparr>ms_maximumTargets = maximumTargets, ms_reservations = 0,
     ms_jobs = Map.empty, ms_order = [], ms_idempotency = Map.empty, ms_pins = (\<lambda>_. 0)\<rparr>"

section \<open>Validation\<close>

definition ValidateAnalyzeRequest :: "target_env \<Rightarrow> analyze_request \<Rightarrow> go_error option" where
  "ValidateAnalyzeRequest env request =
     (case Normalize env request of
        Inl e \<Rightarrow> Some e
      | Inr normalized \<Rightarrow>
          if tg_Kind (nr_Target normalized) = TargetIP
          then Some (NewError CodeInvalidOptions ''use local IP lookup for an IP target'' None) else None)"

fun ValidatePersistentAnalyzeRequests :: "analyze_request list \<Rightarrow> go_error option" where
  "ValidatePersistentAnalyzeRequests [] = None"
| "ValidatePersistentAnalyzeRequests (r # rs) =
     (case ValidatePersistentInput r of Some e \<Rightarrow> Some e | None \<Rightarrow> ValidatePersistentAnalyzeRequests rs)"

definition ValidationReason :: "go_error option \<Rightarrow> string" where
  "ValidationReason err =
     (case err of None \<Rightarrow> [] | Some e \<Rightarrow> ''validation failed: '' @ error_string e)"

section \<open>Terminal states and the aggregate job status\<close>

definition terminalTarget :: "target_status \<Rightarrow> bool" where
  "terminalTarget status =
     (status = TargetCompleted \<or> status = TargetPartial \<or> status = TargetFailed \<or> status = TargetCancelled)"

definition status_count :: "target_status \<Rightarrow> job_target list \<Rightarrow> nat" where
  "status_count st ts = length (filter (\<lambda>t. jt_Status t = st) ts)"

text \<open>\<open>finishJob\<close> updates the job in place and the store's pin counts.\<close>

definition final_status :: "job_target list \<Rightarrow> job_status" where
  "final_status ts =
     (if status_count TargetFailed ts > 0 \<and> status_count TargetCompleted ts = 0 \<and> status_count TargetPartial ts = 0
      then JobFailed
      else if status_count TargetCancelled ts = length ts then JobCancelled
      else if status_count TargetPartial ts > 0 \<or> status_count TargetFailed ts > 0 \<or> status_count TargetCancelled ts > 0
      then JobPartial
      else JobCompleted)"

definition finishJob :: "gotime \<Rightarrow> job \<Rightarrow> (string \<Rightarrow> int) \<Rightarrow> job \<times> (string \<Rightarrow> int)" where
  "finishJob now j pins =
     (if \<not> list_all (\<lambda>t. terminalTarget (jt_Status t)) (jb_Targets j)
      then (j\<lparr>jb_Status := JobRunning\<rparr>, pins)
      else let j = j\<lparr>jb_Status := final_status (jb_Targets j), jb_UpdatedAt := now\<rparr> in
        if \<not> jb_pinReleased j \<and> jb_BundleID j \<noteq> []
        then (j\<lparr>jb_pinReleased := True\<rparr>, pins(jb_BundleID j := pins (jb_BundleID j) - 1))
        else (j, pins))"

section \<open>Submit\<close>

type_synonym rand = "nat \<Rightarrow> go_error + string"
type_synonym request_digest = "string \<times> analyze_request list \<times> reclassify_request list \<Rightarrow> go_error + string"

definition randomID :: "rand \<Rightarrow> nat \<Rightarrow> string \<Rightarrow> go_error + string" where
  "randomID draw i pre = and_then (draw i) (\<lambda>v. Inr (pre @ ''-'' @ v))"

definition hashRequest :: "request_digest \<Rightarrow> submit_request \<Rightarrow> go_error + string" where
  "hashRequest digest r = digest (sr_BundleID r, sr_Targets r, sr_Reclassifications r)"

definition new_target :: "string \<Rightarrow> nat \<Rightarrow> analyze_request \<Rightarrow> reclassify_request option \<Rightarrow>
    target_status \<Rightarrow> string \<Rightarrow> job_target" where
  "new_target i index request reclassify status reason =
     \<lparr>jt_ID = i, jt_Index = index, jt_Request = request, jt_Reclassify = reclassify, jt_Status = status,
      jt_Attempts = 0, jt_AttemptToken = [], jt_LeaseOwner = [], jt_LeaseExpiresAt = 0, jt_NextAttemptAt = 0,
      jt_TerminalReason = reason, jt_ReportID = [], jt_Report = zero_report, jt_ReportAvailable = False\<rparr>"

text \<open>The rows of an accepted batch: first the analyses, a failed row for each one that does
  not validate, then the reclassifications. Row \<open>i\<close> takes draw \<open>i + 1\<close>.\<close>

fun analyze_rows :: "target_env \<Rightarrow> rand \<Rightarrow> nat \<Rightarrow> analyze_request list \<Rightarrow> go_error + job_target list" where
  "analyze_rows env draw index [] = Inr []"
| "analyze_rows env draw index (r # rs) =
     (case randomID draw (Suc index) ''target'' of
        Inl e \<Rightarrow> Inl (Wrap ''create target ID'' e)
      | Inr i \<Rightarrow>
          and_then (analyze_rows env draw (Suc index) rs) (\<lambda>ts.
            let err = ValidateAnalyzeRequest env r in
            Inr (new_target i index r None (if err = None then TargetQueued else TargetFailed)
                   (ValidationReason err) # ts)))"

fun reclassify_rows :: "rand \<Rightarrow> nat \<Rightarrow> reclassify_request list \<Rightarrow> go_error + job_target list" where
  "reclassify_rows draw index [] = Inr []"
| "reclassify_rows draw index (r # rs) =
     (case randomID draw (Suc index) ''target'' of
        Inl e \<Rightarrow> Inl (Wrap ''create target ID'' e)
      | Inr i \<Rightarrow>
          and_then (reclassify_rows draw (Suc index) rs) (\<lambda>ts.
            Inr (new_target i index zero_analyze_request (Some r) TargetQueued [] # ts)))"

definition work_reservations :: "target_env \<Rightarrow> submit_request \<Rightarrow> int" where
  "work_reservations env r = int (length (sr_Reclassifications r))
     + int (length (filter (\<lambda>t. ValidateAnalyzeRequest env t = None) (sr_Targets r)))"

definition nil_dereference :: go_error where
  "nil_dereference = Errorf ''runtime error: invalid memory address or nil pointer dereference''"

definition Submit :: "target_env \<Rightarrow> request_digest \<Rightarrow> rand \<Rightarrow> go_error option \<Rightarrow> gotime \<Rightarrow> submit_request \<Rightarrow>
    memory_store \<Rightarrow> memory_store \<times> (go_error + job)" where
  "Submit env digest draw ctx now request s =
     (case ctx of Some e \<Rightarrow> (s, Inl e) | None \<Rightarrow>
      if sr_OperatorID request = [] \<or> sr_IdempotencyKey request = [] \<or> WorkCount request = 0
      then (s, Inl (NewError CodeInvalidOptions ''operator, idempotency key, and targets are required'' None))
      else case ValidatePersistentAnalyzeRequests (sr_Targets request) of Some e \<Rightarrow> (s, Inl e) | None \<Rightarrow>
      case hashRequest digest request of Inl e \<Rightarrow> (s, Inl (Wrap ''hash job request'' e)) | Inr payloadHash \<Rightarrow>
      let identity = (sr_OperatorID request, sr_IdempotencyKey request);
          reserved = work_reservations env request in
      if list_ex (\<lambda>replay. rr_ReportID replay = [] \<or> rr_BundleID replay = []
                   \<or> rr_BundleID replay \<noteq> sr_BundleID request) (sr_Reclassifications request)
      then (s, Inl (NewError CodeInvalidOptions ''reclassification requires a report and the pinned batch bundle'' None))
      else case ms_idempotency s identity of
        Some existingID \<Rightarrow>
          (case ms_jobs s existingID of
             None \<Rightarrow> (s, Inl nil_dereference)
           | Some existing \<Rightarrow>
               if jb_payloadHash existing \<noteq> payloadHash
               then (s, Inl (NewError CodeIdempotencyConflict ''idempotency key was used for a different request'' None))
               else (s, Inr existing))
      | None \<Rightarrow>
      if ms_maximumTargets s \<le> 0 \<or> reserved > ms_maximumTargets s - ms_reservations s
      then (s, Inl (NewError CodeQueueCapacityExceeded ''nonterminal target capacity is exhausted'' None))
      else case randomID draw 0 ''job'' of Inl e \<Rightarrow> (s, Inl (Wrap ''create job ID'' e)) | Inr jobID \<Rightarrow>
      case and_then (analyze_rows env draw 0 (sr_Targets request)) (\<lambda>ts.
             and_then (reclassify_rows draw (length (sr_Targets request)) (sr_Reclassifications request))
               (\<lambda>us. Inr (ts @ us))) of
        Inl e \<Rightarrow> (s, Inl e)
      | Inr rows \<Rightarrow>
          let j = \<lparr>jb_ID = jobID, jb_OperatorID = sr_OperatorID request,
                jb_IdempotencyKey = sr_IdempotencyKey request, jb_BundleID = sr_BundleID request,
                jb_Status = (if reserved = 0 then JobFailed else JobQueued), jb_CancelRequested = False,
                jb_CancelRequestedBy = [], jb_CreatedAt = now, jb_UpdatedAt = now, jb_Targets = rows,
                jb_payloadHash = payloadHash, jb_pinReleased = False\<rparr>
          in (s\<lparr>ms_jobs := (ms_jobs s)(jobID \<mapsto> j), ms_order := ms_order s @ [jobID],
                ms_idempotency := (ms_idempotency s)(identity \<mapsto> jobID),
                ms_reservations := ms_reservations s + reserved,
                ms_pins := (if jb_BundleID j \<noteq> [] \<and> reserved > 0
                            then (ms_pins s)(jb_BundleID j := ms_pins s (jb_BundleID j) + 1)
                            else ms_pins s)\<rparr>, Inr j))"

definition Job :: "go_error option \<Rightarrow> string \<Rightarrow> memory_store \<Rightarrow> go_error + job" where
  "Job ctx i s =
     (case ctx of Some e \<Rightarrow> Inl e | None \<Rightarrow>
      case ms_jobs s i of
        None \<Rightarrow> Inl (NewError CodeInvalidTarget ''job was not found'' None)
      | Some j \<Rightarrow> Inr j)"

section \<open>Looking targets up\<close>

text \<open>The index of the first target of a list with a property.\<close>

fun first_index :: "('a \<Rightarrow> bool) \<Rightarrow> 'a list \<Rightarrow> nat option" where
  "first_index p [] = None"
| "first_index p (x # xs) = (if p x then Some 0 else map_option Suc (first_index p xs))"

text \<open>The first job in admission order that is eligible and has a target with a property:
  the nested loops of \<open>Claim\<close> and \<open>findTarget\<close>. A pointer to a target is its job's
  identifier and its index.\<close>

fun scan_jobs :: "(string \<rightharpoonup> job) \<Rightarrow> (job \<Rightarrow> bool) \<Rightarrow> (job_target \<Rightarrow> bool) \<Rightarrow> string list \<Rightarrow> (string \<times> nat) option" where
  "scan_jobs js eligible p [] = None"
| "scan_jobs js eligible p (i # is) =
     (case js i of
        None \<Rightarrow> scan_jobs js eligible p is
      | Some j \<Rightarrow>
          if \<not> eligible j then scan_jobs js eligible p is
          else (case first_index p (jb_Targets j) of
                  Some k \<Rightarrow> Some (i, k)
                | None \<Rightarrow> scan_jobs js eligible p is))"

definition findTarget :: "string \<Rightarrow> memory_store \<Rightarrow> (string \<times> nat) option" where
  "findTarget targetID s = scan_jobs (ms_jobs s) (\<lambda>_. True) (\<lambda>t. jt_ID t = targetID) (ms_order s)"

definition set_target :: "nat \<Rightarrow> job_target \<Rightarrow> job \<Rightarrow> job" where
  "set_target k t j = j\<lparr>jb_Targets := (jb_Targets j)[k := t]\<rparr>"

section \<open>Claim, Renew, Complete\<close>

definition Claim :: "rand \<Rightarrow> go_error option \<Rightarrow> gotime \<Rightarrow> string \<Rightarrow> duration \<Rightarrow>
    memory_store \<Rightarrow> memory_store \<times> (go_error + job_claim)" where
  "Claim draw ctx now worker lease s =
     (case ctx of Some e \<Rightarrow> (s, Inl e) | None \<Rightarrow>
      if worker = [] \<or> lease \<le> 0
      then (s, Inl (NewError CodeInvalidOptions ''worker and positive lease are required'' None))
      else case scan_jobs (ms_jobs s) (\<lambda>j. \<not> jb_CancelRequested j)
                  (\<lambda>t. \<not> (jt_Status t \<noteq> TargetQueued \<or> jt_NextAttemptAt t > now)) (ms_order s) of
        None \<Rightarrow> (s, Inl (NewError CodeCapabilityUnavailable ''no target is ready to claim'' None))
      | Some (i, k) \<Rightarrow>
          (case randomID draw 0 ''attempt'' of
             Inl e \<Rightarrow> (s, Inl (Wrap ''create attempt token'' e))
           | Inr token \<Rightarrow>
               let j = the (ms_jobs s i);
                   t = (jb_Targets j ! k)\<lparr>jt_Status := TargetRunning, jt_Attempts := jt_Attempts (jb_Targets j ! k) + 1,
                         jt_AttemptToken := token, jt_LeaseOwner := worker, jt_LeaseExpiresAt := now + lease\<rparr>;
                   j' = (set_target k t j)\<lparr>jb_Status := JobRunning, jb_UpdatedAt := now\<rparr>
               in (s\<lparr>ms_jobs := (ms_jobs s)(i \<mapsto> j')\<rparr>,
                   Inr \<lparr>cl_JobID = jb_ID j, cl_TargetID = jt_ID t, cl_BundleID = jb_BundleID j,
                        cl_Request = jt_Request t, cl_Reclassify = jt_Reclassify t, cl_Attempt = jt_Attempts t,
                        cl_AttemptToken = token, cl_LeaseExpires = jt_LeaseExpiresAt t\<rparr>)))"

definition stale_token :: go_error where
  "stale_token = NewError CodeIdempotencyConflict ''attempt token is stale'' None"

definition Renew :: "go_error option \<Rightarrow> gotime \<Rightarrow> string \<Rightarrow> string \<Rightarrow> duration \<Rightarrow>
    memory_store \<Rightarrow> memory_store \<times> go_error option" where
  "Renew ctx now targetID token lease s =
     (case ctx of Some e \<Rightarrow> (s, Some e) | None \<Rightarrow>
      case findTarget targetID s of
        None \<Rightarrow> (s, Some stale_token)
      | Some (i, k) \<Rightarrow>
          let j = the (ms_jobs s i); t = jb_Targets j ! k in
          if jt_Status t \<noteq> TargetRunning \<or> jt_AttemptToken t \<noteq> token then (s, Some stale_token)
          else if jb_CancelRequested j
          then (s, Some (NewError CodeCancelled ''job cancellation was requested'' None))
          else (s\<lparr>ms_jobs := (ms_jobs s)(i \<mapsto> set_target k (t\<lparr>jt_LeaseExpiresAt := now + lease\<rparr>) j)\<rparr>, None))"

definition reportsEqual :: "(report \<Rightarrow> go_error + string) \<Rightarrow> job_target \<Rightarrow> report \<Rightarrow> bool" where
  "reportsEqual marshal t r =
     (if \<not> jt_ReportAvailable t \<or> re_ID (jt_Report t) = [] then re_ID r = []
      else if re_ID r = [] then False
      else (case (CanonicalJSON marshal (jt_Report t), CanonicalJSON marshal r) of
              (Inr a, Inr b) \<Rightarrow> a = b | _ \<Rightarrow> False))"

text \<open>The target row \<open>Complete\<close> writes.\<close>

definition completed_target :: "report \<Rightarrow> target_status \<Rightarrow> string \<Rightarrow> job_target \<Rightarrow> job_target" where
  "completed_target r status reason t =
     (let t = t\<lparr>jt_Status := status, jt_TerminalReason := reason, jt_LeaseOwner := [], jt_LeaseExpiresAt := 0\<rparr> in
      if re_ID r \<noteq> [] then t\<lparr>jt_Report := r, jt_ReportID := re_ID r, jt_ReportAvailable := True\<rparr> else t)"

definition Complete :: "(report \<Rightarrow> go_error + string) \<Rightarrow> go_error option \<Rightarrow> gotime \<Rightarrow> string \<Rightarrow> string \<Rightarrow>
    report \<Rightarrow> target_status \<Rightarrow> string \<Rightarrow> memory_store \<Rightarrow> memory_store \<times> go_error option" where
  "Complete marshal ctx now targetID token r status reason s =
     (case ctx of Some e \<Rightarrow> (s, Some e) | None \<Rightarrow>
      if \<not> terminalTarget status
      then (s, Some (NewError CodeInvalidOptions ''completion status is not terminal'' None))
      else case (if re_ID r \<noteq> [] then ValidateReferences r else None) of
        Some e \<Rightarrow> (s, Some (NewError CodeInvalidOptions ''report references are invalid'' (Some e)))
      | None \<Rightarrow>
      case findTarget targetID s of
        None \<Rightarrow> (s, Some stale_token)
      | Some (i, k) \<Rightarrow>
          let j = the (ms_jobs s i); t = jb_Targets j ! k in
          if jt_AttemptToken t \<noteq> token then (s, Some stale_token)
          else if jt_Status t \<noteq> TargetRunning then
            (if jt_Status t = status \<and> jt_TerminalReason t = reason \<and> reportsEqual marshal t r then (s, None)
             else (s, Some (NewError CodeIdempotencyConflict
                        ''attempt completion conflicts with the committed result'' None)))
          else (case finishJob now (set_target k (completed_target r status reason t) j) (ms_pins s) of
                  (j', pins) \<Rightarrow>
                    (s\<lparr>ms_jobs := (ms_jobs s)(i \<mapsto> j'), ms_reservations := ms_reservations s - 1, ms_pins := pins\<rparr>,
                     None)))"

section \<open>Cancellation and lease recovery\<close>

definition cancel_target :: "job_target \<Rightarrow> job_target" where
  "cancel_target t =
     (if jt_Status t = TargetQueued
      then t\<lparr>jt_Status := TargetCancelled, jt_TerminalReason := ''cancelled before claim''\<rparr> else t)"

definition RequestCancel :: "go_error option \<Rightarrow> gotime \<Rightarrow> string \<Rightarrow> string \<Rightarrow>
    memory_store \<Rightarrow> memory_store \<times> go_error option" where
  "RequestCancel ctx now jobID operatorID s =
     (case ctx of Some e \<Rightarrow> (s, Some e) | None \<Rightarrow>
      if operatorID = [] then (s, Some (NewError CodeInvalidOptions ''cancelling operator is required'' None))
      else case ms_jobs s jobID of
        None \<Rightarrow> (s, Some (NewError CodeInvalidTarget ''job was not found'' None))
      | Some j \<Rightarrow>
          (case finishJob now (j\<lparr>jb_CancelRequested := True, jb_CancelRequestedBy := operatorID,
                   jb_UpdatedAt := now, jb_Targets := map cancel_target (jb_Targets j)\<rparr>) (ms_pins s) of
             (j', pins) \<Rightarrow>
               (s\<lparr>ms_jobs := (ms_jobs s)(jobID \<mapsto> j'),
                  ms_reservations := ms_reservations s - int (status_count TargetQueued (jb_Targets j)),
                  ms_pins := pins\<rparr>, None)))"

text \<open>One target of the recovery loop: an expired attempt is cancelled, failed or requeued. The
  second component is the number of reservations the iteration gives up.\<close>

definition recover_target :: "gotime \<Rightarrow> int \<Rightarrow> bool \<Rightarrow> job_target \<Rightarrow> job_target \<times> int" where
  "recover_target now maximumAttempts cancelRequested t =
     (if jt_Status t \<noteq> TargetRunning \<or> jt_LeaseExpiresAt t > now then (t, 0)
      else let t = t\<lparr>jt_AttemptToken := [], jt_LeaseOwner := [], jt_LeaseExpiresAt := 0\<rparr> in
        if cancelRequested
        then (t\<lparr>jt_Status := TargetCancelled, jt_TerminalReason := ''cancelled after lease expiry''\<rparr>, 1)
        else if jt_Attempts t \<ge> maximumAttempts
        then (t\<lparr>jt_Status := TargetFailed, jt_TerminalReason := ''attempt limit exhausted''\<rparr>, 1)
        else (t\<lparr>jt_Status := TargetQueued, jt_NextAttemptAt := now\<rparr>, 0))"

text \<open>The body of the loop over the jobs: its targets are recovered, then the job is finished.
  Every identifier in the order has a job, so the pointer of the source is never nil.\<close>

definition recover_job :: "gotime \<Rightarrow> int \<Rightarrow> string \<Rightarrow> memory_store \<Rightarrow> memory_store" where
  "recover_job now maximumAttempts jobID s =
     (case ms_jobs s jobID of
        None \<Rightarrow> s
      | Some j \<Rightarrow>
          let rs = map (recover_target now maximumAttempts (jb_CancelRequested j)) (jb_Targets j) in
          (case finishJob now (j\<lparr>jb_Targets := map fst rs\<rparr>) (ms_pins s) of
             (j', pins) \<Rightarrow>
               s\<lparr>ms_jobs := (ms_jobs s)(jobID \<mapsto> j'),
                 ms_reservations := ms_reservations s - sum_list (map snd rs),
                 ms_pins := pins\<rparr>))"

definition RecoverExpired :: "go_error option \<Rightarrow> gotime \<Rightarrow> int \<Rightarrow> memory_store \<Rightarrow> memory_store \<times> go_error option" where
  "RecoverExpired ctx now maximumAttempts s =
     (case ctx of Some e \<Rightarrow> (s, Some e)
      | None \<Rightarrow> (fold (recover_job now maximumAttempts) (ms_order s) s, None))"

definition Reservations :: "memory_store \<Rightarrow> int" where "Reservations s = ms_reservations s"

definition BundlePins :: "string \<Rightarrow> memory_store \<Rightarrow> int" where "BundlePins bundleID s = ms_pins s bundleID"

end
