(* ===== verification/Jobs_Invariant.thy ===== *)
theory Jobs_Invariant
  imports Jobs
begin

text \<open>
  The job store as a state machine: one step per operation of memory.go, the invariant that
  ties reservations to targets, and what every step keeps. The only assumption on a step is
  that a drawn job identifier is not in use (128 random bits in the source).
\<close>

section \<open>Counting live targets\<close>

definition live_count :: "job_target list \<Rightarrow> nat" where
  "live_count ts = length (filter (\<lambda>t. \<not> terminalTarget (jt_Status t)) ts)"

definition job_live :: "job option \<Rightarrow> int" where
  "job_live j = (case j of None \<Rightarrow> 0 | Some j \<Rightarrow> int (live_count (jb_Targets j)))"

definition total_live :: "(string \<rightharpoonup> job) \<Rightarrow> string list \<Rightarrow> int" where
  "total_live js order = sum_list (map (\<lambda>i. job_live (js i)) order)"

lemma live_count_Nil [simp]: "live_count [] = 0"
  by (simp add: live_count_def)

lemma live_count_append [simp]: "live_count (xs @ ys) = live_count xs + live_count ys"
  by (simp add: live_count_def)

lemma live_count_Cons: "live_count (t # ts) = (if terminalTarget (jt_Status t) then 0 else 1) + live_count ts"
  by (simp add: live_count_def)

lemma live_count_0_iff: "live_count ts = 0 \<longleftrightarrow> list_all (\<lambda>t. terminalTarget (jt_Status t)) ts"
  by (induction ts) (auto simp: live_count_Cons)

lemma live_count_update:
  "k < length ts \<Longrightarrow> int (live_count (ts[k := t])) =
     int (live_count ts) - (if terminalTarget (jt_Status (ts ! k)) then 0 else 1)
       + (if terminalTarget (jt_Status t) then 0 else 1)"
proof (induction ts arbitrary: k)
  case (Cons u ts)
  then show ?case by (cases k) (auto simp: live_count_Cons)
qed simp

lemma total_live_fun_upd:
  "distinct order \<Longrightarrow> total_live (js(i := v)) order =
     total_live js order + (if i \<in> set order then job_live v - job_live (js i) else 0)"
  by (induction order) (auto simp: total_live_def)

lemma terminal_simps [simp]:
  "\<not> terminalTarget TargetQueued" "\<not> terminalTarget TargetRunning"
  "terminalTarget TargetCompleted" "terminalTarget TargetPartial"
  "terminalTarget TargetFailed" "terminalTarget TargetCancelled"
  by (simp_all add: terminalTarget_def)

section \<open>The invariant\<close>

definition store_inv :: "memory_store \<Rightarrow> bool" where
  "store_inv s \<longleftrightarrow> distinct (ms_order s) \<and> set (ms_order s) = dom (ms_jobs s)
     \<and> (\<forall>i j. ms_jobs s i = Some j \<longrightarrow> jb_ID j = i)
     \<and> (\<forall>op key i. ms_idempotency s (op, key) = Some i \<longrightarrow>
          (\<exists>j. ms_jobs s i = Some j \<and> jb_OperatorID j = op \<and> jb_IdempotencyKey j = key))
     \<and> ms_reservations s = total_live (ms_jobs s) (ms_order s)
     \<and> ms_reservations s \<le> max 0 (ms_maximumTargets s)"

lemma store_inv_new [simp]: "store_inv (NewMemoryStore m)"
  by (simp add: store_inv_def NewMemoryStore_def total_live_def)

text \<open>What the operations leave alone in a job: its identity, its request and its targets' rows.\<close>

definition same_job :: "job \<Rightarrow> job \<Rightarrow> bool" where
  "same_job j j' \<longleftrightarrow> jb_ID j' = jb_ID j \<and> jb_OperatorID j' = jb_OperatorID j
     \<and> jb_IdempotencyKey j' = jb_IdempotencyKey j \<and> jb_BundleID j' = jb_BundleID j
     \<and> jb_payloadHash j' = jb_payloadHash j \<and> length (jb_Targets j') = length (jb_Targets j)"

lemma same_job_refl [simp]: "same_job j j"
  by (simp add: same_job_def)

lemma same_job_trans: "same_job a b \<Longrightarrow> same_job b c \<Longrightarrow> same_job a c"
  by (simp add: same_job_def)

lemma finishJob_targets [simp]: "jb_Targets (fst (finishJob now j pins)) = jb_Targets j"
  by (simp add: finishJob_def Let_def)

lemma finishJob_cancel [simp]: "jb_CancelRequested (fst (finishJob now j pins)) = jb_CancelRequested j"
  by (simp add: finishJob_def Let_def)

lemma finishJob_same: "same_job j (fst (finishJob now j pins))"
  by (simp add: finishJob_def same_job_def Let_def)

text \<open>Replacing one job by a successor and adjusting the reservations keeps the invariant.\<close>

definition put_job :: "string \<Rightarrow> job \<Rightarrow> int \<Rightarrow> (string \<Rightarrow> int) \<Rightarrow> memory_store \<Rightarrow> memory_store" where
  "put_job i j n pins s = s\<lparr>ms_jobs := (ms_jobs s)(i \<mapsto> j), ms_reservations := n, ms_pins := pins\<rparr>"

lemma put_job_simps [simp]:
  "ms_jobs (put_job i j n pins s) = (ms_jobs s)(i \<mapsto> j)"
  "ms_reservations (put_job i j n pins s) = n" "ms_pins (put_job i j n pins s) = pins"
  "ms_order (put_job i j n pins s) = ms_order s"
  "ms_idempotency (put_job i j n pins s) = ms_idempotency s"
  "ms_maximumTargets (put_job i j n pins s) = ms_maximumTargets s"
  by (simp_all add: put_job_def)

lemma put_job_same_reservations:
  "s\<lparr>ms_jobs := (ms_jobs s)(i \<mapsto> j)\<rparr> = put_job i j (ms_reservations s) (ms_pins s) s"
  by (simp add: put_job_def)

lemma store_inv_put_job:
  assumes "store_inv s" "ms_jobs s i = Some j" "same_job j j'"
    and "n = ms_reservations s - int (live_count (jb_Targets j)) + int (live_count (jb_Targets j'))"
    and "live_count (jb_Targets j') \<le> live_count (jb_Targets j)"
  shows "store_inv (put_job i j' n pins s)"
proof -
  have "i \<in> set (ms_order s)" using assms(1,2) by (auto simp: store_inv_def)
  then have "total_live ((ms_jobs s)(i \<mapsto> j')) (ms_order s) =
      total_live (ms_jobs s) (ms_order s) + int (live_count (jb_Targets j')) - int (live_count (jb_Targets j))"
    using assms(1,2) by (subst total_live_fun_upd) (auto simp: store_inv_def job_live_def)
  moreover have "\<exists>k. ((ms_jobs s)(i \<mapsto> j')) l = Some k \<and> jb_OperatorID k = op \<and> jb_IdempotencyKey k = key"
    if idem: "ms_idempotency s (op, key) = Some l" for op key l
  proof -
    obtain k where "ms_jobs s l = Some k" "jb_OperatorID k = op" "jb_IdempotencyKey k = key"
      using assms(1) idem unfolding store_inv_def by blast
    with assms(2,3) show ?thesis by (cases "l = i") (auto simp: same_job_def)
  qed
  ultimately show ?thesis
    using assms by (auto simp: store_inv_def same_job_def)
qed

section \<open>Lookup\<close>

lemma first_index_Some:
  "first_index p xs = Some k \<Longrightarrow> k < length xs \<and> p (xs ! k) \<and> (\<forall>l < k. \<not> p (xs ! l))"
proof (induction xs arbitrary: k)
  case (Cons x xs)
  then show ?case by (cases k) (auto split: if_splits simp: less_Suc_eq_0_disj)
qed simp

lemma first_index_None: "first_index p xs = None \<longleftrightarrow> (\<forall>x \<in> set xs. \<not> p x)"
  by (induction xs) auto

lemma scan_jobs_Some:
  "scan_jobs js e p is = Some (i, k) \<Longrightarrow>
   \<exists>j. js i = Some j \<and> e j \<and> k < length (jb_Targets j) \<and> p (jb_Targets j ! k)"
  by (induction "is") (auto split: option.splits if_splits dest: first_index_Some)

lemma scan_jobs_None:
  "scan_jobs js e p is = None \<longleftrightarrow> (\<forall>i \<in> set is. \<forall>j. js i = Some j \<longrightarrow> e j \<longrightarrow> (\<forall>t \<in> set (jb_Targets j). \<not> p t))"
  by (induction "is") (auto split: option.splits simp: first_index_None, metis first_index_Some nth_mem)

lemma findTarget_Some:
  "findTarget tid s = Some (i, k) \<Longrightarrow>
   \<exists>j. ms_jobs s i = Some j \<and> k < length (jb_Targets j) \<and> jt_ID (jb_Targets j ! k) = tid"
  unfolding findTarget_def by (drule scan_jobs_Some) auto

section \<open>Every operation keeps the invariant\<close>

lemma analyze_rows_live:
  "analyze_rows env draw n rs = Inr ts \<Longrightarrow>
   length ts = length rs \<and> live_count ts = length (filter (\<lambda>r. ValidateAnalyzeRequest env r = None) rs)"
  by (induction rs arbitrary: n ts)
     (auto simp: and_then_Inr_iff Let_def live_count_Cons new_target_def split: sum.splits)

lemma reclassify_rows_live:
  "reclassify_rows draw n rs = Inr ts \<Longrightarrow> length ts = length rs \<and> live_count ts = length rs"
  by (induction rs arbitrary: n ts)
     (auto simp: and_then_Inr_iff live_count_Cons new_target_def split: sum.splits)

text \<open>The two ways \<open>Submit\<close> ends: the store is unchanged, or a new job is added.\<close>

definition admitted :: "submit_request \<Rightarrow> string \<Rightarrow> job \<Rightarrow> int \<Rightarrow> memory_store \<Rightarrow> memory_store" where
  "admitted request jobID j reserved s =
     s\<lparr>ms_jobs := (ms_jobs s)(jobID \<mapsto> j), ms_order := ms_order s @ [jobID],
       ms_idempotency := (ms_idempotency s)((sr_OperatorID request, sr_IdempotencyKey request) \<mapsto> jobID),
       ms_reservations := ms_reservations s + reserved,
       ms_pins := (if jb_BundleID j \<noteq> [] \<and> reserved > 0
                   then (ms_pins s)(jb_BundleID j := ms_pins s (jb_BundleID j) + 1) else ms_pins s)\<rparr>"

lemma Submit_cases:
  assumes "Submit env digest draw ctx now request s = (s', res)"
  obtains (unchanged) "s' = s"
  | (admit) jobID j where "s' = admitted request jobID j (work_reservations env request) s" "res = Inr j"
      "randomID draw 0 ''job'' = Inr jobID" "jb_ID j = jobID"
      "jb_OperatorID j = sr_OperatorID request" "jb_IdempotencyKey j = sr_IdempotencyKey request"
      "jb_BundleID j = sr_BundleID request" "hashRequest digest request = Inr (jb_payloadHash j)"
      "\<not> jb_pinReleased j" "\<not> jb_CancelRequested j"
      "int (live_count (jb_Targets j)) = work_reservations env request"
      "length (jb_Targets j) = WorkCount request"
      "\<exists>ts us. jb_Targets j = ts @ us \<and> analyze_rows env draw 0 (sr_Targets request) = Inr ts
         \<and> reclassify_rows draw (length (sr_Targets request)) (sr_Reclassifications request) = Inr us"
      "ms_idempotency s (sr_OperatorID request, sr_IdempotencyKey request) = None"
      "0 < ms_maximumTargets s" "work_reservations env request \<le> ms_maximumTargets s - ms_reservations s"
proof (cases "s' = s")
  case True
  then show ?thesis by (rule unchanged)
next
  case False
  obtain h where h: "hashRequest digest request = Inr h"
    using assms False
    by (cases "hashRequest digest request") (auto simp: Submit_def split: option.splits if_splits)
  obtain jobID where i: "randomID draw 0 ''job'' = Inr jobID"
    using assms False h
    by (cases "randomID draw 0 ''job''") (auto simp: Submit_def Let_def split: option.splits if_splits)
  obtain ts where ts: "analyze_rows env draw 0 (sr_Targets request) = Inr ts"
    using assms False h i
    by (cases "analyze_rows env draw 0 (sr_Targets request)")
       (auto simp: Submit_def Let_def split: option.splits if_splits)
  obtain us where us: "reclassify_rows draw (length (sr_Targets request)) (sr_Reclassifications request) = Inr us"
    using assms False h i ts
    by (cases "reclassify_rows draw (length (sr_Targets request)) (sr_Reclassifications request)")
       (auto simp: Submit_def Let_def split: option.splits if_splits)
  note rows = analyze_rows_live [OF ts] reclassify_rows_live [OF us]
  let ?j = "\<lparr>jb_ID = jobID, jb_OperatorID = sr_OperatorID request,
                jb_IdempotencyKey = sr_IdempotencyKey request, jb_BundleID = sr_BundleID request,
                jb_Status = (if work_reservations env request = 0 then JobFailed else JobQueued), jb_CancelRequested = False,
                jb_CancelRequestedBy = [], jb_CreatedAt = now, jb_UpdatedAt = now, jb_Targets = ts @ us,
                jb_payloadHash = h, jb_pinReleased = False\<rparr>"
  have "ms_idempotency s (sr_OperatorID request, sr_IdempotencyKey request) = None"
    using assms False h i ts us
    by (auto simp: Submit_def Let_def split: option.splits if_splits)
  moreover from this have "s' = admitted request jobID ?j (work_reservations env request) s \<and> res = Inr ?j
      \<and> 0 < ms_maximumTargets s \<and> work_reservations env request \<le> ms_maximumTargets s - ms_reservations s"
    using assms False h i ts us
    by (auto simp: Submit_def Let_def admitted_def split: option.splits if_splits)
  ultimately show ?thesis
    using admit [of jobID ?j] h i ts us rows by (auto simp: work_reservations_def WorkCount_def)
qed

lemma Submit_inv [inv_intros]:
  assumes inv: "store_inv s" and fresh: "\<And>i. randomID draw 0 ''job'' = Inr i \<Longrightarrow> ms_jobs s i = None"
  shows "store_inv (fst (Submit env digest draw ctx now request s))"
proof -
  obtain s' res where sub: "Submit env digest draw ctx now request s = (s', res)" by fastforce
  from sub show ?thesis
  proof (cases rule: Submit_cases)
    case unchanged
    with sub inv show ?thesis by simp
  next
    case (admit jobID j)
    have new: "ms_jobs s jobID = None" using fresh admit(3) .
    then have notin: "jobID \<notin> set (ms_order s)" using inv by (auto simp: store_inv_def)
    have "total_live ((ms_jobs s)(jobID \<mapsto> j)) (ms_order s @ [jobID]) =
        total_live (ms_jobs s) (ms_order s) + work_reservations env request"
      using notin total_live_fun_upd [of "ms_order s" "ms_jobs s" jobID "Some j"] inv admit(11)
      by (simp add: store_inv_def total_live_def job_live_def)
    moreover have "\<exists>k. ((ms_jobs s)(jobID \<mapsto> j)) l = Some k \<and> jb_OperatorID k = op \<and> jb_IdempotencyKey k = key"
      if idem: "((ms_idempotency s)((sr_OperatorID request, sr_IdempotencyKey request) \<mapsto> jobID)) (op, key) = Some l"
      for op key l
    proof (cases "(op, key) = (sr_OperatorID request, sr_IdempotencyKey request)")
      case False
      with idem have "ms_idempotency s (op, key) = Some l" by (simp split: if_splits)
      then obtain k where "ms_jobs s l = Some k" "jb_OperatorID k = op" "jb_IdempotencyKey k = key"
        using inv unfolding store_inv_def by blast
      with new show ?thesis by (cases "l = jobID") auto
    qed (use idem admit(5,6) in auto)
    ultimately have "store_inv (admitted request jobID j (work_reservations env request) s)"
      using inv notin admit(4) admit(15,16)
      by (auto simp: store_inv_def admitted_def)
    with sub admit(1) show ?thesis by simp
  qed
qed

text \<open>The other operations leave the store alone or put a successor of one job.\<close>

lemma Claim_cases:
  assumes "Claim draw ctx now worker lease s = (s', res)"
  obtains (unchanged) e where "s' = s" "res = Inl e"
  | (claimed) i k j t j' token where "ms_jobs s i = Some j" "k < length (jb_Targets j)" "\<not> jb_CancelRequested j"
      "jt_Status (jb_Targets j ! k) = TargetQueued" "jt_NextAttemptAt (jb_Targets j ! k) \<le> now"
      "randomID draw 0 ''attempt'' = Inr token" "worker \<noteq> []" "0 < lease"
      "t = (jb_Targets j ! k)\<lparr>jt_Status := TargetRunning, jt_Attempts := jt_Attempts (jb_Targets j ! k) + 1,
              jt_AttemptToken := token, jt_LeaseOwner := worker, jt_LeaseExpiresAt := now + lease\<rparr>"
      "j' = (set_target k t j)\<lparr>jb_Status := JobRunning, jb_UpdatedAt := now\<rparr>"
      "s' = put_job i j' (ms_reservations s) (ms_pins s) s"
      "res = Inr \<lparr>cl_JobID = jb_ID j, cl_TargetID = jt_ID t, cl_BundleID = jb_BundleID j,
                   cl_Request = jt_Request t, cl_Reclassify = jt_Reclassify t, cl_Attempt = jt_Attempts t,
                   cl_AttemptToken = token, cl_LeaseExpires = jt_LeaseExpiresAt t\<rparr>"
proof (cases res)
  case (Inl e)
  with assms have "s' = s"
    by (auto simp: Claim_def Let_def split: option.splits if_splits prod.splits sum.splits)
  with Inl show ?thesis using unchanged by blast
next
  case (Inr c)
  let ?scan = "scan_jobs (ms_jobs s) (\<lambda>j. \<not> jb_CancelRequested j)
                  (\<lambda>t. \<not> (jt_Status t \<noteq> TargetQueued \<or> jt_NextAttemptAt t > now)) (ms_order s)"
  from assms Inr obtain i k where scan: "?scan = Some (i, k)"
    by (auto simp: Claim_def split: option.splits if_splits)
  from assms Inr scan obtain token where tok: "randomID draw 0 ''attempt'' = Inr token"
    by (cases "randomID draw 0 ''attempt''") (auto simp: Claim_def split: option.splits if_splits)
  from scan_jobs_Some [OF scan] obtain j where "ms_jobs s i = Some j" "\<not> jb_CancelRequested j"
    "k < length (jb_Targets j)" "jt_Status (jb_Targets j ! k) = TargetQueued"
    "jt_NextAttemptAt (jb_Targets j ! k) \<le> now" by auto
  then show ?thesis using assms Inr scan tok
    by (intro claimed [of i j k token]) (auto simp: Claim_def Let_def put_job_def split: option.splits if_splits)
qed

lemma set_target_same: "same_job j ((set_target k t j)\<lparr>jb_Status := st, jb_UpdatedAt := u\<rparr>)" "same_job j (set_target k t j)"
  by (simp_all add: set_target_def same_job_def)

lemma live_set_target:
  "k < length (jb_Targets j) \<Longrightarrow> int (live_count (jb_Targets (set_target k t j))) =
     int (live_count (jb_Targets j)) - (if terminalTarget (jt_Status (jb_Targets j ! k)) then 0 else 1)
       + (if terminalTarget (jt_Status t) then 0 else 1)"
  by (simp add: set_target_def live_count_update)

lemma Claim_inv [inv_intros]:
  assumes inv: "store_inv s"
  shows "store_inv (fst (Claim draw ctx now worker lease s))"
proof -
  obtain s' res where eq: "Claim draw ctx now worker lease s = (s', res)" by fastforce
  then show ?thesis
  proof (cases rule: Claim_cases)
    case unchanged
    with eq inv show ?thesis by simp
  next
    case (claimed i k j t j' token)
    have "live_count (jb_Targets j') = live_count (jb_Targets j)"
      using live_set_target [OF claimed(2), of t] claimed(4,9,10) by simp
    then have "store_inv s'"
      unfolding claimed(11) using claimed(10)
      by (intro store_inv_put_job [OF inv claimed(1)]) (simp_all add: set_target_same)
    with eq show ?thesis by simp
  qed
qed

lemma Renew_cases:
  assumes "Renew ctx now tid token lease s = (s', err)"
  obtains (unchanged) e where "s' = s" "err = Some e"
  | (renewed) i k j where "findTarget tid s = Some (i, k)" "ms_jobs s i = Some j" "k < length (jb_Targets j)"
      "jt_ID (jb_Targets j ! k) = tid"
      "jt_Status (jb_Targets j ! k) = TargetRunning" "jt_AttemptToken (jb_Targets j ! k) = token"
      "\<not> jb_CancelRequested j" "err = None"
      "s' = put_job i (set_target k ((jb_Targets j ! k)\<lparr>jt_LeaseExpiresAt := now + lease\<rparr>) j)
              (ms_reservations s) (ms_pins s) s"
proof (cases err)
  case (Some e)
  with assms have "s' = s" by (auto simp: Renew_def Let_def split: option.splits if_splits)
  with Some show ?thesis using unchanged by blast
next
  case None
  with assms obtain i k where f: "findTarget tid s = Some (i, k)"
    by (auto simp: Renew_def split: option.splits)
  from findTarget_Some [OF f] obtain j where "ms_jobs s i = Some j" "k < length (jb_Targets j)"
    "jt_ID (jb_Targets j ! k) = tid" by blast
  with assms None f show ?thesis
    by (intro renewed [of i k j]) (auto simp: Renew_def Let_def put_job_def split: option.splits if_splits)
qed

lemma Renew_inv [inv_intros]:
  assumes inv: "store_inv s"
  shows "store_inv (fst (Renew ctx now tid token lease s))"
proof -
  obtain s' err where eq: "Renew ctx now tid token lease s = (s', err)" by fastforce
  then show ?thesis
  proof (cases rule: Renew_cases)
    case unchanged
    with eq inv show ?thesis by simp
  next
    case (renewed i k j)
    let ?t = "(jb_Targets j ! k)\<lparr>jt_LeaseExpiresAt := now + lease\<rparr>"
    have "live_count (jb_Targets (set_target k ?t j)) = live_count (jb_Targets j)"
      using live_set_target [OF renewed(3), of ?t] renewed(5) by simp
    then have "store_inv s'"
      unfolding renewed(9) by (intro store_inv_put_job [OF inv renewed(2)]) (simp_all add: set_target_same)
    with eq show ?thesis by simp
  qed
qed

lemma completed_target_simps [simp]:
  "jt_Status (completed_target r st reason t) = st" "jt_ID (completed_target r st reason t) = jt_ID t"
  "jt_Attempts (completed_target r st reason t) = jt_Attempts t"
  "jt_AttemptToken (completed_target r st reason t) = jt_AttemptToken t"
  "jt_TerminalReason (completed_target r st reason t) = reason"
  by (simp_all add: completed_target_def Let_def)

lemma Complete_cases:
  assumes "Complete marshal ctx now tid token r status reason s = (s', err)"
  obtains (unchanged) "s' = s"
  | (completed) i k j where "findTarget tid s = Some (i, k)" "ms_jobs s i = Some j" "k < length (jb_Targets j)"
      "jt_ID (jb_Targets j ! k) = tid" "jt_AttemptToken (jb_Targets j ! k) = token"
      "jt_Status (jb_Targets j ! k) = TargetRunning" "terminalTarget status" "err = None"
      "re_ID r \<noteq> [] \<Longrightarrow> wf_report r"
      "s' = (case finishJob now (set_target k (completed_target r status reason (jb_Targets j ! k)) j) (ms_pins s) of
               (j', pins) \<Rightarrow> put_job i j' (ms_reservations s - 1) pins s)"
proof (cases "s' = s")
  case True
  then show ?thesis by (rule unchanged)
next
  case False
  with assms obtain i k where f: "findTarget tid s = Some (i, k)"
    by (auto simp: Complete_def split: option.splits if_splits)
  from findTarget_Some [OF f] obtain j where j: "ms_jobs s i = Some j" "k < length (jb_Targets j)"
    "jt_ID (jb_Targets j ! k) = tid" by blast
  show ?thesis
  proof (rule completed [OF f j])
    show "jt_AttemptToken (jb_Targets j ! k) = token" "jt_Status (jb_Targets j ! k) = TargetRunning"
      "terminalTarget status" "err = None"
      using assms False f j by (auto simp: Complete_def Let_def split: option.splits if_splits prod.splits)
    show "wf_report r" if "re_ID r \<noteq> []"
      using assms False that
      by (auto simp: Complete_def ValidateReferences_iff [symmetric] split: option.splits if_splits)
    show "s' = (case finishJob now (set_target k (completed_target r status reason (jb_Targets j ! k)) j) (ms_pins s) of
               (j', pins) \<Rightarrow> put_job i j' (ms_reservations s - 1) pins s)"
      using assms False f j by (auto simp: Complete_def Let_def put_job_def split: option.splits if_splits prod.splits)
  qed
qed

lemma case_finishJob:
  "(case finishJob now j pins of (j', p) \<Rightarrow> f j' p) = f (fst (finishJob now j pins)) (snd (finishJob now j pins))"
  by (simp add: case_prod_beta)

lemma Complete_inv [inv_intros]:
  assumes inv: "store_inv s"
  shows "store_inv (fst (Complete marshal ctx now tid token r status reason s))"
proof -
  obtain s' err where eq: "Complete marshal ctx now tid token r status reason s = (s', err)" by fastforce
  then show ?thesis
  proof (cases rule: Complete_cases)
    case unchanged
    with eq inv show ?thesis by simp
  next
    case (completed i k j)
    let ?j = "set_target k (completed_target r status reason (jb_Targets j ! k)) j"
    have "int (live_count (jb_Targets ?j)) = int (live_count (jb_Targets j)) - 1"
      using live_set_target [OF completed(3)] completed(6,7) by simp
    then have "store_inv s'"
      unfolding completed(10) case_finishJob
      by (intro store_inv_put_job [OF inv completed(2)])
         (auto intro: same_job_trans [OF set_target_same(2) finishJob_same])
    with eq show ?thesis by simp
  qed
qed

lemma live_count_cancel:
  "int (live_count (map cancel_target ts)) = int (live_count ts) - int (status_count TargetQueued ts)"
  by (induction ts) (auto simp: live_count_Cons cancel_target_def status_count_def)

definition cancelled_job :: "gotime \<Rightarrow> string \<Rightarrow> job \<Rightarrow> job" where
  "cancelled_job now operatorID j = j\<lparr>jb_CancelRequested := True, jb_CancelRequestedBy := operatorID,
     jb_UpdatedAt := now, jb_Targets := map cancel_target (jb_Targets j)\<rparr>"

lemma RequestCancel_cases:
  assumes "RequestCancel ctx now jobID operatorID s = (s', err)"
  obtains (unchanged) e where "s' = s" "err = Some e"
  | (cancelled) j where "ms_jobs s jobID = Some j" "err = None"
      "s' = (case finishJob now (cancelled_job now operatorID j) (ms_pins s) of
               (j', pins) \<Rightarrow> put_job jobID j'
                 (ms_reservations s - int (status_count TargetQueued (jb_Targets j))) pins s)"
proof (cases err)
  case (Some e)
  with assms have "s' = s" by (auto simp: RequestCancel_def split: option.splits if_splits prod.splits)
  with Some show ?thesis using unchanged by blast
next
  case None
  with assms obtain j where j: "ms_jobs s jobID = Some j"
    by (auto simp: RequestCancel_def split: option.splits if_splits)
  show ?thesis
  proof (rule cancelled [OF j None])
    show "s' = (case finishJob now (cancelled_job now operatorID j) (ms_pins s) of
               (j', pins) \<Rightarrow> put_job jobID j'
                 (ms_reservations s - int (status_count TargetQueued (jb_Targets j))) pins s)"
      using assms None j
      by (simp add: RequestCancel_def put_job_def cancelled_job_def case_finishJob split: option.splits if_splits)
  qed
qed

lemma RequestCancel_inv [inv_intros]:
  assumes inv: "store_inv s"
  shows "store_inv (fst (RequestCancel ctx now jobID operatorID s))"
proof -
  obtain s' err where eq: "RequestCancel ctx now jobID operatorID s = (s', err)" by fastforce
  then show ?thesis
  proof (cases rule: RequestCancel_cases)
    case unchanged
    with eq inv show ?thesis by simp
  next
    case (cancelled j)
    have "same_job j (cancelled_job now operatorID j)" by (simp add: same_job_def cancelled_job_def)
    then have "store_inv s'"
      unfolding cancelled(3) case_finishJob
      using live_count_cancel [of "jb_Targets j"]
      by (intro store_inv_put_job [OF inv cancelled(1)])
         (auto simp: cancelled_job_def intro: same_job_trans [OF _ finishJob_same])
    with eq show ?thesis by simp
  qed
qed

definition recovered_job :: "gotime \<Rightarrow> int \<Rightarrow> job \<Rightarrow> job" where
  "recovered_job now m j = j\<lparr>jb_Targets := map (\<lambda>t. fst (recover_target now m (jb_CancelRequested j) t)) (jb_Targets j)\<rparr>"

lemma recover_job_put:
  "ms_jobs s i = Some j \<Longrightarrow> recover_job now m i s =
     put_job i (fst (finishJob now (recovered_job now m j) (ms_pins s)))
       (ms_reservations s - sum_list (map (\<lambda>t. snd (recover_target now m (jb_CancelRequested j) t)) (jb_Targets j)))
       (snd (finishJob now (recovered_job now m j) (ms_pins s))) s"
  by (simp add: recover_job_def put_job_def recovered_job_def case_finishJob comp_def)

lemma live_count_recover:
  "int (live_count (map (\<lambda>t. fst (recover_target now m c t)) ts)) =
     int (live_count ts) - sum_list (map (\<lambda>t. snd (recover_target now m c t)) ts)
   \<and> 0 \<le> sum_list (map (\<lambda>t. snd (recover_target now m c t)) ts)"
  by (induction ts) (auto simp: live_count_Cons recover_target_def Let_def)

lemma recovered_job_same: "same_job j (fst (finishJob now (recovered_job now m j) pins))"
proof -
  have "same_job j (recovered_job now m j)" by (simp add: recovered_job_def same_job_def)
  then show ?thesis using finishJob_same same_job_trans by blast
qed

lemma recover_job_inv:
  assumes inv: "store_inv s"
  shows "store_inv (recover_job now m i s)"
proof (cases "ms_jobs s i")
  case None
  with inv show ?thesis by (simp add: recover_job_def)
next
  case (Some j)
  have "jb_Targets (recovered_job now m j) =
      map (\<lambda>t. fst (recover_target now m (jb_CancelRequested j) t)) (jb_Targets j)"
    by (simp add: recovered_job_def)
  then show ?thesis
    unfolding recover_job_put [OF Some]
    using live_count_recover [of now m "jb_CancelRequested j" "jb_Targets j"]
    by (intro store_inv_put_job [OF inv Some]) (simp_all add: recovered_job_same)
qed

lemma RecoverExpired_fold:
  "fst (RecoverExpired ctx now m s) = s \<or> fst (RecoverExpired ctx now m s) = fold (recover_job now m) (ms_order s) s"
  by (auto simp: RecoverExpired_def split: option.splits)

lemma fold_recover_inv: "store_inv s \<Longrightarrow> store_inv (fold (recover_job now m) is s)"
  by (induction "is" arbitrary: s) (auto simp: recover_job_inv)

lemma RecoverExpired_inv [inv_intros]: "store_inv s \<Longrightarrow> store_inv (fst (RecoverExpired ctx now m s))"
  using RecoverExpired_fold [of ctx now m s] fold_recover_inv [of s now m "ms_order s"] by auto

end
