(* ===== verification/Jobs_Steps.thy ===== *)
theory Jobs_Steps
  imports Jobs_Invariant "HOL-Library.Sublist"
begin

text \<open>
  Runs of the job store: the step relation, the lifecycle of a target as an abstract machine
  that every run refines, and the properties of reachable stores. \<open>accept\<close> restricts the
  submissions of a run; it is the constant true predicate unless a property needs more.
\<close>

section \<open>The abstract lifecycle of a target\<close>

type_synonym life = "target_status \<times> int"

inductive life_step :: "int \<Rightarrow> life \<Rightarrow> life \<Rightarrow> bool" for M where
  start: "life_step M (TargetQueued, n) (TargetRunning, n + 1)"
| finish: "terminalTarget st \<Longrightarrow> life_step M (TargetRunning, n) (st, n)"
| cancel: "life_step M (TargetQueued, n) (TargetCancelled, n)"
| retry: "n < M \<Longrightarrow> life_step M (TargetRunning, n) (TargetQueued, n)"

inductive_cases life_step_from: "life_step M (st, n) y"

lemma life_step_terminal: "life_step M (st, n) y \<Longrightarrow> \<not> terminalTarget st"
  by (erule life_step_from) auto

definition life_of :: "job_target \<Rightarrow> life" where
  "life_of t = (jt_Status t, jt_Attempts t)"

definition life_ok :: "int \<Rightarrow> life \<Rightarrow> bool" where
  "life_ok M l \<longleftrightarrow> 0 \<le> snd l \<and> snd l \<le> M \<and> (fst l = TargetQueued \<longrightarrow> snd l < M)"

lemma life_step_ok: "life_step M l l' \<Longrightarrow> life_ok M l \<Longrightarrow> life_ok M l'"
  by (induction rule: life_step.induct) (auto simp: life_ok_def)

lemma life_steps_ok: "(life_step M)\<^sup>*\<^sup>* l l' \<Longrightarrow> life_ok M l \<Longrightarrow> life_ok M l'"
  by (induction rule: rtranclp_induct) (auto intro: life_step_ok)

section \<open>How a stored target may change\<close>

definition target_evolves :: "int \<Rightarrow> job_target \<Rightarrow> job_target \<Rightarrow> bool" where
  "target_evolves M t t' \<longleftrightarrow> jt_ID t' = jt_ID t \<and> jt_Request t' = jt_Request t \<and> jt_Reclassify t' = jt_Reclassify t
     \<and> (terminalTarget (jt_Status t) \<longrightarrow> t' = t)
     \<and> (\<not> terminalTarget (jt_Status t') \<longrightarrow> jt_ReportAvailable t' = jt_ReportAvailable t) \<and> (life_step M)\<^sup>*\<^sup>* (life_of t) (life_of t')"

lemma target_evolves_refl [simp]: "target_evolves M t t"
  by (simp add: target_evolves_def)

lemma target_evolves_trans: "target_evolves M t u \<Longrightarrow> target_evolves M u v \<Longrightarrow> target_evolves M t v"
  by (auto simp: target_evolves_def)

lemma target_evolves_step:
  assumes "life_step M (life_of t) (life_of t')" "jt_ID t' = jt_ID t" "jt_Request t' = jt_Request t"
    "jt_Reclassify t' = jt_Reclassify t" "\<not> terminalTarget (jt_Status t') \<Longrightarrow> jt_ReportAvailable t' = jt_ReportAvailable t"
  shows "target_evolves M t t'"
  using assms life_step_terminal by (auto simp: target_evolves_def life_of_def)

lemma recover_target_evolves: "target_evolves M t (fst (recover_target now M c t))"
proof (cases "jt_Status t \<noteq> TargetRunning \<or> jt_LeaseExpiresAt t > now")
  case False
  then have "life_step M (life_of t) (life_of (fst (recover_target now M c t)))"
    by (auto simp: recover_target_def Let_def life_of_def intro: life_step.finish life_step.retry)
  then show ?thesis by (rule target_evolves_step) (auto simp: recover_target_def Let_def)
qed (simp add: recover_target_def)

lemma cancel_target_evolves: "target_evolves M t (cancel_target t)"
proof (cases "jt_Status t = TargetQueued")
  case True
  then have "life_step M (life_of t) (life_of (cancel_target t))"
    by (simp add: cancel_target_def life_of_def life_step.cancel)
  then show ?thesis by (rule target_evolves_step) (simp_all add: cancel_target_def)
qed (simp add: cancel_target_def)

lemma completed_target_evolves:
  "jt_Status t = TargetRunning \<Longrightarrow> terminalTarget st \<Longrightarrow> target_evolves M t (completed_target r st reason t)"
  by (rule target_evolves_step) (auto simp: life_of_def completed_target_def Let_def intro: life_step.finish)

lemma renewed_target_evolves:
  "jt_Status t = TargetRunning \<Longrightarrow> target_evolves M t (t\<lparr>jt_LeaseExpiresAt := e\<rparr>)"
  by (simp add: target_evolves_def life_of_def)

lemma claimed_target_evolves:
  "jt_Status t = TargetQueued \<Longrightarrow>
   target_evolves M t (t\<lparr>jt_Status := TargetRunning, jt_Attempts := jt_Attempts t + 1, jt_AttemptToken := a,
     jt_LeaseOwner := w, jt_LeaseExpiresAt := e\<rparr>)"
  by (rule target_evolves_step) (auto simp: life_of_def intro: life_step.start)

definition job_evolves :: "int \<Rightarrow> job \<Rightarrow> job \<Rightarrow> bool" where
  "job_evolves M j j' \<longleftrightarrow> same_job j j' \<and> list_all2 (target_evolves M) (jb_Targets j) (jb_Targets j')
     \<and> (jb_CancelRequested j \<longrightarrow> jb_CancelRequested j')"

lemma job_evolves_refl [simp]: "job_evolves M j j"
  by (simp add: job_evolves_def list_all2_refl)

lemma job_evolves_trans: "job_evolves M a b \<Longrightarrow> job_evolves M b c \<Longrightarrow> job_evolves M a c"
  unfolding job_evolves_def
  by (auto intro: same_job_trans list_all2_trans [OF target_evolves_trans])

lemma job_evolves_finish: "job_evolves M j j' \<Longrightarrow> job_evolves M j (fst (finishJob now j' pins))"
  using finishJob_same [of j' now pins] by (auto simp: job_evolves_def intro: same_job_trans)

lemma job_evolves_set_target:
  "k < length (jb_Targets j) \<Longrightarrow> target_evolves M (jb_Targets j ! k) t \<Longrightarrow> job_evolves M j (set_target k t j)"
  using set_target_same(2) [of j k t]
  by (auto simp: job_evolves_def set_target_def list_all2_conv_all_nth nth_list_update)

definition fresh_row :: "job_target \<Rightarrow> bool" where
  "fresh_row t \<longleftrightarrow> jt_Attempts t = 0 \<and> \<not> jt_ReportAvailable t \<and> (jt_Status t = TargetQueued \<or> jt_Status t = TargetFailed)"

lemma fresh_new_target [simp]:
  "fresh_row (new_target i n r c st reason) \<longleftrightarrow> st = TargetQueued \<or> st = TargetFailed"
  by (simp add: fresh_row_def new_target_def)

lemma analyze_rows_fresh: "analyze_rows env draw n rs = Inr ts \<Longrightarrow> t \<in> set ts \<Longrightarrow> fresh_row t"
  by (induction rs arbitrary: n ts) (auto simp: and_then_Inr_iff Let_def split: sum.splits)

lemma reclassify_rows_fresh: "reclassify_rows draw n rs = Inr ts \<Longrightarrow> t \<in> set ts \<Longrightarrow> fresh_row t"
  by (induction rs arbitrary: n ts) (auto simp: and_then_Inr_iff split: sum.splits)

text \<open>A row's life began as a queued or failed row without attempts; no report is stored
  before it ends.\<close>

definition born :: "int \<Rightarrow> job_target \<Rightarrow> bool" where
  "born M t \<longleftrightarrow> (\<exists>l \<in> {(TargetQueued, 0), (TargetFailed, 0)}. (life_step M)\<^sup>*\<^sup>* l (life_of t))
     \<and> (\<not> terminalTarget (jt_Status t) \<longrightarrow> \<not> jt_ReportAvailable t)"

lemma fresh_born: "fresh_row t \<Longrightarrow> born M t"
  by (auto simp: fresh_row_def born_def life_of_def)

lemma target_evolves_born: "target_evolves M t t' \<Longrightarrow> born M t \<Longrightarrow> born M t'"
  unfolding target_evolves_def born_def by (metis rtranclp_trans)

lemma job_evolves_born:
  assumes "job_evolves M j j'" "\<forall>t \<in> set (jb_Targets j). born M t"
  shows "\<forall>t \<in> set (jb_Targets j'). born M t"
proof
  fix t'
  assume "t' \<in> set (jb_Targets j')"
  then obtain k where k: "k < length (jb_Targets j)" "t' = jb_Targets j' ! k"
    using assms(1) by (metis in_set_conv_nth job_evolves_def list_all2_lengthD)
  with assms(1) have ev: "target_evolves M (jb_Targets j ! k) t'"
    by (auto simp: job_evolves_def list_all2_conv_all_nth)
  have "born M (jb_Targets j ! k)" using assms(2) k(1) by simp
  with ev show "born M t'" by (rule target_evolves_born)
qed

definition store_evolves :: "int \<Rightarrow> memory_store \<Rightarrow> memory_store \<Rightarrow> bool" where
  "store_evolves M s s' \<longleftrightarrow> (\<forall>i j. ms_jobs s i = Some j \<longrightarrow> (\<exists>j'. ms_jobs s' i = Some j' \<and> job_evolves M j j'))
     \<and> (\<forall>x i. ms_idempotency s x = Some i \<longrightarrow> ms_idempotency s' x = Some i)
     \<and> (\<forall>i j'. ms_jobs s i = None \<longrightarrow> ms_jobs s' i = Some j' \<longrightarrow> (\<forall>t \<in> set (jb_Targets j'). born M t))
     \<and> prefix (ms_order s) (ms_order s') \<and> ms_maximumTargets s' = ms_maximumTargets s"

lemma store_evolves_refl [simp]: "store_evolves M s s"
  by (simp add: store_evolves_def)

lemma store_evolves_job:
  "store_evolves M s s' \<Longrightarrow> ms_jobs s i = Some j \<Longrightarrow> \<exists>j'. ms_jobs s' i = Some j' \<and> job_evolves M j j'"
  unfolding store_evolves_def by blast

lemma store_evolves_trans:
  assumes "store_evolves M a b" "store_evolves M b c"
  shows "store_evolves M a c"
  unfolding store_evolves_def
proof (intro conjI allI impI)
  fix i j
  assume "ms_jobs a i = Some j"
  then obtain k where k: "ms_jobs b i = Some k" "job_evolves M j k" using store_evolves_job [OF assms(1)] by blast
  then obtain l where "ms_jobs c i = Some l" "job_evolves M k l" using store_evolves_job [OF assms(2)] by blast
  with k(2) show "\<exists>j'. ms_jobs c i = Some j' \<and> job_evolves M j j'" using job_evolves_trans by blast
next
  fix i l
  assume none: "ms_jobs a i = None" and l: "ms_jobs c i = Some l"
  show "\<forall>t \<in> set (jb_Targets l). born M t"
  proof (cases "ms_jobs b i")
    case None
    with l assms(2) show ?thesis by (auto simp: store_evolves_def)
  next
    case (Some k)
    then have "\<forall>t \<in> set (jb_Targets k). born M t" using none assms(1) by (auto simp: store_evolves_def)
    moreover have "job_evolves M k l" using store_evolves_job [OF assms(2) Some] l by auto
    ultimately show ?thesis using job_evolves_born by blast
  qed
qed (use assms in \<open>auto simp: store_evolves_def\<close>)

lemma store_evolves_put:
  "ms_jobs s i = Some j \<Longrightarrow> job_evolves M j j' \<Longrightarrow> store_evolves M s (put_job i j' n pins s)"
  by (auto simp: store_evolves_def)

section \<open>Steps and runs\<close>

inductive store_step :: "target_env \<Rightarrow> request_digest \<Rightarrow> (report \<Rightarrow> go_error + string) \<Rightarrow> int \<Rightarrow>
    (submit_request \<Rightarrow> bool) \<Rightarrow> memory_store \<Rightarrow> memory_store \<Rightarrow> bool"
  for env digest marshal M accept where
  submit: "accept request \<Longrightarrow> (\<And>i. randomID draw 0 ''job'' = Inr i \<Longrightarrow> ms_jobs s i = None) \<Longrightarrow>
    store_step env digest marshal M accept s (fst (Submit env digest draw ctx now request s))"
| claim: "store_step env digest marshal M accept s (fst (Claim draw ctx now worker lease s))"
| renew: "store_step env digest marshal M accept s (fst (Renew ctx now tid token lease s))"
| complete: "store_step env digest marshal M accept s
    (fst (Complete marshal ctx now tid token r status reason s))"
| request_cancel: "store_step env digest marshal M accept s (fst (RequestCancel ctx now jobID operatorID s))"
| recover: "store_step env digest marshal M accept s (fst (RecoverExpired ctx now M s))"

definition any_request :: "submit_request \<Rightarrow> bool" where
  "any_request r = True"

lemma store_step_inv: "store_step env digest marshal M accept s s' \<Longrightarrow> store_inv s \<Longrightarrow> store_inv s'"
  by (induction rule: store_step.induct) (auto intro: inv_intros)

lemma recover_job_evolves: "store_evolves M s (recover_job now M i s)"
proof (cases "ms_jobs s i")
  case None
  then show ?thesis by (simp add: recover_job_def)
next
  case (Some j)
  have "job_evolves M j (recovered_job now M j)"
    by (auto simp: job_evolves_def recovered_job_def same_job_def list_all2_conv_all_nth recover_target_evolves)
  then show ?thesis
    unfolding recover_job_put [OF Some] by (intro store_evolves_put [OF Some] job_evolves_finish)
qed

lemma fold_recover_evolves: "store_evolves M s (fold (recover_job now M) is s)"
  by (induction "is" arbitrary: s) (auto intro: store_evolves_trans recover_job_evolves)

lemma Submit_evolves:
  assumes "\<And>i. randomID draw 0 ''job'' = Inr i \<Longrightarrow> ms_jobs s i = None"
  shows "store_evolves M s (fst (Submit env digest draw ctx now request s))"
proof -
  obtain s' res where sub: "Submit env digest draw ctx now request s = (s', res)" by fastforce
  then show ?thesis
  proof (cases rule: Submit_cases)
    case (admit jobID j)
    have "ms_jobs s jobID = None" using assms admit(3) .
    moreover have "\<forall>t \<in> set (jb_Targets j). born M t"
      using admit(13) analyze_rows_fresh reclassify_rows_fresh fresh_born by fastforce
    ultimately have "store_evolves M s s'" unfolding admit(1) using admit(14)
      by (auto simp: store_evolves_def admitted_def)
    with sub show ?thesis by simp
  qed (use sub in simp)
qed

lemma Claim_evolves: "store_evolves M s (fst (Claim draw ctx now worker lease s))"
proof -
  obtain s' res where eq: "Claim draw ctx now worker lease s = (s', res)" by fastforce
  then show ?thesis
  proof (cases rule: Claim_cases)
    case (claimed i k j t j' token)
    have "target_evolves M (jb_Targets j ! k) t"
      unfolding claimed(9) using claimed(4) by (rule claimed_target_evolves)
    then have "job_evolves M j j'"
      using job_evolves_set_target [OF claimed(2)] claimed(10)
      by (auto simp: job_evolves_def same_job_def set_target_def)
    then have "store_evolves M s s'" unfolding claimed(11) by (rule store_evolves_put [OF claimed(1)])
    with eq show ?thesis by simp
  qed (use eq in simp)
qed

lemma Renew_evolves: "store_evolves M s (fst (Renew ctx now tid token lease s))"
proof -
  obtain s' err where eq: "Renew ctx now tid token lease s = (s', err)" by fastforce
  then show ?thesis
  proof (cases rule: Renew_cases)
    case (renewed i k j)
    have "store_evolves M s s'" unfolding renewed(9)
      by (intro store_evolves_put [OF renewed(2)] job_evolves_set_target [OF renewed(3)]
            renewed_target_evolves renewed(5))
    with eq show ?thesis by simp
  qed (use eq in simp)
qed

lemma Complete_evolves: "store_evolves M s (fst (Complete marshal ctx now tid token r status reason s))"
proof -
  obtain s' err where eq: "Complete marshal ctx now tid token r status reason s = (s', err)" by fastforce
  then show ?thesis
  proof (cases rule: Complete_cases)
    case (completed i k j)
    have "store_evolves M s s'" unfolding completed(10) case_finishJob
      by (intro store_evolves_put [OF completed(2)] job_evolves_finish job_evolves_set_target [OF completed(3)]
            completed_target_evolves completed(6,7))
    with eq show ?thesis by simp
  qed (use eq in simp)
qed

lemma RequestCancel_evolves: "store_evolves M s (fst (RequestCancel ctx now jobID operatorID s))"
proof -
  obtain s' err where eq: "RequestCancel ctx now jobID operatorID s = (s', err)" by fastforce
  then show ?thesis
  proof (cases rule: RequestCancel_cases)
    case (cancelled j)
    have "job_evolves M j (cancelled_job now operatorID j)"
      by (auto simp: job_evolves_def cancelled_job_def same_job_def list_all2_conv_all_nth cancel_target_evolves)
    then have "store_evolves M s s'" unfolding cancelled(3) case_finishJob
      by (intro store_evolves_put [OF cancelled(1)] job_evolves_finish)
    with eq show ?thesis by simp
  qed (use eq in simp)
qed

lemma store_step_evolves: "store_step env digest marshal M accept s s' \<Longrightarrow> store_evolves M s s'"
proof (induction rule: store_step.induct)
  case (recover s ctx now)
  then show ?case using RecoverExpired_fold [of ctx now M s] fold_recover_evolves [of M s now "ms_order s"] by auto
qed (simp_all add: Submit_evolves Claim_evolves Renew_evolves Complete_evolves RequestCancel_evolves)

lemma store_steps_evolve: "(store_step env digest marshal M accept)\<^sup>*\<^sup>* s s' \<Longrightarrow> store_evolves M s s'"
  by (induction rule: rtranclp_induct) (auto intro: store_evolves_trans store_step_evolves)

lemma store_steps_inv: "(store_step env digest marshal M accept)\<^sup>*\<^sup>* s s' \<Longrightarrow> store_inv s \<Longrightarrow> store_inv s'"
  by (induction rule: rtranclp_induct) (auto intro: store_step_inv)

end
