(* ===== verification/Jobs_Properties.thy ===== *)
theory Jobs_Properties
  imports Jobs_Steps
begin

text \<open>
  Properties of every reachable job store: reservations, statuses and bundle pins are exact,
  targets follow their lifecycle, submissions and completions are idempotent, stale attempts
  are fenced off.
\<close>

section \<open>Store steps as moves of single jobs\<close>

inductive store_move :: "target_env \<Rightarrow> (submit_request \<Rightarrow> bool) \<Rightarrow> memory_store \<Rightarrow> memory_store \<Rightarrow> bool"
  for env accept where
  admit: "accept request \<Longrightarrow> ms_jobs s jobID = None \<Longrightarrow> jb_BundleID j = sr_BundleID request \<Longrightarrow>
    \<not> jb_pinReleased j \<Longrightarrow> int (live_count (jb_Targets j)) = work_reservations env request \<Longrightarrow>
    length (jb_Targets j) = WorkCount request \<Longrightarrow> WorkCount request \<noteq> 0 \<Longrightarrow>
    \<forall>t \<in> set (jb_Targets j). fresh_row t \<Longrightarrow>
    jb_Status j = (if work_reservations env request = 0 then JobFailed else JobQueued) \<Longrightarrow>
    store_move env accept s (admitted request jobID j (work_reservations env request) s)"
| touch: "ms_jobs s i = Some j \<Longrightarrow> same_job j j' \<Longrightarrow> 0 < live_count (jb_Targets j) \<Longrightarrow>
    live_count (jb_Targets j') = live_count (jb_Targets j) \<Longrightarrow> jb_pinReleased j' = jb_pinReleased j \<Longrightarrow>
    jb_Status j' = JobRunning \<or> jb_Status j' = jb_Status j \<Longrightarrow>
    store_move env accept s (put_job i j' n (ms_pins s) s)"
| finish: "ms_jobs s i = Some j \<Longrightarrow> same_job j j' \<Longrightarrow>
    live_count (jb_Targets j') \<le> live_count (jb_Targets j) \<Longrightarrow> jb_pinReleased j' = jb_pinReleased j \<Longrightarrow>
    store_move env accept s
      (put_job i (fst (finishJob now j' (ms_pins s))) n (snd (finishJob now j' (ms_pins s))) s)"

lemma live_count_pos: "k < length ts \<Longrightarrow> \<not> terminalTarget (jt_Status (ts ! k)) \<Longrightarrow> 0 < live_count ts"
  using live_count_0_iff [of ts] by (auto simp: list_all_length)

lemma Submit_changed:
  assumes "Submit env digest draw ctx now request s = (s', res)" "s' \<noteq> s" "res = Inr j"
  shows "WorkCount request \<noteq> 0 \<and> jb_Status j = (if work_reservations env request = 0 then JobFailed else JobQueued)"
  using assms by (auto simp: Submit_def Let_def split: option.splits if_splits sum.splits)

lemma Submit_move:
  assumes "accept request" "\<And>i. randomID draw 0 ''job'' = Inr i \<Longrightarrow> ms_jobs s i = None"
  shows "(store_move env accept)\<^sup>*\<^sup>* s (fst (Submit env digest draw ctx now request s))"
proof -
  obtain s' res where sub: "Submit env digest draw ctx now request s = (s', res)" by fastforce
  then show ?thesis
  proof (cases rule: Submit_cases)
    case (admit jobID j)
    have new: "ms_jobs s jobID = None" using assms(2) admit(3) .
    have "ms_jobs s' jobID = Some j" by (simp add: admit(1) admitted_def)
    with new have "s' \<noteq> s" by auto
    then have "WorkCount request \<noteq> 0" "jb_Status j = (if work_reservations env request = 0 then JobFailed else JobQueued)"
      using Submit_changed [OF sub _ admit(2)] by auto
    moreover have "\<forall>t \<in> set (jb_Targets j). fresh_row t"
      using admit(13) analyze_rows_fresh reclassify_rows_fresh by fastforce
    ultimately have "store_move env accept s s'" unfolding admit(1)
      using assms(1) new admit(7,9,11,12) by (intro store_move.admit) auto
    with sub show ?thesis by auto
  qed (use sub in simp)
qed

lemma Claim_move: "(store_move env accept)\<^sup>*\<^sup>* s (fst (Claim draw ctx now worker lease s))"
proof -
  obtain s' res where eq: "Claim draw ctx now worker lease s = (s', res)" by fastforce
  then show ?thesis
  proof (cases rule: Claim_cases)
    case (claimed i k j t j' token)
    have "live_count (jb_Targets j') = live_count (jb_Targets j)"
      using live_set_target [OF claimed(2), of t] claimed(4,9,10) by simp
    then have "store_move env accept s s'"
      unfolding claimed(11) using claimed(1,2,4,10)
      by (intro store_move.touch [OF claimed(1)]) (auto simp: same_job_def set_target_def intro: live_count_pos)
    with eq show ?thesis by auto
  qed (use eq in simp)
qed

lemma Renew_move: "(store_move env accept)\<^sup>*\<^sup>* s (fst (Renew ctx now tid token lease s))"
proof -
  obtain s' err where eq: "Renew ctx now tid token lease s = (s', err)" by fastforce
  then show ?thesis
  proof (cases rule: Renew_cases)
    case (renewed i k j)
    let ?t = "(jb_Targets j ! k)\<lparr>jt_LeaseExpiresAt := now + lease\<rparr>"
    have "live_count (jb_Targets (set_target k ?t j)) = live_count (jb_Targets j)"
      using live_set_target [OF renewed(3), of ?t] renewed(5) by simp
    then have "store_move env accept s s'"
      unfolding renewed(9) using renewed(3,5)
      by (intro store_move.touch [OF renewed(2)]) (auto simp: same_job_def set_target_def intro: live_count_pos)
    with eq show ?thesis by auto
  qed (use eq in simp)
qed

lemma Complete_move: "(store_move env accept)\<^sup>*\<^sup>* s (fst (Complete marshal ctx now tid token r status reason s))"
proof -
  obtain s' err where eq: "Complete marshal ctx now tid token r status reason s = (s', err)" by fastforce
  then show ?thesis
  proof (cases rule: Complete_cases)
    case (completed i k j)
    let ?j = "set_target k (completed_target r status reason (jb_Targets j ! k)) j"
    have "live_count (jb_Targets ?j) \<le> live_count (jb_Targets j)"
      using live_set_target [OF completed(3), of "completed_target r status reason (jb_Targets j ! k)"] completed(6,7)
      by simp
    then have "store_move env accept s s'"
      unfolding completed(10) case_finishJob
      by (intro store_move.finish [OF completed(2)] set_target_same) (auto simp: set_target_def)
    with eq show ?thesis by auto
  qed (use eq in simp)
qed

lemma RequestCancel_move: "(store_move env accept)\<^sup>*\<^sup>* s (fst (RequestCancel ctx now jobID operatorID s))"
proof -
  obtain s' err where eq: "RequestCancel ctx now jobID operatorID s = (s', err)" by fastforce
  then show ?thesis
  proof (cases rule: RequestCancel_cases)
    case (cancelled j)
    have "store_move env accept s s'"
      unfolding cancelled(2,3) case_finishJob
      using live_count_cancel [of "jb_Targets j"]
      by (intro store_move.finish [OF cancelled(1)]) (auto simp: cancelled_job_def same_job_def)
    with eq show ?thesis by auto
  qed (use eq in simp)
qed

lemma recover_job_move: "(store_move env accept)\<^sup>*\<^sup>* s (recover_job now m i s)"
proof (cases "ms_jobs s i")
  case None
  then show ?thesis by (simp add: recover_job_def)
next
  case (Some j)
  have "store_move env accept s (recover_job now m i s)"
    unfolding recover_job_put [OF Some]
    using live_count_recover [of now m "jb_CancelRequested j" "jb_Targets j"]
    by (intro store_move.finish [OF Some]) (auto simp: recovered_job_def same_job_def)
  then show ?thesis by auto
qed

lemma fold_recover_move: "(store_move env accept)\<^sup>*\<^sup>* s (fold (recover_job now m) is s)"
proof (induction "is" arbitrary: s)
  case (Cons i "is")
  show ?case using rtranclp_trans [OF recover_job_move Cons] by simp
qed simp

lemma store_step_moves: "store_step env digest marshal M accept s s' \<Longrightarrow> (store_move env accept)\<^sup>*\<^sup>* s s'"
proof (induction rule: store_step.induct)
  case (recover s ctx now)
  then show ?case using RecoverExpired_fold [of ctx now M s] fold_recover_move [of env accept s now M "ms_order s"] by auto
qed (simp_all add: Submit_move Claim_move Renew_move Complete_move RequestCancel_move)

lemma store_steps_moves: "(store_step env digest marshal M accept)\<^sup>*\<^sup>* s s' \<Longrightarrow> (store_move env accept)\<^sup>*\<^sup>* s s'"
  by (induction rule: rtranclp_induct) (auto intro: rtranclp_trans store_step_moves)

section \<open>Job status, attempts and pins as invariants of moves\<close>

definition status_inv :: "job \<Rightarrow> bool" where
  "status_inv j \<longleftrightarrow> (if live_count (jb_Targets j) = 0 then jb_Status j = final_status (jb_Targets j)
                   else jb_Status j = JobQueued \<or> jb_Status j = JobRunning)"

lemma status_inv_finish: "status_inv (fst (finishJob now j pins))"
  by (auto simp: status_inv_def finishJob_def Let_def live_count_0_iff)

lemma fresh_final_status:
  assumes "\<forall>t \<in> set ts. fresh_row t" "live_count ts = 0" "ts \<noteq> []"
  shows "final_status ts = JobFailed"
proof -
  have "jt_Status t = TargetFailed" if "t \<in> set ts" for t
    using assms(1,2) that by (fastforce simp: live_count_0_iff list_all_iff fresh_row_def)
  then have "filter (\<lambda>t. jt_Status t = TargetFailed) ts = ts" "filter (\<lambda>t. jt_Status t = TargetCompleted) ts = []"
    "filter (\<lambda>t. jt_Status t = TargetPartial) ts = []"
    by (auto simp: filter_empty_conv)
  with assms(3) show ?thesis by (simp add: final_status_def status_count_def)
qed

lemma store_move_status:
  assumes "store_move env accept s s'" "\<And>i j. ms_jobs s i = Some j \<Longrightarrow> status_inv j" "ms_jobs s' i = Some j"
  shows "status_inv j"
  using assms
proof (induction rule: store_move.induct)
  case (admit request s jobID k)
  then have "jb_Targets k \<noteq> []" by auto
  with admit have "status_inv k" using fresh_final_status [of "jb_Targets k"] by (auto simp: status_inv_def)
  with admit show ?case by (auto simp: admitted_def split: if_splits)
next
  case (touch s l k k' n)
  have "status_inv k" using touch.prems(1) touch.hyps(1) .
  with touch.hyps have "status_inv k'" by (auto simp: status_inv_def)
  with touch show ?case by (auto split: if_splits)
next
  case (finish s l k k' now n)
  then show ?case by (auto simp: status_inv_finish split: if_splits)
qed

text \<open>The jobs of a bundle that still have live targets, as a count.\<close>

definition pin_weight :: "string \<Rightarrow> job option \<Rightarrow> int" where
  "pin_weight b j = (case j of None \<Rightarrow> 0
     | Some j \<Rightarrow> if jb_BundleID j = b \<and> 0 < live_count (jb_Targets j) then 1 else 0)"

definition live_jobs :: "string \<Rightarrow> memory_store \<Rightarrow> int" where
  "live_jobs b s = sum_list (map (\<lambda>i. pin_weight b (ms_jobs s i)) (ms_order s))"

definition pins_inv :: "memory_store \<Rightarrow> bool" where
  "pins_inv s \<longleftrightarrow> distinct (ms_order s) \<and> set (ms_order s) = dom (ms_jobs s)
     \<and> (\<forall>b. b \<noteq> [] \<longrightarrow> ms_pins s b = live_jobs b s)
     \<and> (\<forall>i j. ms_jobs s i = Some j \<longrightarrow> jb_BundleID j \<noteq> [] \<longrightarrow> (jb_pinReleased j \<longleftrightarrow> live_count (jb_Targets j) = 0))"

lemma sum_fun_upd:
  "distinct order \<Longrightarrow> sum_list (map (\<lambda>i. w ((f(k := v)) i)) order) =
     sum_list (map (\<lambda>i. w (f i)) order) + (if k \<in> set order then w v - w (f k) else (0::int))"
  by (induction order) auto

lemma live_jobs_put:
  assumes "pins_inv s" "ms_jobs s i = Some j"
  shows "live_jobs b (put_job i j' n pins s) = live_jobs b s + pin_weight b (Some j') - pin_weight b (Some j)"
proof -
  have "i \<in> set (ms_order s)" "distinct (ms_order s)" using assms by (auto simp: pins_inv_def)
  then show ?thesis using assms(2) sum_fun_upd [of "ms_order s" "pin_weight b" "ms_jobs s" i "Some j'"]
    by (simp add: live_jobs_def)
qed

lemma live_jobs_card:
  assumes "pins_inv s"
  shows "live_jobs b s = int (card {i. \<exists>j. ms_jobs s i = Some j \<and> jb_BundleID j = b \<and> 0 < live_count (jb_Targets j)})"
proof -
  let ?L = "{i. \<exists>j. ms_jobs s i = Some j \<and> jb_BundleID j = b \<and> 0 < live_count (jb_Targets j)}"
  have ord: "distinct (ms_order s)" "set (ms_order s) = dom (ms_jobs s)" using assms by (auto simp: pins_inv_def)
  then have "live_jobs b s = (\<Sum>i \<in> dom (ms_jobs s). pin_weight b (ms_jobs s i))"
    using sum_list_distinct_conv_sum_set [of "ms_order s" "\<lambda>i. pin_weight b (ms_jobs s i)"] by (simp add: live_jobs_def)
  also have "\<dots> = (\<Sum>i \<in> dom (ms_jobs s). if i \<in> ?L then 1 else 0)"
    by (rule sum.cong) (auto simp: pin_weight_def)
  also have "\<dots> = int (card ?L)"
    using ord(2) finite_set [of "ms_order s"] by (subst sum.If_cases) (auto intro!: arg_cong [of _ _ card])
  finally show ?thesis .
qed

lemma pins_inv_put:
  assumes inv: "pins_inv s" "ms_jobs s i = Some j" and same: "same_job j j'"
    and pins: "\<And>b. b \<noteq> [] \<Longrightarrow> pins b = ms_pins s b + pin_weight b (Some j') - pin_weight b (Some j)"
    and rel: "jb_BundleID j \<noteq> [] \<Longrightarrow> jb_pinReleased j' \<longleftrightarrow> live_count (jb_Targets j') = 0"
  shows "pins_inv (put_job i j' n pins s)"
proof -
  have "pins b = live_jobs b (put_job i j' n pins s)" if "b \<noteq> []" for b
    using that pins inv live_jobs_put [OF inv] by (auto simp: pins_inv_def)
  then show ?thesis using inv same rel by (auto simp: pins_inv_def same_job_def)
qed

lemma finishJob_pins:
  "snd (finishJob now j pins) b =
     pins b - (if live_count (jb_Targets j) = 0 \<and> \<not> jb_pinReleased j \<and> jb_BundleID j \<noteq> [] \<and> jb_BundleID j = b then 1 else 0)"
  by (auto simp: finishJob_def Let_def live_count_0_iff)

lemma finishJob_released:
  "jb_pinReleased (fst (finishJob now j pins)) \<longleftrightarrow>
     jb_pinReleased j \<or> live_count (jb_Targets j) = 0 \<and> jb_BundleID j \<noteq> []"
  by (auto simp: finishJob_def Let_def live_count_0_iff)

lemma pin_weight_finish [simp]:
  "pin_weight b (Some (fst (finishJob now j pins))) = pin_weight b (Some j)"
  using finishJob_same [of j now pins] by (simp add: pin_weight_def same_job_def)

lemma store_move_pins:
  assumes "store_move env accept s s'" "pins_inv s"
    and "\<And>r. accept r \<Longrightarrow> sr_BundleID r = [] \<or> 0 < work_reservations env r"
  shows "pins_inv s'"
  using assms(1,2)
proof (induction rule: store_move.induct)
  case (admit request s jobID j)
  have "jobID \<notin> set (ms_order s)" "distinct (ms_order s)" using admit by (auto simp: pins_inv_def)
  then have "live_jobs b (admitted request jobID j (work_reservations env request) s) =
      live_jobs b s + pin_weight b (Some j)" for b
    using sum_fun_upd [of "ms_order s" "pin_weight b" "ms_jobs s" jobID "Some j"]
    by (simp add: live_jobs_def admitted_def)
  moreover have "jb_BundleID j = [] \<or> 0 < work_reservations env request" using assms(3) admit by auto
  ultimately show ?case
    using admit \<open>jobID \<notin> set (ms_order s)\<close> by (auto simp: pins_inv_def pin_weight_def admitted_def)
next
  case (touch s i j j' n)
  then have "pin_weight b (Some j') = pin_weight b (Some j)" for b by (auto simp: pin_weight_def same_job_def)
  with touch show ?case by (intro pins_inv_put [of s i j]) (auto simp: pins_inv_def)
next
  case (finish s i j j' now n)
  then have rel: "jb_BundleID j \<noteq> [] \<Longrightarrow> jb_pinReleased j \<longleftrightarrow> live_count (jb_Targets j) = 0"
    by (auto simp: pins_inv_def)
  have same: "same_job j (fst (finishJob now j' (ms_pins s)))" using finish(2) finishJob_same same_job_trans by blast
  show ?case
  proof (rule pins_inv_put [OF finish(5,1) same])
    show "snd (finishJob now j' (ms_pins s)) b =
        ms_pins s b + pin_weight b (Some (fst (finishJob now j' (ms_pins s)))) - pin_weight b (Some j)" if "b \<noteq> []" for b
      unfolding pin_weight_finish using finish(2-4) rel that by (auto simp: finishJob_pins pin_weight_def same_job_def)
    show "jb_pinReleased (fst (finishJob now j' (ms_pins s))) \<longleftrightarrow>
        live_count (jb_Targets (fst (finishJob now j' (ms_pins s)))) = 0" if "jb_BundleID j \<noteq> []"
      using finish(2-4) rel [OF that] that by (auto simp: finishJob_released same_job_def)
  qed
qed

lemma store_moves_pins:
  assumes "(store_move env accept)\<^sup>*\<^sup>* s s'" "pins_inv s"
    and "\<And>r. accept r \<Longrightarrow> sr_BundleID r = [] \<or> 0 < work_reservations env r"
  shows "pins_inv s'"
  using assms(1,2) by (induction rule: rtranclp_induct) (auto intro: store_move_pins [OF _ _ assms(3)])

section \<open>Replays\<close>

text \<open>The checks of \<open>Submit\<close> that depend on the request alone.\<close>

definition submittable :: "request_digest \<Rightarrow> submit_request \<Rightarrow> string \<Rightarrow> bool" where
  "submittable digest r h \<longleftrightarrow> \<not> (sr_OperatorID r = [] \<or> sr_IdempotencyKey r = [] \<or> WorkCount r = 0)
     \<and> ValidatePersistentAnalyzeRequests (sr_Targets r) = None \<and> hashRequest digest r = Inr h
     \<and> \<not> list_ex (\<lambda>replay. rr_ReportID replay = [] \<or> rr_BundleID replay = []
                   \<or> rr_BundleID replay \<noteq> sr_BundleID r) (sr_Reclassifications r)"

lemma Submit_replay:
  "submittable digest r h \<Longrightarrow> ms_idempotency s (sr_OperatorID r, sr_IdempotencyKey r) = Some i \<Longrightarrow>
   ms_jobs s i = Some j \<Longrightarrow> jb_payloadHash j = h \<Longrightarrow> Submit env digest draw None now r s = (s, Inr j)"
  by (simp add: Submit_def submittable_def)

lemma Submit_Inr:
  assumes "Submit env digest draw ctx now r s = (s', Inr j)"
  obtains h i where "submittable digest r h"
    "ms_idempotency s' (sr_OperatorID r, sr_IdempotencyKey r) = Some i" "ms_jobs s' i = Some j" "jb_payloadHash j = h"
proof -
  obtain h where h: "hashRequest digest r = Inr h"
    using assms by (cases "hashRequest digest r") (auto simp: Submit_def split: option.splits if_splits)
  with assms have sub: "submittable digest r h"
    by (auto simp: Submit_def submittable_def Let_def split: option.splits if_splits)
  from assms show ?thesis
  proof (cases rule: Submit_cases)
    case unchanged
    show ?thesis
    proof (cases "ms_idempotency s (sr_OperatorID r, sr_IdempotencyKey r)")
      case None
      with assms have "ms_idempotency s' (sr_OperatorID r, sr_IdempotencyKey r) \<noteq> None"
        by (auto simp: Submit_def Let_def split: option.splits if_splits sum.splits)
      with unchanged None show ?thesis by simp
    next
      case (Some i)
      with assms h sub show ?thesis
        by (intro that [OF sub, of i]) (auto simp: Submit_def Let_def split: option.splits if_splits)
    qed
  next
    case (admit jobID k)
    with h show ?thesis by (intro that [OF sub, of jobID]) (auto simp: admitted_def)
  qed
qed

lemma first_index_map: "first_index (\<lambda>t. f t = x) ts = first_index (\<lambda>y. y = x) (map f ts)"
  by (induction ts) auto

lemma scan_jobs_found:
  assumes "\<And>l. l \<in> set is \<Longrightarrow> \<exists>j j'. js l = Some j \<and> js' l = Some j' \<and> map jt_ID (jb_Targets j') = map jt_ID (jb_Targets j)"
    and "scan_jobs js (\<lambda>_. True) (\<lambda>t. jt_ID t = x) is = Some p"
  shows "scan_jobs js' (\<lambda>_. True) (\<lambda>t. jt_ID t = x) (is @ ext) = Some p"
  using assms
proof (induction "is")
  case (Cons l "is")
  from Cons.prems(1) [of l] obtain j j' where j: "js l = Some j" "js' l = Some j'"
    "map jt_ID (jb_Targets j') = map jt_ID (jb_Targets j)" by auto
  then have "first_index (\<lambda>t. jt_ID t = x) (jb_Targets j') = first_index (\<lambda>t. jt_ID t = x) (jb_Targets j)"
    by (metis first_index_map)
  with j Cons show ?case by (auto split: option.splits)
qed simp

lemma job_evolves_ids: "job_evolves M j j' \<Longrightarrow> map jt_ID (jb_Targets j') = map jt_ID (jb_Targets j)"
  by (auto simp: job_evolves_def list_all2_conv_all_nth target_evolves_def intro!: nth_equalityI)

lemma findTarget_evolves:
  assumes "store_inv s" "store_evolves M s s'" "findTarget tid s = Some p"
  shows "findTarget tid s' = Some p"
proof -
  obtain ext where ext: "ms_order s' = ms_order s @ ext" using assms(2) by (auto simp: store_evolves_def prefix_def)
  have "\<exists>j j'. ms_jobs s l = Some j \<and> ms_jobs s' l = Some j' \<and> map jt_ID (jb_Targets j') = map jt_ID (jb_Targets j)"
    if l: "l \<in> set (ms_order s)" for l
  proof -
    obtain j where "ms_jobs s l = Some j" using assms(1) l by (auto simp: store_inv_def)
    then show ?thesis using store_evolves_job [OF assms(2)] job_evolves_ids by metis
  qed
  then show ?thesis using assms(3) unfolding findTarget_def ext by (rule scan_jobs_found)
qed

lemma evolves_terminal:
  assumes "job_evolves M j j'" "k < length (jb_Targets j)" "terminalTarget (jt_Status (jb_Targets j ! k))"
  shows "jb_Targets j' ! k = jb_Targets j ! k"
  using assms by (auto simp: job_evolves_def list_all2_conv_all_nth target_evolves_def)

section \<open>Reachable stores\<close>

lemma all_jobs_status:
  assumes "(store_step env digest marshal M accept)\<^sup>*\<^sup>* (NewMemoryStore m) s" "ms_jobs s i = Some j"
  shows "status_inv j"
proof -
  have "\<forall>i j. ms_jobs s i = Some j \<longrightarrow> status_inv j"
    using store_steps_moves [OF assms(1)]
  proof (induction rule: rtranclp_induct)
    case base
    show ?case by (simp add: NewMemoryStore_def)
  next
    case (step s s')
    then show ?case using store_move_status [OF step(2)] by blast
  qed
  with assms(2) show ?thesis by blast
qed

lemma all_targets_born:
  assumes "(store_step env digest marshal M accept)\<^sup>*\<^sup>* (NewMemoryStore m) s" "ms_jobs s i = Some j" "t \<in> set (jb_Targets j)"
  shows "born M t"
  using store_steps_evolve [OF assms(1)] assms(2,3) by (auto simp: store_evolves_def NewMemoryStore_def)

lemma born_ok: "born M t \<Longrightarrow> 0 < M \<Longrightarrow> life_ok M (life_of t)"
  unfolding born_def by (erule conjE, erule bexE, erule life_steps_ok) (auto simp: life_ok_def)

lemma reportsEqual_refl:
  assumes "re_ID r \<noteq> [] \<Longrightarrow> \<exists>x. CanonicalJSON marshal r = Inr x" "re_ID r = [] \<Longrightarrow> \<not> jt_ReportAvailable t"
  shows "reportsEqual marshal (completed_target r status reason t) r"
  using assms by (auto simp: reportsEqual_def completed_target_def Let_def)

lemma Complete_committed:
  assumes inv: "store_inv s" and eq: "Complete marshal None now tid token r status reason s = (s', None)"
    and enc: "re_ID r \<noteq> [] \<Longrightarrow> \<exists>x. CanonicalJSON marshal r = Inr x"
    and rows: "\<And>i j t. ms_jobs s i = Some j \<Longrightarrow> t \<in> set (jb_Targets j) \<Longrightarrow> \<not> terminalTarget (jt_Status t) \<Longrightarrow> \<not> jt_ReportAvailable t"
  shows "\<exists>i k j. findTarget tid s' = Some (i, k) \<and> ms_jobs s' i = Some j \<and> k < length (jb_Targets j)
     \<and> jt_AttemptToken (jb_Targets j ! k) = token \<and> jt_Status (jb_Targets j ! k) = status
     \<and> jt_TerminalReason (jb_Targets j ! k) = reason \<and> reportsEqual marshal (jb_Targets j ! k) r"
  using eq
proof (cases rule: Complete_cases)
  case unchanged
  obtain i k where f: "findTarget tid s = Some (i, k)" using eq by (auto simp: Complete_def split: if_splits option.splits)
  from findTarget_Some [OF f] obtain j where j: "ms_jobs s i = Some j" "k < length (jb_Targets j)" by blast
  let ?t = "jb_Targets j ! k"
  have "\<not> (jt_Status ?t = TargetRunning \<and> jt_AttemptToken ?t = token)"
  proof
    assume run: "jt_Status ?t = TargetRunning \<and> jt_AttemptToken ?t = token"
    with eq f j have "ms_reservations s' = ms_reservations s - 1"
      by (auto simp: Complete_def Let_def case_finishJob split: if_splits option.splits)
    with unchanged show False by simp
  qed
  with eq f j have "jt_AttemptToken ?t = token \<and> jt_Status ?t = status \<and> jt_TerminalReason ?t = reason \<and> reportsEqual marshal ?t r"
    by (auto simp: Complete_def Let_def split: if_splits option.splits)
  with f j unchanged show ?thesis by blast
next
  case (completed i k j)
  let ?j = "fst (finishJob now (set_target k (completed_target r status reason (jb_Targets j ! k)) j) (ms_pins s))"
  have "store_evolves 0 s s'" using Complete_evolves [of 0 s marshal None now tid token r status reason] eq by simp
  then have "findTarget tid s' = Some (i, k)" using findTarget_evolves inv completed(1) by blast
  moreover have "ms_jobs s' i = Some ?j" unfolding completed(10) case_finishJob by simp
  moreover have t: "jb_Targets ?j ! k = completed_target r status reason (jb_Targets j ! k)" "k < length (jb_Targets ?j)"
    using completed(3) by (simp_all add: set_target_def)
  moreover have "reportsEqual marshal (completed_target r status reason (jb_Targets j ! k)) r"
    using rows [OF completed(2), of "jb_Targets j ! k"] completed(3,6) by (intro reportsEqual_refl enc) auto
  ultimately show ?thesis using completed(5) by (intro exI [of _ i] exI [of _ k] exI [of _ ?j]) simp
qed

section \<open>A concrete run\<close>

definition sample_request :: "string \<Rightarrow> submit_request" where
  "sample_request key = \<lparr>sr_OperatorID = ''op'', sr_IdempotencyKey = key, sr_BundleID = ''b'', sr_Targets = [],
     sr_Reclassifications = [\<lparr>rr_ReportID = ''r'', rr_BundleID = ''b''\<rparr>], sr_InventorySelections = []\<rparr>"

definition invalid_request :: submit_request where
  "invalid_request = \<lparr>sr_OperatorID = ''op'', sr_IdempotencyKey = ''bad'', sr_BundleID = ''b'',
     sr_Targets = [domain_request [] []], sr_Reclassifications = [], sr_InventorySelections = []\<rparr>"

definition sample_draw :: "string \<Rightarrow> rand" where
  "sample_draw p n = Inr (p @ replicate n CHR ''x'')"

definition sample_digest :: request_digest where
  "sample_digest p = Inr (fst p)"

definition sample_marshal :: "report \<Rightarrow> go_error + string" where
  "sample_marshal r = Inr (re_ID r)"

definition sample_store :: memory_store where
  "sample_store = fst (Submit plain_env sample_digest (sample_draw ''1'') None 0 (sample_request ''k'') (NewMemoryStore 5))"

definition claimed_store :: memory_store where
  "claimed_store = fst (Claim (sample_draw ''2'') None 1 ''w'' 10 sample_store)"

lemmas store_eval =
  Submit_def Claim_def Complete_def sample_request_def sample_draw_def sample_digest_def sample_marshal_def
  WorkCount_def hashRequest_def work_reservations_def randomID_def new_target_def NewMemoryStore_def
  findTarget_def set_target_def completed_target_def and_then_def Let_def

lemma sample_store_eq:
  "sample_store = \<lparr>ms_maximumTargets = 5, ms_reservations = 1,
     ms_jobs = [''job-1'' \<mapsto> \<lparr>jb_ID = ''job-1'', jb_OperatorID = ''op'', jb_IdempotencyKey = ''k'', jb_BundleID = ''b'',
       jb_Status = JobQueued, jb_CancelRequested = False, jb_CancelRequestedBy = [], jb_CreatedAt = 0, jb_UpdatedAt = 0,
       jb_Targets = [new_target ''target-1x'' 0 zero_analyze_request (Some \<lparr>rr_ReportID = ''r'', rr_BundleID = ''b''\<rparr>) TargetQueued []],
       jb_payloadHash = ''b'', jb_pinReleased = False\<rparr>],
     ms_order = [''job-1''], ms_idempotency = [(''op'', ''k'') \<mapsto> ''job-1''], ms_pins = (\<lambda>_. 0)(''b'' := 1)\<rparr>"
  by (simp add: sample_store_def store_eval)

lemma claimed_store_eq:
  "claimed_store = sample_store\<lparr>ms_jobs :=
     [''job-1'' \<mapsto> \<lparr>jb_ID = ''job-1'', jb_OperatorID = ''op'', jb_IdempotencyKey = ''k'', jb_BundleID = ''b'',
       jb_Status = JobRunning, jb_CancelRequested = False, jb_CancelRequestedBy = [], jb_CreatedAt = 0, jb_UpdatedAt = 1,
       jb_Targets = [(new_target ''target-1x'' 0 zero_analyze_request (Some \<lparr>rr_ReportID = ''r'', rr_BundleID = ''b''\<rparr>) TargetRunning [])
         \<lparr>jt_Attempts := 1, jt_AttemptToken := ''attempt-2'', jt_LeaseOwner := ''w'', jt_LeaseExpiresAt := 11\<rparr>],
       jb_payloadHash = ''b'', jb_pinReleased = False\<rparr>]\<rparr>"
  by (simp add: claimed_store_def sample_store_eq Claim_def randomID_def sample_draw_def set_target_def new_target_def Let_def)

lemma invalid_reserves_nothing:
  "ValidateAnalyzeRequest plain_env (domain_request [] []) \<noteq> None" "ValidatePersistentInput (domain_request [] []) = None"
  by (simp_all add: ValidateAnalyzeRequest_def Normalize_def target_eval)

lemma lost_pin_store:
  "fst (Submit plain_env sample_digest (sample_draw ''2'') None 1 invalid_request sample_store) =
   sample_store\<lparr>ms_jobs := (ms_jobs sample_store)(''job-2'' \<mapsto>
      \<lparr>jb_ID = ''job-2'', jb_OperatorID = ''op'', jb_IdempotencyKey = ''bad'', jb_BundleID = ''b'',
       jb_Status = JobFailed, jb_CancelRequested = False, jb_CancelRequestedBy = [], jb_CreatedAt = 1, jb_UpdatedAt = 1,
       jb_Targets = [new_target ''target-2x'' 0 (domain_request [] []) None TargetFailed
         (ValidationReason (ValidateAnalyzeRequest plain_env (domain_request [] [])))],
       jb_payloadHash = ''b'', jb_pinReleased = False\<rparr>),
     ms_order := [''job-1'', ''job-2''],
     ms_idempotency := (ms_idempotency sample_store)((''op'', ''bad'') \<mapsto> ''job-2'')\<rparr>"
  using invalid_reserves_nothing(2)
  by (cases "ValidateAnalyzeRequest plain_env (domain_request [] [])")
     (simp_all add: invalid_reserves_nothing Submit_def Let_def sample_store_eq invalid_request_def WorkCount_def hashRequest_def sample_digest_def
      work_reservations_def randomID_def sample_draw_def and_then_def)

lemma sample_step:
  "accept (sample_request ''k'') \<Longrightarrow> store_step plain_env sample_digest marshal M accept (NewMemoryStore 5) sample_store"
  unfolding sample_store_def by (rule store_step.submit) (auto simp: NewMemoryStore_def)

lemma claimed_step: "store_step plain_env sample_digest marshal M accept sample_store claimed_store"
  unfolding claimed_store_def by (rule store_step.claim)

lemma claimed_steps: "(store_step plain_env sample_digest marshal M accept)\<^sup>*\<^sup>* sample_store claimed_store"
  using claimed_step by (rule r_into_rtranclp)

lemma sample_run:
  "accept (sample_request ''k'') \<Longrightarrow>
   (store_step plain_env sample_digest marshal M accept)\<^sup>*\<^sup>* (NewMemoryStore 5) claimed_store"
  using converse_rtranclp_into_rtranclp [OF sample_step claimed_steps] .

section \<open>Properties\<close>

text \<open>C2: In every store reachable from an empty one, whatever the order of submissions, claims,
  renewals, completions, cancellations and lease recoveries, the reservation counter is the
  number of targets that are not terminal, and it never exceeds the configured capacity.\<close>

theorem reservations_exact:
  assumes "(store_step env digest marshal M any_request)\<^sup>*\<^sup>* (NewMemoryStore m) s"
  shows "Reservations s = (\<Sum>i \<in> dom (ms_jobs s). int (live_count (jb_Targets (the (ms_jobs s i)))))
     \<and> 0 \<le> Reservations s \<and> Reservations s \<le> max 0 m"
proof -
  have inv: "store_inv s" using store_steps_inv [OF assms] by simp
  have "total_live (ms_jobs s) (ms_order s) = (\<Sum>i \<in> dom (ms_jobs s). job_live (ms_jobs s i))"
    using inv sum_list_distinct_conv_sum_set [of "ms_order s" "\<lambda>i. job_live (ms_jobs s i)"]
    by (simp add: store_inv_def total_live_def)
  also have "\<dots> = (\<Sum>i \<in> dom (ms_jobs s). int (live_count (jb_Targets (the (ms_jobs s i)))))"
    by (rule sum.cong) (auto simp: job_live_def)
  finally have "Reservations s = (\<Sum>i \<in> dom (ms_jobs s). int (live_count (jb_Targets (the (ms_jobs s i)))))"
    using inv by (simp add: store_inv_def Reservations_def)
  moreover have "ms_maximumTargets s = m"
    using store_steps_evolve [OF assms] by (simp add: store_evolves_def NewMemoryStore_def)
  moreover have "0 \<le> (\<Sum>i \<in> dom (ms_jobs s). int (live_count (jb_Targets (the (ms_jobs s i)))))"
    by (simp add: sum_nonneg)
  ultimately show ?thesis using inv by (simp add: store_inv_def Reservations_def)
qed

theorem reservations_exact_witness:
  "(store_step plain_env sample_digest sample_marshal 3 any_request)\<^sup>*\<^sup>* (NewMemoryStore 5) claimed_store
   \<and> Reservations claimed_store \<le> 5"
  using reservations_exact [OF sample_run [of any_request sample_marshal 3]] sample_run [of any_request sample_marshal 3]
  by (simp add: any_request_def)

text \<open>C4: Between two stores of a run no job disappears and no target row is lost or
  re-ordered: each row keeps its identifier and its request, its status and attempt count
  follow the lifecycle machine (queued, running, back to queued while attempts remain, then
  terminal), and a terminal row, with its stored report, never changes again.\<close>

theorem target_lifecycle:
  assumes "(store_step env digest marshal M accept)\<^sup>*\<^sup>* s s'" "ms_jobs s i = Some j" "k < length (jb_Targets j)"
  shows "\<exists>j'. ms_jobs s' i = Some j' \<and> same_job j j'
     \<and> jt_ID (jb_Targets j' ! k) = jt_ID (jb_Targets j ! k)
     \<and> jt_Request (jb_Targets j' ! k) = jt_Request (jb_Targets j ! k)
     \<and> (life_step M)\<^sup>*\<^sup>* (life_of (jb_Targets j ! k)) (life_of (jb_Targets j' ! k))
     \<and> (terminalTarget (jt_Status (jb_Targets j ! k)) \<longrightarrow> jb_Targets j' ! k = jb_Targets j ! k)"
proof -
  obtain j' where "ms_jobs s' i = Some j'" "job_evolves M j j'"
    using store_evolves_job [OF store_steps_evolve [OF assms(1)] assms(2)] by blast
  then show ?thesis using assms(3) by (auto simp: job_evolves_def list_all2_conv_all_nth target_evolves_def)
qed

theorem target_lifecycle_witness:
  "\<exists>j'. ms_jobs claimed_store ''job-1'' = Some j'
     \<and> (life_step 3)\<^sup>*\<^sup>* (TargetQueued, 0) (life_of (jb_Targets j' ! 0))"
  using target_lifecycle [where k = 0, OF claimed_steps [of sample_marshal 3 any_request],
      of "''job-1''" "the (ms_jobs sample_store ''job-1'')"]
  by (auto simp: sample_store_eq life_of_def new_target_def)

text \<open>When expired leases are recovered with the attempt limit \<open>M\<close>, no target of a
  reachable store is ever attempted more than \<open>M\<close> times, and a target that is queued still has
  an attempt left.\<close>

lemma attempts_bounded:
  assumes "(store_step env digest marshal M any_request)\<^sup>*\<^sup>* (NewMemoryStore m) s" "0 < M"
    and "ms_jobs s i = Some j" "t \<in> set (jb_Targets j)"
  shows "0 \<le> jt_Attempts t \<and> jt_Attempts t \<le> M \<and> (jt_Status t = TargetQueued \<longrightarrow> jt_Attempts t < M)"
  using born_ok [OF all_targets_born [OF assms(1,3,4)] assms(2)] by (simp add: life_ok_def life_of_def)

lemma attempts_bounded_example:
  "ms_jobs claimed_store ''job-1'' \<noteq> None \<and> jt_Attempts (jb_Targets (the (ms_jobs claimed_store ''job-1'')) ! 0) \<le> 3"
  using attempts_bounded [OF sample_run [of any_request sample_marshal 3], of "''job-1''"
      "the (ms_jobs claimed_store ''job-1'')" "jb_Targets (the (ms_jobs claimed_store ''job-1'')) ! 0"]
  by (simp add: any_request_def claimed_store_eq)

text \<open>The status of every job of a reachable store is the aggregate of its targets: queued or
  running exactly while some target is live; otherwise failed when nothing completed and
  something failed, cancelled when everything was, partial when the outcomes are mixed, and
  completed when all targets completed.\<close>

lemma job_status_aggregate:
  assumes "(store_step env digest marshal M any_request)\<^sup>*\<^sup>* (NewMemoryStore m) s" "ms_jobs s i = Some j"
  shows "if live_count (jb_Targets j) = 0 then jb_Status j = final_status (jb_Targets j)
         else jb_Status j = JobQueued \<or> jb_Status j = JobRunning"
  using all_jobs_status [OF assms] by (simp add: status_inv_def)

lemma job_status_aggregate_example:
  "\<exists>j. ms_jobs claimed_store ''job-1'' = Some j \<and> (jb_Status j = JobQueued \<or> jb_Status j = JobRunning)"
  using job_status_aggregate [OF sample_run [of any_request sample_marshal 3], of "''job-1''"]
  by (simp add: any_request_def claimed_store_eq live_count_def new_target_def)

text \<open>C23: A submission that succeeded can be repeated at any later point of the run, with any
  clock and any random source: the repetition succeeds, returns the same job as it now stands
  and does not change the store.\<close>

theorem submit_idempotent:
  assumes "Submit env digest draw ctx now request s = (s', Inr j)"
    and "(store_step env digest marshal M accept)\<^sup>*\<^sup>* s' s''"
  shows "\<exists>j'. Submit env digest draw' None now' request s'' = (s'', Inr j') \<and> job_evolves M j j'"
proof -
  obtain h i where hi: "submittable digest request h" "ms_jobs s' i = Some j" "jb_payloadHash j = h"
    and idem: "ms_idempotency s' (sr_OperatorID request, sr_IdempotencyKey request) = Some i"
    using assms(1) by (rule Submit_Inr)
  have ev: "store_evolves M s' s''" using assms(2) by (rule store_steps_evolve)
  then obtain j' where j': "ms_jobs s'' i = Some j'" "job_evolves M j j'" using store_evolves_job hi(2) by blast
  have "ms_idempotency s'' (sr_OperatorID request, sr_IdempotencyKey request) = Some i"
    using ev idem by (auto simp: store_evolves_def)
  then show ?thesis using Submit_replay [OF hi(1)] j' hi(3) by (auto simp: job_evolves_def same_job_def)
qed

theorem submit_idempotent_witness:
  "\<exists>j. Submit plain_env sample_digest (sample_draw ''9'') None 7 (sample_request ''k'') claimed_store = (claimed_store, Inr j)"
proof -
  have "Submit plain_env sample_digest (sample_draw ''1'') None 0 (sample_request ''k'') (NewMemoryStore 5) =
      (sample_store, Inr (the (ms_jobs sample_store ''job-1'')))"
    by (simp add: sample_store_eq store_eval)
  from submit_idempotent [OF this claimed_steps [of sample_marshal 3 any_request], of "sample_draw ''9''" 7]
  show ?thesis by blast
qed

text \<open>A result is committed for at most one attempt. A completion that does not carry the
  target's current attempt token, or whose target is no longer running, changes nothing; it
  succeeds only as the exact repetition of the committed result.\<close>

lemma complete_fenced:
  assumes "findTarget tid s = Some (i, k)" "ms_jobs s i = Some j"
    and "jt_AttemptToken (jb_Targets j ! k) \<noteq> token \<or> jt_Status (jb_Targets j ! k) \<noteq> TargetRunning"
  shows "fst (Complete marshal ctx now tid token r status reason s) = s
     \<and> (snd (Complete marshal ctx now tid token r status reason s) = None \<longrightarrow>
          jt_AttemptToken (jb_Targets j ! k) = token \<and> jt_Status (jb_Targets j ! k) = status
          \<and> terminalTarget status \<and> jt_TerminalReason (jb_Targets j ! k) = reason \<and> reportsEqual marshal (jb_Targets j ! k) r)"
  using assms by (auto simp: Complete_def Let_def split: option.splits prod.splits)

lemma complete_fenced_example:
  "fst (Complete sample_marshal None 5 ''target-1x'' ''attempt-1'' zero_report TargetCompleted [] claimed_store) = claimed_store"
  using complete_fenced [of "''target-1x''" claimed_store "''job-1''" 0 "the (ms_jobs claimed_store ''job-1'')" "''attempt-1''"]
  by (simp add: claimed_store_eq sample_store_eq findTarget_def new_target_def)

text \<open>C22: A completion that succeeded can be repeated at any later point of the run, by a
  worker that lost the reply: the repetition succeeds and does not change the store, so the
  result is committed exactly once. The report must be one that can be encoded.\<close>

theorem complete_idempotent:
  assumes "(store_step env digest marshal M accept)\<^sup>*\<^sup>* (NewMemoryStore m) s"
    and "Complete marshal None now tid token r status reason s = (s', None)"
    and "(store_step env digest marshal M accept)\<^sup>*\<^sup>* s' s''"
    and "re_ID r \<noteq> [] \<Longrightarrow> \<exists>x. CanonicalJSON marshal r = Inr x"
  shows "Complete marshal None now' tid token r status reason s'' = (s'', None)"
proof -
  have inv: "store_inv s" using store_steps_inv [OF assms(1)] by simp
  have rows: "\<not> jt_ReportAvailable t" if "ms_jobs s l = Some j" "t \<in> set (jb_Targets j)" "\<not> terminalTarget (jt_Status t)" for l j t
    using all_targets_born [OF assms(1) that(1,2)] that(3) by (simp add: born_def)
  obtain i k j where found: "findTarget tid s' = Some (i, k)" "ms_jobs s' i = Some j" "k < length (jb_Targets j)"
    and row: "jt_AttemptToken (jb_Targets j ! k) = token" "jt_Status (jb_Targets j ! k) = status"
      "jt_TerminalReason (jb_Targets j ! k) = reason" "reportsEqual marshal (jb_Targets j ! k) r"
    using Complete_committed [of s marshal now tid token r status reason s'] inv assms(2,4) rows by blast
  have ok: "terminalTarget status" "re_ID r \<noteq> [] \<Longrightarrow> ValidateReferences r = None"
    using assms(2) by (auto simp: Complete_def split: if_splits option.splits)
  have inv': "store_inv s'" using Complete_inv [OF inv] assms(2) by (metis fst_conv)
  have ev: "store_evolves M s' s''" using assms(3) by (rule store_steps_evolve)
  then obtain j' where j': "ms_jobs s'' i = Some j'" "job_evolves M j j'" using store_evolves_job found(2) by blast
  have "jb_Targets j' ! k = jb_Targets j ! k" using evolves_terminal [OF j'(2) found(3)] row(2) ok(1) by simp
  with findTarget_evolves [OF inv' ev found(1)] j'(1) row ok show ?thesis
    by (auto simp: Complete_def Let_def)
qed

theorem complete_idempotent_witness:
  "\<exists>s'. Complete sample_marshal None 5 ''target-1x'' ''attempt-2'' zero_report TargetCompleted [] claimed_store = (s', None)
     \<and> Complete sample_marshal None 6 ''target-1x'' ''attempt-2'' zero_report TargetCompleted [] s' = (s', None)"
proof -
  have run: "(store_step plain_env sample_digest sample_marshal 3 any_request)\<^sup>*\<^sup>* (NewMemoryStore 5) claimed_store"
    by (rule sample_run) (simp add: any_request_def)
  obtain s' where s': "Complete sample_marshal None 5 ''target-1x'' ''attempt-2'' zero_report TargetCompleted [] claimed_store = (s', None)"
    by (auto simp: Complete_def claimed_store_eq sample_store_eq findTarget_def new_target_def zero_report_def case_finishJob Let_def)
  with complete_idempotent [OF run s' rtranclp.rtrancl_refl, of 6] show ?thesis by (auto simp: zero_report_def)
qed

text \<open>As long as no batch with a bundle is admitted without live work, the pin count of a
  bundle is the number of its jobs that still have a live target, so a bundle some job needs
  is pinned and a bundle no job needs is not.\<close>

lemma pins_exact:
  assumes "(store_step env digest marshal M (\<lambda>r. sr_BundleID r = [] \<or> 0 < work_reservations env r))\<^sup>*\<^sup>* (NewMemoryStore m) s"
    and "b \<noteq> []"
  shows "BundlePins b s = int (card {i. \<exists>j. ms_jobs s i = Some j \<and> jb_BundleID j = b \<and> 0 < live_count (jb_Targets j)})"
proof -
  have "pins_inv (NewMemoryStore m)" by (simp add: pins_inv_def NewMemoryStore_def live_jobs_def)
  with store_moves_pins [OF store_steps_moves [OF assms(1)]] have inv: "pins_inv s" by blast
  with assms(2) show ?thesis using live_jobs_card [OF inv] by (simp add: BundlePins_def pins_inv_def)
qed

lemma pins_exact_example:
  "BundlePins ''b'' claimed_store = 1
   \<and> card {i. \<exists>j. ms_jobs claimed_store i = Some j \<and> jb_BundleID j = ''b'' \<and> 0 < live_count (jb_Targets j)} = 1"
  using pins_exact [OF sample_run [where marshal = sample_marshal and M = 3], of "''b''"]
  by (simp add: claimed_store_eq sample_store_eq BundlePins_def sample_request_def work_reservations_def)

text \<open>Without that restriction a pin can be lost. After a batch with live work and a batch
  of the same bundle whose targets are all invalid, one lease recovery leaves the bundle
  without pins although a target of the first job is still queued.\<close>

lemma pin_lost:
  "\<exists>s. (store_step plain_env sample_digest sample_marshal 3 any_request)\<^sup>*\<^sup>* (NewMemoryStore 5) s
     \<and> BundlePins ''b'' s = 0
     \<and> (\<exists>i j. ms_jobs s i = Some j \<and> jb_BundleID j = ''b'' \<and> 0 < live_count (jb_Targets j))"
proof -
  define s2 where "s2 = fst (Submit plain_env sample_digest (sample_draw ''2'') None 1 invalid_request sample_store)"
  define s3 where "s3 = fst (RecoverExpired None 2 3 s2)"
  have "store_step plain_env sample_digest sample_marshal 3 any_request sample_store s2"
    unfolding s2_def by (rule store_step.submit) (auto simp: any_request_def sample_store_eq randomID_def sample_draw_def and_then_def)
  moreover have "store_step plain_env sample_digest sample_marshal 3 any_request s2 s3"
    unfolding s3_def by (rule store_step.recover)
  ultimately have run: "(store_step plain_env sample_digest sample_marshal 3 any_request)\<^sup>*\<^sup>* (NewMemoryStore 5) s3"
    using sample_step [of any_request sample_marshal 3] by (auto simp: any_request_def intro: converse_rtranclp_into_rtranclp)
  have s3: "ms_pins s3 ''b'' = 0"
    "\<exists>j. ms_jobs s3 ''job-1'' = Some j \<and> jb_BundleID j = ''b'' \<and> 0 < live_count (jb_Targets j)"
    by (simp_all add: s3_def RecoverExpired_def lost_pin_store [folded s2_def] sample_store_eq Let_def recover_job_def finishJob_def recover_target_def
        new_target_def live_count_def final_status_def status_count_def)
  with run show ?thesis by (auto simp: BundlePins_def)
qed

end
