(* ===== verification/Runner.thy ===== *)
theory Runner
  imports Jobs_Properties
begin

text \<open>
  internal/jobs/runner.go: a worker that claims one target, analyses it while its lease is
  renewed and commits the result. The runner is written against the \<open>Store\<close> interface of
  types.go, here a record of operations; the contract it relies on is the locale
  \<open>attempt_store\<close>, interpreted on the in-process store.

  The lease-renewal goroutine runs beside the analysis. Its inputs, in the order its
  \<open>select\<close> sees them, are a list of events; other workers act on the store between them and
  before the commit.
\<close>

section \<open>Interfaces\<close>

record 's store_ops =
  st_Claim :: "gotime \<Rightarrow> go_error option \<Rightarrow> string \<Rightarrow> duration \<Rightarrow> 's \<Rightarrow> 's \<times> (go_error + job_claim)"
  st_Renew :: "gotime \<Rightarrow> go_error option \<Rightarrow> string \<Rightarrow> string \<Rightarrow> duration \<Rightarrow> 's \<Rightarrow> 's \<times> go_error option"
  st_Complete :: "gotime \<Rightarrow> go_error option \<Rightarrow> string \<Rightarrow> string \<Rightarrow> report \<Rightarrow> target_status \<Rightarrow> string \<Rightarrow>
    's \<Rightarrow> 's \<times> go_error option"

text \<open>A captured analyzer: nil, or one whose calls return a report and an error.\<close>

record analyzer =
  an_Analyze :: "analyze_request \<Rightarrow> report \<times> go_error option"
  an_Reclassify :: "reclassify_request \<Rightarrow> report \<times> go_error option"

record captured_analyzer =
  cp_Analyzer :: "analyzer option"

record runner =
  rn_WorkerID :: string
  rn_Lease :: duration
  rn_CommitTimeout :: duration

datatype 's renew_event = Tick gotime "go_error option" | CtxDone go_error | AnalysisDone | Others "'s \<Rightarrow> 's"

text \<open>What one call of \<open>RunOnce\<close> meets: the state of its context, the clock, the factory's
  answer, the renewal events, what others do before the commit and the state of the commit
  context for a given timeout.\<close>

record 's run_env =
  re_ctx :: "go_error option"
  re_claimTime :: gotime
  re_events :: "'s renew_event list"
  re_capture :: "string \<Rightarrow> go_error + captured_analyzer option"
  re_beforeCommit :: "'s \<Rightarrow> 's"
  re_commitCtx :: "duration \<Rightarrow> go_error option"
  re_commitTime :: gotime

section \<open>The runner\<close>

fun renewLease :: "'s store_ops \<Rightarrow> duration \<Rightarrow> job_claim \<Rightarrow> 's renew_event list \<Rightarrow> 's \<Rightarrow> 's \<times> go_error option" where
  "renewLease ops lease claim [] s = (s, None)"
| "renewLease ops lease claim (AnalysisDone # es) s = (s, None)"
| "renewLease ops lease claim (CtxDone e # es) s = (s, Some e)"
| "renewLease ops lease claim (Others f # es) s = renewLease ops lease claim es (f s)"
| "renewLease ops lease claim (Tick now ctx # es) s =
     (case st_Renew ops now ctx (cl_TargetID claim) (cl_AttemptToken claim) lease s of
        (s', Some e) \<Rightarrow> (s', Some e)
      | (s', None) \<Rightarrow> renewLease ops lease claim es s')"

definition targetResult :: "report \<Rightarrow> go_error option \<Rightarrow> target_status \<times> string" where
  "targetResult r err =
     (case err of
        Some e \<Rightarrow>
          if ErrorCodeOf err = CodeCancelled \<or> errors_is e ContextCanceled \<or> errors_is e DeadlineExceeded
          then (TargetCancelled, error_string e) else (TargetFailed, error_string e)
      | None \<Rightarrow>
          (case re_Status r of
             StatusComplete \<Rightarrow> (TargetCompleted, [])
           | StatusPartial \<Rightarrow> (TargetPartial, [])
           | StatusCancelled \<Rightarrow> (TargetCancelled, [])
           | _ \<Rightarrow> (TargetFailed, ''analysis returned failed status'')))"

text \<open>Capturing the analyzer and running it: the capture error, the report, the analysis error
  and the number of times the captured analyzer was released.\<close>

definition capture_and_analyze :: "(string \<Rightarrow> go_error + captured_analyzer option) \<Rightarrow> job_claim \<Rightarrow>
    go_error option \<times> report \<times> go_error option \<times> nat" where
  "capture_and_analyze capture claim =
     (case (case capture (cl_BundleID claim) of
              Inr None \<Rightarrow> Inl (NewError CodeCapabilityUnavailable ''analyzer capture is unavailable'' None)
            | Inl e \<Rightarrow> Inl e
            | Inr (Some c) \<Rightarrow> Inr c) of
        Inl captureErr \<Rightarrow>
          (Some captureErr, zero_report, Some (Wrap ''capture attribution bundle'' captureErr), 0)
      | Inr captured \<Rightarrow>
          (case cp_Analyzer captured of
             None \<Rightarrow> (None, zero_report,
                      Some (NewError CodeCapabilityUnavailable ''captured analyzer is unavailable'' None), 1)
           | Some a \<Rightarrow>
               (case (case cl_Reclassify claim of Some r \<Rightarrow> an_Reclassify a r | None \<Rightarrow> an_Analyze a (cl_Request claim)) of
                  (report, analyzeErr) \<Rightarrow> (None, report, analyzeErr, 1))))"

definition benign_renewal :: "go_error \<Rightarrow> bool" where
  "benign_renewal e = (errors_is e ContextCanceled \<or> errors_is e DeadlineExceeded)"

text \<open>The outcome to commit: the analysis result, overridden by a bundle mismatch and then by a
  failed renewal.\<close>

definition commit_outcome :: "job_claim \<Rightarrow> report \<Rightarrow> go_error option \<Rightarrow> go_error option \<Rightarrow> target_status \<times> string \<times> report" where
  "commit_outcome claim r analyzeErr renewErr =
     (let (status, reason) = targetResult r analyzeErr;
          (status, reason, r) =
            (if cl_BundleID claim \<noteq> [] \<and> re_ID r \<noteq> [] \<and> re_BundleID r \<noteq> cl_BundleID claim
             then (TargetFailed, ''analyzer returned a report from a different bundle'', zero_report)
             else (status, reason, r))
      in case renewErr of
           None \<Rightarrow> (status, reason, r)
         | Some e \<Rightarrow>
             if benign_renewal e then (status, reason, r)
             else ((if ErrorCodeOf renewErr = CodeCancelled then TargetCancelled else TargetFailed),
                   ''lease renewal failed: '' @ error_string e, zero_report))"

definition commit_timeout :: "runner \<Rightarrow> duration" where
  "commit_timeout r = (if rn_CommitTimeout r \<le> 0 then rn_Lease r else rn_CommitTimeout r)"

definition run_error :: "go_error option \<Rightarrow> go_error option \<Rightarrow> go_error option \<Rightarrow> go_error option" where
  "run_error captureErr analyzeErr renewErr =
     (case captureErr of Some e \<Rightarrow> Some (Wrap ''capture attribution bundle'' e) | None \<Rightarrow>
      case analyzeErr of Some e \<Rightarrow> Some (Wrap ''analyze target'' e) | None \<Rightarrow>
      case renewErr of
        Some e \<Rightarrow> if ErrorCodeOf renewErr \<noteq> CodeCancelled \<and> \<not> benign_renewal e
                  then Some (Wrap ''renew target lease'' e) else None
      | None \<Rightarrow> None)"

text \<open>The result is the store, the error and the number of releases of the captured analyzer.\<close>

definition RunOnce :: "'s store_ops \<Rightarrow> runner \<Rightarrow> 's run_env \<Rightarrow> 's \<Rightarrow> 's \<times> go_error option \<times> nat" where
  "RunOnce ops r env s =
     (if rn_WorkerID r = [] \<or> rn_Lease r \<le> 0
      then (s, Some (NewError CodeInvalidOptions
              ''worker store, analyzer factory, identity, and lease are required'' None), 0)
      else case st_Claim ops (re_claimTime env) (re_ctx env) (rn_WorkerID r) (rn_Lease r) s of
        (s, Inl e) \<Rightarrow> (s, Some (Wrap ''claim target'' e), 0)
      | (s, Inr claim) \<Rightarrow>
          let (captureErr, report, analyzeErr, released) = capture_and_analyze (re_capture env) claim;
              (s, renewErr) = renewLease ops (rn_Lease r) claim (re_events env) s;
              (status, reason, report) = commit_outcome claim report analyzeErr renewErr
          in case st_Complete ops (re_commitTime env) (re_commitCtx env (commit_timeout r)) (cl_TargetID claim)
                    (cl_AttemptToken claim) report status reason (re_beforeCommit env s) of
               (s, Some e) \<Rightarrow> (s, Some (Wrap ''commit target result'' e), released)
             | (s, None) \<Rightarrow> (s, run_error captureErr analyzeErr renewErr, released))"

lemma targetResult_terminal: "targetResult r e = (status, reason) \<Longrightarrow> terminalTarget status"
  by (auto simp: targetResult_def split: option.splits report_status.splits if_splits)

lemma commit_outcome_terminal:
  "commit_outcome c r analyzeErr renewErr = (status, reason, final) \<Longrightarrow> terminalTarget status"
  using targetResult_terminal [of r analyzeErr]
  by (auto simp: commit_outcome_def split: prod.splits option.splits if_splits)

lemma commit_outcome_report:
  "commit_outcome c r analyzeErr renewErr = (status, reason, final) \<Longrightarrow> re_ID final \<noteq> [] \<Longrightarrow> final = r"
  by (auto simp: commit_outcome_def zero_report_def split: prod.splits option.splits if_splits)

lemma commit_outcome_bundle:
  "commit_outcome c r analyzeErr renewErr = (status, reason, final) \<Longrightarrow> re_ID final \<noteq> [] \<Longrightarrow> cl_BundleID c \<noteq> [] \<Longrightarrow>
   re_BundleID final = cl_BundleID c"
  by (auto simp: commit_outcome_def zero_report_def split: prod.splits option.splits if_splits)

section \<open>What a store promises its workers\<close>

locale attempt_store =
  fixes ops :: "'s store_ops"
    and good :: "'s \<Rightarrow> bool"
    and running :: "string \<Rightarrow> string \<Rightarrow> 's \<Rightarrow> bool"
    and settled :: "string \<Rightarrow> target_status \<Rightarrow> string \<Rightarrow> report \<Rightarrow> 's \<Rightarrow> bool"
  assumes claim_runs: "good s \<Longrightarrow> st_Claim ops now ctx w l s = (s', Inr c) \<Longrightarrow>
      good s' \<and> running (cl_TargetID c) (cl_AttemptToken c) s'"
    and renew_keeps: "good s \<Longrightarrow> running tid tok s \<Longrightarrow> st_Renew ops now ctx tid tok l s = (s', e) \<Longrightarrow>
      good s' \<and> running tid tok s'"
    and complete_settles: "good s \<Longrightarrow> running tid tok s \<Longrightarrow> terminalTarget st \<Longrightarrow>
      (re_ID r \<noteq> [] \<Longrightarrow> ValidateReferences r = None) \<Longrightarrow>
      \<exists>s'. st_Complete ops now None tid tok r st reason s = (s', None) \<and> settled tid st reason r s'"
begin

definition keeps :: "string \<Rightarrow> string \<Rightarrow> ('s \<Rightarrow> 's) \<Rightarrow> bool" where
  "keeps tid tok f \<longleftrightarrow> (\<forall>s. good s \<longrightarrow> running tid tok s \<longrightarrow> good (f s) \<and> running tid tok (f s))"

lemma renewLease_keeps:
  assumes "good s" "running (cl_TargetID c) (cl_AttemptToken c) s"
    and "\<And>f. Others f \<in> set es \<Longrightarrow> keeps (cl_TargetID c) (cl_AttemptToken c) f"
    and "renewLease ops l c es s = (s', e)"
  shows "good s' \<and> running (cl_TargetID c) (cl_AttemptToken c) s'"
  using assms
proof (induction es arbitrary: s)
  case (Cons ev es)
  have step: "good s1 \<Longrightarrow> running (cl_TargetID c) (cl_AttemptToken c) s1 \<Longrightarrow> renewLease ops l c es s1 = (s', e) \<Longrightarrow>
      good s' \<and> running (cl_TargetID c) (cl_AttemptToken c) s'" for s1
    using Cons.IH Cons.prems(3) by simp
  show ?case
  proof (cases ev)
    case (Tick now ctx)
    obtain s1 e1 where r: "st_Renew ops now ctx (cl_TargetID c) (cl_AttemptToken c) l s = (s1, e1)" by fastforce
    have "good s1" "running (cl_TargetID c) (cl_AttemptToken c) s1" using renew_keeps [OF Cons.prems(1,2) r] by auto
    with r Tick Cons.prems(4) step show ?thesis by (cases e1) auto
  next
    case (Others f)
    then have "good (f s) \<and> running (cl_TargetID c) (cl_AttemptToken c) (f s)"
      using Cons.prems(1-3) by (auto simp: keeps_def)
    with Others Cons.prems(4) step show ?thesis by auto
  qed (use Cons.prems in auto)
qed simp

text \<open>A worker that claimed a target settles it with the computed outcome, as long as the
  others leave the attempt alone, the commit context is alive and the report refers to its
  own observations and evidence.\<close>

lemma RunOnce_settles:
  assumes "rn_WorkerID r \<noteq> []" "0 < rn_Lease r" "good s"
    and claim: "st_Claim ops (re_claimTime env) (re_ctx env) (rn_WorkerID r) (rn_Lease r) s = (s1, Inr c)"
    and analysis: "capture_and_analyze (re_capture env) c = (captureErr, rep, analyzeErr, released)"
    and renewal: "renewLease ops (rn_Lease r) c (re_events env) s1 = (s2, renewErr)"
    and outcome: "commit_outcome c rep analyzeErr renewErr = (status, reason, final)"
    and others: "\<And>f. Others f \<in> set (re_events env) \<Longrightarrow> keeps (cl_TargetID c) (cl_AttemptToken c) f"
    and before: "keeps (cl_TargetID c) (cl_AttemptToken c) (re_beforeCommit env)"
    and commit: "re_commitCtx env (commit_timeout r) = None"
    and refs: "re_ID rep \<noteq> [] \<Longrightarrow> ValidateReferences rep = None"
  shows "\<exists>s'. RunOnce ops r env s = (s', run_error captureErr analyzeErr renewErr, released)
     \<and> settled (cl_TargetID c) status reason final s'"
proof -
  have "good s2 \<and> running (cl_TargetID c) (cl_AttemptToken c) s2"
    using renewLease_keeps [OF _ _ others renewal] claim_runs [OF assms(3) claim] by blast
  then have "good (re_beforeCommit env s2) \<and> running (cl_TargetID c) (cl_AttemptToken c) (re_beforeCommit env s2)"
    using before by (simp add: keeps_def)
  moreover have "terminalTarget status" "re_ID final \<noteq> [] \<Longrightarrow> ValidateReferences final = None"
    using outcome refs commit_outcome_terminal commit_outcome_report by blast+
  ultimately obtain s' where "st_Complete ops (re_commitTime env) None (cl_TargetID c) (cl_AttemptToken c) final status
      reason (re_beforeCommit env s2) = (s', None)" "settled (cl_TargetID c) status reason final s'"
    using complete_settles by blast
  then show ?thesis using assms(1,2) claim analysis renewal outcome commit by (simp add: RunOnce_def)
qed

end

section \<open>The in-process store keeps the promise\<close>

definition memory_ops :: "(report \<Rightarrow> go_error + string) \<Rightarrow> rand \<Rightarrow> memory_store store_ops" where
  "memory_ops marshal draw = \<lparr>st_Claim = (\<lambda>now ctx. Claim draw ctx now), st_Renew = (\<lambda>now ctx. Renew ctx now),
     st_Complete = (\<lambda>now ctx. Complete marshal ctx now)\<rparr>"

definition target_ids :: "memory_store \<Rightarrow> string \<Rightarrow> string list" where
  "target_ids s i = (case ms_jobs s i of None \<Rightarrow> [] | Some j \<Rightarrow> map jt_ID (jb_Targets j))"

definition unique_targets :: "memory_store \<Rightarrow> bool" where
  "unique_targets s \<longleftrightarrow> (\<forall>i k i' k'. k < length (target_ids s i) \<longrightarrow> k' < length (target_ids s i') \<longrightarrow>
     target_ids s i ! k = target_ids s i' ! k' \<longrightarrow> i = i' \<and> k = k')"

definition attempt_running :: "string \<Rightarrow> string \<Rightarrow> memory_store \<Rightarrow> bool" where
  "attempt_running tid tok s \<longleftrightarrow> (\<exists>i k j. findTarget tid s = Some (i, k) \<and> ms_jobs s i = Some j \<and> k < length (jb_Targets j)
     \<and> jt_Status (jb_Targets j ! k) = TargetRunning \<and> jt_AttemptToken (jb_Targets j ! k) = tok)"

definition target_settled :: "string \<Rightarrow> target_status \<Rightarrow> string \<Rightarrow> report \<Rightarrow> memory_store \<Rightarrow> bool" where
  "target_settled tid st reason r s \<longleftrightarrow> (\<exists>i k j. findTarget tid s = Some (i, k) \<and> ms_jobs s i = Some j \<and> k < length (jb_Targets j)
     \<and> jt_Status (jb_Targets j ! k) = st \<and> jt_TerminalReason (jb_Targets j ! k) = reason
     \<and> (re_ID r \<noteq> [] \<longrightarrow> jt_Report (jb_Targets j ! k) = r \<and> jt_ReportAvailable (jb_Targets j ! k)))"

definition good_store :: "memory_store \<Rightarrow> bool" where
  "good_store s \<longleftrightarrow> store_inv s \<and> unique_targets s"

lemma unique_put:
  assumes "ms_jobs s i = Some j" "map jt_ID (jb_Targets j') = map jt_ID (jb_Targets j)"
  shows "unique_targets (put_job i j' n pins s) \<longleftrightarrow> unique_targets s"
proof -
  have "target_ids (put_job i j' n pins s) = target_ids s"
    using assms by (auto simp: target_ids_def fun_eq_iff)
  then show ?thesis by (simp add: unique_targets_def)
qed

lemma findTarget_unique:
  assumes "good_store s" "ms_jobs s i = Some j" "k < length (jb_Targets j)"
  shows "findTarget (jt_ID (jb_Targets j ! k)) s = Some (i, k)"
proof (cases "findTarget (jt_ID (jb_Targets j ! k)) s")
  case None
  have "i \<in> set (ms_order s)" using assms(1,2) by (auto simp: good_store_def store_inv_def)
  with None assms(2) have "\<forall>t \<in> set (jb_Targets j). jt_ID t \<noteq> jt_ID (jb_Targets j ! k)"
    by (auto simp: findTarget_def scan_jobs_None)
  then show ?thesis using assms(3) nth_mem by blast
next
  case (Some p)
  obtain i' k' where p: "p = (i', k')" by fastforce
  with findTarget_Some [of _ s i' k'] Some obtain j' where j': "ms_jobs s i' = Some j'" "k' < length (jb_Targets j')"
    "jt_ID (jb_Targets j' ! k') = jt_ID (jb_Targets j ! k)" by blast
  have "i = i' \<and> k = k'"
    using assms j' by (auto simp: good_store_def unique_targets_def target_ids_def split: option.splits)
  with Some p show ?thesis by simp
qed

lemma set_target_ids:
  "k < length (jb_Targets j) \<Longrightarrow> jt_ID t = jt_ID (jb_Targets j ! k) \<Longrightarrow>
   map jt_ID (jb_Targets (set_target k t j)) = map jt_ID (jb_Targets j)"
  by (auto simp: set_target_def list_eq_iff_nth_eq nth_list_update)

lemma Claim_runs:
  assumes good: "good_store s" and eq: "Claim draw ctx now w l s = (s', Inr c)"
  shows "good_store s' \<and> attempt_running (cl_TargetID c) (cl_AttemptToken c) s'"
  using eq
proof (cases rule: Claim_cases)
  case (claimed i k j t j' token)
  have ids: "map jt_ID (jb_Targets j') = map jt_ID (jb_Targets j)"
    using set_target_ids [OF claimed(2), of t] claimed(9,10) by simp
  have "store_inv s'" using Claim_inv [of s draw ctx now w l] good eq by (simp add: good_store_def)
  then have good': "good_store s'"
    using good unfolding claimed(11) good_store_def unique_put [OF claimed(1) ids] by simp
  have k: "jb_Targets j' ! k = t" "k < length (jb_Targets j')" using claimed(2,10) by (auto simp: set_target_def)
  have "ms_jobs s' i = Some j'" using claimed(11) by simp
  with findTarget_unique [OF good' this k(2)] k good' claimed(9,12) show ?thesis
    by (auto simp: attempt_running_def)
qed simp

lemma Renew_keeps:
  assumes good: "good_store s" and run: "attempt_running tid tok s" and eq: "Renew ctx now tid tok l s = (s', e)"
  shows "good_store s' \<and> attempt_running tid tok s'"
  using eq
proof (cases rule: Renew_cases)
  case (renewed i k j)
  let ?t = "(jb_Targets j ! k)\<lparr>jt_LeaseExpiresAt := now + l\<rparr>"
  let ?j = "set_target k ?t j"
  have ids: "map jt_ID (jb_Targets ?j) = map jt_ID (jb_Targets j)" using renewed(3) by (intro set_target_ids) auto
  have "store_inv s'" using Renew_inv [of s ctx now tid tok l] good eq by (simp add: good_store_def)
  then have good': "good_store s'"
    using good unfolding renewed(9) good_store_def unique_put [OF renewed(2) ids] by simp
  have k: "jb_Targets ?j ! k = ?t" "k < length (jb_Targets ?j)" using renewed(3) by (auto simp: set_target_def)
  have "ms_jobs s' i = Some ?j" using renewed(9) by simp
  with findTarget_unique [OF good' this k(2)] k good' renewed(4-6) show ?thesis by (auto simp: attempt_running_def)
qed (use good run in auto)

lemma Complete_settles:
  assumes good: "good_store s" and run: "attempt_running tid tok s" and fin: "terminalTarget st"
    and refs: "re_ID r \<noteq> [] \<Longrightarrow> ValidateReferences r = None"
  shows "\<exists>s'. Complete marshal None now tid tok r st reason s = (s', None) \<and> target_settled tid st reason r s'"
proof -
  obtain i k j where t: "findTarget tid s = Some (i, k)" "ms_jobs s i = Some j" "k < length (jb_Targets j)"
    "jt_Status (jb_Targets j ! k) = TargetRunning" "jt_AttemptToken (jb_Targets j ! k) = tok"
    using run by (auto simp: attempt_running_def)
  let ?j = "fst (finishJob now (set_target k (completed_target r st reason (jb_Targets j ! k)) j) (ms_pins s))"
  have "(if re_ID r \<noteq> [] then ValidateReferences r else None) = None" using refs by simp
  then have "snd (Complete marshal None now tid tok r st reason s) = None
      \<and> ms_jobs (fst (Complete marshal None now tid tok r st reason s)) i = Some ?j"
    using t fin by (simp add: Complete_def Let_def case_finishJob)
  then obtain s' where eq: "Complete marshal None now tid tok r st reason s = (s', None)" and job: "ms_jobs s' i = Some ?j"
    by (cases "Complete marshal None now tid tok r st reason s") simp
  have "store_evolves 0 s s'" using Complete_evolves [of 0 s marshal None now tid tok r st reason] eq by simp
  then have "findTarget tid s' = Some (i, k)"
    using good t(1) unfolding good_store_def by (intro findTarget_evolves [of s 0 s' tid "(i, k)"]) auto
  moreover have "jb_Targets ?j ! k = completed_target r st reason (jb_Targets j ! k)" "k < length (jb_Targets ?j)"
    using t(3) by (simp_all add: set_target_def)
  ultimately show ?thesis using eq job by (auto simp: target_settled_def completed_target_def Let_def)
qed

interpretation memory_attempts: attempt_store "memory_ops marshal draw" good_store attempt_running target_settled
  for marshal draw
proof unfold_locales
  show "good_store s' \<and> attempt_running (cl_TargetID c) (cl_AttemptToken c) s'"
    if "good_store s" "st_Claim (memory_ops marshal draw) now ctx w l s = (s', Inr c)" for s now ctx w l s' c
    using that by (intro Claim_runs [of s draw ctx now w l s' c]) (simp_all add: memory_ops_def)
  show "good_store s' \<and> attempt_running tid tok s'"
    if "good_store s" "attempt_running tid tok s" "st_Renew (memory_ops marshal draw) now ctx tid tok l s = (s', e)"
    for s tid tok now ctx l s' e
    using that by (intro Renew_keeps [of s tid tok ctx now l s' e]) (simp_all add: memory_ops_def)
  show "\<exists>s'. st_Complete (memory_ops marshal draw) now None tid tok r st reason s = (s', None)
      \<and> target_settled tid st reason r s'"
    if "good_store s" "attempt_running tid tok s" "terminalTarget st" "re_ID r \<noteq> [] \<Longrightarrow> ValidateReferences r = None"
    for s tid tok st r now reason
    using Complete_settles [OF that] by (simp add: memory_ops_def)
qed

section \<open>Properties\<close>

definition leaves_alone :: "string \<Rightarrow> string \<Rightarrow> (memory_store \<Rightarrow> memory_store) \<Rightarrow> bool" where
  "leaves_alone tid tok f \<longleftrightarrow> (\<forall>s. good_store s \<longrightarrow> attempt_running tid tok s \<longrightarrow> good_store (f s) \<and> attempt_running tid tok (f s))"

text \<open>C5: A worker of the in-process store that claims a target always settles it: whatever the
  factory, the analyzer and the lease renewal answer, and whatever other workers do meanwhile
  that leaves the attempt alone, the target ends terminal with the outcome computed from the
  analysis, and a report of another bundle than the claim's is never stored. The commit
  context must be alive and the analyzer's report must be self-contained.\<close>

theorem run_once_settles:
  assumes "rn_WorkerID r \<noteq> []" "0 < rn_Lease r" "good_store s"
    and "Claim draw (re_ctx env) (re_claimTime env) (rn_WorkerID r) (rn_Lease r) s = (s1, Inr c)"
    and "capture_and_analyze (re_capture env) c = (captureErr, rep, analyzeErr, released)"
    and "renewLease (memory_ops marshal draw) (rn_Lease r) c (re_events env) s1 = (s2, renewErr)"
    and "commit_outcome c rep analyzeErr renewErr = (status, reason, final)"
    and "\<And>f. Others f \<in> set (re_events env) \<Longrightarrow> leaves_alone (cl_TargetID c) (cl_AttemptToken c) f"
    and "leaves_alone (cl_TargetID c) (cl_AttemptToken c) (re_beforeCommit env)"
    and "re_commitCtx env (commit_timeout r) = None"
    and "re_ID rep \<noteq> [] \<Longrightarrow> ValidateReferences rep = None"
  shows "terminalTarget status
     \<and> (\<exists>s'. RunOnce (memory_ops marshal draw) r env s = (s', run_error captureErr analyzeErr renewErr, released)
          \<and> target_settled (cl_TargetID c) status reason final s')
     \<and> (cl_BundleID c \<noteq> [] \<longrightarrow> re_ID final \<noteq> [] \<longrightarrow> re_BundleID final = cl_BundleID c)"
proof -
  have keeps: "memory_attempts.keeps tid tok f \<longleftrightarrow> leaves_alone tid tok f" for tid tok f
    by (simp add: memory_attempts.keeps_def leaves_alone_def)
  have claim: "st_Claim (memory_ops marshal draw) (re_claimTime env) (re_ctx env) (rn_WorkerID r) (rn_Lease r) s = (s1, Inr c)"
    using assms(4) by (simp add: memory_ops_def)
  from memory_attempts.RunOnce_settles [OF assms(1-3) claim assms(5-7) _ _ assms(10,11), unfolded keeps] assms(8,9)
  have "\<exists>s'. RunOnce (memory_ops marshal draw) r env s = (s', run_error captureErr analyzeErr renewErr, released)
      \<and> target_settled (cl_TargetID c) status reason final s'" by blast
  then show ?thesis using commit_outcome_terminal commit_outcome_bundle assms(7) by blast
qed

definition idle_env :: "memory_store run_env" where
  "idle_env = \<lparr>re_ctx = None, re_claimTime = 1, re_events = [Tick 2 None, AnalysisDone],
     re_capture = (\<lambda>_. Inr None), re_beforeCommit = (\<lambda>s. s), re_commitCtx = (\<lambda>_. None), re_commitTime = 3\<rparr>"

definition idle_runner :: runner where
  "idle_runner = \<lparr>rn_WorkerID = ''w'', rn_Lease = 10, rn_CommitTimeout = 0\<rparr>"

lemma sample_good: "good_store sample_store"
proof -
  have "store_inv sample_store"
    using store_step_inv [OF sample_step [of any_request sample_marshal 3]] by (simp add: any_request_def)
  moreover have "unique_targets sample_store"
    by (auto simp: unique_targets_def target_ids_def sample_store_eq split: if_splits)
  ultimately show ?thesis by (simp add: good_store_def)
qed

theorem run_once_settles_witness:
  "\<exists>s'. fst (RunOnce (memory_ops sample_marshal (sample_draw ''2'')) idle_runner idle_env sample_store) = s'
     \<and> target_settled ''target-1x'' TargetFailed ''capture attribution bundle: analyzer capture is unavailable'' zero_report s'"
proof -
  define c where "c = (case snd (Claim (sample_draw ''2'') None 1 ''w'' 10 sample_store) of Inr c \<Rightarrow> c | Inl _ \<Rightarrow> undefined)"
  have claim: "Claim (sample_draw ''2'') None 1 ''w'' 10 sample_store = (claimed_store, Inr c)"
    by (simp add: c_def claimed_store_def sample_store_eq Claim_def randomID_def sample_draw_def set_target_def new_target_def Let_def)
  have c: "cl_TargetID c = ''target-1x''" "cl_AttemptToken c = ''attempt-2''" "cl_BundleID c = ''b''"
    by (simp_all add: c_def sample_store_eq Claim_def randomID_def sample_draw_def set_target_def new_target_def Let_def)
  obtain s2 where ren: "renewLease (memory_ops sample_marshal (sample_draw ''2'')) 10 c [Tick 2 None, AnalysisDone] claimed_store = (s2, None)"
    by (simp add: memory_ops_def Renew_def c claimed_store_eq sample_store_eq findTarget_def new_target_def Let_def)
  let ?e = "NewError CodeCapabilityUnavailable ''analyzer capture is unavailable'' None"
  have an: "capture_and_analyze (\<lambda>_. Inr None) c = (Some ?e, zero_report, Some (Wrap ''capture attribution bundle'' ?e), 0)"
    by (simp add: capture_and_analyze_def)
  have out: "commit_outcome c zero_report (Some (Wrap ''capture attribution bundle'' ?e)) None =
      (TargetFailed, ''capture attribution bundle: analyzer capture is unavailable'', zero_report)"
    by (simp add: commit_outcome_def targetResult_def zero_report_def ErrorCodeOf_def NewError_def)
  show ?thesis
    using run_once_settles [of idle_runner sample_store "sample_draw ''2''" idle_env claimed_store c _ zero_report _ 0
        sample_marshal s2 None, OF _ _ sample_good _ _ _ out] claim ren an
    by (auto simp: idle_runner_def idle_env_def leaves_alone_def zero_report_def c(1))
qed

end
