(* ===== verification/Policy_Budget.thy ===== *)
theory Policy_Budget
  imports Model
begin

text \<open>
  internal/policy/budget.go: the limits of one target, the process-wide controller with its
  target, DNS and HTTP permits, and the per-target execution that meters DNS attempts, HTTP
  requests, resolved addresses and body bytes.

  A permit channel is its number of held permits and its capacity. What a wait on a permit or
  a context ends with is an argument of the operations; a permit is granted only while one
  is free. The system state holds the executions, network requests and body reservations
  created so far, and each call of the source is one or more atomic steps on it.
\<close>

section \<open>Limits\<close>

record limits =
  li_TargetDeadline :: duration
  li_DNSQueryTimeout :: duration
  li_DNSAttempts :: int
  li_DNSQuestions :: int
  li_CNAMEChainDepth :: int
  li_HTTPRequestTimeout :: duration
  li_HTTPDestinationInterval :: duration
  li_HTTPRequests :: int
  li_HTTPResponseHeaders :: int
  li_HTTPDocumentBytes :: int
  li_HTTPTotalBodyBytes :: int
  li_Redirects :: int
  li_SeedHostnames :: int
  li_ResolvedAddresses :: int
  li_PrefixAssociations :: int

abbreviation millisecond :: duration where "millisecond \<equiv> 1000000"
abbreviation second :: duration where "second \<equiv> 1000000000"

definition DefaultLimits :: limits where
  "DefaultLimits = \<lparr>li_TargetDeadline = 60 * second, li_DNSQueryTimeout = 3 * second, li_DNSAttempts = 2,
     li_DNSQuestions = 512, li_CNAMEChainDepth = 16, li_HTTPRequestTimeout = 10 * second,
     li_HTTPDestinationInterval = 100 * millisecond, li_HTTPRequests = 64, li_HTTPResponseHeaders = 64 * 2 ^ 10,
     li_HTTPDocumentBytes = 2 * 2 ^ 20, li_HTTPTotalBodyBytes = 16 * 2 ^ 20, li_Redirects = 5, li_SeedHostnames = 32,
     li_ResolvedAddresses = 128, li_PrefixAssociations = 1024\<rparr>"

definition Limits_Validate :: "limits \<Rightarrow> go_error option" where
  "Limits_Validate l =
     (if li_TargetDeadline l \<le> 0 \<or> li_DNSQueryTimeout l \<le> 0 \<or> li_HTTPRequestTimeout l \<le> 0
         \<or> li_HTTPDestinationInterval l \<le> 0
      then Some (Errorf ''timeouts must be positive'')
      else if li_DNSAttempts l \<le> 0 \<or> li_DNSQuestions l \<le> 0 \<or> li_CNAMEChainDepth l \<le> 0 \<or> li_HTTPRequests l \<le> 0
         \<or> li_HTTPResponseHeaders l \<le> 0 \<or> li_HTTPDocumentBytes l \<le> 0 \<or> li_HTTPTotalBodyBytes l \<le> 0
         \<or> li_Redirects l < 0 \<or> li_SeedHostnames l \<le> 0 \<or> li_ResolvedAddresses l \<le> 0 \<or> li_PrefixAssociations l \<le> 0
      then Some (Errorf ''resource limits must be positive'')
      else None)"

section \<open>Permits\<close>

record permits =
  pm_used :: int
  pm_cap :: int

definition make_permits :: "int \<Rightarrow> permits" where
  "make_permits n = \<lparr>pm_used = 0, pm_cap = n\<rparr>"

definition free_permit :: "permits \<Rightarrow> bool" where
  "free_permit p = (pm_used p < pm_cap p)"

definition take_permit :: "permits \<Rightarrow> permits" where
  "take_permit p = p\<lparr>pm_used := pm_used p + 1\<rparr>"

definition releasePermit :: "permits \<Rightarrow> permits" where
  "releasePermit p = p\<lparr>pm_used := pm_used p - 1\<rparr>"

text \<open>How the \<open>select\<close> of \<open>acquirePermit\<close> ends: the send succeeds, with the state of the context
  right after it, or the context is done first.\<close>

datatype wait_end = Granted "go_error option" | WaitDone go_error

definition acquirePermit :: "go_error option \<Rightarrow> wait_end \<Rightarrow> permits \<Rightarrow> permits \<times> go_error option" where
  "acquirePermit ctx w p =
     (case ctx of Some e \<Rightarrow> (p, Some e) | None \<Rightarrow>
      case w of
        Granted None \<Rightarrow> (take_permit p, None)
      | Granted (Some e) \<Rightarrow> (releasePermit (take_permit p), Some e)
      | WaitDone e \<Rightarrow> (p, Some e))"

definition wait_possible :: "wait_end \<Rightarrow> permits \<Rightarrow> bool" where
  "wait_possible w p = (case w of Granted _ \<Rightarrow> free_permit p | WaitDone _ \<Rightarrow> True)"

section \<open>Controller and executions\<close>

record controller =
  ct_limits :: limits
  ct_targets :: permits
  ct_dns :: permits
  ct_http :: permits
  ct_targetWaiters :: int

definition NewController :: "limits \<Rightarrow> int \<Rightarrow> int \<Rightarrow> int \<Rightarrow> go_error + controller" where
  "NewController l concurrentTargets concurrentDNS concurrentHTTP =
     (case Limits_Validate l of
        Some e \<Rightarrow> Inl (Wrap ''validate target limits'' e)
      | None \<Rightarrow>
          if concurrentTargets \<le> 0 \<or> concurrentDNS \<le> 0 \<or> concurrentHTTP \<le> 0
          then Inl (Errorf ''concurrent permit counts must be positive'')
          else Inr \<lparr>ct_limits = l, ct_targets = make_permits concurrentTargets, ct_dns = make_permits concurrentDNS,
                    ct_http = make_permits concurrentHTTP, ct_targetWaiters = 0\<rparr>)"

record target_admission_snapshot =
  ta_Active :: int
  ta_Waiting :: int
  ta_Capacity :: int

definition TargetAdmission :: "controller \<Rightarrow> target_admission_snapshot" where
  "TargetAdmission c = \<lparr>ta_Active = pm_used (ct_targets c), ta_Waiting = ct_targetWaiters c,
     ta_Capacity = pm_cap (ct_targets c)\<rparr>"

record execution =
  ex_dnsLeft :: int
  ex_httpLeft :: int
  ex_addresses :: int
  ex_bodyLeft :: int
  ex_dns :: permits
  ex_http :: permits
  ex_released :: bool

definition concurrentDNSPerTarget :: int where "concurrentDNSPerTarget = 8"
definition concurrentHTTPPerTarget :: int where "concurrentHTTPPerTarget = 4"

text \<open>The error of \<open>PromoteSynchronousAdmission\<close> for a synchronous request: of the waiting
  context first, then of the execution parent.\<close>

definition PromoteSynchronousAdmission :: "go_error option \<Rightarrow> go_error option option \<Rightarrow> go_error option" where
  "PromoteSynchronousAdmission ctx synchronous =
     (case synchronous of
        None \<Rightarrow> None
      | Some parent \<Rightarrow>
          (case ctx of Some e \<Rightarrow> Some (NewError CodeCancelled ''request cancelled before admission'' (Some e)) | None \<Rightarrow>
           case parent of Some e \<Rightarrow> Some (NewError CodeCancelled ''request cancelled before admission'' (Some e)) | None \<Rightarrow> None))"

definition admission_error :: "go_error option \<Rightarrow> go_error option option \<Rightarrow> go_error \<Rightarrow> go_error" where
  "admission_error ctx synchronous e =
     (if synchronous = Some None \<and> ctx = Some DeadlineExceeded
      then NewError CodeQueueCapacityExceeded ''synchronous admission deadline exceeded'' (Some e)
      else NewError CodeCancelled ''wait for target admission'' (Some e))"

text \<open>\<open>Begin\<close> first counts the waiter.\<close>

definition begin_wait :: "controller \<Rightarrow> controller" where
  "begin_wait c = c\<lparr>ct_targetWaiters := ct_targetWaiters c + 1\<rparr>"

text \<open>\<open>Begin\<close>, from the end of its wait for a target permit: \<open>before\<close>, \<open>w\<close> and \<open>after\<close> are the
  context's state when the wait starts, how it ends and the state after it; \<open>synchronous\<close> is
  the state of the execution parent of a synchronous request.\<close>

definition Begin :: "go_error option \<Rightarrow> wait_end \<Rightarrow> go_error option \<Rightarrow> go_error option option \<Rightarrow> controller \<Rightarrow>
    controller \<times> (go_error + execution)" where
  "Begin before w after synchronous c =
     (let c = c\<lparr>ct_targetWaiters := ct_targetWaiters c - 1\<rparr> in
      case acquirePermit before w (ct_targets c) of
        (p, Some e) \<Rightarrow> (c\<lparr>ct_targets := p\<rparr>, Inl (admission_error after synchronous e))
      | (p, None) \<Rightarrow>
          (case after of
             Some e \<Rightarrow> (c\<lparr>ct_targets := releasePermit p\<rparr>, Inl (admission_error after synchronous e))
           | None \<Rightarrow>
               (case synchronous of
                  Some (Some e) \<Rightarrow>
                    (c\<lparr>ct_targets := releasePermit p\<rparr>,
                     Inl (NewError CodeCancelled ''request cancelled before admission'' (Some e)))
                | _ \<Rightarrow>
                    (c\<lparr>ct_targets := p\<rparr>,
                     Inr \<lparr>ex_dnsLeft = li_DNSQuestions (ct_limits c), ex_httpLeft = li_HTTPRequests (ct_limits c),
                          ex_addresses = li_ResolvedAddresses (ct_limits c),
                          ex_bodyLeft = li_HTTPTotalBodyBytes (ct_limits c),
                          ex_dns = make_permits (min concurrentDNSPerTarget (pm_cap (ct_dns c))),
                          ex_http = make_permits (min concurrentHTTPPerTarget (pm_cap (ct_http c))),
                          ex_released = False\<rparr>))))"

definition reserveCount :: "int \<Rightarrow> int \<times> bool" where
  "reserveCount n = (if n \<le> 0 then (n, False) else (n - 1, True))"

definition budgetError :: "string \<Rightarrow> go_error" where
  "budgetError message = NewError CodeBudgetExceeded message None"

text \<open>\<open>ReserveHTTPBody\<close> and the commit it returns, as functions on the bytes left.\<close>

definition reserve_body :: "int \<Rightarrow> int \<Rightarrow> int \<times> int" where
  "reserve_body documentLimit left = (let reserved = min documentLimit left in (reserved, left - reserved))"

definition retained_bytes :: "int \<Rightarrow> int \<Rightarrow> int" where
  "retained_bytes reserved retained =
     (let retained = (if retained < 0 then 0 else retained) in if retained > reserved then reserved else retained)"

section \<open>The system\<close>

datatype net_kind = DNS | HTTP

text \<open>The progress of one network request: waiting for the target's permit, waiting for the
  process permit while holding the target's, holding both, or done.\<close>

datatype net_phase = WaitTarget | WaitProcess | Held | Done

record net_request =
  nq_exec :: nat
  nq_kind :: net_kind
  nq_phase :: net_phase

text \<open>A body reservation: the bytes reserved and, once committed, the bytes retained.\<close>

record body_reservation =
  br_exec :: nat
  br_reserved :: int
  br_retained :: "int option"

text \<open>\<open>sy_granted\<close> lists the executions addresses were granted to; it is not in the source.\<close>

record system =
  sy_ctl :: controller
  sy_execs :: "execution list"
  sy_reqs :: "net_request list"
  sy_bodies :: "body_reservation list"
  sy_granted :: "nat list"

definition new_system :: "controller \<Rightarrow> system" where
  "new_system c = \<lparr>sy_ctl = c, sy_execs = [], sy_reqs = [], sy_bodies = [], sy_granted = []\<rparr>"

definition begin_step :: "go_error option \<Rightarrow> wait_end \<Rightarrow> go_error option \<Rightarrow> go_error option option \<Rightarrow> system \<Rightarrow>
    system \<times> go_error option" where
  "begin_step before w after synchronous s =
     (case Begin before w after synchronous (sy_ctl s) of
        (c, Inl e) \<Rightarrow> (s\<lparr>sy_ctl := c\<rparr>, Some e)
      | (c, Inr ex) \<Rightarrow> (s\<lparr>sy_ctl := c, sy_execs := sy_execs s @ [ex]\<rparr>, None))"

text \<open>The release function of \<open>Begin\<close>, which acts once.\<close>

definition release_target :: "nat \<Rightarrow> system \<Rightarrow> system" where
  "release_target e s =
     (if ex_released (sy_execs s ! e) then s
      else s\<lparr>sy_ctl := (sy_ctl s)\<lparr>ct_targets := releasePermit (ct_targets (sy_ctl s))\<rparr>,
             sy_execs := (sy_execs s)[e := (sy_execs s ! e)\<lparr>ex_released := True\<rparr>]\<rparr>)"

definition left_of :: "net_kind \<Rightarrow> execution \<Rightarrow> int" where
  "left_of k ex = (case k of DNS \<Rightarrow> ex_dnsLeft ex | HTTP \<Rightarrow> ex_httpLeft ex)"

definition set_left :: "net_kind \<Rightarrow> int \<Rightarrow> execution \<Rightarrow> execution" where
  "set_left k n ex = (case k of DNS \<Rightarrow> ex\<lparr>ex_dnsLeft := n\<rparr> | HTTP \<Rightarrow> ex\<lparr>ex_httpLeft := n\<rparr>)"

definition target_permits :: "net_kind \<Rightarrow> execution \<Rightarrow> permits" where
  "target_permits k ex = (case k of DNS \<Rightarrow> ex_dns ex | HTTP \<Rightarrow> ex_http ex)"

definition set_target_permits :: "net_kind \<Rightarrow> permits \<Rightarrow> execution \<Rightarrow> execution" where
  "set_target_permits k p ex = (case k of DNS \<Rightarrow> ex\<lparr>ex_dns := p\<rparr> | HTTP \<Rightarrow> ex\<lparr>ex_http := p\<rparr>)"

definition process_permits :: "net_kind \<Rightarrow> controller \<Rightarrow> permits" where
  "process_permits k c = (case k of DNS \<Rightarrow> ct_dns c | HTTP \<Rightarrow> ct_http c)"

definition set_process_permits :: "net_kind \<Rightarrow> permits \<Rightarrow> controller \<Rightarrow> controller" where
  "set_process_permits k p c = (case k of DNS \<Rightarrow> c\<lparr>ct_dns := p\<rparr> | HTTP \<Rightarrow> c\<lparr>ct_http := p\<rparr>)"

text \<open>The head of \<open>AcquireDNS\<close> and \<open>AcquireHTTP\<close>: one unit of the budget is taken or the call
  fails; then the request waits for its permits.\<close>

definition acquire_start :: "net_kind \<Rightarrow> nat \<Rightarrow> system \<Rightarrow> system \<times> go_error option" where
  "acquire_start k e s =
     (case reserveCount (left_of k (sy_execs s ! e)) of
        (n, False) \<Rightarrow> (s, Some (budgetError (case k of DNS \<Rightarrow> ''DNS question budget exhausted''
                                               | HTTP \<Rightarrow> ''HTTP request budget exhausted'')))
      | (n, True) \<Rightarrow>
          (s\<lparr>sy_execs := (sy_execs s)[e := set_left k n (sy_execs s ! e)],
             sy_reqs := sy_reqs s @ [\<lparr>nq_exec = e, nq_kind = k, nq_phase = WaitTarget\<rparr>]\<rparr>, None))"

definition put_req :: "nat \<Rightarrow> net_phase \<Rightarrow> system \<Rightarrow> system" where
  "put_req r ph s = s\<lparr>sy_reqs := (sy_reqs s)[r := (sy_reqs s ! r)\<lparr>nq_phase := ph\<rparr>]\<rparr>"

definition put_target_permits :: "nat \<Rightarrow> net_kind \<Rightarrow> permits \<Rightarrow> system \<Rightarrow> system" where
  "put_target_permits e k p s = s\<lparr>sy_execs := (sy_execs s)[e := set_target_permits k p (sy_execs s ! e)]\<rparr>"

definition put_process_permits :: "net_kind \<Rightarrow> permits \<Rightarrow> system \<Rightarrow> system" where
  "put_process_permits k p s = s\<lparr>sy_ctl := set_process_permits k p (sy_ctl s)\<rparr>"

text \<open>\<open>acquireNetwork\<close> in its two waits, and the release function it returns.\<close>

definition acquireNetwork_target :: "nat \<Rightarrow> go_error option \<Rightarrow> wait_end \<Rightarrow> system \<Rightarrow> system \<times> go_error option" where
  "acquireNetwork_target r ctx w s =
     (let q = sy_reqs s ! r; e = nq_exec q; k = nq_kind q in
      case acquirePermit ctx w (target_permits k (sy_execs s ! e)) of
        (p, Some err) \<Rightarrow> (put_req r Done (put_target_permits e k p s),
                         Some (NewError CodeCancelled ''wait for per-target network admission'' (Some err)))
      | (p, None) \<Rightarrow> (put_req r WaitProcess (put_target_permits e k p s), None))"

definition acquireNetwork_process :: "nat \<Rightarrow> go_error option \<Rightarrow> wait_end \<Rightarrow> system \<Rightarrow> system \<times> go_error option" where
  "acquireNetwork_process r ctx w s =
     (let q = sy_reqs s ! r; e = nq_exec q; k = nq_kind q in
      case acquirePermit ctx w (process_permits k (sy_ctl s)) of
        (p, Some err) \<Rightarrow>
          (put_req r Done (put_target_permits e k (releasePermit (target_permits k (sy_execs s ! e)))
             (put_process_permits k p s)),
           Some (NewError CodeCancelled ''wait for process network admission'' (Some err)))
      | (p, None) \<Rightarrow> (put_req r Held (put_process_permits k p s), None))"

definition release_network :: "nat \<Rightarrow> system \<Rightarrow> system" where
  "release_network r s =
     (let q = sy_reqs s ! r; e = nq_exec q; k = nq_kind q in
      if nq_phase q \<noteq> Held then s
      else put_req r Done (put_target_permits e k (releasePermit (target_permits k (sy_execs s ! e)))
             (put_process_permits k (releasePermit (process_permits k (sy_ctl s))) s)))"

definition ReserveAddress :: "nat \<Rightarrow> system \<Rightarrow> system \<times> bool" where
  "ReserveAddress e s =
     (case reserveCount (ex_addresses (sy_execs s ! e)) of
        (n, ok) \<Rightarrow>
          (s\<lparr>sy_execs := (sy_execs s)[e := (sy_execs s ! e)\<lparr>ex_addresses := n\<rparr>],
             sy_granted := (if ok then sy_granted s @ [e] else sy_granted s)\<rparr>, ok))"

definition ReserveHTTPBody :: "nat \<Rightarrow> int \<Rightarrow> system \<Rightarrow> system \<times> int" where
  "ReserveHTTPBody e documentLimit s =
     (case reserve_body documentLimit (ex_bodyLeft (sy_execs s ! e)) of
        (reserved, left) \<Rightarrow>
          (s\<lparr>sy_execs := (sy_execs s)[e := (sy_execs s ! e)\<lparr>ex_bodyLeft := left\<rparr>],
             sy_bodies := sy_bodies s @ [\<lparr>br_exec = e, br_reserved = reserved, br_retained = None\<rparr>]\<rparr>, reserved))"

definition commit_body :: "nat \<Rightarrow> int \<Rightarrow> system \<Rightarrow> system" where
  "commit_body b retained s =
     (let res = sy_bodies s ! b; e = br_exec res; n = retained_bytes (br_reserved res) retained in
      if br_retained res \<noteq> None then s
      else s\<lparr>sy_execs := (sy_execs s)[e := (sy_execs s ! e)\<lparr>ex_bodyLeft := ex_bodyLeft (sy_execs s ! e) + (br_reserved res - n)\<rparr>],
             sy_bodies := (sy_bodies s)[b := res\<lparr>br_retained := Some n\<rparr>]\<rparr>)"

section \<open>Steps\<close>

inductive system_step :: "system \<Rightarrow> system \<Rightarrow> bool" where
  wait: "system_step s (s\<lparr>sy_ctl := begin_wait (sy_ctl s)\<rparr>)"
| admit: "wait_possible w (ct_targets (sy_ctl s)) \<Longrightarrow> system_step s (fst (begin_step before w after synchronous s))"
| leave: "e < length (sy_execs s) \<Longrightarrow> system_step s (release_target e s)"
| start: "e < length (sy_execs s) \<Longrightarrow> system_step s (fst (acquire_start k e s))"
| target_permit: "r < length (sy_reqs s) \<Longrightarrow> nq_phase (sy_reqs s ! r) = WaitTarget \<Longrightarrow>
    wait_possible w (target_permits (nq_kind (sy_reqs s ! r)) (sy_execs s ! nq_exec (sy_reqs s ! r))) \<Longrightarrow>
    system_step s (fst (acquireNetwork_target r ctx w s))"
| process_permit: "r < length (sy_reqs s) \<Longrightarrow> nq_phase (sy_reqs s ! r) = WaitProcess \<Longrightarrow>
    wait_possible w (process_permits (nq_kind (sy_reqs s ! r)) (sy_ctl s)) \<Longrightarrow>
    system_step s (fst (acquireNetwork_process r ctx w s))"
| release: "r < length (sy_reqs s) \<Longrightarrow> system_step s (release_network r s)"
| address: "e < length (sy_execs s) \<Longrightarrow> system_step s (fst (ReserveAddress e s))"
| body: "e < length (sy_execs s) \<Longrightarrow> 0 \<le> documentLimit \<Longrightarrow> system_step s (fst (ReserveHTTPBody e documentLimit s))"
| commit: "b < length (sy_bodies s) \<Longrightarrow> system_step s (commit_body b retained s)"

section \<open>Accounting\<close>

definition total :: "('a \<Rightarrow> int) \<Rightarrow> 'a list \<Rightarrow> int" where
  "total f xs = sum_list (map f xs)"

lemma total_simps [simp]: "total f [] = 0" "total f (xs @ [x]) = total f xs + f x"
  by (simp_all add: total_def)

lemma total_update [simp]: "k < length xs \<Longrightarrow> total f (xs[k := x]) = total f xs - f (xs ! k) + f x"
proof (induction xs arbitrary: k)
  case (Cons y ys)
  then show ?case by (cases k) (auto simp: total_def)
qed simp

lemma total_nonneg: "(\<And>x. x \<in> set xs \<Longrightarrow> 0 \<le> f x) \<Longrightarrow> 0 \<le> total f xs"
  unfolding total_def by (rule sum_list_nonneg) auto

definition active_weight :: "execution \<Rightarrow> int" where
  "active_weight ex = of_bool (\<not> ex_released ex)"

definition process_weight :: "net_kind \<Rightarrow> net_request \<Rightarrow> int" where
  "process_weight k q = of_bool (nq_kind q = k \<and> nq_phase q = Held)"

definition target_weight :: "nat \<Rightarrow> net_kind \<Rightarrow> net_request \<Rightarrow> int" where
  "target_weight e k q = of_bool (nq_exec q = e \<and> nq_kind q = k \<and> (nq_phase q = WaitProcess \<or> nq_phase q = Held))"

definition started_weight :: "nat \<Rightarrow> net_kind \<Rightarrow> net_request \<Rightarrow> int" where
  "started_weight e k q = of_bool (nq_exec q = e \<and> nq_kind q = k)"

definition body_weight :: "nat \<Rightarrow> body_reservation \<Rightarrow> int" where
  "body_weight e b = (if br_exec b = e then (case br_retained b of None \<Rightarrow> br_reserved b | Some n \<Rightarrow> n) else 0)"

definition budget_of :: "net_kind \<Rightarrow> limits \<Rightarrow> int" where
  "budget_of k l = (case k of DNS \<Rightarrow> li_DNSQuestions l | HTTP \<Rightarrow> li_HTTPRequests l)"

definition permits_ok :: "permits \<Rightarrow> int \<Rightarrow> bool" where
  "permits_ok p n \<longleftrightarrow> pm_used p = n \<and> n \<le> pm_cap p"

definition meter_ok :: "int \<Rightarrow> int \<Rightarrow> int \<Rightarrow> bool" where
  "meter_ok left budget used \<longleftrightarrow> left = budget - used \<and> 0 \<le> left"

lemma meter_ok_spend: "meter_ok left budget used \<Longrightarrow> n \<le> left \<Longrightarrow> meter_ok (left - n) budget (used + n)"
  by (simp add: meter_ok_def)

text \<open>An execution against its account: the permits its requests hold and the requests started
  per kind, the addresses granted and the body bytes reserved or retained.\<close>

definition exec_ok :: "limits \<Rightarrow> (net_kind \<Rightarrow> int) \<Rightarrow> (net_kind \<Rightarrow> int) \<Rightarrow> int \<Rightarrow> int \<Rightarrow> execution \<Rightarrow> bool" where
  "exec_ok l held started granted bytes ex \<longleftrightarrow>
     (\<forall>k. permits_ok (target_permits k ex) (held k)) \<and> (\<forall>k. meter_ok (left_of k ex) (budget_of k l) (started k))
     \<and> meter_ok (ex_addresses ex) (li_ResolvedAddresses l) granted
     \<and> meter_ok (ex_bodyLeft ex) (li_HTTPTotalBodyBytes l) bytes"

definition exec_inv :: "system \<Rightarrow> nat \<Rightarrow> bool" where
  "exec_inv s e \<longleftrightarrow> exec_ok (ct_limits (sy_ctl s)) (\<lambda>k. total (target_weight e k) (sy_reqs s))
     (\<lambda>k. total (started_weight e k) (sy_reqs s)) (total (\<lambda>g. of_bool (g = e)) (sy_granted s))
     (total (body_weight e) (sy_bodies s)) (sy_execs s ! e)"

definition body_ok :: "nat \<Rightarrow> body_reservation \<Rightarrow> bool" where
  "body_ok n b \<longleftrightarrow> br_exec b < n \<and> 0 \<le> br_reserved b \<and> (\<forall>m. br_retained b = Some m \<longrightarrow> 0 \<le> m \<and> m \<le> br_reserved b)"

definition budget_inv :: "system \<Rightarrow> bool" where
  "budget_inv s \<longleftrightarrow>
     permits_ok (ct_targets (sy_ctl s)) (total active_weight (sy_execs s))
     \<and> (\<forall>k. permits_ok (process_permits k (sy_ctl s)) (total (process_weight k) (sy_reqs s)))
     \<and> (\<forall>k. 0 < pm_cap (process_permits k (sy_ctl s)))
     \<and> (\<forall>e < length (sy_execs s). exec_inv s e)
     \<and> (\<forall>q \<in> set (sy_reqs s). nq_exec q < length (sy_execs s))
     \<and> (\<forall>b \<in> set (sy_bodies s). body_ok (length (sy_execs s)) b)
     \<and> (\<forall>g \<in> set (sy_granted s). g < length (sy_execs s))
     \<and> Limits_Validate (ct_limits (sy_ctl s)) = None"

lemma total_fresh:
  "(\<And>x. x \<in> set xs \<Longrightarrow> f x = 0) \<Longrightarrow> total f xs = 0"
  by (induction xs) (auto simp: total_def)

lemma record_simps [simp]:
  "target_permits k (set_target_permits k' p ex) = (if k = k' then p else target_permits k ex)"
  "left_of k (set_target_permits k' p ex) = left_of k ex"
  "ex_addresses (set_target_permits k p ex) = ex_addresses ex" "ex_bodyLeft (set_target_permits k p ex) = ex_bodyLeft ex"
  "active_weight (set_target_permits k p ex) = active_weight ex"
  "left_of k (set_left k' n ex) = (if k = k' then n else left_of k ex)"
  "target_permits k (set_left k' n ex) = target_permits k ex"
  "ex_addresses (set_left k n ex) = ex_addresses ex" "ex_bodyLeft (set_left k n ex) = ex_bodyLeft ex"
  "active_weight (set_left k n ex) = active_weight ex"
  "process_permits k (set_process_permits k' p c) = (if k = k' then p else process_permits k c)"
  "ct_targets (set_process_permits k p c) = ct_targets c" "ct_limits (set_process_permits k p c) = ct_limits c"
  "target_permits k (ex\<lparr>ex_released := b\<rparr>) = target_permits k ex" "left_of k (ex\<lparr>ex_released := b\<rparr>) = left_of k ex"
  "target_permits k (ex\<lparr>ex_addresses := n\<rparr>) = target_permits k ex" "left_of k (ex\<lparr>ex_addresses := n\<rparr>) = left_of k ex"
  "target_permits k (ex\<lparr>ex_bodyLeft := n\<rparr>) = target_permits k ex" "left_of k (ex\<lparr>ex_bodyLeft := n\<rparr>) = left_of k ex"
  "active_weight (ex\<lparr>ex_addresses := n\<rparr>) = active_weight ex" "active_weight (ex\<lparr>ex_bodyLeft := n\<rparr>) = active_weight ex"
  "process_permits k (c\<lparr>ct_targets := p\<rparr>) = process_permits k c"
  "process_permits k (c\<lparr>ct_targetWaiters := n\<rparr>) = process_permits k c"
  by (cases k; cases k'; simp add: target_permits_def set_target_permits_def left_of_def set_left_def process_permits_def
      set_process_permits_def active_weight_def)+

lemma permit_simps [simp]:
  "releasePermit (take_permit p) = p" "pm_used (take_permit p) = pm_used p + 1" "pm_cap (take_permit p) = pm_cap p"
  "pm_used (releasePermit p) = pm_used p - 1" "pm_cap (releasePermit p) = pm_cap p"
  by (simp_all add: releasePermit_def take_permit_def)

lemma acquirePermit_cases:
  assumes "acquirePermit ctx w p = (p', err)" "wait_possible w p"
  obtains (granted) "err = None" "p' = take_permit p" "pm_used p < pm_cap p" | (failed) e where "err = Some e" "p' = p"
  using assms by (auto simp: acquirePermit_def wait_possible_def free_permit_def split: option.splits wait_end.splits)

lemma permits_ok_simps:
  "permits_ok p n \<Longrightarrow> pm_used p < pm_cap p \<Longrightarrow> permits_ok (take_permit p) (n + 1)"
  "permits_ok p n \<Longrightarrow> permits_ok (releasePermit p) (n - 1)"
  by (auto simp: permits_ok_def)

lemma new_system_inv: "NewController l t d h = Inr c \<Longrightarrow> budget_inv (new_system c)"
  by (auto simp: NewController_def budget_inv_def new_system_def process_permits_def make_permits_def permits_ok_def
      split: option.splits if_splits net_kind.splits)

text \<open>What each operation does to the account of its execution.\<close>

lemma exec_ok_start:
  "exec_ok l h st g b ex \<Longrightarrow> 0 < left_of k ex \<Longrightarrow>
   exec_ok l h (\<lambda>k'. st k' + of_bool (k = k')) g b (set_left k (left_of k ex - 1) ex)"
  by (auto simp: exec_ok_def meter_ok_spend)

lemma exec_ok_take:
  "exec_ok l h st g b ex \<Longrightarrow> pm_used (target_permits k ex) < pm_cap (target_permits k ex) \<Longrightarrow>
   exec_ok l (\<lambda>k'. h k' + of_bool (k = k')) st g b (set_target_permits k (take_permit (target_permits k ex)) ex)"
  by (auto simp: exec_ok_def permits_ok_simps)

lemma exec_ok_release:
  "exec_ok l h st g b ex \<Longrightarrow>
   exec_ok l (\<lambda>k'. h k' - of_bool (k = k')) st g b (set_target_permits k (releasePermit (target_permits k ex)) ex)"
  by (auto simp: exec_ok_def permits_ok_simps)

lemma exec_ok_address:
  "exec_ok l h st g b ex \<Longrightarrow> 0 < ex_addresses ex \<Longrightarrow> exec_ok l h st (g + 1) b (ex\<lparr>ex_addresses := ex_addresses ex - 1\<rparr>)"
  by (auto simp: exec_ok_def meter_ok_spend)

lemma exec_ok_body:
  "exec_ok l h st g b ex \<Longrightarrow> n \<le> ex_bodyLeft ex \<Longrightarrow> exec_ok l h st g (b + n) (ex\<lparr>ex_bodyLeft := ex_bodyLeft ex - n\<rparr>)"
  by (auto simp: exec_ok_def meter_ok_spend)

lemma exec_ok_new:
  assumes "Limits_Validate l = None" "0 < pm_cap d" "0 < pm_cap h"
  shows "exec_ok l (\<lambda>_. 0) (\<lambda>_. 0) 0 0
    \<lparr>ex_dnsLeft = li_DNSQuestions l, ex_httpLeft = li_HTTPRequests l, ex_addresses = li_ResolvedAddresses l,
     ex_bodyLeft = li_HTTPTotalBodyBytes l, ex_dns = make_permits (min concurrentDNSPerTarget (pm_cap d)),
     ex_http = make_permits (min concurrentHTTPPerTarget (pm_cap h)), ex_released = r\<rparr>"
  using assms
  by (auto simp: exec_ok_def meter_ok_def permits_ok_def target_permits_def left_of_def budget_of_def make_permits_def Limits_Validate_def
      concurrentDNSPerTarget_def concurrentHTTPPerTarget_def split: net_kind.splits if_splits)

lemma exec_ok_released [simp]: "exec_ok l h st g b (ex\<lparr>ex_released := r\<rparr>) = exec_ok l h st g b ex"
  by (simp add: exec_ok_def)

lemma wait_inv: "budget_inv s \<Longrightarrow> budget_inv (s\<lparr>sy_ctl := begin_wait (sy_ctl s)\<rparr>)"
  by (simp add: budget_inv_def exec_inv_def begin_wait_def)

lemma no_requests_yet:
  assumes "budget_inv s"
  shows "total (target_weight (length (sy_execs s)) k) (sy_reqs s) = 0"
    "total (started_weight (length (sy_execs s)) k) (sy_reqs s) = 0"
    "total (\<lambda>g. of_bool (g = length (sy_execs s))) (sy_granted s) = 0"
    "total (body_weight (length (sy_execs s))) (sy_bodies s) = 0"
  using assms by (auto intro!: total_fresh simp: budget_inv_def target_weight_def started_weight_def body_weight_def body_ok_def)

lemma admitted_inv:
  assumes inv: "budget_inv s" and free: "pm_used (ct_targets (sy_ctl s)) < pm_cap (ct_targets (sy_ctl s))"
    and ex: "exec_ok (ct_limits (sy_ctl s)) (\<lambda>_. 0) (\<lambda>_. 0) 0 0 ex" "\<not> ex_released ex"
  shows "budget_inv (s\<lparr>sy_ctl := (sy_ctl s)\<lparr>ct_targetWaiters := n, ct_targets := take_permit (ct_targets (sy_ctl s))\<rparr>,
           sy_execs := sy_execs s @ [ex]\<rparr>)"
  using inv free ex no_requests_yet [OF inv]
  by (auto simp: budget_inv_def exec_inv_def nth_append active_weight_def less_Suc_eq permits_ok_simps body_ok_def)

lemma begin_inv:
  assumes inv: "budget_inv s" and w: "wait_possible w (ct_targets (sy_ctl s))"
  shows "budget_inv (fst (begin_step before w after synchronous s))"
proof -
  have same: "budget_inv (s\<lparr>sy_ctl := (sy_ctl s)\<lparr>ct_targetWaiters := n\<rparr>\<rparr>)" for n
    using inv by (simp add: budget_inv_def exec_inv_def)
  obtain p err where acq: "acquirePermit before w (ct_targets (sy_ctl s)) = (p, err)" by fastforce
  show ?thesis using acq w
  proof (cases rule: acquirePermit_cases)
    case granted
    have "0 < pm_cap (ct_dns (sy_ctl s))" "0 < pm_cap (ct_http (sy_ctl s))"
      using inv by (auto simp: budget_inv_def process_permits_def split: net_kind.splits)
    with inv have "exec_ok (ct_limits (sy_ctl s)) (\<lambda>_. 0) (\<lambda>_. 0) 0 0
        \<lparr>ex_dnsLeft = li_DNSQuestions (ct_limits (sy_ctl s)), ex_httpLeft = li_HTTPRequests (ct_limits (sy_ctl s)),
         ex_addresses = li_ResolvedAddresses (ct_limits (sy_ctl s)), ex_bodyLeft = li_HTTPTotalBodyBytes (ct_limits (sy_ctl s)),
         ex_dns = make_permits (min concurrentDNSPerTarget (pm_cap (ct_dns (sy_ctl s)))),
         ex_http = make_permits (min concurrentHTTPPerTarget (pm_cap (ct_http (sy_ctl s)))), ex_released = False\<rparr>"
      by (intro exec_ok_new) (auto simp: budget_inv_def)
    from admitted_inv [OF inv granted(3) this] granted acq same show ?thesis
      by (auto simp: begin_step_def Begin_def Let_def split: option.splits)
  next
    case (failed e)
    with acq same show ?thesis by (simp add: begin_step_def Begin_def Let_def)
  qed
qed

lemma release_target_inv:
  assumes "budget_inv s" "e < length (sy_execs s)"
  shows "budget_inv (release_target e s)"
proof (cases "ex_released (sy_execs s ! e)")
  case False
  then have "active_weight (sy_execs s ! e) = 1" by (simp add: active_weight_def)
  with False assms show ?thesis
    by (auto simp: release_target_def budget_inv_def exec_inv_def nth_list_update permits_ok_simps active_weight_def)
qed (simp add: release_target_def assms)

lemma acquire_start_inv:
  assumes "budget_inv s" "e < length (sy_execs s)"
  shows "budget_inv (fst (acquire_start k e s))"
  using assms exec_ok_start [of _ _ _ _ _ "sy_execs s ! e" k]
  by (auto simp: acquire_start_def reserveCount_def budget_inv_def exec_inv_def nth_list_update target_weight_def
      started_weight_def process_weight_def)

lemma address_inv:
  assumes "budget_inv s" "e < length (sy_execs s)"
  shows "budget_inv (fst (ReserveAddress e s))"
  using assms exec_ok_address [of _ _ _ _ _ "sy_execs s ! e"]
  by (auto simp: ReserveAddress_def reserveCount_def budget_inv_def exec_inv_def nth_list_update)

lemma body_inv:
  assumes "budget_inv s" "e < length (sy_execs s)" "0 \<le> documentLimit"
  shows "budget_inv (fst (ReserveHTTPBody e documentLimit s))"
proof -
  let ?n = "min documentLimit (ex_bodyLeft (sy_execs s ! e))"
  have "0 \<le> ex_bodyLeft (sy_execs s ! e)" using assms(1,2) by (auto simp: budget_inv_def exec_inv_def exec_ok_def meter_ok_def)
  then have "0 \<le> ?n" using assms(3) by simp
  with assms exec_ok_body [of _ _ _ _ _ "sy_execs s ! e" ?n] show ?thesis
    by (auto simp: ReserveHTTPBody_def reserve_body_def Let_def budget_inv_def exec_inv_def nth_list_update body_weight_def body_ok_def)
qed

lemma retained_bounds: "0 \<le> r \<Longrightarrow> 0 \<le> retained_bytes r n \<and> retained_bytes r n \<le> r"
  by (simp add: retained_bytes_def)

lemma commit_inv:
  assumes inv: "budget_inv s" and b: "b < length (sy_bodies s)"
  shows "budget_inv (commit_body b retained s)"
proof (cases "br_retained (sy_bodies s ! b)")
  case None
  let ?res = "sy_bodies s ! b"
  let ?e = "br_exec ?res" and ?n = "retained_bytes (br_reserved ?res) retained"
  have ok: "body_ok (length (sy_execs s)) ?res" using inv b by (simp add: budget_inv_def)
  then have e: "?e < length (sy_execs s)" and n: "0 \<le> ?n" "?n \<le> br_reserved ?res"
    using retained_bounds by (auto simp: body_ok_def)
  have ex: "exec_inv s ?e" using inv e by (simp add: budget_inv_def)
  then have "0 \<le> ex_bodyLeft (sy_execs s ! ?e)" by (simp add: exec_inv_def exec_ok_def meter_ok_def)
  with n have le: "?n - br_reserved ?res \<le> ex_bodyLeft (sy_execs s ! ?e)" by simp
  have bodies: "body_ok (length (sy_execs s)) c" if "c \<in> set ((sy_bodies s)[b := ?res\<lparr>br_retained := Some ?n\<rparr>])" for c
  proof -
    have "body_ok (length (sy_execs s)) (?res\<lparr>br_retained := Some ?n\<rparr>)" using ok n by (simp add: body_ok_def)
    moreover have "c = ?res\<lparr>br_retained := Some ?n\<rparr> \<or> c \<in> set (sy_bodies s)"
      using that set_update_subset_insert by fast
    ultimately show ?thesis using inv by (auto simp: budget_inv_def)
  qed
  show ?thesis
    using inv e b None bodies exec_ok_body [OF ex [unfolded exec_inv_def] le]
    by (auto simp: commit_body_def Let_def budget_inv_def exec_inv_def nth_list_update body_weight_def algebra_simps)
qed (use assms in \<open>simp add: commit_body_def Let_def\<close>)

lemma reqs_update_exec:
  assumes "\<forall>q \<in> set qs. nq_exec q < n" "r < length qs" "q \<in> set (qs[r := (qs ! r)\<lparr>nq_phase := ph\<rparr>])"
  shows "nq_exec q < n"
  using assms set_update_subset_insert [of qs r "(qs ! r)\<lparr>nq_phase := ph\<rparr>"] by auto

text \<open>A request that changes phase moves the weights of its own execution and kind only.\<close>

lemma phase_inv:
  assumes inv: "budget_inv s" and r: "r < length (sy_reqs s)" and q: "q = sy_reqs s ! r"
    and exec: "exec_ok (ct_limits (sy_ctl s))
        (\<lambda>k. total (target_weight (nq_exec q) k) (sy_reqs s) - target_weight (nq_exec q) k q + target_weight (nq_exec q) k (q\<lparr>nq_phase := ph\<rparr>))
        (\<lambda>k. total (started_weight (nq_exec q) k) (sy_reqs s)) (total (\<lambda>g. of_bool (g = nq_exec q)) (sy_granted s))
        (total (body_weight (nq_exec q)) (sy_bodies s)) ex"
    and active: "active_weight ex = active_weight (sy_execs s ! nq_exec q)"
    and process: "\<And>k. permits_ok (process_permits k c)
        (total (process_weight k) (sy_reqs s) - process_weight k q + process_weight k (q\<lparr>nq_phase := ph\<rparr>))"
    and ctl: "ct_limits c = ct_limits (sy_ctl s)" "ct_targets c = ct_targets (sy_ctl s)"
      "\<And>k. pm_cap (process_permits k c) = pm_cap (process_permits k (sy_ctl s))"
  shows "budget_inv (s\<lparr>sy_ctl := c, sy_execs := (sy_execs s)[nq_exec q := ex], sy_reqs := (sy_reqs s)[r := q\<lparr>nq_phase := ph\<rparr>]\<rparr>)"
proof -
  have e: "nq_exec q < length (sy_execs s)" using inv r q by (simp add: budget_inv_def)
  have other: "target_weight e k (q\<lparr>nq_phase := ph\<rparr>) = target_weight e k q" if "e \<noteq> nq_exec q" for e k
    using that by (simp add: target_weight_def)
  have started: "started_weight e k (q\<lparr>nq_phase := ph\<rparr>) = started_weight e k q" for e k
    by (simp add: started_weight_def)
  show ?thesis
    using inv r e exec active process ctl reqs_update_exec [of "sy_reqs s" "length (sy_execs s)" r _ ph]
    by (auto simp: budget_inv_def exec_inv_def nth_list_update other started q [symmetric])
qed

lemma weights_at:
  "process_weight k q = of_bool (nq_kind q = k \<and> nq_phase q = Held)"
  "target_weight (nq_exec q) k q = of_bool (nq_kind q = k \<and> (nq_phase q = WaitProcess \<or> nq_phase q = Held))"
  "process_weight k (q\<lparr>nq_phase := ph\<rparr>) = of_bool (nq_kind q = k \<and> ph = Held)"
  "target_weight (nq_exec q) k (q\<lparr>nq_phase := ph\<rparr>) = of_bool (nq_kind q = k \<and> (ph = WaitProcess \<or> ph = Held))"
  by (simp_all add: process_weight_def target_weight_def)

lemmas put_defs = put_req_def put_target_permits_def put_process_permits_def

lemma request_facts:
  assumes "budget_inv s" "r < length (sy_reqs s)"
  shows "exec_ok (ct_limits (sy_ctl s)) (\<lambda>k. total (target_weight (nq_exec (sy_reqs s ! r)) k) (sy_reqs s))
      (\<lambda>k. total (started_weight (nq_exec (sy_reqs s ! r)) k) (sy_reqs s))
      (total (\<lambda>g. of_bool (g = nq_exec (sy_reqs s ! r))) (sy_granted s))
      (total (body_weight (nq_exec (sy_reqs s ! r))) (sy_bodies s)) (sy_execs s ! nq_exec (sy_reqs s ! r))"
    "permits_ok (process_permits k (sy_ctl s)) (total (process_weight k) (sy_reqs s))"
  using assms by (auto simp: budget_inv_def exec_inv_def)

text \<open>The account of a request's execution after the request moves to a phase.\<close>

definition phase_account :: "system \<Rightarrow> net_request \<Rightarrow> net_phase \<Rightarrow> execution \<Rightarrow> bool" where
  "phase_account s q ph ex \<longleftrightarrow> exec_ok (ct_limits (sy_ctl s))
     (\<lambda>k. total (target_weight (nq_exec q) k) (sy_reqs s) - target_weight (nq_exec q) k q
        + target_weight (nq_exec q) k (q\<lparr>nq_phase := ph\<rparr>))
     (\<lambda>k. total (started_weight (nq_exec q) k) (sy_reqs s)) (total (\<lambda>g. of_bool (g = nq_exec q)) (sy_granted s))
     (total (body_weight (nq_exec q)) (sy_bodies s)) ex"

lemma target_permit_inv:
  assumes inv: "budget_inv s" and r: "r < length (sy_reqs s)" and ph: "nq_phase (sy_reqs s ! r) = WaitTarget"
    and w: "wait_possible w (target_permits (nq_kind (sy_reqs s ! r)) (sy_execs s ! nq_exec (sy_reqs s ! r)))"
  shows "budget_inv (fst (acquireNetwork_target r ctx w s))"
proof -
  define q where "q = sy_reqs s ! r"
  note facts = request_facts [OF inv r, folded q_def]
  let ?ex = "sy_execs s ! nq_exec q"
  obtain p err where acq: "acquirePermit ctx w (target_permits (nq_kind q) ?ex) = (p, err)" by fastforce
  show ?thesis using acq w [folded q_def]
  proof (cases rule: acquirePermit_cases)
    case granted
    have "phase_account s q WaitProcess (set_target_permits (nq_kind q) p ?ex)"
      using exec_ok_take [OF facts(1) granted(3)] ph by (simp add: phase_account_def weights_at q_def [symmetric] granted(2))
    from phase_inv [OF inv r q_def this [unfolded phase_account_def], of "sy_ctl s"] facts(2) ph acq granted(1)
    show ?thesis by (simp add: acquireNetwork_target_def Let_def put_defs weights_at q_def [symmetric])
  next
    case (failed e)
    have "phase_account s q Done (set_target_permits (nq_kind q) p ?ex)"
      using facts(1) ph by (simp add: phase_account_def weights_at q_def [symmetric] failed(2) exec_ok_def)
    from phase_inv [OF inv r q_def this [unfolded phase_account_def], of "sy_ctl s"] facts(2) ph acq failed(1)
    show ?thesis by (simp add: acquireNetwork_target_def Let_def put_defs weights_at q_def [symmetric])
  qed
qed

lemma process_permit_inv:
  assumes inv: "budget_inv s" and r: "r < length (sy_reqs s)" and ph: "nq_phase (sy_reqs s ! r) = WaitProcess"
    and w: "wait_possible w (process_permits (nq_kind (sy_reqs s ! r)) (sy_ctl s))"
  shows "budget_inv (fst (acquireNetwork_process r ctx w s))"
proof -
  define q where "q = sy_reqs s ! r"
  note facts = request_facts [OF inv r, folded q_def]
  let ?ex = "sy_execs s ! nq_exec q" and ?k = "nq_kind q"
  obtain p err where acq: "acquirePermit ctx w (process_permits ?k (sy_ctl s)) = (p, err)" by fastforce
  show ?thesis using acq w [folded q_def]
  proof (cases rule: acquirePermit_cases)
    case granted
    have "phase_account s q Held ?ex"
      using facts(1) ph by (simp add: phase_account_def weights_at q_def [symmetric])
    from phase_inv [OF inv r q_def this [unfolded phase_account_def], of "set_process_permits ?k p (sy_ctl s)"]
      facts(2) ph acq granted permits_ok_simps(1) [OF facts(2) granted(3)]
    show ?thesis by (simp add: acquireNetwork_process_def Let_def put_defs weights_at q_def [symmetric])
  next
    case (failed e)
    have "phase_account s q Done (set_target_permits ?k (releasePermit (target_permits ?k ?ex)) ?ex)"
      using exec_ok_release [OF facts(1), of ?k] ph by (simp add: phase_account_def weights_at q_def [symmetric])
    from phase_inv [OF inv r q_def this [unfolded phase_account_def], of "set_process_permits ?k p (sy_ctl s)"]
      facts(2) ph acq failed
    show ?thesis by (simp add: acquireNetwork_process_def Let_def put_defs weights_at q_def [symmetric])
  qed
qed

lemma release_network_inv:
  assumes inv: "budget_inv s" and r: "r < length (sy_reqs s)"
  shows "budget_inv (release_network r s)"
proof (cases "nq_phase (sy_reqs s ! r) = Held")
  case True
  define q where "q = sy_reqs s ! r"
  note facts = request_facts [OF inv r, folded q_def]
  let ?ex = "sy_execs s ! nq_exec q" and ?k = "nq_kind q"
  let ?c = "set_process_permits ?k (releasePermit (process_permits ?k (sy_ctl s))) (sy_ctl s)"
  have "phase_account s q Done (set_target_permits ?k (releasePermit (target_permits ?k ?ex)) ?ex)"
    using exec_ok_release [OF facts(1), of ?k] True by (simp add: phase_account_def weights_at q_def [symmetric])
  from phase_inv [OF inv r q_def this [unfolded phase_account_def], of ?c]
    facts(2) True permits_ok_simps(2) [OF facts(2)]
  show ?thesis by (simp add: release_network_def Let_def put_defs weights_at q_def [symmetric])
qed (use assms in \<open>simp add: release_network_def Let_def\<close>)

lemma system_step_inv: "system_step s s' \<Longrightarrow> budget_inv s \<Longrightarrow> budget_inv s'"
  by (induction rule: system_step.induct)
     (simp_all add: wait_inv begin_inv release_target_inv acquire_start_inv target_permit_inv process_permit_inv
        release_network_inv address_inv body_inv commit_inv)

lemma system_steps_inv: "system_step\<^sup>*\<^sup>* s s' \<Longrightarrow> budget_inv s \<Longrightarrow> budget_inv s'"
  by (induction rule: rtranclp_induct) (auto intro: system_step_inv)

lemma release_target_limits [simp]: "ct_limits (sy_ctl (release_target e s)) = ct_limits (sy_ctl s)"
  by (simp add: release_target_def)

lemma step_limits: "system_step s s' \<Longrightarrow> ct_limits (sy_ctl s') = ct_limits (sy_ctl s)"
  by (induction rule: system_step.induct)
     (auto simp: begin_wait_def begin_step_def Begin_def acquire_start_def acquireNetwork_target_def
        acquireNetwork_process_def release_network_def ReserveAddress_def ReserveHTTPBody_def commit_body_def put_defs Let_def
        split: prod.splits option.splits sum.splits if_splits bool.splits)

lemma steps_limits: "system_step\<^sup>*\<^sup>* s s' \<Longrightarrow> ct_limits (sy_ctl s') = ct_limits (sy_ctl s)"
  by (induction rule: rtranclp_induct) (auto simp: step_limits)

section \<open>Properties\<close>

definition started :: "net_kind \<Rightarrow> nat \<Rightarrow> system \<Rightarrow> int" where
  "started k e s = int (length (filter (\<lambda>q. nq_exec q = e \<and> nq_kind q = k) (sy_reqs s)))"

definition bytes_held :: "nat \<Rightarrow> system \<Rightarrow> int" where
  "bytes_held e s = sum_list (map (\<lambda>b. case br_retained b of None \<Rightarrow> br_reserved b | Some n \<Rightarrow> n)
     (filter (\<lambda>b. br_exec b = e) (sy_bodies s)))"

lemma total_of_bool: "total (\<lambda>x. of_bool (P x)) xs = int (length (filter P xs))"
  by (induction xs) (auto simp: total_def)

lemma total_weights:
  "total (started_weight e k) qs = int (length (filter (\<lambda>q. nq_exec q = e \<and> nq_kind q = k) qs))"
  "total (process_weight k) qs = int (length (filter (\<lambda>q. nq_kind q = k \<and> nq_phase q = Held) qs))"
  "total (target_weight e k) qs =
     int (length (filter (\<lambda>q. nq_exec q = e \<and> nq_kind q = k \<and> (nq_phase q = WaitProcess \<or> nq_phase q = Held)) qs))"
  by (induction qs) (auto simp: total_def started_weight_def process_weight_def target_weight_def)

lemma total_active: "total active_weight es = int (length (filter (\<lambda>ex. \<not> ex_released ex) es))"
  by (induction es) (auto simp: total_def active_weight_def)

lemma total_body: "total (body_weight e) bs = sum_list (map (\<lambda>b. case br_retained b of None \<Rightarrow> br_reserved b | Some n \<Rightarrow> n)
     (filter (\<lambda>b. br_exec b = e) bs))"
  by (induction bs) (auto simp: total_def body_weight_def)

text \<open>C11: Whatever the interleaving of admissions, network requests, permit waits, cancellations,
  releases, address and body reservations of any number of targets, no target ever starts
  more DNS attempts or HTTP requests, keeps more addresses, or retains and reserves more body
  bytes than its limits.\<close>

theorem target_budgets_respected:
  assumes "NewController l t d h = Inr c" "system_step\<^sup>*\<^sup>* (new_system c) s" "e < length (sy_execs s)"
  shows "started DNS e s \<le> li_DNSQuestions l \<and> started HTTP e s \<le> li_HTTPRequests l
     \<and> int (length (filter (\<lambda>g. g = e) (sy_granted s))) \<le> li_ResolvedAddresses l
     \<and> 0 \<le> bytes_held e s \<and> bytes_held e s \<le> li_HTTPTotalBodyBytes l"
proof -
  have inv: "budget_inv s" using system_steps_inv [OF assms(2)] new_system_inv [OF assms(1)] by simp
  have lim: "ct_limits (sy_ctl s) = l"
    using steps_limits [OF assms(2)] assms(1) by (auto simp: NewController_def new_system_def split: option.splits if_splits)
  have ex: "exec_inv s e" using inv assms(3) by (simp add: budget_inv_def)
  have st: "started k e s \<le> budget_of k l" for k
  proof -
    have "meter_ok (left_of k (sy_execs s ! e)) (budget_of k l) (total (started_weight e k) (sy_reqs s))"
      using ex lim by (simp add: exec_inv_def exec_ok_def)
    then show ?thesis by (simp add: started_def meter_ok_def total_weights)
  qed
  have "0 \<le> bytes_held e s" using inv
    by (auto simp: bytes_held_def budget_inv_def body_ok_def intro!: sum_list_nonneg split: option.splits)
  moreover from st [of DNS] st [of HTTP]
  have "started DNS e s \<le> li_DNSQuestions l" "started HTTP e s \<le> li_HTTPRequests l" by (simp_all add: budget_of_def)
  ultimately show ?thesis using ex lim
    by (simp add: exec_inv_def exec_ok_def meter_ok_def total_of_bool total_body bytes_held_def)
qed

definition small_controller :: controller where
  "small_controller = \<lparr>ct_limits = DefaultLimits, ct_targets = make_permits 1, ct_dns = make_permits 1,
     ct_http = make_permits 1, ct_targetWaiters = 0\<rparr>"

lemma small_controller: "NewController DefaultLimits 1 1 1 = Inr small_controller"
  by (simp add: NewController_def Limits_Validate_def DefaultLimits_def small_controller_def)

definition one_target :: system where
  "one_target = fst (begin_step None (Granted None) None None (new_system small_controller))"

lemma one_target_step: "system_step\<^sup>*\<^sup>* (new_system small_controller) one_target"
  unfolding one_target_def
  by (rule r_into_rtranclp, rule system_step.admit)
     (simp add: new_system_def small_controller_def wait_possible_def free_permit_def make_permits_def)

lemma one_target_execs: "length (sy_execs one_target) = 1" "sy_reqs one_target = []"
  by (simp_all add: one_target_def begin_step_def Begin_def acquirePermit_def new_system_def Let_def)

theorem target_budgets_respected_witness:
  "0 < length (sy_execs one_target) \<and> started DNS 0 one_target \<le> 512"
  using target_budgets_respected [OF small_controller one_target_step, of 0]
  by (simp add: one_target_execs DefaultLimits_def)

text \<open>The per-target permits are at most the per-target concurrency, and no step changes a
  capacity.\<close>

definition per_target :: "net_kind \<Rightarrow> int" where
  "per_target k = (case k of DNS \<Rightarrow> concurrentDNSPerTarget | HTTP \<Rightarrow> concurrentHTTPPerTarget)"

definition caps_ok :: "system \<Rightarrow> bool" where
  "caps_ok s \<longleftrightarrow> (\<forall>ex \<in> set (sy_execs s). \<forall>k. pm_cap (target_permits k ex) \<le> per_target k)"

lemma caps_ok_put:
  assumes "caps_ok s" "\<And>k. pm_cap (target_permits k ex) = pm_cap (target_permits k (sy_execs s ! e))" "e < length (sy_execs s)"
    and upd: "sy_execs s' = (sy_execs s)[e := ex]"
  shows "caps_ok s'"
  unfolding caps_ok_def
proof
  fix x
  assume "x \<in> set (sy_execs s')"
  then have "x = ex \<or> x \<in> set (sy_execs s)" using set_update_subset_insert [of "sy_execs s" e ex] upd by auto
  then show "\<forall>k. pm_cap (target_permits k x) \<le> per_target k" using assms nth_mem by (auto simp: caps_ok_def)
qed

lemma caps_ok_upd:
  "caps_ok s \<Longrightarrow> e < length (sy_execs s) \<Longrightarrow> (\<And>k. pm_cap (target_permits k ex) = pm_cap (target_permits k (sy_execs s ! e))) \<Longrightarrow>
   caps_ok (s\<lparr>sy_execs := (sy_execs s)[e := ex]\<rparr>)"
  by (rule caps_ok_put) simp_all

lemma caps_ok_fields [simp]:
  "caps_ok (s\<lparr>sy_ctl := c, sy_execs := x\<rparr>) = caps_ok (s\<lparr>sy_execs := x\<rparr>)"
  "caps_ok (s\<lparr>sy_ctl := c\<rparr>) = caps_ok s" "caps_ok (s\<lparr>sy_reqs := q\<rparr>) = caps_ok s" "caps_ok (s\<lparr>sy_bodies := b\<rparr>) = caps_ok s"
  "caps_ok (s\<lparr>sy_granted := g\<rparr>) = caps_ok s"
  by (simp_all add: caps_ok_def)

lemma caps_ok_put_permits [simp]:
  assumes "caps_ok s" "e < length (sy_execs s)" "pm_cap p = pm_cap (target_permits k (sy_execs s ! e))"
  shows "caps_ok (put_target_permits e k p s)"
  using assms by (intro caps_ok_put [OF assms(1) _ assms(2)]) (auto simp: put_target_permits_def)

lemma caps_ok_puts [simp]: "caps_ok (put_req r ph s) = caps_ok s" "caps_ok (put_process_permits k p s) = caps_ok s"
  by (simp_all add: put_req_def put_process_permits_def)

lemma put_fields [simp]:
  "sy_execs (put_req r ph s) = sy_execs s" "sy_execs (put_process_permits k p s) = sy_execs s"
  "sy_ctl (put_req r ph s) = sy_ctl s" "sy_ctl (put_target_permits e k p s) = sy_ctl s"
  by (simp_all add: put_defs)

lemma acquirePermit_cap: "acquirePermit ctx w p = (p', err) \<Longrightarrow> pm_cap p' = pm_cap p"
  by (auto simp: acquirePermit_def split: option.splits wait_end.splits)

lemma begin_caps: "caps_ok s \<Longrightarrow> caps_ok (fst (begin_step before w after synchronous s))"
  by (auto simp: begin_step_def Begin_def Let_def caps_ok_def target_permits_def make_permits_def per_target_def
      split: prod.splits option.splits sum.splits net_kind.splits)

lemma caps_ok_step:
  assumes "system_step s s'" "budget_inv s" "caps_ok s"
  shows "caps_ok s'"
  using assms
proof (induction rule: system_step.induct)
  case (target_permit r s w ctx)
  then have "nq_exec (sy_reqs s ! r) < length (sy_execs s)" by (simp add: budget_inv_def)
  with target_permit show ?case
    by (auto simp: acquireNetwork_target_def Let_def split: prod.splits option.splits dest: acquirePermit_cap)
next
  case (process_permit r s w ctx)
  then have "nq_exec (sy_reqs s ! r) < length (sy_execs s)" by (simp add: budget_inv_def)
  with process_permit show ?case by (auto simp: acquireNetwork_process_def Let_def split: prod.splits option.splits)
next
  case (release r s)
  then have "nq_exec (sy_reqs s ! r) < length (sy_execs s)" by (simp add: budget_inv_def)
  with release show ?case by (auto simp: release_network_def Let_def)
next
  case (commit b s retained)
  then have "br_exec (sy_bodies s ! b) < length (sy_execs s)" by (simp add: budget_inv_def body_ok_def)
  with commit show ?case by (auto simp: commit_body_def Let_def intro!: caps_ok_upd)
qed (auto simp: begin_caps release_target_def acquire_start_def ReserveAddress_def ReserveHTTPBody_def
      intro!: caps_ok_upd split: prod.splits bool.splits)

lemma caps_ok_steps: "system_step\<^sup>*\<^sup>* s s' \<Longrightarrow> budget_inv s \<Longrightarrow> caps_ok s \<Longrightarrow> caps_ok s'"
  by (induction rule: rtranclp_induct) (auto intro: caps_ok_step system_steps_inv)

lemma process_caps_step:
  "system_step s s' \<Longrightarrow> pm_cap (ct_targets (sy_ctl s')) = pm_cap (ct_targets (sy_ctl s))
     \<and> (\<forall>k. pm_cap (process_permits k (sy_ctl s')) = pm_cap (process_permits k (sy_ctl s)))"
  by (induction rule: system_step.induct)
     (auto simp: begin_wait_def begin_step_def Begin_def acquire_start_def acquireNetwork_target_def release_target_def
        acquireNetwork_process_def release_network_def ReserveAddress_def ReserveHTTPBody_def commit_body_def put_defs Let_def
        dest: acquirePermit_cap split: prod.splits option.splits sum.splits if_splits bool.splits)

lemma process_caps_steps:
  "system_step\<^sup>*\<^sup>* s s' \<Longrightarrow> pm_cap (ct_targets (sy_ctl s')) = pm_cap (ct_targets (sy_ctl s))
     \<and> (\<forall>k. pm_cap (process_permits k (sy_ctl s')) = pm_cap (process_permits k (sy_ctl s)))"
  by (induction rule: rtranclp_induct) (auto simp: process_caps_step)

lemma target_share:
  assumes inv: "budget_inv s" and caps: "caps_ok s" and e: "e < length (sy_execs s)"
  shows "int (length (filter (\<lambda>q. nq_exec q = e \<and> nq_kind q = k \<and> nq_phase q = Held) (sy_reqs s))) \<le> per_target k"
proof -
  have "permits_ok (target_permits k (sy_execs s ! e)) (total (target_weight e k) (sy_reqs s))"
    using inv e by (simp add: budget_inv_def exec_inv_def exec_ok_def)
  moreover have "pm_cap (target_permits k (sy_execs s ! e)) \<le> per_target k" using caps e by (simp add: caps_ok_def)
  moreover have le: "length (filter (\<lambda>q. nq_exec q = e \<and> nq_kind q = k \<and> nq_phase q = Held) qs)
      \<le> length (filter (\<lambda>q. nq_exec q = e \<and> nq_kind q = k \<and> (nq_phase q = WaitProcess \<or> nq_phase q = Held)) qs)" for qs
    by (induction qs) auto
  ultimately show ?thesis using le [of "sy_reqs s"] unfolding permits_ok_def total_weights by linarith
qed

text \<open>C31: At every moment at most the configured number of targets is active, at most the
  configured number of DNS and HTTP requests holds a process permit, and no single target
  occupies more than eight DNS or four HTTP permits.\<close>

theorem concurrency_bounded:
  assumes "NewController l t d h = Inr c" "system_step\<^sup>*\<^sup>* (new_system c) s"
  shows "int (length (filter (\<lambda>ex. \<not> ex_released ex) (sy_execs s))) \<le> t
     \<and> int (length (filter (\<lambda>q. nq_kind q = DNS \<and> nq_phase q = Held) (sy_reqs s))) \<le> d
     \<and> int (length (filter (\<lambda>q. nq_kind q = HTTP \<and> nq_phase q = Held) (sy_reqs s))) \<le> h
     \<and> list_all (\<lambda>e. int (length (filter (\<lambda>q. nq_exec q = e \<and> nq_kind q = DNS \<and> nq_phase q = Held) (sy_reqs s))) \<le> 8
          \<and> int (length (filter (\<lambda>q. nq_exec q = e \<and> nq_kind q = HTTP \<and> nq_phase q = Held) (sy_reqs s))) \<le> 4)
        [0..<length (sy_execs s)]"
proof -
  have inv: "budget_inv s" using system_steps_inv [OF assms(2)] new_system_inv [OF assms(1)] by simp
  have c: "pm_cap (ct_targets c) = t" "pm_cap (process_permits DNS c) = d" "pm_cap (process_permits HTTP c) = h"
    using assms(1) by (auto simp: NewController_def process_permits_def make_permits_def split: option.splits if_splits)
  have cap: "pm_cap (ct_targets (sy_ctl s)) = t" "pm_cap (process_permits DNS (sy_ctl s)) = d" "pm_cap (process_permits HTTP (sy_ctl s)) = h"
    using process_caps_steps [OF assms(2)] c by (simp_all add: new_system_def)
  have process: "int (length (filter (\<lambda>q. nq_kind q = k \<and> nq_phase q = Held) (sy_reqs s))) \<le> pm_cap (process_permits k (sy_ctl s))" for k
  proof -
    have "permits_ok (process_permits k (sy_ctl s)) (total (process_weight k) (sy_reqs s))" using inv by (simp add: budget_inv_def)
    then show ?thesis by (simp add: permits_ok_def total_weights)
  qed
  have target: "int (length (filter (\<lambda>q. nq_exec q = e \<and> nq_kind q = k \<and> nq_phase q = Held) (sy_reqs s))) \<le> per_target k"
    if "e < length (sy_execs s)" for e k
    using target_share [OF inv _ that] caps_ok_steps [OF assms(2)] new_system_inv [OF assms(1)]
    by (simp add: caps_ok_def new_system_def)
  show ?thesis
    using inv process [of DNS] process [of HTTP] cap target [of _ DNS] target [of _ HTTP]
    by (auto simp: budget_inv_def permits_ok_def total_active list_all_iff per_target_def concurrentDNSPerTarget_def
        concurrentHTTPPerTarget_def)
qed

theorem concurrency_bounded_witness:
  "int (length (filter (\<lambda>ex. \<not> ex_released ex) (sy_execs one_target))) \<le> 1"
  using concurrency_bounded [OF small_controller one_target_step] by simp

end
