(* ===== verification/Policy_Gate.thy ===== *)
theory Policy_Gate
  imports Policy_Budget
begin

text \<open>
  The rate gate of internal/policy/budget.go: \<open>acquireDestination\<close> spaces the HTTP requests
  to one destination. Gates are objects shared through a map that is pruned while others
  hold pointers into it, so they live in a heap of their own and the map holds indices. The
  critical sections under \<open>destinationMu\<close>, the waits and the deferred releases are separate
  steps. A zero \<open>lastStart\<close> is None. The log of starts is not in the source.
\<close>

section \<open>Model\<close>

record destination_gate =
  dg_permit :: permits
  dg_lastStart :: "gotime option"
  dg_references :: int

text \<open>Where one call is: waiting for the gate's permit, holding it, waiting until its start time,
  waiting for the network permits, running the deferred \<open>releaseReference\<close> or
  \<open>releasePermit\<close>, or returned.\<close>

datatype gate_phase = WaitGate | InGate | WaitStart "gotime option" | WaitNetwork | Unref | Unpermit | Returned

record gate_call =
  gc_destination :: string
  gc_gate :: nat
  gc_phase :: gate_phase

record gates =
  gs_now :: gotime
  gs_interval :: duration
  gs_heap :: "destination_gate list"
  gs_destinations :: "string \<rightharpoonup> nat"
  gs_calls :: "gate_call list"
  gs_starts :: "(string \<times> gotime) list"

definition new_gates :: "controller \<Rightarrow> gotime \<Rightarrow> gates" where
  "new_gates c now = \<lparr>gs_now = now, gs_interval = li_HTTPDestinationInterval (ct_limits c), gs_heap = [],
     gs_destinations = Map.empty, gs_calls = [], gs_starts = []\<rparr>"

text \<open>The first time a gate lets the next request start.\<close>

definition next_start :: "duration \<Rightarrow> destination_gate \<Rightarrow> gotime option" where
  "next_start interval g = map_option (\<lambda>t. t + interval) (dg_lastStart g)"

definition reached :: "gotime option \<Rightarrow> gotime \<Rightarrow> bool" where
  "reached start now = (case start of None \<Rightarrow> True | Some t \<Rightarrow> t \<le> now)"

definition stale_gate :: "gates \<Rightarrow> nat \<Rightarrow> bool" where
  "stale_gate s i = (dg_references (gs_heap s ! i) = 0 \<and> reached (next_start (gs_interval s) (gs_heap s ! i)) (gs_now s))"

definition prune_destinations :: "gates \<Rightarrow> gates" where
  "prune_destinations s = s\<lparr>gs_destinations := (\<lambda>d. case gs_destinations s d of
       None \<Rightarrow> None | Some i \<Rightarrow> if stale_gate s i then None else Some i)\<rparr>"

definition put_gate :: "nat \<Rightarrow> destination_gate \<Rightarrow> gates \<Rightarrow> gates" where
  "put_gate i g s = s\<lparr>gs_heap := (gs_heap s)[i := g]\<rparr>"

definition put_call :: "nat \<Rightarrow> gate_phase \<Rightarrow> gates \<Rightarrow> gates" where
  "put_call r ph s = s\<lparr>gs_calls := (gs_calls s)[r := (gs_calls s ! r)\<lparr>gc_phase := ph\<rparr>]\<rparr>"

definition find_or_make_gate :: "string \<Rightarrow> gates \<Rightarrow> gates \<times> nat" where
  "find_or_make_gate destination s =
     (case gs_destinations s destination of
        Some i \<Rightarrow> (s, i)
      | None \<Rightarrow>
          (s\<lparr>gs_heap := gs_heap s @ [\<lparr>dg_permit = make_permits 1, dg_lastStart = None, dg_references = 0\<rparr>],
             gs_destinations := (gs_destinations s)(destination \<mapsto> length (gs_heap s))\<rparr>, length (gs_heap s)))"

text \<open>The first critical section: prune, look the gate up or create it, count the reference.\<close>

definition enter_gate :: "string \<Rightarrow> gates \<Rightarrow> gates \<times> go_error option" where
  "enter_gate destination s =
     (if destination = [] then (s, Some (Errorf ''HTTP destination key is required''))
      else case find_or_make_gate destination (prune_destinations s) of
        (s, i) \<Rightarrow>
          (let s = put_gate i ((gs_heap s ! i)\<lparr>dg_references := dg_references (gs_heap s ! i) + 1\<rparr>) s in
           (s\<lparr>gs_calls := gs_calls s @ [\<lparr>gc_destination = destination, gc_gate = i, gc_phase = WaitGate\<rparr>]\<rparr>, None)))"

definition call_gate :: "nat \<Rightarrow> gates \<Rightarrow> destination_gate" where
  "call_gate r s = gs_heap s ! gc_gate (gs_calls s ! r)"

definition set_call_gate :: "nat \<Rightarrow> destination_gate \<Rightarrow> gates \<Rightarrow> gates" where
  "set_call_gate r g s = put_gate (gc_gate (gs_calls s ! r)) g s"

definition releaseReference :: "destination_gate \<Rightarrow> destination_gate" where
  "releaseReference g = g\<lparr>dg_references := dg_references g - 1\<rparr>"

definition gate_permit :: "nat \<Rightarrow> go_error option \<Rightarrow> wait_end \<Rightarrow> gates \<Rightarrow> gates \<times> go_error option" where
  "gate_permit r ctx w s =
     (case acquirePermit ctx w (dg_permit (call_gate r s)) of
        (p, Some e) \<Rightarrow> (put_call r Returned (set_call_gate r (releaseReference ((call_gate r s)\<lparr>dg_permit := p\<rparr>)) s), Some e)
      | (p, None) \<Rightarrow> (put_call r InGate (set_call_gate r ((call_gate r s)\<lparr>dg_permit := p\<rparr>) s), None))"

definition gate_read_start :: "nat \<Rightarrow> gates \<Rightarrow> gates" where
  "gate_read_start r s = put_call r (WaitStart (next_start (gs_interval s) (call_gate r s))) s"

text \<open>The timer and the context check after it: the call goes on once its start time is reached
  and the context is alive, and returns otherwise.\<close>

definition gate_timer :: "nat \<Rightarrow> go_error option \<Rightarrow> gates \<Rightarrow> gates" where
  "gate_timer r ctx s = put_call r (case ctx of None \<Rightarrow> WaitNetwork | Some _ \<Rightarrow> Unref) s"

definition gate_network :: "nat \<Rightarrow> go_error option \<Rightarrow> gates \<Rightarrow> gates" where
  "gate_network r err s =
     (case err of
        Some _ \<Rightarrow> put_call r Unref s
      | None \<Rightarrow>
          (let s = put_call r Unref (set_call_gate r ((call_gate r s)\<lparr>dg_lastStart := Some (gs_now s)\<rparr>) s) in
           s\<lparr>gs_starts := gs_starts s @ [(gc_destination (gs_calls s ! r), gs_now s)]\<rparr>))"

definition gate_unref :: "nat \<Rightarrow> gates \<Rightarrow> gates" where
  "gate_unref r s = put_call r Unpermit (set_call_gate r (releaseReference (call_gate r s)) s)"

definition gate_unpermit :: "nat \<Rightarrow> gates \<Rightarrow> gates" where
  "gate_unpermit r s =
     put_call r Returned (set_call_gate r ((call_gate r s)\<lparr>dg_permit := releasePermit (dg_permit (call_gate r s))\<rparr>) s)"

section \<open>Steps\<close>

definition in_phase :: "nat \<Rightarrow> gate_phase \<Rightarrow> gates \<Rightarrow> bool" where
  "in_phase r ph s = (r < length (gs_calls s) \<and> gc_phase (gs_calls s ! r) = ph)"

inductive gate_step :: "gates \<Rightarrow> gates \<Rightarrow> bool" where
  time: "gs_now s \<le> now \<Longrightarrow> gate_step s (s\<lparr>gs_now := now\<rparr>)"
| enter: "gate_step s (fst (enter_gate destination s))"
| permit: "in_phase r WaitGate s \<Longrightarrow> wait_possible w (dg_permit (call_gate r s)) \<Longrightarrow> gate_step s (fst (gate_permit r ctx w s))"
| read_start: "in_phase r InGate s \<Longrightarrow> gate_step s (gate_read_start r s)"
| timer: "in_phase r (WaitStart start) s \<Longrightarrow> reached start (gs_now s) \<Longrightarrow> gate_step s (gate_timer r ctx s)"
| cancelled: "in_phase r (WaitStart start) s \<Longrightarrow> gate_step s (gate_timer r (Some e) s)"
| network: "in_phase r WaitNetwork s \<Longrightarrow> gate_step s (gate_network r err s)"
| unref: "in_phase r Unref s \<Longrightarrow> gate_step s (gate_unref r s)"
| unpermit: "in_phase r Unpermit s \<Longrightarrow> gate_step s (gate_unpermit r s)"

section \<open>Invariant\<close>

definition referencing :: "gate_phase \<Rightarrow> bool" where
  "referencing ph = (case ph of Unpermit \<Rightarrow> False | Returned \<Rightarrow> False | _ \<Rightarrow> True)"

definition permitted :: "gate_phase \<Rightarrow> bool" where
  "permitted ph = (case ph of WaitGate \<Rightarrow> False | Returned \<Rightarrow> False | _ \<Rightarrow> True)"

definition ref_weight :: "nat \<Rightarrow> gate_call \<Rightarrow> int" where
  "ref_weight i c = of_bool (gc_gate c = i \<and> referencing (gc_phase c))"

definition permit_weight :: "nat \<Rightarrow> gate_call \<Rightarrow> int" where
  "permit_weight i c = of_bool (gc_gate c = i \<and> permitted (gc_phase c))"

definition gate_ok :: "gates \<Rightarrow> nat \<Rightarrow> bool" where
  "gate_ok s i \<longleftrightarrow> dg_references (gs_heap s ! i) = total (ref_weight i) (gs_calls s)
     \<and> permits_ok (dg_permit (gs_heap s ! i)) (total (permit_weight i) (gs_calls s)) \<and> pm_cap (dg_permit (gs_heap s ! i)) = 1"

definition call_ok :: "gates \<Rightarrow> gate_call \<Rightarrow> bool" where
  "call_ok s c \<longleftrightarrow> gc_gate c < length (gs_heap s)
     \<and> (referencing (gc_phase c) \<longrightarrow> gs_destinations s (gc_destination c) = Some (gc_gate c))
     \<and> (\<forall>st. gc_phase c = WaitStart st \<longrightarrow> st = next_start (gs_interval s) (gs_heap s ! gc_gate c))
     \<and> (gc_phase c = WaitNetwork \<longrightarrow> reached (next_start (gs_interval s) (gs_heap s ! gc_gate c)) (gs_now s))"

text \<open>A start at time \<open>t\<close> is remembered by the current gate of its destination or is old enough.\<close>

definition start_ok :: "gates \<Rightarrow> string \<times> gotime \<Rightarrow> bool" where
  "start_ok s st \<longleftrightarrow> snd st + gs_interval s \<le> gs_now s
     \<or> (\<exists>i t. gs_destinations s (fst st) = Some i \<and> dg_lastStart (gs_heap s ! i) = Some t \<and> snd st \<le> t)"

definition spaced :: "duration \<Rightarrow> (string \<times> gotime) list \<Rightarrow> bool" where
  "spaced interval = sorted_wrt (\<lambda>a b. fst a = fst b \<longrightarrow> snd a + interval \<le> snd b)"

definition gates_inv :: "gates \<Rightarrow> bool" where
  "gates_inv s \<longleftrightarrow> (\<forall>i < length (gs_heap s). gate_ok s i) \<and> (\<forall>c \<in> set (gs_calls s). call_ok s c)
     \<and> (\<forall>d i. gs_destinations s d = Some i \<longrightarrow> i < length (gs_heap s))
     \<and> (\<forall>d d' i. gs_destinations s d = Some i \<longrightarrow> gs_destinations s d' = Some i \<longrightarrow> d = d')
     \<and> (\<forall>st \<in> set (gs_starts s). start_ok s st) \<and> spaced (gs_interval s) (gs_starts s)"

lemma gates_invD:
  assumes "gates_inv s"
  shows "i < length (gs_heap s) \<Longrightarrow> gate_ok s i" "c \<in> set (gs_calls s) \<Longrightarrow> call_ok s c"
    "gs_destinations s d = Some i \<Longrightarrow> i < length (gs_heap s)"
    "gs_destinations s d = Some i \<Longrightarrow> gs_destinations s d' = Some i \<Longrightarrow> d = d'"
    "st \<in> set (gs_starts s) \<Longrightarrow> start_ok s st" "spaced (gs_interval s) (gs_starts s)"
  using assms unfolding gates_inv_def by blast+

lemma total_member:
  assumes "x \<in> set xs" "\<And>y. 0 \<le> f y"
  shows "f x \<le> total f xs"
  using assms(1)
proof (induction xs)
  case (Cons y ys)
  have "0 \<le> total f ys" using assms(2) by (intro total_nonneg)
  with Cons assms(2) [of y] show ?case by (auto simp: total_def)
qed simp

lemma last_update:
  assumes "dg_lastStart g = dg_lastStart (xs ! i)"
  shows "dg_lastStart (xs[i := g] ! k) = dg_lastStart (xs ! k)" "next_start n (xs[i := g] ! k) = next_start n (xs ! k)"
proof -
  show "dg_lastStart (xs[i := g] ! k) = dg_lastStart (xs ! k)"
    using assms by (cases "k = i"; cases "i < length xs") (auto simp: list_update_beyond)
  then show "next_start n (xs[i := g] ! k) = next_start n (xs ! k)" by (simp add: next_start_def)
qed

lemma weight_other:
  "gc_gate c \<noteq> i \<Longrightarrow> ref_weight i c = 0" "gc_gate c \<noteq> i \<Longrightarrow> permit_weight i c = 0"
  by (simp_all add: ref_weight_def permit_weight_def)

text \<open>Two calls of one gate are never both inside it.\<close>

lemma permit_exclusive:
  assumes inv: "gates_inv s" and r: "r < length (gs_calls s)" and r': "r' < length (gs_calls s)" and ne: "r \<noteq> r'"
    and same: "gc_gate (gs_calls s ! r') = gc_gate (gs_calls s ! r)" and p: "permitted (gc_phase (gs_calls s ! r))"
  shows "\<not> permitted (gc_phase (gs_calls s ! r'))"
proof
  assume p': "permitted (gc_phase (gs_calls s ! r'))"
  let ?i = "gc_gate (gs_calls s ! r)"
  let ?cs = "(gs_calls s)[r := (gs_calls s ! r)\<lparr>gc_phase := Returned\<rparr>, r' := (gs_calls s ! r')\<lparr>gc_phase := Returned\<rparr>]"
  have one: "permit_weight ?i (gs_calls s ! r) = 1" "permit_weight ?i (gs_calls s ! r') = 1"
    "permit_weight ?i (c\<lparr>gc_phase := Returned\<rparr>) = 0" for c
    using p p' same by (simp_all add: permit_weight_def) (simp add: permitted_def)
  have "0 \<le> total (permit_weight ?i) ?cs" by (rule total_nonneg) (simp add: permit_weight_def)
  then have "2 \<le> total (permit_weight ?i) (gs_calls s)" using r r' ne one by simp
  moreover have "gate_ok s ?i" using gates_invD(1,2) [OF inv] r by (simp add: call_ok_def)
  ultimately show False by (simp add: gate_ok_def permits_ok_def)
qed

lemma phase_simps [simp]:
  "referencing WaitGate" "referencing InGate" "referencing (WaitStart st)" "referencing WaitNetwork" "referencing Unref"
  "\<not> referencing Unpermit" "\<not> referencing Returned"
  "\<not> permitted WaitGate" "permitted InGate" "permitted (WaitStart st)" "permitted WaitNetwork" "permitted Unref"
  "permitted Unpermit" "\<not> permitted Returned"
  by (simp_all add: referencing_def permitted_def)

lemma move_inv:
  assumes inv: "gates_inv s" and r: "r < length (gs_calls s)" and c: "c = gs_calls s ! r"
    and refs: "dg_references g' = dg_references (gs_heap s ! gc_gate c) - of_bool (referencing (gc_phase c)) + of_bool (referencing ph)"
    and perm: "permits_ok (dg_permit g') (total (permit_weight (gc_gate c)) (gs_calls s)
        - of_bool (permitted (gc_phase c)) + of_bool (permitted ph))" "pm_cap (dg_permit g') = 1"
    and last: "dg_lastStart g' = dg_lastStart (gs_heap s ! gc_gate c)"
    and ref: "referencing ph \<Longrightarrow> referencing (gc_phase c)"
    and own: "\<And>st. ph = WaitStart st \<Longrightarrow> st = next_start (gs_interval s) (gs_heap s ! gc_gate c)"
      "ph = WaitNetwork \<Longrightarrow> reached (next_start (gs_interval s) (gs_heap s ! gc_gate c)) (gs_now s)"
  shows "gates_inv (s\<lparr>gs_heap := (gs_heap s)[gc_gate c := g'], gs_calls := (gs_calls s)[r := c\<lparr>gc_phase := ph\<rparr>]\<rparr>)"
    (is "gates_inv ?s")
proof -
  let ?i = "gc_gate c"
  have cok: "call_ok s c" using gates_invD(2) [OF inv] r c by simp
  then have i: "?i < length (gs_heap s)" by (simp add: call_ok_def)
  have "gate_ok ?s k" if "k < length (gs_heap s)" for k
  proof (cases "k = ?i")
    case True
    have "gate_ok s ?i" using gates_invD(1) [OF inv] i by simp
    then show ?thesis using True i r perm refs
      by (simp add: gate_ok_def c [symmetric] ref_weight_def permit_weight_def)
  next
    case False
    have "gate_ok s k" using gates_invD(1) [OF inv] that by simp
    then show ?thesis using False r by (simp add: gate_ok_def c [symmetric] weight_other)
  qed
  moreover have "call_ok ?s x" if "x \<in> set (gs_calls ?s)" for x
  proof -
    from that set_update_subset_insert [of "gs_calls s" r] have "x = c\<lparr>gc_phase := ph\<rparr> \<or> x \<in> set (gs_calls s)" by fastforce
    then show ?thesis
    proof
      assume "x = c\<lparr>gc_phase := ph\<rparr>"
      with cok ref own show ?thesis by (auto simp: call_ok_def last_update [OF last] simp del: nth_list_update_eq)
    next
      assume "x \<in> set (gs_calls s)"
      then have "call_ok s x" using gates_invD(2) [OF inv] by simp
      then show ?thesis by (auto simp: call_ok_def last_update [OF last])
    qed
  qed
  moreover have "start_ok ?s st" if "st \<in> set (gs_starts s)" for st
  proof -
    have "start_ok s st" using gates_invD(5) [OF inv that] .
    then show ?thesis by (auto simp: start_ok_def last_update [OF last])
  qed
  ultimately show ?thesis
    using inv by (auto simp: gates_inv_def)
qed

lemma gate_ok_of:
  assumes "gates_inv s" "r < length (gs_calls s)"
  shows "gate_ok s (gc_gate (gs_calls s ! r))" "call_ok s (gs_calls s ! r)"
  using gates_invD(1,2) [OF assms(1)] assms(2) by (auto simp: call_ok_def)

lemma permits_ok_at:
  "gate_ok s (gc_gate c) \<Longrightarrow> permits_ok (dg_permit (gs_heap s ! gc_gate c)) (total (permit_weight (gc_gate c)) (gs_calls s))"
  "gate_ok s (gc_gate c) \<Longrightarrow> pm_cap (dg_permit (gs_heap s ! gc_gate c)) = 1"
  by (simp_all add: gate_ok_def)

lemmas gate_puts = put_gate_def put_call_def call_gate_def set_call_gate_def in_phase_def releaseReference_def

text \<open>A step that changes only the phase.\<close>

lemma phase_only_inv:
  assumes inv: "gates_inv s" and r: "in_phase r ph0 s"
    and ref: "referencing ph = referencing ph0" "permitted ph = permitted ph0"
    and own: "\<And>st. ph = WaitStart st \<Longrightarrow> st = next_start (gs_interval s) (call_gate r s)"
      "ph = WaitNetwork \<Longrightarrow> reached (next_start (gs_interval s) (call_gate r s)) (gs_now s)"
  shows "gates_inv (put_call r ph s)"
proof -
  have r': "r < length (gs_calls s)" and ph: "gc_phase (gs_calls s ! r) = ph0" using r by (auto simp: in_phase_def)
  note ok = gate_ok_of [OF inv r']
  from move_inv [OF inv r' refl, of "gs_heap s ! gc_gate (gs_calls s ! r)" ph] ok(1) ref own
  show ?thesis by (auto simp: gate_ok_def ph put_call_def call_gate_def)
qed

lemma gate_permit_inv:
  assumes inv: "gates_inv s" and r: "in_phase r WaitGate s" and w: "wait_possible w (dg_permit (call_gate r s))"
  shows "gates_inv (fst (gate_permit r ctx w s))"
proof -
  have r': "r < length (gs_calls s)" and ph: "gc_phase (gs_calls s ! r) = WaitGate" using r by (auto simp: in_phase_def)
  note ok = gate_ok_of [OF inv r']
  let ?c = "gs_calls s ! r"
  let ?g = "gs_heap s ! gc_gate ?c"
  obtain p err where acq: "acquirePermit ctx w (dg_permit ?g) = (p, err)" by fastforce
  show ?thesis using acq w [unfolded call_gate_def]
  proof (cases rule: acquirePermit_cases)
    case granted
    from permits_ok_simps(1) [OF permits_ok_at(1) [OF ok(1)] granted(3)] permits_ok_at(2) [OF ok(1)]
      move_inv [OF inv r' refl, of "?g\<lparr>dg_permit := p\<rparr>" InGate] ph acq granted
    show ?thesis by (simp add: gate_permit_def gate_puts)
  next
    case (failed e)
    from permits_ok_at [OF ok(1)] move_inv [OF inv r' refl, of "releaseReference (?g\<lparr>dg_permit := p\<rparr>)" Returned] ph acq failed
    show ?thesis by (simp add: gate_permit_def gate_puts)
  qed
qed

lemma gate_unref_inv:
  assumes inv: "gates_inv s" and r: "in_phase r Unref s"
  shows "gates_inv (gate_unref r s)"
proof -
  have r': "r < length (gs_calls s)" and ph: "gc_phase (gs_calls s ! r) = Unref" using r by (auto simp: in_phase_def)
  note ok = gate_ok_of [OF inv r']
  from permits_ok_at [OF ok(1)] move_inv [OF inv r' refl, of "releaseReference (gs_heap s ! gc_gate (gs_calls s ! r))" Unpermit] ph r'
  show ?thesis by (simp add: gate_unref_def gate_puts)
qed

lemma gate_unpermit_inv:
  assumes inv: "gates_inv s" and r: "in_phase r Unpermit s"
  shows "gates_inv (gate_unpermit r s)"
proof -
  have r': "r < length (gs_calls s)" and ph: "gc_phase (gs_calls s ! r) = Unpermit" using r by (auto simp: in_phase_def)
  note ok = gate_ok_of [OF inv r']
  let ?g = "gs_heap s ! gc_gate (gs_calls s ! r)"
  from permits_ok_simps(2) [OF permits_ok_at(1) [OF ok(1)]] permits_ok_at(2) [OF ok(1)]
    move_inv [OF inv r' refl, of "?g\<lparr>dg_permit := releasePermit (dg_permit ?g)\<rparr>" Returned] ph r'
  show ?thesis by (simp add: gate_unpermit_def gate_puts)
qed

lemma time_inv:
  assumes "gates_inv s" "gs_now s \<le> now"
  shows "gates_inv (s\<lparr>gs_now := now\<rparr>)"
proof -
  have "call_ok (s\<lparr>gs_now := now\<rparr>) c" if "call_ok s c" for c
    using that assms(2) by (auto simp: call_ok_def reached_def split: option.splits)
  moreover have "start_ok (s\<lparr>gs_now := now\<rparr>) st" if "start_ok s st" for st
    using that assms(2) by (auto simp: start_ok_def)
  ultimately show ?thesis using assms(1) by (simp add: gates_inv_def gate_ok_def)
qed

lemma prune_inv:
  assumes inv: "gates_inv s"
  shows "gates_inv (prune_destinations s)"
proof -
  have kept: "gs_destinations s d = Some i \<and> \<not> stale_gate s i" if "gs_destinations (prune_destinations s) d = Some i" for d i
    using that by (auto simp: prune_destinations_def split: option.splits if_splits)
  have "call_ok (prune_destinations s) c" if c: "c \<in> set (gs_calls s)" for c
  proof -
    have ok: "call_ok s c" using gates_invD(2) [OF inv c] .
    have "\<not> stale_gate s (gc_gate c)" if ref: "referencing (gc_phase c)"
    proof
      assume "stale_gate s (gc_gate c)"
      moreover have "dg_references (gs_heap s ! gc_gate c) = total (ref_weight (gc_gate c)) (gs_calls s)"
        using ok gates_invD(1) [OF inv] by (simp add: call_ok_def gate_ok_def)
      moreover have "1 \<le> total (ref_weight (gc_gate c)) (gs_calls s)"
        using total_member [OF c, of "ref_weight (gc_gate c)"] ref by (simp add: ref_weight_def)
      ultimately show False by (simp add: stale_gate_def)
    qed
    with ok show ?thesis by (auto simp: call_ok_def prune_destinations_def)
  qed
  moreover have "start_ok (prune_destinations s) st" if "st \<in> set (gs_starts s)" for st
    using gates_invD(5) [OF inv that]
    by (auto simp: start_ok_def prune_destinations_def stale_gate_def reached_def next_start_def split: option.splits)
  moreover have "gate_ok (prune_destinations s) i \<longleftrightarrow> gate_ok s i" for i by (simp add: gate_ok_def prune_destinations_def)
  moreover have "gs_heap (prune_destinations s) = gs_heap s" "gs_calls (prune_destinations s) = gs_calls s"
    "gs_starts (prune_destinations s) = gs_starts s" "gs_interval (prune_destinations s) = gs_interval s"
    by (simp_all add: prune_destinations_def)
  moreover have "d = d'" if "gs_destinations (prune_destinations s) d = Some i" "gs_destinations (prune_destinations s) d' = Some i" for d d' i
    using gates_invD(4) [OF inv] kept that by blast
  moreover have "i < length (gs_heap s)" if "gs_destinations (prune_destinations s) d = Some i" for d i
    using gates_invD(3) [OF inv] kept that by blast
  ultimately show ?thesis using gates_invD [OF inv] unfolding gates_inv_def by simp
qed

text \<open>A call enters the gate of its destination, created when there is none.\<close>

lemma find_or_make_inv:
  assumes inv: "gates_inv s" and eq: "find_or_make_gate d s = (s', i)"
  shows "gates_inv s' \<and> gs_destinations s' d = Some i"
proof (cases "gs_destinations s d")
  case (Some j)
  with eq inv show ?thesis by (auto simp: find_or_make_gate_def)
next
  case None
  let ?n = "length (gs_heap s)"
  have s': "s' = s\<lparr>gs_heap := gs_heap s @ [\<lparr>dg_permit = make_permits 1, dg_lastStart = None, dg_references = 0\<rparr>],
      gs_destinations := (gs_destinations s)(d \<mapsto> ?n)\<rparr>" and i: "i = ?n"
    using eq None by (auto simp: find_or_make_gate_def)
  have fresh: "gc_gate c \<noteq> ?n" if "c \<in> set (gs_calls s)" for c
    using gates_invD(2) [OF inv that] by (auto simp: call_ok_def)
  then have "total (ref_weight ?n) (gs_calls s) = 0" "total (permit_weight ?n) (gs_calls s) = 0"
    by (auto intro!: total_fresh simp: weight_other)
  then have gates: "gate_ok s' k" if "k < length (gs_heap s')" for k
  proof (cases "k = ?n")
    case False
    with that have "k < ?n" by (simp add: s')
    with gates_invD(1) [OF inv this] show ?thesis by (simp add: s' gate_ok_def nth_append)
  qed (use \<open>total (ref_weight ?n) (gs_calls s) = 0\<close> \<open>total (permit_weight ?n) (gs_calls s) = 0\<close> in
        \<open>simp add: s' gate_ok_def nth_append permits_ok_def make_permits_def\<close>)
  have calls: "call_ok s' c" if "c \<in> set (gs_calls s)" for c
    using gates_invD(2) [OF inv that] None by (auto simp: s' call_ok_def nth_append)
  have starts: "start_ok s' st" if "st \<in> set (gs_starts s)" for st
    using gates_invD(5) [OF inv that] gates_invD(3) [OF inv, of "fst st"] None by (auto simp: s' start_ok_def nth_append)
  have old: "k < ?n" if "gs_destinations s e = Some k" for e k using gates_invD(3) [OF inv that] .
  have dests: "k < length (gs_heap s')" if "gs_destinations s' e = Some k" for e k
    using that old [of e k] by (auto simp: s' split: if_splits)
  have inj: "e = e'" if "gs_destinations s' e = Some k" "gs_destinations s' e' = Some k" for e e' k
    using that old [of e k] old [of e' k] gates_invD(4) [OF inv, of e k e'] by (auto simp: s' split: if_splits)
  have fields: "gs_calls s' = gs_calls s" "gs_starts s' = gs_starts s" "gs_interval s' = gs_interval s" by (simp_all add: s')
  have "gates_inv s'"
    unfolding gates_inv_def fields using gates calls starts dests inj gates_invD(6) [OF inv] by blast
  then show ?thesis using i by (simp add: s')
qed

lemma new_call_inv:
  assumes inv: "gates_inv s" and d: "gs_destinations s d = Some i"
  shows "gates_inv (s\<lparr>gs_heap := (gs_heap s)[i := (gs_heap s ! i)\<lparr>dg_references := dg_references (gs_heap s ! i) + 1\<rparr>],
           gs_calls := gs_calls s @ [\<lparr>gc_destination = d, gc_gate = i, gc_phase = WaitGate\<rparr>]\<rparr>)" (is "gates_inv ?s")
proof -
  have i: "i < length (gs_heap s)" using gates_invD(3) [OF inv d] .
  let ?g = "(gs_heap s ! i)\<lparr>dg_references := dg_references (gs_heap s ! i) + 1\<rparr>"
  have last: "dg_lastStart ?g = dg_lastStart (gs_heap s ! i)" by simp
  have "gate_ok ?s k" if "k < length (gs_heap s)" for k
    using that i gates_invD(1) [OF inv that] by (cases "k = i") (simp_all add: gate_ok_def ref_weight_def permit_weight_def)
  moreover have "call_ok ?s c" if "call_ok s c" for c using that by (auto simp: call_ok_def last_update [OF last])
  moreover have "call_ok ?s \<lparr>gc_destination = d, gc_gate = i, gc_phase = WaitGate\<rparr>" using d i by (simp add: call_ok_def)
  moreover have "start_ok ?s st" if "start_ok s st" for st
    using that by (auto simp: start_ok_def last_update [OF last])
  ultimately show ?thesis using gates_invD [OF inv] unfolding gates_inv_def by auto
qed

lemma enter_inv: "gates_inv s \<Longrightarrow> gates_inv (fst (enter_gate d s))"
  using find_or_make_inv [OF prune_inv] new_call_inv
  by (auto simp: enter_gate_def put_gate_def Let_def split: prod.splits)

text \<open>A start: everyone else on the gate is outside it, and every earlier start of the
  destination is at least the interval ago.\<close>

lemma network_inv:
  assumes inv: "gates_inv s" and r: "in_phase r WaitNetwork s"
  shows "gates_inv (gate_network r None s)"
proof -
  have r': "r < length (gs_calls s)" and ph: "gc_phase (gs_calls s ! r) = WaitNetwork" using r by (auto simp: in_phase_def)
  let ?c = "gs_calls s ! r"
  let ?i = "gc_gate ?c" and ?d = "gc_destination ?c" and ?now = "gs_now s"
  let ?g = "(gs_heap s ! ?i)\<lparr>dg_lastStart := Some ?now\<rparr>"
  note ok = gate_ok_of [OF inv r']
  have dest: "gs_destinations s ?d = Some ?i" and i: "?i < length (gs_heap s)"
    and reach: "reached (next_start (gs_interval s) (gs_heap s ! ?i)) ?now"
    using ok(2) ph by (auto simp: call_ok_def)
  have old: "snd st + gs_interval s \<le> ?now" if "st \<in> set (gs_starts s)" "fst st = ?d" for st
    using gates_invD(5) [OF inv that(1)] that(2) dest reach by (auto simp: start_ok_def reached_def next_start_def)
  define s' where "s' = gate_network r None s"
  have s': "s' = s\<lparr>gs_heap := (gs_heap s)[?i := ?g], gs_calls := (gs_calls s)[r := ?c\<lparr>gc_phase := Unref\<rparr>],
      gs_starts := gs_starts s @ [(?d, ?now)]\<rparr>"
    using r' by (simp add: s'_def gate_network_def gate_puts Let_def)
  have gates: "gate_ok s' k" if "k < length (gs_heap s)" for k
    using that i r' ph gates_invD(1) [OF inv that]
    by (cases "k = ?i") (simp_all add: s' gate_ok_def ref_weight_def permit_weight_def)
  have calls: "call_ok s' x" if "x \<in> set (gs_calls s')" for x
  proof -
    from that obtain k where k: "k < length (gs_calls s)" "x = gs_calls s' ! k" by (auto simp: s' in_set_conv_nth)
    show ?thesis
    proof (cases "k = r")
      case True
      with k r' ok(2) ph show ?thesis by (simp add: s' call_ok_def)
    next
      case False
      with k have x: "x = gs_calls s ! k" by (simp add: s')
      have xok: "call_ok s x" using gate_ok_of(2) [OF inv k(1)] x by simp
      show ?thesis
      proof (cases "gc_gate x = ?i")
        case True
        have "\<not> permitted (gc_phase x)" using permit_exclusive [OF inv r' k(1)] False True x ph by auto
        then show ?thesis using xok i by (auto simp: s' call_ok_def)
      qed (use xok in \<open>simp add: s' call_ok_def\<close>)
    qed
  qed
  have starts: "start_ok s' st" if "st \<in> set (gs_starts s)" for st
  proof (cases "fst st = ?d")
    case True
    with old [OF that] show ?thesis by (simp add: s' start_ok_def)
  next
    case False
    then have "gs_destinations s (fst st) \<noteq> Some ?i" using gates_invD(4) [OF inv _ dest] by blast
    with gates_invD(5) [OF inv that] show ?thesis by (auto simp: s' start_ok_def)
  qed
  have new: "start_ok s' (?d, ?now)" using dest i by (simp add: s' start_ok_def)
  have "spaced (gs_interval s) (gs_starts s @ [(?d, ?now)])"
    using gates_invD(6) [OF inv] old by (auto simp: spaced_def sorted_wrt_append)
  then show ?thesis
    using gates calls starts new gates_invD(3,4) [OF inv] unfolding s'_def [symmetric] gates_inv_def by (simp add: s')
qed

lemma gate_step_inv: "gate_step s s' \<Longrightarrow> gates_inv s \<Longrightarrow> gates_inv s'"
proof (induction rule: gate_step.induct)
  case (read_start r s)
  then show ?case unfolding gate_read_start_def by (intro phase_only_inv [OF read_start.prems read_start.hyps(1)]) auto
next
  case (timer r start s ctx)
  have "start = next_start (gs_interval s) (call_gate r s)"
    using gate_ok_of(2) [OF timer.prems] timer.hyps(1) by (auto simp: in_phase_def call_ok_def call_gate_def)
  with timer show ?case unfolding gate_timer_def
    by (intro phase_only_inv [OF timer.prems timer.hyps(1)]) (auto split: option.splits)
next
  case (cancelled r start s e)
  then show ?case unfolding gate_timer_def by (intro phase_only_inv [OF cancelled.prems cancelled.hyps(1)]) auto
next
  case (network r s err)
  show ?case
  proof (cases err)
    case None
    with network show ?thesis by (simp add: network_inv)
  next
    case (Some e)
    then show ?thesis unfolding gate_network_def by (simp, intro phase_only_inv [OF network.prems network.hyps(1)]) auto
  qed
qed (simp_all add: time_inv enter_inv gate_permit_inv gate_unref_inv gate_unpermit_inv)

lemma gate_steps_inv: "gate_step\<^sup>*\<^sup>* s s' \<Longrightarrow> gates_inv s \<Longrightarrow> gates_inv s'"
  by (induction rule: rtranclp_induct) (auto intro: gate_step_inv)

lemma gate_step_interval: "gate_step s s' \<Longrightarrow> gs_interval s' = gs_interval s"
  by (induction rule: gate_step.induct)
     (auto simp: enter_gate_def prune_destinations_def find_or_make_gate_def gate_permit_def gate_read_start_def gate_timer_def
        gate_network_def gate_unref_def gate_unpermit_def gate_puts Let_def split: option.splits prod.splits)

lemma gate_steps_interval: "gate_step\<^sup>*\<^sup>* s s' \<Longrightarrow> gs_interval s' = gs_interval s"
  by (induction rule: rtranclp_induct) (auto simp: gate_step_interval)

section \<open>Property\<close>

text \<open>C10: Requests to one destination are spaced: in every run of any number of concurrent calls,
  with cancellations, failed network waits and gates removed and created again, two starts for
  the same destination are at least the configured interval apart.\<close>

theorem destination_rate_respected:
  assumes "gate_step\<^sup>*\<^sup>* (new_gates c now) s" "a < b" "b < length (gs_starts s)"
    and "fst (gs_starts s ! a) = fst (gs_starts s ! b)"
  shows "snd (gs_starts s ! a) + li_HTTPDestinationInterval (ct_limits c) \<le> snd (gs_starts s ! b)"
proof -
  have "gates_inv (new_gates c now)" by (simp add: gates_inv_def new_gates_def spaced_def)
  then have "gates_inv s" using gate_steps_inv [OF assms(1)] by simp
  then have "spaced (gs_interval s) (gs_starts s)" by (rule gates_invD(6))
  moreover have "gs_interval s = li_HTTPDestinationInterval (ct_limits c)"
    using gate_steps_interval [OF assms(1)] by (simp add: new_gates_def)
  ultimately show ?thesis using assms(2-4) by (auto simp: spaced_def sorted_wrt_iff_nth_less)
qed

text \<open>A run with two starts for one destination.\<close>

definition gate_pass :: "nat \<Rightarrow> gates \<Rightarrow> gates" where
  "gate_pass r s = gate_unpermit r (gate_unref r (gate_network r None (gate_timer r None (gate_read_start r
     (fst (gate_permit r None (Granted None) (fst (enter_gate ''h'' s))))))))"

definition two_starts :: gates where
  "two_starts = gate_pass 1 ((gate_pass 0 (new_gates small_controller 0))\<lparr>gs_now := 100000000\<rparr>)"

lemma in_phase_put [simp]: "in_phase r ph (put_call r ph' s) \<longleftrightarrow> r < length (gs_calls s) \<and> ph' = ph"
  by (auto simp: in_phase_def put_call_def)

lemma gate_pass_run:
  assumes "in_phase r WaitGate (fst (enter_gate ''h'' s))"
    and "free_permit (dg_permit (call_gate r (fst (enter_gate ''h'' s))))"
    and "reached (next_start (gs_interval s) (call_gate r (fst (enter_gate ''h'' s)))) (gs_now s)"
    and "gs_now (fst (enter_gate ''h'' s)) = gs_now s" "gs_interval (fst (enter_gate ''h'' s)) = gs_interval s"
  shows "gate_step\<^sup>*\<^sup>* s (gate_pass r s)"
proof -
  define s1 where "s1 = fst (enter_gate ''h'' s)"
  define s2 where "s2 = fst (gate_permit r None (Granted None) s1)"
  define s3 where "s3 = gate_read_start r s2"
  define s4 where "s4 = gate_timer r None s3"
  define s5 where "s5 = gate_network r None s4"
  define s6 where "s6 = gate_unref r s5"
  note ph = assms(1) [folded s1_def]
  have r: "r < length (gs_calls s1)" using ph by (simp add: in_phase_def)
  have c2: "s2 = put_call r InGate (set_call_gate r ((call_gate r s1)\<lparr>dg_permit := take_permit (dg_permit (call_gate r s1))\<rparr>) s1)"
    by (simp add: s2_def gate_permit_def acquirePermit_def)
  have g2: "next_start n (call_gate r s2) = next_start n (call_gate r s1)" for n
    unfolding c2 call_gate_def put_call_def set_call_gate_def put_gate_def using r by (simp add: last_update)
  have f2: "gs_now s2 = gs_now s" "gs_interval s2 = gs_interval s" "length (gs_calls s2) = length (gs_calls s1)"
    using assms(4,5) by (simp_all add: c2 gate_puts s1_def)
  have l: "length (gs_calls s3) = length (gs_calls s1)" "length (gs_calls s4) = length (gs_calls s1)"
    "length (gs_calls s5) = length (gs_calls s1)" "gs_now s3 = gs_now s"
    by (simp_all add: s3_def s4_def s5_def gate_read_start_def gate_timer_def gate_network_def gate_puts f2 Let_def)
  have "gate_step s s1" unfolding s1_def by (rule gate_step.enter)
  moreover have "gate_step s1 s2" unfolding s2_def
    using ph assms(2) by (intro gate_step.permit) (simp_all add: s1_def wait_possible_def)
  moreover have "gate_step s2 s3" unfolding s3_def
    by (rule gate_step.read_start) (use r in \<open>simp add: c2 set_call_gate_def put_gate_def\<close>)
  moreover have "gate_step s3 s4" unfolding s4_def
    by (rule gate_step.timer [of r "next_start (gs_interval s) (call_gate r s1)"])
       (use r assms(3) in \<open>simp_all add: s3_def gate_read_start_def f2 g2 put_call_def in_phase_def s1_def [symmetric]\<close>)
  moreover have "gate_step s4 s5" unfolding s5_def
    by (rule gate_step.network) (use r l in \<open>simp add: s4_def gate_timer_def\<close>)
  moreover have "gate_step s5 s6" unfolding s6_def
    by (rule gate_step.unref) (use r l in \<open>simp add: s5_def gate_network_def Let_def put_call_def in_phase_def set_call_gate_def put_gate_def\<close>)
  moreover have "gate_step s6 (gate_unpermit r s6)"
    by (rule gate_step.unpermit) (use r l in \<open>simp add: s6_def gate_unref_def set_call_gate_def put_gate_def\<close>)
  ultimately show ?thesis
    unfolding gate_pass_def s1_def [symmetric] s2_def [symmetric] s3_def [symmetric] s4_def [symmetric] s5_def [symmetric] s6_def [symmetric]
    by (meson rtranclp.rtrancl_into_rtrancl rtranclp.rtrancl_refl)
qed

lemmas gate_eval = gate_pass_def enter_gate_def prune_destinations_def find_or_make_gate_def gate_permit_def gate_read_start_def
  gate_timer_def gate_network_def gate_unref_def gate_unpermit_def gate_puts acquirePermit_def new_gates_def make_permits_def
  Let_def small_controller_def DefaultLimits_def take_permit_def releasePermit_def stale_gate_def reached_def next_start_def
  free_permit_def

lemma two_starts_run: "gate_step\<^sup>*\<^sup>* (new_gates small_controller 0) two_starts" "gs_starts two_starts = [(''h'', 0), (''h'', 100000000)]"
proof -
  let ?s = "gate_pass 0 (new_gates small_controller 0)"
  have "gate_step\<^sup>*\<^sup>* (new_gates small_controller 0) ?s" by (rule gate_pass_run) (simp_all add: gate_eval)
  moreover have "gate_step ?s (?s\<lparr>gs_now := 100000000\<rparr>)" by (rule gate_step.time) (simp add: gate_eval)
  moreover have "gate_step\<^sup>*\<^sup>* (?s\<lparr>gs_now := 100000000\<rparr>) two_starts"
    unfolding two_starts_def by (rule gate_pass_run) (simp_all add: gate_eval)
  ultimately show "gate_step\<^sup>*\<^sup>* (new_gates small_controller 0) two_starts" by simp
  show "gs_starts two_starts = [(''h'', 0), (''h'', 100000000)]" by (simp add: two_starts_def gate_eval)
qed

theorem destination_rate_respected_witness:
  "length (gs_starts two_starts) = 2 \<and> snd (gs_starts two_starts ! 0) + 100000000 \<le> snd (gs_starts two_starts ! 1)"
  using destination_rate_respected [OF two_starts_run(1), of 0 1] two_starts_run(2)
  by (simp add: small_controller_def DefaultLimits_def)

end
