(* ===== verification/Go_Library.thy ===== *)
theory Go_Library
  imports Go_Base "HOL-Library.AList"
begin

text \<open>
  More of Go's language and library: maps and buffered line scanners.

  A Go map is an association list. Its iteration order is not specified: code that iterates over
  a map takes a function that rearranges the entries, and the theorems hold for every such
  function that \<open>permutes\<close>.
\<close>

section \<open>Errors\<close>

definition map_error :: "('e \<Rightarrow> 'f) \<Rightarrow> 'e + 'a \<Rightarrow> 'f + 'a" where
  "map_error f r = (case r of Inl e \<Rightarrow> Inl (f e) | Inr x \<Rightarrow> Inr x)"

section \<open>Line scanners\<close>

text \<open>\<open>bufio.Scanner\<close> over the input: the lines without their terminators up to the first line
  that does not fit the one-mebibyte buffer the code gives it, and whether there is such a line.\<close>

definition scan_buffer :: nat where "scan_buffer = 1048576"

definition scan_lines :: "string \<Rightarrow> string list \<times> bool" where
  "scan_lines data =
     (let raw = split_on CHR 0x0A data;
          raw = (if last raw = [] then butlast raw else raw);
          fits = takeWhile (\<lambda>l. length l < scan_buffer) raw
      in (map (\<lambda>l. trim_suffix l [CHR 0x0D]) fits, length fits < length raw))"

section \<open>Maps\<close>

lemma in_set_update:
  assumes "distinct (map fst m)"
  shows "(a, b) \<in> set (AList.update k v m) \<longleftrightarrow> (if a = k then b = v else (a, b) \<in> set m)"
proof -
  have "(a, b) \<in> set (AList.update k v m) \<longleftrightarrow> map_of (AList.update k v m) a = Some b"
    using assms by (simp add: map_of_eq_Some_iff AList.distinct_update)
  also have "\<dots> \<longleftrightarrow> (if a = k then b = v else map_of m a = Some b)"
    by (auto simp: AList.update_conv')
  finally show ?thesis using assms by (simp add: map_of_eq_Some_iff)
qed

section \<open>Iteration orders\<close>

definition permutes :: "('a list \<Rightarrow> 'a list) \<Rightarrow> bool" where
  "permutes p \<longleftrightarrow> (\<forall>xs. mset (p xs) = mset xs)"

lemma permutes_set: "permutes p \<Longrightarrow> set (p xs) = set xs"
  unfolding permutes_def by (metis set_mset_mset)

lemma permutes_id: "permutes (\<lambda>xs. xs)" and permutes_rev: "permutes rev"
  by (simp_all add: permutes_def)

text \<open>The update of a map that keeps the best item of each key: the item replaces the current entry of its key
  when there is none or when it is better.\<close>

definition put_best :: "('v \<Rightarrow> 'k) \<Rightarrow> ('v \<Rightarrow> 'v \<Rightarrow> bool) \<Rightarrow> 'v \<Rightarrow> ('k \<times> 'v) list \<Rightarrow> ('k \<times> 'v) list" where
  "put_best key better item m =
     (case map_of m (key item) of
        None \<Rightarrow> AList.update (key item) item m
      | Some current \<Rightarrow> if better item current then AList.update (key item) item m else m)"

section \<open>Keeping the best entry\<close>

locale best_of =
  fixes key :: "'v \<Rightarrow> 'k" and better :: "'v \<Rightarrow> 'v \<Rightarrow> bool"
  assumes irrefl: "\<not> better x x"
    and raise: "better y z \<Longrightarrow> \<not> better x z \<Longrightarrow> \<not> better x y"
begin

definition kept :: "'v list \<Rightarrow> ('k \<times> 'v) list" where
  "kept xs = fold (put_best key better) xs []"

definition covers :: "('k \<times> 'v) list \<Rightarrow> 'v set \<Rightarrow> bool" where
  "covers m A \<longleftrightarrow> distinct (map fst m)
     \<and> (\<forall>k v. map_of m k = Some v \<longrightarrow> v \<in> A \<and> key v = k)
     \<and> (\<forall>x \<in> A. \<exists>v. map_of m (key x) = Some v \<and> \<not> better x v)"

lemma covers_update:
  assumes c: "covers m A"
    and b: "\<And>v. map_of m (key x) = Some v \<Longrightarrow> better x v"
  shows "covers (AList.update (key x) x m) (insert x A)"
proof -
  have d: "distinct (map fst (AList.update (key x) x m))"
    using c by (simp add: covers_def AList.distinct_update)
  have s: "\<forall>k v. map_of (AList.update (key x) x m) k = Some v \<longrightarrow> v \<in> insert x A \<and> key v = k"
    using c by (auto simp: covers_def AList.update_conv')
  have "\<exists>v. map_of (AList.update (key x) x m) (key y) = Some v \<and> \<not> better y v"
    if y: "y \<in> insert x A" for y
  proof (cases "key y = key x")
    case True
    have "\<not> better y x"
    proof (cases "y = x")
      case False
      with y have "y \<in> A" by simp
      with c True obtain v where "map_of m (key x) = Some v" "\<not> better y v"
        unfolding covers_def by metis
      with raise [OF b] show ?thesis by blast
    qed (simp add: irrefl)
    with True show ?thesis by (simp add: AList.update_conv')
  next
    case False
    with y have "y \<in> A" by auto
    with c obtain v where "map_of m (key y) = Some v" "\<not> better y v"
      unfolding covers_def by blast
    with False show ?thesis by (simp add: AList.update_conv')
  qed
  with d s show ?thesis unfolding covers_def by (intro conjI ballI)
qed

lemma covers_put_best:
  assumes "covers m A"
  shows "covers (put_best key better x m) (insert x A)"
proof (cases "map_of m (key x)")
  case None
  with covers_update [OF assms, of x] show ?thesis by (simp add: put_best_def)
next
  case (Some v)
  show ?thesis
  proof (cases "better x v")
    case True
    with Some covers_update [OF assms, of x] show ?thesis by (simp add: put_best_def)
  next
    case False
    with Some assms show ?thesis by (auto simp: put_best_def covers_def)
  qed
qed

lemma covers_fold: "covers m A \<Longrightarrow> covers (fold (put_best key better) xs m) (A \<union> set xs)"
proof (induction xs arbitrary: m A)
  case (Cons x xs)
  from Cons.IH [OF covers_put_best [OF Cons.prems]] show ?case by simp
qed simp

lemma covers_kept: "covers (kept xs) (set xs)"
proof -
  have "covers [] {}" by (simp add: covers_def)
  from covers_fold [OF this, of xs] show ?thesis by (simp add: kept_def)
qed

lemma kept_distinct: "distinct (map fst (kept xs))"
  using covers_kept by (auto simp: covers_def)

lemma kept_entry:
  assumes "(k, v) \<in> set (kept xs)"
  shows "v \<in> set xs \<and> key v = k"
  using assms covers_kept [of xs] kept_distinct [of xs] by (auto simp: covers_def)

lemma kept_best: "x \<in> set xs \<Longrightarrow> \<exists>v. (key x, v) \<in> set (kept xs) \<and> \<not> better x v"
proof -
  assume "x \<in> set xs"
  with covers_kept [of xs] obtain v where "map_of (kept xs) (key x) = Some v" "\<not> better x v"
    unfolding covers_def by blast
  then show ?thesis by (blast dest: map_of_SomeD)
qed

lemma kept_values_distinct: "distinct (map snd (kept xs))"
proof -
  have "map fst (kept xs) = map key (map snd (kept xs))"
    using kept_entry [of _ _ xs] by (auto simp: comp_def)
  with kept_distinct [of xs] show ?thesis by (metis distinct_map)
qed

lemma kept_values_keys: "inj_on key (set (map snd (kept xs)))"
proof -
  have "map fst (kept xs) = map key (map snd (kept xs))"
    using kept_entry [of _ _ xs] by (auto simp: comp_def)
  with kept_distinct [of xs] show ?thesis by (metis distinct_map)
qed

text \<open>When no two items of one key tie, the entries do not depend on the order of the items.\<close>

lemma kept_order_independent:
  assumes "set xs = set ys"
    and tie: "\<And>x y. x \<in> set xs \<Longrightarrow> y \<in> set xs \<Longrightarrow> key x = key y \<Longrightarrow> \<not> better x y \<Longrightarrow> \<not> better y x \<Longrightarrow> x = y"
  shows "set (kept xs) = set (kept ys)"
proof -
  have sub: "set (kept xs) \<subseteq> set (kept ys)"
    if eq: "set xs = set ys"
      and tie: "\<And>x y. x \<in> set xs \<Longrightarrow> y \<in> set xs \<Longrightarrow> key x = key y \<Longrightarrow> \<not> better x y \<Longrightarrow> \<not> better y x \<Longrightarrow> x = y"
    for xs ys
  proof
    fix p assume p: "p \<in> set (kept xs)"
    obtain k v where kv: "p = (k, v)" by (cases p)
    with p kept_entry have v: "v \<in> set xs" "key v = k" by blast+
    with eq kept_best [of v ys] obtain w where w: "(k, w) \<in> set (kept ys)" "\<not> better v w" by auto
    with kept_entry eq have w': "w \<in> set xs" "key w = k" by blast+
    with kept_best [of w xs] obtain u where u: "(k, u) \<in> set (kept xs)" "\<not> better w u" by auto
    with p kv kept_distinct [of xs] have "u = v" by (metis eq_key_imp_eq_value)
    with u w v w' tie [of v w] have "v = w" by simp
    with w kv show "p \<in> set (kept ys)" by simp
  qed
  from sub [OF assms(1)] sub [of ys xs] assms show ?thesis by auto
qed

end

end
