(* ===== verification/Aggregate.thy ===== *)
theory Aggregate
  imports Report Go_Library
begin

text \<open>
  Package internal/aggregate: evidence with the same subject, entity, relation and scope becomes
  one finding, and network findings that name different entities are linked as conflicts.

  A Go map is an association list. The iteration order of a Go map is not specified, so the
  code's three iterations take it as an argument: \<open>ord_groups\<close>, \<open>ord_ids\<close> and
  \<open>ord_prov\<close> rearrange the entries, and the theorems hold for all permutations.
  SHA-256 with hexadecimal output and the decoding of a dataset record's fields are arguments.
\<close>

section \<open>The code\<close>

record group_key =
  gk_subject :: string
  gk_providerID :: string
  gk_productID :: string
  gk_relation :: relation
  gk_scope :: scope

definition strengthRank :: "strength \<Rightarrow> nat" where
  "strengthRank value =
     (if value = StrengthStrong then 3 else if value = StrengthModerate then 2
      else if value = StrengthWeak then 1 else 0)"

text \<open>\<open>hash\<close> is the hexadecimal form of the first twelve bytes of the SHA-256 digest.\<close>

definition findingID :: "(string \<Rightarrow> string) \<Rightarrow> group_key \<Rightarrow> string" where
  "findingID hash k = ''finding-'' @ hash (join [CHR 0x00]
     [gk_subject k, gk_providerID k, gk_productID k, gk_relation k, gk_scope k])"

text \<open>\<open>provenance_group fields\<close> decodes the fields of a dataset record: \<open>None\<close> is a
  decoding error, \<open>Some g\<close> the value of \<open>provenance_group\<close>, empty when absent.\<close>

definition record_key :: "(json_value \<Rightarrow> string option) \<Rightarrow> dataset_record \<Rightarrow> string" where
  "record_key provenance_group r =
     (case provenance_group (ds_Fields r) of
        Some g \<Rightarrow> if g \<noteq> [] then ds_SourceID r @ ''/group/'' @ g
                  else join ''/'' [ds_SourceID r, ds_Revision r, ds_Digest r, ds_RecordRef r]
      | None \<Rightarrow> join ''/'' [ds_SourceID r, ds_Revision r, ds_Digest r, ds_RecordRef r])"

definition provenanceKey :: "(json_value \<Rightarrow> string option) \<Rightarrow> evidence \<Rightarrow> string list \<Rightarrow> string" where
  "provenanceKey provenance_group item observationIDs =
     (if ev_DatasetRecords item = []
      then join [CHR 0x00] [ev_DetectorID item, ev_RuleID item, join '','' observationIDs]
      else join [CHR 0x00] [join '','' observationIDs,
             join '','' (sort (map (record_key provenance_group) (ev_DatasetRecords item)))])"

definition stronger :: "evidence \<Rightarrow> evidence \<Rightarrow> bool" where
  "stronger item current = (strengthRank (ev_Strength item) > strengthRank (ev_Strength current))"

definition stronger_or_first :: "evidence \<Rightarrow> evidence \<Rightarrow> bool" where
  "stronger_or_first item current =
     (strengthRank (ev_Strength item) > strengthRank (ev_Strength current)
      \<or> strengthRank (ev_Strength item) = strengthRank (ev_Strength current) \<and> ev_ID item < ev_ID current)"

definition item_provenance :: "(json_value \<Rightarrow> string option) \<Rightarrow> evidence \<Rightarrow> string" where
  "item_provenance provenance_group item =
     provenanceKey provenance_group item (sort (ev_ObservationIDs item))"

type_synonym map_order = "(string \<times> evidence) list \<Rightarrow> (string \<times> evidence) list"

definition deduplicate ::
    "map_order \<Rightarrow> map_order \<Rightarrow> (json_value \<Rightarrow> string option) \<Rightarrow> evidence list \<Rightarrow> evidence list" where
  "deduplicate ord_ids ord_prov provenance_group items =
     (let byID = fold (put_best ev_ID stronger) items [];
          byProvenance = fold (put_best (item_provenance provenance_group) stronger_or_first)
            (map snd (ord_ids byID)) []
      in sort_key ev_ID (map snd (ord_prov byProvenance)))"

definition key_of :: "evidence \<Rightarrow> group_key" where
  "key_of item = \<lparr>gk_subject = ev_Subject item, gk_providerID = ev_ProviderID item,
     gk_productID = ev_ProductID item, gk_relation = ev_Relation item, gk_scope = ev_Scope item\<rparr>"

type_synonym groups = "(group_key \<times> evidence list) list"

definition group_evidence :: "evidence list \<Rightarrow> groups" where
  "group_evidence evidence =
     fold (\<lambda>item groups. AList.update (key_of item)
             ((case map_of groups (key_of item) of Some items \<Rightarrow> items | None \<Rightarrow> []) @ [item]) groups)
       evidence []"

definition add_evidence :: "evidence \<Rightarrow> finding \<Rightarrow> finding" where
  "add_evidence item f =
     (let f = f\<lparr>fi_EvidenceIDs := fi_EvidenceIDs f @ [ev_ID item]\<rparr>
      in if strengthRank (ev_Strength item) > strengthRank (fi_Strength f)
         then f\<lparr>fi_Strength := ev_Strength item\<rparr> else f)"

definition group_finding ::
    "(string \<Rightarrow> string) \<Rightarrow> map_order \<Rightarrow> map_order \<Rightarrow> (json_value \<Rightarrow> string option)
     \<Rightarrow> group_key \<times> evidence list \<Rightarrow> finding" where
  "group_finding hash ord_ids ord_prov provenance_group entry =
     (case entry of (k, items) \<Rightarrow>
      (let items = deduplicate ord_ids ord_prov provenance_group (sort_key ev_ID items);
           finding = \<lparr>fi_ID = findingID hash k, fi_Subject = gk_subject k,
             fi_ProviderID = gk_providerID k, fi_ProductID = gk_productID k,
             fi_Category = ev_Category (hd items), fi_Relation = gk_relation k,
             fi_Strength = ev_Strength (hd items), fi_Activity = ev_Activity (hd items),
             fi_Scope = gk_scope k, fi_EvidenceIDs = [], fi_ConflictIDs = [], fi_Limitations = []\<rparr>
       in fold add_evidence items finding))"

definition conflict_relation :: "finding \<Rightarrow> bool" where
  "conflict_relation f = (\<not> (fi_Relation f \<noteq> RelationNetworkProvider
     \<and> fi_Relation f \<noteq> RelationNetworkOrigin \<and> fi_Relation f \<noteq> RelationServiceRange))"

definition right_conflicts :: "finding list \<Rightarrow> nat \<Rightarrow> nat \<Rightarrow> bool" where
  "right_conflicts findings left right =
     (\<not> (left = right \<or> fi_Subject (findings ! left) \<noteq> fi_Subject (findings ! right)
          \<or> fi_Relation (findings ! left) \<noteq> fi_Relation (findings ! right)
          \<or> fi_Scope (findings ! left) \<noteq> fi_Scope (findings ! right))
      \<and> \<not> (fi_ProviderID (findings ! left) = fi_ProviderID (findings ! right)
          \<and> fi_ProductID (findings ! left) = fi_ProductID (findings ! right)))"

text \<open>The loop writes only \<open>ConflictIDs\<close>, which it does not read of another finding.\<close>

definition linkConflicts :: "finding list \<Rightarrow> finding list" where
  "linkConflicts findings =
     map (\<lambda>left.
            if \<not> conflict_relation (findings ! left) then findings ! left
            else (findings ! left)\<lparr>fi_ConflictIDs :=
              sort (fi_ConflictIDs (findings ! left)
                @ map (\<lambda>right. fi_ID (findings ! right))
                      (filter (right_conflicts findings left) [0..<length findings]))\<rparr>)
       [0..<length findings]"

definition Build ::
    "(string \<Rightarrow> string) \<Rightarrow> (groups \<Rightarrow> groups) \<Rightarrow> map_order \<Rightarrow> map_order
     \<Rightarrow> (json_value \<Rightarrow> string option) \<Rightarrow> evidence list \<Rightarrow> finding list" where
  "Build hash ord_groups ord_ids ord_prov provenance_group evidence =
     sort_key fi_ID (linkConflicts
       (map (group_finding hash ord_ids ord_prov provenance_group)
            (ord_groups (group_evidence evidence))))"

section \<open>Both maps of deduplicate keep the best entry\<close>

interpretation by_id: best_of ev_ID stronger
  by unfold_locales (auto simp: stronger_def)

interpretation by_provenance: best_of "item_provenance provenance_group" stronger_or_first
  for provenance_group
  by unfold_locales (auto simp: stronger_or_first_def)

section \<open>Deduplication\<close>

definition deduplicated :: "(json_value \<Rightarrow> string option) \<Rightarrow> map_order \<Rightarrow> evidence list \<Rightarrow> evidence set" where
  "deduplicated pg ord_ids items = snd ` set (by_provenance.kept pg (map snd (ord_ids (by_id.kept items))))"

lemma deduplicate_kept:
  "deduplicate oi op pg items =
     sort_key ev_ID (map snd (op (by_provenance.kept pg (map snd (oi (by_id.kept items))))))"
  by (simp add: deduplicate_def by_id.kept_def by_provenance.kept_def)

lemma set_deduplicate:
  "permutes op \<Longrightarrow> set (deduplicate oi op pg items) = deduplicated pg oi items"
  by (simp add: deduplicate_kept deduplicated_def permutes_set)

lemma deduplicated_subset:
  assumes "permutes oi"
  shows "deduplicated pg oi items \<subseteq> set (map snd (by_id.kept items))"
  using by_provenance.kept_entry [of _ _ pg "map snd (oi (by_id.kept items))"]
  by (force simp: deduplicated_def permutes_set [OF assms])

lemma kept_ids_subset: "set (map snd (by_id.kept items)) \<subseteq> set items"
  using by_id.kept_entry [of _ _ items] by auto

lemma deduplicate_subset:
  assumes "permutes oi" "permutes op"
  shows "set (deduplicate oi op pg items) \<subseteq> set items"
  using deduplicated_subset [OF assms(1)] kept_ids_subset set_deduplicate [OF assms(2)] by fast

lemma deduplicate_ids_distinct:
  assumes "permutes oi" "permutes op"
  shows "distinct (map ev_ID (deduplicate oi op pg items))"
proof -
  let ?p = "by_provenance.kept pg (map snd (oi (by_id.kept items)))"
  have "mset (map snd (op ?p)) = mset (map snd ?p)"
    using assms(2) by (simp add: permutes_def)
  then have "distinct (map snd (op ?p))"
    using by_provenance.kept_values_distinct by (metis mset_eq_imp_distinct_iff)
  moreover have "inj_on ev_ID (set (map snd (op ?p)))"
  proof (rule inj_on_subset [OF by_id.kept_values_keys [of items]])
    show "set (map snd (op ?p)) \<subseteq> set (map snd (by_id.kept items))"
      using deduplicated_subset [OF assms(1)] by (simp add: deduplicated_def permutes_set [OF assms(2)])
  qed
  ultimately show ?thesis by (simp add: deduplicate_kept distinct_map)
qed

lemma deduplicate_strongest:
  assumes "permutes oi" "permutes op" "x \<in> set items"
  shows "\<exists>y \<in> set (deduplicate oi op pg items). strengthRank (ev_Strength x) \<le> strengthRank (ev_Strength y)"
proof -
  from by_id.kept_best [OF assms(3)] obtain v where
    v: "(ev_ID x, v) \<in> set (by_id.kept items)" "\<not> stronger x v" by blast
  then have "v \<in> set (map snd (oi (by_id.kept items)))"
    by (force simp: permutes_set [OF assms(1)])
  from by_provenance.kept_best [OF this, of pg] obtain w where
    w: "(item_provenance pg v, w) \<in> set (by_provenance.kept pg (map snd (oi (by_id.kept items))))"
       "\<not> stronger_or_first v w" by blast
  then have "w \<in> set (deduplicate oi op pg items)"
    by (force simp: deduplicate_kept permutes_set [OF assms(2)])
  moreover have "strengthRank (ev_Strength x) \<le> strengthRank (ev_Strength w)"
    using v(2) w(2) by (simp add: stronger_def stronger_or_first_def)
  ultimately show ?thesis by blast
qed

lemma deduplicate_not_empty:
  "permutes oi \<Longrightarrow> permutes op \<Longrightarrow> items \<noteq> [] \<Longrightarrow> deduplicate oi op pg items \<noteq> []"
  using deduplicate_strongest [of oi op "hd items" items pg] by force

text \<open>The iteration order of the two maps does not matter.\<close>

lemma deduplicate_order_independent:
  assumes "permutes oi" "permutes op" "permutes oi'" "permutes op'"
  shows "deduplicate oi op pg items = deduplicate oi' op' pg items"
proof -
  let ?v = "map snd (oi (by_id.kept items))" and ?v' = "map snd (oi' (by_id.kept items))"
  have eq: "set ?v = set ?v'" by (simp add: permutes_set assms)
  have inj: "inj_on ev_ID (set ?v)"
    using by_id.kept_values_keys [of items] by (simp add: permutes_set [OF assms(1)])
  have "set (by_provenance.kept pg ?v) = set (by_provenance.kept pg ?v')"
  proof (rule by_provenance.kept_order_independent [OF eq])
    fix x y assume xy: "x \<in> set ?v" "y \<in> set ?v" "\<not> stronger_or_first x y" "\<not> stronger_or_first y x"
    then have "ev_ID x = ev_ID y" by (auto simp: stronger_or_first_def)
    with xy inj show "x = y" by (auto dest: inj_onD)
  qed
  moreover have "distinct (by_provenance.kept pg vs)" for vs
    using by_provenance.kept_distinct [of pg vs] by (metis distinct_map)
  ultimately have "mset (by_provenance.kept pg ?v) = mset (by_provenance.kept pg ?v')"
    by (simp add: set_eq_iff_mset_eq_distinct)
  then have m: "mset (map snd (op (by_provenance.kept pg ?v))) = mset (map snd (op' (by_provenance.kept pg ?v')))"
    using assms(2,4) by (simp add: permutes_def)
  have "inj_on ev_ID (set (map snd (op (by_provenance.kept pg ?v))))"
    using deduplicate_ids_distinct [OF assms(1,2), of pg items]
    by (metis (no_types) deduplicate_kept distinct_map set_sort)
  from sort_key_permutation [OF m this] show ?thesis by (simp add: deduplicate_kept)
qed

section \<open>Groups\<close>

definition group_of :: "evidence list \<Rightarrow> group_key \<Rightarrow> evidence list" where
  "group_of evidence k = filter (\<lambda>e. key_of e = k) evidence"

lemma map_of_group_evidence:
  "map_of (group_evidence evidence) k =
     (if group_of evidence k = [] then None else Some (group_of evidence k))"
  unfolding group_evidence_def group_of_def
proof (induction evidence arbitrary: k rule: rev_induct)
  case (snoc e evidence)
  then show ?case by (cases "key_of e = k") (auto simp: AList.update_conv')
qed simp

lemma distinct_group_evidence: "distinct (map fst (group_evidence evidence))"
  unfolding group_evidence_def
  by (induction evidence rule: rev_induct) (simp_all add: AList.distinct_update)

lemma group_evidence_entry_iff:
  "(k, items) \<in> set (group_evidence evidence) \<longleftrightarrow> items = group_of evidence k \<and> items \<noteq> []"
proof -
  have "(k, items) \<in> set (group_evidence evidence) \<longleftrightarrow> map_of (group_evidence evidence) k = Some items"
    by (simp add: map_of_eq_Some_iff distinct_group_evidence)
  also have "\<dots> \<longleftrightarrow> items = group_of evidence k \<and> items \<noteq> []"
    by (auto simp: map_of_group_evidence)
  finally show ?thesis .
qed

lemma group_of_eq_Nil_iff: "group_of evidence k = [] \<longleftrightarrow> k \<notin> key_of ` set evidence"
  by (auto simp: group_of_def filter_empty_conv)

lemma group_evidence_keys: "fst ` set (group_evidence evidence) = key_of ` set evidence"
proof -
  have "k \<in> fst ` set (group_evidence evidence) \<longleftrightarrow> k \<in> key_of ` set evidence" for k
  proof -
    have "k \<in> fst ` set (group_evidence evidence) \<longleftrightarrow> (\<exists>items. (k, items) \<in> set (group_evidence evidence))"
      by force
    also have "\<dots> \<longleftrightarrow> k \<in> key_of ` set evidence"
      unfolding group_evidence_entry_iff by (simp add: group_of_eq_Nil_iff)
    finally show ?thesis .
  qed
  then show ?thesis by blast
qed

section \<open>The finding of a group\<close>

definition best_strength :: "evidence list \<Rightarrow> strength \<Rightarrow> strength" where
  "best_strength = fold (\<lambda>item s. if strengthRank (ev_Strength item) > strengthRank s then ev_Strength item else s)"

lemma fold_finding:
  "fold add_evidence items f
   = f\<lparr>fi_EvidenceIDs := fi_EvidenceIDs f @ map ev_ID items, fi_Strength := best_strength items (fi_Strength f)\<rparr>"
  by (induction items arbitrary: f) (simp_all add: best_strength_def add_evidence_def Let_def)

lemma rank_best_strength:
  "strengthRank (best_strength items s) = Max (insert (strengthRank s) ((strengthRank \<circ> ev_Strength) ` set items))"
proof (induction items arbitrary: s)
  case (Cons i items)
  have "Max (insert (strengthRank s) ((strengthRank \<circ> ev_Strength) ` set (i # items)))
      = Max (insert (max (strengthRank s) (strengthRank (ev_Strength i))) ((strengthRank \<circ> ev_Strength) ` set items))"
    by (cases "items = []") (simp_all add: Max_insert max.assoc)
  with Cons show ?case by (simp add: best_strength_def max_def)
qed (simp add: best_strength_def)

definition finding_key :: "finding \<Rightarrow> group_key" where
  "finding_key f = \<lparr>gk_subject = fi_Subject f, gk_providerID = fi_ProviderID f,
     gk_productID = fi_ProductID f, gk_relation = fi_Relation f, gk_scope = fi_Scope f\<rparr>"

lemma group_finding_fields:
  defines "items \<equiv> (\<lambda>oi op pg entry. deduplicate oi op pg (sort_key ev_ID (snd entry)))"
  shows "finding_key (group_finding hash oi op pg entry) = fst entry"
    and "fi_ID (group_finding hash oi op pg entry) = findingID hash (fst entry)"
    and "fi_EvidenceIDs (group_finding hash oi op pg entry) = map ev_ID (items oi op pg entry)"
    and "fi_Category (group_finding hash oi op pg entry) = ev_Category (hd (items oi op pg entry))"
    and "fi_Strength (group_finding hash oi op pg entry)
           = best_strength (items oi op pg entry) (ev_Strength (hd (items oi op pg entry)))"
    and "fi_ConflictIDs (group_finding hash oi op pg entry) = []"
  by (simp_all add: group_finding_def fold_finding Let_def items_def finding_key_def split: prod.split)

lemma group_finding_strength:
  assumes "permutes oi" "permutes op" "items \<noteq> []"
  shows "strengthRank (fi_Strength (group_finding hash oi op pg (k, items)))
         = Max ((strengthRank \<circ> ev_Strength) ` set items)"
proof -
  let ?d = "deduplicate oi op pg (sort_key ev_ID items)" and ?r = "strengthRank \<circ> ev_Strength"
  have "sort_key ev_ID items \<noteq> []" using assms(3) by (metis set_empty set_sort)
  then have ne: "?d \<noteq> []" using assms by (simp add: deduplicate_not_empty)
  then have "insert (?r (hd ?d)) (?r ` set ?d) = ?r ` set ?d" by (auto intro: image_eqI [OF refl])
  then have "strengthRank (fi_Strength (group_finding hash oi op pg (k, items))) = Max (?r ` set ?d)"
    by (simp add: group_finding_fields rank_best_strength)
  also have "\<dots> = Max (?r ` set items)"
  proof (rule antisym)
    show "Max (?r ` set ?d) \<le> Max (?r ` set items)"
      using ne deduplicate_subset [OF assms(1,2), of pg "sort_key ev_ID items"]
      by (intro Max_mono) auto
    show "Max (?r ` set items) \<le> Max (?r ` set ?d)"
    proof (rule Max.boundedI)
      fix r assume "r \<in> ?r ` set items"
      then obtain x where x: "x \<in> set (sort_key ev_ID items)" "r = ?r x" by auto
      from deduplicate_strongest [OF assms(1,2) x(1), of pg] obtain y where
        y: "y \<in> set ?d" "?r x \<le> ?r y" by auto
      from y(1) have "?r y \<le> Max (?r ` set ?d)" by (intro Max_ge) simp_all
      with x y show "r \<le> Max (?r ` set ?d)" by linarith
    qed (simp_all add: assms(3))
  qed
  finally show ?thesis .
qed

section \<open>Conflicts\<close>

definition conflicting :: "finding \<Rightarrow> finding \<Rightarrow> bool" where
  "conflicting f g \<longleftrightarrow> fi_Relation f \<in> {RelationNetworkProvider, RelationNetworkOrigin, RelationServiceRange}
     \<and> fi_Subject f = fi_Subject g \<and> fi_Relation f = fi_Relation g \<and> fi_Scope f = fi_Scope g
     \<and> (fi_ProviderID f, fi_ProductID f) \<noteq> (fi_ProviderID g, fi_ProductID g)"

definition with_conflicts :: "finding list \<Rightarrow> finding \<Rightarrow> finding" where
  "with_conflicts fs f = f\<lparr>fi_ConflictIDs := sort (map fi_ID (filter (conflicting f) fs))\<rparr>"

lemma conflicting_sym: "conflicting f g \<longleftrightarrow> conflicting g f"
  by (auto simp: conflicting_def)

lemma right_conflicts_iff:
  "conflict_relation (fs ! l) \<Longrightarrow> right_conflicts fs l r \<longleftrightarrow> conflicting (fs ! l) (fs ! r)"
  by (auto simp: right_conflicts_def conflicting_def conflict_relation_def)

lemma conflicting_relation: "\<not> conflict_relation f \<Longrightarrow> \<not> conflicting f g"
  by (auto simp: conflicting_def conflict_relation_def)

lemma map_filter_nth: "map (\<lambda>r. h (xs ! r)) (filter (\<lambda>r. P (xs ! r)) [0..<length xs]) = map h (filter P xs)"
proof -
  have "filter P (map ((!) xs) [0..<length xs]) = map ((!) xs) (filter (P \<circ> (!) xs) [0..<length xs])"
    by (rule filter_map)
  then show ?thesis by (simp add: map_nth comp_def)
qed

lemma linkConflicts_eq:
  assumes "\<forall>f \<in> set fs. fi_ConflictIDs f = []"
  shows "linkConflicts fs = map (with_conflicts fs) fs"
proof (rule nth_equalityI)
  show "length (linkConflicts fs) = length (map (with_conflicts fs) fs)"
    by (simp add: linkConflicts_def)
next
  fix i assume "i < length (linkConflicts fs)"
  then have i: "i < length fs" by (simp add: linkConflicts_def)
  with assms have e: "fi_ConflictIDs (fs ! i) = []" by simp
  show "linkConflicts fs ! i = map (with_conflicts fs) fs ! i"
  proof (cases "conflict_relation (fs ! i)")
    case True
    have "filter (right_conflicts fs i) [0..<length fs] = filter (\<lambda>r. conflicting (fs ! i) (fs ! r)) [0..<length fs]"
      by (simp add: right_conflicts_iff [OF True] cong: filter_cong)
    with i e True map_filter_nth [of fi_ID fs "conflicting (fs ! i)"] show ?thesis
      by (simp add: linkConflicts_def with_conflicts_def)
  next
    case False
    with i e conflicting_relation [OF False] show ?thesis
      by (cases "fs ! i") (simp add: linkConflicts_def with_conflicts_def)
  qed
qed

lemma with_conflicts_fields [simp]:
  "fi_ID (with_conflicts fs f) = fi_ID f" "finding_key (with_conflicts fs f) = finding_key f"
  "fi_EvidenceIDs (with_conflicts fs f) = fi_EvidenceIDs f" "fi_Category (with_conflicts fs f) = fi_Category f"
  "fi_Strength (with_conflicts fs f) = fi_Strength f"
  by (simp_all add: with_conflicts_def finding_key_def)

lemma with_conflicts_mset: "mset fs = mset gs \<Longrightarrow> with_conflicts fs f = with_conflicts gs f"
proof -
  assume "mset fs = mset gs"
  then have "mset (map fi_ID (filter (conflicting f) fs)) = mset (map fi_ID (filter (conflicting f) gs))"
    by simp
  then show ?thesis unfolding with_conflicts_def
    by (metis properties_for_sort mset_sort sorted_sort)
qed

lemma conflict_id_iff:
  assumes d: "distinct (map fi_ID fs)" and f: "f0 \<in> set fs" "f = with_conflicts fs f0"
    and g: "g \<in> set (sort_key fi_ID (map (with_conflicts fs) fs))"
  shows "fi_ID g \<in> set (fi_ConflictIDs f) \<longleftrightarrow> conflicting f g"
proof -
  from g obtain g0 where g0: "g0 \<in> set fs" "g = with_conflicts fs g0" by auto
  have "conflicting f g = conflicting f0 g0" by (simp add: f(2) g0(2) conflicting_def with_conflicts_def)
  moreover have "fi_ID g0 \<in> set (map fi_ID (filter (conflicting f0) fs)) \<longleftrightarrow> conflicting f0 g0"
    using d g0(1) by (auto simp: distinct_map dest: inj_onD)
  ultimately show ?thesis by (simp add: f(2) g0(2) with_conflicts_def)
qed

section \<open>Build\<close>

text \<open>The findings before they are linked and sorted.\<close>

definition group_findings ::
    "(string \<Rightarrow> string) \<Rightarrow> (groups \<Rightarrow> groups) \<Rightarrow> map_order \<Rightarrow> map_order
     \<Rightarrow> (json_value \<Rightarrow> string option) \<Rightarrow> evidence list \<Rightarrow> finding list" where
  "group_findings hash og oi op pg evidence =
     map (group_finding hash oi op pg) (og (group_evidence evidence))"

lemma Build_eq:
  "Build hash og oi op pg evidence =
     sort_key fi_ID (map (with_conflicts (group_findings hash og oi op pg evidence))
                         (group_findings hash og oi op pg evidence))"
  by (simp add: Build_def group_findings_def linkConflicts_eq group_finding_fields)

lemma group_findings_keys:
  assumes "permutes og"
  shows "distinct (map finding_key (group_findings hash og oi op pg evidence))"
    and "finding_key ` set (group_findings hash og oi op pg evidence) = key_of ` set evidence"
proof -
  have "map finding_key (group_findings hash og oi op pg evidence) = map fst (og (group_evidence evidence))"
    by (simp add: group_findings_def group_finding_fields comp_def)
  moreover have "mset (map fst (og (group_evidence evidence))) = mset (map fst (group_evidence evidence))"
    using assms by (simp add: permutes_def)
  ultimately have eq: "mset (map finding_key (group_findings hash og oi op pg evidence)) = mset (map fst (group_evidence evidence))"
    by simp
  then show "distinct (map finding_key (group_findings hash og oi op pg evidence))"
    using distinct_group_evidence by (metis mset_eq_imp_distinct_iff)
  from mset_eq_setD [OF eq] show "finding_key ` set (group_findings hash og oi op pg evidence) = key_of ` set evidence"
    by (simp add: group_evidence_keys)
qed

lemma group_findings_ids:
  "map fi_ID (group_findings hash og oi op pg evidence)
   = map (findingID hash) (map finding_key (group_findings hash og oi op pg evidence))"
  by (simp add: group_findings_def group_finding_fields)

lemma distinct_finding_ids:
  assumes "permutes og" "inj_on (findingID hash) (key_of ` set evidence)"
  shows "distinct (map fi_ID (group_findings hash og oi op pg evidence))"
  unfolding group_findings_ids distinct_map [of "findingID hash"] list.set_map
    group_findings_keys(2) [OF assms(1)]
  using group_findings_keys(1) [OF assms(1)] assms(2) by (rule conjI)

lemma group_findings_entry:
  assumes "permutes og" "f \<in> set (group_findings hash og oi op pg evidence)"
  obtains items where "f = group_finding hash oi op pg (finding_key f, items)"
    "items = group_of evidence (finding_key f)" "items \<noteq> []"
proof -
  from assms obtain k items where "(k, items) \<in> set (group_evidence evidence)"
    "f = group_finding hash oi op pg (k, items)"
    by (auto simp: group_findings_def permutes_set)
  then have e: "f = group_finding hash oi op pg (finding_key f, items)"
    "items = group_of evidence (finding_key f)" "items \<noteq> []"
    by (auto simp: group_finding_fields group_evidence_entry_iff)
  then show thesis by (rule that)
qed

lemma group_evidence_mset:
  assumes "mset evidence = mset evidence'"
  shows "mset (map fst (group_evidence evidence)) = mset (map fst (group_evidence evidence'))"
proof -
  have "set evidence = set evidence'" using assms by (rule mset_eq_setD)
  then have "set (map fst (group_evidence evidence)) = set (map fst (group_evidence evidence'))"
    using group_evidence_keys by simp
  then show ?thesis
    using distinct_group_evidence set_eq_iff_mset_eq_distinct by blast
qed

lemma group_findings_by_key:
  assumes "permutes og"
  shows "group_findings hash og oi op pg evidence =
     map (\<lambda>k. group_finding hash oi op pg (k, group_of evidence k)) (map fst (og (group_evidence evidence)))"
  by (auto simp: group_findings_def group_evidence_entry_iff permutes_set [OF assms])

lemma group_finding_permutation:
  assumes "mset items = mset items'" "inj_on ev_ID (set items)"
    and "permutes oi" "permutes op" "permutes oi'" "permutes op'"
  shows "group_finding hash oi op pg (k, items) = group_finding hash oi' op' pg (k, items')"
  using sort_key_permutation [OF assms(1,2)] deduplicate_order_independent [OF assms(3-6)]
  by (simp add: group_finding_def)

lemma group_findings_permutation:
  assumes m: "mset evidence = mset evidence'" and i: "inj_on ev_ID (set evidence)"
    and p: "permutes og" "permutes oi" "permutes op" "permutes og'" "permutes oi'" "permutes op'"
  shows "mset (group_findings hash og oi op pg evidence) = mset (group_findings hash og' oi' op' pg evidence')"
proof -
  have "mset (map fst (og (group_evidence evidence))) = mset (map fst (og' (group_evidence evidence')))"
    using p(1,4) group_evidence_mset [OF m] by (simp add: permutes_def)
  moreover have "group_finding hash oi op pg (k, group_of evidence k)
      = group_finding hash oi' op' pg (k, group_of evidence' k)" for k
  proof (rule group_finding_permutation [OF _ _ p(2,3,5,6)])
    show "mset (group_of evidence k) = mset (group_of evidence' k)" using m by (simp add: group_of_def)
    show "inj_on ev_ID (set (group_of evidence k))"
      using i by (rule inj_on_subset) (auto simp: group_of_def)
  qed
  ultimately show ?thesis
    unfolding group_findings_by_key [OF p(1)] group_findings_by_key [OF p(4)] by (simp only: mset_map)
qed

lemma Build_entry:
  assumes "permutes og" "permutes oi" "permutes op" "f \<in> set (Build hash og oi op pg evidence)"
  obtains f0 items d where "f0 \<in> set (group_findings hash og oi op pg evidence)"
    "f = with_conflicts (group_findings hash og oi op pg evidence) f0"
    "items = group_of evidence (finding_key f)" "items \<noteq> []"
    "d = deduplicate oi op pg (sort_key ev_ID items)" "d \<noteq> []" "set d \<subseteq> set items"
    "fi_EvidenceIDs f = map ev_ID d" "fi_Category f = ev_Category (hd d)"
    "strengthRank (fi_Strength f) = Max ((strengthRank \<circ> ev_Strength) ` set items)"
proof -
  let ?fs = "group_findings hash og oi op pg evidence"
  from assms(4) obtain f0 where f0: "f0 \<in> set ?fs" "f = with_conflicts ?fs f0" by (auto simp: Build_eq)
  from group_findings_entry [OF assms(1) f0(1)] obtain items where
    items: "f0 = group_finding hash oi op pg (finding_key f0, items)"
           "items = group_of evidence (finding_key f0)" "items \<noteq> []" .
  let ?d = "deduplicate oi op pg (sort_key ev_ID items)"
  have "sort_key ev_ID items \<noteq> []" using items(3) by (metis set_empty set_sort)
  then have "?d \<noteq> []" using assms by (simp add: deduplicate_not_empty)
  moreover have "set ?d \<subseteq> set items"
    using deduplicate_subset [OF assms(2,3), of pg "sort_key ev_ID items"] by simp
  moreover have "fi_EvidenceIDs f0 = map ev_ID ?d" "fi_Category f0 = ev_Category (hd ?d)"
    using items(1) group_finding_fields(3,4) by (metis snd_conv)+
  moreover have "strengthRank (fi_Strength f0) = Max ((strengthRank \<circ> ev_Strength) ` set items)"
    using group_finding_strength [OF assms(2,3) items(3)] items(1) by metis
  ultimately show thesis using that [of f0 items ?d] f0 items by simp
qed

lemma Build_ids:
  assumes "permutes og" "inj_on (findingID hash) (key_of ` set evidence)"
  shows "sorted_wrt (<) (map fi_ID (Build hash og oi op pg evidence))"
proof -
  let ?fs = "group_findings hash og oi op pg evidence"
  have "distinct (map fi_ID (map (with_conflicts ?fs) ?fs))"
    using distinct_finding_ids [OF assms] by (simp add: comp_def)
  then have "distinct (map fi_ID (Build hash og oi op pg evidence))"
    unfolding Build_eq distinct_map [of fi_ID] by simp
  then show ?thesis by (simp add: strict_sorted_iff Build_eq)
qed

section \<open>Theorems\<close>

text \<open>The findings do not depend on the order in which detectors deliver the evidence, nor on
  the iteration order of the maps the code builds, provided equal evidence identifiers mean equal
  evidence and distinct groups get distinct finding identifiers.\<close>

lemma build_deterministic:
  assumes "mset evidence = mset evidence'" and "inj_on ev_ID (set evidence)"
    and "inj_on (findingID hash) (key_of ` set evidence)"
    and "permutes og" "permutes oi" "permutes op" "permutes og'" "permutes oi'" "permutes op'"
  shows "Build hash og oi op pg evidence = Build hash og' oi' op' pg evidence'"
proof -
  let ?fs = "group_findings hash og oi op pg evidence"
  let ?gs = "group_findings hash og' oi' op' pg evidence'"
  have m: "mset ?fs = mset ?gs" by (rule group_findings_permutation [OF assms(1,2,4-9)])
  then have "with_conflicts ?gs = with_conflicts ?fs"
    by (intro ext with_conflicts_mset) simp
  moreover have "inj_on fi_ID (set (map (with_conflicts ?fs) ?fs))"
    using distinct_finding_ids [OF assms(4,3), of oi op pg] by (auto simp: distinct_map inj_on_def)
  ultimately show ?thesis unfolding Build_eq
    using sort_key_permutation [of "map (with_conflicts ?fs) ?fs" "map (with_conflicts ?fs) ?gs" fi_ID] m
    by simp
qed

definition example_evidence :: "string \<Rightarrow> string \<Rightarrow> strength \<Rightarrow> evidence" where
  "example_evidence i provider strength = \<lparr>ev_ID = i, ev_ObservationIDs = [''o1''], ev_DatasetRecords = [],
     ev_ClassifiedAt = 0, ev_DetectorID = ''prefix'', ev_RuleID = i, ev_Subject = ''192.0.2.1'',
     ev_ProviderID = provider, ev_ProductID = [], ev_Category = ''network'',
     ev_Relation = RelationNetworkProvider, ev_Strength = strength, ev_Activity = ActivityConfigured,
     ev_Scope = ScopeRoot, ev_Explanation = []\<rparr>"

definition example_items :: "evidence list" where
  "example_items = [example_evidence ''e1'' ''aws'' StrengthWeak, example_evidence ''e2'' ''gcp'' StrengthStrong,
     example_evidence ''e3'' ''aws'' StrengthStrong]"

lemma example_ids: "inj_on (findingID (\<lambda>s. s)) (key_of ` set example_items)"
  by (auto simp: inj_on_def example_items_def example_evidence_def findingID_def key_of_def)

lemma build_deterministic_example:
  "Build (\<lambda>s. s) (\<lambda>m. m) (\<lambda>m. m) (\<lambda>m. m) (\<lambda>_. None) example_items
   = Build (\<lambda>s. s) rev rev rev (\<lambda>_. None) (rev example_items)"
proof (rule build_deterministic)
  show "inj_on ev_ID (set example_items)"
    by (simp add: example_items_def example_evidence_def)
  show "inj_on (findingID (\<lambda>s. s)) (key_of ` set example_items)" by (rule example_ids)
qed (simp_all add: permutes_id permutes_rev)

text \<open>C17: Aggregation yields exactly one finding per subject, entity, relation and scope of the
  evidence, sorted by identifier. A finding cites only evidence of its own group, in strictly
  increasing order of identifier and never none, its strength is the strongest of its whole group
  (deduplication does not weaken it), and two findings conflict exactly when they are network
  findings on one subject, relation and scope that name different entities, so conflicts are
  mutual.\<close>

theorem build_findings_correct:
  fixes pg :: "json_value \<Rightarrow> string option"
  assumes "inj_on (findingID hash) (key_of ` set evidence)"
    and "permutes og" "permutes oi" "permutes op"
  defines "findings \<equiv> Build hash og oi op pg evidence"
  shows "sorted_wrt (<) (map fi_ID findings)
     \<and> distinct (map finding_key findings) \<and> set (map finding_key findings) = key_of ` set evidence
     \<and> (\<forall>f \<in> set findings.
          fi_EvidenceIDs f \<noteq> [] \<and> sorted_wrt (<) (fi_EvidenceIDs f)
          \<and> set (fi_EvidenceIDs f) \<subseteq> ev_ID ` set (group_of evidence (finding_key f))
          \<and> strengthRank (fi_Strength f)
              = Max ((strengthRank \<circ> ev_Strength) ` set (group_of evidence (finding_key f)))
          \<and> (\<forall>g \<in> set findings. fi_ID g \<in> set (fi_ConflictIDs f) \<longleftrightarrow> conflicting f g))"
proof -
  let ?fs = "group_findings hash og oi op pg evidence"
  have F: "findings = sort_key fi_ID (map (with_conflicts ?fs) ?fs)"
    by (simp add: findings_def Build_eq)
  have k: "mset (map finding_key findings) = mset (map finding_key ?fs)"
  proof -
    have "mset (map finding_key findings) = mset (map finding_key (map (with_conflicts ?fs) ?fs))"
      by (simp only: F mset_map mset_sort)
    then show ?thesis by (simp add: comp_def del: mset_map)
  qed
  have kd: "distinct (map finding_key findings)"
    using group_findings_keys(1) [OF assms(2)] k by (metis mset_eq_imp_distinct_iff)
  have ks: "set (map finding_key findings) = key_of ` set evidence"
    using mset_eq_setD [OF k] group_findings_keys(2) [OF assms(2), of hash oi op pg evidence] by simp
  have d: "distinct (map fi_ID ?fs)" by (rule distinct_finding_ids [OF assms(2,1)])
  have "fi_EvidenceIDs f \<noteq> [] \<and> sorted_wrt (<) (fi_EvidenceIDs f)
      \<and> set (fi_EvidenceIDs f) \<subseteq> ev_ID ` set (group_of evidence (finding_key f))
      \<and> strengthRank (fi_Strength f) = Max ((strengthRank \<circ> ev_Strength) ` set (group_of evidence (finding_key f)))
      \<and> (\<forall>g \<in> set findings. fi_ID g \<in> set (fi_ConflictIDs f) \<longleftrightarrow> conflicting f g)"
    if "f \<in> set findings" for f
  proof -
    from Build_entry [OF assms(2-4) that [unfolded findings_def]] obtain f0 items where
      f0: "f0 \<in> set ?fs" "f = with_conflicts ?fs f0"
      and items: "items = group_of evidence (finding_key f)"
      and ids: "fi_EvidenceIDs f = map ev_ID (deduplicate oi op pg (sort_key ev_ID items))"
        "deduplicate oi op pg (sort_key ev_ID items) \<noteq> []"
        "set (deduplicate oi op pg (sort_key ev_ID items)) \<subseteq> set items"
      and st: "strengthRank (fi_Strength f) = Max ((strengthRank \<circ> ev_Strength) ` set items)" by metis
    have "sorted (fi_EvidenceIDs f)" unfolding ids(1) by (simp add: deduplicate_kept)
    moreover have "distinct (fi_EvidenceIDs f)"
      unfolding ids(1) by (rule deduplicate_ids_distinct [OF assms(3,4)])
    moreover have "fi_ID g \<in> set (fi_ConflictIDs f) \<longleftrightarrow> conflicting f g" if g: "g \<in> set findings" for g
      by (rule conflict_id_iff [OF d f0 g [unfolded F]])
    ultimately show ?thesis using ids st by (auto simp: items strict_sorted_iff)
  qed
  with kd ks Build_ids [OF assms(2,1)] show ?thesis unfolding findings_def by blast
qed

theorem build_findings_correct_witness:
  "set (map finding_key (Build (\<lambda>s. s) (\<lambda>m. m) rev rev (\<lambda>_. None) example_items))
     = {key_of (example_evidence ''e1'' ''aws'' StrengthWeak), key_of (example_evidence ''e2'' ''gcp'' StrengthStrong)}
   \<and> distinct (map finding_key (Build (\<lambda>s. s) (\<lambda>m. m) rev rev (\<lambda>_. None) example_items))"
proof -
  let ?fs = "Build (\<lambda>s. s) (\<lambda>m. m) rev rev (\<lambda>_. None) example_items"
  have "distinct (map finding_key ?fs) \<and> set (map finding_key ?fs) = key_of ` set example_items"
    using build_findings_correct [OF example_ids permutes_id permutes_rev permutes_rev, of "\<lambda>_. None"]
    by blast
  moreover have "key_of ` set example_items = {key_of (example_evidence ''e1'' ''aws'' StrengthWeak),
      key_of (example_evidence ''e2'' ''gcp'' StrengthStrong)}"
    by (auto simp: example_items_def key_of_def example_evidence_def)
  ultimately show ?thesis by simp
qed

text \<open>A report whose observations and evidence pass the reference check, and whose evidence
  names a provider unless it is technology-only, still passes it with the aggregated findings:
  every finding has an identifier of its own, a provider where one is needed and evidence of the
  report.\<close>

lemma aggregated_report_validates:
  assumes "ValidateReferences (r\<lparr>re_Findings := []\<rparr>) = None"
    and "\<forall>e \<in> set (re_Evidence r). ev_ProviderID e = [] \<longrightarrow> ev_ProductID e \<noteq> []
           \<and> ev_Category e = ''web_technology'' \<and> ev_Relation e = RelationWebIntegration"
    and "inj_on (findingID hash) (key_of ` set (re_Evidence r))"
    and "permutes og" "permutes oi" "permutes op"
  shows "ValidateReferences (r\<lparr>re_Findings := Build hash og oi op pg (re_Evidence r)\<rparr>) = None"
proof -
  have "wf_finding (ev_ID ` set (re_Evidence r)) f" if f: "f \<in> set (Build hash og oi op pg (re_Evidence r))" for f
  proof -
    from Build_entry [OF assms(4-6) f] obtain f0 d where
      f0: "f0 \<in> set (group_findings hash og oi op pg (re_Evidence r))"
        "fi_ID f = fi_ID f0"
      and d: "d \<noteq> []" "set d \<subseteq> set (group_of (re_Evidence r) (finding_key f))"
        "fi_EvidenceIDs f = map ev_ID d" "fi_Category f = ev_Category (hd d)"
      by (metis with_conflicts_fields(1))
    have ne: "fi_ID f \<noteq> []" using f0 by (auto simp: group_findings_def group_finding_fields findingID_def)
    have "hd d \<in> set (re_Evidence r)" "key_of (hd d) = finding_key f"
      using d(1,2) by (auto simp: group_of_def dest: hd_in_set)
    with assms(2) d(4) have "fi_ProviderID f \<noteq> [] \<or> technology_only f"
      by (auto simp: key_of_def finding_key_def technology_only_def)
    with ne d(1-3) show ?thesis by (auto simp: wf_finding_def group_of_def)
  qed
  moreover have "distinct (map fi_ID (Build hash og oi op pg (re_Evidence r)))"
    using Build_ids [OF assms(4,3)] by (simp add: strict_sorted_iff)
  ultimately show ?thesis using assms(1) by (simp add: ValidateReferences_iff wf_report_def)
qed

definition example_report :: report where
  "example_report = zero_report\<lparr>re_Evidence := example_items, re_Observations :=
     [\<lparr>ob_ID = ''o1'', ob_Type = ''ip'', ob_Subject = ''192.0.2.1'', ob_Relation = [], ob_Scope = ScopeRoot,
       ob_ObservedAt = 0, ob_CollectorVersion = [], ob_Status = ''answered'', ob_Payload = [], ob_ContentHash = []\<rparr>]\<rparr>"

lemma aggregated_report_validates_example:
  "ValidateReferences (example_report\<lparr>re_Findings :=
     Build (\<lambda>s. s) rev rev (\<lambda>m. m) (\<lambda>_. None) (re_Evidence example_report)\<rparr>) = None"
proof (rule aggregated_report_validates)
  show "ValidateReferences (example_report\<lparr>re_Findings := []\<rparr>) = None"
    by (simp add: ValidateReferences_def example_report_def zero_report_def example_items_def example_evidence_def)
  show "\<forall>e \<in> set (re_Evidence example_report). ev_ProviderID e = [] \<longrightarrow> ev_ProductID e \<noteq> []
           \<and> ev_Category e = ''web_technology'' \<and> ev_Relation e = RelationWebIntegration"
    by (simp add: example_report_def example_items_def example_evidence_def)
  show "inj_on (findingID (\<lambda>s. s)) (key_of ` set (re_Evidence example_report))"
    using example_ids by (simp add: example_report_def)
qed (simp_all add: permutes_id permutes_rev)

end
