(* ===== verification/Asn.thy ===== *)
theory Asn
  imports Model Go_Library
begin

text \<open>
  Packages internal/ingest/iptoasn and internal/enrich/asn: the import of the published IP-to-ASN
  interval files and the immutable interval index with its binary search.

  The texts of the errors of the standard library are abbreviated.
\<close>

section \<open>The order of addresses\<close>

text \<open>\<open>Addr.Compare\<close> orders by family, then by value, then by zone.\<close>

instantiation addr :: linorder
begin

definition less_eq_addr :: "addr \<Rightarrow> addr \<Rightarrow> bool" where
  "less_eq_addr a b = (addr_compare a b \<le> 0)"

definition less_addr :: "addr \<Rightarrow> addr \<Rightarrow> bool" where
  "less_addr a b = (addr_compare a b < 0)"

instance
proof
  fix a b c :: addr
  show "(a < b) = (a \<le> b \<and> \<not> b \<le> a)"
    by (auto simp: less_eq_addr_def less_addr_def addr_compare_def)
  show "a \<le> a" by (simp add: less_eq_addr_def addr_compare_def)
  show "a \<le> b \<Longrightarrow> b \<le> c \<Longrightarrow> a \<le> c"
    by (auto simp: less_eq_addr_def addr_compare_def split: if_splits)
  show "a \<le> b \<Longrightarrow> b \<le> a \<Longrightarrow> a = b"
    by (cases a; cases b) (auto simp: less_eq_addr_def addr_compare_def word_unat_eq_iff split: if_splits)
  show "a \<le> b \<or> b \<le> a" by (auto simp: less_eq_addr_def addr_compare_def)
qed

end

lemma addr_compare_order:
  "addr_compare a b > 0 \<longleftrightarrow> b < a" "addr_compare a b \<ge> 0 \<longleftrightarrow> b \<le> a" "addr_compare a b < 0 \<longleftrightarrow> a < b"
  by (auto simp: less_eq_addr_def less_addr_def addr_compare_def)

lemma addr_between_is4: "a \<le> x \<Longrightarrow> x \<le> b \<Longrightarrow> is4 a \<Longrightarrow> is4 b \<Longrightarrow> is4 x"
  by (cases a; cases b; cases x) (auto simp: less_eq_addr_def addr_compare_def split: if_splits)

lemma addr_between_not_is4:
  "a \<le> x \<Longrightarrow> x \<le> b \<Longrightarrow> \<not> is4 a \<Longrightarrow> addr_valid a \<Longrightarrow> \<not> is4 x"
  by (cases a; cases x) (auto simp: less_eq_addr_def addr_compare_def split: if_splits)

section \<open>Import\<close>

record interval =
  iv_Start :: addr
  iv_End :: addr
  iv_ASN :: "32 word"
  iv_CountryCode :: string
  iv_Description :: string
  iv_SourceID :: string
  iv_RecordRef :: string
  iv_Revision :: string
  iv_Digest :: string

record asn_metadata =
  md_Revision :: string
  md_Digest :: string

definition maxInputBytes :: nat where "maxInputBytes = 67108864"

text \<open>\<open>strconv.ParseUint(s, 10, bits)\<close>.\<close>

definition parse_uint :: "nat \<Rightarrow> string \<Rightarrow> nat option" where
  "parse_uint bits s =
     (if s = [] \<or> \<not> list_all is_digit s then None
      else if decimal_value s \<ge> 2 ^ bits then None else Some (decimal_value s))"

definition sourceID :: "bool \<Rightarrow> string" where
  "sourceID v4 = (if v4 then ''iptoasn-v4'' else ''iptoasn-v6'')"

definition addr_from4 :: "nat \<Rightarrow> nat \<Rightarrow> nat \<Rightarrow> nat \<Rightarrow> addr" where
  "addr_from4 a b c d = V4 (word_of_nat (((a * 256 + b) * 256 + c) * 256 + d))"

definition parseAddress :: "string \<Rightarrow> bool \<Rightarrow> go_error + addr" where
  "parseAddress raw v4 =
     (if v4 then
        if contains raw ''.'' then
          (case parse_addr raw of
             None \<Rightarrow> Inl (Errorf ''ParseAddr'')
           | Some address \<Rightarrow> if \<not> is4 address then Inl (Errorf ''expected IPv4 address'') else Inr address)
        else
          (case parse_uint 32 raw of
             None \<Rightarrow> Inl (Errorf ''ParseUint'')
           | Some n \<Rightarrow>
               if n > 4294967295 then Inl (Errorf ''IPv4 integer out of range'')
               else Inr (addr_from4 (n div 16777216 mod 256) (n div 65536 mod 256) (n div 256 mod 256) (n mod 256)))
      else
        (case parse_addr raw of
           None \<Rightarrow> Inl (Errorf ''ParseAddr'')
         | Some a \<Rightarrow> if is4 a then Inl (Errorf ''expected IPv6 address'') else Inr a))"

definition at_line :: "nat \<Rightarrow> string \<Rightarrow> string" where
  "at_line line what = ''line '' @ nat_string line @ what"

definition parse_line :: "bool \<Rightarrow> asn_metadata \<Rightarrow> nat \<Rightarrow> string \<Rightarrow> go_error + interval" where
  "parse_line v4 metadata line content =
     (if content = [] then Inl (Errorf (at_line line '': blank lines are not permitted''))
      else case split_on CHR 0x09 content of
        [f0, f1, f2, f3, f4] \<Rightarrow>
          and_then (map_error (Wrap (at_line line '' start'')) (parseAddress f0 v4)) (\<lambda>start.
          and_then (map_error (Wrap (at_line line '' end'')) (parseAddress f1 v4)) (\<lambda>end.
            if addr_compare start end > 0
            then Inl (Errorf (at_line line '': interval end precedes start''))
            else case parse_uint 32 f2 of
                None \<Rightarrow> Inl (Wrap (at_line line '' ASN'') (Errorf ''ParseUint''))
              | Some asn \<Rightarrow>
                  Inr \<lparr>iv_Start = start, iv_End = end, iv_ASN = word_of_nat asn, iv_CountryCode = f3,
                       iv_Description = f4, iv_SourceID = sourceID v4, iv_RecordRef = nat_string line,
                       iv_Revision = md_Revision metadata, iv_Digest = md_Digest metadata\<rparr>))
      | _ \<Rightarrow> Inl (Errorf (at_line line '': expected five TSV fields'')))"

fun parse_lines :: "bool \<Rightarrow> asn_metadata \<Rightarrow> nat \<Rightarrow> interval list \<Rightarrow> string list \<Rightarrow> go_error + interval list" where
  "parse_lines v4 metadata line intervals [] = Inr intervals"
| "parse_lines v4 metadata line intervals (content # rest) =
     and_then (parse_line v4 metadata (Suc line) content) (\<lambda>interval.
       if intervals \<noteq> [] \<and> addr_compare (iv_End (last intervals)) (iv_Start interval) \<ge> 0
       then Inl (Errorf (at_line (Suc line) '': interval overlaps or is unordered''))
       else parse_lines v4 metadata (Suc line) (intervals @ [interval]) rest)"

definition parse_asn :: "string \<Rightarrow> bool \<Rightarrow> asn_metadata \<Rightarrow> go_error + interval list" where
  "parse_asn data v4 metadata =
     (if data = [] then Inl (Errorf ''empty IPtoASN input'')
      else if length data > maxInputBytes then Inl (Errorf ''IPtoASN input exceeds byte limit'')
      else (case scan_lines data of (content, too_long) \<Rightarrow>
        and_then (parse_lines v4 metadata 0 [] content) (\<lambda>intervals.
          if too_long then Inl (Wrap ''read IPtoASN input'' (Errorf ''bufio.Scanner: token too long''))
          else if intervals = [] then Inl (Errorf ''IPtoASN input contains no intervals'')
          else Inr intervals)))"

definition ParseV4 :: "string \<Rightarrow> asn_metadata \<Rightarrow> go_error + interval list" where
  "ParseV4 data metadata = parse_asn data True metadata"

definition ParseV6 :: "string \<Rightarrow> asn_metadata \<Rightarrow> go_error + interval list" where
  "ParseV6 data metadata = parse_asn data False metadata"

section \<open>The index\<close>

record asn_index =
  ix_v4 :: "interval list"
  ix_v6 :: "interval list"

definition invalid_interval :: "interval \<Rightarrow> bool" where
  "invalid_interval item = (\<not> addr_valid (iv_Start item) \<or> \<not> addr_valid (iv_End item)
     \<or> is4 (iv_Start item) \<noteq> is4 (iv_End item) \<or> addr_compare (iv_Start item) (iv_End item) > 0)"

fun split_families :: "interval list \<Rightarrow> asn_index \<Rightarrow> go_error + asn_index" where
  "split_families [] index = Inr index"
| "split_families (item # items) index =
     (if invalid_interval item
      then Inl (Errorf (''invalid ASN interval '' @ addr_string (iv_Start item) @ ''..'' @ addr_string (iv_End item)))
      else if is4 (iv_Start item) then split_families items (index\<lparr>ix_v4 := ix_v4 index @ [item]\<rparr>)
      else split_families items (index\<lparr>ix_v6 := ix_v6 index @ [item]\<rparr>))"

fun overlapping :: "interval list \<Rightarrow> bool" where
  "overlapping (a # b # rest) = (addr_compare (iv_End a) (iv_Start b) \<ge> 0 \<or> overlapping (b # rest))"
| "overlapping _ = False"

definition NewASN :: "interval list \<Rightarrow> go_error + asn_index" where
  "NewASN intervals =
     and_then (split_families intervals \<lparr>ix_v4 = [], ix_v6 = []\<rparr>) (\<lambda>index.
       let v4 = sort_key iv_Start (ix_v4 index); v6 = sort_key iv_Start (ix_v6 index) in
       if overlapping v4 \<or> overlapping v6 then Inl (Errorf ''overlapping ASN intervals'')
       else Inr \<lparr>ix_v4 = v4, ix_v6 = v6\<rparr>)"

text \<open>\<open>sort.Search\<close>: the bisection of the standard library.\<close>

function search_loop :: "(nat \<Rightarrow> bool) \<Rightarrow> nat \<Rightarrow> nat \<Rightarrow> nat" where
  "search_loop f i j =
     (if i < j then
        let h = (i + j) div 2 in
        if \<not> f h then search_loop f (h + 1) j else search_loop f i h
      else i)"
  by auto
termination by (relation "measure (\<lambda>(f, i, j). j - i)") auto

declare search_loop.simps [simp del]

definition sort_search :: "nat \<Rightarrow> (nat \<Rightarrow> bool) \<Rightarrow> nat" where
  "sort_search n f = search_loop f 0 n"

definition asn_record_of :: "interval \<Rightarrow> asn_record" where
  "asn_record_of item = \<lparr>an_ASN = iv_ASN item, an_Description = iv_Description item,
     an_CountryCode = iv_CountryCode item, an_SourceID = iv_SourceID item,
     an_SourceRevision = iv_Revision item, an_SourceDigest = iv_Digest item, an_RecordRef = iv_RecordRef item\<rparr>"

definition asn_coverage :: coverage where
  "asn_coverage = zero_coverage\<lparr>cv_Capability := ''asn'', cv_Status := CoverageComplete,
     cv_Attempted := 1, cv_Completed := 1\<rparr>"

definition LookupASN :: "asn_index \<Rightarrow> go_error option \<Rightarrow> addr \<Rightarrow> go_error + asn_record list \<times> coverage" where
  "LookupASN index ctx_err address =
     (case ctx_err of Some e \<Rightarrow> Inl e | None \<Rightarrow>
      (let address = unmap address in
       if \<not> addr_valid address then Inl (NewError CodeInvalidTarget ''IP address is invalid'' None)
       else
         let entries = (if is4 address then ix_v4 index else ix_v6 index);
             position = int (sort_search (length entries)
               (\<lambda>n. addr_compare (iv_Start (entries ! n)) address > 0)) - 1
         in if position \<ge> 0 \<and> addr_compare (iv_End (entries ! nat position)) address \<ge> 0
            then Inr ([asn_record_of (entries ! nat position)], asn_coverage)
            else Inr ([], asn_coverage)))"

section \<open>Bisection\<close>

lemma search_loop_correct:
  assumes "i \<le> j" and "\<And>x y. x \<le> y \<Longrightarrow> y < j \<Longrightarrow> f x \<Longrightarrow> f y"
  shows "i \<le> search_loop f i j \<and> search_loop f i j \<le> j
    \<and> (\<forall>n. i \<le> n \<and> n < search_loop f i j \<longrightarrow> \<not> f n)
    \<and> (\<forall>n. search_loop f i j \<le> n \<and> n < j \<longrightarrow> f n)"
  using assms
proof (induction f i j rule: search_loop.induct)
  case (1 f i j)
  show ?case
  proof (cases "i < j")
    case False
    then have "search_loop f i j = i" by (subst search_loop.simps) simp
    with False 1(3) show ?thesis by auto
  next
    case True
    define h where "h = (i + j) div 2"
    with True have h: "i \<le> h" "h < j" by auto
    show ?thesis
    proof (cases "f h")
      case True
      have IH: "i \<le> search_loop f i h \<and> search_loop f i h \<le> h
        \<and> (\<forall>n. i \<le> n \<and> n < search_loop f i h \<longrightarrow> \<not> f n) \<and> (\<forall>n. search_loop f i h \<le> n \<and> n < h \<longrightarrow> f n)"
        using 1(2) [OF \<open>i < j\<close> h_def] True h 1(4) by simp
      moreover have "f n" if "h \<le> n" "n < j" for n using 1(4) [OF that True] .
      ultimately show ?thesis
        using \<open>i < j\<close> True h by (auto simp: search_loop.simps [of f i j] h_def [symmetric]) (metis not_less)
    next
      case False
      have IH: "h + 1 \<le> search_loop f (h + 1) j \<and> search_loop f (h + 1) j \<le> j
        \<and> (\<forall>n. h + 1 \<le> n \<and> n < search_loop f (h + 1) j \<longrightarrow> \<not> f n)
        \<and> (\<forall>n. search_loop f (h + 1) j \<le> n \<and> n < j \<longrightarrow> f n)"
        using 1(1) [OF \<open>i < j\<close> h_def] False h 1(4) by simp
      moreover have "\<not> f n" if "n \<le> h" for n using 1(4) [OF that h(2)] False by blast
      ultimately show ?thesis
        using \<open>i < j\<close> False h
        by (auto simp: search_loop.simps [of f i j] h_def [symmetric]) (metis Suc_leI not_less)
    qed
  qed
qed

section \<open>The intervals of an index\<close>

definition covers_addr :: "addr \<Rightarrow> interval \<Rightarrow> bool" where
  "covers_addr a item \<longleftrightarrow> iv_Start item \<le> a \<and> a \<le> iv_End item"

definition apart :: "interval \<Rightarrow> interval \<Rightarrow> bool" where
  "apart x y \<longleftrightarrow> iv_End x < iv_Start y"

definition wf_interval :: "interval \<Rightarrow> bool" where
  "wf_interval item \<longleftrightarrow> addr_valid (iv_Start item) \<and> addr_valid (iv_End item)
     \<and> is4 (iv_Start item) = is4 (iv_End item) \<and> iv_Start item \<le> iv_End item"

lemma invalid_interval_iff: "invalid_interval item \<longleftrightarrow> \<not> wf_interval item"
  by (auto simp: invalid_interval_def wf_interval_def addr_compare_order)

lemma split_families_Inr:
  "split_families items ix = Inr ix' \<longleftrightarrow> list_all wf_interval items
     \<and> ix' = ix\<lparr>ix_v4 := ix_v4 ix @ filter (is4 \<circ> iv_Start) items,
                ix_v6 := ix_v6 ix @ filter (Not \<circ> is4 \<circ> iv_Start) items\<rparr>"
  by (induction items arbitrary: ix) (auto simp: invalid_interval_iff)

lemma not_overlapping_apart:
  assumes "\<forall>x \<in> set xs. wf_interval x" and "\<not> overlapping xs"
  shows "sorted_wrt apart xs"
  using assms
proof (induction xs rule: overlapping.induct)
  case (1 a b rest)
  then have IH: "sorted_wrt apart (b # rest)" by simp
  from 1 have ab: "apart a b" and b: "iv_Start b \<le> iv_End b"
    by (simp_all add: apart_def addr_compare_order wf_interval_def not_le)
  have "apart a x" if "x \<in> set rest" for x
    using IH ab b that by (force simp: apart_def)
  with IH ab show ?case by simp
qed simp_all

lemma apart_overlapping: "sorted_wrt apart xs \<Longrightarrow> \<not> overlapping xs"
  by (induction xs rule: overlapping.induct) (auto simp: apart_def addr_compare_order)

lemma at_most_one_cover: "sorted_wrt apart xs \<Longrightarrow> length (filter (covers_addr a) xs) \<le> 1"
proof (induction xs)
  case (Cons x xs)
  show ?case
  proof (cases "covers_addr a x")
    case True
    with Cons.prems have "\<forall>y \<in> set xs. \<not> covers_addr a y"
      by (auto simp: covers_addr_def apart_def)
    then have "filter (covers_addr a) xs = []" by (simp add: filter_empty_conv)
    then show ?thesis by simp
  qed (use Cons in simp)
qed simp

lemma short_list_eq: "mset xs = mset ys \<Longrightarrow> length xs \<le> 1 \<Longrightarrow> xs = ys"
  by (cases xs; cases ys) (auto dest: mset_eq_length)

text \<open>The bisection finds the entry that covers the address, if there is one.\<close>

lemma search_finds_cover:
  fixes entries :: "interval list" and a :: addr
  assumes s: "sorted_wrt apart entries" and w: "\<forall>x \<in> set entries. wf_interval x"
  defines "p \<equiv> sort_search (length entries) (\<lambda>n. addr_compare (iv_Start (entries ! n)) a > 0)"
  shows "filter (covers_addr a) entries
    = (if 0 < p \<and> addr_compare (iv_End (entries ! (p - 1))) a \<ge> 0 then [entries ! (p - 1)] else [])"
proof -
  let ?f = "\<lambda>n. addr_compare (iv_Start (entries ! n)) a > 0"
  have mono: "?f y" if "x \<le> y" "y < length entries" "?f x" for x y
  proof (cases "x = y")
    case False
    with that have "apart (entries ! x) (entries ! y)" using s by (simp add: sorted_wrt_iff_nth_less)
    moreover have "iv_Start (entries ! x) \<le> iv_End (entries ! x)" using w that by (simp add: wf_interval_def)
    ultimately show ?thesis using that(3) by (auto simp: apart_def addr_compare_order)
  qed (use that in simp)
  from search_loop_correct [of 0 "length entries" ?f, OF _ mono]
  have p: "p \<le> length entries" "\<And>n. n < p \<Longrightarrow> iv_Start (entries ! n) \<le> a"
    "\<And>n. p \<le> n \<Longrightarrow> n < length entries \<Longrightarrow> a < iv_Start (entries ! n)"
    by (auto simp: p_def sort_search_def addr_compare_order not_less)
  have right: "filter (covers_addr a) (drop p entries) = []"
    using p(3) by (auto simp: filter_empty_conv in_set_conv_nth covers_addr_def not_le)
  show ?thesis
  proof (cases "p = 0")
    case True
    with right show ?thesis by simp
  next
    case False
    let ?e = "entries ! (p - 1)"
    have "\<not> covers_addr a (entries ! n)" if "n < p - 1" for n
    proof -
      have "apart (entries ! n) ?e" using s that p(1) by (simp add: sorted_wrt_iff_nth_less)
      with p(2) [of "p - 1"] False show ?thesis by (auto simp: apart_def covers_addr_def)
    qed
    then have left: "filter (covers_addr a) (take (p - 1) entries) = []"
      by (auto simp: filter_empty_conv in_set_conv_nth)
    have "entries = take (p - 1) entries @ ?e # drop p entries"
      using False p(1) id_take_nth_drop [of "p - 1" entries] by simp
    then have "filter (covers_addr a) entries = filter (covers_addr a) (take (p - 1) entries @ ?e # drop p entries)"
      by (rule arg_cong)
    also have "\<dots> = (if covers_addr a ?e then [?e] else [])"
      by (simp only: filter_append filter.simps left right append_Nil if_cancel)
    also have "covers_addr a ?e \<longleftrightarrow> addr_compare (iv_End ?e) a \<ge> 0"
      using p(2) [of "p - 1"] False by (simp add: covers_addr_def addr_compare_order)
    finally show ?thesis using False by simp
  qed
qed

lemma covers_family: "wf_interval item \<Longrightarrow> covers_addr a item \<Longrightarrow> is4 (iv_Start item) = is4 a"
  unfolding wf_interval_def covers_addr_def
  using addr_between_is4 addr_between_not_is4 by blast

lemma NewASN_Inr:
  assumes "NewASN intervals = Inr index"
  shows "list_all wf_interval intervals"
    and "ix_v4 index = sort_key iv_Start (filter (is4 \<circ> iv_Start) intervals)"
    and "ix_v6 index = sort_key iv_Start (filter (Not \<circ> is4 \<circ> iv_Start) intervals)"
    and "sorted_wrt apart (ix_v4 index)" "sorted_wrt apart (ix_v6 index)"
proof -
  from assms obtain ix where ix: "split_families intervals \<lparr>ix_v4 = [], ix_v6 = []\<rparr> = Inr ix"
    "\<not> overlapping (sort_key iv_Start (ix_v4 ix))" "\<not> overlapping (sort_key iv_Start (ix_v6 ix))"
    "index = \<lparr>ix_v4 = sort_key iv_Start (ix_v4 ix), ix_v6 = sort_key iv_Start (ix_v6 ix)\<rparr>"
    by (auto simp: NewASN_def and_then_Inr_iff Let_def split: if_splits)
  then show w: "list_all wf_interval intervals"
    and v: "ix_v4 index = sort_key iv_Start (filter (is4 \<circ> iv_Start) intervals)"
      "ix_v6 index = sort_key iv_Start (filter (Not \<circ> is4 \<circ> iv_Start) intervals)"
    by (simp_all add: split_families_Inr)
  show "sorted_wrt apart (ix_v4 index)" "sorted_wrt apart (ix_v6 index)"
    using w v ix by (auto simp: list_all_iff split_families_Inr intro!: not_overlapping_apart)
qed

lemma lookup_entries:
  assumes "sorted_wrt apart entries" "\<forall>x \<in> set entries. wf_interval x"
    and "entries = sort_key iv_Start (filter P intervals)"
    and "\<And>x. x \<in> set intervals \<Longrightarrow> covers_addr a x \<Longrightarrow> P x"
  shows "filter (covers_addr a) entries = filter (covers_addr a) intervals"
proof (rule short_list_eq)
  have "filter (covers_addr a) (filter P intervals) = filter (covers_addr a) intervals"
    using assms(4) by (auto intro: filter_cong)
  then show "mset (filter (covers_addr a) entries) = mset (filter (covers_addr a) intervals)"
    using assms(3) by (metis mset_filter mset_sort)
qed (rule at_most_one_cover [OF assms(1)])

lemma index_entries:
  assumes "NewASN intervals = Inr index"
  defines "entries \<equiv> \<lambda>a. if is4 a then ix_v4 index else ix_v6 index"
  shows "filter (covers_addr a) (entries a) = filter (covers_addr a) intervals"
    and "sorted_wrt apart (entries a)" "\<forall>x \<in> set (entries a). wf_interval x"
proof -
  note n = NewASN_Inr [OF assms(1)]
  show s: "sorted_wrt apart (entries a)" and w: "\<forall>x \<in> set (entries a). wf_interval x"
    using n by (auto simp: entries_def list_all_iff)
  have fam: "is4 (iv_Start x) = is4 a" if "x \<in> set intervals" "covers_addr a x" for x
    using that n(1) covers_family by (auto simp: list_all_iff)
  show "filter (covers_addr a) (entries a) = filter (covers_addr a) intervals"
  proof (cases "is4 a")
    case True
    with n(2) fam show ?thesis
      by (intro lookup_entries [OF s w, of "is4 \<circ> iv_Start"]) (simp_all add: entries_def)
  next
    case False
    with n(3) fam show ?thesis
      by (intro lookup_entries [OF s w, of "Not \<circ> is4 \<circ> iv_Start"]) (simp_all add: entries_def)
  qed
qed

lemma lookup_scan:
  assumes "NewASN intervals = Inr index" and "addr_valid a"
  shows "LookupASN index None a
           = Inr (map asn_record_of (filter (covers_addr (unmap a)) intervals), asn_coverage)
    \<and> length (filter (covers_addr (unmap a)) intervals) \<le> 1"
proof -
  let ?a = "unmap a"
  let ?es = "if is4 ?a then ix_v4 index else ix_v6 index"
  let ?p = "sort_search (length ?es) (\<lambda>n. addr_compare (iv_Start (?es ! n)) ?a > 0)"
  note e = index_entries [OF assms(1), of ?a]
  note f = search_finds_cover [OF e(2,3), of ?a]
  have l: "LookupASN index None a = (if int ?p - 1 \<ge> 0 \<and> addr_compare (iv_End (?es ! nat (int ?p - 1))) ?a \<ge> 0
      then Inr ([asn_record_of (?es ! nat (int ?p - 1))], asn_coverage) else Inr ([], asn_coverage))"
    using assms(2) by (simp add: LookupASN_def Let_def)
  have q: "int ?p - 1 \<ge> 0 \<longleftrightarrow> 0 < ?p" "nat (int ?p - 1) = ?p - 1" by linarith+
  have "LookupASN index None a = Inr (map asn_record_of (filter (covers_addr ?a) ?es), asn_coverage)"
    unfolding l q f by simp
  with e(1) at_most_one_cover [OF e(2), of ?a] show ?thesis by simp
qed

text \<open>C25: The binary search of the ASN index answers like a scan of the loaded intervals: for every
  valid address, IPv4-mapped ones included, it returns the record of the interval that contains
  it, or nothing when none does, and at most one interval contains it.\<close>

theorem asn_lookup_correct:
  assumes "NewASN intervals = Inr index" and "addr_valid a"
  shows "LookupASN index None a
           = Inr (map asn_record_of (filter (covers_addr (unmap a)) intervals), asn_coverage)
    \<and> length (filter (covers_addr (unmap a)) intervals) \<le> 1"
  by (rule lookup_scan [OF assms])

definition example_interval :: "addr \<Rightarrow> addr \<Rightarrow> interval" where
  "example_interval s e = \<lparr>iv_Start = s, iv_End = e, iv_ASN = 64500, iv_CountryCode = ''US'',
     iv_Description = ''EXAMPLE'', iv_SourceID = ''iptoasn-v4'', iv_RecordRef = ''1'', iv_Revision = ''r'', iv_Digest = ''d''\<rparr>"

theorem asn_lookup_correct_witness:
  "LookupASN \<lparr>ix_v4 = [example_interval (V4 10) (V4 19), example_interval (V4 20) (V4 25)], ix_v6 = []\<rparr> None (V4 21)
   = Inr ([asn_record_of (example_interval (V4 20) (V4 25))], asn_coverage)"
proof -
  have "NewASN [example_interval (V4 20) (V4 25), example_interval (V4 10) (V4 19)]
    = Inr \<lparr>ix_v4 = [example_interval (V4 10) (V4 19), example_interval (V4 20) (V4 25)], ix_v6 = []\<rparr>"
    by (simp add: NewASN_def invalid_interval_def example_interval_def addr_compare_def
        less_eq_addr_def Let_def sort_key_def)
  from asn_lookup_correct [OF this, of "V4 21"] show ?thesis
    by (simp add: covers_addr_def example_interval_def less_eq_addr_def addr_compare_def)
qed

section \<open>Imported files\<close>

lemma parse_ip6_valid: "parse_ip6 s = Some a \<Longrightarrow> \<exists>w z. a = V6 w z"
  by (auto simp: parse_ip6_def split: prod.splits option.splits if_splits)

lemma parse_addr_scan_valid: "parse_addr_scan s t = Some a \<Longrightarrow> addr_valid a"
  by (induction s t rule: parse_addr_scan.induct) (auto split: if_splits dest: parse_ip6_valid)

lemma parseAddress_family: "parseAddress raw v4 = Inr a \<Longrightarrow> addr_valid a \<and> is4 a = v4"
  using parse_addr_scan_valid
  by (auto simp: parseAddress_def parse_addr_def addr_from4_def split: if_splits option.splits)

lemma parse_line_wf:
  assumes "parse_line v4 m n content = Inr iv"
  shows "wf_interval iv \<and> is4 (iv_Start iv) = v4"
  using assms
  by (auto simp: parse_line_def and_then_Inr_iff map_error_def wf_interval_def addr_compare_order not_less
      split: if_splits list.splits sum.splits option.splits dest!: parseAddress_family)

lemma parse_lines_sound:
  assumes "parse_lines v4 m n acc content = Inr ivs"
    and "sorted_wrt apart acc" "\<forall>x \<in> set acc. wf_interval x \<and> is4 (iv_Start x) = v4"
  shows "sorted_wrt apart ivs \<and> (\<forall>x \<in> set ivs. wf_interval x \<and> is4 (iv_Start x) = v4)"
  using assms
proof (induction v4 m n acc content rule: parse_lines.induct)
  case (2 v4 m line acc content rest)
  then obtain iv where iv: "parse_line v4 m (Suc line) content = Inr iv"
    "acc = [] \<or> iv_End (last acc) < iv_Start iv" "parse_lines v4 m (Suc line) (acc @ [iv]) rest = Inr ivs"
    by (auto simp: and_then_Inr_iff addr_compare_order not_le split: if_splits)
  note w = parse_line_wf [OF iv(1)]
  have "apart x iv" if "x \<in> set acc" for x
  proof (cases "x = last acc")
    case True
    with iv(2) that show ?thesis by (auto simp: apart_def)
  next
    case False
    with that have "x \<in> set (butlast acc)" by (metis in_set_butlast_appendI append_butlast_last_id
        empty_iff list.set(1) rotate1.simps(2) set_ConsD set_rotate1)
    moreover have "sorted_wrt apart (butlast acc @ [last acc])" using "2.prems"(2) that
      by (metis append_butlast_last_id empty_iff list.set(1))
    ultimately have "apart x (last acc)" by (simp add: sorted_wrt_append)
    moreover have "last acc \<in> set acc" using that by (cases acc rule: rev_cases) auto
    then have "iv_Start (last acc) \<le> iv_End (last acc)"
      using "2.prems"(3) by (auto simp: wf_interval_def)
    ultimately show ?thesis using iv(2) that by (auto simp: apart_def)
  qed
  with "2.prems"(2) have "sorted_wrt apart (acc @ [iv])" by (simp add: sorted_wrt_append)
  moreover have "\<forall>x \<in> set (acc @ [iv]). wf_interval x \<and> is4 (iv_Start x) = v4"
    using "2.prems"(3) w by auto
  moreover have "\<not> (acc \<noteq> [] \<and> addr_compare (iv_End (last acc)) (iv_Start iv) \<ge> 0)"
    using iv(2) by (auto simp: addr_compare_order not_le)
  ultimately show ?case using "2.IH" iv by blast
qed simp

lemma parse_asn_sound:
  assumes "parse_asn data v4 m = Inr ivs"
  shows "ivs \<noteq> [] \<and> sorted_wrt apart ivs \<and> (\<forall>x \<in> set ivs. wf_interval x \<and> is4 (iv_Start x) = v4)"
proof -
  from assms obtain content where "parse_lines v4 m 0 [] content = Inr ivs" "ivs \<noteq> []"
    by (auto simp: parse_asn_def and_then_Inr_iff split: if_splits prod.splits)
  with parse_lines_sound [of v4 m 0 "[]" content ivs] show ?thesis by simp
qed

lemma apart_sort_id:
  assumes "sorted_wrt apart xs" "\<forall>x \<in> set xs. wf_interval x"
  shows "sort_key iv_Start xs = xs"
proof (rule sort_key_id_if_sorted)
  have "sorted_wrt (\<lambda>x y. iv_Start x \<le> iv_Start y) xs"
    by (rule sorted_wrt_mono_rel [OF _ assms(1)])
      (use assms(2) in \<open>force simp: apart_def wf_interval_def\<close>)
  then show "sorted (map iv_Start xs)" by (simp add: sorted_wrt_map)
qed

text \<open>Every pair of IPv4 and IPv6 files that imports without error loads: the index is built,
  holds exactly the imported intervals in file order, and every lookup of a valid address agrees
  with a scan of the two files.\<close>

lemma asn_import_indexes:
  assumes "ParseV4 data4 m4 = Inr v4" and "ParseV6 data6 m6 = Inr v6"
  shows "NewASN (v4 @ v6) = Inr \<lparr>ix_v4 = v4, ix_v6 = v6\<rparr>
    \<and> (\<forall>a. addr_valid a \<longrightarrow> LookupASN \<lparr>ix_v4 = v4, ix_v6 = v6\<rparr> None a
          = Inr (map asn_record_of (filter (covers_addr (unmap a)) (v4 @ v6)), asn_coverage))"
proof -
  have s4: "sorted_wrt apart v4" "\<forall>x \<in> set v4. wf_interval x \<and> is4 (iv_Start x)"
    using parse_asn_sound [of data4 True m4 v4] assms(1) by (simp_all add: ParseV4_def)
  have s6: "sorted_wrt apart v6" "\<forall>x \<in> set v6. wf_interval x \<and> \<not> is4 (iv_Start x)"
    using parse_asn_sound [of data6 False m6 v6] assms(2) by (simp_all add: ParseV6_def)
  have "split_families (v4 @ v6) \<lparr>ix_v4 = [], ix_v6 = []\<rparr> = Inr \<lparr>ix_v4 = v4, ix_v6 = v6\<rparr>"
    using s4(2) s6(2) by (auto simp: split_families_Inr list_all_iff filter_id_conv filter_empty_conv)
  then have n: "NewASN (v4 @ v6) = Inr \<lparr>ix_v4 = v4, ix_v6 = v6\<rparr>"
    using s4 s6 by (simp add: NewASN_def apart_sort_id apart_overlapping)
  have "LookupASN \<lparr>ix_v4 = v4, ix_v6 = v6\<rparr> None a
      = Inr (map asn_record_of (filter (covers_addr (unmap a)) (v4 @ v6)), asn_coverage)"
    if a: "addr_valid a" for a
    using lookup_scan [OF n a] by blast
  with n show ?thesis by blast
qed

definition example_v4 :: string where
  "example_v4 = ''10'' @ [CHR 0x09] @ ''19'' @ [CHR 0x09] @ ''64500'' @ [CHR 0x09] @ ''US'' @ [CHR 0x09] @ ''A''"

definition example_v6 :: string where
  "example_v6 = ''::1'' @ [CHR 0x09] @ ''::2'' @ [CHR 0x09] @ ''0'' @ [CHR 0x09, CHR 0x09, CHR 0x0A]"

lemma example_v4_parses:
  "\<exists>iv. ParseV4 example_v4 \<lparr>md_Revision = ''r'', md_Digest = ''d''\<rparr> = Inr [iv] \<and> covers_addr (V4 12) iv"
  by (simp add: ParseV4_def parse_asn_def example_v4_def scan_lines_def scan_buffer_def maxInputBytes_def
      parse_line_def parseAddress_def has_prefix_def parse_uint_def is_digit_def decimal_value_def digit_value_def
      addr_from4_def map_error_def addr_compare_def trim_suffix_def has_suffix_def Let_def covers_addr_def
      less_eq_addr_def word_of_nat_eq_iff)

lemma example_v6_parses:
  "\<exists>iv. ParseV6 example_v6 \<lparr>md_Revision = ''r'', md_Digest = ''d''\<rparr> = Inr [iv]"
  by (simp add: ParseV6_def parse_asn_def example_v6_def scan_lines_def scan_buffer_def maxInputBytes_def
      parse_line_def parseAddress_def has_prefix_def parse_uint_def is_digit_def decimal_value_def digit_value_def
      parse_addr_def parse_ip6_def netip_parse map_error_def addr_compare_def trim_suffix_def has_suffix_def
      Let_def less_eq_addr_def hex_value_def groups_value_def)

lemma asn_import_indexes_example:
  "\<exists>v4 v6 r. ParseV4 example_v4 \<lparr>md_Revision = ''r'', md_Digest = ''d''\<rparr> = Inr v4
     \<and> ParseV6 example_v6 \<lparr>md_Revision = ''r'', md_Digest = ''d''\<rparr> = Inr v6
     \<and> LookupASN \<lparr>ix_v4 = v4, ix_v6 = v6\<rparr> None (V4 12) = Inr (r, asn_coverage) \<and> r \<noteq> []"
proof -
  from example_v4_parses obtain i where
    i: "ParseV4 example_v4 \<lparr>md_Revision = ''r'', md_Digest = ''d''\<rparr> = Inr [i]" "covers_addr (V4 12) i" by blast
  from example_v6_parses obtain j where
    j: "ParseV6 example_v6 \<lparr>md_Revision = ''r'', md_Digest = ''d''\<rparr> = Inr [j]" by blast
  from asn_import_indexes [OF i(1) j] have
    "LookupASN \<lparr>ix_v4 = [i], ix_v6 = [j]\<rparr> None (V4 12)
      = Inr (map asn_record_of (filter (covers_addr (V4 12)) [i, j]), asn_coverage)"
    by (metis addr_valid.simps(2) append_Cons append_Nil unmap.simps(1) unmap.simps)
  with i j show ?thesis by (intro exI [of _ "[i]"] exI [of _ "[j]"] exI conjI) auto
qed

lemma contains_char: "contains s [c] \<longleftrightarrow> c \<in> set s"
  by (induction s) (auto simp: has_prefix_def)

text \<open>C35: Both published forms of an IPv4 address, the dotted text and the archived unsigned
  integer, import as that address, so the four bytes the code assembles from the integer are in
  the right order.\<close>

theorem ipv4_forms_roundtrip:
  "parseAddress (addr_string (V4 w)) True = Inr (V4 w)
   \<and> parseAddress (nat_string (unat w)) True = Inr (V4 w)"
proof
  have "contains (ip4_string w) ''.''" by (simp add: contains_char ip4_string_def)
  then show "parseAddress (addr_string (V4 w)) True = Inr (V4 w)"
    using parse_addr_ip4_string [of w] by (simp add: parseAddress_def)
  define n where "n = unat w"
  have n: "n < 4294967296" using unsigned_less [of w] by (simp add: n_def)
  have w: "w = word_of_nat n" by (simp add: n_def)
  have "\<not> contains (nat_string n) ''.''" by (simp add: contains_char nat_string_no_dot)
  moreover have "parse_uint 32 (nat_string n) = Some n"
    using nat_string_props [of n] n by (simp add: parse_uint_def)
  moreover have "((n div 16777216 mod 256 * 256 + n div 65536 mod 256) * 256 + n div 256 mod 256) * 256 + n mod 256 = n"
    using n div_mult2_eq [of n 256 256] div_mult2_eq [of n 65536 256]
      div_mult_mod_eq [of n 256] div_mult_mod_eq [of "n div 256" 256] div_mult_mod_eq [of "n div 65536" 256]
    by (simp add: div_less_iff_less_mult)
  ultimately have "parseAddress (nat_string n) True = Inr (V4 (word_of_nat n))"
    using n unfolding parseAddress_def addr_from4_def by (simp only: option.case if_True if_False) simp
  then show "parseAddress (nat_string (unat w)) True = Inr (V4 w)" by (simp add: n_def)
qed

end
