(* ===== verification/Prefix_Index.thy ===== *)
theory Prefix_Index
  imports Asn "HOL-Library.AList" "HOL-Library.Product_Lexorder"
begin

text \<open>
  Package internal/enrich/prefix: the immutable index of provider prefixes.

  The routing table is the third-party package bart. Its four operations are the fields of
  \<open>bart\<close>, an argument of the definitions, and \<open>bart_laws\<close> states what its documentation
  promises of them. The table stores canonical prefixes: \<open>Get\<close> and \<open>Insert\<close> mask their argument, and the
  laws speak of canonical prefixes only, those that are valid and masked. They are a lookup after an
  insertion, and that \<open>Supernets\<close> of a host prefix yields every stored prefix that contains the host, once.
\<close>

section \<open>The table\<close>

record 't bart =
  bt_empty :: 't
  bt_Get :: "'t \<Rightarrow> ip_prefix \<Rightarrow> string list option"
  bt_Insert :: "'t \<Rightarrow> ip_prefix \<Rightarrow> string list \<Rightarrow> 't"
  bt_Supernets :: "'t \<Rightarrow> ip_prefix \<Rightarrow> (ip_prefix \<times> string list) list"

definition prefix_valid :: "ip_prefix \<Rightarrow> bool" where
  "prefix_valid p = (addr_valid (pfx_addr p) \<and> pfx_bits p \<le> bit_len (pfx_addr p))"

text \<open>\<open>netip.PrefixFrom\<close> drops the zone.\<close>

fun without_zone :: "addr \<Rightarrow> addr" where
  "without_zone (V6 w z) = V6 w []"
| "without_zone a = a"

definition prefix_from :: "addr \<Rightarrow> nat \<Rightarrow> ip_prefix" where
  "prefix_from a bits = \<lparr>pfx_addr = without_zone a, pfx_bits = bits\<rparr>"

definition canonical :: "ip_prefix \<Rightarrow> bool" where
  "canonical p \<longleftrightarrow> prefix_valid p \<and> prefix_masked p = p"

definition bart_laws :: "'t bart \<Rightarrow> bool" where
  "bart_laws T \<longleftrightarrow>
     (\<forall>p. canonical p \<longrightarrow> bt_Get T (bt_empty T) p = None)
     \<and> (\<forall>t p v q. canonical p \<longrightarrow> canonical q \<longrightarrow>
          bt_Get T (bt_Insert T t p v) q = (if q = p then Some v else bt_Get T t q))
     \<and> (\<forall>t a. addr_valid a \<longrightarrow>
          distinct (map fst (bt_Supernets T t (prefix_from a (bit_len a))))
          \<and> set (bt_Supernets T t (prefix_from a (bit_len a)))
              = {(p, v). canonical p \<and> bt_Get T t p = Some v \<and> prefix_contains p (without_zone a)})"

section \<open>The code\<close>

record 't prefix_index =
  px_table :: 't
  px_associations :: "string \<rightharpoonup> association"

definition zero_association :: association where
  "zero_association = \<lparr>as_ID = [], as_Prefix = \<lparr>pfx_addr = NoAddr, pfx_bits = 0\<rparr>, as_ProviderID = [],
     as_ProductID = [], as_Service = [], as_Region = [], as_Role = [], as_Lifecycle = [],
     as_LifecycleTime = [], as_LifecycleSourceRevision = [], as_LifecycleSourceDigest = [],
     as_LifecycleRecordRef = [], as_SourceID = [], as_SourceRevision = [], as_SourceDigest = [],
     as_RecordRef = [], as_RecordRefs = [], as_CoverageNotes = [], as_ProvenanceGroup = []\<rparr>"

definition masked :: "association \<Rightarrow> association" where
  "masked a = a\<lparr>as_Prefix := prefix_masked (as_Prefix a)\<rparr>"

definition add_association :: "'t bart \<Rightarrow> association \<Rightarrow> 't prefix_index \<Rightarrow> 't prefix_index" where
  "add_association T association i =
     (let association = masked association;
          ids = (case bt_Get T (px_table i) (as_Prefix association) of Some v \<Rightarrow> v | None \<Rightarrow> []);
          ids = sort (ids @ [as_ID association])
      in \<lparr>px_table = bt_Insert T (px_table i) (as_Prefix association) ids,
          px_associations = (px_associations i)(as_ID association \<mapsto> association)\<rparr>)"

definition NewPrefix :: "'t bart \<Rightarrow> association list \<Rightarrow> 't prefix_index" where
  "NewPrefix T associations =
     fold (add_association T) associations \<lparr>px_table = bt_empty T, px_associations = Map.empty\<rparr>"

definition compareString :: "string \<Rightarrow> string \<Rightarrow> int" where
  "compareString a b = (if a < b then -1 else if a > b then 1 else 0)"

definition compareAssociation :: "association \<Rightarrow> association \<Rightarrow> int" where
  "compareAssociation a b =
     (if as_ProviderID a \<noteq> as_ProviderID b then compareString (as_ProviderID a) (as_ProviderID b)
      else if as_ProductID a \<noteq> as_ProductID b then compareString (as_ProductID a) (as_ProductID b)
      else if as_Service a \<noteq> as_Service b then compareString (as_Service a) (as_Service b)
      else compareString (as_SourceID a) (as_SourceID b))"

type_synonym prefix_match = "ip_prefix \<times> association"

definition compare_match :: "prefix_match \<Rightarrow> prefix_match \<Rightarrow> int" where
  "compare_match a b =
     (if pfx_bits (fst a) \<noteq> pfx_bits (fst b) then int (pfx_bits (fst b)) - int (pfx_bits (fst a))
      else let c = addr_compare (pfx_addr (fst a)) (pfx_addr (fst b)) in
        if c \<noteq> 0 then c else compareAssociation (snd a) (snd b))"

text \<open>The key by which \<open>compare_match\<close> orders (lemma \<open>compare_match_key\<close>), so that
  \<open>slices.SortFunc\<close> with it is \<^const>\<open>sort_key\<close>.\<close>

definition match_key :: "prefix_match \<Rightarrow> int \<times> addr \<times> string \<times> string \<times> string \<times> string" where
  "match_key m = (- int (pfx_bits (fst m)), pfx_addr (fst m), as_ProviderID (snd m), as_ProductID (snd m),
     as_Service (snd m), as_SourceID (snd m))"

definition raw_matches :: "'t bart \<Rightarrow> 't prefix_index \<Rightarrow> bool \<Rightarrow> ip_prefix \<Rightarrow> prefix_match list" where
  "raw_matches T i include_retired host =
     concat (map (\<lambda>(matched, ids).
       map (Pair matched)
         (filter (\<lambda>a. \<not> (\<not> include_retired \<and> as_Lifecycle a = ''retired''))
           (map (\<lambda>ident. case px_associations i ident of Some a \<Rightarrow> a | None \<Rightarrow> zero_association) ids)))
       (bt_Supernets T (px_table i) host))"

definition keep_longest :: "prefix_match list \<Rightarrow> prefix_match list" where
  "keep_longest ms =
     (let longest = fold (\<lambda>item longest. if pfx_bits (fst item) > longest then pfx_bits (fst item) else longest)
                      (tl ms) (pfx_bits (fst (hd ms)))
      in filter (\<lambda>item. \<not> pfx_bits (fst item) \<noteq> longest) ms)"

definition prefix_coverage :: coverage where
  "prefix_coverage = zero_coverage\<lparr>cv_Capability := ''prefix'', cv_Status := CoverageComplete,
     cv_Attempted := 1, cv_Completed := 1\<rparr>"

definition LookupPrefixes ::
    "'t bart \<Rightarrow> 't prefix_index \<Rightarrow> go_error option \<Rightarrow> ip_lookup_request \<Rightarrow> go_error + association list \<times> coverage" where
  "LookupPrefixes T i ctx_err request =
     (case ctx_err of Some e \<Rightarrow> Inl e | None \<Rightarrow>
      (let address = unmap (lk_Address request) in
       if \<not> addr_valid address then Inl (NewError CodeInvalidTarget ''IP address is invalid'' None)
       else if lk_Match request \<notin> {[], ''all'', ''longest''}
       then Inl (NewError CodeInvalidOptions (''unsupported prefix match mode '' @ lk_Match request) None)
       else
         let bits = (if is4 address then 32 else 128);
             ms = raw_matches T i (lk_IncludeRetired request) (prefix_from address bits);
             ms = (if lk_Match request = ''longest'' \<and> ms \<noteq> [] then keep_longest ms else ms);
             ms = sort_key match_key ms
         in Inr (map snd ms, prefix_coverage)))"

section \<open>Orders\<close>

lemma compareString_sign: "compareString a b < 0 \<longleftrightarrow> a < b" "compareString a b = 0 \<longleftrightarrow> a = b"
  by (auto simp: compareString_def)

lemma addr_compare_eq_0: "addr_compare a b = 0 \<longleftrightarrow> a = b"
  using addr_compare_order [of a b] addr_compare_order [of b a] by (metis less_irrefl linorder_neqE not_less)

lemma compare_match_key: "compare_match a b < 0 \<longleftrightarrow> match_key a < match_key b"
  by (auto simp: compare_match_def match_key_def compareAssociation_def compareString_sign
      less_prod_simp addr_compare_order addr_compare_eq_0 Let_def)

section \<open>The index holds the associations\<close>

lemma sort_append_sort: "sort (sort xs @ ys) = sort (xs @ ys)"
  by (rule properties_for_sort) simp_all

lemma prefix_masked_props:
  assumes "prefix_valid p"
  shows "prefix_valid (prefix_masked p)" "prefix_masked (prefix_masked p) = prefix_masked p"
  using assms
  by (cases "pfx_addr p"; simp add: prefix_valid_def prefix_masked_def and.assoc)+

lemma canonical_masked: "prefix_valid (as_Prefix a) \<Longrightarrow> canonical (as_Prefix (masked a))"
  using prefix_masked_props by (simp add: canonical_def masked_def)

lemma masked_ids [simp]: "as_ID (masked a) = as_ID a" "as_Lifecycle (masked a) = as_Lifecycle a"
  by (simp_all add: masked_def)

definition ids_at :: "association list \<Rightarrow> ip_prefix \<Rightarrow> string list" where
  "ids_at associations p = map as_ID (filter (\<lambda>a. as_Prefix (masked a) = p) associations)"

lemma NewPrefix_table:
  assumes "bart_laws T" "\<forall>a \<in> set associations. prefix_valid (as_Prefix a)" "canonical p"
  shows "bt_Get T (px_table (NewPrefix T associations)) p =
    (if ids_at associations p = [] then None else Some (sort (ids_at associations p)))"
  using assms(2,3)
proof (induction associations arbitrary: p rule: rev_induct)
  case Nil
  then show ?case using assms(1) by (simp add: NewPrefix_def bart_laws_def ids_at_def)
next
  case (snoc a as)
  let ?q = "as_Prefix (masked a)"
  have q: "canonical ?q" using snoc.prems(1) by (intro canonical_masked) simp
  have IH: "bt_Get T (px_table (NewPrefix T as)) p =
    (if ids_at as p = [] then None else Some (sort (ids_at as p)))" if "canonical p" for p
    using snoc.IH [of p] snoc.prems(1) that by simp
  have "(case bt_Get T (px_table (NewPrefix T as)) ?q of Some v \<Rightarrow> v | None \<Rightarrow> []) = sort (ids_at as ?q)"
    by (simp add: IH [OF q])
  then have "px_table (NewPrefix T (as @ [a])) =
      bt_Insert T (px_table (NewPrefix T as)) ?q (sort (ids_at as ?q @ [as_ID a]))"
    by (simp add: NewPrefix_def add_association_def Let_def sort_append_sort)
  moreover have "bt_Get T (bt_Insert T t ?q v) p = (if p = ?q then Some v else bt_Get T t p)" for t v
    using assms(1) q snoc.prems(2) by (simp add: bart_laws_def)
  ultimately have "bt_Get T (px_table (NewPrefix T (as @ [a]))) p =
      (if p = ?q then Some (sort (ids_at as ?q @ [as_ID a])) else bt_Get T (px_table (NewPrefix T as)) p)"
    by simp
  then show ?case using IH [OF snoc.prems(2)] by (auto simp: ids_at_def)
qed

lemma NewPrefix_catalog:
  "distinct (map as_ID associations) \<Longrightarrow> a \<in> set associations \<Longrightarrow>
   px_associations (NewPrefix T associations) (as_ID a) = Some (masked a)"
  by (induction associations rule: rev_induct)
    (auto simp: NewPrefix_def add_association_def Let_def image_iff)

lemma ids_at_set: "set (ids_at associations p) = as_ID ` {a \<in> set associations. as_Prefix (masked a) = p}"
  by (auto simp: ids_at_def)

lemma ids_at_distinct: "distinct (map as_ID associations) \<Longrightarrow> distinct (ids_at associations p)"
  by (simp add: ids_at_def distinct_map_filter)

section \<open>Lookups\<close>

definition eligible :: "association list \<Rightarrow> bool \<Rightarrow> addr \<Rightarrow> association list" where
  "eligible associations include_retired a =
     filter (\<lambda>x. prefix_contains (as_Prefix x) (without_zone a) \<and> (include_retired \<or> as_Lifecycle x \<noteq> ''retired''))
       (map masked associations)"

lemma distinct_tagged:
  "distinct (map fst es) \<Longrightarrow> \<forall>(p, l) \<in> set es. distinct (g l) \<Longrightarrow>
   distinct (concat (map (\<lambda>(p, l). map (Pair p) (g l)) es))"
proof (induction es)
  case (Cons e es)
  obtain p l where e: "e = (p, l)" by (cases e)
  with Cons have d: "distinct (map (Pair p) (g l))"
    by (simp add: distinct_map inj_on_def)
  have "p \<notin> fst ` set es" using Cons.prems(1) e by simp
  then have "set (map (Pair p) (g l)) \<inter> set (concat (map (\<lambda>(p, l). map (Pair p) (g l)) es)) = {}"
    by (force split: prod.splits)
  with d Cons e show ?case by simp
qed simp

lemma in_set_tagged:
  "(p, l) \<in> set es \<Longrightarrow> x \<in> set (map (Pair p) (g l)) \<Longrightarrow> x \<in> set (concat (map (\<lambda>(p, l). map (Pair p) (g l)) es))"
  by force

lemma inj_masked: "distinct (map as_ID associations) \<Longrightarrow> inj_on masked (set associations)"
  by (auto simp: distinct_map inj_on_def) (metis masked_ids(1))

lemma distinct_eligible:
  assumes "distinct (map as_ID associations)"
  shows "distinct (eligible associations r a)"
  using assms inj_masked [OF assms] by (simp add: eligible_def distinct_map)

lemma raw_matches_correct:
  fixes T :: "'t bart" and r :: bool
  assumes laws: "bart_laws T" and valid: "\<forall>x \<in> set associations. prefix_valid (as_Prefix x)"
    and d: "distinct (map as_ID associations)" and a: "addr_valid a"
  defines "raw \<equiv> raw_matches T (NewPrefix T associations) r (prefix_from a (bit_len a))"
  shows "mset (map snd raw) = mset (eligible associations r a)" and "\<forall>m \<in> set raw. fst m = as_Prefix (snd m)"
proof -
  let ?i = "NewPrefix T associations"
  let ?es = "bt_Supernets T (px_table ?i) (prefix_from a (bit_len a))"
  define look where "look = (\<lambda>ident. case px_associations ?i ident of Some a \<Rightarrow> a | None \<Rightarrow> zero_association)"
  define ok where "ok = (\<lambda>x :: association. r \<or> as_Lifecycle x \<noteq> ''retired'')"
  have raw: "raw = concat (map (\<lambda>(p, ids). map (Pair p) (filter ok (map look ids))) ?es)"
    by (simp add: raw_def raw_matches_def look_def ok_def cong: filter_cong)
  have es: "distinct (map fst ?es)"
    "set ?es = {(p, v). canonical p \<and> bt_Get T (px_table ?i) p = Some v \<and> prefix_contains p (without_zone a)}"
    using laws a by (simp_all add: bart_laws_def)
  have look: "look (as_ID x) = masked x" if "x \<in> set associations" for x
    using NewPrefix_catalog [OF d that, of T] by (simp add: look_def)
  have entry: "v = sort (ids_at associations p)" if "(p, v) \<in> set ?es" for p v
    using that es(2) NewPrefix_table [OF laws valid, of p] by (auto split: if_splits)
  have entry': "(p, sort (ids_at associations p)) \<in> set ?es"
    if "ids_at associations p \<noteq> []" "prefix_contains p (without_zone a)" for p
  proof -
    have "canonical p" using that(1) valid canonical_masked by (auto simp: ids_at_def filter_empty_conv)
    then show ?thesis using that es(2) NewPrefix_table [OF laws valid, of p] by simp
  qed
  have look_ids: "look ` set (ids_at associations p) = masked ` {x \<in> set associations. as_Prefix (masked x) = p}" for p
    using look by (auto simp: ids_at_set image_image)
  have set_raw: "(p, x) \<in> set raw \<longleftrightarrow> p = as_Prefix x \<and> x \<in> set (eligible associations r a)" for p x
  proof
    assume "(p, x) \<in> set raw"
    then obtain ids where ids: "(p, ids) \<in> set ?es" "x \<in> look ` set ids" "ok x" by (auto simp: raw)
    then have "x \<in> look ` set (ids_at associations p)" using entry [OF ids(1)] by simp
    then obtain y where "y \<in> set associations" "as_Prefix (masked y) = p" "x = masked y"
      unfolding look_ids by auto
    moreover have "prefix_contains p (without_zone a)" using ids(1) es(2) by auto
    ultimately show "p = as_Prefix x \<and> x \<in> set (eligible associations r a)"
      using ids(3) by (auto simp: eligible_def ok_def)
  next
    assume "p = as_Prefix x \<and> x \<in> set (eligible associations r a)"
    then obtain y where y: "y \<in> set associations" "x = masked y" "p = as_Prefix (masked y)"
      "prefix_contains p (without_zone a)" "ok x" by (auto simp: eligible_def ok_def)
    then have m: "as_ID y \<in> set (ids_at associations p)" by (auto simp: ids_at_set)
    then have "ids_at associations p \<noteq> []" by auto
    then have e: "(p, sort (ids_at associations p)) \<in> set ?es" using entry' y(4) by blast
    have "x = look (as_ID y)" using y look [OF y(1)] by simp
    with m y(5) have "(p, x) \<in> set (map (Pair p) (filter ok (map look (sort (ids_at associations p)))))"
      by auto
    then show "(p, x) \<in> set raw"
      unfolding raw by (intro in_set_tagged [OF e])
  qed
  show fst_raw: "\<forall>m \<in> set raw. fst m = as_Prefix (snd m)" using set_raw by auto
  have "inj_on look (set (ids_at associations p))" for p
    by (rule inj_on_inverseI [of _ as_ID]) (auto simp: ids_at_set look)
  then have "\<forall>(p, ids) \<in> set ?es. distinct (filter ok (map look ids))"
    using ids_at_distinct [OF d] by (auto simp: distinct_map dest!: entry)
  from distinct_tagged [OF es(1) this] have "distinct raw" by (simp add: raw)
  then have "distinct (map snd raw)"
    by (auto simp: distinct_map inj_on_def set_raw)
  moreover have "set (map snd raw) = set (eligible associations r a)"
    using set_raw by force
  ultimately show "mset (map snd raw) = mset (eligible associations r a)"
    using distinct_eligible [OF d] set_eq_iff_mset_eq_distinct by blast
qed

lemma fold_longest: "fold (\<lambda>item n. if pfx_bits (fst item) > n then pfx_bits (fst item) else n) ms n
   = Max (insert n ((pfx_bits \<circ> fst) ` set ms))"
proof (induction ms arbitrary: n)
  case (Cons m ms)
  have "Max (insert n ((pfx_bits \<circ> fst) ` set (m # ms)))
      = Max (insert (max n (pfx_bits (fst m))) ((pfx_bits \<circ> fst) ` set ms))"
    by (cases "ms = []") (simp_all add: Max_insert max.assoc)
  with Cons show ?case by (simp add: max_def)
qed simp

lemma keep_longest_eq:
  "ms \<noteq> [] \<Longrightarrow> keep_longest ms = filter (\<lambda>m. pfx_bits (fst m) = Max ((pfx_bits \<circ> fst) ` set ms)) ms"
  by (cases ms) (simp_all add: keep_longest_def fold_longest Let_def)

text \<open>The answer a lookup promises: the eligible associations, or the longest of them.\<close>

definition expected :: "association list \<Rightarrow> ip_lookup_request \<Rightarrow> association list" where
  "expected associations request =
     (let xs = eligible associations (lk_IncludeRetired request) (unmap (lk_Address request)) in
      if lk_Match request = ''longest''
      then filter (\<lambda>x. \<forall>y \<in> set xs. pfx_bits (as_Prefix y) \<le> pfx_bits (as_Prefix x)) xs else xs)"

lemma longest_expected:
  assumes "mset (map snd ms) = mset xs" "\<forall>m \<in> set ms. fst m = as_Prefix (snd m)" "ms \<noteq> []"
  shows "mset (map snd (keep_longest ms))
    = mset (filter (\<lambda>x. \<forall>y \<in> set xs. pfx_bits (as_Prefix y) \<le> pfx_bits (as_Prefix x)) xs)"
proof -
  let ?P = "\<lambda>x. \<forall>y \<in> set xs. pfx_bits (as_Prefix y) \<le> pfx_bits (as_Prefix x)"
  have xs: "set xs = snd ` set ms" using mset_eq_setD [OF assms(1)] by simp
  have img: "(pfx_bits \<circ> fst) ` set ms = (pfx_bits \<circ> as_Prefix) ` set xs"
    using assms(2) by (auto simp: xs image_image)
  have "pfx_bits (fst m) = Max ((pfx_bits \<circ> fst) ` set ms) \<longleftrightarrow> ?P (snd m)" if m: "m \<in> set ms" for m
  proof -
    let ?B = "(pfx_bits \<circ> fst) ` set ms"
    have fin: "finite ?B" and mem: "pfx_bits (fst m) \<in> ?B" and ne: "?B \<noteq> {}" using m by auto
    have "pfx_bits (fst m) = Max ?B \<longleftrightarrow> Max ?B = pfx_bits (fst m)" by (rule eq_commute)
    also have "\<dots> \<longleftrightarrow> (\<forall>n \<in> ?B. n \<le> pfx_bits (fst m))"
      unfolding Max_eq_iff [OF fin ne] by (simp only: mem simp_thms)
    also have "\<dots> \<longleftrightarrow> ?P (snd m)" unfolding img using assms(2) m by auto
    finally show ?thesis .
  qed
  then have "keep_longest ms = filter (?P \<circ> snd) ms"
    unfolding keep_longest_eq [OF assms(3)] by (auto intro: filter_cong)
  then have "map snd (keep_longest ms) = filter ?P (map snd ms)" by (simp add: filter_map)
  then have "mset (map snd (keep_longest ms)) = filter_mset ?P (mset (map snd ms))" by (simp only: mset_filter)
  then show ?thesis by (simp only: assms(1) mset_filter)
qed

lemma sorted_matches_bits:
  assumes "\<forall>m \<in> set ms. fst m = as_Prefix (snd m)"
  shows "sorted_wrt (\<lambda>x y. pfx_bits (as_Prefix y) \<le> pfx_bits (as_Prefix x)) (map snd (sort_key match_key ms))"
proof -
  have "sorted_wrt (\<lambda>a b. match_key a \<le> match_key b) (sort_key match_key ms)"
    using sorted_sort_key [of match_key ms] by (simp add: sorted_wrt_map)
  then have "sorted_wrt (\<lambda>a b. pfx_bits (as_Prefix (snd b)) \<le> pfx_bits (as_Prefix (snd a))) (sort_key match_key ms)"
    by (rule sorted_wrt_mono_rel [rotated]) (use assms in \<open>auto simp: match_key_def less_eq_prod_simp\<close>)
  then show ?thesis by (simp add: sorted_wrt_map)
qed

lemma lookup_expected:
  assumes "bart_laws T" and "\<forall>x \<in> set associations. prefix_valid (as_Prefix x)"
    and "distinct (map as_ID associations)" and "addr_valid (lk_Address request)"
    and "lk_Match request \<in> {[], ''all'', ''longest''}"
  shows "\<exists>result. LookupPrefixes T (NewPrefix T associations) None request = Inr (result, prefix_coverage)
    \<and> mset result = mset (expected associations request)
    \<and> sorted_wrt (\<lambda>x y. pfx_bits (as_Prefix y) \<le> pfx_bits (as_Prefix x)) result"
proof -
  let ?a = "unmap (lk_Address request)"
  have a: "addr_valid ?a" using assms(4) by simp
  have bits: "(if is4 ?a then 32 else 128) = bit_len ?a" using a by (cases ?a) simp_all
  define ms where "ms = raw_matches T (NewPrefix T associations) (lk_IncludeRetired request) (prefix_from ?a (bit_len ?a))"
  define ms' where "ms' = (if lk_Match request = ''longest'' \<and> ms \<noteq> [] then keep_longest ms else ms)"
  note raw = raw_matches_correct [OF assms(1-3) a, of "lk_IncludeRetired request", folded ms_def]
  have "mset (map snd ms') = mset (expected associations request)"
  proof (cases "lk_Match request = ''longest'' \<and> ms \<noteq> []")
    case True
    with longest_expected [OF raw] show ?thesis by (simp add: ms'_def expected_def Let_def)
  next
    case False
    with raw(1) show ?thesis by (auto simp: ms'_def expected_def Let_def)
  qed
  moreover have "\<forall>m \<in> set ms'. fst m = as_Prefix (snd m)"
    using raw(2) by (auto simp: ms'_def keep_longest_eq)
  moreover have "LookupPrefixes T (NewPrefix T associations) None request
      = Inr (map snd (sort_key match_key ms'), prefix_coverage)"
    using a assms(5) by (simp add: LookupPrefixes_def Let_def bits ms'_def ms_def)
  ultimately show ?thesis using sorted_matches_bits [of ms'] by (simp add: mset_map)
qed

text \<open>C24: Let an index be built from associations with valid prefixes and pairwise distinct identifiers. A
  lookup with a supported match mode answers, for every valid address, exactly the associations whose masked
  prefix contains the address (without retired ones unless they are requested), each once; in the mode
  \<open>longest\<close> exactly those among them with the longest prefix; and it lists longer prefixes first. The routing
  table enters only through its laws for canonical prefixes. That identifiers are distinct is needed: of
  two associations with one identifier the index keeps the last for both.\<close>

theorem prefix_lookup_correct:
  assumes "bart_laws T" and "\<forall>x \<in> set associations. prefix_valid (as_Prefix x)"
    and "distinct (map as_ID associations)" and "addr_valid (lk_Address request)"
    and "lk_Match request \<in> {[], ''all'', ''longest''}"
  shows "\<exists>result. LookupPrefixes T (NewPrefix T associations) None request = Inr (result, prefix_coverage)
    \<and> mset result = mset (expected associations request)
    \<and> sorted_wrt (\<lambda>x y. pfx_bits (as_Prefix y) \<le> pfx_bits (as_Prefix x)) result"
  using lookup_expected [OF assms] .

text \<open>A table with the documented laws: an association list that canonicalises what it is given, as the
  library does, and ignores prefixes that are not valid.\<close>

definition list_bart :: "(ip_prefix \<times> string list) list bart" where
  "list_bart = \<lparr>bt_empty = [], bt_Get = (\<lambda>t p. if prefix_valid p then map_of t (prefix_masked p) else None),
     bt_Insert = (\<lambda>t p v. if prefix_valid p then AList.update (prefix_masked p) v t else t),
     bt_Supernets = (\<lambda>t host. filter (\<lambda>(p, v). canonical p \<and> prefix_contains p (pfx_addr host)) (AList.clearjunk t))\<rparr>"

lemma list_bart_laws: "bart_laws list_bart"
proof -
  have g: "(p, v) \<in> set (AList.clearjunk t) \<longleftrightarrow> map_of t p = Some v" for p and v :: "string list" and t
    by (metis distinct_clearjunk map_of_clearjunk map_of_eq_Some_iff)
  have d: "distinct (map fst (filter P (AList.clearjunk t)))" for P and t :: "(ip_prefix \<times> string list) list"
    by (simp add: distinct_map_filter)
  show ?thesis unfolding bart_laws_def
    by (auto simp: list_bart_def AList.update_conv' prefix_from_def canonical_def d g)
qed

definition example_association :: "string \<Rightarrow> ip4 \<Rightarrow> nat \<Rightarrow> association" where
  "example_association i w bits = zero_association\<lparr>as_ID := i, as_Prefix := \<lparr>pfx_addr = V4 w, pfx_bits = bits\<rparr>,
     as_ProviderID := ''aws''\<rparr>"

theorem prefix_lookup_correct_witness:
  "\<exists>r. LookupPrefixes list_bart (NewPrefix list_bart [example_association ''a'' 0 0, example_association ''b'' 5 32])
       None \<lparr>lk_Address = V4 5, lk_Match = ''longest'', lk_IncludeRetired = False, lk_Categories = []\<rparr>
     = Inr (r, prefix_coverage) \<and> mset r = {#example_association ''b'' 5 32#}"
proof -
  let ?as = "[example_association ''a'' 0 0, example_association ''b'' 5 32]"
  let ?r = "\<lparr>lk_Address = V4 5, lk_Match = ''longest'', lk_IncludeRetired = False, lk_Categories = []\<rparr>"
  have e: "expected ?as ?r = [example_association ''b'' 5 32]"
    by (simp add: expected_def eligible_def masked_def example_association_def prefix_masked_def zero_association_def)
  have "\<exists>result. LookupPrefixes list_bart (NewPrefix list_bart ?as) None ?r = Inr (result, prefix_coverage)
    \<and> mset result = mset (expected ?as ?r)
    \<and> sorted_wrt (\<lambda>x y. pfx_bits (as_Prefix y) \<le> pfx_bits (as_Prefix x)) result"
    by (rule prefix_lookup_correct [OF list_bart_laws])
      (simp_all add: example_association_def prefix_valid_def)
  with e show ?thesis by auto
qed

end
