(* ===== verification/Ctlog.thy ===== *)
theory Ctlog
  imports Target Go_Library "HOL-Library.Product_Lexorder"
begin

text \<open>
  Package internal/ctlog, the data types, the in-process store and the JSON-lines import of
  certificate-transparency records. The collector is in theory Ctlog_Collector.

  A \<open>uint64\<close> index is a natural number; the one sum of indexes that can wrap around is taken
  modulo \<open>2 ^ 64\<close> where the collector forms it. JSON decoding of a line and SHA-256 are
  arguments; name normalisation is the model of package target.
\<close>

section \<open>Types\<close>

type_synonym ct_provenance = string
abbreviation "ProvenanceVerifiedLog \<equiv> ''verified_log''"
abbreviation "ProvenanceLogUnverified \<equiv> ''log_unverified''"
abbreviation "ProvenanceImportedUnverified \<equiv> ''imported_unverified''"

type_synonym ct_check_status = string
abbreviation "CTCheckPassed \<equiv> ''passed''"
abbreviation "CTCheckFailed \<equiv> ''failed''"
abbreviation "CTCheckNotPerformed \<equiv> ''not_performed''"

record ct_check =
  cc_Status :: ct_check_status
  cc_Procedure :: string
  cc_ProcedureVersion :: string
  cc_TreeIdentity :: string
  cc_KeyIdentity :: string
  cc_Reason :: string

record ct_verification =
  ver_CheckpointSignature :: ct_check
  ver_Continuity :: ct_check
  ver_EntryInclusion :: ct_check

record ct_record =
  ct_Name :: string
  ct_Wildcard :: bool
  ct_CertificateHash :: string
  ct_LogID :: string
  ct_EntryIndex :: "nat option"
  ct_LoggedAt :: gotime
  ct_NotBefore :: "gotime option"
  ct_NotAfter :: "gotime option"
  ct_SourceID :: string
  ct_Provenance :: ct_provenance
  ct_Verification :: ct_verification
  ct_CheckpointID :: string

record checkpoint =
  cp_LogID :: string
  cp_NextIndex :: nat
  cp_VerifiedTreeSize :: nat
  cp_VerifiedRootHash :: string
  cp_TreeTimestamp :: gotime
  cp_TreeIdentity :: string
  cp_KeyIdentity :: string

definition zero_checkpoint :: checkpoint where
  "zero_checkpoint = \<lparr>cp_LogID = [], cp_NextIndex = 0, cp_VerifiedTreeSize = 0, cp_VerifiedRootHash = [],
     cp_TreeTimestamp = 0, cp_TreeIdentity = [], cp_KeyIdentity = []\<rparr>"

record ct_candidate =
  ca_Hostname :: string
  ca_CertificateHash :: string
  ca_LoggedAt :: gotime
  ca_SourceID :: string
  ca_Provenance :: ct_provenance
  ca_Verification :: ct_verification
  ca_CheckpointID :: string

record query_result =
  qr_Candidates :: "ct_candidate list"
  qr_Available :: nat
  qr_Omitted :: nat
  qr_IndexIdentity :: string
  qr_Partial :: bool

section \<open>Names\<close>

definition ct_normalizeName :: "target_env \<Rightarrow> string \<Rightarrow> go_error + string" where
  "ct_normalizeName env name =
     and_then (Normalize env (zero_analyze_request\<lparr>ar_Target := name, ar_Kind := TargetDomain, ar_Mode := ModeDNS\<rparr>))
       (\<lambda>normalized. Inr (tg_Canonical (nr_Target normalized)))"

definition withinRoots :: "string \<Rightarrow> string list \<Rightarrow> bool" where
  "withinRoots name roots = list_ex (\<lambda>root. name = root \<or> has_suffix name (''.'' @ root)) roots"

section \<open>The store\<close>

record ct_store =
  st_records :: "(string \<times> ct_record) list"
  st_checkpoints :: "string \<rightharpoonup> checkpoint"

definition NewCtStore :: ct_store where
  "NewCtStore = \<lparr>st_records = [], st_checkpoints = Map.empty\<rparr>"

definition ct_record_key :: "ct_record \<Rightarrow> string" where
  "ct_record_key r = ct_Name r @ [CHR 0x00] @ ct_CertificateHash r"

definition importLocked :: "ct_record list \<Rightarrow> ct_store \<Rightarrow> ct_store" where
  "importLocked records s =
     s\<lparr>st_records := fold (\<lambda>r m. AList.update (ct_record_key r) r m) records (st_records s)\<rparr>"

definition Import :: "go_error option \<Rightarrow> ct_record list \<Rightarrow> ct_store \<Rightarrow> go_error option \<times> ct_store" where
  "Import ctx_err records s =
     (case ctx_err of Some e \<Rightarrow> (Some e, s) | None \<Rightarrow> (None, importLocked records s))"

definition LoadCheckpoint :: "go_error option \<Rightarrow> string \<Rightarrow> ct_store \<Rightarrow> go_error + checkpoint" where
  "LoadCheckpoint ctx_err logID s =
     (case ctx_err of Some e \<Rightarrow> Inl e
      | None \<Rightarrow> (case st_checkpoints s logID of None \<Rightarrow> Inr zero_checkpoint | Some c \<Rightarrow> Inr c))"

definition CommitCollection ::
    "go_error option \<Rightarrow> ct_record list \<Rightarrow> checkpoint \<Rightarrow> ct_store \<Rightarrow> go_error option \<times> ct_store" where
  "CommitCollection ctx_err records c s =
     (case ctx_err of Some e \<Rightarrow> (Some e, s) | None \<Rightarrow>
      (let regress = (case st_checkpoints s (cp_LogID c) of
           None \<Rightarrow> False
         | Some current \<Rightarrow> cp_NextIndex c < cp_NextIndex current
             \<or> cp_NextIndex c = cp_NextIndex current \<and> cp_VerifiedTreeSize c < cp_VerifiedTreeSize current)
       in if regress then (Some (Errorf ''CT checkpoint would regress''), s)
          else (None, (importLocked records s)\<lparr>st_checkpoints := (st_checkpoints s)(cp_LogID c \<mapsto> c)\<rparr>)))"

text \<open>The better of two records of one name: the later one, or the smaller hash.\<close>

definition newer_record :: "ct_record \<Rightarrow> ct_record \<Rightarrow> bool" where
  "newer_record r current = (ct_LoggedAt r > ct_LoggedAt current
     \<or> ct_LoggedAt r = ct_LoggedAt current \<and> ct_CertificateHash r < ct_CertificateHash current)"

definition discoverable :: "string \<Rightarrow> ct_record \<Rightarrow> bool" where
  "discoverable root r = (withinRoots (ct_Name r) [root] \<and> \<not> ct_Wildcard r)"

definition ct_candidate_of :: "ct_record \<Rightarrow> ct_candidate" where
  "ct_candidate_of r = \<lparr>ca_Hostname = ct_Name r, ca_CertificateHash = ct_CertificateHash r,
     ca_LoggedAt = ct_LoggedAt r, ca_SourceID = ct_SourceID r, ca_Provenance = ct_Provenance r,
     ca_Verification = ct_Verification r, ca_CheckpointID = ct_CheckpointID r\<rparr>"

text \<open>The comparison of \<open>slices.SortFunc\<close>, later records first and then by name, is the order of
  this key. \<open>hash\<close> is the hexadecimal SHA-256 digest.\<close>

definition recency_key :: "ct_record \<Rightarrow> int \<times> string" where
  "recency_key r = (- ct_LoggedAt r, ct_Name r)"

definition Discover ::
    "(string \<Rightarrow> string) \<Rightarrow> target_env \<Rightarrow> ((string \<times> ct_record) list \<Rightarrow> (string \<times> ct_record) list)
     \<Rightarrow> ((string \<times> ct_record) list \<Rightarrow> (string \<times> ct_record) list)
     \<Rightarrow> go_error option \<Rightarrow> string \<Rightarrow> int \<Rightarrow> ct_store \<Rightarrow> go_error + query_result" where
  "Discover hash env ord_records ord_names ctx_err root limit s =
     (case ctx_err of Some e \<Rightarrow> Inl e | None \<Rightarrow>
      if limit < 1 then Inl (Errorf ''CT discovery limit must be positive'')
      else and_then (ct_normalizeName env root) (\<lambda>normalizedRoot.
        let candidates = filter (discoverable normalizedRoot) (map snd (ord_records (st_records s)));
            partial = list_ex (\<lambda>r. ct_Provenance r \<noteq> ProvenanceVerifiedLog) candidates;
            byName = fold (put_best ct_Name newer_record) candidates [];
            records = sort_key recency_key (map snd (ord_names byName));
            available = length records;
            records' = (if int available > limit then take (nat limit) records else records)
        in Inr \<lparr>qr_Candidates = map ct_candidate_of records', qr_Available = available,
             qr_Omitted = (if int available > limit then available - nat limit else 0),
             qr_IndexIdentity = ''sha256:'' @ hash (concat (map (\<lambda>r. ct_Name r @ [CHR 0x00]
               @ ct_CertificateHash r @ [CHR 0x00] @ ct_CheckpointID r @ [CHR 0x0A]) records')),
             qr_Partial = partial\<rparr>))"

section \<open>Import\<close>

definition invalid_check :: "ct_check \<Rightarrow> bool" where
  "invalid_check c = (cc_Procedure c = [] \<or> cc_ProcedureVersion c = []
     \<or> (cc_Status c \<noteq> CTCheckPassed \<and> cc_Status c \<noteq> CTCheckFailed \<and> cc_Status c \<noteq> CTCheckNotPerformed))"

definition normalizeRecord :: "target_env \<Rightarrow> ct_record \<Rightarrow> go_error + ct_record" where
  "normalizeRecord env record =
     (let name = trim_space (to_lower (ct_Name record));
          wildcard = has_prefix name ''*.'';
          name = (if wildcard then trim_prefix name ''*.'' else name)
      in and_then (ct_normalizeName env name) (\<lambda>normalized.
        let record = record\<lparr>ct_Name := normalized, ct_Wildcard := wildcard \<or> ct_Wildcard record\<rparr>;
            v = ct_Verification record in
        if ct_CertificateHash record = [] \<or> ct_SourceID record = [] \<or> ct_LoggedAt record = 0
        then Inl (NewError CodeInvalidOptions ''CT certificate hash, source, and logged time are required'' None)
        else if (case (ct_NotBefore record, ct_NotAfter record) of (Some b, Some a) \<Rightarrow> b > a | _ \<Rightarrow> False)
        then Inl (NewError CodeInvalidOptions ''CT certificate validity interval is reversed'' None)
        else if list_ex invalid_check [ver_CheckpointSignature v, ver_Continuity v, ver_EntryInclusion v]
        then Inl (NewError CodeInvalidOptions ''CT verification checks require a valid status, procedure, and version'' None)
        else if ct_Provenance record = ProvenanceVerifiedLog then
          if cc_Status (ver_CheckpointSignature v) \<noteq> CTCheckPassed \<or> cc_Status (ver_EntryInclusion v) \<noteq> CTCheckPassed
             \<or> (cc_Status (ver_Continuity v) \<noteq> CTCheckPassed \<and> cc_Status (ver_Continuity v) \<noteq> CTCheckNotPerformed)
          then Inl (NewError CodeInvalidOptions ''verified CT provenance requires authenticated checkpoint and entry inclusion'' None)
          else Inr record
        else if ct_Provenance record = ProvenanceLogUnverified \<or> ct_Provenance record = ProvenanceImportedUnverified
        then Inr record
        else Inl (NewError CodeInvalidOptions ''CT provenance is invalid'' None)))"

text \<open>What the two \<open>Decode\<close> calls on one line return: an error of the first, or the record and what
  follows it.\<close>

datatype trailing = TrailingEOF | TrailingValue | TrailingError go_error
datatype decoded = DecodeFailed go_error | Decoded ct_record trailing

definition line_error :: "string \<Rightarrow> nat \<Rightarrow> string" where
  "line_error what line = what @ nat_string line"

definition decode_line :: "(string \<Rightarrow> decoded) \<Rightarrow> nat \<Rightarrow> string \<Rightarrow> go_error + ct_record" where
  "decode_line decode line content =
     (case decode content of
        DecodeFailed e \<Rightarrow> Inl (NewError CodeInvalidSyntax (line_error ''decode CT record at line '' line) (Some e))
      | Decoded record t \<Rightarrow>
          (case t of
             TrailingEOF \<Rightarrow> Inr record
           | TrailingValue \<Rightarrow> Inl (NewError CodeInvalidSyntax (line_error ''decode CT record at line '' line)
                               (Some (Errorf ''multiple JSON values'')))
           | TrailingError e \<Rightarrow> Inl (NewError CodeInvalidSyntax (line_error ''decode CT record at line '' line) (Some e))))"

text \<open>One pass of the scanning loop; \<open>ctx\<close> is the state of the context at each line.\<close>

definition import_record :: "target_env \<Rightarrow> nat \<Rightarrow> ct_record \<Rightarrow> go_error + ct_record" where
  "import_record env line record =
     (if ct_Provenance record \<in> {ProvenanceVerifiedLog, ProvenanceLogUnverified, ProvenanceImportedUnverified}
      then map_error (Wrap (line_error ''validate CT record at line '' line))
             (normalizeRecord env (record\<lparr>ct_Provenance := ProvenanceImportedUnverified\<rparr>))
      else Inl (NewError CodeInvalidOptions (''CT provenance at line '' @ nat_string line @ '' is invalid'') None))"

fun import_lines ::
    "(nat \<Rightarrow> go_error option) \<Rightarrow> (string \<Rightarrow> decoded) \<Rightarrow> target_env \<Rightarrow> string list \<Rightarrow> nat
     \<Rightarrow> ct_record list \<Rightarrow> string list \<Rightarrow> go_error + ct_record list" where
  "import_lines ctx decode env roots line records [] = Inr records"
| "import_lines ctx decode env roots line records (content # rest) =
     (case ctx line of Some e \<Rightarrow> Inl e | None \<Rightarrow>
      and_then (decode_line decode line content) (\<lambda>record.
      and_then (import_record env line record) (\<lambda>record.
        if \<not> withinRoots (ct_Name record) roots \<or> ct_record_key record \<in> set (map ct_record_key records)
        then import_lines ctx decode env roots (Suc line) records rest
        else import_lines ctx decode env roots (Suc line) (records @ [record]) rest)))"

definition ImportJSONL ::
    "(nat \<Rightarrow> go_error option) \<Rightarrow> go_error option \<Rightarrow> (string \<Rightarrow> decoded) \<Rightarrow> target_env \<Rightarrow> string \<Rightarrow> string list
     \<Rightarrow> ct_store \<Rightarrow> (go_error + nat) \<times> ct_store" where
  "ImportJSONL ctx ctx_store decode env data roots s =
     (if roots = []
      then (Inl (NewError CodeInvalidOptions ''CT import roots and store are required'' None), s)
      else case map_result (\<lambda>root. map_error (Wrap ''normalize CT root'') (ct_normalizeName env root)) roots of
        Inl e \<Rightarrow> (Inl e, s)
      | Inr normalizedRoots \<Rightarrow>
          (let normalizedRoots = compact (sort normalizedRoots);
               (content, too_long) = scan_lines data in
           case import_lines ctx decode env normalizedRoots 1 [] content of
             Inl e \<Rightarrow> (Inl e, s)
           | Inr records \<Rightarrow>
               if too_long
               then (Inl (NewError CodeInputTooLarge ''read CT JSONL'' (Some (Errorf ''bufio.Scanner: token too long''))), s)
               else (case Import ctx_store records s of
                   (Some e, s') \<Rightarrow> (Inl e, s')
                 | (None, s') \<Rightarrow> (Inr (length records), s'))))"

section \<open>Reachable stores\<close>

text \<open>The stores the operations produce from the empty one.\<close>

inductive ct_reachable :: "ct_store \<Rightarrow> bool" where
  ct_new: "ct_reachable NewCtStore"
| ct_import: "ct_reachable s \<Longrightarrow> ct_reachable (snd (Import ctx rs s))"
| ct_commit: "ct_reachable s \<Longrightarrow> ct_reachable (snd (CommitCollection ctx rs c s))"

definition wf_ct_store :: "ct_store \<Rightarrow> bool" where
  "wf_ct_store s \<longleftrightarrow> distinct (map fst (st_records s))
     \<and> (\<forall>(k, r) \<in> set (st_records s). k = ct_record_key r)"

lemma wf_ct_importLocked:
  assumes "wf_ct_store s"
  shows "wf_ct_store (importLocked rs s)"
  using assms
proof (induction rs arbitrary: s)
  case (Cons r rs)
  let ?s = "s\<lparr>st_records := AList.update (ct_record_key r) r (st_records s)\<rparr>"
  have "wf_ct_store ?s"
    using Cons.prems by (auto simp: wf_ct_store_def AList.distinct_update in_set_update split: if_splits)
  moreover have "importLocked (r # rs) s = importLocked rs ?s" by (simp add: importLocked_def)
  ultimately show ?case using Cons by simp
qed (simp add: importLocked_def)

lemma reachable_wf_ct: "ct_reachable s \<Longrightarrow> wf_ct_store s"
proof (induction rule: ct_reachable.induct)
  case ct_new
  then show ?case by (simp add: wf_ct_store_def NewCtStore_def)
next
  case (ct_import s ctx rs)
  then show ?case using wf_ct_importLocked by (simp add: Import_def split: option.split)
next
  case (ct_commit s ctx rs c)
  then have "wf_ct_store (importLocked rs s)" using wf_ct_importLocked by blast
  with ct_commit show ?case
    by (auto simp: CommitCollection_def wf_ct_store_def Let_def split: option.splits)
qed

lemma wf_ct_unique:
  assumes "wf_ct_store s" "r \<in> snd ` set (st_records s)" "q \<in> snd ` set (st_records s)"
    and "ct_Name r = ct_Name q" "ct_CertificateHash r = ct_CertificateHash q"
  shows "r = q"
proof -
  have "ct_record_key r = ct_record_key q" using assms(4,5) by (simp add: ct_record_key_def)
  moreover have "(ct_record_key r, r) \<in> set (st_records s)" "(ct_record_key q, q) \<in> set (st_records s)"
    using assms(1-3) by (auto simp: wf_ct_store_def)
  ultimately show ?thesis using assms(1) by (metis eq_key_imp_eq_value wf_ct_store_def)
qed

section \<open>Discovery\<close>

interpretation by_name: best_of ct_Name newer_record
  by unfold_locales (auto simp: newer_record_def)

definition concrete :: "string \<Rightarrow> ct_store \<Rightarrow> ct_record set" where
  "concrete root s = {r \<in> snd ` set (st_records s). at_or_below (ct_Name r) root \<and> \<not> ct_Wildcard r}"

lemma discoverable_iff: "discoverable root r \<longleftrightarrow> at_or_below (ct_Name r) root \<and> \<not> ct_Wildcard r"
  by (simp add: discoverable_def withinRoots_def flip: label_suffix_iff)

lemma set_candidates:
  "permutes ord \<Longrightarrow> set (filter (discoverable root) (map snd (ord (st_records s)))) = concrete root s"
  by (auto simp: concrete_def discoverable_iff permutes_set)

text \<open>The newest record of every name, latest first.\<close>

definition ranked :: "((string \<times> ct_record) list \<Rightarrow> (string \<times> ct_record) list) \<Rightarrow> ct_record list \<Rightarrow> ct_record list" where
  "ranked ord cs = sort_key recency_key (map snd (ord (by_name.kept cs)))"

lemma ranked_props:
  assumes "permutes ord"
  shows "set (ranked ord cs) \<subseteq> set cs"
    and "ct_Name ` set (ranked ord cs) = ct_Name ` set cs"
    and "distinct (map ct_Name (ranked ord cs))"
    and "\<And>r x. r \<in> set (ranked ord cs) \<Longrightarrow> x \<in> set cs \<Longrightarrow> ct_Name x = ct_Name r \<Longrightarrow> \<not> newer_record x r"
    and "sorted_wrt (\<lambda>a b. recency_key a \<le> recency_key b) (ranked ord cs)"
proof -
  let ?v = "map snd (by_name.kept cs)"
  have set_r: "set (ranked ord cs) = set ?v" by (simp add: ranked_def permutes_set [OF assms])
  show "set (ranked ord cs) \<subseteq> set cs" using by_name.kept_entry [of _ _ cs] by (force simp: set_r)
  then show "ct_Name ` set (ranked ord cs) = ct_Name ` set cs"
    using by_name.kept_best [of _ cs] by_name.kept_entry [of _ _ cs] by (force simp: set_r image_iff)
  have "mset (map snd (ord (by_name.kept cs))) = mset ?v" using assms by (simp add: permutes_def)
  then have "distinct (map snd (ord (by_name.kept cs)))"
    using by_name.kept_values_distinct by (metis mset_eq_imp_distinct_iff)
  moreover have "inj_on ct_Name (set ?v)" by (rule by_name.kept_values_keys)
  ultimately show "distinct (map ct_Name (ranked ord cs))"
    by (simp add: ranked_def distinct_map permutes_set [OF assms])
  show "\<not> newer_record x r" if "r \<in> set (ranked ord cs)" "x \<in> set cs" "ct_Name x = ct_Name r" for r x
  proof -
    from by_name.kept_best [OF that(2)] obtain v where
      v: "(ct_Name x, v) \<in> set (by_name.kept cs)" "\<not> newer_record x v" by blast
    from that(1) obtain k where k: "(k, r) \<in> set (by_name.kept cs)" by (auto simp: set_r)
    with by_name.kept_entry that(3) have "k = ct_Name x" by metis
    with k v(1) by_name.kept_distinct [of cs] have "r = v" by (metis eq_key_imp_eq_value)
    with v(2) show ?thesis by simp
  qed
  show "sorted_wrt (\<lambda>a b. recency_key a \<le> recency_key b) (ranked ord cs)"
    using sorted_sort_key [of recency_key] by (simp add: ranked_def sorted_wrt_map)
qed

lemma ranked_order_independent:
  assumes "permutes o1" "permutes o2" "set cs = set ds"
    and tie: "\<And>r q. r \<in> set cs \<Longrightarrow> q \<in> set cs \<Longrightarrow> ct_Name r = ct_Name q \<Longrightarrow>
           ct_CertificateHash r = ct_CertificateHash q \<Longrightarrow> r = q"
  shows "ranked o1 cs = ranked o2 ds"
proof -
  have "set (by_name.kept cs) = set (by_name.kept ds)"
  proof (rule by_name.kept_order_independent [OF assms(3)])
    fix x y assume xy: "x \<in> set cs" "y \<in> set cs" "ct_Name x = ct_Name y" "\<not> newer_record x y" "\<not> newer_record y x"
    then have "ct_CertificateHash x = ct_CertificateHash y" by (auto simp: newer_record_def)
    with xy tie show "x = y" by blast
  qed
  moreover have "distinct (by_name.kept xs)" for xs using by_name.kept_distinct [of xs] by (metis distinct_map)
  ultimately have "mset (by_name.kept cs) = mset (by_name.kept ds)"
    by (simp add: set_eq_iff_mset_eq_distinct)
  then have "mset (map snd (o1 (by_name.kept cs))) = mset (map snd (o2 (by_name.kept ds)))"
    using assms(1,2) by (simp add: permutes_def)
  moreover have "inj_on recency_key (set (map snd (o1 (by_name.kept cs))))"
    using by_name.kept_values_keys [of cs] by (auto simp: permutes_set [OF assms(1)] inj_on_def recency_key_def)
  ultimately show ?thesis unfolding ranked_def by (rule sort_key_permutation)
qed

lemma Discover_ranked:
  assumes "1 \<le> limit" "ct_normalizeName env root = Inr normal" "permutes o1"
  shows "\<exists>h. Discover hash env o1 o2 None root limit s =
    (let rs = ranked o2 (filter (discoverable normal) (map snd (o1 (st_records s)))) in
     Inr \<lparr>qr_Candidates = map ct_candidate_of (take (nat limit) rs), qr_Available = length rs,
          qr_Omitted = length rs - nat limit, qr_IndexIdentity = h (take (nat limit) rs),
          qr_Partial = (\<exists>r \<in> concrete normal s. ct_Provenance r \<noteq> ProvenanceVerifiedLog)\<rparr>)
    \<and> h = (\<lambda>rs. ''sha256:'' @ hash (concat (map (\<lambda>r. ct_Name r @ [CHR 0x00]
               @ ct_CertificateHash r @ [CHR 0x00] @ ct_CheckpointID r @ [CHR 0x0A]) rs)))"
proof -
  have p: "list_ex (\<lambda>r. ct_Provenance r \<noteq> ProvenanceVerifiedLog)
      (filter (discoverable normal) (map snd (o1 (st_records s))))
    \<longleftrightarrow> (\<exists>r \<in> concrete normal s. ct_Provenance r \<noteq> ProvenanceVerifiedLog)"
    unfolding list_ex_iff set_candidates [OF assms(3)] ..
  have t: "(if int (length rs) > limit then take (nat limit) rs else rs) = take (nat limit) rs"
    "(if int (length rs) > limit then length rs - nat limit else 0) = length rs - nat limit"
    for rs :: "ct_record list" by auto
  have l: "\<not> limit < 1" using assms(1) by simp
  show ?thesis
    by (simp only: Discover_def assms(2) and_then_simps option.case l if_False Let_def p
        ranked_def [symmetric] by_name.kept_def [symmetric] t) simp
qed

text \<open>C34: Discovery on every store the operations can produce offers the concrete names at or below
  the normalised root, each once and with its most recently logged certificate, newest names
  first, at most \<open>limit\<close> of them; no omitted name is more recent than an offered one; the counts add
  up, wildcard records are never expanded, the result is marked partial exactly when some record
  it considered is not from a verified log, and the iteration order of the maps does not matter.\<close>

theorem discover_correct:
  assumes "ct_reachable s" and "1 \<le> limit" and "ct_normalizeName env root = Inr normal"
  defines "D \<equiv> concrete normal s"
  shows "\<exists>q. (\<forall>ord_records ord_names. permutes ord_records \<longrightarrow> permutes ord_names \<longrightarrow> Discover hash env ord_records ord_names None root limit s = Inr q)
    \<and> qr_Available q = card (ct_Name ` D) \<and> length (qr_Candidates q) = min (nat limit) (qr_Available q)
    \<and> qr_Omitted q = qr_Available q - length (qr_Candidates q)
    \<and> qr_Partial q = (\<exists>r \<in> D. ct_Provenance r \<noteq> ProvenanceVerifiedLog)
    \<and> distinct (map ca_Hostname (qr_Candidates q))
    \<and> sorted_wrt (\<lambda>a b. ca_LoggedAt b \<le> ca_LoggedAt a) (qr_Candidates q)
    \<and> (\<forall>c \<in> set (qr_Candidates q). \<exists>r \<in> D. c = ct_candidate_of r
          \<and> (\<forall>x \<in> D. ct_Name x = ct_Name r \<longrightarrow> ct_LoggedAt x \<le> ct_LoggedAt r))
    \<and> (\<forall>x \<in> D. ct_Name x \<notin> ca_Hostname ` set (qr_Candidates q) \<longrightarrow>
          (\<forall>c \<in> set (qr_Candidates q). ct_LoggedAt x \<le> ca_LoggedAt c))"
proof -
  define cs where "cs = (\<lambda>o1 :: (string \<times> ct_record) list \<Rightarrow> (string \<times> ct_record) list. filter (discoverable normal) (map snd (o1 (st_records s))))"
  define rs where "rs = ranked (\<lambda>m. m) (cs (\<lambda>m. m))"
  have set_cs: "set (cs p) = D" if "permutes p" for p
    unfolding cs_def D_def using that by (rule set_candidates)
  note R = ranked_props [OF permutes_id, where cs = "cs (\<lambda>m. m)", folded rs_def, unfolded set_cs [OF permutes_id]]
  have tie: "r = q" if "r \<in> D" "q \<in> D" "ct_Name r = ct_Name q" "ct_CertificateHash r = ct_CertificateHash q" for r q
    using wf_ct_unique [OF reachable_wf_ct [OF assms(1)]] that by (auto simp: D_def concrete_def)
  have indep: "ranked p2 (cs p1) = rs" if "permutes p1" "permutes p2" for p1 p2
    unfolding rs_def using that permutes_id set_cs tie by (intro ranked_order_independent) auto
  obtain q where q: "Discover hash env (\<lambda>m. m) (\<lambda>m. m) None root limit s = Inr q"
    "qr_Candidates q = map ct_candidate_of (take (nat limit) rs)" "qr_Available q = length rs"
    "qr_Omitted q = length rs - nat limit" "qr_Partial q = (\<exists>r \<in> D. ct_Provenance r \<noteq> ProvenanceVerifiedLog)"
    using Discover_ranked [OF assms(2,3) permutes_id, of hash "\<lambda>m. m" s]
    by (auto simp: Let_def D_def rs_def cs_def)
  have all: "Discover hash env p1 p2 None root limit s = Inr q" if "permutes p1" "permutes p2" for p1 p2
    using Discover_ranked [OF assms(2,3) permutes_id, of hash "\<lambda>m. m" s] Discover_ranked [OF assms(2,3) that(1), of hash p2 s]
      indep [OF that] q(1)
    by (auto simp: Let_def rs_def cs_def)
  have av: "length rs = card (ct_Name ` D)"
    using R(2,3) by (metis distinct_card length_map list.set_map)
  have taken: "\<exists>r \<in> D. c = ct_candidate_of r \<and> (\<forall>x \<in> D. ct_Name x = ct_Name r \<longrightarrow> ct_LoggedAt x \<le> ct_LoggedAt r)"
    if "c \<in> set (qr_Candidates q)" for c
  proof -
    from that obtain r where r: "r \<in> set rs" "c = ct_candidate_of r"
      by (auto simp: q(2) dest: in_set_takeD)
    with R(1) have "r \<in> D" by blast
    moreover have "ct_LoggedAt x \<le> ct_LoggedAt r" if "x \<in> D" "ct_Name x = ct_Name r" for x
      using R(4) [OF r(1) that] by (auto simp: newer_record_def)
    ultimately show ?thesis using r(2) by blast
  qed
  have srt: "sorted_wrt (\<lambda>a b. ct_LoggedAt b \<le> ct_LoggedAt a) rs"
    by (rule sorted_wrt_mono_rel [OF _ R(5)]) (auto simp: recency_key_def less_eq_prod_simp)
  have older: "ct_LoggedAt x \<le> ca_LoggedAt c"
    if "x \<in> D" "ct_Name x \<notin> ca_Hostname ` set (qr_Candidates q)" "c \<in> set (qr_Candidates q)" for x c
  proof -
    have "ct_Name x \<in> ct_Name ` set rs" using that(1) R(2) by auto
    then obtain r where r: "r \<in> set rs" "ct_Name r = ct_Name x" by auto
    have "ca_Hostname ` set (qr_Candidates q) = ct_Name ` set (take (nat limit) rs)"
      by (simp add: q(2) image_image ct_candidate_of_def)
    with that(2) r(2) have "r \<notin> set (take (nat limit) rs)" by (metis imageI)
    with r(1) have "r \<in> set (drop (nat limit) rs)"
      by (metis Un_iff append_take_drop_id set_append)
    moreover from that(3) obtain y where y: "y \<in> set (take (nat limit) rs)" "c = ct_candidate_of y"
      by (auto simp: q(2))
    moreover have "sorted_wrt (\<lambda>a b. ct_LoggedAt b \<le> ct_LoggedAt a) (take (nat limit) rs @ drop (nat limit) rs)"
      using srt by simp
    ultimately have "ct_LoggedAt r \<le> ct_LoggedAt y" unfolding sorted_wrt_append by blast
    moreover have "ct_LoggedAt x \<le> ct_LoggedAt r"
      using R(4) [OF r(1) that(1)] r(2) by (auto simp: newer_record_def)
    ultimately show ?thesis using y(2) by (simp add: ct_candidate_of_def)
  qed
  have host: "map ca_Hostname (qr_Candidates q) = take (nat limit) (map ct_Name rs)"
    by (simp add: q(2) take_map ct_candidate_of_def)
  have "sorted_wrt (\<lambda>a b. ca_LoggedAt b \<le> ca_LoggedAt a) (qr_Candidates q)"
    using sorted_wrt_take [OF srt, of "nat limit"] by (simp add: q(2) sorted_wrt_map ct_candidate_of_def)
  with all av taken older host R(3) show ?thesis
    by (intro exI [of _ q]) (auto simp: q distinct_take min_def)
qed

definition passed_check :: ct_check where
  "passed_check = \<lparr>cc_Status = CTCheckPassed, cc_Procedure = ''p'', cc_ProcedureVersion = ''1'',
     cc_TreeIdentity = [], cc_KeyIdentity = [], cc_Reason = []\<rparr>"

definition example_ct :: "string \<Rightarrow> gotime \<Rightarrow> ct_provenance \<Rightarrow> ct_record" where
  "example_ct name at provenance = \<lparr>ct_Name = name, ct_Wildcard = False, ct_CertificateHash = ''h'', ct_LogID = ''log'',
     ct_EntryIndex = None, ct_LoggedAt = at, ct_NotBefore = None, ct_NotAfter = None, ct_SourceID = ''s'',
     ct_Provenance = provenance, ct_Verification = \<lparr>ver_CheckpointSignature = passed_check,
       ver_Continuity = passed_check, ver_EntryInclusion = passed_check\<rparr>, ct_CheckpointID = []\<rparr>"

lemma ct_normalize_example: "ct_normalizeName plain_env ''example.com'' = Inr ''example.com''"
  by (simp add: ct_normalizeName_def Normalize_def zero_analyze_request_def target_eval)

definition example_ct_store :: ct_store where
  "example_ct_store = snd (Import None [example_ct ''a.example.com'' 5 ProvenanceVerifiedLog,
     example_ct ''b.example.com'' 7 ProvenanceLogUnverified] NewCtStore)"

theorem discover_correct_witness:
  "\<exists>q. Discover (\<lambda>s. s) plain_env rev rev None ''example.com'' 1 example_ct_store = Inr q
     \<and> qr_Available q = 2 \<and> length (qr_Candidates q) = 1 \<and> qr_Omitted q = 1 \<and> qr_Partial q"
proof -
  have r: "ct_reachable example_ct_store"
    unfolding example_ct_store_def by (intro ct_reachable.intros)
  have c: "concrete ''example.com'' example_ct_store = {example_ct ''a.example.com'' 5 ProvenanceVerifiedLog,
     example_ct ''b.example.com'' 7 ProvenanceLogUnverified}"
    by (auto simp: concrete_def example_ct_store_def Import_def importLocked_def NewCtStore_def example_ct_def
        ct_record_key_def has_suffix_def simp flip: label_suffix_iff)
  have "(1::int) \<le> 1" by simp
  from discover_correct [OF r this ct_normalize_example, of "\<lambda>s. s"] show ?thesis
  proof (elim exE conjE)
    fix q
    assume "\<forall>o1 o2. permutes o1 \<longrightarrow> permutes o2 \<longrightarrow> Discover (\<lambda>s. s) plain_env o1 o2 None ''example.com'' 1 example_ct_store = Inr q"
      and q: "qr_Available q = card (ct_Name ` concrete ''example.com'' example_ct_store)"
      "length (qr_Candidates q) = min (nat 1) (qr_Available q)" "qr_Omitted q = qr_Available q - length (qr_Candidates q)"
      "qr_Partial q = (\<exists>r \<in> concrete ''example.com'' example_ct_store. ct_Provenance r \<noteq> ProvenanceVerifiedLog)"
    then have "Discover (\<lambda>s. s) plain_env rev rev None ''example.com'' 1 example_ct_store = Inr q"
      using permutes_rev by blast
    with q show ?thesis by (intro exI [of _ q]) (simp add: c example_ct_def)
  qed
qed

section \<open>Checkpoints\<close>

text \<open>Whatever is imported or committed, the checkpoint of a log never disappears and never goes
  back; a refused commit changes nothing.\<close>

lemma commit_never_regresses:
  assumes "st_checkpoints s log = Some c"
    and "s' \<in> {snd (Import ctx rs s), snd (CommitCollection ctx rs d s)}"
  shows "\<exists>c'. st_checkpoints s' log = Some c'
      \<and> (cp_NextIndex c, cp_VerifiedTreeSize c) \<le> (cp_NextIndex c', cp_VerifiedTreeSize c')"
  using assms
  by (auto simp: Import_def CommitCollection_def importLocked_def Let_def less_eq_prod_simp
      split: option.splits if_splits)

lemma commit_refused: "CommitCollection ctx rs d s = (Some e, s') \<Longrightarrow> s' = s"
  by (auto simp: CommitCollection_def Let_def split: option.splits if_splits)

section \<open>Imported records\<close>

definition imported_ok :: "target_env \<Rightarrow> string list \<Rightarrow> ct_record \<Rightarrow> bool" where
  "imported_ok env roots r \<longleftrightarrow> ct_Provenance r = ProvenanceImportedUnverified
     \<and> (\<exists>name. ct_normalizeName env name = Inr (ct_Name r))
     \<and> (\<exists>root \<in> set roots. at_or_below (ct_Name r) root)
     \<and> ct_CertificateHash r \<noteq> [] \<and> ct_SourceID r \<noteq> [] \<and> ct_LoggedAt r \<noteq> 0"

lemma normalizeRecord_Inr:
  assumes "normalizeRecord env r = Inr r'"
  shows "ct_Provenance r' = ct_Provenance r \<and> (\<exists>name. ct_normalizeName env name = Inr (ct_Name r'))
    \<and> ct_CertificateHash r' \<noteq> [] \<and> ct_SourceID r' \<noteq> [] \<and> ct_LoggedAt r' \<noteq> 0"
  using assms unfolding normalizeRecord_def Let_def and_then_Inr_iff by (auto split: if_splits)

lemma import_record_Inr:
  assumes "import_record env line r = Inr r'"
  shows "ct_Provenance r' = ProvenanceImportedUnverified \<and> (\<exists>name. ct_normalizeName env name = Inr (ct_Name r'))
    \<and> ct_CertificateHash r' \<noteq> [] \<and> ct_SourceID r' \<noteq> [] \<and> ct_LoggedAt r' \<noteq> 0"
proof -
  from assms have "normalizeRecord env (r\<lparr>ct_Provenance := ProvenanceImportedUnverified\<rparr>) = Inr r'"
    by (auto simp: import_record_def map_error_def split: if_splits sum.splits)
  from normalizeRecord_Inr [OF this] show ?thesis by simp
qed

lemma withinRoots_iff: "withinRoots name roots \<longleftrightarrow> (\<exists>root \<in> set roots. at_or_below name root)"
  by (auto simp: withinRoots_def list_ex_iff simp flip: label_suffix_iff)

lemma import_lines_Inr:
  assumes "import_lines ctx decode env roots line acc content = Inr rs"
    and "distinct (map ct_record_key acc)" "\<forall>r \<in> set acc. imported_ok env roots r"
  shows "distinct (map ct_record_key rs) \<and> (\<forall>r \<in> set rs. imported_ok env roots r)"
  using assms
proof (induction ctx decode env roots line acc content rule: import_lines.induct)
  case (2 ctx decode env roots line acc content rest)
  from 2(3) obtain r0 r where r: "ctx line = None" "decode_line decode line content = Inr r0" "import_record env line r0 = Inr r"
    and step: "(if \<not> withinRoots (ct_Name r) roots \<or> ct_record_key r \<in> set (map ct_record_key acc)
        then import_lines ctx decode env roots (Suc line) acc rest
        else import_lines ctx decode env roots (Suc line) (acc @ [r]) rest) = Inr rs"
    unfolding import_lines.simps by (auto simp only: and_then_Inr_iff split: option.splits)
  show ?case
  proof (cases "\<not> withinRoots (ct_Name r) roots \<or> ct_record_key r \<in> set (map ct_record_key acc)")
    case True
    with step have "import_lines ctx decode env roots (Suc line) acc rest = Inr rs" by (simp only: if_True)
    with 2(1) [OF r(1) True] 2(4,5) show ?thesis by blast
  next
    case False
    with step have n: "import_lines ctx decode env roots (Suc line) (acc @ [r]) rest = Inr rs" by (simp only: if_False)
    from False import_record_Inr [OF r(3)] have "imported_ok env roots r"
      by (auto simp: imported_ok_def withinRoots_iff)
    with False 2(4,5) have "distinct (map ct_record_key (acc @ [r]))" "\<forall>x \<in> set (acc @ [r]). imported_ok env roots x"
      by auto
    with 2(2) [OF r(1) False n] show ?thesis by blast
  qed
qed simp

text \<open>An import is all or nothing: with any error the store is unchanged. A successful import
  stores as many records as it reports, each name and certificate once; every one of them has a
  normalised name at or below a requested root, a certificate hash, a source and a time, and it is
  marked as imported and unverified whatever provenance the file claims.\<close>

lemma import_jsonl_sound:
  "case ImportJSONL ctx ctx_store decode env data roots s of
     (Inl e, s') \<Rightarrow> s' = s
   | (Inr n, s') \<Rightarrow> \<exists>records normalized. s' = importLocked records s \<and> length records = n
       \<and> distinct (map ct_record_key records)
       \<and> list_all2 (\<lambda>root r. ct_normalizeName env root = Inr r) roots normalized
       \<and> (\<forall>r \<in> set records. imported_ok env normalized r)"
proof (cases "map_result (\<lambda>root. map_error (Wrap ''normalize CT root'') (ct_normalizeName env root)) roots")
  case (Inl e)
  then show ?thesis by (simp add: ImportJSONL_def)
next
  case (Inr normalized)
  obtain content too_long where sl: "scan_lines data = (content, too_long)" by (cases "scan_lines data")
  have ok: "list_all2 (\<lambda>root r. ct_normalizeName env root = Inr r) roots normalized"
    using map_result_Inr [OF Inr] by (rule list_all2_mono) (simp add: map_error_def split: sum.splits)
  show ?thesis
  proof (cases "import_lines ctx decode env (compact (sort normalized)) 1 [] content")
    case (Inl e)
    with Inr sl show ?thesis by (simp add: ImportJSONL_def)
  next
    case rs: (Inr records)
    from import_lines_Inr [OF rs] have r: "distinct (map ct_record_key records)"
      "\<forall>r \<in> set records. imported_ok env normalized r" by (auto simp: imported_ok_def)
    with ok Inr rs sl show ?thesis
      by (auto simp: ImportJSONL_def Import_def split: option.splits)
  qed
qed

lemma example_import:
  fixes s :: ct_store
  defines "r \<equiv> example_ct ''a.example.com'' 5 ProvenanceVerifiedLog"
  shows "ImportJSONL (\<lambda>_. None) None (\<lambda>_. Decoded r TrailingEOF) plain_env ''x'' [''example.com''] s
    = (Inr 1, importLocked [r\<lparr>ct_Provenance := ProvenanceImportedUnverified\<rparr>] s)"
proof -
  have n: "ct_normalizeName plain_env ''a.example.com'' = Inr ''a.example.com''"
    by (simp add: ct_normalizeName_def Normalize_def zero_analyze_request_def target_eval)
  have i: "import_record plain_env 1 r = Inr (r\<lparr>ct_Provenance := ProvenanceImportedUnverified\<rparr>)"
    by (simp add: r_def import_record_def normalizeRecord_def example_ct_def passed_check_def n map_error_def
        to_lower_def lower_char_def trim_space_def is_space_def has_prefix_def Let_def invalid_check_def)
  have "import_lines (\<lambda>_. None) (\<lambda>_. Decoded r TrailingEOF) plain_env [''example.com''] 1 [] [''x'']
      = Inr [r\<lparr>ct_Provenance := ProvenanceImportedUnverified\<rparr>]"
    using i by (simp add: decode_line_def withinRoots_def has_suffix_def r_def example_ct_def)
  then show ?thesis
    by (simp add: ImportJSONL_def Import_def scan_lines_def scan_buffer_def
        trim_suffix_def has_suffix_def map_error_def ct_normalize_example Let_def)
qed

lemma import_jsonl_sound_example:
  "\<exists>r. importLocked [(example_ct ''a.example.com'' 5 ProvenanceVerifiedLog)\<lparr>ct_Provenance := ProvenanceImportedUnverified\<rparr>] NewCtStore
      = importLocked [r] NewCtStore \<and> ct_Provenance r = ProvenanceImportedUnverified"
  using import_jsonl_sound [where ctx = "\<lambda>_. None" and ctx_store = None
      and decode = "\<lambda>_. Decoded (example_ct ''a.example.com'' 5 ProvenanceVerifiedLog) TrailingEOF"
      and env = plain_env and data = "''x''" and roots = "[''example.com'']" and s = NewCtStore]
  unfolding example_import by (auto simp: length_Suc_conv imported_ok_def)

text \<open>The in-process store keys a record by name and certificate only, so importing an
  unverified copy of a record replaces the verified one: after the import the store no longer
  holds the verified record.\<close>

lemma import_replaces_verified:
  "(let r = example_ct ''a.example.com'' 5 ProvenanceVerifiedLog;
        s = snd (Import None [r] NewCtStore);
        result = ImportJSONL (\<lambda>_. None) None (\<lambda>_. Decoded r TrailingEOF) plain_env ''x'' [''example.com''] s
    in r \<in> snd ` set (st_records s) \<and> fst result = Inr 1
       \<and> snd ` set (st_records (snd result)) = {r\<lparr>ct_Provenance := ProvenanceImportedUnverified\<rparr>})"
  by (simp add: Let_def example_import Import_def importLocked_def NewCtStore_def ct_record_key_def)

end
