(* ===== verification/Ctlog_Collector.thy ===== *)
theory Ctlog_Collector
  imports Ctlog
begin

text \<open>
  Package internal/ctlog, collector.go: the bounded, verifying collector of one RFC 6962 log.

  The log client and the functions of the CT and Merkle libraries are arguments. The context is
  the function \<open>ctx\<close> of the number of requests made so far, so it may end at any time. Indexes
  and tree sizes are \<open>uint64\<close> values: natural numbers with the wrap-around of sums and
  differences written out.
\<close>

section \<open>Unsigned arithmetic\<close>

definition uadd :: "nat \<Rightarrow> nat \<Rightarrow> nat" where "uadd a b = (a + b) mod 2 ^ 64"
definition usub :: "nat \<Rightarrow> nat \<Rightarrow> nat" where "usub a b = (a + 2 ^ 64 - b) mod 2 ^ 64"

text \<open>The conversion of a \<open>uint64\<close> to \<open>int64\<close>.\<close>

definition to_i64 :: "nat \<Rightarrow> int" where
  "to_i64 n = (if n < 2 ^ 63 then int n else int n - 2 ^ 64)"

section \<open>Libraries and configuration\<close>

record tree_head =
  sth_TreeSize :: nat
  sth_Timestamp :: nat
  sth_RootHash :: string
  sth_Signature :: string

record leaf_entry =
  lf_LeafInput :: string
  lf_ExtraData :: string

record entry_proof =
  ep_LeafInput :: string
  ep_ExtraData :: string
  ep_AuditPath :: "string list"

record log_client =
  GetSTH :: "go_error + tree_head option"
  GetRawEntries :: "int \<Rightarrow> int \<Rightarrow> go_error + leaf_entry list option"
  GetSTHConsistency :: "nat \<Rightarrow> nat \<Rightarrow> go_error + string list"
  GetEntryAndProof :: "nat \<Rightarrow> nat \<Rightarrow> go_error + entry_proof option"

record ct_certificate =
  ce_Raw :: string
  ce_DNSNames :: "string list"
  ce_CommonName :: string
  ce_NotBefore :: gotime
  ce_NotAfter :: gotime

record log_entry =
  le_X509Cert :: "ct_certificate option"
  le_Precert :: "(ct_certificate option \<times> string) option"
  le_Timestamp :: nat

record ct_library =
  LogEntryFromLeaf :: "int \<Rightarrow> leaf_entry \<Rightarrow> go_error + log_entry"
  HashLeaf :: "string \<Rightarrow> string"
  VerifyInclusion :: "nat \<Rightarrow> nat \<Rightarrow> string \<Rightarrow> string list \<Rightarrow> string \<Rightarrow> go_error option"
  VerifyConsistency :: "nat \<Rightarrow> nat \<Rightarrow> string list \<Rightarrow> string \<Rightarrow> string \<Rightarrow> go_error option"
  TimestampToTime :: "nat \<Rightarrow> gotime"
  sha256_hex :: "string \<Rightarrow> string"
  target_library :: target_env

record ct_budget =
  MaximumEntries :: int
  BatchSize :: int
  MaximumProofs :: int
  MaximumRequests :: int
  MaximumBytes :: int
  MaximumElapsed :: duration

definition DefaultBudget :: ct_budget where
  "DefaultBudget = \<lparr>MaximumEntries = 256, BatchSize = 64, MaximumProofs = 16, MaximumRequests = 24,
     MaximumBytes = 8388608, MaximumElapsed = 60000000000\<rparr>"

record collector_config =
  cf_Protocol :: string
  cf_LogID :: string
  cf_SourceID :: string
  cf_KeyIdentity :: string
  cf_Roots :: "string list"
  cf_StartIndex :: nat
  cf_InitialCheckpoint :: "checkpoint option"
  cf_TrustInitialCheckpoint :: bool
  cf_Budget :: ct_budget

definition validateBudget :: "ct_budget \<Rightarrow> go_error option" where
  "validateBudget b =
     (if MaximumEntries b \<le> 0 \<or> BatchSize b \<le> 0 \<or> BatchSize b > MaximumEntries b \<or> MaximumProofs b < 0
         \<or> MaximumRequests b \<le> 0 \<or> MaximumBytes b \<le> 0 \<or> MaximumElapsed b \<le> 0
      then Some (Errorf ''CT collector budget must be positive and batch size must not exceed entry limit'')
      else None)"

text \<open>The client and the store of the collector are not nil here.\<close>

definition NewCollector :: "ct_library \<Rightarrow> collector_config \<Rightarrow> go_error + collector_config" where
  "NewCollector L config =
     (if cf_Protocol config \<noteq> ''rfc6962'' then Inl (Errorf (''unsupported CT protocol '' @ cf_Protocol config))
      else if cf_LogID config = [] \<or> cf_SourceID config = [] \<or> cf_KeyIdentity config = [] \<or> cf_Roots config = []
      then Inl (Errorf ''CT log ID, source, pinned key identity, roots, client, and store are required'')
      else case validateBudget (cf_Budget config) of
        Some e \<Rightarrow> Inl e
      | None \<Rightarrow>
          and_then (map_result (\<lambda>root. map_error (Wrap ''normalize CT root'')
              (ct_normalizeName (target_library L) root)) (cf_Roots config)) (\<lambda>roots.
            Inr (config\<lparr>cf_Roots := compact (sort roots)\<rparr>)))"

section \<open>One run\<close>

record ct_metrics =
  mt_EntriesFetched :: int
  mt_RecordsRetained :: int
  mt_DownloadedBytes :: int
  mt_RetainedBytes :: int
  mt_Requests :: int
  mt_Elapsed :: duration
  mt_IngestionLag :: duration
  mt_BacklogBefore :: nat
  mt_BacklogAfter :: nat

definition zero_metrics :: ct_metrics where
  "zero_metrics = \<lparr>mt_EntriesFetched = 0, mt_RecordsRetained = 0, mt_DownloadedBytes = 0, mt_RetainedBytes = 0,
     mt_Requests = 0, mt_Elapsed = 0, mt_IngestionLag = 0, mt_BacklogBefore = 0, mt_BacklogAfter = 0\<rparr>"

record collection_run =
  run_checkpoint :: checkpoint
  run_metrics :: ct_metrics
  run_proofs :: int

text \<open>What a run is given: the libraries, the client, the validated configuration and the context.\<close>

record ct_context =
  cx_lib :: ct_library
  cx_client :: log_client
  cx_config :: collector_config
  cx_ctx :: "int \<Rightarrow> go_error option"

definition hex_encode :: "string \<Rightarrow> string" where
  "hex_encode s = concat (map (\<lambda>c. [hex_digit (of_char c div 16), hex_digit (of_char c mod 16)]) s)"

definition treeIdentity :: "ct_library \<Rightarrow> string \<Rightarrow> nat \<Rightarrow> string \<Rightarrow> string" where
  "treeIdentity L logID treeSize root =
     ''sha256:'' @ sha256_hex L (logID @ [CHR 0x00] @ nat_string treeSize @ [CHR 0x00] @ hex_encode root)"

definition verificationCheck ::
    "ct_library \<Rightarrow> ct_check_status \<Rightarrow> checkpoint \<Rightarrow> tree_head \<Rightarrow> string \<Rightarrow> ct_check" where
  "verificationCheck L status c sth reason =
     \<lparr>cc_Status = status, cc_Procedure = ''rfc6962-sha256'', cc_ProcedureVersion = ''1'',
      cc_TreeIdentity = treeIdentity L (cp_LogID c) (sth_TreeSize sth) (sth_RootHash sth),
      cc_KeyIdentity = cp_KeyIdentity c, cc_Reason = reason\<rparr>"

abbreviation budget :: "ct_context \<Rightarrow> ct_budget" where
  "budget X \<equiv> cf_Budget (cx_config X)"

abbreviation requests :: "collection_run \<Rightarrow> int" where
  "requests r \<equiv> mt_Requests (run_metrics r)"

abbreviation bytes :: "collection_run \<Rightarrow> int" where
  "bytes r \<equiv> mt_DownloadedBytes (run_metrics r)"

definition beforeRequest :: "ct_context \<Rightarrow> collection_run \<Rightarrow> go_error option \<times> collection_run" where
  "beforeRequest X r =
     (case cx_ctx X (requests r) of
        Some e \<Rightarrow> (Some e, r)
      | None \<Rightarrow>
          if requests r \<ge> MaximumRequests (budget X)
          then (Some (Errorf ''CT request budget exhausted''), r)
          else (None, r\<lparr>run_metrics := (run_metrics r)\<lparr>mt_Requests := requests r + 1\<rparr>\<rparr>))"

definition addBytes :: "ct_context \<Rightarrow> int \<Rightarrow> collection_run \<Rightarrow> go_error option \<times> collection_run" where
  "addBytes X n r =
     (let r = r\<lparr>run_metrics := (run_metrics r)\<lparr>mt_DownloadedBytes := bytes r + n\<rparr>\<rparr> in
      if bytes r > MaximumBytes (budget X) then (Some (Errorf ''CT byte budget exceeded''), r) else (None, r))"

definition getSTH :: "ct_context \<Rightarrow> collection_run \<Rightarrow> (go_error + tree_head) \<times> collection_run" where
  "getSTH X r =
     (case beforeRequest X r of
        (Some e, r) \<Rightarrow> (Inl e, r)
      | (None, r) \<Rightarrow>
          (case GetSTH (cx_client X) of
             Inl e \<Rightarrow> (Inl e, r)
           | Inr None \<Rightarrow> (Inl (Errorf ''CT log returned an empty checkpoint''), r)
           | Inr (Some sth) \<Rightarrow>
               (case addBytes X (int (length (sth_RootHash sth) + length (sth_Signature sth))) r of
                  (Some e, r) \<Rightarrow> (Inl e, r)
                | (None, r) \<Rightarrow> (Inr sth, r))))"

definition entries_size :: "leaf_entry list \<Rightarrow> int" where
  "entries_size es = (\<Sum>e \<leftarrow> es. int (length (lf_LeafInput e) + length (lf_ExtraData e)))"

definition hashes_size :: "string list \<Rightarrow> int" where
  "hashes_size hs = (\<Sum>h \<leftarrow> hs. int (length h))"

definition getEntries :: "ct_context \<Rightarrow> nat \<Rightarrow> nat \<Rightarrow> collection_run \<Rightarrow> (go_error + leaf_entry list) \<times> collection_run" where
  "getEntries X start end r =
     (case beforeRequest X r of
        (Some e, r) \<Rightarrow> (Inl e, r)
      | (None, r) \<Rightarrow>
          (case GetRawEntries (cx_client X) (to_i64 start) (to_i64 end) of
             Inl e \<Rightarrow> (Inl (Wrap (''fetch CT entries '' @ nat_string start @ ''-'' @ nat_string end) e), r)
           | Inr None \<Rightarrow> (Inl (Errorf ''CT log returned an empty entry response''), r)
           | Inr (Some entries) \<Rightarrow>
               (case addBytes X (entries_size entries) r of
                  (Some e, r) \<Rightarrow> (Inl e, r)
                | (None, r) \<Rightarrow> (Inr entries, r))))"

definition verifyContinuity :: "ct_context \<Rightarrow> tree_head \<Rightarrow> collection_run \<Rightarrow> ct_check \<times> collection_run" where
  "verifyContinuity X sth r =
     (let c = run_checkpoint r; check = (\<lambda>status reason. verificationCheck (cx_lib X) status c sth reason) in
      if cp_VerifiedTreeSize c = 0 then (check CTCheckNotPerformed ''initial authenticated checkpoint'', r)
      else if sth_TreeSize sth < cp_VerifiedTreeSize c then (check CTCheckFailed ''tree size regressed'', r)
      else if sth_TreeSize sth = cp_VerifiedTreeSize c then
        (if cp_VerifiedRootHash c = sth_RootHash sth then (check CTCheckPassed [], r)
         else (check CTCheckFailed ''root changed at the same tree size'', r))
      else (case beforeRequest X r of
          (Some e, r) \<Rightarrow> (check CTCheckFailed (error_string e), r)
        | (None, r) \<Rightarrow>
            (case GetSTHConsistency (cx_client X) (cp_VerifiedTreeSize c) (sth_TreeSize sth) of
               Inl e \<Rightarrow> (check CTCheckFailed (error_string e), r)
             | Inr path \<Rightarrow>
                 (case addBytes X (hashes_size path) r of
                    (Some e, r) \<Rightarrow> (check CTCheckFailed (error_string e), r)
                  | (None, r) \<Rightarrow>
                      (case VerifyConsistency (cx_lib X) (cp_VerifiedTreeSize c) (sth_TreeSize sth) path
                              (cp_VerifiedRootHash c) (sth_RootHash sth) of
                         Some e \<Rightarrow> (check CTCheckFailed (error_string e), r)
                       | None \<Rightarrow> (check CTCheckPassed [], r))))))"

definition verifyInclusion ::
    "ct_context \<Rightarrow> nat \<Rightarrow> tree_head \<Rightarrow> leaf_entry \<Rightarrow> collection_run \<Rightarrow> (go_error + ct_check) \<times> collection_run" where
  "verifyInclusion X index sth entry r =
     (let check = (\<lambda>status reason. verificationCheck (cx_lib X) status (run_checkpoint r) sth reason) in
      if run_proofs r \<ge> MaximumProofs (budget X)
      then (Inr (check CTCheckNotPerformed ''proof budget exhausted''), r)
      else (case beforeRequest X r of
          (Some e, r) \<Rightarrow> (Inl e, r)
        | (None, r) \<Rightarrow>
            let r = r\<lparr>run_proofs := run_proofs r + 1\<rparr> in
            (case GetEntryAndProof (cx_client X) index (sth_TreeSize sth) of
               Inl e \<Rightarrow> (Inl (Wrap (''fetch CT inclusion proof for entry '' @ nat_string index) e), r)
             | Inr None \<Rightarrow> (Inl (Errorf (''CT log returned an empty proof for entry '' @ nat_string index)), r)
             | Inr (Some response) \<Rightarrow>
                 (case addBytes X (int (length (ep_LeafInput response) + length (ep_ExtraData response))
                                   + hashes_size (ep_AuditPath response)) r of
                    (Some e, r) \<Rightarrow> (Inl e, r)
                  | (None, r) \<Rightarrow>
                      if ep_LeafInput response \<noteq> lf_LeafInput entry
                      then (Inr (check CTCheckFailed ''proof entry bytes differ from fetched entry''), r)
                      else (case VerifyInclusion (cx_lib X) index (sth_TreeSize sth)
                                   (HashLeaf (cx_lib X) (lf_LeafInput entry)) (ep_AuditPath response) (sth_RootHash sth) of
                              Some e \<Rightarrow> (Inr (check CTCheckFailed (error_string e)), r)
                            | None \<Rightarrow> (Inr (check CTCheckPassed []), r))))))"

section \<open>Records of an entry\<close>

definition entry_certificate :: "log_entry \<Rightarrow> (ct_certificate \<times> string) option" where
  "entry_certificate entry =
     (case le_X509Cert entry of
        Some c \<Rightarrow> Some (c, ce_Raw c)
      | None \<Rightarrow> (case le_Precert entry of Some (Some tbs, submitted) \<Rightarrow> Some (tbs, submitted) | _ \<Rightarrow> None))"

fun name_records :: "target_env \<Rightarrow> string list \<Rightarrow> (string \<Rightarrow> bool \<Rightarrow> ct_record) \<Rightarrow> string list \<Rightarrow> string list \<Rightarrow> ct_record list" where
  "name_records env roots mk seen [] = []"
| "name_records env roots mk seen (rawName # names) =
     (let name = trim_space (to_lower rawName);
          wildcard = has_prefix name ''*.'';
          name = trim_prefix name ''*.''
      in case ct_normalizeName env name of
           Inl _ \<Rightarrow> name_records env roots mk seen names
         | Inr normalized \<Rightarrow>
             if \<not> withinRoots normalized roots then name_records env roots mk seen names
             else if normalized \<in> set seen then name_records env roots mk seen names
             else mk normalized wildcard # name_records env roots mk (normalized # seen) names)"

definition recordsFromEntry ::
    "ct_context \<Rightarrow> nat \<Rightarrow> tree_head \<Rightarrow> leaf_entry \<Rightarrow> ct_check \<Rightarrow> ct_check \<Rightarrow> go_error + ct_record list" where
  "recordsFromEntry X index sth leaf continuity inclusion =
     (let L = cx_lib X; config = cx_config X in
      and_then (LogEntryFromLeaf L (to_i64 index) leaf) (\<lambda>entry.
        case entry_certificate entry of
          None \<Rightarrow> Inl (Errorf ''entry contains no supported certificate'')
        | Some (certificate, certificateBytes) \<Rightarrow>
            if certificateBytes = [] then Inl (Errorf ''entry contains no supported certificate'')
            else
              let names = ce_DNSNames certificate
                    @ (if ce_CommonName certificate \<noteq> [] then [ce_CommonName certificate] else []);
                  signature = verificationCheck L CTCheckPassed
                    (zero_checkpoint\<lparr>cp_LogID := cf_LogID config, cp_KeyIdentity := cf_KeyIdentity config\<rparr>) sth [];
                  provenance = (if cc_Status signature = CTCheckPassed \<and> cc_Status inclusion = CTCheckPassed
                      \<and> (cc_Status continuity = CTCheckPassed \<or> cc_Status continuity = CTCheckNotPerformed)
                    then ProvenanceVerifiedLog else ProvenanceLogUnverified);
                  mk = (\<lambda>name wildcard. \<lparr>ct_Name = name, ct_Wildcard = wildcard,
                    ct_CertificateHash = sha256_hex L certificateBytes, ct_LogID = cf_LogID config,
                    ct_EntryIndex = Some index, ct_LoggedAt = TimestampToTime L (le_Timestamp entry),
                    ct_NotBefore = Some (ce_NotBefore certificate), ct_NotAfter = Some (ce_NotAfter certificate),
                    ct_SourceID = cf_SourceID config, ct_Provenance = provenance,
                    ct_Verification = \<lparr>ver_CheckpointSignature = signature, ver_Continuity = continuity,
                      ver_EntryInclusion = inclusion\<rparr>,
                    ct_CheckpointID = treeIdentity L (cf_LogID config) (sth_TreeSize sth) (sth_RootHash sth)\<rparr>)
              in Inr (name_records (target_library L) (cf_Roots config) mk [] names)))"

definition retainedBytes :: "ct_record list \<Rightarrow> int" where
  "retainedBytes rs = (\<Sum>r \<leftarrow> rs. int (length (ct_Name r) + length (ct_CertificateHash r) + length (ct_LogID r)
     + length (ct_SourceID r) + length (ct_CheckpointID r)))"

section \<open>The loops of Collect\<close>

fun collect_entries ::
    "ct_context \<Rightarrow> tree_head \<Rightarrow> ct_check \<Rightarrow> nat \<Rightarrow> leaf_entry list \<Rightarrow> ct_record list \<Rightarrow> bool \<Rightarrow> collection_run
     \<Rightarrow> (go_error + ct_record list \<times> bool) \<times> collection_run" where
  "collect_entries X sth continuity index [] records allIncluded r = (Inr (records, allIncluded), r)"
| "collect_entries X sth continuity index (entry # entries) records allIncluded r =
     (case verifyInclusion X index sth entry r of
        (Inl e, r) \<Rightarrow> (Inl e, r)
      | (Inr inclusion, r) \<Rightarrow>
          let allIncluded = (if cc_Status inclusion \<noteq> CTCheckPassed then False else allIncluded) in
          (case recordsFromEntry X index sth entry continuity inclusion of
             Inl e \<Rightarrow> (Inl (Wrap (''parse CT entry '' @ nat_string index) e), r)
           | Inr entryRecords \<Rightarrow>
               collect_entries X sth continuity (uadd index 1) entries (records @ entryRecords) allIncluded
                 (r\<lparr>run_metrics := (run_metrics r)\<lparr>mt_EntriesFetched := mt_EntriesFetched (run_metrics r) + 1\<rparr>\<rparr>)))"

lemma beforeRequest_cases:
  obtains e where "beforeRequest X r = (Some e, r)"
  | "beforeRequest X r = (None, r\<lparr>run_metrics := (run_metrics r)\<lparr>mt_Requests := requests r + 1\<rparr>\<rparr>)"
    "requests r < MaximumRequests (budget X)" "cx_ctx X (requests r) = None"
  by (cases "cx_ctx X (requests r)"; cases "requests r \<ge> MaximumRequests (budget X)")
    (auto simp: beforeRequest_def)

lemma addBytes_fst: "snd (addBytes X n r) = r\<lparr>run_metrics := (run_metrics r)\<lparr>mt_DownloadedBytes := bytes r + n\<rparr>\<rparr>"
  by (simp add: addBytes_def Let_def)

lemma getEntries_requests:
  assumes "getEntries X start end r = (Inr entries, r')"
  shows "requests r' = requests r + 1" "requests r < MaximumRequests (budget X)"
  using assms addBytes_fst [of X "entries_size entries"]
  by (cases rule: beforeRequest_cases [of X r]; auto simp: getEntries_def addBytes_def Let_def
      split: sum.splits option.splits if_splits)+

lemma verifyInclusion_requests:
  "verifyInclusion X index sth entry r = (res, r') \<Longrightarrow> requests r \<le> requests r'"
  by (cases rule: beforeRequest_cases [of X r]; auto simp: verifyInclusion_def addBytes_def Let_def
      split: sum.splits option.splits if_splits)

lemma collect_entries_requests:
  "collect_entries X sth continuity index entries records ai r = (res, r') \<Longrightarrow> requests r \<le> requests r'"
proof (induction entries arbitrary: index records ai r)
  case (Cons entry entries)
  obtain res1 r1 where v: "verifyInclusion X index sth entry r = (res1, r1)"
    by (cases "verifyInclusion X index sth entry r")
  from verifyInclusion_requests [OF v] Cons show ?case
    by (fastforce simp: v Let_def split: sum.splits)
qed simp

text \<open>The loop over batches. Every pass makes a request, so it ends when the request budget does,
  whatever the log answers and even if an index wraps around.\<close>

function collect_batches ::
    "ct_context \<Rightarrow> tree_head \<Rightarrow> ct_check \<Rightarrow> nat \<Rightarrow> nat \<Rightarrow> ct_record list \<Rightarrow> bool \<Rightarrow> collection_run
     \<Rightarrow> (go_error + ct_record list \<times> bool \<times> nat) \<times> collection_run" where
  "collect_batches X sth continuity start end records allIncluded r =
     (if start < end then
        let batchEnd = uadd start (nat (BatchSize (budget X)));
            batchEnd = (if batchEnd > end then end else batchEnd) in
        (case getEntries X start (usub batchEnd 1) r of
           (Inl e, r) \<Rightarrow> (Inl e, r)
         | (Inr entries, r) \<Rightarrow>
             if entries = [] \<or> int (length entries) > to_i64 (usub batchEnd start)
             then (Inl (Errorf (''CT log returned '' @ nat_string (length entries) @ '' entries for range '' @
                     nat_string start @ ''-'' @ nat_string (usub batchEnd 1))), r)
             else (case collect_entries X sth continuity start entries records allIncluded r of
                 (Inl e, r) \<Rightarrow> (Inl e, r)
               | (Inr (records, allIncluded), r) \<Rightarrow>
                   let start = uadd start (length entries) in
                   collect_batches X sth continuity start (if start < batchEnd then start else end)
                     records allIncluded r))
      else (Inr (records, allIncluded, end), r))"
  by pat_completeness auto
termination
proof (relation "measure (\<lambda>(X, sth, c, s, e, rs, ai, r). nat (MaximumRequests (budget X) - requests r))", goal_cases)
  case (2 X sth c s e rs ai r b1 b2 x r1 es p r2 q rs2 ai2 s2)
  from 2 have "getEntries X s (usub b2 1) r = (Inr es, r1)" by simp
  note g = getEntries_requests [OF this]
  from 2 have "collect_entries X sth c s es rs ai r1 = (p, r2)" by simp
  from collect_entries_requests [OF this] g show ?case by simp
qed simp

declare collect_batches.simps [simp del]

section \<open>Collect\<close>

definition initial_checkpoint :: "collector_config \<Rightarrow> checkpoint" where
  "initial_checkpoint config =
     (case cf_InitialCheckpoint config of
        None \<Rightarrow> zero_checkpoint\<lparr>cp_LogID := cf_LogID config, cp_NextIndex := cf_StartIndex config,
                  cp_KeyIdentity := cf_KeyIdentity config\<rparr>
      | Some c \<Rightarrow>
          let c = c\<lparr>cp_LogID := cf_LogID config, cp_KeyIdentity := cf_KeyIdentity config\<rparr> in
          if \<not> cf_TrustInitialCheckpoint config
          then c\<lparr>cp_VerifiedTreeSize := 0, cp_VerifiedRootHash := [], cp_TreeTimestamp := 0, cp_TreeIdentity := []\<rparr>
          else c)"

definition next_checkpoint ::
    "ct_context \<Rightarrow> tree_head \<Rightarrow> ct_check \<Rightarrow> bool \<Rightarrow> nat \<Rightarrow> checkpoint \<Rightarrow> checkpoint" where
  "next_checkpoint X sth continuity allIncluded end c =
     (let c = c\<lparr>cp_NextIndex := end, cp_LogID := cf_LogID (cx_config X), cp_KeyIdentity := cf_KeyIdentity (cx_config X)\<rparr> in
      if (cc_Status continuity = CTCheckPassed \<or> cc_Status continuity = CTCheckNotPerformed) \<and> allIncluded
      then c\<lparr>cp_VerifiedTreeSize := sth_TreeSize sth, cp_VerifiedRootHash := sth_RootHash sth,
             cp_TreeTimestamp := TimestampToTime (cx_lib X) (sth_Timestamp sth),
             cp_TreeIdentity := treeIdentity (cx_lib X) (cf_LogID (cx_config X)) (sth_TreeSize sth) (sth_RootHash sth)\<rparr>
      else c)"

text \<open>The context at the two calls of the store, and the three readings of the clock, are arguments.\<close>

definition Collect_run ::
    "ct_context \<Rightarrow> go_error option \<Rightarrow> (gotime \<times> gotime \<times> gotime) \<Rightarrow> collection_run \<Rightarrow> ct_store
     \<Rightarrow> (ct_metrics \<times> go_error option) \<times> ct_store" where
  "Collect_run X ctx_commit clock r s =
     (let c = run_checkpoint r in
      case getSTH X r of
        (Inl e, r) \<Rightarrow> ((run_metrics r, Some (Wrap ''get authenticated CT checkpoint'' e)), s)
      | (Inr sth, r) \<Rightarrow>
          if sth_TreeSize sth < cp_NextIndex c
          then ((run_metrics r, Some (Errorf (''CT tree size '' @ nat_string (sth_TreeSize sth) @
                  '' precedes ingestion index '' @ nat_string (cp_NextIndex c)))), s)
          else
            let r = r\<lparr>run_metrics := (run_metrics r)\<lparr>mt_BacklogBefore := usub (sth_TreeSize sth) (cp_NextIndex c)\<rparr>\<rparr>;
                (continuity, r) = verifyContinuity X sth r;
                end = uadd (cp_NextIndex c) (nat (MaximumEntries (budget X)));
                end = (if end > sth_TreeSize sth then sth_TreeSize sth else end)
            in case collect_batches X sth continuity (cp_NextIndex c) end [] True r of
                 (Inl e, r) \<Rightarrow> ((run_metrics r, Some e), s)
               | (Inr (records, allIncluded, end), r) \<Rightarrow>
                   (case CommitCollection ctx_commit records (next_checkpoint X sth continuity allIncluded end c) s of
                      (Some e, s) \<Rightarrow> ((run_metrics r, Some (Wrap ''commit CT collection'' e)), s)
                    | (None, s) \<Rightarrow>
                        (case clock of (startedAt, finishedAt, lagAt) \<Rightarrow>
                          (((run_metrics r)\<lparr>mt_RecordsRetained := int (length records),
                             mt_RetainedBytes := retainedBytes records,
                             mt_BacklogAfter := usub (sth_TreeSize sth) end,
                             mt_Elapsed := finishedAt - startedAt,
                             mt_IngestionLag := max 0 (lagAt - TimestampToTime (cx_lib X) (sth_Timestamp sth))\<rparr>, None), s))))"

definition Collect_ct ::
    "ct_context \<Rightarrow> go_error option \<Rightarrow> go_error option \<Rightarrow> (gotime \<times> gotime \<times> gotime) \<Rightarrow> ct_store
     \<Rightarrow> (ct_metrics \<times> go_error option) \<times> ct_store" where
  "Collect_ct X ctx_load ctx_commit clock s =
     (case LoadCheckpoint ctx_load (cf_LogID (cx_config X)) s of
        Inl e \<Rightarrow> ((zero_metrics, Some (Wrap ''load CT checkpoint'' e)), s)
      | Inr c \<Rightarrow>
          let c = (if cp_LogID c = [] then initial_checkpoint (cx_config X) else c) in
          if cp_KeyIdentity c \<noteq> [] \<and> cp_KeyIdentity c \<noteq> cf_KeyIdentity (cx_config X)
          then ((zero_metrics, Some (Errorf ''CT checkpoint key identity does not match configured pinned key'')), s)
          else Collect_run X ctx_commit clock
                 \<lparr>run_checkpoint = c, run_metrics = zero_metrics, run_proofs = 0\<rparr> s)"

section \<open>What a step of a run keeps\<close>

definition run_le :: "ct_context \<Rightarrow> collection_run \<Rightarrow> collection_run \<Rightarrow> bool" where
  "run_le X r r' \<longleftrightarrow> run_checkpoint r' = run_checkpoint r
     \<and> requests r \<le> requests r' \<and> requests r' \<le> max (requests r) (MaximumRequests (budget X))
     \<and> run_proofs r \<le> run_proofs r' \<and> run_proofs r' \<le> max (run_proofs r) (MaximumProofs (budget X))
     \<and> bytes r \<le> bytes r'"

lemma run_le_refl [simp]: "run_le X r r"
  by (simp add: run_le_def)

lemma run_le_trans [trans]: "run_le X r s \<Longrightarrow> run_le X s t \<Longrightarrow> run_le X r t"
  by (auto simp: run_le_def)

abbreviation fetched :: "collection_run \<Rightarrow> int" where
  "fetched r \<equiv> mt_EntriesFetched (run_metrics r)"

lemma entries_size_nonneg: "0 \<le> entries_size es"
  by (induction es) (simp_all add: entries_size_def)

lemma hashes_size_nonneg: "0 \<le> hashes_size hs"
  by (induction hs) (simp_all add: hashes_size_def)

lemma getSTH_run:
  assumes "getSTH X r = (res, r')"
  shows "run_le X r r' \<and> fetched r' = fetched r"
  using assms
  by (cases rule: beforeRequest_cases [of X r]; auto simp: getSTH_def addBytes_def run_le_def Let_def
      split: sum.splits option.splits if_splits)

lemma getEntries_run:
  assumes "getEntries X a b r = (res, r')"
  shows "run_le X r r' \<and> fetched r' = fetched r \<and> (\<forall>es. res = Inr es \<longrightarrow> bytes r' \<le> MaximumBytes (budget X))"
  using assms entries_size_nonneg
  by (cases rule: beforeRequest_cases [of X r]; auto simp: getEntries_def addBytes_def run_le_def Let_def
      split: sum.splits option.splits if_splits)

lemma verifyContinuity_run:
  assumes "verifyContinuity X sth r = (c, r')"
  shows "run_le X r r' \<and> fetched r' = fetched r"
  using assms hashes_size_nonneg
  by (cases rule: beforeRequest_cases [of X r]; auto simp: verifyContinuity_def addBytes_def run_le_def Let_def
      split: sum.splits option.splits if_splits)

lemma verifyInclusion_run:
  assumes "verifyInclusion X i sth entry r = (res, r')"
  shows "run_le X r r' \<and> fetched r' = fetched r
    \<and> (\<forall>c. res = Inr c \<longrightarrow> bytes r \<le> MaximumBytes (budget X) \<longrightarrow> bytes r' \<le> MaximumBytes (budget X))"
  using assms hashes_size_nonneg
  by (cases rule: beforeRequest_cases [of X r]; auto simp: verifyInclusion_def addBytes_def run_le_def Let_def
      split: sum.splits option.splits if_splits)

section \<open>What the checks establish\<close>

definition accepted_inclusion :: "ct_context \<Rightarrow> tree_head \<Rightarrow> nat \<Rightarrow> leaf_entry \<Rightarrow> bool" where
  "accepted_inclusion X sth i leaf \<longleftrightarrow>
     (\<exists>p. GetEntryAndProof (cx_client X) i (sth_TreeSize sth) = Inr (Some p) \<and> ep_LeafInput p = lf_LeafInput leaf
        \<and> VerifyInclusion (cx_lib X) i (sth_TreeSize sth) (HashLeaf (cx_lib X) (lf_LeafInput leaf))
            (ep_AuditPath p) (sth_RootHash sth) = None)"

definition accepted_continuity :: "ct_context \<Rightarrow> tree_head \<Rightarrow> checkpoint \<Rightarrow> bool" where
  "accepted_continuity X sth c \<longleftrightarrow> cp_VerifiedTreeSize c = 0
     \<or> (sth_TreeSize sth = cp_VerifiedTreeSize c \<and> sth_RootHash sth = cp_VerifiedRootHash c)
     \<or> (cp_VerifiedTreeSize c < sth_TreeSize sth \<and> (\<exists>path.
          GetSTHConsistency (cx_client X) (cp_VerifiedTreeSize c) (sth_TreeSize sth) = Inr path
          \<and> VerifyConsistency (cx_lib X) (cp_VerifiedTreeSize c) (sth_TreeSize sth) path
              (cp_VerifiedRootHash c) (sth_RootHash sth) = None))"

definition trusted :: "ct_check \<Rightarrow> bool" where
  "trusted c \<longleftrightarrow> cc_Status c = CTCheckPassed \<or> cc_Status c = CTCheckNotPerformed"

lemma verificationCheck_status [simp]: "cc_Status (verificationCheck L st c sth why) = st"
  by (simp add: verificationCheck_def)

lemma verifyContinuity_trusted:
  assumes "verifyContinuity X sth r = (check, r')" "trusted check"
  shows "accepted_continuity X sth (run_checkpoint r)"
  using assms unfolding trusted_def accepted_continuity_def
  by (cases rule: beforeRequest_cases [of X r]; auto simp: verifyContinuity_def addBytes_def Let_def
      split: sum.splits option.splits if_splits)

lemma verifyInclusion_passed:
  assumes "verifyInclusion X i sth leaf r = (Inr check, r')" "cc_Status check = CTCheckPassed"
  shows "accepted_inclusion X sth i leaf"
  using assms unfolding accepted_inclusion_def
  by (cases rule: beforeRequest_cases [of X r]; auto simp: verifyInclusion_def addBytes_def Let_def
      split: sum.splits option.splits if_splits)

text \<open>A leaf the log returned: the \<open>j\<close>th entry of an answer for a range that starts at \<open>a\<close> has the index
  \<open>a + j\<close> of a \<open>uint64\<close>.\<close>

definition index_at :: "nat \<Rightarrow> nat \<Rightarrow> nat" where
  "index_at a j = (if j = 0 then a else uadd a j)"

definition fetched_leaf :: "ct_context \<Rightarrow> nat \<Rightarrow> leaf_entry \<Rightarrow> bool" where
  "fetched_leaf X i leaf \<longleftrightarrow>
     (\<exists>a b entries j. GetRawEntries (cx_client X) (to_i64 a) (to_i64 b) = Inr (Some entries)
        \<and> j < length entries \<and> entries ! j = leaf \<and> i = index_at a j)"

text \<open>A name of a record: one of the names of the certificate, lower case and trimmed, without the mark of a
  wildcard, in normal form and within the roots.\<close>

definition names_certificate :: "ct_context \<Rightarrow> ct_certificate \<Rightarrow> ct_record \<Rightarrow> bool" where
  "names_certificate X cert rec \<longleftrightarrow>
     (\<exists>raw. (raw \<in> set (ce_DNSNames cert) \<or> raw = ce_CommonName cert \<and> raw \<noteq> [])
        \<and> ct_Wildcard rec = has_prefix (trim_space (to_lower raw)) ''*.''
        \<and> ct_normalizeName (target_library (cx_lib X)) (trim_prefix (trim_space (to_lower raw)) ''*.'') = Inr (ct_Name rec))
     \<and> withinRoots (ct_Name rec) (cf_Roots (cx_config X))"

text \<open>What a record says of the leaf it was read from.\<close>

definition describes_leaf :: "ct_context \<Rightarrow> tree_head \<Rightarrow> nat \<Rightarrow> leaf_entry \<Rightarrow> ct_record \<Rightarrow> bool" where
  "describes_leaf X sth i leaf rec \<longleftrightarrow>
     (\<exists>entry cert data. LogEntryFromLeaf (cx_lib X) (to_i64 i) leaf = Inr entry
        \<and> entry_certificate entry = Some (cert, data) \<and> data \<noteq> [] \<and> names_certificate X cert rec
        \<and> ct_CertificateHash rec = sha256_hex (cx_lib X) data \<and> ct_LoggedAt rec = TimestampToTime (cx_lib X) (le_Timestamp entry)
        \<and> ct_NotBefore rec = Some (ce_NotBefore cert) \<and> ct_NotAfter rec = Some (ce_NotAfter cert))
     \<and> ct_EntryIndex rec = Some i \<and> ct_LogID rec = cf_LogID (cx_config X) \<and> ct_SourceID rec = cf_SourceID (cx_config X)
     \<and> ct_CheckpointID rec = treeIdentity (cx_lib X) (cf_LogID (cx_config X)) (sth_TreeSize sth) (sth_RootHash sth)"

text \<open>A record the collector stores: it describes a fetched leaf, and a verified provenance means that the
  checks were accepted.\<close>

definition record_ok :: "ct_context \<Rightarrow> tree_head \<Rightarrow> ct_check \<Rightarrow> ct_record \<Rightarrow> bool" where
  "record_ok X sth continuity rec \<longleftrightarrow>
     (\<exists>i leaf. fetched_leaf X i leaf \<and> describes_leaf X sth i leaf rec
        \<and> (ct_Provenance rec = ProvenanceVerifiedLog \<longrightarrow> accepted_inclusion X sth i leaf \<and> trusted continuity))"

lemma index_at_step: "index_at (uadd a 1) j = index_at a (Suc j)"
  by (simp add: index_at_def uadd_def mod_add_left_eq)

lemma getEntries_fetched:
  assumes "getEntries X start end r = (Inr entries, r')" "j < length entries"
  shows "fetched_leaf X (index_at start j) (entries ! j)"
proof -
  have "GetRawEntries (cx_client X) (to_i64 start) (to_i64 end) = Inr (Some entries)"
    using assms(1) by (cases rule: beforeRequest_cases [of X r]; auto simp: getEntries_def addBytes_def Let_def
      split: sum.splits option.splits if_splits)
  with assms(2) show ?thesis unfolding fetched_leaf_def by blast
qed

lemma name_records_member:
  "x \<in> set (name_records env roots mk seen names) \<Longrightarrow>
    \<exists>raw n. raw \<in> set names \<and> x = mk n (has_prefix (trim_space (to_lower raw)) ''*.'') \<and> withinRoots n roots
      \<and> ct_normalizeName env (trim_prefix (trim_space (to_lower raw)) ''*.'') = Inr n"
proof (induction names arbitrary: seen)
  case (Cons raw names)
  let ?name = "trim_space (to_lower raw)"
  have "(\<exists>seen'. x \<in> set (name_records env roots mk seen' names))
    \<or> (\<exists>n. x = mk n (has_prefix ?name ''*.'') \<and> withinRoots n roots \<and> ct_normalizeName env (trim_prefix ?name ''*.'') = Inr n)"
    using Cons.prems by (cases "ct_normalizeName env (trim_prefix ?name ''*.'')") (auto simp: Let_def split: if_splits)
  then show ?case
  proof
    assume "\<exists>seen'. x \<in> set (name_records env roots mk seen' names)"
    with Cons.IH obtain raw' n where "raw' \<in> set names" "x = mk n (has_prefix (trim_space (to_lower raw')) ''*.'')" "withinRoots n roots"
      "ct_normalizeName env (trim_prefix (trim_space (to_lower raw')) ''*.'') = Inr n" by blast
    then show ?case by (intro exI [of _ raw'] exI [of _ n]) simp
  next
    assume "\<exists>n. x = mk n (has_prefix ?name ''*.'') \<and> withinRoots n roots \<and> ct_normalizeName env (trim_prefix ?name ''*.'') = Inr n"
    then show ?case by (metis list.set_intros(1))
  qed
qed simp

lemma recordsFromEntry_ok:
  assumes "recordsFromEntry X i sth leaf continuity inclusion = Inr rs" "x \<in> set rs" "fetched_leaf X i leaf"
    and "cc_Status inclusion = CTCheckPassed \<Longrightarrow> accepted_inclusion X sth i leaf"
  shows "record_ok X sth continuity x"
proof -
  from assms(1) obtain entry cert data where
    e: "LogEntryFromLeaf (cx_lib X) (to_i64 i) leaf = Inr entry" "entry_certificate entry = Some (cert, data)" "data \<noteq> []"
    by (auto simp: recordsFromEntry_def and_then_Inr_iff Let_def split: option.splits if_splits)
  define mk where "mk = (\<lambda>name wildcard. \<lparr>ct_Name = name, ct_Wildcard = wildcard,
    ct_CertificateHash = sha256_hex (cx_lib X) data, ct_LogID = cf_LogID (cx_config X),
    ct_EntryIndex = Some i, ct_LoggedAt = TimestampToTime (cx_lib X) (le_Timestamp entry),
    ct_NotBefore = Some (ce_NotBefore cert), ct_NotAfter = Some (ce_NotAfter cert), ct_SourceID = cf_SourceID (cx_config X),
    ct_Provenance = (if cc_Status inclusion = CTCheckPassed \<and> trusted continuity then ProvenanceVerifiedLog else ProvenanceLogUnverified),
    ct_Verification = \<lparr>ver_CheckpointSignature = verificationCheck (cx_lib X) CTCheckPassed
        (zero_checkpoint\<lparr>cp_LogID := cf_LogID (cx_config X), cp_KeyIdentity := cf_KeyIdentity (cx_config X)\<rparr>) sth [],
      ver_Continuity = continuity, ver_EntryInclusion = inclusion\<rparr>,
    ct_CheckpointID = treeIdentity (cx_lib X) (cf_LogID (cx_config X)) (sth_TreeSize sth) (sth_RootHash sth)\<rparr>)"
  have rs: "rs = name_records (target_library (cx_lib X)) (cf_Roots (cx_config X)) mk []
      (ce_DNSNames cert @ (if ce_CommonName cert \<noteq> [] then [ce_CommonName cert] else []))"
    using assms(1) e by (simp add: recordsFromEntry_def and_then_def Let_def mk_def trusted_def)
  from name_records_member [OF assms(2) [unfolded rs]] obtain raw n where
    x: "x = mk n (has_prefix (trim_space (to_lower raw)) ''*.'')" "withinRoots n (cf_Roots (cx_config X))"
      "ct_normalizeName (target_library (cx_lib X)) (trim_prefix (trim_space (to_lower raw)) ''*.'') = Inr n"
    and raw: "raw \<in> set (ce_DNSNames cert) \<or> raw = ce_CommonName cert \<and> raw \<noteq> []" by (auto split: if_splits)
  have "names_certificate X cert x" unfolding names_certificate_def using x raw by (auto simp: mk_def)
  with e x(1) have "describes_leaf X sth i leaf x" unfolding describes_leaf_def by (auto simp: mk_def)
  with assms(3,4) x(1) show ?thesis unfolding record_ok_def by (auto simp: mk_def split: if_splits)
qed

lemma recordsFromEntry_verified:
  assumes "recordsFromEntry X i sth leaf continuity inclusion = Inr rs" "x \<in> set rs"
    and "cc_Status inclusion = CTCheckPassed" "trusted continuity"
  shows "ct_Provenance x = ProvenanceVerifiedLog"
proof -
  from assms(1,3,4) obtain mk names where
    rs: "rs = name_records (target_library (cx_lib X)) (cf_Roots (cx_config X)) mk [] names"
    and mk: "\<And>n w. ct_Provenance (mk n w) = ProvenanceVerifiedLog"
    by (auto simp: recordsFromEntry_def and_then_Inr_iff trusted_def Let_def split: option.splits if_splits)
  from name_records_member [OF assms(2) [unfolded rs]] mk show ?thesis by auto
qed

lemma collect_entries_run:
  assumes "collect_entries X sth cont i es rs ai r = (res, r')"
  shows "run_le X r r' \<and> fetched r \<le> fetched r' \<and> fetched r' \<le> fetched r + int (length es)
    \<and> (\<forall>out. res = Inr out \<longrightarrow> fetched r' = fetched r + int (length es)
        \<and> (bytes r \<le> MaximumBytes (budget X) \<longrightarrow> bytes r' \<le> MaximumBytes (budget X)))"
  using assms
proof (induction es arbitrary: i rs ai r)
  case (Cons e es)
  obtain v r1 where v: "verifyInclusion X i sth e r = (v, r1)" by (cases "verifyInclusion X i sth e r")
  note k = verifyInclusion_run [OF v]
  show ?case
  proof (cases v)
    case (Inl err)
    with v Cons.prems k show ?thesis by auto
  next
    case (Inr inc)
    show ?thesis
    proof (cases "recordsFromEntry X i sth e cont inc")
      case (Inl err)
      with v Inr Cons.prems k show ?thesis by auto
    next
      case rec: (Inr new)
      let ?r2 = "r1\<lparr>run_metrics := (run_metrics r1)\<lparr>mt_EntriesFetched := fetched r1 + 1\<rparr>\<rparr>"
      have r2: "run_le X r1 ?r2" by (simp add: run_le_def)
      from Cons.prems v Inr rec have
        "collect_entries X sth cont (uadd i 1) es (rs @ new) (if cc_Status inc \<noteq> CTCheckPassed then False else ai) ?r2 = (res, r')"
        by (simp add: Let_def)
      from Cons.IH [OF this] k r2 Inr show ?thesis by (auto intro: run_le_trans)
    qed
  qed
qed simp

lemma collect_entries_ok:
  assumes "collect_entries X sth cont i es rs ai r = (Inr (rs', ai'), r')"
    and "\<forall>x \<in> set rs. record_ok X sth cont x" "\<forall>j < length es. fetched_leaf X (index_at i j) (es ! j)"
  shows "(\<forall>x \<in> set rs'. record_ok X sth cont x)
    \<and> (trusted cont \<and> ai' \<longrightarrow> ai
        \<and> ((\<forall>x \<in> set rs. ct_Provenance x = ProvenanceVerifiedLog) \<longrightarrow> (\<forall>x \<in> set rs'. ct_Provenance x = ProvenanceVerifiedLog)))"
  using assms
proof (induction es arbitrary: i rs ai r)
  case (Cons e es)
  obtain v r1 where v: "verifyInclusion X i sth e r = (v, r1)" by (cases "verifyInclusion X i sth e r")
  with Cons.prems obtain inc new where inc: "v = Inr inc" "recordsFromEntry X i sth e cont inc = Inr new"
    and rest: "collect_entries X sth cont (uadd i 1) es (rs @ new) (if cc_Status inc \<noteq> CTCheckPassed then False else ai)
      (r1\<lparr>run_metrics := (run_metrics r1)\<lparr>mt_EntriesFetched := fetched r1 + 1\<rparr>\<rparr>) = (Inr (rs', ai'), r')"
    by (auto simp: Let_def split: sum.splits)
  have new: "\<forall>x \<in> set new. record_ok X sth cont x"
    using recordsFromEntry_ok [OF inc(2)] verifyInclusion_passed v inc(1) Cons.prems(3) [rule_format, of 0]
    by (simp add: index_at_def)
  with Cons.prems(2) have "\<forall>x \<in> set (rs @ new). record_ok X sth cont x" by auto
  moreover have "\<forall>j < length es. fetched_leaf X (index_at (uadd i 1) j) (es ! j)"
    using Cons.prems(3) unfolding index_at_step by fastforce
  ultimately have IH: "(\<forall>x \<in> set rs'. record_ok X sth cont x)
    \<and> (trusted cont \<and> ai' \<longrightarrow> (if cc_Status inc \<noteq> CTCheckPassed then False else ai)
        \<and> ((\<forall>x \<in> set (rs @ new). ct_Provenance x = ProvenanceVerifiedLog) \<longrightarrow> (\<forall>x \<in> set rs'. ct_Provenance x = ProvenanceVerifiedLog)))"
    by (rule Cons.IH [OF rest])
  have "\<forall>x \<in> set new. ct_Provenance x = ProvenanceVerifiedLog" if "trusted cont" "cc_Status inc = CTCheckPassed"
    using recordsFromEntry_verified [OF inc(2)] that by blast
  with IH show ?case by (auto split: if_splits)
qed simp

text \<open>One successful pass of the loop over batches.\<close>

lemma collect_batches_step:
  assumes "collect_batches X sth cont start end rs ai r = (Inr (rs', ai', end'), r')" "start < end"
  obtains batchEnd es r1 rs1 ai1 r2 where
    "batchEnd = min end (uadd start (nat (BatchSize (budget X))))"
    "getEntries X start (usub batchEnd 1) r = (Inr es, r1)" "es \<noteq> []" "int (length es) \<le> to_i64 (usub batchEnd start)"
    "collect_entries X sth cont start es rs ai r1 = (Inr (rs1, ai1), r2)"
    "collect_batches X sth cont (uadd start (length es))
       (if uadd start (length es) < batchEnd then uadd start (length es) else end) rs1 ai1 r2
     = (Inr (rs', ai', end'), r')"
  using assms unfolding collect_batches.simps [of X sth cont start "end" rs ai r] Let_def
  by (auto split: prod.splits sum.splits if_splits simp: min_def)

lemma collect_batches_run:
  "collect_batches X sth cont start end rs ai r = (res, r') \<Longrightarrow>
   run_le X r r' \<and> fetched r \<le> fetched r'
   \<and> (\<forall>out. res = Inr out \<longrightarrow> start < end \<or> bytes r \<le> MaximumBytes (budget X) \<longrightarrow> bytes r' \<le> MaximumBytes (budget X))"
proof (induction X sth cont start "end" rs ai r rule: collect_batches.induct)
  case (1 X sth cont start "end" rs ai r)
  show ?case
  proof (cases "start < end")
    case False
    with "1.prems" show ?thesis by (simp add: collect_batches.simps [of X sth cont start "end" rs ai r])
  next
    case True
    define b where "b = (if uadd start (nat (BatchSize (budget X))) > end then end else uadd start (nat (BatchSize (budget X))))"
    obtain g r1 where g: "getEntries X start (usub b 1) r = (g, r1)" by (cases "getEntries X start (usub b 1) r")
    note kg = getEntries_run [OF g]
    note step = "1.prems" [unfolded collect_batches.simps [of X sth cont start "end" rs ai r] Let_def b_def [symmetric]]
    show ?thesis
    proof (cases "\<exists>es. g = Inr es \<and> es \<noteq> [] \<and> int (length es) \<le> to_i64 (usub b start)")
      case False
      with step True g kg show ?thesis by (auto split: sum.splits if_splits)
    next
      case ok: True
      then obtain es where es: "g = Inr es" "es \<noteq> []" "int (length es) \<le> to_i64 (usub b start)" by blast
      obtain c r2 where c: "collect_entries X sth cont start es rs ai r1 = (c, r2)"
        by (cases "collect_entries X sth cont start es rs ai r1")
      note kc = collect_entries_run [OF c]
      show ?thesis
      proof (cases c)
        case (Inl e)
        with step True g es c kg kc show ?thesis by (auto intro: run_le_trans)
      next
        case (Inr out)
        obtain rs1 ai1 where out: "out = (rs1, ai1)" by (cases out)
        let ?s = "uadd start (length es)"
        from step True g es c Inr out have rest:
          "collect_batches X sth cont ?s (if ?s < b then ?s else end) rs1 ai1 r2 = (res, r')" by simp
        have IH: "run_le X r2 r' \<and> fetched r2 \<le> fetched r'
          \<and> (\<forall>out. res = Inr out \<longrightarrow> ?s < (if ?s < b then ?s else end) \<or> bytes r2 \<le> MaximumBytes (budget X)
               \<longrightarrow> bytes r' \<le> MaximumBytes (budget X))"
          by (rule "1.IH" [OF True refl b_def]) (use g es c Inr out rest in auto)
        have "run_le X r r'" using IH kg kc by (blast intro: run_le_trans)
        moreover have "bytes r2 \<le> MaximumBytes (budget X)" using kg kc es Inr by auto
        ultimately show ?thesis using IH kg kc by auto
      qed
    qed
  qed
qed

lemma collect_batches_ok:
  "collect_batches X sth cont start end rs ai r = (Inr (rs', ai', end'), r') \<Longrightarrow>
   \<forall>x \<in> set rs. record_ok X sth cont x \<Longrightarrow>
   (\<forall>x \<in> set rs'. record_ok X sth cont x)
    \<and> (trusted cont \<and> ai' \<longrightarrow> ai
        \<and> ((\<forall>x \<in> set rs. ct_Provenance x = ProvenanceVerifiedLog) \<longrightarrow> (\<forall>x \<in> set rs'. ct_Provenance x = ProvenanceVerifiedLog)))"
proof (induction "nat (MaximumRequests (budget X) - requests r)" arbitrary: start "end" rs ai r rule: less_induct)
  case less
  show ?case
  proof (cases "start < end")
    case False
    with less.prems show ?thesis by (simp add: collect_batches.simps [of X sth cont start "end" rs ai r])
  next
    case True
    obtain batchEnd es r1 rs1 ai1 r2 where
      "batchEnd = min end (uadd start (nat (BatchSize (budget X))))"
      and st: "getEntries X start (usub batchEnd 1) r = (Inr es, r1)" "es \<noteq> []"
        "int (length es) \<le> to_i64 (usub batchEnd start)"
        "collect_entries X sth cont start es rs ai r1 = (Inr (rs1, ai1), r2)"
        "collect_batches X sth cont (uadd start (length es))
          (if uadd start (length es) < batchEnd then uadd start (length es) else end) rs1 ai1 r2 = (Inr (rs', ai', end'), r')"
      by (rule collect_batches_step [OF less.prems(1) True])
    have "nat (MaximumRequests (budget X) - requests r2) < nat (MaximumRequests (budget X) - requests r)"
      using getEntries_requests [OF st(1)] collect_entries_requests [OF st(4)] by linarith
    from less.hyps [OF this st(5)] collect_entries_ok [OF st(4) less.prems(2)] getEntries_fetched [OF st(1)] show ?thesis by blast
  qed
qed

lemma uadd_small: "a + b < 2 ^ 64 \<Longrightarrow> uadd a b = a + b"
  by (simp add: uadd_def)

lemma usub_small: "b \<le> a \<Longrightarrow> a < 2 ^ 64 \<Longrightarrow> usub a b = a - b"
proof -
  assume a: "b \<le> a" "a < 2 ^ 64"
  then have eq: "a + 2 ^ 64 - b = (a - b) + 2 ^ 64" by simp
  have "a - b < 2 ^ 64" using a by linarith
  then show ?thesis unfolding usub_def eq mod_add_self2 by (rule mod_less)
qed

lemma collect_batches_progress:
  "collect_batches X sth cont start end rs ai r = (Inr (rs', ai', end'), r') \<Longrightarrow>
   start \<le> end \<Longrightarrow> end + nat (BatchSize (budget X)) < 2 ^ 63 \<Longrightarrow> 0 < BatchSize (budget X) \<Longrightarrow>
   start \<le> end' \<and> end' \<le> end \<and> fetched r' = fetched r + (int end' - int start)"
proof (induction "nat (MaximumRequests (budget X) - requests r)" arbitrary: start "end" rs ai r rule: less_induct)
  case less
  show ?case
  proof (cases "start < end")
    case False
    with less.prems show ?thesis by (simp add: collect_batches.simps [of X sth cont start "end" rs ai r])
  next
    case True
    obtain batchEnd es r1 rs1 ai1 r2 where
      b: "batchEnd = min end (uadd start (nat (BatchSize (budget X))))"
      and st: "getEntries X start (usub batchEnd 1) r = (Inr es, r1)" "es \<noteq> []"
        "int (length es) \<le> to_i64 (usub batchEnd start)"
        "collect_entries X sth cont start es rs ai r1 = (Inr (rs1, ai1), r2)"
        "collect_batches X sth cont (uadd start (length es))
          (if uadd start (length es) < batchEnd then uadd start (length es) else end) rs1 ai1 r2 = (Inr (rs', ai', end'), r')"
      by (rule collect_batches_step [OF less.prems(1) True])
    have "uadd start (nat (BatchSize (budget X))) = start + nat (BatchSize (budget X))"
      using True less.prems(3) by (intro uadd_small) simp
    then have bb: "start < batchEnd" "batchEnd \<le> end" using True less.prems(4) b by auto
    have "usub batchEnd start = batchEnd - start" using bb less.prems(3) by (intro usub_small) auto
    moreover have "batchEnd - start < 2 ^ 63" using bb less.prems(3) by linarith
    ultimately have len: "length es \<le> batchEnd - start" using st(3) by (simp add: to_i64_def)
    then have u: "uadd start (length es) = start + length es"
      using bb less.prems(3) by (intro uadd_small) simp
    let ?e = "if uadd start (length es) < batchEnd then uadd start (length es) else end"
    have "nat (MaximumRequests (budget X) - requests r2) < nat (MaximumRequests (budget X) - requests r)"
      using getEntries_requests [OF st(1)] collect_entries_requests [OF st(4)] by linarith
    from less.hyps [OF this st(5) _ _ less.prems(4)]
    have "uadd start (length es) \<le> end' \<and> end' \<le> ?e \<and> fetched r' = fetched r2 + (int end' - int (uadd start (length es)))"
      using u len bb less.prems(3) by auto
    moreover have "fetched r2 = fetched r + int (length es)"
      using getEntries_run [OF st(1)] collect_entries_run [OF st(4)] by auto
    ultimately show ?thesis using u bb len by (auto split: if_splits)
  qed
qed

section \<open>Theorems about Collect\<close>

text \<open>The checkpoint a run starts from.\<close>

definition loaded_checkpoint :: "ct_context \<Rightarrow> ct_store \<Rightarrow> checkpoint" where
  "loaded_checkpoint X s =
     (let c = (case st_checkpoints s (cf_LogID (cx_config X)) of None \<Rightarrow> zero_checkpoint | Some c \<Rightarrow> c) in
      if cp_LogID c = [] then initial_checkpoint (cx_config X) else c)"

definition start_run :: "ct_context \<Rightarrow> ct_store \<Rightarrow> collection_run" where
  "start_run X s = \<lparr>run_checkpoint = loaded_checkpoint X s, run_metrics = zero_metrics, run_proofs = 0\<rparr>"

lemma Collect_ct_cases:
  obtains e where "Collect_ct X cl cc clock s = ((zero_metrics, Some e), s)"
  | "Collect_ct X cl cc clock s = Collect_run X cc clock (start_run X s) s"
proof (cases cl)
  case (Some e)
  then show thesis using that(1) by (simp add: Collect_ct_def LoadCheckpoint_def)
next
  case None
  have "LoadCheckpoint cl (cf_LogID (cx_config X)) s
      = Inr (case st_checkpoints s (cf_LogID (cx_config X)) of None \<Rightarrow> zero_checkpoint | Some c \<Rightarrow> c)"
    by (simp add: LoadCheckpoint_def None split: option.split)
  then have eq: "Collect_ct X cl cc clock s =
      (if cp_KeyIdentity (loaded_checkpoint X s) \<noteq> [] \<and> cp_KeyIdentity (loaded_checkpoint X s) \<noteq> cf_KeyIdentity (cx_config X)
       then ((zero_metrics, Some (Errorf ''CT checkpoint key identity does not match configured pinned key'')), s)
       else Collect_run X cc clock (start_run X s) s)"
    by (simp only: Collect_ct_def start_run_def loaded_checkpoint_def Let_def sum.case)
  show thesis
  proof (cases "cp_KeyIdentity (loaded_checkpoint X s) \<noteq> [] \<and> cp_KeyIdentity (loaded_checkpoint X s) \<noteq> cf_KeyIdentity (cx_config X)")
    case True
    show thesis by (rule that(1) [OF trans [OF eq if_P [OF True]]])
  next
    case False
    show thesis by (rule that(2) [OF trans [OF eq if_not_P [OF False]]])
  qed
qed

text \<open>A run that succeeded, taken apart.\<close>

lemma Collect_run_success:
  assumes "Collect_run X cc clock r s = ((m, None), s')"
  obtains sth r1 r2 cont r3 records ai end' where
    "getSTH X r = (Inr sth, r1)" "cp_NextIndex (run_checkpoint r) \<le> sth_TreeSize sth"
    "r2 = r1\<lparr>run_metrics := (run_metrics r1)\<lparr>mt_BacklogBefore := usub (sth_TreeSize sth) (cp_NextIndex (run_checkpoint r))\<rparr>\<rparr>"
    "verifyContinuity X sth r2 = (cont, r3)"
    "\<exists>r4. collect_batches X sth cont (cp_NextIndex (run_checkpoint r))
       (min (sth_TreeSize sth) (uadd (cp_NextIndex (run_checkpoint r)) (nat (MaximumEntries (budget X))))) [] True r3
       = (Inr (records, ai, end'), r4)
      \<and> mt_Requests m = requests r4 \<and> mt_EntriesFetched m = fetched r4 \<and> mt_DownloadedBytes m = bytes r4
      \<and> mt_RecordsRetained m = int (length records)"
    "CommitCollection cc records (next_checkpoint X sth cont ai end' (run_checkpoint r)) s = (None, s')"
  using assms unfolding Collect_run_def Let_def
  by (auto split: prod.splits sum.splits option.splits if_splits simp: min_def)

lemma Collect_run_failed:
  assumes "Collect_run X cc clock r s = ((m, Some e), s')"
  shows "s' = s"
  using assms commit_refused unfolding Collect_run_def Let_def
  by (auto split: prod.splits sum.splits option.splits if_splits)

lemma Collect_run_bounds:
  assumes "Collect_run X cc clock r s = ((m, err), s')"
  shows "requests r \<le> mt_Requests m \<and> mt_Requests m \<le> max (requests r) (MaximumRequests (budget X))
    \<and> fetched r \<le> mt_EntriesFetched m
    \<and> (err = None \<and> fetched r < mt_EntriesFetched m \<longrightarrow> mt_DownloadedBytes m \<le> MaximumBytes (budget X))"
proof -
  let ?c = "run_checkpoint r"
  obtain g r1 where g: "getSTH X r = (g, r1)" by (cases "getSTH X r")
  note kg = getSTH_run [OF g]
  note run = assms [unfolded Collect_run_def Let_def g prod.case]
  show ?thesis
  proof (cases g)
    case (Inl e)
    with run kg show ?thesis by (auto simp: run_le_def)
  next
    case (Inr sth)
    let ?r2 = "r1\<lparr>run_metrics := (run_metrics r1)\<lparr>mt_BacklogBefore := usub (sth_TreeSize sth) (cp_NextIndex ?c)\<rparr>\<rparr>"
    obtain cont r3 where v: "verifyContinuity X sth ?r2 = (cont, r3)" by (cases "verifyContinuity X sth ?r2")
    note kv = verifyContinuity_run [OF v]
    define e where "e = (if uadd (cp_NextIndex ?c) (nat (MaximumEntries (budget X))) > sth_TreeSize sth
        then sth_TreeSize sth else uadd (cp_NextIndex ?c) (nat (MaximumEntries (budget X))))"
    obtain c r4 where cb: "collect_batches X sth cont (cp_NextIndex ?c) e [] True r3 = (c, r4)"
      by (cases "collect_batches X sth cont (cp_NextIndex ?c) e [] True r3")
    note kb = collect_batches_run [OF cb]
    note run = run [unfolded Inr sum.case v prod.case e_def [symmetric] cb]
    have le: "run_le X r r4" "fetched r3 = fetched r" "fetched r \<le> fetched r4"
      using kg kv kb by (auto simp: run_le_def)
    have "c = Inr out \<Longrightarrow> fetched r < fetched r4 \<Longrightarrow> bytes r4 \<le> MaximumBytes (budget X)" for out
    proof -
      assume c: "c = Inr out" and "fetched r < fetched r4"
      then have "cp_NextIndex ?c < e"
        using cb le(2) by (cases "cp_NextIndex ?c < e") (auto simp: collect_batches.simps [of X sth cont "cp_NextIndex ?c" e])
      with kb c show "bytes r4 \<le> MaximumBytes (budget X)" by blast
    qed
    with run le kg show ?thesis
      by (auto simp: run_le_def split: if_splits sum.splits prod.splits option.splits)
  qed
qed

lemma getSTH_Inr: "getSTH X r = (Inr sth, r') \<Longrightarrow> GetSTH (cx_client X) = Inr (Some sth)"
  by (cases rule: beforeRequest_cases [of X r]; auto simp: getSTH_def addBytes_def Let_def
      split: sum.splits option.splits if_splits)

lemma next_checkpoint_verified:
  assumes "cp_VerifiedTreeSize (next_checkpoint X sth cont ai end c) \<noteq> cp_VerifiedTreeSize c"
  shows "trusted cont \<and> ai \<and> cp_VerifiedTreeSize (next_checkpoint X sth cont ai end c) = sth_TreeSize sth
    \<and> cp_VerifiedRootHash (next_checkpoint X sth cont ai end c) = sth_RootHash sth"
  using assms by (auto simp: next_checkpoint_def trusted_def Let_def split: if_splits)

lemma next_checkpoint_monotone:
  assumes "trusted cont \<Longrightarrow> accepted_continuity X sth c"
  shows "cp_VerifiedTreeSize c \<le> cp_VerifiedTreeSize (next_checkpoint X sth cont ai end c)"
  using assms by (auto simp: next_checkpoint_def trusted_def accepted_continuity_def Let_def)

text \<open>C8: A verified provenance is earned. When a collection commits, every record it stores describes a leaf that
  the log returned for its index: that very leaf parses to an entry whose certificate has the recorded hash and
  dates and names the recorded host, as a wildcard or not, in normal form and within the configured roots. A
  record marked as verified was included, by an accepted inclusion proof over the bytes of that leaf,
  in the tree head the log signed, and that tree head extends the checkpoint the run started from.
  The verified tree of the checkpoint changes only to that tree head, only if it extends the old
  one, and only if every record of the run is verified.\<close>

theorem collect_verified_sound:
  assumes "Collect_ct X cl cc clock s = ((m, None), s')"
  shows "\<exists>sth records c. GetSTH (cx_client X) = Inr (Some sth) \<and> CommitCollection cc records c s = (None, s')
    \<and> (\<forall>x \<in> set records. \<exists>i leaf. fetched_leaf X i leaf \<and> describes_leaf X sth i leaf x
          \<and> (ct_Provenance x = ProvenanceVerifiedLog \<longrightarrow>
              accepted_inclusion X sth i leaf \<and> accepted_continuity X sth (loaded_checkpoint X s)))
    \<and> (cp_VerifiedTreeSize c \<noteq> cp_VerifiedTreeSize (loaded_checkpoint X s) \<longrightarrow>
         cp_VerifiedTreeSize c = sth_TreeSize sth \<and> cp_VerifiedRootHash c = sth_RootHash sth
         \<and> accepted_continuity X sth (loaded_checkpoint X s)
         \<and> (\<forall>x \<in> set records. ct_Provenance x = ProvenanceVerifiedLog))"
proof -
  let ?r = "start_run X s"
  have run: "Collect_run X cc clock ?r s = ((m, None), s')"
    using assms by (cases rule: Collect_ct_cases [of X cl cc clock s]) simp_all
  obtain sth r1 r2 cont r3 records ai end' where
    st: "getSTH X ?r = (Inr sth, r1)" "cp_NextIndex (run_checkpoint ?r) \<le> sth_TreeSize sth"
      "r2 = r1\<lparr>run_metrics := (run_metrics r1)\<lparr>mt_BacklogBefore := usub (sth_TreeSize sth) (cp_NextIndex (run_checkpoint ?r))\<rparr>\<rparr>"
      "verifyContinuity X sth r2 = (cont, r3)"
      "\<exists>r4. collect_batches X sth cont (cp_NextIndex (run_checkpoint ?r))
         (min (sth_TreeSize sth) (uadd (cp_NextIndex (run_checkpoint ?r)) (nat (MaximumEntries (budget X))))) [] True r3
         = (Inr (records, ai, end'), r4)
        \<and> mt_Requests m = requests r4 \<and> mt_EntriesFetched m = fetched r4 \<and> mt_DownloadedBytes m = bytes r4
        \<and> mt_RecordsRetained m = int (length records)"
      "CommitCollection cc records (next_checkpoint X sth cont ai end' (run_checkpoint ?r)) s = (None, s')"
    by (rule Collect_run_success [OF run])
  have c: "run_checkpoint ?r = loaded_checkpoint X s" by (simp add: start_run_def)
  have "run_checkpoint r2 = run_checkpoint ?r" using getSTH_run [OF st(1)] st(3) by (simp add: run_le_def)
  then have cont: "trusted cont \<Longrightarrow> accepted_continuity X sth (loaded_checkpoint X s)"
    using verifyContinuity_trusted [OF st(4)] c by simp
  from st(5) have ok: "\<forall>x \<in> set records. record_ok X sth cont x"
    "trusted cont \<and> ai \<longrightarrow> (\<forall>x \<in> set records. ct_Provenance x = ProvenanceVerifiedLog)"
    using collect_batches_ok by fastforce+
  let ?c = "next_checkpoint X sth cont ai end' (loaded_checkpoint X s)"
  show ?thesis
  proof (intro exI [of _ sth] exI [of _ records] exI [of _ ?c] conjI)
    show "GetSTH (cx_client X) = Inr (Some sth)" by (rule getSTH_Inr [OF st(1)])
    show "CommitCollection cc records ?c s = (None, s')" using st(6) c by simp
    show "\<forall>x \<in> set records. \<exists>i leaf. fetched_leaf X i leaf \<and> describes_leaf X sth i leaf x
          \<and> (ct_Provenance x = ProvenanceVerifiedLog \<longrightarrow>
              accepted_inclusion X sth i leaf \<and> accepted_continuity X sth (loaded_checkpoint X s))"
      using ok(1) cont unfolding record_ok_def by meson
    show "cp_VerifiedTreeSize ?c \<noteq> cp_VerifiedTreeSize (loaded_checkpoint X s) \<longrightarrow>
         cp_VerifiedTreeSize ?c = sth_TreeSize sth \<and> cp_VerifiedRootHash ?c = sth_RootHash sth
         \<and> accepted_continuity X sth (loaded_checkpoint X s)
         \<and> (\<forall>x \<in> set records. ct_Provenance x = ProvenanceVerifiedLog)"
      using next_checkpoint_verified [of X sth cont ai end' "loaded_checkpoint X s"] cont ok(2) by blast
  qed
qed

text \<open>The example: a log with one entry whose certificate names a host below the root.\<close>

definition example_leaf :: leaf_entry where
  "example_leaf = \<lparr>lf_LeafInput = ''leaf'', lf_ExtraData = []\<rparr>"

definition example_entry :: log_entry where
  "example_entry = \<lparr>le_X509Cert = Some \<lparr>ce_Raw = ''der'', ce_DNSNames = [''a.example.com''], ce_CommonName = [],
     ce_NotBefore = 1, ce_NotAfter = 2\<rparr>, le_Precert = None, le_Timestamp = 7\<rparr>"

definition example_context :: ct_context where
  "example_context = \<lparr>
     cx_lib = \<lparr>LogEntryFromLeaf = (\<lambda>_ _. Inr example_entry), HashLeaf = (\<lambda>s. s),
       VerifyInclusion = (\<lambda>_ _ _ _ _. None), VerifyConsistency = (\<lambda>_ _ _ _ _. None),
       TimestampToTime = int, sha256_hex = (\<lambda>s. s), target_library = plain_env\<rparr>,
     cx_client = \<lparr>GetSTH = Inr (Some \<lparr>sth_TreeSize = 1, sth_Timestamp = 9, sth_RootHash = ''root'', sth_Signature = ''sig''\<rparr>),
       GetRawEntries = (\<lambda>_ _. Inr (Some [example_leaf])), GetSTHConsistency = (\<lambda>_ _. Inr []),
       GetEntryAndProof = (\<lambda>_ _. Inr (Some \<lparr>ep_LeafInput = ''leaf'', ep_ExtraData = [], ep_AuditPath = []\<rparr>))\<rparr>,
     cx_config = \<lparr>cf_Protocol = ''rfc6962'', cf_LogID = ''log'', cf_SourceID = ''ct'', cf_KeyIdentity = ''key'',
       cf_Roots = [''example.com''], cf_StartIndex = 0, cf_InitialCheckpoint = None,
       cf_TrustInitialCheckpoint = False, cf_Budget = DefaultBudget\<rparr>,
     cx_ctx = (\<lambda>_. None)\<rparr>"

lemma example_context_simps:
  "cx_ctx example_context = (\<lambda>_. None)"
  "GetSTH (cx_client example_context) = Inr (Some \<lparr>sth_TreeSize = 1, sth_Timestamp = 9, sth_RootHash = ''root'', sth_Signature = ''sig''\<rparr>)"
  "GetRawEntries (cx_client example_context) a b = Inr (Some [example_leaf])"
  "GetEntryAndProof (cx_client example_context) i n = Inr (Some \<lparr>ep_LeafInput = ''leaf'', ep_ExtraData = [], ep_AuditPath = []\<rparr>)"
  "VerifyInclusion (cx_lib example_context) i n h p root = None"
  "cf_LogID (cx_config example_context) = ''log''" "cf_KeyIdentity (cx_config example_context) = ''key''"
  "cf_StartIndex (cx_config example_context) = 0" "cf_InitialCheckpoint (cx_config example_context) = None"
  by (simp_all add: example_context_def)

lemma example_normalize: "ct_normalizeName plain_env ''a.example.com'' = Inr ''a.example.com''"
  by (simp add: ct_normalizeName_def Normalize_def zero_analyze_request_def target_eval)

lemma example_records:
  "\<exists>x. recordsFromEntry example_context 0 sth example_leaf cont inc = Inr [x]"
  by (simp add: recordsFromEntry_def example_context_def example_entry_def entry_certificate_def Let_def
      example_normalize to_lower_def lower_char_def trim_space_def is_space_def trim_prefix_def has_prefix_def
      withinRoots_def has_suffix_def)

lemma example_collect:
  "\<exists>m s'. Collect_ct example_context None None (0, 0, 0) NewCtStore = ((m, None), s') \<and> mt_EntriesFetched m = 1
     \<and> length (st_records s') = 1"
proof -
  let ?X = example_context
  obtain rec where rec: "recordsFromEntry ?X 0 sth example_leaf cont inc = Inr [rec sth cont inc]" for sth cont inc
    using example_records by metis
  have b: "budget ?X = DefaultBudget" by (simp add: example_context_def)
  have n: "uadd 0 (nat (BatchSize DefaultBudget)) = 64" "(0::nat) < 1 \<longleftrightarrow> True" "(1::nat) < 64 \<longleftrightarrow> True"
    "usub 1 0 = 1" "usub 1 1 = 0" "to_i64 1 = 1"
    by (simp_all add: uadd_def usub_def to_i64_def DefaultBudget_def)
  have "collect_batches ?X sth cont 1 1 rs ai r = (Inr (rs, ai, 1), r)" for sth cont rs ai r
    by (simp add: collect_batches.simps)
  moreover have c0: "collect_batches ?X sth cont 0 1 rs ai r =
      (case getEntries ?X 0 0 r of
           (Inl e, r) \<Rightarrow> (Inl e, r)
         | (Inr entries, r) \<Rightarrow>
             if entries = [] \<or> int (length entries) > 1
             then (Inl (Errorf (''CT log returned '' @ nat_string (length entries) @ '' entries for range '' @
                     nat_string 0 @ ''-'' @ nat_string 0)), r)
             else (case collect_entries ?X sth cont 0 entries rs ai r of
                 (Inl e, r) \<Rightarrow> (Inl e, r)
               | (Inr (records, allIncluded), r) \<Rightarrow>
                   collect_batches ?X sth cont (uadd 0 (length entries)) (if uadd 0 (length entries) < 1 then uadd 0 (length entries) else 1)
                     records allIncluded r))" for sth cont rs ai r
    unfolding collect_batches.simps [of ?X sth cont 0 1] Let_def b n if_True by (rule refl)
  ultimately show ?thesis
    by (simp add: Collect_ct_def LoadCheckpoint_def NewCtStore_def zero_checkpoint_def initial_checkpoint_def
        Collect_run_def Let_def getSTH_def beforeRequest_def addBytes_def b DefaultBudget_def zero_metrics_def
        verifyContinuity_def uadd_def usub_def getEntries_def entries_size_def hashes_size_def verifyInclusion_def rec
        CommitCollection_def importLocked_def next_checkpoint_def example_context_simps example_leaf_def [symmetric])
      (simp add: example_leaf_def)
qed

lemma example_fetched: "fetched_leaf example_context i leaf \<Longrightarrow> leaf = example_leaf"
  by (auto simp: fetched_leaf_def example_context_simps)

lemma describes_within: "describes_leaf X sth i leaf x \<Longrightarrow> withinRoots (ct_Name x) (cf_Roots (cx_config X))"
  by (auto simp: describes_leaf_def names_certificate_def)

theorem collect_verified_sound_witness:
  "\<exists>m s' sth records c. Collect_ct example_context None None (0, 0, 0) NewCtStore = ((m, None), s')
     \<and> GetSTH (cx_client example_context) = Inr (Some sth)
     \<and> CommitCollection None records c NewCtStore = (None, s')
     \<and> (\<forall>x \<in> set records. (\<exists>i. describes_leaf example_context sth i example_leaf x)
          \<and> withinRoots (ct_Name x) (cf_Roots (cx_config example_context)))"
proof -
  from example_collect obtain m s' where
    run: "Collect_ct example_context None None (0, 0, 0) NewCtStore = ((m, None), s')" by blast
  from collect_verified_sound [OF run] show ?thesis
  proof (elim exE conjE, goal_cases)
    case (1 sth records c)
    have "(\<exists>i. describes_leaf example_context sth i example_leaf x) \<and> withinRoots (ct_Name x) (cf_Roots (cx_config example_context))"
      if x: "x \<in> set records" for x
    proof -
      obtain i leaf where leaf: "fetched_leaf example_context i leaf" "describes_leaf example_context sth i leaf x"
        using bspec [OF 1(3) x] by (elim exE conjE) (rule that)
      from leaf(2) [unfolded example_fetched [OF leaf(1)]] describes_within [OF leaf(2)] show ?thesis by (intro conjI exI)
    qed
    then show ?thesis
      by (intro exI [of _ m] exI [of _ s'] exI [of _ sth] exI [of _ records] exI [of _ c] conjI ballI run 1(1,2)) blast+
  qed
qed

text \<open>C26: A collection either fails and leaves the store as it was, or it commits a checkpoint of its
  log that has advanced by exactly the number of entries fetched, at most the entry budget and
  never beyond the signed tree, so no entry is skipped or counted twice; the verified tree never
  shrinks. This holds for every log whose tree sizes stay below \<open>2 ^ 63\<close> with the budget added.\<close>

theorem collect_progress:
  assumes "validateBudget (budget X) = None"
    and "\<forall>sth. GetSTH (cx_client X) = Inr (Some sth) \<longrightarrow>
           sth_TreeSize sth + nat (MaximumEntries (budget X)) + nat (BatchSize (budget X)) < 2 ^ 63"
  shows "case Collect_ct X cl cc clock s of
     ((m, Some e), s') \<Rightarrow> s' = s
   | ((m, None), s') \<Rightarrow> \<exists>sth c'. GetSTH (cx_client X) = Inr (Some sth)
       \<and> st_checkpoints s' (cf_LogID (cx_config X)) = Some c'
       \<and> int (cp_NextIndex c') = int (cp_NextIndex (loaded_checkpoint X s)) + mt_EntriesFetched m
       \<and> 0 \<le> mt_EntriesFetched m \<and> mt_EntriesFetched m \<le> MaximumEntries (budget X)
       \<and> cp_NextIndex c' \<le> sth_TreeSize sth
       \<and> cp_VerifiedTreeSize (loaded_checkpoint X s) \<le> cp_VerifiedTreeSize c'"
proof -
  let ?r = "start_run X s"
  obtain m err s' where res: "Collect_ct X cl cc clock s = ((m, err), s')"
    by (metis prod.collapse)
  show ?thesis
  proof (cases err)
    case (Some e)
    have "s' = s" using res Collect_run_failed [of X cc clock ?r s] Some
      by (cases rule: Collect_ct_cases [of X cl cc clock s]) auto
    with res Some show ?thesis by simp
  next
    case None
    have run: "Collect_run X cc clock ?r s = ((m, None), s')"
      using res None by (cases rule: Collect_ct_cases [of X cl cc clock s]) simp_all
    obtain sth r1 r2 cont r3 records ai end' where
      st: "getSTH X ?r = (Inr sth, r1)" "cp_NextIndex (run_checkpoint ?r) \<le> sth_TreeSize sth"
        "r2 = r1\<lparr>run_metrics := (run_metrics r1)\<lparr>mt_BacklogBefore := usub (sth_TreeSize sth) (cp_NextIndex (run_checkpoint ?r))\<rparr>\<rparr>"
        "verifyContinuity X sth r2 = (cont, r3)"
        "\<exists>r4. collect_batches X sth cont (cp_NextIndex (run_checkpoint ?r))
           (min (sth_TreeSize sth) (uadd (cp_NextIndex (run_checkpoint ?r)) (nat (MaximumEntries (budget X))))) [] True r3
           = (Inr (records, ai, end'), r4)
          \<and> mt_Requests m = requests r4 \<and> mt_EntriesFetched m = fetched r4 \<and> mt_DownloadedBytes m = bytes r4
          \<and> mt_RecordsRetained m = int (length records)"
        "CommitCollection cc records (next_checkpoint X sth cont ai end' (run_checkpoint ?r)) s = (None, s')"
      by (rule Collect_run_success [OF run])
    let ?c = "loaded_checkpoint X s"
    let ?n = "next_checkpoint X sth cont ai end' ?c"
    have c: "run_checkpoint ?r = ?c" by (simp add: start_run_def)
    note sth = getSTH_Inr [OF st(1)]
    have fits: "sth_TreeSize sth + nat (MaximumEntries (budget X)) + nat (BatchSize (budget X)) < 2 ^ 63"
      using assms(2) sth by blast
    have bs: "0 < BatchSize (budget X)" "0 < MaximumEntries (budget X)"
      using assms(1) by (auto simp: validateBudget_def split: if_splits)
    let ?e = "min (sth_TreeSize sth) (cp_NextIndex ?c + nat (MaximumEntries (budget X)))"
    have u: "uadd (cp_NextIndex ?c) (nat (MaximumEntries (budget X))) = cp_NextIndex ?c + nat (MaximumEntries (budget X))"
      using fits st(2) c by (intro uadd_small) simp
    from st(5) obtain r4 where cb: "collect_batches X sth cont (cp_NextIndex ?c) ?e [] True r3 = (Inr (records, ai, end'), r4)"
      and m: "mt_EntriesFetched m = fetched r4" by (auto simp: c u)
    have "cp_NextIndex ?c \<le> ?e" using st(2) c by simp
    moreover have "?e + nat (BatchSize (budget X)) < 2 ^ 63" using fits by linarith
    ultimately have p: "cp_NextIndex ?c \<le> end'" "end' \<le> ?e" "fetched r4 = fetched r3 + (int end' - int (cp_NextIndex ?c))"
      using collect_batches_progress [OF cb _ _ bs(1)] by auto
    have f3: "fetched r3 = 0"
      using getSTH_run [OF st(1)] verifyContinuity_run [OF st(4)] st(3) by (simp add: start_run_def zero_metrics_def)
    have "run_checkpoint r2 = ?c" using getSTH_run [OF st(1)] st(3) c by (simp add: run_le_def)
    then have cont: "trusted cont \<Longrightarrow> accepted_continuity X sth ?c"
      using verifyContinuity_trusted [OF st(4)] by simp
    have n: "cp_LogID ?n = cf_LogID (cx_config X)" "cp_NextIndex ?n = end'"
      by (simp_all add: next_checkpoint_def Let_def)
    have "st_checkpoints s' (cf_LogID (cx_config X)) = Some ?n"
      using st(6) c n by (auto simp: CommitCollection_def Let_def split: option.splits if_splits)
    moreover have "int end' = int (cp_NextIndex ?c) + mt_EntriesFetched m" using p m f3 by simp
    moreover have "end' \<le> sth_TreeSize sth" "int end' - int (cp_NextIndex ?c) \<le> MaximumEntries (budget X)"
      using p bs by auto
    ultimately have "\<exists>sth c'. GetSTH (cx_client X) = Inr (Some sth)
       \<and> st_checkpoints s' (cf_LogID (cx_config X)) = Some c'
       \<and> int (cp_NextIndex c') = int (cp_NextIndex ?c) + mt_EntriesFetched m
       \<and> 0 \<le> mt_EntriesFetched m \<and> mt_EntriesFetched m \<le> MaximumEntries (budget X)
       \<and> cp_NextIndex c' \<le> sth_TreeSize sth \<and> cp_VerifiedTreeSize ?c \<le> cp_VerifiedTreeSize c'"
      using sth n p(1) next_checkpoint_monotone [of cont X sth ?c ai end', OF cont]
      by (intro exI [of _ sth] exI [of _ ?n]) simp
    with res None show ?thesis by simp
  qed
qed

theorem collect_progress_witness:
  "\<exists>m s' c'. Collect_ct example_context None None (0, 0, 0) NewCtStore = ((m, None), s')
     \<and> st_checkpoints s' ''log'' = Some c' \<and> cp_NextIndex c' = 1"
proof -
  from example_collect obtain m s' where
    run: "Collect_ct example_context None None (0, 0, 0) NewCtStore = ((m, None), s')" "mt_EntriesFetched m = 1" by blast
  have b: "budget example_context = DefaultBudget" by (simp add: example_context_def)
  have "cp_NextIndex (loaded_checkpoint example_context NewCtStore) = 0"
    by (simp add: loaded_checkpoint_def NewCtStore_def zero_checkpoint_def initial_checkpoint_def example_context_simps)
  moreover have "case Collect_ct example_context None None (0, 0, 0) NewCtStore of
     ((m, Some e), s') \<Rightarrow> s' = NewCtStore
   | ((m, None), s') \<Rightarrow> \<exists>sth c'. GetSTH (cx_client example_context) = Inr (Some sth)
       \<and> st_checkpoints s' (cf_LogID (cx_config example_context)) = Some c'
       \<and> int (cp_NextIndex c') = int (cp_NextIndex (loaded_checkpoint example_context NewCtStore)) + mt_EntriesFetched m
       \<and> 0 \<le> mt_EntriesFetched m \<and> mt_EntriesFetched m \<le> MaximumEntries (budget example_context)
       \<and> cp_NextIndex c' \<le> sth_TreeSize sth
       \<and> cp_VerifiedTreeSize (loaded_checkpoint example_context NewCtStore) \<le> cp_VerifiedTreeSize c'"
    by (rule collect_progress) (simp_all add: b DefaultBudget_def validateBudget_def example_context_simps)
  ultimately show ?thesis using run by (auto simp: example_context_simps)
qed

text \<open>Every run, failed or not and whatever the log answers, ends and has made at most the
  budgeted number of requests; a run that commits entries stayed within the byte budget.\<close>

lemma collect_within_budget:
  assumes "validateBudget (budget X) = None"
  shows "case Collect_ct X cl cc clock s of ((m, err), s') \<Rightarrow>
     0 \<le> mt_Requests m \<and> mt_Requests m \<le> MaximumRequests (budget X) \<and> 0 \<le> mt_EntriesFetched m
     \<and> (err = None \<and> 0 < mt_EntriesFetched m \<longrightarrow> mt_DownloadedBytes m \<le> MaximumBytes (budget X))"
proof -
  let ?r = "start_run X s"
  have b: "0 < MaximumRequests (budget X)" using assms by (auto simp: validateBudget_def split: if_splits)
  have z: "requests ?r = 0" "fetched ?r = 0" by (simp_all add: start_run_def zero_metrics_def)
  obtain m err s' where res: "Collect_ct X cl cc clock s = ((m, err), s')" by (metis prod.collapse)
  have "0 \<le> mt_Requests m \<and> mt_Requests m \<le> MaximumRequests (budget X) \<and> 0 \<le> mt_EntriesFetched m
     \<and> (err = None \<and> 0 < mt_EntriesFetched m \<longrightarrow> mt_DownloadedBytes m \<le> MaximumBytes (budget X))"
  proof (cases rule: Collect_ct_cases [of X cl cc clock s])
    case (1 e)
    with res b show ?thesis by (auto simp: zero_metrics_def)
  next
    case 2
    with res have run: "Collect_run X cc clock ?r s = ((m, err), s')" by simp
    from Collect_run_bounds [OF run] b z show ?thesis by auto
  qed
  with res show ?thesis by simp
qed

lemma collect_within_budget_example:
  "case Collect_ct example_context None None (0, 0, 0) NewCtStore of ((m, err), s') \<Rightarrow>
     mt_Requests m \<le> 24 \<and> (err = None \<and> 0 < mt_EntriesFetched m \<longrightarrow> mt_DownloadedBytes m \<le> 8388608)"
proof -
  have b: "budget example_context = DefaultBudget" by (simp add: example_context_def)
  have "validateBudget (budget example_context) = None" by (simp add: b validateBudget_def DefaultBudget_def)
  from collect_within_budget [OF this, of None None "(0, 0, 0)" NewCtStore] show ?thesis
    by (simp add: b DefaultBudget_def split: prod.splits)
qed

text \<open>A certificate that names both a wildcard and its base name yields only the record that its
  first mention gives: with the wildcard first, the concrete base name is stored as a wildcard
  record, which discovery never offers.\<close>

lemma wildcard_hides_concrete:
  "name_records plain_env [''example.com''] mk [] [''*.example.com'', ''example.com''] = [mk ''example.com'' True]
   \<and> name_records plain_env [''example.com''] mk [] [''example.com'', ''*.example.com''] = [mk ''example.com'' False]"
  by (simp add: Let_def to_lower_def lower_char_def trim_space_def is_space_def trim_prefix_def has_prefix_def
      ct_normalize_example withinRoots_def)

end
