(* ===== verification/Datasets.thy ===== *)
theory Datasets
  imports Model
begin

text \<open>
  Package internal/datasets, manager.go: activation of attribution bundles, protection of the
  bundles readers use, and pruning. Every operation of the manager holds its mutex, so each is one
  step of the state machine below; the release function that \<open>Acquire\<close> returns is a step of
  its own, and \<open>sync.Once\<close> is the flag of its handle. The durable reference store is an
  interface: what its calls return is an argument of the operations that make them.
\<close>

section \<open>Types\<close>

record source =
  so_ID :: string
  so_Revision :: string
  so_Digest :: string
  so_Status :: coverage_status
  so_Reason :: string
  so_Records :: int
  so_PublishedAt :: "gotime option"

record artifact =
  af_Path :: string
  af_SHA256 :: string
  af_Size :: int

record manifest =
  mf_SchemaVersion :: int
  mf_BundleID :: string
  mf_Sources :: "source list"
  mf_Artifacts :: "artifact list"
  mf_CompatibleDetectorBuilds :: "string list"

text \<open>A candidate and a snapshot are the same pair of a manifest and a view.\<close>

record snapshot =
  sn_Manifest :: manifest
  sn_View :: attribution_view

definition zero_snapshot :: snapshot where
  "zero_snapshot = \<lparr>sn_Manifest = \<lparr>mf_SchemaVersion = 0, mf_BundleID = [], mf_Sources = [], mf_Artifacts = [],
       mf_CompatibleDetectorBuilds = []\<rparr>,
     sn_View = \<lparr>av_bundleID = [], av_policyVersion = [], av_detectorIDs = [], av_capabilities = []\<rparr>\<rparr>"

record manager =
  mg_buildID :: string
  mg_active :: "snapshot option"
  mg_references :: bool
  mg_lastKnownGood :: "string list"
  mg_readers :: "string \<rightharpoonup> int"

section \<open>Operations\<close>

definition source_error :: "source \<Rightarrow> go_error option" where
  "source_error s =
     (if so_ID s = [] \<or> so_Status s = CoverageUnset then Some (Errorf ''bundle source record is incomplete'')
      else if so_Status s = CoverageComplete \<and> (so_Revision s = [] \<or> so_Digest s = [])
      then Some (Errorf ''complete bundle source record is incomplete'')
      else if so_Status s = CoverageUnavailable \<and> so_Reason s = []
      then Some (Errorf ''unavailable bundle source requires a reason'')
      else None)"

definition artifact_error :: "artifact \<Rightarrow> go_error option" where
  "artifact_error a =
     (if af_Path a = [] \<or> af_SHA256 a = [] \<or> af_Size a \<le> 0
      then Some (Errorf ''bundle artifact record is incomplete'') else None)"

fun first_error :: "('a \<Rightarrow> go_error option) \<Rightarrow> 'a list \<Rightarrow> go_error option" where
  "first_error f [] = None"
| "first_error f (x # xs) = (case f x of Some e \<Rightarrow> Some e | None \<Rightarrow> first_error f xs)"

definition validateCandidate :: "snapshot \<Rightarrow> string \<Rightarrow> go_error option" where
  "validateCandidate candidate buildID =
     (let m = sn_Manifest candidate in
      if mf_SchemaVersion m \<noteq> 1 \<or> mf_BundleID m = [] then Some (Errorf ''bundle manifest identity is invalid'')
      else if mf_BundleID m \<noteq> av_bundleID (sn_View candidate)
      then Some (Errorf ''bundle manifest and view identities differ'')
      else if buildID \<notin> set (mf_CompatibleDetectorBuilds m)
      then Some (NewError CodeBundleIncompatible ''bundle does not support this detector build'' None)
      else if mf_Sources m = [] \<or> mf_Artifacts m = [] then Some (Errorf ''bundle manifest is incomplete'')
      else (case first_error source_error (mf_Sources m) of
          Some e \<Rightarrow> Some e
        | None \<Rightarrow> first_error artifact_error (mf_Artifacts m)))"

definition Activate :: "go_error option \<Rightarrow> snapshot \<Rightarrow> manager \<Rightarrow> go_error option \<times> manager" where
  "Activate record_err candidate m =
     (case validateCandidate candidate (mg_buildID m) of
        Some e \<Rightarrow> (Some e, m)
      | None \<Rightarrow>
          (case (if mg_references m then record_err else None) of
             Some e \<Rightarrow> (Some (Wrap ''record bundle activation'' e), m)
           | None \<Rightarrow>
               let good = compact (mf_BundleID (sn_Manifest candidate) # mg_lastKnownGood m) in
               (None, m\<lparr>mg_active := Some candidate,
                        mg_lastKnownGood := (if length good > 3 then take 3 good else good)\<rparr>)))"

text \<open>\<open>references\<close> is \<open>None\<close> without a reference store, else what \<open>ProtectedBundles\<close> returns.\<close>

definition NewManager ::
    "snapshot \<Rightarrow> string \<Rightarrow> (go_error + string list) option \<Rightarrow> go_error option \<Rightarrow> go_error + manager" where
  "NewManager initial buildID references record_err =
     (let m = \<lparr>mg_buildID = buildID, mg_active = None, mg_references = (references \<noteq> None),
               mg_lastKnownGood = [], mg_readers = Map.empty\<rparr> in
      and_then (case references of
          None \<Rightarrow> Inr m
        | Some (Inl e) \<Rightarrow> Inl (Wrap ''load protected bundles'' e)
        | Some (Inr protected) \<Rightarrow> Inr (m\<lparr>mg_lastKnownGood := protected\<rparr>)) (\<lambda>m.
        case Activate record_err initial m of
          (Some e, _) \<Rightarrow> Inl e
        | (None, m) \<Rightarrow> Inr m))"

definition Capture :: "manager \<Rightarrow> snapshot" where
  "Capture m = (case mg_active m of None \<Rightarrow> zero_snapshot | Some s \<Rightarrow> s)"

definition reader_count :: "manager \<Rightarrow> string \<Rightarrow> int" where
  "reader_count m b = (case mg_readers m b of None \<Rightarrow> 0 | Some n \<Rightarrow> n)"

text \<open>The second result is the bundle that the returned release function names, if it does anything.\<close>

definition Acquire :: "manager \<Rightarrow> snapshot \<times> string option \<times> manager" where
  "Acquire m =
     (case mg_active m of
        None \<Rightarrow> (zero_snapshot, None, m)
      | Some s \<Rightarrow>
          let b = mf_BundleID (sn_Manifest s) in
          (s, Some b, m\<lparr>mg_readers := (mg_readers m)(b \<mapsto> reader_count m b + 1)\<rparr>))"

definition release_bundle :: "string \<Rightarrow> manager \<Rightarrow> manager" where
  "release_bundle b m =
     (let m = m\<lparr>mg_readers := (mg_readers m)(b \<mapsto> reader_count m b - 1)\<rparr> in
      if reader_count m b = 0 then m\<lparr>mg_readers := (mg_readers m)(b := None)\<rparr> else m)"

text \<open>How \<open>WithBundlePruneLock\<close> behaves: it fails before the action, or it runs the action with the
  durable verdict and may report an error of its own after an action that succeeded.\<close>

datatype prune_lock = LockFailed go_error | LockRun bool "go_error option"

text \<open>The result of \<open>Prune\<close>, its error, and whether the removal callback was called.\<close>

definition Prune ::
    "string \<Rightarrow> (go_error option) option \<Rightarrow> prune_lock \<Rightarrow> manager \<Rightarrow> (bool \<times> go_error option) \<times> bool" where
  "Prune b remove lock m =
     (case remove of
        None \<Rightarrow> ((False, Some (Errorf ''bundle ID and removal callback are required'')), False)
      | Some remove_err \<Rightarrow>
          if b = [] then ((False, Some (Errorf ''bundle ID and removal callback are required'')), False)
          else if b \<in> set (mg_lastKnownGood m) \<or> reader_count m b > 0 then ((False, None), False)
          else if \<not> mg_references m
          then ((False, Some (NewError CodePersistenceUnavailable ''durable bundle references cannot be checked'' None)), False)
          else (case lock of
              LockFailed e \<Rightarrow> ((False, Some e), False)
            | LockRun pinned after \<Rightarrow>
                if pinned then ((False, after), False)
                else (case remove_err of
                    Some e \<Rightarrow> ((False, Some e), True)
                  | None \<Rightarrow> (case after of Some e \<Rightarrow> ((False, Some e), True) | None \<Rightarrow> ((True, None), True)))))"

section \<open>Runs\<close>

text \<open>A state: the manager and the release functions handed out so far, each with its bundle and
  whether it has been called.\<close>

type_synonym ds_state = "manager \<times> (string \<times> bool) list"

inductive ds_step :: "ds_state \<Rightarrow> ds_state \<Rightarrow> bool" where
  activate: "Activate record_err candidate m = (err, m') \<Longrightarrow> ds_step (m, hs) (m', hs)"
| acquire: "Acquire m = (s, Some b, m') \<Longrightarrow> ds_step (m, hs) (m', hs @ [(b, False)])"
| release: "i < length hs \<Longrightarrow> hs ! i = (b, False) \<Longrightarrow>
    ds_step (m, hs) (release_bundle b m, hs[i := (b, True)])"
| release_again: "i < length hs \<Longrightarrow> hs ! i = (b, True) \<Longrightarrow> ds_step (m, hs) (m, hs)"

inductive ds_reachable :: "ds_state \<Rightarrow> bool" where
  ds_new: "NewManager initial buildID references record_err = Inr m \<Longrightarrow> ds_reachable (m, [])"
| ds_run: "ds_reachable s \<Longrightarrow> ds_step s t \<Longrightarrow> ds_reachable t"

definition held :: "(string \<times> bool) list \<Rightarrow> string \<Rightarrow> nat" where
  "held hs b = length (filter (\<lambda>h. h = (b, False)) hs)"

definition ds_inv :: "ds_state \<Rightarrow> bool" where
  "ds_inv s \<longleftrightarrow> (case s of (m, hs) \<Rightarrow>
     (\<exists>a good. mg_active m = Some a \<and> validateCandidate a (mg_buildID m) = None
        \<and> mg_lastKnownGood m = mf_BundleID (sn_Manifest a) # good \<and> length good \<le> 2)
     \<and> (\<forall>b. reader_count m b = int (held hs b)) \<and> (\<forall>b. mg_readers m b \<noteq> Some 0))"

section \<open>Invariant\<close>

lemma compact_Cons_hd: "\<exists>ys. compact (x # xs) = x # ys"
proof (induction xs arbitrary: x)
  case (Cons y ys)
  show ?case
  proof (cases "x = y")
    case True
    with Cons [of y] show ?thesis by simp
  qed simp
qed simp

lemma Activate_cases:
  assumes "Activate record_err candidate m = (err, m')"
  obtains e where "err = Some e" "m' = m"
  | good where "err = None" "validateCandidate candidate (mg_buildID m) = None" "length good \<le> 2"
    "m' = m\<lparr>mg_active := Some candidate,
       mg_lastKnownGood := mf_BundleID (sn_Manifest candidate) # good\<rparr>"
proof (cases "validateCandidate candidate (mg_buildID m)")
  case (Some e)
  with assms have "err = Some e" "m' = m" by (auto simp: Activate_def)
  then show thesis by (rule that(1))
next
  case None
  show thesis
  proof (cases "if mg_references m then record_err else None")
    case (Some e)
    with assms None have "err = Some (Wrap ''record bundle activation'' e)" "m' = m" by (auto simp: Activate_def)
    then show thesis by (rule that(1))
  next
    case rec: None
    let ?b = "mf_BundleID (sn_Manifest candidate)"
    obtain ys where ys: "compact (?b # mg_lastKnownGood m) = ?b # ys" using compact_Cons_hd [of ?b "mg_lastKnownGood m"] by blast
    have "err = None" "m' = m\<lparr>mg_active := Some candidate, mg_lastKnownGood := ?b # take 2 ys\<rparr>"
      using assms None rec ys by (auto simp: Activate_def Let_def numeral_eq_Suc)
    with None show thesis by (intro that(2) [of "take 2 ys"]) simp_all
  qed
qed

lemma Activate_readers: "Activate e c m = (err, m') \<Longrightarrow> mg_readers m' = mg_readers m \<and> mg_buildID m' = mg_buildID m"
  by (erule Activate_cases) simp_all

lemma held_append: "held (hs @ [(b, False)]) c = held hs c + (if c = b then 1 else 0)"
  by (simp add: held_def)

lemma held_update:
  assumes "i < length hs" "hs ! i = (b, False)"
  shows "held hs c = held (hs[i := (b, True)]) c + (if c = b then 1 else 0)"
proof -
  have "hs = take i hs @ (b, False) # drop (Suc i) hs" using assms id_take_nth_drop by metis
  then have "held hs c = held (take i hs @ (b, False) # drop (Suc i) hs) c" by simp
  also have "\<dots> = held (hs[i := (b, True)]) c + (if c = b then 1 else 0)"
    using assms(1) by (simp add: held_def upd_conv_take_nth_drop)
  finally show ?thesis .
qed

lemma ds_inv_activate: "ds_inv (m, hs) \<Longrightarrow> Activate e c m = (err, m') \<Longrightarrow> ds_inv (m', hs)"
  by (erule Activate_cases) (auto simp: ds_inv_def reader_count_def)

lemma ds_inv_acquire:
  assumes "ds_inv (m, hs)" "Acquire m = (s, Some b, m')"
  shows "ds_inv (m', hs @ [(b, False)])"
proof -
  from assms(2) have m': "m' = m\<lparr>mg_readers := (mg_readers m)(b \<mapsto> reader_count m b + 1)\<rparr>"
    by (auto simp: Acquire_def Let_def split: option.splits)
  then have "reader_count m' c = reader_count m c + (if c = b then 1 else 0)" for c
    by (simp add: reader_count_def)
  moreover have "mg_readers m' c \<noteq> Some 0" for c using assms(1) m' by (auto simp: ds_inv_def)
  ultimately show ?thesis using assms(1) by (auto simp: ds_inv_def held_append m')
qed

lemma ds_inv_release:
  assumes "ds_inv (m, hs)" "i < length hs" "hs ! i = (b, False)"
  shows "ds_inv (release_bundle b m, hs[i := (b, True)])"
proof -
  let ?m = "release_bundle b m"
  have c: "reader_count ?m c = reader_count m c - (if c = b then 1 else 0)" for c
    by (auto simp: release_bundle_def reader_count_def Let_def)
  have z: "mg_readers ?m c \<noteq> Some 0" for c
    using assms(1) by (auto simp: release_bundle_def reader_count_def ds_inv_def Let_def)
  have "reader_count ?m c = int (held (hs[i := (b, True)]) c)" for c
    using assms(1) c [of c] held_update [OF assms(2,3), of c] by (simp add: ds_inv_def)
  with z assms(1) show ?thesis
    by (auto simp: ds_inv_def) (simp_all add: release_bundle_def Let_def)
qed

lemma ds_inv_new:
  assumes "NewManager initial buildID references record_err = Inr m"
  shows "ds_inv (m, [])"
proof -
  from assms obtain m0 where "Activate record_err initial m0 = (None, m)" "mg_readers m0 = Map.empty"
    by (auto simp: NewManager_def and_then_Inr_iff Let_def split: option.splits sum.splits prod.splits)
  then show ?thesis by (elim Activate_cases) (auto simp: ds_inv_def reader_count_def held_def)
qed

lemma ds_reachable_inv: "ds_reachable s \<Longrightarrow> ds_inv s"
proof (induction rule: ds_reachable.induct)
  case ds_new
  then show ?case by (rule ds_inv_new)
next
  case (ds_run s t)
  from ds_run(2,3) show ?case
    by (cases rule: ds_step.cases) (auto intro: ds_inv_activate ds_inv_acquire ds_inv_release)
qed

section \<open>Theorems\<close>

text \<open>C18: A bundle in use is never removed. In every run of activations, acquisitions and releases,
  pruning calls the removal callback only for a bundle that is not the active one, is not among
  the last known good ones, is held by no reader that has not released it, and is not pinned
  according to the durable store; and it reports success only when the callback succeeded.\<close>

theorem prune_protects_bundles_in_use:
  assumes "ds_reachable (m, hs)"
  shows "(snd (Prune b remove lock m) \<longrightarrow>
        mf_BundleID (sn_Manifest (Capture m)) \<noteq> b \<and> b \<notin> set (mg_lastKnownGood m) \<and> (b, False) \<notin> set hs
        \<and> (\<exists>after. lock = LockRun False after))
    \<and> (fst (fst (Prune b remove lock m)) \<longrightarrow> snd (Prune b remove lock m) \<and> remove = Some None)"
proof -
  have i: "ds_inv (m, hs)" using ds_reachable_inv [OF assms] .
  then have act: "mf_BundleID (sn_Manifest (Capture m)) \<in> set (mg_lastKnownGood m)"
    by (auto simp: ds_inv_def Capture_def)
  have "(c, False) \<in> set hs \<Longrightarrow> reader_count m c > 0" for c
  proof -
    assume "(c, False) \<in> set hs"
    then have "filter (\<lambda>h. h = (c, False)) hs \<noteq> []" by (auto simp: filter_empty_conv)
    with i show ?thesis by (simp add: ds_inv_def held_def)
  qed
  with act show ?thesis
    by (auto simp: Prune_def split: option.splits if_splits prune_lock.splits)
qed

definition example_candidate :: "string \<Rightarrow> snapshot" where
  "example_candidate b = \<lparr>sn_Manifest = \<lparr>mf_SchemaVersion = 1, mf_BundleID = b,
       mf_Sources = [\<lparr>so_ID = ''aws'', so_Revision = ''r'', so_Digest = ''d'', so_Status = CoverageComplete,
         so_Reason = [], so_Records = 1, so_PublishedAt = None\<rparr>],
       mf_Artifacts = [\<lparr>af_Path = ''p'', af_SHA256 = ''h'', af_Size = 1\<rparr>],
       mf_CompatibleDetectorBuilds = [''build'']\<rparr>,
     sn_View = \<lparr>av_bundleID = b, av_policyVersion = [], av_detectorIDs = [], av_capabilities = []\<rparr>\<rparr>"

definition example_manager :: "string list \<Rightarrow> manager" where
  "example_manager good = \<lparr>mg_buildID = ''build'', mg_active = Some (example_candidate (hd good)), mg_references = True,
     mg_lastKnownGood = good, mg_readers = Map.empty\<rparr>"

lemma example_new: "NewManager (example_candidate ''B'') ''build'' (Some (Inr [])) None = Inr (example_manager [''B''])"
  by (simp add: NewManager_def Activate_def validateCandidate_def example_candidate_def example_manager_def
      source_error_def artifact_error_def Let_def)

theorem prune_protects_bundles_in_use_witness:
  "snd (Prune ''A'' (Some None) (LockRun False None) (example_manager [''B'']))
   \<and> mf_BundleID (sn_Manifest (Capture (example_manager [''B'']))) \<noteq> ''A''"
proof -
  have "snd (Prune ''A'' (Some None) (LockRun False None) (example_manager [''B'']))"
    by (simp add: Prune_def example_manager_def reader_count_def)
  with prune_protects_bundles_in_use [OF ds_new [OF example_new], of "''A''" "Some None" "LockRun False None"]
  show ?thesis by blast
qed

text \<open>In every reachable state the manager serves a bundle that passed validation for this
  detector build, the served bundle heads a list of at most three last known good bundles, and the
  reader count of every bundle is the number of its unreleased acquisitions, so calling a release
  function twice has no further effect and no count is ever negative.\<close>

lemma manager_state_coherent:
  assumes "ds_reachable (m, hs)"
  shows "\<exists>a. mg_active m = Some a \<and> Capture m = a \<and> validateCandidate a (mg_buildID m) = None
      \<and> hd (mg_lastKnownGood m) = mf_BundleID (sn_Manifest a)
      \<and> mg_lastKnownGood m \<noteq> [] \<and> length (mg_lastKnownGood m) \<le> 3
      \<and> (\<forall>b. reader_count m b = int (length (filter (\<lambda>h. h = (b, False)) hs)))
      \<and> (\<forall>b. mg_readers m b \<noteq> Some 0)"
  using ds_reachable_inv [OF assms] by (auto simp: ds_inv_def Capture_def held_def)

lemma manager_state_coherent_example:
  "reader_count (snd (snd (Acquire (example_manager [''B''])))) ''B'' = 1
   \<and> length (mg_lastKnownGood (snd (snd (Acquire (example_manager [''B'']))))) \<le> 3"
proof -
  let ?m = "snd (snd (Acquire (example_manager [''B''])))"
  have "Acquire (example_manager [''B'']) = (example_candidate ''B'', Some ''B'', ?m)"
    by (simp add: Acquire_def example_manager_def example_candidate_def Let_def)
  from ds_run [OF ds_new [OF example_new] acquire [OF this]]
  have "ds_reachable (?m, [(''B'', False)])" by simp
  from manager_state_coherent [OF this] show ?thesis by auto
qed

text \<open>The list of last known good bundles can hold one bundle twice: compaction removes only
  adjacent repetitions, so activating A, B and A again protects two bundles in three places and
  the bundle before them is no longer protected by the manager.\<close>

lemma last_known_good_repeats:
  "mg_lastKnownGood (snd (Activate None (example_candidate ''A'')
     (snd (Activate None (example_candidate ''B'') (snd (Activate None (example_candidate ''A'')
        (example_manager [''X'']))))))) = [''A'', ''B'', ''A'']"
  by (simp add: Activate_def validateCandidate_def example_candidate_def example_manager_def
      source_error_def artifact_error_def Let_def)

end
