(* ===== verification/Rules_Spf.thy ===== *)
theory Rules_Spf
  imports Model
begin

text \<open>
  Package internal/rules, the evaluation of SPF records: which records contain a reachable
  positive include of a domain. Strings are byte sequences and positions in them are indexes, as
  in the code; the white space and the case mapping are those of ASCII.
\<close>

section \<open>Characters and small syntax\<close>

definition isSPFQualifier :: "char \<Rightarrow> bool" where
  "isSPFQualifier c = (c = CHR ''+'' \<or> c = CHR ''-'' \<or> c = CHR ''~'' \<or> c = CHR ''?'')"

definition isSPFMacroLiteral :: "char \<Rightarrow> bool" where
  "isSPFMacroLiteral c = (CHR 0x21 \<le> c \<and> c \<le> CHR 0x7E \<and> c \<noteq> CHR ''%'')"

definition validSPFName :: "string \<Rightarrow> bool" where
  "validSPFName value =
     (case value of
        [] \<Rightarrow> False
      | c # cs \<Rightarrow> is_lower_letter c \<and> list_all (\<lambda>x. is_lower_letter x \<or> is_digit x \<or> x \<in> set ''-_.'') cs)"

definition validSPFTopLabel :: "string \<Rightarrow> bool" where
  "validSPFTopLabel value =
     (if value = [] \<or> length value > 63 then False
      else if \<not> list_all (\<lambda>c. is_lower_letter c \<or> is_digit c \<or> c = CHR ''-'') value then False
      else if CHR ''-'' \<notin> set value then list_ex is_lower_letter value
      else hd value \<noteq> CHR ''-'' \<and> last value \<noteq> CHR ''-'')"

text \<open>\<open>strconv.Atoi\<close> on a string of digits fails beyond the range of \<open>int\<close>.\<close>

definition atoi_digits :: "string \<Rightarrow> nat option" where
  "atoi_digits value = (if decimal_value value < 2 ^ 63 then Some (decimal_value value) else None)"

definition validSPFCIDRLength :: "string \<Rightarrow> nat \<Rightarrow> bool" where
  "validSPFCIDRLength value maximum =
     (if value = [] then False
      else if \<not> list_all is_digit value then False
      else case atoi_digits value of None \<Rightarrow> False | Some n \<Rightarrow> n \<le> maximum)"

text \<open>\<open>strings.Cut(value, "//")\<close>.\<close>

fun cut_slashes :: "string \<Rightarrow> string \<times> string \<times> bool" where
  "cut_slashes [] = ([], [], False)"
| "cut_slashes [c] = ([c], [], False)"
| "cut_slashes (a # b # rest) =
     (if a = CHR ''/'' \<and> b = CHR ''/'' then ([], rest, True)
      else (case cut_slashes (b # rest) of (x, y, f) \<Rightarrow> (a # x, y, f)))"

definition validSPFDualCIDR :: "string \<Rightarrow> bool" where
  "validSPFDualCIDR value =
     (if has_prefix value ''/'' then validSPFCIDRLength (drop 1 value) 128
      else case cut_slashes value of (ipv4, ipv6, hasIPv6) \<Rightarrow>
        if \<not> validSPFCIDRLength ipv4 32 then False
        else \<not> hasIPv6 \<or> validSPFCIDRLength ipv6 128)"

definition validSPFIP :: "string \<Rightarrow> bool \<Rightarrow> bool" where
  "validSPFIP value ipv4 =
     (case cut CHR ''/'' value of (address, cidr, hasCIDR) \<Rightarrow>
        if address = [] \<or> contains cidr ''/'' then False
        else case parse_addr address of
            None \<Rightarrow> False
          | Some parsed \<Rightarrow>
              if is4 parsed \<noteq> ipv4 then False
              else if \<not> hasCIDR then True
              else validSPFCIDRLength cidr (if ipv4 then 32 else 128))"

section \<open>Macros and domain specifications\<close>

definition validSPFMacroBody :: "string \<Rightarrow> bool" where
  "validSPFMacroBody body =
     (case body of
        [] \<Rightarrow> False
      | c # rest \<Rightarrow>
          if c \<notin> set ''slodipvh'' then False
          else
            let digits = takeWhile is_digit rest;
                rest = dropWhile is_digit rest;
                rest' = (case rest of x # xs \<Rightarrow> if x = CHR ''r'' then xs else rest | [] \<Rightarrow> [])
            in if digits \<noteq> [] \<and> \<not> list_ex (\<lambda>d. d \<noteq> CHR ''0'') digits then False
               else dropWhile (\<lambda>x. x \<in> set ''.-+,/_='') rest' = [])"

text \<open>The index after the macro that starts at \<open>start\<close>, if it is valid.\<close>

definition validSPFMacro :: "string \<Rightarrow> nat \<Rightarrow> nat option" where
  "validSPFMacro value start =
     (if start + 1 \<ge> length value then None
      else if value ! (start + 1) \<in> {CHR ''%'', CHR ''_'', CHR ''-''} then Some (start + 2)
      else if value ! (start + 1) = CHR 0x7B then
        (case index_any [CHR 0x7D] (drop (start + 2) value) of
           None \<Rightarrow> None
         | Some e \<Rightarrow>
             if validSPFMacroBody (take e (drop (start + 2) value)) then Some (e + (start + 2) + 1) else None)
      else None)"

lemma validSPFMacro_advances: "validSPFMacro value start = Some next \<Longrightarrow> start < next"
  by (auto simp: validSPFMacro_def split: if_splits option.splits)

function macro_string_from :: "string \<Rightarrow> nat \<Rightarrow> bool" where
  "macro_string_from value index =
     (if index < length value then
        if value ! index = CHR ''%'' then
          (case validSPFMacro value index of None \<Rightarrow> False | Some next \<Rightarrow> macro_string_from value next)
        else if \<not> isSPFMacroLiteral (value ! index) then False
        else macro_string_from value (index + 1)
      else True)"
  by pat_completeness auto
termination
  by (relation "measure (\<lambda>(value, index). length value - index)") (auto dest: validSPFMacro_advances)

declare macro_string_from.simps [simp del]

definition validSPFMacroString :: "string \<Rightarrow> bool" where
  "validSPFMacroString value = macro_string_from value 0"

function split_cidr_from :: "string \<Rightarrow> nat \<Rightarrow> (string \<times> string \<times> bool) option" where
  "split_cidr_from value index =
     (if index < length value then
        if value ! index = CHR ''%'' then
          (case validSPFMacro value index of None \<Rightarrow> None | Some next \<Rightarrow> split_cidr_from value next)
        else if value ! index = CHR ''/'' then Some (take index value, drop (index + 1) value, True)
        else split_cidr_from value (index + 1)
      else Some (value, [], False))"
  by pat_completeness auto
termination
  by (relation "measure (\<lambda>(value, index). length value - index)") (auto dest: validSPFMacro_advances)

declare split_cidr_from.simps [simp del]

definition splitSPFDomainCIDR :: "string \<Rightarrow> (string \<times> string \<times> bool) option" where
  "splitSPFDomainCIDR value = split_cidr_from value 0"

text \<open>The loop of \<open>validSPFDomainSpec\<close>: the previous and the last dot outside macros, and whether the
  last token is a macro. \<open>None\<close> is the early return.\<close>

function domain_spec_scan :: "string \<Rightarrow> nat \<Rightarrow> int \<Rightarrow> int \<Rightarrow> bool \<Rightarrow> (int \<times> int \<times> bool) option" where
  "domain_spec_scan value index previousDot lastDot lastTokenMacro =
     (if index < length value then
        if value ! index = CHR ''%'' then
          (case validSPFMacro value index of
             None \<Rightarrow> None
           | Some next \<Rightarrow> domain_spec_scan value next previousDot lastDot True)
        else if \<not> isSPFMacroLiteral (value ! index) then None
        else if value ! index = CHR ''.''
        then domain_spec_scan value (index + 1) lastDot (int index) False
        else domain_spec_scan value (index + 1) previousDot lastDot False
      else Some (previousDot, lastDot, lastTokenMacro))"
  by pat_completeness auto
termination
  by (relation "measure (\<lambda>(value, index, _). length value - index)") (auto dest: validSPFMacro_advances)

declare domain_spec_scan.simps [simp del]

definition validSPFDomainSpec :: "string \<Rightarrow> bool" where
  "validSPFDomainSpec value =
     (if value = [] then False
      else case domain_spec_scan value 0 (-1) (-1) False of
          None \<Rightarrow> False
        | Some (previousDot, lastDot, lastTokenMacro) \<Rightarrow>
            if lastTokenMacro then True
            else
              let dot = (last value = CHR ''.'');
                  end = (if dot then length value - 1 else length value);
                  lastDot = (if dot then previousDot else lastDot)
              in lastDot \<ge> 0 \<and> validSPFTopLabel (drop (nat (lastDot + 1)) (take end value)))"

definition validSPFDomainCIDR :: "string \<Rightarrow> bool \<Rightarrow> bool" where
  "validSPFDomainCIDR suffix hasSuffix =
     (if \<not> hasSuffix then True
      else if has_prefix suffix '':'' then
        let suffix = drop 1 suffix in
        if suffix = [] then False
        else (case splitSPFDomainCIDR suffix of
            None \<Rightarrow> False
          | Some (beforeCIDR, cidr, hasCIDR) \<Rightarrow>
              if \<not> validSPFDomainSpec beforeCIDR then False
              else if \<not> hasCIDR then True
              else validSPFDualCIDR cidr)
      else if \<not> has_prefix suffix ''/'' then False
      else validSPFDualCIDR (drop 1 suffix))"

definition validSPFPtr :: "string \<Rightarrow> bool \<Rightarrow> bool" where
  "validSPFPtr suffix hasSuffix = (\<not> hasSuffix \<or> (has_prefix suffix '':'' \<and> validSPFDomainSpec (drop 1 suffix)))"

section \<open>Terms\<close>

definition splitSPFModifier :: "string \<Rightarrow> (string \<times> string) option" where
  "splitSPFModifier t =
     (case index_any '':/'' t of
        None \<Rightarrow> (case index_any ''='' t of
            None \<Rightarrow> None | Some a \<Rightarrow> Some (take a t, drop (a + 1) t))
      | Some separator \<Rightarrow> (case index_any ''='' t of
            None \<Rightarrow> None
          | Some a \<Rightarrow> if a > separator then None else Some (take a t, drop (a + 1) t)))"

fun modifiers_from :: "bool \<Rightarrow> bool \<Rightarrow> string list \<Rightarrow> bool" where
  "modifiers_from seenRedirect seenExplanation [] = True"
| "modifiers_from seenRedirect seenExplanation (t # terms) =
     (case splitSPFModifier t of
        None \<Rightarrow> modifiers_from seenRedirect seenExplanation terms
      | Some (name, argument) \<Rightarrow>
          if \<not> validSPFName name then False
          else if name = ''redirect'' then
            (if argument = [] \<or> seenRedirect \<or> \<not> validSPFDomainSpec argument then False
             else modifiers_from True seenExplanation terms)
          else if name = ''exp'' then
            (if argument = [] \<or> seenExplanation \<or> \<not> validSPFDomainSpec argument then False
             else modifiers_from seenRedirect True terms)
          else if \<not> validSPFMacroString argument then False
          else modifiers_from seenRedirect seenExplanation terms)"

definition validSPFModifiers :: "string list \<Rightarrow> bool" where
  "validSPFModifiers terms = modifiers_from False False terms"

text \<open>A mechanism term taken apart: its qualifier, name, suffix and whether it has one. \<open>None\<close> when
  nothing, or a second qualifier, follows the qualifier.\<close>

definition split_mechanism :: "string \<Rightarrow> (char \<times> string \<times> string \<times> bool) option" where
  "split_mechanism t =
     (let (qualifier, t', bad) =
        (if isSPFQualifier (hd t) then (hd t, tl t, tl t = [] \<or> isSPFQualifier (hd (tl t))) else (CHR ''+'', t, False))
      in if bad then None
         else case index_any '':/'' t' of
             None \<Rightarrow> Some (qualifier, t', [], False)
           | Some s \<Rightarrow> Some (qualifier, take s t', drop s t', True))"

text \<open>The loop over the terms after the version.\<close>

fun spf_terms :: "string \<Rightarrow> bool \<Rightarrow> string list \<Rightarrow> bool" where
  "spf_terms expected matched [] = matched"
| "spf_terms expected matched (t # terms) =
     (if t = [] then spf_terms expected matched terms
      else if splitSPFModifier t \<noteq> None then spf_terms expected matched terms
      else case split_mechanism t of
        None \<Rightarrow> False
      | Some (qualifier, mechanism, suffix, hasSuffix) \<Rightarrow>
          if mechanism = ''all'' then (if hasSuffix then False else matched)
          else if mechanism = ''include'' then
            (if \<not> hasSuffix \<or> \<not> has_prefix suffix '':'' \<or> \<not> validSPFDomainSpec (drop 1 suffix) then False
             else if qualifier = CHR ''+'' \<and> trim_suffix (drop 1 suffix) ''.'' = expected
             then spf_terms expected True terms
             else spf_terms expected matched terms)
          else if mechanism = ''a'' \<or> mechanism = ''mx'' then
            (if \<not> validSPFDomainCIDR suffix hasSuffix then False else spf_terms expected matched terms)
          else if mechanism = ''ptr'' then
            (if \<not> validSPFPtr suffix hasSuffix then False else spf_terms expected matched terms)
          else if mechanism = ''ip4'' then
            (if \<not> hasSuffix \<or> \<not> has_prefix suffix '':'' \<or> \<not> validSPFIP (drop 1 suffix) True then False
             else spf_terms expected matched terms)
          else if mechanism = ''ip6'' then
            (if \<not> hasSuffix \<or> \<not> has_prefix suffix '':'' \<or> \<not> validSPFIP (drop 1 suffix) False then False
             else spf_terms expected matched terms)
          else if mechanism = ''exists'' then
            (if \<not> hasSuffix \<or> \<not> has_prefix suffix '':'' \<or> \<not> validSPFDomainSpec (drop 1 suffix) then False
             else spf_terms expected matched terms)
          else False)"

definition spfIncludes :: "string \<Rightarrow> string \<Rightarrow> bool" where
  "spfIncludes value expected =
     (let terms = Go_Base.fields (to_lower (trim_space value)) in
      if terms = [] \<or> hd terms \<noteq> ''v=spf1'' then False
      else if \<not> validSPFModifiers (tl terms) then False
      else spf_terms (to_lower (trim_suffix expected ''.'')) False (tl terms))"

section \<open>A declarative account\<close>

text \<open>The mechanisms of a record, the terms that end it, and the well-formed and the matching ones.\<close>

definition mechanisms :: "string list \<Rightarrow> string list" where
  "mechanisms terms = filter (\<lambda>t. t \<noteq> [] \<and> splitSPFModifier t = None) terms"

definition is_all :: "string \<Rightarrow> bool" where
  "is_all t = (case split_mechanism t of Some (q, m, s, h) \<Rightarrow> m = ''all'' | None \<Rightarrow> False)"

definition well_formed_mechanism :: "string \<Rightarrow> bool" where
  "well_formed_mechanism t =
     (case split_mechanism t of
        None \<Rightarrow> False
      | Some (q, m, s, h) \<Rightarrow>
          m = ''all'' \<and> \<not> h
          \<or> m \<in> {''include'', ''exists''} \<and> h \<and> has_prefix s '':'' \<and> validSPFDomainSpec (drop 1 s)
          \<or> m \<in> {''a'', ''mx''} \<and> validSPFDomainCIDR s h
          \<or> m = ''ptr'' \<and> validSPFPtr s h
          \<or> m = ''ip4'' \<and> h \<and> has_prefix s '':'' \<and> validSPFIP (drop 1 s) True
          \<or> m = ''ip6'' \<and> h \<and> has_prefix s '':'' \<and> validSPFIP (drop 1 s) False)"

definition positive_include :: "string \<Rightarrow> string \<Rightarrow> bool" where
  "positive_include domain t =
     (case split_mechanism t of
        Some (q, m, s, h) \<Rightarrow> q = CHR ''+'' \<and> m = ''include'' \<and> trim_suffix (drop 1 s) ''.'' = domain
      | None \<Rightarrow> False)"

definition reachable_mechanisms :: "string list \<Rightarrow> string list" where
  "reachable_mechanisms terms = takeWhile (\<lambda>t. \<not> is_all t) (mechanisms terms)"

definition evaluated_mechanisms :: "string list \<Rightarrow> string list" where
  "evaluated_mechanisms terms = take (Suc (length (reachable_mechanisms terms))) (mechanisms terms)"

lemma spf_terms_iff:
  "spf_terms e matched terms \<longleftrightarrow> list_all well_formed_mechanism (evaluated_mechanisms terms)
     \<and> (matched \<or> list_ex (positive_include e) (reachable_mechanisms terms))"
proof (induction terms arbitrary: matched)
  case Nil
  then show ?case by (simp add: evaluated_mechanisms_def reachable_mechanisms_def mechanisms_def)
next
  case (Cons t terms)
  show ?case
  proof (cases "t = [] \<or> splitSPFModifier t \<noteq> None")
    case True
    then have "mechanisms (t # terms) = mechanisms terms" by (auto simp: mechanisms_def)
    then have "evaluated_mechanisms (t # terms) = evaluated_mechanisms terms"
      "reachable_mechanisms (t # terms) = reachable_mechanisms terms"
      by (simp_all add: evaluated_mechanisms_def reachable_mechanisms_def)
    moreover have "spf_terms e matched (t # terms) = spf_terms e matched terms" using True by auto
    ultimately show ?thesis using Cons by simp
  next
    case False
    then have m: "mechanisms (t # terms) = t # mechanisms terms" by (auto simp: mechanisms_def)
    show ?thesis
    proof (cases "is_all t")
      case True
      then have "evaluated_mechanisms (t # terms) = [t]" "reachable_mechanisms (t # terms) = []"
        by (simp_all add: evaluated_mechanisms_def reachable_mechanisms_def m)
      moreover obtain q s h where sm: "split_mechanism t = Some (q, ''all'', s, h)"
        using True by (auto simp: is_all_def split: option.splits)
      moreover have "well_formed_mechanism t \<longleftrightarrow> \<not> h" by (simp add: well_formed_mechanism_def sm)
      moreover have "spf_terms e matched (t # terms) \<longleftrightarrow> \<not> h \<and> matched" using False sm by simp
      ultimately show ?thesis by simp
    next
      case na: False
      then have "evaluated_mechanisms (t # terms) = t # evaluated_mechanisms terms"
        "reachable_mechanisms (t # terms) = t # reachable_mechanisms terms"
        by (simp_all add: evaluated_mechanisms_def reachable_mechanisms_def m)
      moreover have "spf_terms e matched (t # terms) \<longleftrightarrow>
          well_formed_mechanism t \<and> spf_terms e (matched \<or> positive_include e t) terms"
      proof (cases "split_mechanism t")
        case None
        with False show ?thesis by (simp add: well_formed_mechanism_def)
      next
        case (Some p)
        obtain q n s h where p: "p = (q, n, s, h)" by (cases p)
        have n: "n \<noteq> ''all''" using na Some p by (simp add: is_all_def)
        have sm: "split_mechanism t = Some (q, n, s, h)" and t: "t \<noteq> []" "splitSPFModifier t = None"
          using Some p False by blast+
        note wf = well_formed_mechanism_def [of t, unfolded sm option.case prod.case]
        note pos = positive_include_def [of e t, unfolded sm option.case prod.case]
        show ?thesis
        proof (cases "n = ''include''")
          case True
          then show ?thesis unfolding wf pos
            by (cases "q = CHR ''+'' \<and> trim_suffix (drop 1 s) ''.'' = e") (auto simp: sm t)
        next
          case ni: False
          then have "positive_include e t \<longleftrightarrow> False" by (simp add: pos)
          moreover have "spf_terms e matched (t # terms) \<longleftrightarrow> well_formed_mechanism t \<and> spf_terms e matched terms"
            unfolding wf using n ni by (simp add: sm t)
          ultimately show ?thesis by (simp only: simp_thms)
        qed
      qed
      ultimately show ?thesis using Cons by auto
    qed
  qed
qed

definition modifiers_of :: "string list \<Rightarrow> (string \<times> string) list" where
  "modifiers_of terms = List.map_filter splitSPFModifier terms"

definition well_formed_modifier :: "string \<times> string \<Rightarrow> bool" where
  "well_formed_modifier m = (validSPFName (fst m)
     \<and> (if fst m \<in> {''redirect'', ''exp''} then validSPFDomainSpec (snd m) else validSPFMacroString (snd m)))"

definition at_most_one :: "string \<Rightarrow> (string \<times> string) list \<Rightarrow> bool" where
  "at_most_one n ms \<longleftrightarrow> length (filter (\<lambda>m. fst m = n) ms) \<le> 1"

lemma modifiers_from_iff:
  "modifiers_from sr se terms \<longleftrightarrow> list_all well_formed_modifier (modifiers_of terms)
     \<and> length (filter (\<lambda>m. fst m = ''redirect'') (modifiers_of terms)) + (if sr then 1 else 0) \<le> 1
     \<and> length (filter (\<lambda>m. fst m = ''exp'') (modifiers_of terms)) + (if se then 1 else 0) \<le> 1"
proof (induction terms arbitrary: sr se)
  case (Cons t terms)
  have d: "validSPFDomainSpec a \<Longrightarrow> a \<noteq> []" for a by (auto simp: validSPFDomainSpec_def)
  show ?case
  proof (cases "splitSPFModifier t")
    case None
    with Cons show ?thesis by (simp add: modifiers_of_def map_filter_simps)
  next
    case (Some p)
    obtain n a where p: "p = (n, a)" by (cases p)
    have "modifiers_of (t # terms) = (n, a) # modifiers_of terms"
      using Some p by (simp add: modifiers_of_def map_filter_simps)
    with Cons Some p d [of a] show ?thesis by (auto simp: well_formed_modifier_def)
  qed
qed (simp add: modifiers_of_def map_filter_simps)

text \<open>C9: An SPF record matches an include rule exactly when it starts with the version
  \<open>v=spf1\<close>, every modifier is well formed and \<open>redirect\<close> and \<open>exp\<close> occur at most
  once, every mechanism up to and including the first \<open>all\<close> is well formed, and a positive
  include of the domain stands before the first \<open>all\<close>. Mechanisms after \<open>all\<close> are
  never looked at.\<close>

theorem spf_includes_iff:
  "spfIncludes value expected \<longleftrightarrow>
     (\<exists>terms. Go_Base.fields (to_lower (trim_space value)) = ''v=spf1'' # terms
        \<and> (\<forall>m \<in> set (modifiers_of terms). well_formed_modifier m)
        \<and> at_most_one ''redirect'' (modifiers_of terms) \<and> at_most_one ''exp'' (modifiers_of terms)
        \<and> (\<forall>t \<in> set (evaluated_mechanisms terms). well_formed_mechanism t)
        \<and> (\<exists>t \<in> set (reachable_mechanisms terms). positive_include (to_lower (trim_suffix expected ''.'')) t))"
  by (cases "Go_Base.fields (to_lower (trim_space value))")
    (auto simp: spfIncludes_def Let_def validSPFModifiers_def modifiers_from_iff spf_terms_iff at_most_one_def
       list_all_iff list_ex_iff)

theorem spf_includes_iff_witness:
  "spfIncludes ''v=spf1 a include:mail.example ~all ptr:('' ''mail.example''
   \<and> (\<exists>t \<in> set (reachable_mechanisms [''a'', ''include:mail.example'', ''~all'', ''ptr:('']). positive_include ''mail.example'' t)"
proof -
  have m: "spfIncludes ''v=spf1 a include:mail.example ~all ptr:('' ''mail.example''" by code_simp
  have f: "Go_Base.fields (to_lower (trim_space ''v=spf1 a include:mail.example ~all ptr:(''))
      = ''v=spf1'' # [''a'', ''include:mail.example'', ''~all'', ''ptr:('']" by code_simp
  have e: "to_lower (trim_suffix ''mail.example'' ''.'') = ''mail.example''" by code_simp
  from spf_includes_iff [of "''v=spf1 a include:mail.example ~all ptr:(''" "''mail.example''"] m
  have "\<exists>terms. Go_Base.fields (to_lower (trim_space ''v=spf1 a include:mail.example ~all ptr:('')) = ''v=spf1'' # terms
      \<and> (\<exists>t \<in> set (reachable_mechanisms terms). positive_include (to_lower (trim_suffix ''mail.example'' ''.'')) t)"
    by blast
  then have "\<exists>t \<in> set (reachable_mechanisms [''a'', ''include:mail.example'', ''~all'', ''ptr:('']). positive_include ''mail.example'' t"
    unfolding f e by blast
  with m show ?thesis by blast
qed

end
