(* ===== verification/Rules.thy ===== *)
theory Rules
  imports Rules_Spf Go_Library
begin

text \<open>
  Package internal/rules, engine.go: validation of a rule bundle, matching of rules against
  observations and the evidence a match emits.

  The decoders of JSON payloads, regular expressions, URL parsing and SHA-256 are the fields of
  \<open>rules_env\<close>. A compiled regular expression is the predicate of \<open>MatchString\<close>.
\<close>

section \<open>Bundles\<close>

record provider =
  pr_ID :: string
  pr_Name :: string
  pr_Aliases :: "string list"

record product =
  pd_ID :: string
  pd_ProviderID :: string
  pd_Name :: string
  pd_Aliases :: "string list"
  pd_Category :: string
  pd_Relations :: "relation list"

record match_op =
  ma_Exact :: string
  ma_FQDNSuffix :: string
  ma_IncludeApex :: bool
  ma_Regex :: string
  ma_TXTPrefix :: string
  ma_SPFInclude :: string
  ma_HeaderName :: string
  ma_HeaderContains :: string
  ma_ScriptHostSuffix :: string
  ma_ScriptPathPrefix :: string
  ma_TechnologyAlias :: string

record emit =
  em_ProviderID :: string
  em_ProductID :: string
  em_Category :: string
  em_Relation :: relation
  em_Strength :: strength
  em_Activity :: activity
  em_Limitation :: string

record rule =
  ru_ID :: string
  ru_Signal :: string
  ru_RRType :: string
  ru_Field :: string
  ru_Match :: match_op
  ru_Emit :: emit
  ru_SourceRefs :: "string list"
  ru_ReviewedAt :: string
  ru_compiled :: "(string \<Rightarrow> bool) option"

record rule_bundle =
  bu_SchemaVersion :: int
  bu_Providers :: "provider list"
  bu_Products :: "product list"
  bu_Rules :: "rule list"

record engine =
  eg_rules :: "rule list"
  eg_providers :: "provider list"
  eg_products :: "product list"

record rules_env =
  regexp_compile :: "string \<Rightarrow> go_error + (string \<Rightarrow> bool)"
  unmarshal_dns :: "json_value \<Rightarrow> dns_payload option"
  unmarshal_http :: "json_value \<Rightarrow> http_payload option"
  unmarshal_technology :: "json_value \<Rightarrow> technology_payload option"
  url_host_path :: "string \<Rightarrow> (string \<times> string) option"
  rule_hash :: "string \<Rightarrow> string"

section \<open>Validation\<close>

text \<open>The pattern of identifiers: a lower-case letter or digit, then those and dot, underscore, hyphen.\<close>

definition validID :: "string \<Rightarrow> bool" where
  "validID value =
     (case value of
        [] \<Rightarrow> False
      | c # cs \<Rightarrow> (is_lower_letter c \<or> is_digit c)
          \<and> list_all (\<lambda>x. is_lower_letter x \<or> is_digit x \<or> x \<in> set ''._-'') cs)"

text \<open>\<open>time.Parse("2006-01-02", s)\<close> succeeds.\<close>

definition days_in :: "nat \<Rightarrow> nat \<Rightarrow> nat" where
  "days_in month year =
     (if month = 2 then (if year mod 4 = 0 \<and> (year mod 100 \<noteq> 0 \<or> year mod 400 = 0) then 29 else 28)
      else if month \<in> {4, 6, 9, 11} then 30 else 31)"

definition valid_date :: "string \<Rightarrow> bool" where
  "valid_date s =
     (length s = 10 \<and> s ! 4 = CHR ''-'' \<and> s ! 7 = CHR ''-''
      \<and> list_all is_digit (take 4 s) \<and> list_all is_digit (take 2 (drop 5 s)) \<and> list_all is_digit (drop 8 s)
      \<and> 1 \<le> decimal_value (take 2 (drop 5 s)) \<and> decimal_value (take 2 (drop 5 s)) \<le> 12
      \<and> 1 \<le> decimal_value (drop 8 s)
      \<and> decimal_value (drop 8 s) \<le> days_in (decimal_value (take 2 (drop 5 s))) (decimal_value (take 4 s)))"

definition operations :: "match_op \<Rightarrow> nat" where
  "operations m = length (filter (\<lambda>value. value \<noteq> [])
     [ma_Exact m, ma_FQDNSuffix m, ma_Regex m, ma_TXTPrefix m, ma_SPFInclude m, ma_HeaderContains m,
      ma_ScriptHostSuffix m, ma_TechnologyAlias m])"

definition compile_match :: "rules_env \<Rightarrow> rule \<Rightarrow> go_error + rule" where
  "compile_match E rule =
     (let regex = ma_Regex (ru_Match rule) in
      if regex \<noteq> [] then
        if \<not> has_prefix regex ''^'' \<or> \<not> has_suffix regex ''$''
        then Inl (Errorf ''regular expression must be anchored'')
        else (case regexp_compile E regex of
            Inl e \<Rightarrow> Inl (Wrap ''compile regular expression'' e)
          | Inr compiled \<Rightarrow> Inr (rule\<lparr>ru_compiled := Some compiled\<rparr>))
      else Inr rule)"

definition signal_error :: "rule \<Rightarrow> go_error option" where
  "signal_error rule =
     (let m = ru_Match rule in
      if ru_Signal rule = ''dns'' then
        (if ru_RRType rule = [] \<or> ma_HeaderContains m \<noteq> [] \<or> ma_ScriptHostSuffix m \<noteq> [] \<or> ma_TechnologyAlias m \<noteq> []
         then Some (Errorf ''DNS rule has an incompatible operation'')
         else if (ma_TXTPrefix m \<noteq> [] \<or> ma_SPFInclude m \<noteq> []) \<and> \<not> equal_fold (ru_RRType rule) ''TXT''
         then Some (Errorf ''TXT operation requires TXT rrtype'')
         else None)
      else if ru_Signal rule = ''http'' then
        (if ru_RRType rule \<noteq> [] \<or> ma_HeaderContains m = [] \<and> ma_ScriptHostSuffix m = []
         then Some (Errorf ''HTTP rule has an incompatible operation'') else None)
      else if ru_Signal rule = ''technology'' then
        (if ru_RRType rule \<noteq> [] \<or> ma_TechnologyAlias m = []
         then Some (Errorf ''technology rule has an incompatible operation'') else None)
      else None)"

definition validateRule ::
    "rules_env \<Rightarrow> rule \<Rightarrow> string set \<Rightarrow> (string \<rightharpoonup> product) \<Rightarrow> go_error + rule" where
  "validateRule E rule providers products =
     (let emit = ru_Emit rule; m = ru_Match rule in
      if ru_Signal rule \<noteq> ''dns'' \<and> ru_Signal rule \<noteq> ''http'' \<and> ru_Signal rule \<noteq> ''technology''
      then Inl (Errorf (''unsupported signal '' @ ru_Signal rule))
      else if ru_Field rule = [] \<or> ru_SourceRefs rule = []
      then Inl (Errorf ''field and source references are required'')
      else if \<not> valid_date (ru_ReviewedAt rule) then Inl (Errorf ''invalid review date'')
      else if em_ProviderID emit \<noteq> [] \<and> em_ProviderID emit \<notin> providers
      then Inl (Errorf (''unknown provider '' @ em_ProviderID emit))
      else case products (em_ProductID emit) of
          None \<Rightarrow> Inl (Errorf (''unknown product '' @ em_ProductID emit))
        | Some product \<Rightarrow>
            if pd_ProviderID product \<noteq> em_ProviderID emit then Inl (Errorf ''product/provider mismatch'')
            else if em_Relation emit \<notin> set (pd_Relations product)
            then Inl (Errorf (''product does not support relation '' @ em_Relation emit))
            else if em_Strength emit \<noteq> StrengthStrong \<and> em_Strength emit \<noteq> StrengthModerate \<and> em_Strength emit \<noteq> StrengthWeak
            then Inl (Errorf (''invalid strength '' @ em_Strength emit))
            else if em_Activity emit \<noteq> ActivityConfigured \<and> em_Activity emit \<noteq> ActivityResponding
                 \<and> em_Activity emit \<noteq> ActivityVerificationOnly \<and> em_Activity emit \<noteq> ActivityHistorical
                 \<and> em_Activity emit \<noteq> ActivityUnknown
            then Inl (Errorf (''invalid activity '' @ em_Activity emit))
            else if \<not> validID (em_Category emit) then Inl (Errorf (''invalid category '' @ em_Category emit))
            else if operations m \<noteq> 1 then Inl (Errorf ''exactly one match operation is required'')
            else and_then (compile_match E rule) (\<lambda>rule.
              if ma_HeaderContains m \<noteq> [] \<and> ma_HeaderName m = [] then Inl (Errorf ''header name is required'')
              else case signal_error rule of Some e \<Rightarrow> Inl e | None \<Rightarrow> Inr rule))"

fun load_providers :: "provider list \<Rightarrow> go_error option" where
  "load_providers [] = None"
| "load_providers (p # ps) =
     (if \<not> validID (pr_ID p) then Some (Errorf (''invalid provider ID '' @ pr_ID p)) else load_providers ps)"

fun load_products :: "string set \<Rightarrow> product list \<Rightarrow> go_error option" where
  "load_products providers [] = None"
| "load_products providers (p # ps) =
     (if \<not> validID (pd_ID p) then Some (Errorf (''invalid product ID '' @ pd_ID p))
      else if pd_ProviderID p \<noteq> [] \<and> pd_ProviderID p \<notin> providers
      then Some (Errorf (''product '' @ pd_ID p @ '' references unknown provider '' @ pd_ProviderID p))
      else load_products providers ps)"

fun load_rules ::
    "rules_env \<Rightarrow> string set \<Rightarrow> (string \<rightharpoonup> product) \<Rightarrow> string list \<Rightarrow> rule list \<Rightarrow> go_error + rule list" where
  "load_rules E providers products ids [] = Inr []"
| "load_rules E providers products ids (rule # rules) =
     (if \<not> validID (ru_ID rule) then Inl (Errorf (''invalid rule ID '' @ ru_ID rule))
      else if ru_ID rule \<in> set ids then Inl (Errorf (''duplicate rule ID '' @ ru_ID rule))
      else and_then (map_error (Wrap (''rule '' @ ru_ID rule)) (validateRule E rule providers products)) (\<lambda>rule'.
           and_then (load_rules E providers products (ru_ID rule # ids) rules) (\<lambda>rules'. Inr (rule' # rules'))))"

text \<open>The map of products keeps the last product of an identifier.\<close>

definition product_map :: "product list \<Rightarrow> (string \<rightharpoonup> product)" where
  "product_map ps = fold (\<lambda>p m. m(pd_ID p \<mapsto> p)) ps Map.empty"

text \<open>\<open>decode\<close> is the JSON decoder with unknown fields disallowed.\<close>

definition Load :: "rules_env \<Rightarrow> (string \<Rightarrow> go_error + rule_bundle) \<Rightarrow> string \<Rightarrow> go_error + engine" where
  "Load E decode data =
     and_then (map_error (Wrap ''decode rule bundle'') (decode data)) (\<lambda>bundle.
       if bu_SchemaVersion bundle \<noteq> 1 then Inl (Errorf ''unsupported rule schema version'')
       else case load_providers (bu_Providers bundle) of
           Some e \<Rightarrow> Inl e
         | None \<Rightarrow>
             let providers = set (map pr_ID (bu_Providers bundle)) in
             (case load_products providers (bu_Products bundle) of
                Some e \<Rightarrow> Inl e
              | None \<Rightarrow>
                  and_then (load_rules E providers (product_map (bu_Products bundle)) [] (bu_Rules bundle)) (\<lambda>rules.
                    Inr \<lparr>eg_rules = rules, eg_providers = bu_Providers bundle, eg_products = bu_Products bundle\<rparr>)))"

section \<open>Matching\<close>

definition fqdnSuffix :: "string \<Rightarrow> string \<Rightarrow> bool \<Rightarrow> bool" where
  "fqdnSuffix value suffix includeApex =
     (let value = trim_suffix (to_lower (trim_space value)) ''.'';
          suffix = trim_suffix (to_lower (trim_space suffix)) ''.''
      in (includeApex \<and> value = suffix) \<or> has_suffix value (''.'' @ suffix))"

definition matchValue :: "rule \<Rightarrow> string \<Rightarrow> bool" where
  "matchValue r value =
     (let value = trim_space value; m = ru_Match r in
      if ma_Exact m \<noteq> [] then equal_fold (trim_suffix value ''.'') (trim_suffix (ma_Exact m) ''.'')
      else if ma_FQDNSuffix m \<noteq> [] then fqdnSuffix value (ma_FQDNSuffix m) (ma_IncludeApex m)
      else (case ru_compiled r of
          Some compiled \<Rightarrow> compiled (to_lower (trim_suffix value ''.''))
        | None \<Rightarrow>
            if ma_TXTPrefix m \<noteq> [] then has_prefix (to_lower value) (to_lower (ma_TXTPrefix m))
            else if ma_SPFInclude m \<noteq> [] then spfIncludes value (ma_SPFInclude m)
            else False))"

definition header_matches :: "match_op \<Rightarrow> http_header list \<Rightarrow> bool" where
  "header_matches m headers =
     list_ex (\<lambda>header. equal_fold (hh_Name header) (ma_HeaderName m)
       \<and> list_ex (\<lambda>value. contains (to_lower value) (to_lower (ma_HeaderContains m))) (hh_Values header)) headers"

definition script_matches :: "rules_env \<Rightarrow> match_op \<Rightarrow> string list \<Rightarrow> bool" where
  "script_matches E m urls =
     list_ex (\<lambda>raw. case url_host_path E raw of
         None \<Rightarrow> False
       | Some (hostname, path) \<Rightarrow> fqdnSuffix hostname (ma_ScriptHostSuffix m) True
           \<and> (ma_ScriptPathPrefix m = [] \<or> has_prefix path (ma_ScriptPathPrefix m))) urls"

definition rule_matches :: "rules_env \<Rightarrow> rule \<Rightarrow> observation \<Rightarrow> string option" where
  "rule_matches E r ob =
     (let m = ru_Match r in
      if ru_Signal r = ''dns'' then
        if ob_Type ob \<noteq> ''dns_record'' then None
        else (case unmarshal_dns E (ob_Payload ob) of
            None \<Rightarrow> None
          | Some payload \<Rightarrow>
              if \<not> equal_fold (dp_RRType payload) (ru_RRType r) then None
              else
                let value = (if equal_fold (dp_RRType payload) ''MX'' then fst (snd (cut CHR '' '' (dp_Value payload)))
                             else dp_Value payload)
                in if matchValue r value then Some (ru_Field r) else None)
      else if ru_Signal r = ''http'' then
        if ob_Type ob \<noteq> ''http_response'' then None
        else (case unmarshal_http E (ob_Payload ob) of
            None \<Rightarrow> None
          | Some payload \<Rightarrow>
              if ma_HeaderContains m \<noteq> [] \<and> header_matches m (hp_Headers payload)
              then Some (''header.'' @ to_lower (ma_HeaderName m))
              else if script_matches E m (hp_ScriptURLs payload) then Some ''script_url'' else None)
      else if ru_Signal r = ''technology'' then
        if ob_Type ob \<noteq> ''technology'' then None
        else (case unmarshal_technology E (ob_Payload ob) of
            None \<Rightarrow> None
          | Some payload \<Rightarrow> if equal_fold (tp_Name payload) (ma_TechnologyAlias m) then Some ''technology.name'' else None)
      else None)"

definition rule_evidence :: "rules_env \<Rightarrow> rule \<Rightarrow> observation \<Rightarrow> string \<Rightarrow> evidence" where
  "rule_evidence E r ob matchedField =
     \<lparr>ev_ID = ''evidence-rule-'' @ rule_hash E (ru_ID r @ [CHR 0x00] @ ob_ID ob), ev_ObservationIDs = [ob_ID ob],
      ev_DatasetRecords = [], ev_ClassifiedAt = 0, ev_DetectorID = ''rules-v1'', ev_RuleID = ru_ID r,
      ev_Subject = ob_Subject ob, ev_ProviderID = em_ProviderID (ru_Emit r), ev_ProductID = em_ProductID (ru_Emit r),
      ev_Category = em_Category (ru_Emit r), ev_Relation = em_Relation (ru_Emit r),
      ev_Strength = em_Strength (ru_Emit r), ev_Activity = em_Activity (ru_Emit r), ev_Scope = ob_Scope ob,
      ev_Explanation =
        (if ma_SPFInclude (ru_Match r) \<noteq> []
         then ''SPF record contains a reachable positive include for '' @ ma_SPFInclude (ru_Match r)
              @ ''; sender-specific authorization was not evaluated''
         else ''reviewed rule matched '' @ matchedField)\<rparr>"

definition scopeAllows :: "relation \<Rightarrow> scope \<Rightarrow> bool" where
  "scopeAllows relation scope =
     (if scope = ScopeExternalRedirect \<and> relation = RelationWebIntegration then False
      else if scope = ScopeMailDependency \<and> relation = RelationWebDelivery then False
      else True)"

definition observation_evidence :: "rules_env \<Rightarrow> rule list \<Rightarrow> observation \<Rightarrow> evidence list" where
  "observation_evidence E rules ob =
     List.map_filter (\<lambda>r. case rule_matches E r ob of
         None \<Rightarrow> None
       | Some field \<Rightarrow> if scopeAllows (em_Relation (ru_Emit r)) (ob_Scope ob) then Some (rule_evidence E r ob field) else None)
       rules"

text \<open>The loop over the observations. \<open>ctx n\<close> is the state of the context before observation
  \<open>n\<close>; the second result is whether the loop ran to the end.\<close>

fun detect_loop :: "rules_env \<Rightarrow> rule list \<Rightarrow> (nat \<Rightarrow> go_error option) \<Rightarrow> nat \<Rightarrow> observation list \<Rightarrow> evidence list \<times> bool" where
  "detect_loop E rules ctx n [] = ([], True)"
| "detect_loop E rules ctx n (ob # obs) =
     (case ctx n of
        Some e \<Rightarrow> ([], False)
      | None \<Rightarrow> (case detect_loop E rules ctx (Suc n) obs of
            (evs, done) \<Rightarrow> (observation_evidence E rules ob @ evs, done)))"

definition Detect ::
    "rules_env \<Rightarrow> engine \<Rightarrow> (nat \<Rightarrow> go_error option) \<Rightarrow> observation list \<Rightarrow> evidence list \<times> coverage list" where
  "Detect E e ctx observations =
     (case detect_loop E (eg_rules e) ctx 0 observations of
        (evs, False) \<Rightarrow> (evs, [zero_coverage\<lparr>cv_Capability := ''rules'', cv_Status := CoveragePartial,
            cv_Attempted := int (length observations), cv_ErrorCodes := [CodeCancelled]\<rparr>])
      | (evs, True) \<Rightarrow> (sort_key ev_ID evs, [zero_coverage\<lparr>cv_Capability := ''rules'', cv_Status := CoverageComplete,
            cv_Attempted := int (length observations), cv_Completed := int (length observations)\<rparr>]))"

section \<open>What loading guarantees\<close>

text \<open>The promise of a loaded rule: it concludes only what the catalogue of its bundle supports,
  and it has one operation, which its signal can evaluate.\<close>

definition wf_rule :: "provider list \<Rightarrow> product list \<Rightarrow> rule \<Rightarrow> bool" where
  "wf_rule providers products r \<longleftrightarrow>
     validID (ru_ID r) \<and> ru_Field r \<noteq> [] \<and> ru_SourceRefs r \<noteq> [] \<and> valid_date (ru_ReviewedAt r)
     \<and> (em_ProviderID (ru_Emit r) = [] \<or> em_ProviderID (ru_Emit r) \<in> pr_ID ` set providers)
     \<and> (\<exists>p \<in> set products. pd_ID p = em_ProductID (ru_Emit r) \<and> pd_ProviderID p = em_ProviderID (ru_Emit r)
          \<and> em_Relation (ru_Emit r) \<in> set (pd_Relations p))
     \<and> em_Strength (ru_Emit r) \<in> {StrengthStrong, StrengthModerate, StrengthWeak}
     \<and> validID (em_Category (ru_Emit r))
     \<and> operations (ru_Match r) = 1
     \<and> (ma_Regex (ru_Match r) \<noteq> [] \<longleftrightarrow> ru_compiled r \<noteq> None)
     \<and> (ru_Signal r = ''dns'' \<and> ru_RRType r \<noteq> []
          \<and> ma_HeaderContains (ru_Match r) = [] \<and> ma_ScriptHostSuffix (ru_Match r) = [] \<and> ma_TechnologyAlias (ru_Match r) = []
        \<or> ru_Signal r = ''http'' \<and> (ma_HeaderContains (ru_Match r) \<noteq> [] \<and> ma_HeaderName (ru_Match r) \<noteq> []
             \<or> ma_ScriptHostSuffix (ru_Match r) \<noteq> [])
        \<or> ru_Signal r = ''technology'' \<and> ma_TechnologyAlias (ru_Match r) \<noteq> [])"

lemma compile_match_Inr:
  assumes "compile_match E r = Inr r'"
  shows "ru_Match r' = ru_Match r" "ru_Emit r' = ru_Emit r" "ru_ID r' = ru_ID r" "ru_Signal r' = ru_Signal r"
    "ru_RRType r' = ru_RRType r" "ru_Field r' = ru_Field r" "ru_SourceRefs r' = ru_SourceRefs r"
    "ru_ReviewedAt r' = ru_ReviewedAt r"
    "ru_compiled r = None \<Longrightarrow> ma_Regex (ru_Match r) \<noteq> [] \<longleftrightarrow> ru_compiled r' \<noteq> None"
  using assms by (auto simp: compile_match_def Let_def split: if_splits sum.splits)

lemma signal_error_None:
  assumes "signal_error r = None" "ru_Signal r = ''dns'' \<or> ru_Signal r = ''http'' \<or> ru_Signal r = ''technology''"
    "ma_HeaderContains (ru_Match r) \<noteq> [] \<longrightarrow> ma_HeaderName (ru_Match r) \<noteq> []"
  shows "ru_Signal r = ''dns'' \<and> ru_RRType r \<noteq> []
          \<and> ma_HeaderContains (ru_Match r) = [] \<and> ma_ScriptHostSuffix (ru_Match r) = [] \<and> ma_TechnologyAlias (ru_Match r) = []
        \<or> ru_Signal r = ''http'' \<and> (ma_HeaderContains (ru_Match r) \<noteq> [] \<and> ma_HeaderName (ru_Match r) \<noteq> []
             \<or> ma_ScriptHostSuffix (ru_Match r) \<noteq> [])
        \<or> ru_Signal r = ''technology'' \<and> ma_TechnologyAlias (ru_Match r) \<noteq> []"
  using assms by (auto simp: signal_error_def Let_def split: if_splits)

lemma product_map_Some: "product_map ps i = Some p \<Longrightarrow> p \<in> set ps \<and> pd_ID p = i"
  unfolding product_map_def
  by (induction ps rule: rev_induct) (auto split: if_splits)

lemma validateRule_wf:
  assumes "validateRule E r (pr_ID ` set providers) (product_map products) = Inr r'"
    and "validID (ru_ID r)" "ru_compiled r = None"
  shows "wf_rule providers products r'" and "ru_ID r' = ru_ID r"
proof -
  from assms(1) obtain p where p: "product_map products (em_ProductID (ru_Emit r)) = Some p"
    and facts: "ru_Signal r = ''dns'' \<or> ru_Signal r = ''http'' \<or> ru_Signal r = ''technology''"
      "ru_Field r \<noteq> []" "ru_SourceRefs r \<noteq> []" "valid_date (ru_ReviewedAt r)"
      "em_ProviderID (ru_Emit r) = [] \<or> em_ProviderID (ru_Emit r) \<in> pr_ID ` set providers"
      "pd_ProviderID p = em_ProviderID (ru_Emit r)" "em_Relation (ru_Emit r) \<in> set (pd_Relations p)"
      "em_Strength (ru_Emit r) \<in> {StrengthStrong, StrengthModerate, StrengthWeak}"
      "validID (em_Category (ru_Emit r))" "operations (ru_Match r) = 1"
    and c: "compile_match E r = Inr r'" "ma_HeaderContains (ru_Match r) \<noteq> [] \<longrightarrow> ma_HeaderName (ru_Match r) \<noteq> []"
      "signal_error r' = None"
    by (auto simp: validateRule_def Let_def and_then_Inr_iff split: if_splits option.splits)
  note same = compile_match_Inr(1-8) [OF c(1)]
  have "em_ProviderID (ru_Emit r) = [] \<or> em_ProviderID (ru_Emit r) \<in> pr_ID ` set providers" by (rule facts(5))
  moreover have "\<exists>p \<in> set products. pd_ID p = em_ProductID (ru_Emit r) \<and> pd_ProviderID p = em_ProviderID (ru_Emit r)
          \<and> em_Relation (ru_Emit r) \<in> set (pd_Relations p)"
    using product_map_Some [OF p] facts(6,7) by blast
  ultimately show "wf_rule providers products r'"
    unfolding wf_rule_def same
    using facts assms(2) compile_match_Inr(9) [OF c(1) assms(3)] signal_error_None [OF c(3)] c(2)
    unfolding same by blast
  show "ru_ID r' = ru_ID r" by (rule same)
qed

lemma load_rules_wf:
  assumes "load_rules E (pr_ID ` set providers) (product_map products) ids rules = Inr rules'"
    and "\<forall>r \<in> set rules. ru_compiled r = None"
  shows "(\<forall>r \<in> set rules'. wf_rule providers products r) \<and> map ru_ID rules' = map ru_ID rules
    \<and> distinct (map ru_ID rules) \<and> set (map ru_ID rules) \<inter> set ids = {}"
  using assms
proof (induction rules arbitrary: ids rules')
  case Nil
  then show ?case by simp
next
  case (Cons r rules)
  from Cons.prems(1) obtain r' rest where
    r: "validID (ru_ID r)" "ru_ID r \<notin> set ids"
      "validateRule E r (pr_ID ` set providers) (product_map products) = Inr r'"
    and rest: "load_rules E (pr_ID ` set providers) (product_map products) (ru_ID r # ids) rules = Inr rest"
    and eq: "rules' = r' # rest"
    by (auto simp: and_then_Inr_iff map_error_def split: if_splits sum.splits)
  have none: "ru_compiled r = None" using Cons.prems(2) by simp
  have "wf_rule providers products r'" "ru_ID r' = ru_ID r"
    using validateRule_wf [OF r(3,1) none] by simp_all
  moreover have "(\<forall>r \<in> set rest. wf_rule providers products r) \<and> map ru_ID rest = map ru_ID rules
    \<and> distinct (map ru_ID rules) \<and> set (map ru_ID rules) \<inter> set (ru_ID r # ids) = {}"
    using Cons.IH [OF rest] Cons.prems(2) by simp
  ultimately show ?case using r(2) unfolding eq by auto
qed

text \<open>A JSON decoder never writes unexported fields, so a decoded rule carries no compiled expression.\<close>

definition decodes_plain :: "(string \<Rightarrow> go_error + rule_bundle) \<Rightarrow> bool" where
  "decodes_plain decode \<longleftrightarrow> (\<forall>data b. decode data = Inr b \<longrightarrow> (\<forall>r \<in> set (bu_Rules b). ru_compiled r = None))"

lemma Load_Inr:
  assumes "decodes_plain decode" "Load E decode data = Inr e"
  shows "(\<forall>r \<in> set (eg_rules e). wf_rule (eg_providers e) (eg_products e) r) \<and> distinct (map ru_ID (eg_rules e))"
proof -
  from assms(2) obtain b rules where
    b: "decode data = Inr b"
    and rules: "load_rules E (pr_ID ` set (bu_Providers b)) (product_map (bu_Products b)) [] (bu_Rules b) = Inr rules"
    and e: "e = \<lparr>eg_rules = rules, eg_providers = bu_Providers b, eg_products = bu_Products b\<rparr>"
    by (auto simp: Load_def and_then_Inr_iff map_error_def Let_def split: if_splits option.splits sum.splits)
  have "\<forall>r \<in> set (bu_Rules b). ru_compiled r = None" using assms(1) b unfolding decodes_plain_def by blast
  from load_rules_wf [OF rules this] show ?thesis unfolding e by simp
qed

lemma load_products_None: "load_products ids ps = None \<Longrightarrow> \<forall>p \<in> set ps. validID (pd_ID p)"
  by (induction ps) (auto split: if_splits)

lemma Load_products: "Load E decode data = Inr e \<Longrightarrow> p \<in> set (eg_products e) \<Longrightarrow> validID (pd_ID p)"
  using load_products_None
  by (fastforce simp: Load_def and_then_Inr_iff map_error_def Let_def split: if_splits option.splits sum.splits)

text \<open>Identifiers have no NUL byte, so the key of a rule and an observation determines both.\<close>

lemma validID_chars:
  assumes "validID i"
  shows "i \<noteq> []" "CHR 0x00 \<notin> set i"
  using assms
  by (auto simp: validID_def is_lower_letter_def is_digit_def list_all_iff split: list.splits)

lemma separated_append:
  assumes "xs @ c # ys = xs' @ c # ys'" "c \<notin> set xs" "c \<notin> set xs'"
  shows "xs = xs' \<and> ys = ys'"
  using assms
proof (induction xs arbitrary: xs')
  case Nil
  then show ?case by (cases xs') auto
next
  case (Cons x xs)
  then show ?case by (cases xs') auto
qed

section \<open>What detection reports\<close>

text \<open>Rule and observation fire together when the rule matches and the scope admits its relation.\<close>

definition fires :: "rules_env \<Rightarrow> observation \<Rightarrow> rule \<Rightarrow> bool" where
  "fires E ob r \<longleftrightarrow> rule_matches E r ob \<noteq> None \<and> scopeAllows (em_Relation (ru_Emit r)) (ob_Scope ob)"

definition fired :: "rules_env \<Rightarrow> observation \<times> rule \<Rightarrow> evidence" where
  "fired E p = rule_evidence E (snd p) (fst p) (the (rule_matches E (snd p) (fst p)))"

definition firing_pairs :: "rules_env \<Rightarrow> rule list \<Rightarrow> observation list \<Rightarrow> (observation \<times> rule) list" where
  "firing_pairs E rules obs = filter (\<lambda>p. fires E (fst p) (snd p)) (List.product obs rules)"

lemma observation_evidence_fired:
  "observation_evidence E rules ob = map (fired E) (filter (\<lambda>p. fires E (fst p) (snd p)) (map (Pair ob) rules))"
  unfolding observation_evidence_def
  by (induction rules) (auto simp: List.map_filter_simps fires_def fired_def split: option.splits)

lemma detect_loop_complete:
  assumes "\<forall>k < length obs. ctx (n + k) = None"
  shows "detect_loop E rules ctx n obs = (map (fired E) (firing_pairs E rules obs), True)"
  using assms
proof (induction obs arbitrary: n)
  case Nil
  then show ?case by (simp add: firing_pairs_def)
next
  case (Cons ob obs)
  have "ctx n = None" using Cons.prems by force
  moreover have "\<forall>k < length obs. ctx (Suc n + k) = None" using Cons.prems by auto
  ultimately show ?case
    using Cons.IH [of "Suc n"] by (simp add: firing_pairs_def observation_evidence_fired)
qed

lemma detect_loop_cancelled:
  assumes "k < length obs" "ctx (n + k) = Some e" "\<forall>j < k. ctx (n + j) = None"
  shows "detect_loop E rules ctx n obs = (map (fired E) (firing_pairs E rules (take k obs)), False)"
  using assms
proof (induction obs arbitrary: n k)
  case Nil
  then show ?case by simp
next
  case (Cons ob obs)
  show ?case
  proof (cases k)
    case 0
    with Cons.prems(2) show ?thesis by (simp add: firing_pairs_def)
  next
    case (Suc j)
    have "ctx n = None" using Cons.prems(3) Suc by force
    moreover have "detect_loop E rules ctx (Suc n) obs = (map (fired E) (firing_pairs E rules (take j obs)), False)"
      using Cons.prems Suc by (intro Cons.IH) auto
    ultimately show ?thesis using Suc by (simp add: firing_pairs_def observation_evidence_fired)
  qed
qed

lemma firing_pairs_set:
  "set (firing_pairs E rules obs) = {(ob, r). ob \<in> set obs \<and> r \<in> set rules \<and> fires E ob r}"
  by (auto simp: firing_pairs_def)

lemma firing_pairs_take: "set (firing_pairs E rules (take k obs)) \<subseteq> set (firing_pairs E rules obs)"
  unfolding firing_pairs_set by (auto dest: in_set_takeD)

lemma Detect_evidence:
  assumes "Detect E e ctx obs = (evs, cov)"
  shows "\<exists>k. mset evs = mset (map (fired E) (firing_pairs E (eg_rules e) (take k obs)))"
proof (cases "\<exists>k < length obs. ctx k \<noteq> None")
  case False
  then have "detect_loop E (eg_rules e) ctx 0 obs = (map (fired E) (firing_pairs E (eg_rules e) obs), True)"
    by (intro detect_loop_complete) auto
  with assms show ?thesis by (intro exI [of _ "length obs"]) (auto simp: Detect_def)
next
  case True
  define k where "k = (LEAST k. ctx k \<noteq> None)"
  from True obtain j where j: "j < length obs" "ctx j \<noteq> None" by blast
  have "ctx k \<noteq> None" unfolding k_def by (rule LeastI [of _ j]) (rule j(2))
  moreover have "k \<le> j" unfolding k_def by (rule Least_le) (rule j(2))
  moreover have "\<forall>i < k. ctx i = None" unfolding k_def using not_less_Least by blast
  ultimately obtain x where "k < length obs" "ctx (0 + k) = Some x" "\<forall>i < k. ctx (0 + i) = None"
    using j(1) by auto
  from detect_loop_cancelled [OF this] show ?thesis
    using assms by (intro exI [of _ k]) (auto simp: Detect_def)
qed

lemma Detect_subset:
  assumes "Detect E e ctx obs = (evs, cov)"
  shows "set evs \<subseteq> fired E ` set (firing_pairs E (eg_rules e) obs)"
proof -
  from Detect_evidence [OF assms] obtain k where
    "mset evs = mset (map (fired E) (firing_pairs E (eg_rules e) (take k obs)))" by blast
  then have "set evs = fired E ` set (firing_pairs E (eg_rules e) (take k obs))"
    by (metis mset_eq_setD set_map)
  then show ?thesis using firing_pairs_take [of E "eg_rules e" k obs] by blast
qed

text \<open>The keys that evidence identifiers hash.\<close>

definition evidence_keys :: "rule list \<Rightarrow> observation list \<Rightarrow> string set" where
  "evidence_keys rules obs = (\<lambda>(r, ob). ru_ID r @ [CHR 0x00] @ ob_ID ob) ` (set rules \<times> set obs)"

lemma fired_ids_inj:
  assumes ids: "\<forall>r \<in> set rules. validID (ru_ID r)" "distinct (map ru_ID rules)" "distinct (map ob_ID obs)"
    and hash: "inj_on (rule_hash E) (evidence_keys rules obs)"
  shows "inj_on (\<lambda>p. ev_ID (fired E p)) (set (firing_pairs E rules obs))"
proof (rule inj_onI)
  fix p q assume p: "p \<in> set (firing_pairs E rules obs)" and q: "q \<in> set (firing_pairs E rules obs)"
    and eq: "ev_ID (fired E p) = ev_ID (fired E q)"
  obtain ob r ob' r' where pq: "p = (ob, r)" "q = (ob', r')" by fastforce
  have m: "ob \<in> set obs" "r \<in> set rules" "ob' \<in> set obs" "r' \<in> set rules"
    using p q unfolding pq firing_pairs_set by auto
  have "rule_hash E (ru_ID r @ [CHR 0x00] @ ob_ID ob) = rule_hash E (ru_ID r' @ [CHR 0x00] @ ob_ID ob')"
    using eq by (simp add: pq fired_def rule_evidence_def)
  then have "ru_ID r @ [CHR 0x00] @ ob_ID ob = ru_ID r' @ [CHR 0x00] @ ob_ID ob'"
    by (rule inj_onD [OF hash]) (use m in \<open>force simp: evidence_keys_def\<close>)+
  then have "ru_ID r = ru_ID r' \<and> ob_ID ob = ob_ID ob'"
    using separated_append [of "ru_ID r" "CHR 0x00" "ob_ID ob" "ru_ID r'" "ob_ID ob'"] ids(1) m validID_chars(2) by simp
  then show "p = q"
    using ids(2,3) m unfolding pq distinct_map by (auto dest: inj_onD)
qed

lemma Detect_ids_distinct:
  assumes "Detect E e ctx obs = (evs, cov)" "\<forall>r \<in> set (eg_rules e). validID (ru_ID r)"
    and "distinct (map ru_ID (eg_rules e))" "distinct (map ob_ID obs)"
    and "inj_on (rule_hash E) (evidence_keys (eg_rules e) obs)"
  shows "distinct (map ev_ID evs)"
proof -
  from Detect_evidence [OF assms(1)] obtain k where
    k: "mset evs = mset (map (fired E) (firing_pairs E (eg_rules e) (take k obs)))" by blast
  have "distinct (firing_pairs E (eg_rules e) (take k obs))"
    unfolding firing_pairs_def using assms(3,4) by (intro distinct_filter distinct_product) (auto simp: distinct_map)
  moreover have "inj_on (\<lambda>p. ev_ID (fired E p)) (set (firing_pairs E (eg_rules e) (take k obs)))"
    by (rule inj_on_subset [OF fired_ids_inj [OF assms(2-5)]]) (rule firing_pairs_take)
  ultimately have "distinct (map ev_ID (map (fired E) (firing_pairs E (eg_rules e) (take k obs))))"
    by (simp add: distinct_map comp_def)
  moreover have "mset (map ev_ID evs) = mset (map ev_ID (map (fired E) (firing_pairs E (eg_rules e) (take k obs))))"
    using arg_cong [OF k, of "image_mset ev_ID"] by (simp only: mset_map)
  ultimately show ?thesis by (metis mset_eq_imp_distinct_iff)
qed

section \<open>An example bundle\<close>

definition no_match :: match_op where
  "no_match = \<lparr>ma_Exact = [], ma_FQDNSuffix = [], ma_IncludeApex = False, ma_Regex = [], ma_TXTPrefix = [],
     ma_SPFInclude = [], ma_HeaderName = [], ma_HeaderContains = [], ma_ScriptHostSuffix = [],
     ma_ScriptPathPrefix = [], ma_TechnologyAlias = []\<rparr>"

definition example_emit :: emit where
  "example_emit = \<lparr>em_ProviderID = ''acme'', em_ProductID = ''acme-cdn'', em_Category = ''cdn'',
     em_Relation = RelationWebDelivery, em_Strength = StrengthStrong, em_Activity = ActivityResponding, em_Limitation = []\<rparr>"

definition cname_rule :: rule where
  "cname_rule = \<lparr>ru_ID = ''acme.cname'', ru_Signal = ''dns'', ru_RRType = ''CNAME'', ru_Field = ''value'',
     ru_Match = no_match\<lparr>ma_FQDNSuffix := ''acme.net''\<rparr>, ru_Emit = example_emit, ru_SourceRefs = [''doc''],
     ru_ReviewedAt = ''2024-02-29'', ru_compiled = None\<rparr>"

definition header_rule :: rule where
  "header_rule = cname_rule\<lparr>ru_ID := ''acme.header'', ru_Signal := ''http'', ru_RRType := [],
     ru_Match := no_match\<lparr>ma_HeaderName := ''Server'', ma_HeaderContains := ''acme''\<rparr>\<rparr>"

definition example_bundle :: rule_bundle where
  "example_bundle = \<lparr>bu_SchemaVersion = 1, bu_Providers = [\<lparr>pr_ID = ''acme'', pr_Name = [], pr_Aliases = []\<rparr>],
     bu_Products = [\<lparr>pd_ID = ''acme-cdn'', pd_ProviderID = ''acme'', pd_Name = [], pd_Aliases = [], pd_Category = [],
       pd_Relations = [RelationWebDelivery]\<rparr>],
     bu_Rules = [cname_rule, header_rule]\<rparr>"

definition example_engine :: engine where
  "example_engine = \<lparr>eg_rules = [cname_rule, header_rule], eg_providers = bu_Providers example_bundle,
     eg_products = bu_Products example_bundle\<rparr>"

text \<open>Payloads of the example are the record value or the script URL itself.\<close>

definition example_env :: rules_env where
  "example_env = \<lparr>regexp_compile = (\<lambda>_. Inl (Errorf ''unsupported'')),
     unmarshal_dns = (\<lambda>s. Some \<lparr>dp_RRType = ''CNAME'', dp_Owner = [], dp_Outcome = Answered, dp_Value = s, dp_Address = NoAddr,
       dp_TTL = 0, dp_Section = [], dp_ResponseCode = 0, dp_Resolver = [], dp_Transport = [], dp_PolicyReason = []\<rparr>),
     unmarshal_http = (\<lambda>s. Some \<lparr>hp_URL = [], hp_StatusCode = 200, hp_PeerAddress = NoAddr, hp_Headers = [],
       hp_BodyHash = [], hp_BodyLength = 0, hp_BodyTruncated = False, hp_BodyReadFailed = False, hp_ScriptURLs = [s],
       hp_ScriptURLsOmitted = 0, hp_ScriptScanComplete = None\<rparr>),
     unmarshal_technology = (\<lambda>_. None),
     url_host_path = (\<lambda>s. if s = ''https://./app.js'' then Some (''.'', ''/app.js'') else None),
     rule_hash = (\<lambda>s. s)\<rparr>"

definition example_observation :: "string \<Rightarrow> string \<Rightarrow> observation" where
  "example_observation kind payload = \<lparr>ob_ID = ''o1'', ob_Type = kind, ob_Subject = ''shop.example'', ob_Relation = [],
     ob_Scope = ScopeRoot, ob_ObservedAt = 0, ob_CollectorVersion = [], ob_Status = [], ob_Payload = payload,
     ob_ContentHash = []\<rparr>"

lemmas example_simps = no_match_def example_emit_def cname_rule_def header_rule_def example_bundle_def example_engine_def
  example_env_def example_observation_def

lemma example_valid:
  "validID ''acme''" "validID ''acme-cdn''" "validID ''acme.cname''" "validID ''acme.header''" "validID ''cdn''"
  "valid_date ''2024-02-29''"
  by code_simp+

lemma example_loads: "Load example_env (\<lambda>_. Inr example_bundle) data = Inr example_engine"
proof -
  have cname: "validateRule example_env cname_rule {''acme''} (product_map (bu_Products example_bundle)) = Inr cname_rule"
    by (simp add: validateRule_def example_simps example_valid operations_def compile_match_def signal_error_def product_map_def)
  have header: "validateRule example_env header_rule {''acme''} (product_map (bu_Products example_bundle)) = Inr header_rule"
    by (simp add: validateRule_def example_simps example_valid operations_def compile_match_def signal_error_def product_map_def)
  have "load_rules example_env {''acme''} (product_map (bu_Products example_bundle)) [] [cname_rule, header_rule]
      = Inr [cname_rule, header_rule]"
    using cname header by (simp add: map_error_def) (simp add: example_simps example_valid)
  then show ?thesis by (simp add: Load_def map_error_def) (simp add: example_simps example_valid)
qed

lemma example_fires: "fires example_env (example_observation ''dns_record'' ''x.acme.net.'') cname_rule"
  by code_simp

lemma header_silent: "\<not> fires example_env (example_observation ''dns_record'' ''x.acme.net.'') header_rule"
  by code_simp

lemma example_decodes: "decodes_plain (\<lambda>_. Inr example_bundle)"
  by (simp add: decodes_plain_def example_simps)

text \<open>C30: Detection reports exactly the pairs of an observation and a rule that match within scope.
  When it is not cancelled, the evidence is that of every firing pair, one item each, in the order
  of evidence identifiers, and the coverage is complete; when the context ends before observation
  \<open>k\<close>, the evidence is that of the first \<open>k\<close> observations and the coverage says partial and
  cancelled.\<close>

theorem detect_exact:
  assumes "k \<le> length obs" "\<forall>j < k. ctx j = None" "k < length obs \<longrightarrow> ctx k \<noteq> None"
  shows "\<exists>evs. Detect E e ctx obs = (evs, [zero_coverage\<lparr>cv_Capability := ''rules'',
             cv_Status := (if k = length obs then CoverageComplete else CoveragePartial), cv_Attempted := int (length obs),
             cv_Completed := (if k = length obs then int (length obs) else 0),
             cv_ErrorCodes := (if k = length obs then [] else [CodeCancelled])\<rparr>])
           \<and> mset evs = image_mset (fired E) (mset (firing_pairs E (eg_rules e) (take k obs)))
           \<and> (k = length obs \<longrightarrow> sorted (map ev_ID evs))"
proof (cases "k = length obs")
  case True
  then have "detect_loop E (eg_rules e) ctx 0 obs = (map (fired E) (firing_pairs E (eg_rules e) obs), True)"
    using assms(2) by (intro detect_loop_complete) auto
  then show ?thesis
    using True by (simp add: Detect_def zero_coverage_def)
next
  case False
  with assms obtain x where "k < length obs" "ctx (0 + k) = Some x" "\<forall>j < k. ctx (0 + j) = None" by auto
  from detect_loop_cancelled [OF this] False show ?thesis
    by (simp add: Detect_def zero_coverage_def)
qed

theorem detect_exact_witness:
  "\<exists>evs. Detect example_env example_engine (\<lambda>_. None) [example_observation ''dns_record'' ''x.acme.net.''] =
      (evs, [zero_coverage\<lparr>cv_Capability := ''rules'', cv_Status := CoverageComplete, cv_Attempted := 1, cv_Completed := 1\<rparr>])
    \<and> mset evs = {#fired example_env (example_observation ''dns_record'' ''x.acme.net.'', cname_rule)#}"
proof -
  have pairs: "firing_pairs example_env (eg_rules example_engine) [example_observation ''dns_record'' ''x.acme.net.'']
      = [(example_observation ''dns_record'' ''x.acme.net.'', cname_rule)]"
    using example_fires header_silent by (simp add: firing_pairs_def) (simp add: example_engine_def)
  show ?thesis
    using detect_exact [of 1 "[example_observation ''dns_record'' ''x.acme.net.'']" "\<lambda>_. None" example_env example_engine]
    by (simp add: pairs zero_coverage_def)
qed

text \<open>A loaded engine concludes only what its reviewed catalogue supports: on any observations,
  cancelled or not, every evidence item comes from one given observation, whose subject and scope it
  keeps, and from one rule; its product is a product of the bundle that supports the concluded
  relation and belongs to the concluded provider, which is a provider of the bundle or empty; and its
  strength is one of the three.\<close>

lemma loaded_rules_conclude_soundly:
  assumes "decodes_plain decode" "Load E decode data = Inr e" "Detect E e ctx obs = (evs, cov)" "ev \<in> set evs"
  shows "\<exists>ob \<in> set obs. \<exists>r \<in> set (eg_rules e). \<exists>p \<in> set (eg_products e).
           fires E ob r \<and> ev_RuleID ev = ru_ID r \<and> ev_ObservationIDs ev = [ob_ID ob]
           \<and> ev_Subject ev = ob_Subject ob \<and> ev_Scope ev = ob_Scope ob
           \<and> pd_ID p = ev_ProductID ev \<and> pd_ProviderID p = ev_ProviderID ev \<and> ev_Relation ev \<in> set (pd_Relations p)
           \<and> (ev_ProviderID ev = [] \<or> ev_ProviderID ev \<in> pr_ID ` set (eg_providers e))
           \<and> ev_Strength ev \<in> {StrengthStrong, StrengthModerate, StrengthWeak}"
proof -
  from Detect_subset [OF assms(3)] assms(4) obtain ob r where
    m: "ob \<in> set obs" "r \<in> set (eg_rules e)" "fires E ob r" and ev: "ev = fired E (ob, r)"
    unfolding firing_pairs_set by blast
  have wf: "wf_rule (eg_providers e) (eg_products e) r" using Load_Inr [OF assms(1,2)] m(2) by blast
  then obtain p where p: "p \<in> set (eg_products e)" "pd_ID p = em_ProductID (ru_Emit r)"
      "pd_ProviderID p = em_ProviderID (ru_Emit r)" "em_Relation (ru_Emit r) \<in> set (pd_Relations p)"
    unfolding wf_rule_def by blast
  have ids: "em_ProviderID (ru_Emit r) = [] \<or> em_ProviderID (ru_Emit r) \<in> pr_ID ` set (eg_providers e)"
      "em_Strength (ru_Emit r) \<in> {StrengthStrong, StrengthModerate, StrengthWeak}"
    using wf unfolding wf_rule_def by blast+
  show ?thesis
    by (rule bexI [OF _ m(1)], rule bexI [OF _ m(2)], rule bexI [OF _ p(1)])
       (use m(3) p(2-4) ids in \<open>simp_all add: ev fired_def rule_evidence_def\<close>)
qed

lemma loaded_rules_conclude_soundly_example:
  "\<exists>p \<in> set (eg_products example_engine).
     pd_ID p = ev_ProductID (fired example_env (example_observation ''dns_record'' ''x.acme.net.'', cname_rule))"
proof -
  have "Detect example_env example_engine (\<lambda>_. None) [example_observation ''dns_record'' ''x.acme.net.'']
    = ([fired example_env (example_observation ''dns_record'' ''x.acme.net.'', cname_rule)],
       [zero_coverage\<lparr>cv_Capability := ''rules'', cv_Status := CoverageComplete, cv_Attempted := 1, cv_Completed := 1\<rparr>])"
    by code_simp
  from loaded_rules_conclude_soundly [OF example_decodes example_loads this] show ?thesis by auto
qed

text \<open>A header rule can match a page that has no such header. When no header matches, the HTTP
  case falls through to the script URLs, where the rule's empty host suffix makes the suffix test ask
  for a host that is empty or ends in a dot: the accepted rule for a Server header below reports a
  page with no headers at all and one script at host \<open>.\<close> as a script match.\<close>

lemma header_rule_matches_script:
  "Load example_env (\<lambda>_. Inr example_bundle) [] = Inr example_engine \<and> header_rule \<in> set (eg_rules example_engine)
   \<and> ma_ScriptHostSuffix (ru_Match header_rule) = []
   \<and> map_option hp_Headers (unmarshal_http example_env ''https://./app.js'') = Some []
   \<and> rule_matches example_env header_rule (example_observation ''http_response'' ''https://./app.js'') = Some ''script_url''"
proof (intro conjI)
  show "rule_matches example_env header_rule (example_observation ''http_response'' ''https://./app.js'') = Some ''script_url''"
    by code_simp
qed (simp_all add: example_loads, simp_all add: example_simps)

end
