(* ===== verification/Policy_Destination.thy ===== *)
theory Policy_Destination
  imports Netip Model
begin

text \<open>
  internal/policy/destination.go: the decision whether the program may connect to an address
  and port, and the filter of the HTTP collector built on it. The prefix tables are the
  literals of the source, read by the model of \<open>netip.ParsePrefix\<close>.
\<close>

section \<open>The policy\<close>

datatype reason =
    ReasonNone | ReasonInvalid | ReasonPort | ReasonLoopback | ReasonPrivate | ReasonLinkLocal
  | ReasonUnspecified | ReasonMulticast | ReasonDocumentation | ReasonBenchmark | ReasonSpecialUse

record destination_decision =
  dd_Address :: addr
  dd_Port :: nat
  dd_Allowed :: bool
  dd_Reason :: reason

definition mustPrefixes :: "string list \<Rightarrow> ip_prefix list" where
  "mustPrefixes vs = map (\<lambda>v. the (parse_prefix v)) vs"

definition inPrefixes :: "addr \<Rightarrow> ip_prefix list \<Rightarrow> bool" where
  "inPrefixes a ps = list_ex (\<lambda>p. prefix_contains p a) ps"

definition documentationPrefixes :: "ip_prefix list" where
  "documentationPrefixes = mustPrefixes
     [''192.0.2.0/24'', ''198.51.100.0/24'', ''203.0.113.0/24'', ''2001:db8::/32'', ''3fff::/20'']"

definition benchmarkPrefixes :: "ip_prefix list" where
  "benchmarkPrefixes = mustPrefixes [''198.18.0.0/15'', ''2001:2::/48'']"

definition specialUsePrefixes :: "ip_prefix list" where
  "specialUsePrefixes = mustPrefixes
     [''0.0.0.0/8'', ''100.64.0.0/10'', ''192.0.0.0/24'', ''192.88.99.0/24'', ''240.0.0.0/4'',
      ''64:ff9b:1::/48'', ''100::/64'', ''100:0:0:1::/64'', ''2001::/23'', ''2001:10::/28'', ''2002::/16'', ''5f00::/16'']"

definition globallyReachableSpecialPurposePrefixes :: "ip_prefix list" where
  "globallyReachableSpecialPurposePrefixes = mustPrefixes
     [''192.0.0.9/32'', ''192.0.0.10/32'', ''2001:1::1/128'', ''2001:1::2/128'', ''2001:1::3/128'', ''2001:3::/32'',
      ''2001:4:112::/48'', ''2001:20::/28'', ''2001:30::/28'']"

definition wellKnownNAT64Prefix :: ip_prefix where
  "wellKnownNAT64Prefix = the (parse_prefix ''64:ff9b::/96'')"

text \<open>The \<open>switch\<close> of \<open>Check\<close>: None when the address is allowed.\<close>

definition classify :: "addr \<Rightarrow> reason option" where
  "classify a =
     (if is_loopback a then Some ReasonLoopback
      else if is_private a then Some ReasonPrivate
      else if is_link_local_unicast a \<or> is_link_local_multicast a then Some ReasonLinkLocal
      else if is_unspecified a then Some ReasonUnspecified
      else if is_multicast a then Some ReasonMulticast
      else if inPrefixes a documentationPrefixes then Some ReasonDocumentation
      else if inPrefixes a benchmarkPrefixes then Some ReasonBenchmark
      else if inPrefixes a globallyReachableSpecialPurposePrefixes then None
      else if \<not> is_global_unicast a \<or> inPrefixes a specialUsePrefixes then Some ReasonSpecialUse
      else None)"

text \<open>The IPv4 address in the last four bytes.\<close>

definition embedded_ip4 :: "addr \<Rightarrow> addr" where
  "embedded_ip4 a = (case a of V6 w _ \<Rightarrow> V4 (ucast w) | _ \<Rightarrow> a)"

lemma nat64_is6: "prefix_contains wellKnownNAT64Prefix a \<Longrightarrow> \<exists>w. a = V6 w []"
  by (cases a) (auto simp: wellKnownNAT64Prefix_def netip_parse)

function Check :: "addr \<Rightarrow> nat \<Rightarrow> destination_decision" where
  "Check address port =
     (let a = unmap address;
          refuse = (\<lambda>r. \<lparr>dd_Address = a, dd_Port = port, dd_Allowed = False, dd_Reason = r\<rparr>);
          final = (case classify a of
                     Some r \<Rightarrow> refuse r
                   | None \<Rightarrow> \<lparr>dd_Address = a, dd_Port = port, dd_Allowed = True, dd_Reason = ReasonNone\<rparr>)
      in if \<not> addr_valid a then refuse ReasonInvalid
         else if port \<noteq> 80 \<and> port \<noteq> 443 then refuse ReasonPort
         else if prefix_contains wellKnownNAT64Prefix a
         then (let e = Check (embedded_ip4 a) port in if \<not> dd_Allowed e then refuse (dd_Reason e) else final)
         else final)"
  by pat_completeness auto
termination
proof (relation "measure (\<lambda>(a, port). if is6 a then 1 else 0)")
  fix address port a
  assume "a = unmap address" "prefix_contains wellKnownNAT64Prefix a"
  then show "((embedded_ip4 a, port), address, port) \<in> measure (\<lambda>(a, port). if is6 a then 1 else 0)"
    using nat64_is6 [of a] by (cases address) (auto simp: embedded_ip4_def)
qed simp

declare Check.simps [simp del]

text \<open>The filter of internal/collect/http/collector.go: the approved addresses in their order,
  without repetition, and whether any address was refused.\<close>

fun approved_loop :: "nat \<Rightarrow> addr list \<Rightarrow> addr list \<Rightarrow> bool \<Rightarrow> addr list \<times> bool" where
  "approved_loop port [] approved blocked = (approved, blocked)"
| "approved_loop port (a # as) approved blocked =
     (let a = unmap a; allowed = dd_Allowed (Check a port) in
      approved_loop port as (if allowed \<and> a \<notin> set approved then approved @ [a] else approved) (blocked \<or> \<not> allowed))"

definition approvedAddresses :: "addr list \<Rightarrow> nat \<Rightarrow> addr list \<times> bool" where
  "approvedAddresses as port = approved_loop port as [] False"

section \<open>The tables as intervals\<close>

definition in_range :: "nat \<Rightarrow> nat \<times> nat \<Rightarrow> bool" where
  "in_range x r = (fst r \<le> x \<and> x < snd r)"

definition in_ranges :: "nat \<Rightarrow> (nat \<times> nat) list \<Rightarrow> bool" where
  "in_ranges x rs = list_ex (in_range x) rs"

lemma in_ranges_simps [simp]: "in_ranges x [] = False" "in_ranges x (r # rs) = (in_range x r \<or> in_ranges x rs)"
  by (simp_all add: in_ranges_def)

lemma nat_div_eq_iff: "0 < d \<Longrightarrow> (x::nat) div d = c \<longleftrightarrow> c * d \<le> x \<and> x < c * d + d"
  by (metis add.commute div_nat_eqI dividend_less_times_div mult.commute mult_Suc times_div_less_eq_dividend)

lemma drop_bit_numeral_iff:
  "drop_bit n (w::'a::len word) = numeral k \<longleftrightarrow> unat w div 2 ^ n = unat (numeral k :: 'a word)"
proof -
  have "unat (drop_bit n w) = unat w div 2 ^ n" unfolding unat_drop_bit_eq by (rule drop_bit_eq_div)
  then show ?thesis by (metis unsigned_word_eqI)
qed

lemma documentation_table:
  "documentationPrefixes = [\<lparr>pfx_addr = V4 0xC0000200, pfx_bits = 24\<rparr>, \<lparr>pfx_addr = V4 0xC6336400, pfx_bits = 24\<rparr>,
     \<lparr>pfx_addr = V4 0xCB007100, pfx_bits = 24\<rparr>, \<lparr>pfx_addr = V6 0x20010db8000000000000000000000000 [], pfx_bits = 32\<rparr>,
     \<lparr>pfx_addr = V6 0x3fff0000000000000000000000000000 [], pfx_bits = 20\<rparr>]"
  by (simp add: documentationPrefixes_def mustPrefixes_def netip_parse)

lemma benchmark_table:
  "benchmarkPrefixes = [\<lparr>pfx_addr = V4 0xC6120000, pfx_bits = 15\<rparr>,
     \<lparr>pfx_addr = V6 0x20010002000000000000000000000000 [], pfx_bits = 48\<rparr>]"
  by (simp add: benchmarkPrefixes_def mustPrefixes_def netip_parse)

lemma special_table:
  "specialUsePrefixes = [\<lparr>pfx_addr = V4 0, pfx_bits = 8\<rparr>, \<lparr>pfx_addr = V4 0x64400000, pfx_bits = 10\<rparr>,
     \<lparr>pfx_addr = V4 0xC0000000, pfx_bits = 24\<rparr>, \<lparr>pfx_addr = V4 0xC0586300, pfx_bits = 24\<rparr>,
     \<lparr>pfx_addr = V4 0xF0000000, pfx_bits = 4\<rparr>,
     \<lparr>pfx_addr = V6 0x0064ff9b000100000000000000000000 [], pfx_bits = 48\<rparr>,
     \<lparr>pfx_addr = V6 0x01000000000000000000000000000000 [], pfx_bits = 64\<rparr>,
     \<lparr>pfx_addr = V6 0x01000000000000010000000000000000 [], pfx_bits = 64\<rparr>,
     \<lparr>pfx_addr = V6 0x20010000000000000000000000000000 [], pfx_bits = 23\<rparr>,
     \<lparr>pfx_addr = V6 0x20010010000000000000000000000000 [], pfx_bits = 28\<rparr>,
     \<lparr>pfx_addr = V6 0x20020000000000000000000000000000 [], pfx_bits = 16\<rparr>,
     \<lparr>pfx_addr = V6 0x5f000000000000000000000000000000 [], pfx_bits = 16\<rparr>]"
  by (simp add: specialUsePrefixes_def mustPrefixes_def netip_parse)

lemma reachable_table:
  "globallyReachableSpecialPurposePrefixes = [\<lparr>pfx_addr = V4 0xC0000009, pfx_bits = 32\<rparr>,
     \<lparr>pfx_addr = V4 0xC000000A, pfx_bits = 32\<rparr>,
     \<lparr>pfx_addr = V6 0x20010001000000000000000000000001 [], pfx_bits = 128\<rparr>,
     \<lparr>pfx_addr = V6 0x20010001000000000000000000000002 [], pfx_bits = 128\<rparr>,
     \<lparr>pfx_addr = V6 0x20010001000000000000000000000003 [], pfx_bits = 128\<rparr>,
     \<lparr>pfx_addr = V6 0x20010003000000000000000000000000 [], pfx_bits = 32\<rparr>,
     \<lparr>pfx_addr = V6 0x20010004011200000000000000000000 [], pfx_bits = 48\<rparr>,
     \<lparr>pfx_addr = V6 0x20010020000000000000000000000000 [], pfx_bits = 28\<rparr>,
     \<lparr>pfx_addr = V6 0x20010030000000000000000000000000 [], pfx_bits = 28\<rparr>]"
  by (simp add: globallyReachableSpecialPurposePrefixes_def mustPrefixes_def netip_parse)

lemma nat64_prefix: "wellKnownNAT64Prefix = \<lparr>pfx_addr = V6 0x0064ff9b000000000000000000000000 [], pfx_bits = 96\<rparr>"
  by (simp add: wellKnownNAT64Prefix_def netip_parse)

lemmas destination_tables = documentation_table benchmark_table special_table reachable_table nat64_prefix

text \<open>The reference: the special-purpose address blocks of the IANA registries as half-open
  intervals, and the globally reachable exceptions inside them.\<close>

definition blocked4 :: "(nat \<times> nat) list" where
  "blocked4 =
     [(0x0, 0x1000000), (0xa000000, 0xb000000), (0x64400000, 0x64800000),
      (0x7f000000, 0x80000000), (0xa9fe0000, 0xa9ff0000), (0xac100000, 0xac200000),
      (0xc0000000, 0xc0000100), (0xc0000200, 0xc0000300), (0xc0586300, 0xc0586400),
      (0xc0a80000, 0xc0a90000), (0xc6120000, 0xc6140000), (0xc6336400, 0xc6336500),
      (0xcb007100, 0xcb007200), (0xe0000000, 0xf0000000), (0xf0000000, 0x100000000)]"

definition reachable4 :: "(nat \<times> nat) list" where
  "reachable4 = [(0xc0000009, 0xc000000b)]"

definition blocked6 :: "(nat \<times> nat) list" where
  "blocked6 =
     [(0x0, 0x1),
      (0x1, 0x2),
      (0x64ff9b000100000000000000000000, 0x64ff9b000200000000000000000000),
      (0x1000000000000000000000000000000, 0x1000000000000010000000000000000),
      (0x1000000000000010000000000000000, 0x1000000000000020000000000000000),
      (0x20010000000000000000000000000000, 0x20010200000000000000000000000000),
      (0x20010010000000000000000000000000, 0x20010020000000000000000000000000),
      (0x20010db8000000000000000000000000, 0x20010db9000000000000000000000000),
      (0x20020000000000000000000000000000, 0x20030000000000000000000000000000),
      (0x3fff0000000000000000000000000000, 0x3fff1000000000000000000000000000),
      (0x5f000000000000000000000000000000, 0x5f010000000000000000000000000000),
      (0xfc000000000000000000000000000000, 0xfe000000000000000000000000000000),
      (0xfe800000000000000000000000000000, 0xfec00000000000000000000000000000),
      (0xff000000000000000000000000000000, 0x100000000000000000000000000000000)]"

definition reachable6 :: "(nat \<times> nat) list" where
  "reachable6 =
     [(0x20010001000000000000000000000001, 0x20010001000000000000000000000002),
      (0x20010001000000000000000000000002, 0x20010001000000000000000000000003),
      (0x20010001000000000000000000000003, 0x20010001000000000000000000000004),
      (0x20010003000000000000000000000000, 0x20010004000000000000000000000000),
      (0x20010004011200000000000000000000, 0x20010004011300000000000000000000),
      (0x20010020000000000000000000000000, 0x20010030000000000000000000000000),
      (0x20010030000000000000000000000000, 0x20010040000000000000000000000000)]"

definition nat64_range :: "nat \<times> nat" where
  "nat64_range = (0x64ff9b000000000000000000000000, 0x64ff9b000000000000000100000000)"

definition public4 :: "nat \<Rightarrow> bool" where
  "public4 x = (in_ranges x reachable4 \<or> \<not> in_ranges x blocked4)"

definition public6 :: "nat \<Rightarrow> bool" where
  "public6 x = ((in_ranges x reachable6 \<or> \<not> in_ranges x blocked6) \<and> (in_range x nat64_range \<longrightarrow> public4 (x mod 2 ^ 32)))"

lemma prefix4_range:
  assumes "n \<le> 32"
  shows "prefix_contains \<lparr>pfx_addr = V4 b, pfx_bits = n\<rparr> (V4 w) \<longleftrightarrow>
    in_range (unat w) (unat b div 2 ^ (32 - n) * 2 ^ (32 - n), unat b div 2 ^ (32 - n) * 2 ^ (32 - n) + 2 ^ (32 - n))"
  using assms unfolding prefix_contains_V4 in_range_def by (subst nat_div_eq_iff) auto

lemma prefix6_range:
  assumes "n \<le> 128"
  shows "prefix_contains \<lparr>pfx_addr = V6 b y, pfx_bits = n\<rparr> (V6 w []) \<longleftrightarrow>
    in_range (unat w) (unat b div 2 ^ (128 - n) * 2 ^ (128 - n), unat b div 2 ^ (128 - n) * 2 ^ (128 - n) + 2 ^ (128 - n))"
  using assms unfolding prefix_contains_V6 in_range_def by (subst nat_div_eq_iff) auto

lemma prefix_other_family [simp]:
  "\<not> prefix_contains \<lparr>pfx_addr = V6 b y, pfx_bits = n\<rparr> (V4 w)" "\<not> prefix_contains \<lparr>pfx_addr = V4 c, pfx_bits = n\<rparr> (V6 u z)"
  by simp_all

lemma drop_bit_range:
  "drop_bit n (w::'a::len word) = numeral k \<longleftrightarrow>
     in_range (unat w) (unat (numeral k :: 'a word) * 2 ^ n, unat (numeral k :: 'a word) * 2 ^ n + 2 ^ n)"
  unfolding drop_bit_numeral_iff in_range_def by (subst nat_div_eq_iff) auto

lemma in_range_subset: "in_range x (a, b) \<Longrightarrow> c \<le> a \<Longrightarrow> b \<le> d \<Longrightarrow> in_range x (c, d)"
  by (simp add: in_range_def)

lemma in_range_zero: "(w::'a::len word) = 0 \<longleftrightarrow> in_range (unat w) (0, 1)"
  by (simp add: in_range_def unat_eq_0)

lemmas range_simps = prefix4_range prefix6_range drop_bit_range
lemmas classifiers = is_loopback_def is_private_def is_link_local_unicast_def is_link_local_multicast_def
  is_unspecified_def is_multicast_def

subsection \<open>IPv4\<close>

lemma tables_V4:
  "inPrefixes (V4 w) documentationPrefixes \<longleftrightarrow> in_ranges (unat w)
     [(0xc0000200, 0xc0000300), (0xc6336400, 0xc6336500), (0xcb007100, 0xcb007200)]"
  "inPrefixes (V4 w) benchmarkPrefixes \<longleftrightarrow> in_ranges (unat w) [(0xc6120000, 0xc6140000)]"
  "inPrefixes (V4 w) specialUsePrefixes \<longleftrightarrow> in_ranges (unat w)
     [(0x0, 0x1000000), (0x64400000, 0x64800000), (0xc0000000, 0xc0000100),
      (0xc0586300, 0xc0586400), (0xf0000000, 0x100000000)]"
  "inPrefixes (V4 w) globallyReachableSpecialPurposePrefixes \<longleftrightarrow> in_ranges (unat w)
     [(0xc0000009, 0xc000000a), (0xc000000a, 0xc000000b)]"
  unfolding inPrefixes_def destination_tables
  by (simp_all add: range_simps del: prefix_contains.simps)

lemma classes_V4:
  "is_loopback (V4 w) \<longleftrightarrow> in_range (unat w) (0x7f000000, 0x80000000)"
  "is_private (V4 w) \<longleftrightarrow> in_ranges (unat w) [(0xa000000, 0xb000000), (0xac100000, 0xac200000), (0xc0a80000, 0xc0a90000)]"
  "is_link_local_unicast (V4 w) \<longleftrightarrow> in_range (unat w) (0xa9fe0000, 0xa9ff0000)"
  "is_link_local_multicast (V4 w) \<longleftrightarrow> in_range (unat w) (0xe0000000, 0xe0000100)"
  "is_unspecified (V4 w) \<longleftrightarrow> in_range (unat w) (0, 1)"
  "is_multicast (V4 w) \<longleftrightarrow> in_range (unat w) (0xe0000000, 0xf0000000)"
  by (simp_all add: classifiers drop_bit_range in_range_zero)

lemma global_unicast_V4:
  "is_global_unicast (V4 w) \<longleftrightarrow> \<not> (in_range (unat w) (0, 1) \<or> unat w = 0xffffffff \<or> is_loopback (V4 w)
     \<or> is_multicast (V4 w) \<or> is_link_local_unicast (V4 w))"
proof -
  have "w = 0xffffffff \<longleftrightarrow> unat w = 0xffffffff" by (simp add: word_unat_eq_iff)
  then show ?thesis by (simp add: is_global_unicast_def Let_def in_range_zero)
qed

lemma classify_V4: "classify (V4 w) = None \<longleftrightarrow> public4 (unat w)"
proof (cases "in_ranges (unat w) reachable4")
  case True
  then have "unat w = 0xc0000009 \<or> unat w = 0xc000000a" by (auto simp: reachable4_def in_range_def)
  then show ?thesis unfolding classify_def tables_V4 classes_V4 public4_def
    by (elim disjE) (simp_all add: in_range_def reachable4_def)
next
  case False
  then have no: "\<not> in_range (unat w) (0xc0000009, 0xc000000a)" "\<not> in_range (unat w) (0xc000000a, 0xc000000b)"
    by (auto simp: in_range_def reachable4_def)
  have sub: "in_range (unat w) (0, 1) \<Longrightarrow> in_range (unat w) (0, 0x1000000)"
    "in_range (unat w) (0xe0000000, 0xe0000100) \<Longrightarrow> in_range (unat w) (0xe0000000, 0xf0000000)"
    "unat w = 0xffffffff \<Longrightarrow> in_range (unat w) (0xf0000000, 0x100000000)"
    by (simp_all add: in_range_def)
  show ?thesis unfolding classify_def tables_V4 classes_V4 global_unicast_V4 public4_def using False no sub
    by (simp add: blocked4_def)
qed

subsection \<open>IPv6 without a zone\<close>

lemma tables_V6:
  "inPrefixes (V6 w []) documentationPrefixes \<longleftrightarrow> in_ranges (unat w)
     [(0x20010db8000000000000000000000000, 0x20010db9000000000000000000000000),
      (0x3fff0000000000000000000000000000, 0x3fff1000000000000000000000000000)]"
  "inPrefixes (V6 w []) benchmarkPrefixes \<longleftrightarrow> in_range (unat w) (0x20010002000000000000000000000000, 0x20010002000100000000000000000000)"
  "inPrefixes (V6 w []) specialUsePrefixes \<longleftrightarrow> in_ranges (unat w)
     [(0x64ff9b000100000000000000000000, 0x64ff9b000200000000000000000000),
      (0x1000000000000000000000000000000, 0x1000000000000010000000000000000),
      (0x1000000000000010000000000000000, 0x1000000000000020000000000000000),
      (0x20010000000000000000000000000000, 0x20010200000000000000000000000000),
      (0x20010010000000000000000000000000, 0x20010020000000000000000000000000),
      (0x20020000000000000000000000000000, 0x20030000000000000000000000000000),
      (0x5f000000000000000000000000000000, 0x5f010000000000000000000000000000)]"
  "inPrefixes (V6 w []) globallyReachableSpecialPurposePrefixes \<longleftrightarrow> in_ranges (unat w) reachable6"
  "prefix_contains wellKnownNAT64Prefix (V6 w []) \<longleftrightarrow> in_range (unat w) nat64_range"
  unfolding inPrefixes_def destination_tables reachable6_def nat64_range_def
  by (simp_all add: range_simps del: prefix_contains.simps)

lemma classes_V6:
  assumes "\<not> is_4in6 w"
  shows "is_loopback (V6 w []) \<longleftrightarrow> in_range (unat w) (1, 2)"
    "is_private (V6 w []) \<longleftrightarrow> in_range (unat w) (0xfc000000000000000000000000000000, 0xfe000000000000000000000000000000)"
    "is_link_local_unicast (V6 w []) \<longleftrightarrow> in_range (unat w) (0xfe800000000000000000000000000000, 0xfec00000000000000000000000000000)"
    "is_unspecified (V6 w []) \<longleftrightarrow> in_range (unat w) (0, 1)"
    "is_multicast (V6 w []) \<longleftrightarrow> in_range (unat w) (0xff000000000000000000000000000000, 0x100000000000000000000000000000000)"
proof -
  have "w = 1 \<longleftrightarrow> unat w = 1" by (metis unsigned_1 unsigned_word_eqI)
  then show "is_loopback (V6 w []) \<longleftrightarrow> in_range (unat w) (1, 2)"
    using assms by (auto simp: is_loopback_def in_range_def)
qed (use assms in \<open>simp_all add: classifiers drop_bit_range in_range_zero\<close>)

lemma link_local_multicast_V6:
  assumes "\<not> is_4in6 w" "is_link_local_multicast (V6 w z)"
  shows "is_multicast (V6 w z)"
proof -
  have and_eq: "drop_bit 112 w AND 0xff0f = 0xff02" using assms by (simp add: is_link_local_multicast_def)
  have "drop_bit 120 w AND 0xff = drop_bit 8 (drop_bit 112 w AND 0xff0f)"
    by (simp add: drop_bit_and drop_bit_numeral_bit1)
  also have "\<dots> = 0xff" by (simp add: and_eq)
  finally have "take_bit 8 (drop_bit 120 w) = 0xff" by (simp add: take_bit_eq_mask mask_eq_exp_minus_1)
  moreover have "take_bit 8 (drop_bit 120 w) = drop_bit 120 w"
    by (rule bit_word_eqI) (auto simp: bit_simps dest: bit_imp_le_length)
  ultimately show ?thesis using assms(1) by (simp add: is_multicast_def)
qed

lemma global_unicast_V6:
  "\<not> is_4in6 w \<Longrightarrow> is_global_unicast (V6 w []) \<longleftrightarrow> \<not> (in_range (unat w) (0, 1) \<or> is_loopback (V6 w [])
     \<or> is_multicast (V6 w []) \<or> is_link_local_unicast (V6 w []))"
  by (simp add: is_global_unicast_def Let_def in_range_zero)

lemma in_range_disjoint: "in_range x (a, b) \<Longrightarrow> b \<le> c \<or> d \<le> a \<Longrightarrow> \<not> in_range x (c, d)"
  by (auto simp: in_range_def)

lemma reachable6_special:
  assumes "in_ranges x reachable6"
  shows "in_range x (0x20010001000000000000000000000001, 0x20010040000000000000000000000000)"
    "\<not> in_range x (0x20010002000000000000000000000000, 0x20010002000100000000000000000000)"
  using assms unfolding reachable6_def by (auto elim: in_range_subset) (auto simp: in_range_def)

lemma classify_V6:
  assumes "\<not> is_4in6 w"
  shows "classify (V6 w []) = None \<longleftrightarrow> in_ranges (unat w) reachable6 \<or> \<not> in_ranges (unat w) blocked6"
proof (cases "in_ranges (unat w) reachable6")
  case True
  note R = reachable6_special [OF True]
  note far = in_range_disjoint [OF R(1)]
  have "\<not> is_link_local_multicast (V6 w [])"
    using link_local_multicast_V6 [OF assms, of "[]"] far classes_V6(5) [OF assms] by auto
  with True R(2) show ?thesis
    unfolding classify_def tables_V6 classes_V6 [OF assms] by (simp add: far)
next
  case False
  have sub: "in_range (unat w) (0x20010002000000000000000000000000, 0x20010002000100000000000000000000) \<Longrightarrow> in_range (unat w) (0x20010000000000000000000000000000, 0x20010200000000000000000000000000)"
    by (erule in_range_subset) simp_all
  have "is_link_local_multicast (V6 w []) \<Longrightarrow> in_range (unat w) (0xff000000000000000000000000000000, 0x100000000000000000000000000000000)"
    using link_local_multicast_V6 [OF assms, of "[]"] classes_V6(5) [OF assms] by auto
  with False sub show ?thesis
    unfolding classify_def tables_V6 classes_V6 [OF assms] global_unicast_V6 [OF assms] by (simp add: blocked6_def)
qed

section \<open>Properties\<close>

fun public_address :: "addr \<Rightarrow> bool" where
  "public_address (V4 w) = public4 (unat w)"
| "public_address (V6 w _) = public6 (unat w)"
| "public_address NoAddr = False"

lemma Check_V4: "dd_Allowed (Check (V4 w) port) \<longleftrightarrow> (port = 80 \<or> port = 443) \<and> public4 (unat w)"
  by (subst Check.simps) (auto simp: classify_V4 [symmetric] nat64_prefix Let_def split: option.splits)

lemma Check_V6:
  assumes "\<not> is_4in6 w"
  shows "dd_Allowed (Check (V6 w []) port) \<longleftrightarrow> (port = 80 \<or> port = 443) \<and> public6 (unat w)"
proof -
  have mod: "unat (ucast w :: 32 word) = unat w mod 2 ^ 32"
    by (simp add: unsigned_ucast_eq take_bit_eq_mod)
  show ?thesis
    unfolding Check.simps [of "V6 w []"] using assms
    by (auto simp: tables_V6(5) embedded_ip4_def Check_V4 mod public6_def classify_V6 [symmetric] Let_def split: option.splits
        simp del: prefix_contains.simps)
qed

text \<open>C1: An address without a zone, with an IPv4-mapped address read as its IPv4 address, is
  allowed exactly on ports 80 and 443 and outside the special-purpose blocks of the IANA
  registries, up to the globally reachable exceptions; behind the NAT64 prefix the embedded
  IPv4 address must be public too. So no loopback, private, link-local, multicast,
  documentation or benchmark address is ever dialled.\<close>

theorem destination_allowed_iff:
  assumes "zone address = []"
  shows "dd_Allowed (Check address port) \<longleftrightarrow> (port = 80 \<or> port = 443) \<and> public_address (unmap address)"
proof (cases address)
  case (V6 w z)
  with assms have z: "address = V6 w []" by simp
  show ?thesis
  proof (cases "is_4in6 w")
    case True
    then have "Check (V6 w []) port = Check (V4 (ucast w)) port" by (simp add: Check.simps [of "V6 w []"] Check.simps [of "V4 (ucast w)"] nat64_prefix)
    with True z show ?thesis by (simp add: Check_V4)
  qed (use z Check_V6 in simp)
qed (simp_all add: Check_V4 Check.simps [of NoAddr])

theorem destination_allowed_iff_witness:
  "zone (V6 0x0064ff9b00000000000000007f000001 []) = []
   \<and> \<not> dd_Allowed (Check (V6 0x0064ff9b00000000000000007f000001 []) 443)"
  using destination_allowed_iff [of "V6 0x0064ff9b00000000000000007f000001 []" 443]
  by (simp add: is_4in6_def public6_def public4_def nat64_range_def in_range_def reachable4_def blocked4_def)

text \<open>The address filter of the HTTP collector keeps exactly the allowed addresses, read as
  IPv4 where they are IPv4-mapped, each once, and reports whether any address was refused.\<close>

lemma approved_addresses_correct:
  "distinct (fst (approvedAddresses as port))
   \<and> set (fst (approvedAddresses as port)) = {unmap a | a. a \<in> set as \<and> dd_Allowed (Check (unmap a) port)}
   \<and> (snd (approvedAddresses as port) \<longleftrightarrow> \<not> list_all (\<lambda>a. dd_Allowed (Check (unmap a) port)) as)"
proof -
  have "distinct ap \<Longrightarrow> distinct (fst (approved_loop port as ap b))
     \<and> set (fst (approved_loop port as ap b)) = set ap \<union> {unmap a | a. a \<in> set as \<and> dd_Allowed (Check (unmap a) port)}
     \<and> (snd (approved_loop port as ap b) \<longleftrightarrow> b \<or> \<not> list_all (\<lambda>a. dd_Allowed (Check (unmap a) port)) as)" for ap b
    by (induction as arbitrary: ap b) (auto simp: Let_def)
  from this [of "[]" False] show ?thesis by (simp add: approvedAddresses_def)
qed

text \<open>The hypothesis on the zone is needed: no prefix contains a zoned address, so a
  documentation address with a zone, or a loopback address behind NAT64 with a zone, passes
  the policy although the same address without the zone is refused.\<close>

lemma zoned_address_allowed:
  "dd_Allowed (Check (V6 0x20010db8000000000000000000000001 ''eth0'') 443)
   \<and> \<not> dd_Allowed (Check (V6 0x20010db8000000000000000000000001 []) 443)
   \<and> dd_Allowed (Check (V6 0x0064ff9b00000000000000007f000001 ''eth0'') 443)
   \<and> \<not> dd_Allowed (Check (V6 0x0064ff9b00000000000000007f000001 []) 443)"
proof -
  have zoned: "dd_Allowed (Check (V6 w ''eth0'') 443)" if "w = 0x20010db8000000000000000000000001 \<or> w = 0x0064ff9b00000000000000007f000001" for w
    using that
    by (elim disjE) (simp_all add: Check.simps [of "V6 w z" for w z] classify_def classifiers is_global_unicast_def
        is_4in6_def nat64_prefix destination_tables inPrefixes_def Let_def)
  show ?thesis
    by (simp add: zoned Check_V6 is_4in6_def public6_def public4_def nat64_range_def in_range_def reachable4_def blocked4_def
        reachable6_def blocked6_def)
qed

end
