(* ===== verification/Dns_Base.thy ===== *)
theory Dns_Base
  imports Policy_Budget Policy_Destination
begin

text \<open>
  Package internal/collect/dns, shared parts of client.go, collector.go, graph.go and job.go, and
  internal/model/identity.go: outcomes and error codes of a query, observations and their
  identifiers, the names of the graph.

  JSON encoding, SHA-256 and the Timeout method of a network error are the fields of
  \<open>dns_env\<close>.
\<close>

section \<open>Observation identifiers\<close>

record occurrence =
  oc_CollectionRunID :: string
  oc_Seed :: string
  oc_SeedIndex :: int
  oc_RequestIndex :: int
  oc_Hop :: int
  oc_Attempt :: int
  oc_ItemIndex :: int

record dns_env =
  de_unmarshal :: "json_value \<Rightarrow> dns_payload option"
  de_marshal :: "dns_payload \<Rightarrow> json_value"
  de_hash :: "string \<times> occurrence \<times> string list \<Rightarrow> string"
  de_net_timeout :: "go_error \<Rightarrow> bool"

definition ObservationID :: "dns_env \<Rightarrow> string \<Rightarrow> occurrence \<Rightarrow> string list \<Rightarrow> string" where
  "ObservationID E kind oc attributes = kind @ ''-'' @ de_hash E (kind, oc, attributes)"

text \<open>What an identifier is computed from.\<close>

type_synonym key = "string \<times> occurrence \<times> string list"

definition key_id :: "dns_env \<Rightarrow> key \<Rightarrow> string" where
  "key_id E key = (case key of (kind, oc, attributes) \<Rightarrow> ObservationID E kind oc attributes)"

section \<open>Outcomes and errors\<close>

fun outcome_string :: "dns_outcome \<Rightarrow> string" where
  "outcome_string OutcomeUnset = []"
| "outcome_string Answered = ''answered''"
| "outcome_string NoData = ''nodata''"
| "outcome_string NXDomain = ''nxdomain''"
| "outcome_string SERVFAIL = ''servfail''"
| "outcome_string Refused = ''refused''"
| "outcome_string TimedOut = ''timeout''"
| "outcome_string OutcomeCancelled = ''cancelled''"
| "outcome_string BudgetExhausted = ''budget_exhausted''"
| "outcome_string OutcomeFailed = ''failed''"

fun reason_string :: "reason \<Rightarrow> string" where
  "reason_string ReasonNone = []"
| "reason_string ReasonInvalid = ''invalid''"
| "reason_string ReasonPort = ''forbidden_port''"
| "reason_string ReasonLoopback = ''loopback''"
| "reason_string ReasonPrivate = ''private''"
| "reason_string ReasonLinkLocal = ''link_local''"
| "reason_string ReasonUnspecified = ''unspecified''"
| "reason_string ReasonMulticast = ''multicast''"
| "reason_string ReasonDocumentation = ''documentation''"
| "reason_string ReasonBenchmark = ''benchmark''"
| "reason_string ReasonSpecialUse = ''special_use''"

definition outcomeForError :: "dns_env \<Rightarrow> go_error option \<Rightarrow> dns_outcome" where
  "outcomeForError E err =
     (case err of
        None \<Rightarrow> OutcomeFailed
      | Some e \<Rightarrow>
          if errors_is e DeadlineExceeded then TimedOut
          else if errors_is e ContextCanceled then OutcomeCancelled
          else if ErrorCodeOf err = CodeBudgetExceeded then BudgetExhausted
          else if ErrorCodeOf err = CodeCancelled then OutcomeCancelled
          else if de_net_timeout E e then TimedOut
          else OutcomeFailed)"

definition errorCode :: "dns_env \<Rightarrow> go_error \<Rightarrow> error_code" where
  "errorCode E e =
     (if errors_is e DeadlineExceeded then CodeTimeout
      else if errors_is e ContextCanceled then CodeCancelled
      else if ErrorCodeOf (Some e) \<noteq> CodeNone then ErrorCodeOf (Some e)
      else if de_net_timeout E e then CodeTimeout
      else CodeCollectionFailed)"

definition normalizeOutcome :: "dns_env \<Rightarrow> dns_result \<Rightarrow> go_error option \<Rightarrow> dns_outcome" where
  "normalizeOutcome E result err =
     (if dr_Outcome result \<noteq> OutcomeUnset then dr_Outcome result
      else if err \<noteq> None then outcomeForError E err
      else if dr_ResponseCode result = 0
      then (if dr_Records result = [] \<and> dr_Addresses result = [] then NoData else Answered)
      else if dr_ResponseCode result = 2 then SERVFAIL
      else if dr_ResponseCode result = 3 then NXDomain
      else if dr_ResponseCode result = 5 then Refused
      else OutcomeFailed)"

definition dnsOutcomeCompleted :: "dns_outcome \<Rightarrow> bool" where
  "dnsOutcomeCompleted outcome = (outcome = Answered \<or> outcome = NoData \<or> outcome = NXDomain)"

abbreviation typeA :: "16 word" where "typeA \<equiv> 1"
abbreviation typeNS :: "16 word" where "typeNS \<equiv> 2"
abbreviation typeCNAME :: "16 word" where "typeCNAME \<equiv> 5"
abbreviation typeSOA :: "16 word" where "typeSOA \<equiv> 6"
abbreviation typeMX :: "16 word" where "typeMX \<equiv> 15"
abbreviation typeTXT :: "16 word" where "typeTXT \<equiv> 16"
abbreviation typeAAAA :: "16 word" where "typeAAAA \<equiv> 28"

definition questionTypes :: "16 word list" where
  "questionTypes = [typeA, typeAAAA, typeCNAME, typeMX, typeNS, typeTXT]"

definition typeName :: "16 word \<Rightarrow> string" where
  "typeName value =
     (if value = typeA then ''A'' else if value = typeAAAA then ''AAAA''
      else if value = typeCNAME then ''CNAME'' else if value = typeSOA then ''SOA''
      else if value = typeMX then ''MX'' else if value = typeNS then ''NS''
      else if value = typeTXT then ''TXT''
      else ''TYPE'' @ nat_string (unat value))"

section \<open>Names of the graph\<close>

definition graph_char :: "char \<Rightarrow> bool" where
  "graph_char c = (is_lower_letter c \<or> is_digit c \<or> c = CHR ''-'')"

definition normalizedGraphName :: "string \<Rightarrow> string" where
  "normalizedGraphName value =
     (let name = to_lower (trim_suffix value ''.'') in
      if name = [] \<or> length name > 253 then []
      else if list_ex (\<lambda>label. label = [] \<or> length label > 63 \<or> hd label = CHR ''-'' \<or> last label = CHR ''-''
                        \<or> \<not> list_all graph_char label) (split_on CHR ''.'' name)
      then [] else name)"

definition cnameDestination :: "dns_env \<Rightarrow> observation \<Rightarrow> string" where
  "cnameDestination E ob =
     (if ob_Type ob \<noteq> ''dns_record'' \<or> ob_Status ob \<noteq> ''answered'' then []
      else case de_unmarshal E (ob_Payload ob) of
          None \<Rightarrow> []
        | Some payload \<Rightarrow> if \<not> equal_fold (dp_RRType payload) ''CNAME'' then []
                          else normalizedGraphName (dp_Value payload))"

definition hasRecord :: "dns_env \<Rightarrow> dns_result \<Rightarrow> string \<Rightarrow> string \<Rightarrow> bool" where
  "hasRecord E result owner rrtype =
     (normalizeOutcome E result None = Answered
      \<and> list_ex (\<lambda>ob. case de_unmarshal E (ob_Payload ob) of
            None \<Rightarrow> False
          | Some payload \<Rightarrow> equal_fold (dp_RRType payload) rrtype \<and> normalizedGraphName (dp_Owner payload) = owner)
          (dr_Records result))"

definition hasSOARecord :: "dns_env \<Rightarrow> dns_result \<Rightarrow> string \<Rightarrow> bool" where
  "hasSOARecord E result owner = hasRecord E result owner ''SOA''"

definition hasNSRecord :: "dns_env \<Rightarrow> dns_result \<Rightarrow> string \<Rightarrow> bool" where
  "hasNSRecord E result owner = hasRecord E result owner ''NS''"

section \<open>Observations\<close>

definition zero_payload :: dns_payload where
  "zero_payload = \<lparr>dp_RRType = [], dp_Owner = [], dp_Outcome = OutcomeUnset, dp_Value = [], dp_Address = NoAddr,
     dp_TTL = 0, dp_Section = [], dp_ResponseCode = 0, dp_Resolver = [], dp_Transport = [], dp_PolicyReason = []\<rparr>"

definition queryObservation ::
    "dns_env \<Rightarrow> string \<Rightarrow> dns_question \<Rightarrow> dns_outcome \<Rightarrow> dns_result \<Rightarrow> string \<Rightarrow> occurrence \<Rightarrow> gotime \<Rightarrow> observation" where
  "queryObservation E hostname question outcome result why oc observedAt =
     \<lparr>ob_ID = ObservationID E ''dns-query'' oc [hostname, nat_string (unat (q_Type question))],
      ob_Type = ''dns_query'', ob_Subject = hostname, ob_Relation = [], ob_Scope = ScopeRoot,
      ob_ObservedAt = observedAt, ob_CollectorVersion = [], ob_Status = outcome_string outcome,
      ob_Payload = de_marshal E (zero_payload\<lparr>dp_RRType := typeName (q_Type question), dp_Owner := hostname,
        dp_Outcome := outcome, dp_ResponseCode := dr_ResponseCode result, dp_Resolver := dr_Resolver result,
        dp_Transport := dr_Transport result, dp_PolicyReason := why\<rparr>),
      ob_ContentHash = []\<rparr>"

record address_details =
  ad_owner :: string
  ad_rrtype :: string
  ad_ttl :: "32 word"
  ad_section :: string
  ad_observedAt :: gotime

text \<open>The scan for the \<open>n\<close>th record with a valid address.\<close>

fun address_scan :: "dns_env \<Rightarrow> address_details \<Rightarrow> nat \<Rightarrow> observation list \<Rightarrow> address_details" where
  "address_scan E details n [] = details"
| "address_scan E details n (ob # obs) =
     (case de_unmarshal E (ob_Payload ob) of
        None \<Rightarrow> address_scan E details n obs
      | Some payload \<Rightarrow>
          if \<not> addr_valid (dp_Address payload) then address_scan E details n obs
          else if n = 0 then
            \<lparr>ad_owner = (let owner = normalizedGraphName (dp_Owner payload) in if owner \<noteq> [] then owner else ad_owner details),
             ad_rrtype = (if dp_RRType payload = ''A'' \<or> dp_RRType payload = ''AAAA'' then dp_RRType payload else ad_rrtype details),
             ad_ttl = dp_TTL payload, ad_section = dp_Section payload,
             ad_observedAt = (if ob_ObservedAt ob \<noteq> 0 then ob_ObservedAt ob else ad_observedAt details)\<rparr>
          else address_scan E details (n - 1) obs)"

definition addressRecord :: "dns_env \<Rightarrow> dns_result \<Rightarrow> nat \<Rightarrow> string \<Rightarrow> gotime \<Rightarrow> address_details" where
  "addressRecord E result addressIndex fallback observedAt =
     address_scan E \<lparr>ad_owner = fallback, ad_rrtype = typeName (q_Type (dr_Question result)), ad_ttl = 0, ad_section = [],
       ad_observedAt = observedAt\<rparr> addressIndex (dr_Records result)"

end
