(* ===== verification/Dns_Job.thy ===== *)
theory Dns_Job
  imports Dns_Base
begin

text \<open>
  Package internal/collect/dns, job.go: the query cache of one analysis job, shared by concurrent
  goroutines.

  A cached query is a cell that starts pending and is filled once, when its channel \<open>ready\<close> is
  closed; cells are numbered in the order of their creation and the map of the job holds numbers. A
  call of \<open>query\<close> is cut where other goroutines can run: before it takes the lock, while it waits
  for another call's cell, and while it asks the resolver. The resolver may answer anything.
\<close>

section \<open>The cache\<close>

record query_reply =
  rp_Result :: dns_result
  rp_ObservedAt :: gotime
  rp_FromCache :: bool
  rp_Err :: "go_error option"

record cached_query =
  cq_result :: dns_result
  cq_err :: "go_error option"
  cq_observedAt :: gotime
  cq_expiresAt :: gotime

record dns_job =
  dj_cells :: "cached_query option list"
  dj_queries :: "dns_question \<rightharpoonup> nat"
  dj_used :: int
  dj_limit :: int

definition NewJob :: "limits \<Rightarrow> dns_job" where
  "NewJob l = \<lparr>dj_cells = [], dj_queries = Map.empty, dj_used = 0,
     dj_limit = (if li_DNSQuestions l \<le> 0 then li_DNSQuestions DefaultLimits else li_DNSQuestions l)\<rparr>"

definition normalize_question :: "dns_question \<Rightarrow> dns_question" where
  "normalize_question question =
     (let normalized = normalizedGraphName (q_Name question) in
      if normalized \<noteq> [] then question\<lparr>q_Name := normalized\<rparr> else question)"

definition empty_result :: "dns_question \<Rightarrow> dns_outcome \<Rightarrow> dns_result" where
  "empty_result question outcome =
     \<lparr>dr_Question = question, dr_Attempt = 0, dr_Outcome = outcome, dr_ResponseCode = 0, dr_Transport = [], dr_Resolver = [],
      dr_Records = [], dr_Addresses = [], dr_NegativeTTL = 0, dr_Omitted = 0\<rparr>"

fun min_record_ttl :: "dns_env \<Rightarrow> 32 word \<Rightarrow> observation list \<Rightarrow> 32 word" where
  "min_record_ttl E ttl [] = ttl"
| "min_record_ttl E ttl (ob # obs) =
     (case de_unmarshal E (ob_Payload ob) of
        None \<Rightarrow> 0
      | Some payload \<Rightarrow>
          if dp_TTL payload = 0 then 0
          else min_record_ttl E (if ttl = 0 \<or> dp_TTL payload < ttl then dp_TTL payload else ttl) obs)"

definition cacheTTL :: "dns_env \<Rightarrow> dns_result \<Rightarrow> go_error option \<Rightarrow> 32 word" where
  "cacheTTL E result err =
     (if err \<noteq> None then 0
      else case normalizeOutcome E result None of
          NoData \<Rightarrow> dr_NegativeTTL result
        | NXDomain \<Rightarrow> dr_NegativeTTL result
        | Answered \<Rightarrow> (if dr_Records result = [] then 0 else min_record_ttl E 0 (dr_Records result))
        | _ \<Rightarrow> 0)"

section \<open>The sections of a query\<close>

text \<open>Before the lock: a finished context ends the call.\<close>

definition query_enter :: "dns_env \<Rightarrow> go_error option \<Rightarrow> gotime \<Rightarrow> dns_question \<Rightarrow> query_reply option" where
  "query_enter E ctx now question =
     (case ctx of
        None \<Rightarrow> None
      | Some e \<Rightarrow> Some \<lparr>rp_Result = empty_result question (outcomeForError E ctx), rp_ObservedAt = now,
                    rp_FromCache = False, rp_Err = ctx\<rparr>)"

datatype lookup = Hit query_reply | Expired | Pending nat | Exhausted query_reply | Reserved nat

text \<open>Under the lock: a fresh cell answers, an expired one is dropped and the loop runs again, a
  pending one is waited for; without a cell one is created if the budget has a question left.\<close>

definition query_lookup :: "gotime \<Rightarrow> dns_question \<Rightarrow> dns_job \<Rightarrow> lookup \<times> dns_job" where
  "query_lookup now question j =
     (case dj_queries j question of
        Some c \<Rightarrow>
          (case dj_cells j ! c of
             Some cell \<Rightarrow>
               if \<not> cq_expiresAt cell > now then (Expired, j\<lparr>dj_queries := (dj_queries j)(question := None)\<rparr>)
               else (Hit \<lparr>rp_Result = cq_result cell, rp_ObservedAt = cq_observedAt cell, rp_FromCache = True,
                       rp_Err = cq_err cell\<rparr>, j)
           | None \<Rightarrow> (Pending c, j))
      | None \<Rightarrow>
          if dj_used j \<ge> dj_limit j then
            (Exhausted \<lparr>rp_Result = empty_result question BudgetExhausted, rp_ObservedAt = now, rp_FromCache = False,
               rp_Err = Some (NewError CodeBudgetExceeded ''DNS question budget exhausted'' None)\<rparr>, j)
          else (Reserved (length (dj_cells j)),
                j\<lparr>dj_cells := dj_cells j @ [None], dj_queries := (dj_queries j)(question \<mapsto> length (dj_cells j)),
                  dj_used := dj_used j + 1\<rparr>))"

text \<open>Waiting for another call: its answer, or the end of the own context.\<close>

definition query_wait :: "dns_env \<Rightarrow> go_error option \<Rightarrow> gotime \<Rightarrow> dns_question \<Rightarrow> nat \<Rightarrow> dns_job \<Rightarrow> query_reply option" where
  "query_wait E ctx now question c j =
     (case ctx of
        Some e \<Rightarrow> Some \<lparr>rp_Result = empty_result question (outcomeForError E ctx), rp_ObservedAt = now,
                    rp_FromCache = True, rp_Err = ctx\<rparr>
      | None \<Rightarrow>
          (case dj_cells j ! c of
             None \<Rightarrow> None
           | Some cell \<Rightarrow> Some \<lparr>rp_Result = cq_result cell, rp_ObservedAt = cq_observedAt cell, rp_FromCache = True,
                             rp_Err = cq_err cell\<rparr>))"

text \<open>The answer of the resolver fills the cell.\<close>

definition answered_result :: "dns_question \<Rightarrow> dns_result \<Rightarrow> dns_result" where
  "answered_result question result =
     (if q_Name (dr_Question result) = [] then result\<lparr>dr_Question := question\<rparr> else result)"

definition query_fill ::
    "dns_env \<Rightarrow> dns_result \<Rightarrow> go_error option \<Rightarrow> gotime \<Rightarrow> dns_question \<Rightarrow> nat \<Rightarrow> dns_job \<Rightarrow> query_reply \<times> dns_job" where
  "query_fill E result err observedAt question c j =
     (let result = answered_result question result;
          ttl = cacheTTL E result err;
          expiresAt = (if ttl > 0 then observedAt + int (unat ttl) * second else 0)
      in (\<lparr>rp_Result = result, rp_ObservedAt = observedAt, rp_FromCache = False, rp_Err = err\<rparr>,
          j\<lparr>dj_cells := (dj_cells j)[c := Some \<lparr>cq_result = result, cq_err = err, cq_observedAt = observedAt,
                                           cq_expiresAt = expiresAt\<rparr>]\<rparr>))"

section \<open>Concurrent calls\<close>

datatype query_phase = Entering | Looking | Waiting nat | Fetching nat | Finished query_reply

record query_call =
  qc_question :: dns_question
  qc_phase :: query_phase

text \<open>The calls made so far and the answers the resolver gave, in order.\<close>

record job_system =
  js_job :: dns_job
  js_calls :: "query_call list"
  js_answers :: "(dns_question \<times> dns_result \<times> go_error option) list"

definition set_phase :: "nat \<Rightarrow> query_phase \<Rightarrow> job_system \<Rightarrow> job_system" where
  "set_phase k phase s = s\<lparr>js_calls := (js_calls s)[k := (js_calls s ! k)\<lparr>qc_phase := phase\<rparr>]\<rparr>"

definition after_lookup :: "lookup \<Rightarrow> query_phase" where
  "after_lookup r =
     (case r of Hit reply \<Rightarrow> Finished reply | Expired \<Rightarrow> Looking | Pending c \<Rightarrow> Waiting c
      | Exhausted reply \<Rightarrow> Finished reply | Reserved c \<Rightarrow> Fetching c)"

inductive job_step :: "dns_env \<Rightarrow> job_system \<Rightarrow> job_system \<Rightarrow> bool" for E where
  start: "job_step E s (s\<lparr>js_calls := js_calls s @ [\<lparr>qc_question = normalize_question q, qc_phase = Entering\<rparr>]\<rparr>)"
| enter: "k < length (js_calls s) \<Longrightarrow> qc_phase (js_calls s ! k) = Entering \<Longrightarrow>
    job_step E s (set_phase k (case query_enter E ctx now (qc_question (js_calls s ! k)) of
       None \<Rightarrow> Looking | Some reply \<Rightarrow> Finished reply) s)"
| look: "k < length (js_calls s) \<Longrightarrow> qc_phase (js_calls s ! k) = Looking \<Longrightarrow> 0 \<le> now \<Longrightarrow>
    query_lookup now (qc_question (js_calls s ! k)) (js_job s) = (r, j) \<Longrightarrow>
    job_step E s ((set_phase k (after_lookup r) s)\<lparr>js_job := j\<rparr>)"
| wait: "k < length (js_calls s) \<Longrightarrow> qc_phase (js_calls s ! k) = Waiting c \<Longrightarrow>
    query_wait E ctx now (qc_question (js_calls s ! k)) c (js_job s) = Some reply \<Longrightarrow>
    job_step E s (set_phase k (Finished reply) s)"
| fill: "k < length (js_calls s) \<Longrightarrow> qc_phase (js_calls s ! k) = Fetching c \<Longrightarrow>
    query_fill E result err now (qc_question (js_calls s ! k)) c (js_job s) = (reply, j) \<Longrightarrow>
    job_step E s ((set_phase k (Finished reply) s)\<lparr>js_job := j,
       js_answers := js_answers s @ [(qc_question (js_calls s ! k), rp_Result reply, err)]\<rparr>)"

definition job_start :: "limits \<Rightarrow> job_system" where
  "job_start l = \<lparr>js_job = NewJob l, js_calls = [], js_answers = []\<rparr>"

section \<open>The invariant\<close>

abbreviation phase_of :: "job_system \<Rightarrow> nat \<Rightarrow> query_phase" where
  "phase_of s k \<equiv> qc_phase (js_calls s ! k)"

abbreviation question_of :: "job_system \<Rightarrow> nat \<Rightarrow> dns_question" where
  "question_of s k \<equiv> qc_question (js_calls s ! k)"

definition fetching :: "query_call \<Rightarrow> int" where
  "fetching call = (case qc_phase call of Fetching c \<Rightarrow> 1 | _ \<Rightarrow> 0)"

text \<open>Every cell was paid for, is fetched or answered, and belongs to one question.\<close>

definition cells_paid :: "job_system \<Rightarrow> bool" where
  "cells_paid s \<longleftrightarrow> dj_used (js_job s) = int (length (dj_cells (js_job s)))
     \<and> dj_used (js_job s) \<le> dj_limit (js_job s)
     \<and> total fetching (js_calls s) + int (length (js_answers s)) = dj_used (js_job s)"

definition cells_owned :: "job_system \<Rightarrow> bool" where
  "cells_owned s \<longleftrightarrow>
     (\<forall>q c. dj_queries (js_job s) q = Some c \<longrightarrow> c < length (dj_cells (js_job s)))
     \<and> (\<forall>q q' c. dj_queries (js_job s) q = Some c \<longrightarrow> dj_queries (js_job s) q' = Some c \<longrightarrow> q = q')
     \<and> (\<forall>q c cell. dj_queries (js_job s) q = Some c \<longrightarrow> dj_cells (js_job s) ! c = Some cell \<longrightarrow>
          (q, cq_result cell, cq_err cell) \<in> set (js_answers s))"

definition fetches_single :: "job_system \<Rightarrow> bool" where
  "fetches_single s \<longleftrightarrow>
     (\<forall>k c. k < length (js_calls s) \<longrightarrow> phase_of s k = Fetching c \<longrightarrow>
          c < length (dj_cells (js_job s)) \<and> dj_cells (js_job s) ! c = None \<and> dj_queries (js_job s) (question_of s k) = Some c)
     \<and> (\<forall>k k' c. k < length (js_calls s) \<longrightarrow> k' < length (js_calls s) \<longrightarrow>
          phase_of s k = Fetching c \<longrightarrow> phase_of s k' = Fetching c \<longrightarrow> k = k')
     \<and> (\<forall>c < length (dj_cells (js_job s)). dj_cells (js_job s) ! c = None \<longrightarrow>
          (\<exists>k < length (js_calls s). phase_of s k = Fetching c))"

definition waits_served :: "job_system \<Rightarrow> bool" where
  "waits_served s \<longleftrightarrow>
     (\<forall>k c. k < length (js_calls s) \<longrightarrow> phase_of s k = Waiting c \<longrightarrow> c < length (dj_cells (js_job s))
        \<and> (dj_cells (js_job s) ! c = None \<longrightarrow> dj_queries (js_job s) (question_of s k) = Some c)
        \<and> (\<forall>cell. dj_cells (js_job s) ! c = Some cell \<longrightarrow> (question_of s k, cq_result cell, cq_err cell) \<in> set (js_answers s)))"

definition replies_true :: "job_system \<Rightarrow> bool" where
  "replies_true s \<longleftrightarrow>
     (\<forall>k r. k < length (js_calls s) \<longrightarrow> phase_of s k = Finished r \<longrightarrow> rp_Err r = None \<longrightarrow>
        (question_of s k, rp_Result r, None) \<in> set (js_answers s))"

lemmas job_invariants = cells_paid_def cells_owned_def fetches_single_def waits_served_def replies_true_def

definition job_inv :: "job_system \<Rightarrow> bool" where
  "job_inv s \<longleftrightarrow> cells_paid s \<and> cells_owned s \<and> fetches_single s \<and> waits_served s \<and> replies_true s"

lemma set_phase_simps [simp]:
  "js_job (set_phase k p s) = js_job s" "js_answers (set_phase k p s) = js_answers s"
  "length (js_calls (set_phase k p s)) = length (js_calls s)"
  "i < length (js_calls s) \<Longrightarrow> phase_of (set_phase k p s) i = (if i = k then p else phase_of s i)"
  "i < length (js_calls s) \<Longrightarrow> question_of (set_phase k p s) i = question_of s i"
  by (auto simp: set_phase_def nth_list_update) (cases "i = k"; simp)

lemma total_set_phase:
  "k < length (js_calls s) \<Longrightarrow> total fetching (js_calls (set_phase k p s))
     = total fetching (js_calls s) - fetching (js_calls s ! k) + (case p of Fetching c \<Rightarrow> 1 | _ \<Rightarrow> 0)"
  by (simp add: set_phase_def fetching_def split: query_phase.splits)

text \<open>A change of phase that neither starts nor ends a fetch keeps the counts and the cells.\<close>

lemma quiet_phase:
  assumes "job_inv s" "k < length (js_calls s)" "\<nexists>c. phase_of s k = Fetching c" "p = Looking \<or> (\<exists>r. p = Finished r)"
    and "\<And>r. p = Finished r \<Longrightarrow> rp_Err r = None \<Longrightarrow> (question_of s k, rp_Result r, None) \<in> set (js_answers s)"
  shows "job_inv (set_phase k p s)"
  unfolding job_inv_def
proof (intro conjI)
  have paid: "cells_paid s" and owned: "cells_owned s" and single: "fetches_single s" and waits: "waits_served s"
    and true: "replies_true s" using assms(1) by (auto simp: job_inv_def)
  have nf: "p \<noteq> Fetching c" "p \<noteq> Waiting c" for c using assms(4) by auto
  have f: "phase_of (set_phase k p s) i = Fetching c \<longleftrightarrow> phase_of s i = Fetching c" if "i < length (js_calls s)" for i c
    using that nf assms(3) by simp
  have w: "phase_of (set_phase k p s) i = Waiting c \<Longrightarrow> phase_of s i = Waiting c" if "i < length (js_calls s)" for i c
    using that nf(2) [of c] by (simp split: if_splits)
  have "fetching (js_calls s ! k) = 0" using assms(3) by (auto simp: fetching_def split: query_phase.splits)
  then show "cells_paid (set_phase k p s)"
    using paid nf by (auto simp: cells_paid_def total_set_phase [OF assms(2)] split: query_phase.splits)
  show "cells_owned (set_phase k p s)" using owned by (simp add: cells_owned_def)
  show "fetches_single (set_phase k p s)"
    using single unfolding fetches_single_def
    by (simp add: f set_phase_simps(5) del: set_phase_simps(4) cong: conj_cong)
  show "waits_served (set_phase k p s)"
    using waits w unfolding waits_served_def
    by (simp del: set_phase_simps(4))
  show "replies_true (set_phase k p s)"
    using true assms(5) unfolding replies_true_def by (auto split: if_splits)
qed

lemma finish_phase:
  assumes "job_inv s" "k < length (js_calls s)" "\<nexists>c. phase_of s k = Fetching c"
    and "rp_Err r = None \<longrightarrow> (question_of s k, rp_Result r, None) \<in> set (js_answers s)"
  shows "job_inv (set_phase k (Finished r) s)" "job_inv ((set_phase k (Finished r) s)\<lparr>js_job := js_job s\<rparr>)"
proof -
  show *: "job_inv (set_phase k (Finished r) s)"
    by (rule quiet_phase [OF assms(1-3)]) (use assms(4) in auto)
  have "(set_phase k (Finished r) s)\<lparr>js_job := js_job s\<rparr> = set_phase k (Finished r) s" by (simp add: set_phase_def)
  with * show "job_inv ((set_phase k (Finished r) s)\<lparr>js_job := js_job s\<rparr>)" by (simp only:)
qed

lemma fetches_singleI:
  assumes "\<And>i d. i < length (js_calls s) \<Longrightarrow> phase_of s i = Fetching d \<Longrightarrow> d < length (dj_cells (js_job s))
      \<and> dj_cells (js_job s) ! d = None \<and> dj_queries (js_job s) (question_of s i) = Some d"
    and "\<And>i j d. i < length (js_calls s) \<Longrightarrow> j < length (js_calls s) \<Longrightarrow> phase_of s i = Fetching d
      \<Longrightarrow> phase_of s j = Fetching d \<Longrightarrow> i = j"
    and "\<And>d. d < length (dj_cells (js_job s)) \<Longrightarrow> dj_cells (js_job s) ! d = None
      \<Longrightarrow> \<exists>i < length (js_calls s). phase_of s i = Fetching d"
  shows "fetches_single s"
  unfolding fetches_single_def by (intro conjI allI impI assms)

lemma fetches_singleD:
  assumes "fetches_single s"
  shows "i < length (js_calls s) \<Longrightarrow> phase_of s i = Fetching d \<Longrightarrow> d < length (dj_cells (js_job s))
      \<and> dj_cells (js_job s) ! d = None \<and> dj_queries (js_job s) (question_of s i) = Some d"
    and "i < length (js_calls s) \<Longrightarrow> j < length (js_calls s) \<Longrightarrow> phase_of s i = Fetching d
      \<Longrightarrow> phase_of s j = Fetching d \<Longrightarrow> i = j"
    and "d < length (dj_cells (js_job s)) \<Longrightarrow> dj_cells (js_job s) ! d = None
      \<Longrightarrow> \<exists>i < length (js_calls s). phase_of s i = Fetching d"
  using assms unfolding fetches_single_def by blast+

lemma job_inv_parts:
  assumes "job_inv s"
  shows "cells_paid s" "cells_owned s" "fetches_single s" "waits_served s" "replies_true s"
  using assms by (auto simp: job_inv_def)

lemma start_inv:
  assumes "job_inv s"
  shows "job_inv (s\<lparr>js_calls := js_calls s @ [\<lparr>qc_question = q, qc_phase = Entering\<rparr>]\<rparr>)"
proof -
  note parts = job_inv_parts [OF assms]
  let ?s = "s\<lparr>js_calls := js_calls s @ [\<lparr>qc_question = q, qc_phase = Entering\<rparr>]\<rparr>"
  have at: "phase_of ?s i = (if i < length (js_calls s) then phase_of s i else Entering)"
      "i < length (js_calls s) \<Longrightarrow> question_of ?s i = question_of s i" if "i < Suc (length (js_calls s))" for i
    using that by (auto simp: nth_append)
  show ?thesis unfolding job_inv_def
  proof (intro conjI)
    show "cells_paid ?s" using parts(1) by (simp add: cells_paid_def fetching_def)
    show "cells_owned ?s" using parts(2) by (simp add: cells_owned_def)
    have f: "phase_of ?s i = Fetching c \<longleftrightarrow> i < length (js_calls s) \<and> phase_of s i = Fetching c"
      if "i < Suc (length (js_calls s))" for i c using at(1) [OF that] by simp
    show "fetches_single ?s" using parts(3) unfolding fetches_single_def
      by (auto simp: nth_append split: if_splits)
    show "waits_served ?s" using parts(4) unfolding waits_served_def by (auto simp: nth_append)
    show "replies_true ?s" using parts(5) unfolding replies_true_def by (auto simp: nth_append)
  qed
qed

text \<open>Dropping an expired cell from the map.\<close>

lemma expire_inv:
  assumes "job_inv s" "dj_queries (js_job s) q = Some c" "dj_cells (js_job s) ! c = Some cell"
  shows "job_inv (s\<lparr>js_job := (js_job s)\<lparr>dj_queries := (dj_queries (js_job s))(q := None)\<rparr>\<rparr>)"
proof -
  note parts = job_inv_parts [OF assms(1)]
  have pending: "dj_queries (js_job s) q' = Some c' \<Longrightarrow> dj_cells (js_job s) ! c' = None \<Longrightarrow> q' \<noteq> q" for q' c'
    using assms(2,3) by auto
  show ?thesis unfolding job_inv_def
  proof (intro conjI)
    show "cells_paid (s\<lparr>js_job := (js_job s)\<lparr>dj_queries := (dj_queries (js_job s))(q := None)\<rparr>\<rparr>)"
      using parts(1) by (simp add: cells_paid_def)
    show "cells_owned (s\<lparr>js_job := (js_job s)\<lparr>dj_queries := (dj_queries (js_job s))(q := None)\<rparr>\<rparr>)"
      using parts(2) by (simp add: cells_owned_def)
    show "fetches_single (s\<lparr>js_job := (js_job s)\<lparr>dj_queries := (dj_queries (js_job s))(q := None)\<rparr>\<rparr>)"
      using parts(3) pending unfolding fetches_single_def by auto
    show "waits_served (s\<lparr>js_job := (js_job s)\<lparr>dj_queries := (dj_queries (js_job s))(q := None)\<rparr>\<rparr>)"
      using parts(4) pending unfolding waits_served_def by auto
    show "replies_true (s\<lparr>js_job := (js_job s)\<lparr>dj_queries := (dj_queries (js_job s))(q := None)\<rparr>\<rparr>)"
      using parts(5) by (simp add: replies_true_def)
  qed
qed

text \<open>A call that found its cell pending starts to wait for it.\<close>

lemma waiting_inv:
  assumes "job_inv s" "k < length (js_calls s)" "phase_of s k = Looking"
    and "dj_queries (js_job s) (question_of s k) = Some c" "dj_cells (js_job s) ! c = None"
  shows "job_inv (set_phase k (Waiting c) s)"
proof -
  note parts = job_inv_parts [OF assms(1)]
  have f: "phase_of (set_phase k (Waiting c) s) i = Fetching d \<longleftrightarrow> phase_of s i = Fetching d" if "i < length (js_calls s)" for i d
    using that assms(3) by simp
  show ?thesis unfolding job_inv_def
  proof (intro conjI)
    show "cells_paid (set_phase k (Waiting c) s)"
      using parts(1) assms(3) by (simp add: cells_paid_def total_set_phase [OF assms(2)] fetching_def)
    show "cells_owned (set_phase k (Waiting c) s)" using parts(2) by (simp add: cells_owned_def)
    show "fetches_single (set_phase k (Waiting c) s)"
      using parts(3) unfolding fetches_single_def
      by (simp add: f del: set_phase_simps(4) cong: conj_cong)
    have "c < length (dj_cells (js_job s))" using parts(2) assms(4) unfolding cells_owned_def by blast
    then show "waits_served (set_phase k (Waiting c) s)"
      using parts(4) assms(4,5) unfolding waits_served_def by auto
    show "replies_true (set_phase k (Waiting c) s)"
      using parts(5) unfolding replies_true_def by auto
  qed
qed

lemma reserve_inv:
  assumes "job_inv s" "k < length (js_calls s)" "phase_of s k = Looking"
    and "dj_queries (js_job s) (question_of s k) = None" "dj_used (js_job s) < dj_limit (js_job s)"
  defines "n \<equiv> length (dj_cells (js_job s))"
  shows "job_inv ((set_phase k (Fetching n) s)\<lparr>js_job := (js_job s)\<lparr>dj_cells := dj_cells (js_job s) @ [None],
     dj_queries := (dj_queries (js_job s))(question_of s k \<mapsto> n), dj_used := dj_used (js_job s) + 1\<rparr>\<rparr>)" (is "job_inv ?s")
proof -
  note parts = job_inv_parts [OF assms(1)]
  have bound: "dj_queries (js_job s) q = Some c \<Longrightarrow> c < n" for q c
    using parts(2) unfolding cells_owned_def n_def by blast
  have fb: "i < length (js_calls s) \<Longrightarrow> phase_of s i = Fetching c \<Longrightarrow> c < n \<and> dj_cells (js_job s) ! c = None
      \<and> dj_queries (js_job s) (question_of s i) = Some c" for i c
    using parts(3) unfolding fetches_single_def n_def by blast
  have wb: "i < length (js_calls s) \<Longrightarrow> phase_of s i = Waiting c \<Longrightarrow> c < n" for i c
    using parts(4) unfolding waits_served_def n_def by blast
  have old: "phase_of s k \<noteq> Fetching c" for c using assms(3) by simp
  show ?thesis unfolding job_inv_def
  proof (intro conjI)
    show "cells_paid ?s"
      using parts(1) assms(3,5) by (simp add: cells_paid_def total_set_phase [OF assms(2)] fetching_def n_def)
    show "cells_owned ?s"
      using parts(2) bound unfolding cells_owned_def n_def by (auto simp: nth_append less_Suc_eq)
    show "fetches_single ?s"
    proof (rule fetches_singleI)
      fix i d assume i: "i < length (js_calls ?s)" "phase_of ?s i = Fetching d"
      show "d < length (dj_cells (js_job ?s)) \<and> dj_cells (js_job ?s) ! d = None \<and> dj_queries (js_job ?s) (question_of ?s i) = Some d"
      proof (cases "i = k")
        case True
        with i show ?thesis by (auto simp: n_def nth_append)
      next
        case False
        with i have "d < n \<and> dj_cells (js_job s) ! d = None \<and> dj_queries (js_job s) (question_of s i) = Some d"
          using fb [of i d] by simp
        with i assms(4) show ?thesis by (auto simp: n_def nth_append)
      qed
    next
      fix i j d assume ij: "i < length (js_calls ?s)" "j < length (js_calls ?s)" "phase_of ?s i = Fetching d" "phase_of ?s j = Fetching d"
      show "i = j"
      proof (cases "i = k \<or> j = k")
        case True
        with ij fb [of i n] fb [of j n] show ?thesis by (auto split: if_splits)
      next
        case False
        with ij show ?thesis using fetches_singleD(2) [OF parts(3), of i j d] by simp
      qed
    next
      fix d assume d: "d < length (dj_cells (js_job ?s))" "dj_cells (js_job ?s) ! d = None"
      show "\<exists>i < length (js_calls ?s). phase_of ?s i = Fetching d"
      proof (cases "d = n")
        case True
        with assms(2) show ?thesis by (intro exI [of _ k]) simp
      next
        case False
        with d obtain i where i: "i < length (js_calls s)" "phase_of s i = Fetching d"
          using fetches_singleD(3) [OF parts(3), of d] by (auto simp: n_def nth_append less_Suc_eq)
        with old have "i \<noteq> k" by auto
        with i show ?thesis by (intro exI [of _ i]) simp
      qed
    qed
    show "waits_served ?s"
      using parts(4) wb assms(4) unfolding waits_served_def n_def
      by (auto simp: nth_append less_Suc_eq split: if_splits)
    show "replies_true ?s"
      using parts(5) unfolding replies_true_def by auto
  qed
qed

lemma fill_inv:
  assumes "job_inv s" "k < length (js_calls s)" "phase_of s k = Fetching c"
    and "rp_Result reply = cq_result cell" "rp_Err reply = cq_err cell"
  shows "job_inv ((set_phase k (Finished reply) s)\<lparr>js_job := (js_job s)\<lparr>dj_cells := (dj_cells (js_job s))[c := Some cell]\<rparr>,
     js_answers := js_answers s @ [(question_of s k, rp_Result reply, cq_err cell)]\<rparr>)" (is "job_inv ?s")
proof -
  note parts = job_inv_parts [OF assms(1)]
  have c: "c < length (dj_cells (js_job s))" "dj_cells (js_job s) ! c = None" "dj_queries (js_job s) (question_of s k) = Some c"
    using parts(3) assms(2,3) unfolding fetches_single_def by blast+
  have other: "i < length (js_calls s) \<Longrightarrow> phase_of s i = Fetching c \<Longrightarrow> i = k" for i
    using parts(3) assms(2,3) unfolding fetches_single_def by blast
  have owner: "dj_queries (js_job s) q = Some c \<Longrightarrow> q = question_of s k" for q
    using parts(2) c(3) unfolding cells_owned_def by blast
  show ?thesis unfolding job_inv_def
  proof (intro conjI)
    show "cells_paid ?s"
      using parts(1) assms(3) by (simp add: cells_paid_def total_set_phase [OF assms(2)] fetching_def)
    show "cells_owned ?s"
      using parts(2) owner c(1) assms(4) unfolding cells_owned_def by (auto simp: nth_list_update)
    show "fetches_single ?s"
    proof (rule fetches_singleI)
      fix i d assume i: "i < length (js_calls ?s)" "phase_of ?s i = Fetching d"
      then have "i \<noteq> k" by auto
      with i have old: "i < length (js_calls s)" "phase_of s i = Fetching d" by simp_all
      with \<open>i \<noteq> k\<close> other have "d \<noteq> c" by blast
      with fetches_singleD(1) [OF parts(3) old] old(1) show "d < length (dj_cells (js_job ?s))
          \<and> dj_cells (js_job ?s) ! d = None \<and> dj_queries (js_job ?s) (question_of ?s i) = Some d" by simp
    next
      fix i j d assume ij: "i < length (js_calls ?s)" "j < length (js_calls ?s)" "phase_of ?s i = Fetching d" "phase_of ?s j = Fetching d"
      then have "i \<noteq> k" "j \<noteq> k" by auto
      with ij show "i = j" using fetches_singleD(2) [OF parts(3), of i j d] by simp
    next
      fix d assume d: "d < length (dj_cells (js_job ?s))" "dj_cells (js_job ?s) ! d = None"
      then have "d \<noteq> c" using c(1) by auto
      with d obtain i where i: "i < length (js_calls s)" "phase_of s i = Fetching d"
        using fetches_singleD(3) [OF parts(3), of d] by auto
      with \<open>d \<noteq> c\<close> assms(3) have "i \<noteq> k" by auto
      with i show "\<exists>i < length (js_calls ?s). phase_of ?s i = Fetching d" by (intro exI [of _ i]) simp
    qed
    show "waits_served ?s"
      unfolding waits_served_def
    proof (intro allI impI)
      fix i d assume i: "i < length (js_calls ?s)" "phase_of ?s i = Waiting d"
      then have "i \<noteq> k" by auto
      with i have w: "d < length (dj_cells (js_job s))"
          "dj_cells (js_job s) ! d = None \<longrightarrow> dj_queries (js_job s) (question_of s i) = Some d"
          "\<forall>x. dj_cells (js_job s) ! d = Some x \<longrightarrow> (question_of s i, cq_result x, cq_err x) \<in> set (js_answers s)"
        using parts(4) unfolding waits_served_def by auto
      show "d < length (dj_cells (js_job ?s)) \<and> (dj_cells (js_job ?s) ! d = None \<longrightarrow> dj_queries (js_job ?s) (question_of ?s i) = Some d)
          \<and> (\<forall>x. dj_cells (js_job ?s) ! d = Some x \<longrightarrow> (question_of ?s i, cq_result x, cq_err x) \<in> set (js_answers ?s))"
      proof (cases "d = c")
        case True
        with w(2) c(2) have "question_of s i = question_of s k" by (intro owner) simp
        with True c(1) i(1) assms(4) show ?thesis by simp
      next
        case False
        with w i(1) show ?thesis by simp
      qed
    qed
    show "replies_true ?s"
      using parts(5) assms(4,5) unfolding replies_true_def by (auto split: if_splits)
  qed
qed

lemma start_state_inv: "job_inv (job_start l)"
  by (simp add: job_inv_def job_invariants job_start_def NewJob_def DefaultLimits_def)

lemma look_inv:
  assumes inv: "job_inv s" and k: "k < length (js_calls s)" "phase_of s k = Looking"
    and look: "query_lookup now (question_of s k) (js_job s) = (r, j)"
  shows "job_inv ((set_phase k (after_lookup r) s)\<lparr>js_job := j\<rparr>)"
proof (cases "dj_queries (js_job s) (question_of s k)")
  case None
  then show ?thesis
  proof (cases "dj_used (js_job s) \<ge> dj_limit (js_job s)")
    case True
    with None look have "j = js_job s" "\<exists>reply. r = Exhausted reply \<and> rp_Err reply \<noteq> None"
      by (auto simp: query_lookup_def)
    then show ?thesis using finish_phase(2) [OF inv k(1)] k(2) by (auto simp: after_lookup_def)
  next
    case False
    with None look show ?thesis
      using reserve_inv [OF inv k None] by (auto simp: query_lookup_def after_lookup_def)
  qed
next
  case (Some c)
  show ?thesis
  proof (cases "dj_cells (js_job s) ! c")
    case None
    with Some look have r: "r = Pending c" "j = js_job s" by (auto simp: query_lookup_def)
    have "(set_phase k (Waiting c) s)\<lparr>js_job := js_job s\<rparr> = set_phase k (Waiting c) s" by (simp add: set_phase_def)
    with waiting_inv [OF inv k Some None] show ?thesis by (simp only: r after_lookup_def lookup.case)
  next
    case cell: (Some cell)
    have owned: "(question_of s k, cq_result cell, cq_err cell) \<in> set (js_answers s)"
      using job_inv_parts(2) [OF inv] Some cell unfolding cells_owned_def by blast
    show ?thesis
    proof (cases "cq_expiresAt cell > now")
      case True
      with Some cell look have r: "r = Hit \<lparr>rp_Result = cq_result cell, rp_ObservedAt = cq_observedAt cell,
          rp_FromCache = True, rp_Err = cq_err cell\<rparr>" "j = js_job s" by (auto simp: query_lookup_def)
      show ?thesis unfolding r after_lookup_def lookup.case
        by (rule finish_phase(2) [OF inv k(1)]) (use k(2) owned in auto)
    next
      case False
      with Some cell look have r: "r = Expired"
        "j = (js_job s)\<lparr>dj_queries := (dj_queries (js_job s))(question_of s k := None)\<rparr>" by (auto simp: query_lookup_def)
      have "job_inv (set_phase k Looking s)" using quiet_phase [OF inv k(1)] k(2) by auto
      from expire_inv [OF this, of "question_of s k" c cell] Some cell show ?thesis
        by (simp add: r after_lookup_def)
    qed
  qed
qed

lemma job_step_inv:
  assumes "job_step E s s'" "job_inv s"
  shows "job_inv s'"
  using assms
proof (induction rule: job_step.induct)
  case (start s q)
  then show ?case by (rule start_inv)
next
  case (enter k s ctx now)
  show ?case
  proof (cases "query_enter E ctx now (question_of s k)")
    case None
    with quiet_phase [OF enter(3,1)] enter(2) show ?thesis by auto
  next
    case (Some reply)
    then have "rp_Err reply \<noteq> None" by (auto simp: query_enter_def split: option.splits)
    with finish_phase(1) [OF enter(3,1)] enter(2) Some show ?thesis by auto
  qed
next
  case (look k s now r j)
  then show ?case by (intro look_inv)
next
  case (wait k s c ctx now reply)
  have "(question_of s k, rp_Result reply, None) \<in> set (js_answers s)" if "rp_Err reply = None"
    using wait that job_inv_parts(4) [OF wait(4)] unfolding waits_served_def
    by (auto simp: query_wait_def split: option.splits)
  with finish_phase(1) [OF wait(4,1)] wait(2) show ?case by auto
next
  case (fill k s c result err now reply j)
  then show ?case
    using fill_inv [OF fill(4,1,2), of reply "the (dj_cells j ! c)"]
      job_inv_parts(3) [OF fill(4)] unfolding fetches_single_def
    by (auto simp: query_fill_def Let_def)
qed

lemma job_reachable_inv: "(job_step E)\<^sup>*\<^sup>* (job_start l) s \<Longrightarrow> job_inv s"
  by (induction rule: rtranclp_induct) (auto intro: start_state_inv job_step_inv)

text \<open>Entries expire: a cell answers from the cache only before its expiry, which is never later than
  the lifetime of any record it holds.\<close>

lemma min_record_ttl_le:
  assumes "min_record_ttl E ttl obs = t" "t \<noteq> 0"
  shows "(ttl \<noteq> 0 \<longrightarrow> t \<le> ttl) \<and> (\<forall>ob \<in> set obs. \<exists>p. de_unmarshal E (ob_Payload ob) = Some p \<and> t \<le> dp_TTL p)"
  using assms
proof (induction obs arbitrary: ttl)
  case (Cons ob obs)
  then obtain p where p: "de_unmarshal E (ob_Payload ob) = Some p" "dp_TTL p \<noteq> 0"
    by (auto split: option.splits if_splits)
  let ?m = "if ttl = 0 \<or> dp_TTL p < ttl then dp_TTL p else ttl"
  have "(?m \<noteq> 0 \<longrightarrow> t \<le> ?m) \<and> (\<forall>ob \<in> set obs. \<exists>p. de_unmarshal E (ob_Payload ob) = Some p \<and> t \<le> dp_TTL p)"
    using Cons.prems p by (intro Cons.IH) simp_all
  moreover have "?m \<le> dp_TTL p" "ttl \<noteq> 0 \<Longrightarrow> ?m \<le> ttl" "?m \<noteq> 0" using p(2) by auto
  ultimately have "t \<le> dp_TTL p" "ttl \<noteq> 0 \<longrightarrow> t \<le> ttl"
    "\<forall>ob \<in> set obs. \<exists>p. de_unmarshal E (ob_Payload ob) = Some p \<and> t \<le> dp_TTL p"
    by (meson order_trans)+
  with p(1) show ?case by auto
qed simp

text \<open>C16: The query cache of an analysis is safe to share. In every interleaving of any number of
  concurrent calls, whatever the resolver answers and whenever contexts end: the resolver is asked at
  most as often as the question budget allows, counting the calls in flight; no two calls ask it the
  same question at the same time; a call that waits has a cell that is filled or that some other call
  is filling for the same question; and every reply without an error is an answer the resolver gave
  to that very question, after the name was normalised.\<close>

theorem dns_cache_shared_safely:
  assumes "(job_step E)\<^sup>*\<^sup>* (job_start l) s"
  shows "total fetching (js_calls s) + int (length (js_answers s)) \<le> dj_limit (js_job s)
    \<and> (\<forall>i < length (js_calls s). \<forall>j < length (js_calls s). \<forall>c d. phase_of s i = Fetching c \<longrightarrow> phase_of s j = Fetching d
         \<longrightarrow> question_of s i = question_of s j \<longrightarrow> i = j)
    \<and> (\<forall>i < length (js_calls s). \<forall>c. phase_of s i = Waiting c \<longrightarrow> dj_cells (js_job s) ! c \<noteq> None
         \<or> (\<exists>j < length (js_calls s). phase_of s j = Fetching c \<and> question_of s j = question_of s i))
    \<and> (\<forall>i < length (js_calls s). \<forall>r. phase_of s i = Finished r \<longrightarrow> rp_Err r = None \<longrightarrow>
         (question_of s i, rp_Result r, None) \<in> set (js_answers s))"
proof -
  note inv = job_reachable_inv [OF assms]
  note parts = job_inv_parts [OF inv]
  have budget: "total fetching (js_calls s) + int (length (js_answers s)) \<le> dj_limit (js_job s)"
    using parts(1) by (simp add: cells_paid_def)
  have single: "i = j" if "i < length (js_calls s)" "j < length (js_calls s)" "phase_of s i = Fetching c"
      "phase_of s j = Fetching d" "question_of s i = question_of s j" for i j c d
    using fetches_singleD [OF parts(3)] that by (metis option.inject)
  have served: "dj_cells (js_job s) ! c \<noteq> None
         \<or> (\<exists>j < length (js_calls s). phase_of s j = Fetching c \<and> question_of s j = question_of s i)"
    if i: "i < length (js_calls s)" "phase_of s i = Waiting c" for i c
  proof (cases "dj_cells (js_job s) ! c")
    case none: None
    from i none have c: "c < length (dj_cells (js_job s))" "dj_queries (js_job s) (question_of s i) = Some c"
      using parts(4) unfolding waits_served_def by blast+
    from fetches_singleD(3) [OF parts(3) c(1) none] obtain j where j: "j < length (js_calls s)" "phase_of s j = Fetching c" by blast
    from fetches_singleD(1) [OF parts(3) j] c(2) have "question_of s j = question_of s i"
      using parts(2) unfolding cells_owned_def by blast
    with j show ?thesis by blast
  qed simp
  show ?thesis
    using budget single served parts(5) unfolding replies_true_def by blast
qed

definition plain_dns_env :: dns_env where
  "plain_dns_env = \<lparr>de_unmarshal = (\<lambda>_. None), de_marshal = (\<lambda>_. []), de_hash = (\<lambda>_. []), de_net_timeout = (\<lambda>_. False)\<rparr>"

definition example_question :: dns_question where
  "example_question = \<lparr>q_Name = ''example.com'', q_Type = typeA\<rparr>"

definition asking :: job_system where
  "asking = \<lparr>js_job = (NewJob DefaultLimits)\<lparr>dj_cells := [None], dj_queries := [example_question \<mapsto> 0], dj_used := 1\<rparr>,
     js_calls = [\<lparr>qc_question = example_question, qc_phase = Fetching 0\<rparr>], js_answers = []\<rparr>"

lemma asking_reachable: "(job_step plain_dns_env)\<^sup>*\<^sup>* (job_start DefaultLimits) asking"
proof -
  have q: "normalize_question example_question = example_question" by code_simp
  let ?s1 = "(job_start DefaultLimits)\<lparr>js_calls := js_calls (job_start DefaultLimits)
     @ [\<lparr>qc_question = normalize_question example_question, qc_phase = Entering\<rparr>]\<rparr>"
  let ?s2 = "set_phase 0 (case query_enter plain_dns_env None 0 (question_of ?s1 0) of None \<Rightarrow> Looking | Some reply \<Rightarrow> Finished reply) ?s1"
  have 1: "job_step plain_dns_env (job_start DefaultLimits) ?s1" by (rule job_step.start)
  have 2: "job_step plain_dns_env ?s1 ?s2"
    by (rule job_step.enter) (simp_all add: job_start_def)
  have "query_lookup 1 (question_of ?s2 0) (js_job ?s2) = (Reserved 0, js_job asking)"
    by (simp add: q set_phase_def query_enter_def query_lookup_def job_start_def NewJob_def DefaultLimits_def asking_def)
  then have 3: "job_step plain_dns_env ?s2 ((set_phase 0 (after_lookup (Reserved 0)) ?s2)\<lparr>js_job := js_job asking\<rparr>)"
    by (intro job_step.look [of 0]) (simp_all add: set_phase_def query_enter_def job_start_def)
  have "(set_phase 0 (after_lookup (Reserved 0)) ?s2)\<lparr>js_job := js_job asking\<rparr> = asking"
    by (simp add: q set_phase_def after_lookup_def asking_def job_start_def)
  with 3 have "job_step plain_dns_env ?s2 asking" by (simp only:)
  from rtranclp.rtrancl_into_rtrancl [OF rtranclp.rtrancl_into_rtrancl [OF r_into_rtranclp [of "job_step plain_dns_env", OF 1] 2] this]
  show ?thesis .
qed

theorem dns_cache_shared_safely_witness:
  "total fetching (js_calls asking) + int (length (js_answers asking)) \<le> 512 \<and> total fetching (js_calls asking) = 1"
  using dns_cache_shared_safely [OF asking_reachable]
  by (simp add: asking_def NewJob_def DefaultLimits_def fetching_def total_def)

end
