(* ===== verification/Dns_Graph.thy ===== *)
theory Dns_Graph
  imports Dns_Job
begin

text \<open>
  Package internal/collect/dns, graph.go: the walks that follow CNAME links, the zone above a name and
  the hosts of its MX and NS records.

  A walk runs in one goroutine. What it does not control is a field of \<open>dns_world\<close>, a function of the
  number of the event: the reply of each call to the query cache, whether an address could be
  reserved, the error of the context and whether a message is ready in the channel of targets. The
  theorems hold for every such world, so for every behaviour of the resolver, of the other goroutines
  and of the clock. \<open>wk_asked\<close> records the questions of the walk with their replies.
\<close>

section \<open>Walks\<close>

record dns_collected =
  dc_Observations :: "observation list"
  dc_Coverage :: coverage
  dc_Addresses :: "addr list"

record candidate =
  cd_Hostname :: string
  cd_Address :: addr
  cd_Port :: nat

record dns_world =
  dw_query :: "nat \<Rightarrow> dns_question \<Rightarrow> query_reply"
  dw_reserve :: "nat \<Rightarrow> bool"
  dw_ctx :: "nat \<Rightarrow> go_error option"
  dw_ready :: "nat \<Rightarrow> bool"

record walk =
  wk_result :: dns_collected
  wk_published :: "addr list"
  wk_candidates :: "candidate list"
  wk_asked :: "(dns_question \<times> query_reply) list"
  wk_time :: nat

text \<open>What one call of a walk is given.\<close>

record walk_params =
  wp_env :: dns_env
  wp_world :: dns_world
  wp_limits :: limits
  wp_seed :: string
  wp_port :: nat
  wp_occurrence :: occurrence
  wp_publish :: bool

definition fresh_result :: dns_collected where
  "fresh_result = \<lparr>dc_Observations = [],
     dc_Coverage = zero_coverage\<lparr>cv_Capability := ''dns'', cv_Status := CoverageComplete\<rparr>, dc_Addresses = []\<rparr>"

definition start_walk :: "dns_collected \<Rightarrow> walk" where
  "start_walk r = \<lparr>wk_result = r, wk_published = [], wk_candidates = [], wk_asked = [], wk_time = 0\<rparr>"

definition with_coverage :: "(coverage \<Rightarrow> coverage) \<Rightarrow> walk \<Rightarrow> walk" where
  "with_coverage f w = w\<lparr>wk_result := (wk_result w)\<lparr>dc_Coverage := f (dc_Coverage (wk_result w))\<rparr>\<rparr>"

definition with_observations :: "observation list \<Rightarrow> walk \<Rightarrow> walk" where
  "with_observations obs w = w\<lparr>wk_result := (wk_result w)\<lparr>dc_Observations := dc_Observations (wk_result w) @ obs\<rparr>\<rparr>"

definition partly :: "int \<Rightarrow> error_code list \<Rightarrow> coverage \<Rightarrow> coverage" where
  "partly omitted codes c = c\<lparr>cv_Status := CoveragePartial, cv_Omitted := cv_Omitted c + omitted,
     cv_ErrorCodes := cv_ErrorCodes c @ codes\<rparr>"

definition because :: "string \<Rightarrow> coverage \<Rightarrow> coverage" where
  "because why c = c\<lparr>cv_Reason := why\<rparr>"

definition tick :: "walk \<Rightarrow> walk" where
  "tick w = w\<lparr>wk_time := Suc (wk_time w)\<rparr>"

definition ask :: "dns_world \<Rightarrow> dns_question \<Rightarrow> walk \<Rightarrow> query_reply \<times> walk" where
  "ask W question w =
     (let reply = dw_query W (wk_time w) question
      in (reply, tick (w\<lparr>wk_asked := wk_asked w @ [(question, reply)]\<rparr>)))"

section \<open>One answer\<close>

text \<open>A record keeps its payload and gets the identifier of its occurrence.\<close>

definition restamp :: "dns_env \<Rightarrow> occurrence \<Rightarrow> gotime \<Rightarrow> nat \<Rightarrow> observation \<Rightarrow> observation" where
  "restamp E oc observedAt index ob =
     ob\<lparr>ob_ObservedAt := (if ob_ObservedAt ob = 0 then observedAt else ob_ObservedAt ob),
        ob_ID := ObservationID E ''dns-record'' (oc\<lparr>oc_ItemIndex := int index\<rparr>) []\<rparr>"

definition addressObservation ::
    "dns_env \<Rightarrow> scope \<Rightarrow> occurrence \<Rightarrow> address_details \<Rightarrow> destination_decision \<Rightarrow> nat \<Rightarrow> addr \<Rightarrow> observation" where
  "addressObservation E scope oc details decision index address =
     \<lparr>ob_ID = ObservationID E ''dns-address'' (oc\<lparr>oc_ItemIndex := int index\<rparr>) [], ob_Type = ''dns_address'',
      ob_Subject = ad_owner details, ob_Relation = [], ob_Scope = scope, ob_ObservedAt = ad_observedAt details,
      ob_CollectorVersion = [], ob_Status = (if dd_Allowed decision then ''answered'' else ''policy_blocked''),
      ob_Payload = de_marshal E (zero_payload\<lparr>dp_RRType := ad_rrtype details, dp_Owner := ad_owner details,
        dp_Address := address, dp_TTL := ad_ttl details, dp_Section := ad_section details,
        dp_PolicyReason := reason_string (dd_Reason decision)\<rparr>),
      ob_ContentHash = []\<rparr>"

text \<open>One pass of the address loop: reserve, decide, observe and publish once. The scope of the
  observation depends on the owner of the address.\<close>

definition note_address ::
    "walk_params \<Rightarrow> (string \<Rightarrow> scope) \<Rightarrow> occurrence \<Rightarrow> string \<Rightarrow> query_reply \<Rightarrow> bool \<Rightarrow> nat \<times> addr \<Rightarrow> walk \<Rightarrow> walk" where
  "note_address G scope_of oc fallback reply publish entry w =
     (case entry of (index, address) \<Rightarrow>
      let address = unmap address;
          details = addressRecord (wp_env G) (rp_Result reply) index fallback (rp_ObservedAt reply);
          reserved = dw_reserve (wp_world G) (wk_time w);
          w = tick w
      in if \<not> reserved then with_coverage (partly 1 [CodeBudgetExceeded]) w
         else
           let w = w\<lparr>wk_result := (wk_result w)\<lparr>dc_Addresses := dc_Addresses (wk_result w) @ [address]\<rparr>\<rparr>;
               decision = Check address (wp_port G);
               w = (if dd_Allowed decision then w else with_coverage (partly 0 [CodePolicyBlocked]) w);
               w = with_observations [addressObservation (wp_env G) (scope_of (ad_owner details)) oc details decision index address] w
           in if dd_Allowed decision \<and> publish \<and> address \<notin> set (wk_published w)
              then w\<lparr>wk_published := wk_published w @ [address],
                     wk_candidates := wk_candidates w
                       @ [\<lparr>cd_Hostname = wp_seed G, cd_Address = address, cd_Port = wp_port G\<rparr>]\<rparr>
              else w)"

definition note_addresses ::
    "walk_params \<Rightarrow> (string \<Rightarrow> scope) \<Rightarrow> occurrence \<Rightarrow> string \<Rightarrow> query_reply \<Rightarrow> bool \<Rightarrow> walk \<Rightarrow> walk" where
  "note_addresses G scope_of oc fallback reply publish w =
     fold (note_address G scope_of oc fallback reply publish) (enumerate 0 (dr_Addresses (rp_Result reply))) w"

text \<open>The coverage of one answer.\<close>

definition count_attempts :: "query_reply \<Rightarrow> coverage \<Rightarrow> coverage" where
  "count_attempts reply c =
     (if rp_FromCache reply then c else c\<lparr>cv_Attempted := cv_Attempted c + dr_Attempt (rp_Result reply)\<rparr>)"

definition count_omitted :: "query_reply \<Rightarrow> coverage \<Rightarrow> coverage" where
  "count_omitted reply c =
     (if dr_Omitted (rp_Result reply) > 0 then partly (dr_Omitted (rp_Result reply)) [CodeBudgetExceeded] c else c)"

definition count_outcome :: "dns_env \<Rightarrow> query_reply \<Rightarrow> coverage \<Rightarrow> coverage" where
  "count_outcome E reply c =
     (let outcome = normalizeOutcome E (rp_Result reply) (rp_Err reply) in
      case rp_Err reply of
        Some e \<Rightarrow> partly (if outcome = BudgetExhausted then 1 else 0) [errorCode E e] c
      | None \<Rightarrow> if dnsOutcomeCompleted outcome then c\<lparr>cv_Completed := cv_Completed c + 1\<rparr>
                else partly 0 [CodeCollectionFailed] c)"

definition error_text :: "go_error option \<Rightarrow> string" where
  "error_text err = (case err of None \<Rightarrow> [] | Some e \<Rightarrow> error_string e)"

definition appendGraphQuery ::
    "walk_params \<Rightarrow> scope \<Rightarrow> occurrence \<Rightarrow> query_reply \<Rightarrow> bool \<Rightarrow> walk \<Rightarrow> walk" where
  "appendGraphQuery G scope oc reply publish w =
     (let E = wp_env G; result = rp_Result reply;
          outcome = normalizeOutcome E result (rp_Err reply);
          name = q_Name (dr_Question result);
          w = with_coverage (count_outcome E reply \<circ> count_omitted reply \<circ> count_attempts reply) w;
          w = with_observations [(queryObservation E name (dr_Question result) outcome result (error_text (rp_Err reply)) oc
                (rp_ObservedAt reply))\<lparr>ob_Scope := scope\<rparr>] w
      in if outcome \<noteq> Answered then w
         else
           let w = with_observations (map (\<lambda>(i, ob). (restamp E oc (rp_ObservedAt reply) i ob)\<lparr>ob_Scope := scope\<rparr>)
                     (enumerate 0 (dr_Records result))) w
           in note_addresses G (\<lambda>_. scope) oc name reply publish w)"

definition at_request :: "occurrence \<Rightarrow> int \<Rightarrow> occurrence" where
  "at_request oc i = oc\<lparr>oc_RequestIndex := i\<rparr>"

text \<open>Asking and recording, as every walk does.\<close>

definition ask_append ::
    "walk_params \<Rightarrow> scope \<Rightarrow> occurrence \<Rightarrow> bool \<Rightarrow> dns_question \<Rightarrow> walk \<Rightarrow> query_reply \<times> walk" where
  "ask_append G scope oc publish question w =
     (case ask (wp_world G) question w of (reply, w) \<Rightarrow> (reply, appendGraphQuery G scope oc reply publish w))"

section \<open>CNAME links\<close>

record cname_target =
  cn_name :: string
  cn_depth :: int
  cn_path :: "string list"

definition depth_limit :: "limits \<Rightarrow> int" where
  "depth_limit l = (if li_CNAMEChainDepth l \<le> 0 then li_CNAMEChainDepth DefaultLimits else li_CNAMEChainDepth l)"

definition destinations :: "dns_env \<Rightarrow> dns_result \<Rightarrow> string list" where
  "destinations E result = filter (\<lambda>t. t \<noteq> []) (map (cnameDestination E) (dr_Records result))"

text \<open>The work on one target: its CNAME question, then either the targets it leads to or its addresses.\<close>

definition visit_cname :: "walk_params \<Rightarrow> cname_target \<Rightarrow> int \<Rightarrow> walk \<Rightarrow> cname_target list \<times> int \<times> walk" where
  "visit_cname G item ri w =
     (let E = wp_env G; at = (\<lambda>i. (at_request (wp_occurrence G) i)\<lparr>oc_Hop := cn_depth item\<rparr>);
          question = (\<lambda>t. \<lparr>q_Name = cn_name item, q_Type = t\<rparr>);
          (reply, w) = ask_append G ScopeCNAME (at ri) (wp_publish G) (question typeCNAME) w;
          outcome = normalizeOutcome E (rp_Result reply) (rp_Err reply);
          next = destinations E (rp_Result reply)
      in if rp_Err reply \<noteq> None then ([], ri + 1, w)
         else if outcome \<noteq> Answered \<and> outcome \<noteq> NoData then ([], ri + 1, w)
         else if next \<noteq> [] then
           (map (\<lambda>t. \<lparr>cn_name = t, cn_depth = cn_depth item + 1, cn_path = cn_path item @ [cn_name item]\<rparr>) (sort next),
            ri + 1, w)
         else
           let w = snd (ask_append G ScopeCNAME (at (ri + 1)) (wp_publish G) (question typeA) w);
               w = snd (ask_append G ScopeCNAME (at (ri + 2)) (wp_publish G) (question typeAAAA) w)
           in ([], ri + 3, w))"

text \<open>The head of the loop: the context is looked at, an empty queue waits for a message, the end of
  the messages or the end of the context, and while messages can still come one more is taken if it
  is ready.\<close>

datatype await = Stopped walk | Received "cname_target list" bool "cname_target list" walk

definition receive_ready :: "dns_world \<Rightarrow> cname_target list \<Rightarrow> bool \<Rightarrow> cname_target list \<Rightarrow> walk \<Rightarrow> await" where
  "receive_ready W queue inputOpen inputs w =
     (if inputOpen \<and> dw_ready W (wk_time w)
      then (case inputs of
          [] \<Rightarrow> Received queue False [] (tick w)
        | t # ts \<Rightarrow> Received (queue @ [t]) True ts (tick w))
      else Received queue inputOpen inputs (tick w))"

definition await_target :: "walk_params \<Rightarrow> cname_target list \<Rightarrow> bool \<Rightarrow> cname_target list \<Rightarrow> walk \<Rightarrow> await" where
  "await_target G queue inputOpen inputs w =
     (let W = wp_world G; E = wp_env G in
      case dw_ctx W (wk_time w) of
        Some e \<Rightarrow> Stopped (with_coverage (partly (int (length queue)) [errorCode E e]) w)
      | None \<Rightarrow>
          if queue \<noteq> [] then receive_ready W queue inputOpen inputs (tick w)
          else (case dw_ctx W (wk_time (tick w)) of
              Some e \<Rightarrow> Stopped (with_coverage (partly 0 [errorCode E e]) (tick w))
            | None \<Rightarrow> (case inputs of
                [] \<Rightarrow> Received [] False [] (tick w)
              | t # ts \<Rightarrow> receive_ready W [t] True ts (tick (tick w)))))"

definition loop_reached :: "walk \<Rightarrow> walk" where
  "loop_reached w = with_coverage (because ''CNAME loop or chain depth limit reached'' \<circ> partly 1 [CodeBudgetExceeded]) w"

text \<open>The loop ends: the messages run out, and the queue shrinks in the multiset order of the depths
  that are left.\<close>

definition room :: "walk_params \<Rightarrow> cname_target \<Rightarrow> nat" where
  "room G item = nat (depth_limit (wp_limits G) + 1 - cn_depth item)"

definition pending :: "bool \<Rightarrow> cname_target list \<Rightarrow> nat" where
  "pending inputOpen inputs = (if inputOpen then Suc (length inputs) else 0)"

lemma receive_ready_cases:
  assumes "receive_ready W queue inputOpen inputs w = Received q o' i' w'"
  shows "pending o' i' < pending inputOpen inputs \<or> q = queue \<and> o' = inputOpen \<and> i' = inputs"
  using assms by (auto simp: receive_ready_def pending_def split: if_splits list.splits)

lemma await_target_cases:
  assumes "await_target G queue inputOpen inputs w = Received q o' i' w'" "queue \<noteq> [] \<or> inputOpen"
  shows "pending o' i' < pending inputOpen inputs \<or> q = queue \<and> o' = inputOpen \<and> i' = inputs \<and> queue \<noteq> []"
proof (cases "queue = []")
  case True
  with assms(2) have "inputOpen" by simp
  show ?thesis
  proof (cases inputs)
    case Nil
    with assms True \<open>inputOpen\<close> show ?thesis
      by (auto simp: await_target_def Let_def pending_def split: option.splits)
  next
    case (Cons t ts)
    with assms(1) True obtain w0 where "receive_ready (wp_world G) [t] True ts w0 = Received q o' i' w'"
      by (auto simp: await_target_def Let_def split: option.splits)
    from receive_ready_cases [OF this] Cons \<open>inputOpen\<close> show ?thesis by (auto simp: pending_def)
  qed
next
  case False
  with assms(1) obtain w0 where "receive_ready (wp_world G) queue inputOpen inputs w0 = Received q o' i' w'"
    by (auto simp: await_target_def Let_def split: option.splits)
  from receive_ready_cases [OF this] False show ?thesis by blast
qed

lemma visit_cname_room:
  assumes "visit_cname G item ri w = (next, ri', w')" "t \<in> set next" "cn_depth item \<le> depth_limit (wp_limits G)"
  shows "room G t < room G item"
  using assms by (auto simp: visit_cname_def Let_def room_def split: prod.splits if_splits)

definition loop_order :: "((nat \<times> nat multiset) \<times> (nat \<times> nat multiset)) set" where
  "loop_order = less_than <*lex*> mult less_than"

lemma wf_loop_order: "wf loop_order"
  unfolding loop_order_def by (intro wf_lex_prod wf_mult wf_less_than)

function graph_loop ::
    "walk_params \<Rightarrow> cname_target list \<Rightarrow> string list \<Rightarrow> bool \<Rightarrow> cname_target list \<Rightarrow> int \<Rightarrow> walk \<Rightarrow> int \<times> walk" where
  "graph_loop G queue seen inputOpen inputs ri w =
     (if queue = [] \<and> \<not> inputOpen then (ri, w)
      else case await_target G queue inputOpen inputs w of
          Stopped w \<Rightarrow> (ri, w)
        | Received queue inputOpen inputs w \<Rightarrow>
            (case sort_key cn_name queue of
               [] \<Rightarrow> graph_loop G [] seen False [] ri w
             | item # rest \<Rightarrow>
                 if cn_name item \<in> set (cn_path item) \<or> cn_depth item > depth_limit (wp_limits G)
                 then graph_loop G rest seen inputOpen inputs ri (loop_reached w)
                 else if cn_name item \<in> set seen then graph_loop G rest seen inputOpen inputs ri w
                 else (case visit_cname G item ri w of (next, ri, w) \<Rightarrow>
                   graph_loop G (rest @ next) (cn_name item # seen) inputOpen inputs ri w)))"
  by pat_completeness auto

lemma loop_order_step:
  assumes "await_target G queue inputOpen inputs w = Received q o' i' w'" "queue \<noteq> [] \<or> inputOpen"
    and "sort_key cn_name q = item # rest" "\<forall>t \<in> set next. room G t < room G item"
  shows "((pending o' i', mset (map (room G) (rest @ next))), (pending inputOpen inputs, mset (map (room G) queue))) \<in> loop_order"
proof -
  have "mset q = mset (item # rest)" using assms(3) by (metis mset_sort)
  then have q: "mset (map (room G) q) = mset (map (room G) rest) + {#room G item#}" by simp
  have "(mset (map (room G) rest) + mset (map (room G) next), mset (map (room G) rest) + {#room G item#}) \<in> mult less_than"
    using assms(4) by (intro one_step_implies_mult) auto
  then show ?thesis
    using await_target_cases [OF assms(1,2)] q by (auto simp: loop_order_def)
qed

termination graph_loop
proof (relation "inv_image loop_order (\<lambda>(G, queue, seen, inputOpen, inputs, ri, w). (pending inputOpen inputs, mset (map (room G) queue)))",
    goal_cases)
  case 1
  then show ?case by (intro wf_inv_image wf_loop_order)
next
  case (2 G queue seen inputOpen inputs ri w q o' i' w')
  have "q = []" using 2(3) by (metis length_0_conv length_sort)
  with await_target_cases [OF 2(2)] 2(1) have "pending o' i' < pending inputOpen inputs" by auto
  then have "0 < pending inputOpen inputs" by simp
  then show ?case by (simp add: loop_order_def pending_def)
next
  case (3 G queue seen inputOpen inputs ri w q o' i' w' item rest)
  have "queue \<noteq> [] \<or> inputOpen" using 3(1) by simp
  from loop_order_step [OF 3(2) this 3(3), of "[]"] show ?case by simp
next
  case (4 G queue seen inputOpen inputs ri w q o' i' w' item rest)
  have "queue \<noteq> [] \<or> inputOpen" using 4(1) by simp
  from loop_order_step [OF 4(2) this 4(3), of "[]"] show ?case by simp
next
  case (5 G queue seen inputOpen inputs ri w q o' i' w' item rest "next" y ri' w'')
  have "queue \<noteq> [] \<or> inputOpen" using 5(1) by simp
  moreover have "visit_cname G item ri w' = (next, ri', w'')" using 5(6-) by simp
  then have "\<forall>t \<in> set next. room G t < room G item" using visit_cname_room 5(4) by fastforce
  ultimately show ?case using loop_order_step [OF 5(2) _ 5(3), of "next"] by simp
qed

declare graph_loop.simps [simp del]

text \<open>The loop rule: what holds at every head of the loop, and what its ends make of it.\<close>

lemma graph_loop_rule:
  assumes "graph_loop G queue seen inputOpen inputs ri w = (ri', w')" and "I queue seen inputOpen inputs ri w"
    and finish: "\<And>s i r w. I [] s False i r w \<Longrightarrow> Q r w"
    and stop: "\<And>q s p i r w w'. I q s p i r w \<Longrightarrow> await_target G q p i w = Stopped w' \<Longrightarrow> Q r w'"
    and closed: "\<And>q s p i r w p' i' w'. I q s p i r w \<Longrightarrow> q \<noteq> [] \<or> p \<Longrightarrow> await_target G q p i w = Received [] p' i' w' \<Longrightarrow>
      I [] s False [] r w'"
    and dropped: "\<And>q s p i r w q' p' i' w' item rest. I q s p i r w \<Longrightarrow> q \<noteq> [] \<or> p \<Longrightarrow>
      await_target G q p i w = Received q' p' i' w' \<Longrightarrow> sort_key cn_name q' = item # rest \<Longrightarrow>
      cn_name item \<in> set (cn_path item) \<or> cn_depth item > depth_limit (wp_limits G) \<Longrightarrow> I rest s p' i' r (loop_reached w')"
    and repeated: "\<And>q s p i r w q' p' i' w' item rest. I q s p i r w \<Longrightarrow> q \<noteq> [] \<or> p \<Longrightarrow>
      await_target G q p i w = Received q' p' i' w' \<Longrightarrow> sort_key cn_name q' = item # rest \<Longrightarrow>
      cn_name item \<in> set s \<Longrightarrow> I rest s p' i' r w'"
    and visited: "\<And>q s p i r w q' p' i' w' item rest next r' w''. I q s p i r w \<Longrightarrow> q \<noteq> [] \<or> p \<Longrightarrow>
      await_target G q p i w = Received q' p' i' w' \<Longrightarrow> sort_key cn_name q' = item # rest \<Longrightarrow>
      cn_name item \<notin> set (cn_path item) \<Longrightarrow> cn_depth item \<le> depth_limit (wp_limits G) \<Longrightarrow> cn_name item \<notin> set s \<Longrightarrow>
      visit_cname G item r w' = (next, r', w'') \<Longrightarrow> I (rest @ next) (cn_name item # s) p' i' r' w''"
  shows "Q ri' w'"
  using assms(1,2) finish stop closed dropped repeated visited
proof (induction G queue seen inputOpen inputs ri w arbitrary: ri' w' rule: graph_loop.induct)
  case (1 G queue seen inputOpen inputs ri w)
  note I = 1(6) and finish = 1(7) and stop = 1(8) and closed = 1(9) and dropped = 1(10) and repeated = 1(11) and visited = 1(12)
  show ?case
  proof (cases "queue = [] \<and> \<not> inputOpen")
    case True
    with 1(5) I finish show ?thesis by (subst (asm) graph_loop.simps) simp
  next
    case False
    then have more: "queue \<noteq> [] \<or> inputOpen" by simp
    show ?thesis
    proof (cases "await_target G queue inputOpen inputs w")
      case (Stopped w1)
      with 1(5) False stop [OF I Stopped] show ?thesis by (subst (asm) graph_loop.simps) auto
    next
      case (Received q o' i' w1)
      show ?thesis
      proof (cases "sort_key cn_name q")
        case Nil
        then have "q = []" by (metis length_0_conv length_sort)
        with Received have r: "await_target G queue inputOpen inputs w = Received [] o' i' w1" by simp
        from 1(5) False Received Nil have "graph_loop G [] seen False [] ri w1 = (ri', w')"
          by (subst (asm) graph_loop.simps) auto
        from 1(1) [OF False Received Nil this closed [OF I more r] finish stop closed dropped repeated visited] show ?thesis .
      next
        case (Cons item rest)
        show ?thesis
        proof (cases "cn_name item \<in> set (cn_path item) \<or> cn_depth item > depth_limit (wp_limits G)")
          case True
          with 1(5) False Received Cons have l: "graph_loop G rest seen o' i' ri (loop_reached w1) = (ri', w')"
            by (subst (asm) graph_loop.simps) auto
          from 1(2) [OF False Received Cons True l dropped [OF I more Received Cons True] finish stop closed dropped repeated visited]
          show ?thesis .
        next
          case deep: False
          show ?thesis
          proof (cases "cn_name item \<in> set seen")
            case True
            with 1(5) False Received Cons deep have l: "graph_loop G rest seen o' i' ri w1 = (ri', w')"
              by (subst (asm) graph_loop.simps) auto
            from 1(3) [OF False Received Cons deep True l repeated [OF I more Received Cons True] finish stop closed dropped repeated visited]
            show ?thesis .
          next
            case new: False
            obtain nxt ri2 w2 where v: "visit_cname G item ri w1 = (nxt, ri2, w2)" by (metis prod_cases3)
            with 1(5) False Received Cons deep new have l: "graph_loop G (rest @ nxt) (cn_name item # seen) o' i' ri2 w2 = (ri', w')"
              by (subst (asm) graph_loop.simps) auto
            have d: "cn_name item \<notin> set (cn_path item)" "cn_depth item \<le> depth_limit (wp_limits G)" using deep by simp_all
            from 1(4) [OF False Received Cons deep new v [symmetric] refl l visited [OF I more Received Cons d new v]
                finish stop closed dropped repeated visited]
            show ?thesis .
          qed
        qed
      qed
    qed
  qed
qed

definition followCNAMEGraph :: "walk_params \<Rightarrow> cname_target list \<Rightarrow> walk \<Rightarrow> int \<times> walk" where
  "followCNAMEGraph G inputs w = graph_loop G [] [] True inputs (int (length questionTypes)) w"

section \<open>The zone above a name\<close>

text \<open>What the seed queries said about the NS records of the seed: the first answered NS record ends the
  walk before it starts (\<open>None\<close>), otherwise the result is whether an NS query found no data.\<close>

fun ns_status :: "dns_env \<Rightarrow> string \<Rightarrow> bool \<Rightarrow> observation list \<Rightarrow> bool option" where
  "ns_status E seed nsNoData [] = Some nsNoData"
| "ns_status E seed nsNoData (ob # obs) =
     (case de_unmarshal E (ob_Payload ob) of
        None \<Rightarrow> ns_status E seed nsNoData obs
      | Some payload \<Rightarrow>
          if \<not> equal_fold (dp_RRType payload) ''NS'' \<or> normalizedGraphName (dp_Owner payload) \<noteq> seed
          then ns_status E seed nsNoData obs
          else let nsNoData = (nsNoData \<or> ob_Type ob = ''dns_query'' \<and> ob_Status ob = outcome_string NoData) in
               if ob_Type ob = ''dns_record'' \<and> ob_Status ob = ''answered'' then None
               else ns_status E seed nsNoData obs)"

definition zone_failed :: "string \<Rightarrow> walk \<Rightarrow> walk" where
  "zone_failed why w = with_coverage (because why \<circ> partly 1 []) w"

text \<open>The climb from the seed to the nearest name with an SOA record; the first argument is the
  number of steps left.\<close>

fun zone_loop :: "nat \<Rightarrow> walk_params \<Rightarrow> string \<Rightarrow> int \<Rightarrow> walk \<Rightarrow> int \<times> walk" where
  "zone_loop 0 G candidate ri w = (ri, zone_failed ''applicable DNS zone could not be established'' w)"
| "zone_loop (Suc n) G candidate ri w =
     (if \<not> contains candidate ''.'' then (ri, zone_failed ''applicable DNS zone could not be established'' w)
      else case dw_ctx (wp_world G) (wk_time w) of
          Some e \<Rightarrow> (ri, with_coverage (partly 1 [errorCode (wp_env G) e]) (tick w))
        | None \<Rightarrow>
            (case ask_append G ScopeInheritedZone (at_request (wp_occurrence G) ri) False
                    \<lparr>q_Name = candidate, q_Type = typeSOA\<rparr> (tick w) of
               (reply, w) \<Rightarrow>
                 if rp_Err reply = None \<and> hasSOARecord (wp_env G) (rp_Result reply) candidate
                 then (case ask_append G ScopeInheritedZone (at_request (wp_occurrence G) (ri + 1)) False
                              \<lparr>q_Name = candidate, q_Type = typeNS\<rparr> w of
                         (reply, w) \<Rightarrow>
                           if rp_Err reply = None \<and> hasNSRecord (wp_env G) (rp_Result reply) candidate then (ri + 2, w)
                           else (ri + 2, zone_failed ''applicable zone NS records unavailable'' w))
                 else (case cut CHR ''.'' candidate of
                     (_, parent, found) \<Rightarrow>
                       if \<not> found then (ri + 1, zone_failed ''applicable DNS zone could not be established'' w)
                       else zone_loop n G parent (ri + 1) w)))"

definition followInheritedZone :: "walk_params \<Rightarrow> int \<Rightarrow> walk \<Rightarrow> int \<times> walk" where
  "followInheritedZone G ri w =
     (let seed = normalizedGraphName (wp_seed G) in
      if seed = [] then (ri, w)
      else case ns_status (wp_env G) seed False (dc_Observations (wk_result w)) of
          None \<Rightarrow> (ri, w)
        | Some nsNoData \<Rightarrow>
            if \<not> nsNoData then (ri, w)
            else zone_loop (nat (depth_limit (wp_limits G))) (G\<lparr>wp_seed := seed\<rparr>) seed ri w)"

section \<open>Hosts of MX and NS records\<close>

type_synonym dependency = "string \<times> scope"

text \<open>The dependency an observation names: nothing, an invalid name, or a name with its scope.\<close>

datatype dependency_of = NoDependency | InvalidDependency | Dependency dependency

definition dependency_target :: "dns_env \<Rightarrow> observation \<Rightarrow> dependency_of" where
  "dependency_target E ob =
     (if ob_Type ob \<noteq> ''dns_record'' \<or> ob_Status ob \<noteq> ''answered'' then NoDependency
      else case de_unmarshal E (ob_Payload ob) of
          None \<Rightarrow> NoDependency
        | Some payload \<Rightarrow>
            if equal_fold (dp_RRType payload) ''MX'' then
              (case cut CHR '' '' (dp_Value payload) of
                 (_, host, found) \<Rightarrow>
                   if \<not> found \<or> host = ''.'' then NoDependency
                   else if normalizedGraphName host = [] then InvalidDependency
                   else Dependency (normalizedGraphName host, ScopeMailDependency))
            else if equal_fold (dp_RRType payload) ''NS'' then
              (if normalizedGraphName (dp_Value payload) = [] then InvalidDependency
               else Dependency (normalizedGraphName (dp_Value payload), ScopeDNSDependency))
            else NoDependency)"

fun gather_dependencies :: "dns_env \<Rightarrow> observation list \<Rightarrow> dependency list \<Rightarrow> walk \<Rightarrow> dependency list \<times> walk" where
  "gather_dependencies E [] found w = (found, w)"
| "gather_dependencies E (ob # obs) found w =
     (case dependency_target E ob of
        NoDependency \<Rightarrow> gather_dependencies E obs found w
      | InvalidDependency \<Rightarrow> gather_dependencies E obs found (zone_failed ''invalid DNS dependency target'' w)
      | Dependency d \<Rightarrow> gather_dependencies E obs (if d \<in> set found then found else found @ [d]) w)"

text \<open>The questions, in order: A and AAAA of each dependency.\<close>

fun ask_dependencies :: "walk_params \<Rightarrow> (dependency \<times> 16 word) list \<Rightarrow> int \<Rightarrow> walk \<Rightarrow> int \<times> walk" where
  "ask_dependencies G [] ri w = (ri, w)"
| "ask_dependencies G ((d, t) # rest) ri w =
     (case dw_ctx (wp_world G) (wk_time w) of
        Some e \<Rightarrow> (ri, with_coverage (partly 1 [errorCode (wp_env G) e]) (tick w))
      | None \<Rightarrow> ask_dependencies G rest (ri + 1)
          (snd (ask_append G (snd d) (at_request (wp_occurrence G) ri) False \<lparr>q_Name = fst d, q_Type = t\<rparr> (tick w))))"

definition followDependencies :: "walk_params \<Rightarrow> int \<Rightarrow> walk \<Rightarrow> int \<times> walk" where
  "followDependencies G ri w =
     (case gather_dependencies (wp_env G) (dc_Observations (wk_result w)) [] w of
        (found, w) \<Rightarrow>
          ask_dependencies G (concat (map (\<lambda>d. [(d, typeA), (d, typeAAAA)]) (sort_key (\<lambda>(n, s). [n, s]) found))) ri w)"

end
