(* ===== verification/Dns_Collector.thy ===== *)
theory Dns_Collector
  imports Dns_Graph
begin

text \<open>
  Package internal/collect/dns, collector.go: one collection. The six questions of the seed run
  concurrently; their answers are handled in the order in which they arrive, the CNAME walk runs
  beside them and receives the targets they reveal, and the walks of zone and dependencies follow.

  The answers of the seed are \<open>ar_replies\<close> in the order \<open>ar_order\<close> of the indices of their
  questions. The CNAME walk has a world of its own. Candidates of both goroutines are published in
  some interleaving of the two sequences, which \<open>ar_merge\<close> chooses.
\<close>

section \<open>Answers of the seed\<close>

record arrivals =
  ar_replies :: "nat \<Rightarrow> query_reply"
  ar_order :: "nat list"
  ar_sent :: "nat \<Rightarrow> bool"
  ar_merge :: "candidate list \<Rightarrow> candidate list \<Rightarrow> candidate list"

record seed_walk =
  sw_walk :: walk
  sw_targets :: "cname_target list"

definition count_seed_attempts :: "query_reply \<Rightarrow> coverage \<Rightarrow> coverage" where
  "count_seed_attempts reply c =
     (if \<not> rp_FromCache reply \<and> dr_Attempt (rp_Result reply) > 0
      then c\<lparr>cv_Attempted := cv_Attempted c + dr_Attempt (rp_Result reply)\<rparr> else c)"

definition seed_occurrence :: "occurrence \<Rightarrow> nat \<Rightarrow> query_reply \<Rightarrow> occurrence" where
  "seed_occurrence oc index reply =
     (let oc = at_request oc (int index) in
      if dr_Attempt (rp_Result reply) > 0 then oc\<lparr>oc_Attempt := dr_Attempt (rp_Result reply)\<rparr> else oc)"

text \<open>The target of a record goes to the channel of the CNAME walk, unless the context ends first.\<close>

definition send_target :: "walk_params \<Rightarrow> (nat \<Rightarrow> bool) \<Rightarrow> observation \<Rightarrow> seed_walk \<Rightarrow> seed_walk" where
  "send_target G sent ob s =
     (let target = cnameDestination (wp_env G) ob in
      if target = [] then s
      else if sent (wk_time (sw_walk s))
      then \<lparr>sw_walk = tick (sw_walk s), sw_targets = sw_targets s
             @ [\<lparr>cn_name = target, cn_depth = 1, cn_path = [normalizedGraphName (wp_seed G)]\<rparr>]\<rparr>
      else s\<lparr>sw_walk := with_coverage (partly 1 []) (tick (sw_walk s))\<rparr>)"

definition seed_record ::
    "walk_params \<Rightarrow> (nat \<Rightarrow> bool) \<Rightarrow> occurrence \<Rightarrow> query_reply \<Rightarrow> nat \<times> observation \<Rightarrow> seed_walk \<Rightarrow> seed_walk" where
  "seed_record G sent oc reply entry s =
     (case entry of (index, ob) \<Rightarrow>
      let ob = restamp (wp_env G) oc (rp_ObservedAt reply) index ob
      in send_target G sent ob (s\<lparr>sw_walk := with_observations [ob] (sw_walk s)\<rparr>))"

definition seed_answer :: "walk_params \<Rightarrow> arrivals \<Rightarrow> nat \<Rightarrow> seed_walk \<Rightarrow> seed_walk" where
  "seed_answer G A index s =
     (let E = wp_env G; reply = ar_replies A index; result = rp_Result reply;
          oc = seed_occurrence (wp_occurrence G) index reply;
          outcome = normalizeOutcome E result (rp_Err reply);
          ob = queryObservation E (wp_seed G) (dr_Question result) outcome result (error_text (rp_Err reply)) oc (rp_ObservedAt reply);
          s = s\<lparr>sw_walk := with_observations [ob]
                (with_coverage (count_outcome E reply \<circ> count_omitted reply \<circ> count_seed_attempts reply) (sw_walk s))\<rparr>
      in if rp_Err reply \<noteq> None then s
         else if outcome \<noteq> Answered then s
         else
           let s = fold (seed_record G (ar_sent A) oc reply) (enumerate 0 (dr_Records result)) s
           in s\<lparr>sw_walk := note_addresses G (\<lambda>owner. if owner \<noteq> wp_seed G then ScopeCNAME else ScopeRoot) oc (wp_seed G)
                  reply (wp_publish G) (sw_walk s)\<rparr>)"

section \<open>A collection\<close>

text \<open>The result of the CNAME walk is added to that of the seed.\<close>

definition add_graph :: "dns_collected \<Rightarrow> dns_collected \<Rightarrow> dns_collected" where
  "add_graph c g =
     (let cc = dc_Coverage c; gc = dc_Coverage g in
      \<lparr>dc_Observations = dc_Observations c @ dc_Observations g,
       dc_Coverage = cc\<lparr>cv_Attempted := cv_Attempted cc + cv_Attempted gc, cv_Completed := cv_Completed cc + cv_Completed gc,
         cv_Omitted := cv_Omitted cc + cv_Omitted gc, cv_Truncated := cv_Truncated cc + cv_Truncated gc,
         cv_ErrorCodes := cv_ErrorCodes cc @ cv_ErrorCodes gc,
         cv_Status := (if cv_Status gc \<noteq> CoverageComplete then CoveragePartial else cv_Status cc),
         cv_Reason := (if cv_Reason gc \<noteq> [] then cv_Reason gc else cv_Reason cc)\<rparr>,
       dc_Addresses = dc_Addresses c @ dc_Addresses g\<rparr>)"

text \<open>\<open>publish\<close> passes an address on once.\<close>

fun first_per_address :: "addr list \<Rightarrow> candidate list \<Rightarrow> candidate list" where
  "first_per_address seen [] = []"
| "first_per_address seen (c # cs) =
     (if cd_Address c \<in> set seen then first_per_address seen cs
      else c # first_per_address (cd_Address c # seen) cs)"

text \<open>\<open>W\<close> is the world of the CNAME walk, \<open>done\<close> the context after all walks. The result is what the
  collection returns, the candidates in the order of publication and the walks that ran.\<close>

definition collectOccurrence ::
    "walk_params \<Rightarrow> arrivals \<Rightarrow> dns_world \<Rightarrow> go_error option \<Rightarrow> dns_collected \<times> candidate list \<times> walk \<times> walk" where
  "collectOccurrence G A W done =
     (let seed = fold (seed_answer G A) (ar_order A) \<lparr>sw_walk = start_walk fresh_result, sw_targets = []\<rparr>;
          (next, graph) = followCNAMEGraph (G\<lparr>wp_world := W\<rparr>) (sw_targets seed) (start_walk fresh_result);
          w = (sw_walk seed)\<lparr>wk_result := add_graph (wk_result (sw_walk seed)) (wk_result graph)\<rparr>;
          (next, w) = followInheritedZone G next w;
          (next, w) = followDependencies G next w;
          w = (case done of None \<Rightarrow> w | Some e \<Rightarrow> with_coverage (partly 0 [errorCode (wp_env G) e]) w)
      in (wk_result w,
          first_per_address [] (ar_merge A (wk_candidates (sw_walk seed)) (wk_candidates graph)),
          w, graph))"

definition dns_Collect ::
    "(go_error + string) \<Rightarrow> walk_params \<Rightarrow> arrivals \<Rightarrow> dns_world \<Rightarrow> go_error option \<Rightarrow> dns_collected \<times> candidate list" where
  "dns_Collect runID G A W done =
     (case runID of
        Inl e \<Rightarrow> (\<lparr>dc_Observations = [], dc_Coverage = zero_coverage\<lparr>cv_Capability := ''dns'',
             cv_Status := CoverageUnavailable, cv_ErrorCodes := [CodeCollectionFailed],
             cv_Reason := ''create collection run ID''\<rparr>, dc_Addresses = []\<rparr>, [])
      | Inr i \<Rightarrow>
          (case collectOccurrence (G\<lparr>wp_occurrence := \<lparr>oc_CollectionRunID = i, oc_Seed = wp_seed G, oc_SeedIndex = 0,
                  oc_RequestIndex = 0, oc_Hop = 0, oc_Attempt = 1, oc_ItemIndex = 0\<rparr>\<rparr>) A W done of
             (r, cs, _) \<Rightarrow> (r, cs)))"

end
