(* ===== verification/Dns_Walks.thy ===== *)
theory Dns_Walks
  imports Dns_Collector
begin

text \<open>
  What every walk of package internal/collect/dns preserves. The locale states which primitive changes
  a property of walks must survive; its lemmas carry the property through every operation of
  graph.go and collector.go. It is interpreted on four properties: coverage that claims to be
  complete hides nothing, coverage that was degraded stays degraded, published candidates are allowed
  destinations, and a walk that may not publish publishes nothing.
\<close>

section \<open>Changes of coverage\<close>

text \<open>A change leaves a complete coverage complete only when it records no error and no omission.\<close>

definition quiet_change :: "(coverage \<Rightarrow> coverage) \<Rightarrow> bool" where
  "quiet_change f \<longleftrightarrow> (\<forall>c. cv_Status (f c) = CoverageComplete \<longrightarrow> cv_Status c = CoverageComplete
     \<and> cv_ErrorCodes (f c) = cv_ErrorCodes c \<and> cv_Omitted (f c) = cv_Omitted c)
     \<and> (\<forall>c. cv_Status (f c) = cv_Status c \<or> cv_Status (f c) = CoveragePartial)"

named_theorems quiet \<open>changes of coverage that hide nothing\<close>

lemma quiet_partly [quiet]: "quiet_change (partly n codes)"
  by (simp add: quiet_change_def partly_def)

lemma quiet_because [quiet]: "quiet_change (because why)"
  by (simp add: quiet_change_def because_def)

lemma quiet_comp [quiet]:
  assumes "quiet_change f" "quiet_change g"
  shows "quiet_change (f \<circ> g)"
  unfolding quiet_change_def
proof (rule conjI; intro allI impI)
  fix c assume "cv_Status ((f \<circ> g) c) = CoverageComplete"
  with assms(1) have f: "cv_Status (g c) = CoverageComplete" "cv_ErrorCodes (f (g c)) = cv_ErrorCodes (g c)"
      "cv_Omitted (f (g c)) = cv_Omitted (g c)" unfolding quiet_change_def by simp_all
  from assms(2) f(1) have "cv_Status c = CoverageComplete" "cv_ErrorCodes (g c) = cv_ErrorCodes c" "cv_Omitted (g c) = cv_Omitted c"
    unfolding quiet_change_def by simp_all
  with f show "cv_Status c = CoverageComplete \<and> cv_ErrorCodes ((f \<circ> g) c) = cv_ErrorCodes c \<and> cv_Omitted ((f \<circ> g) c) = cv_Omitted c"
    by simp
next
  fix c
  from assms have "cv_Status (f (g c)) = cv_Status (g c) \<or> cv_Status (f (g c)) = CoveragePartial"
      "cv_Status (g c) = cv_Status c \<or> cv_Status (g c) = CoveragePartial" unfolding quiet_change_def by blast+
  then show "cv_Status ((f \<circ> g) c) = cv_Status c \<or> cv_Status ((f \<circ> g) c) = CoveragePartial" by auto
qed

lemma quiet_attempts [quiet]: "quiet_change (count_attempts reply)" "quiet_change (count_seed_attempts reply)"
  by (simp_all add: quiet_change_def count_attempts_def count_seed_attempts_def)

lemma quiet_omitted [quiet]: "quiet_change (count_omitted reply)"
proof (cases "dr_Omitted (rp_Result reply) > 0")
  case True
  then have "count_omitted reply = partly (dr_Omitted (rp_Result reply)) [CodeBudgetExceeded]" by (simp add: count_omitted_def fun_eq_iff)
  then show ?thesis by (simp only: quiet_partly)
qed (simp add: count_omitted_def quiet_change_def)

lemma quiet_outcome [quiet]: "quiet_change (count_outcome E reply)"
proof (cases "rp_Err reply")
  case None
  show ?thesis
  proof (cases "dnsOutcomeCompleted (normalizeOutcome E (rp_Result reply) None)")
    case True
    with None show ?thesis by (simp add: count_outcome_def quiet_change_def)
  next
    case False
    with None have "count_outcome E reply = partly 0 [CodeCollectionFailed]" by (simp add: count_outcome_def fun_eq_iff)
    then show ?thesis by (simp only: quiet_partly)
  qed
next
  case (Some e)
  then have "count_outcome E reply
      = partly (if normalizeOutcome E (rp_Result reply) (Some e) = BudgetExhausted then 1 else 0) [errorCode E e]"
    by (simp add: count_outcome_def fun_eq_iff)
  then show ?thesis by (simp only: quiet_partly)
qed

section \<open>The properties walks preserve\<close>

locale walk_property =
  fixes P :: "walk \<Rightarrow> bool" and seed :: string and port :: nat and may_publish :: bool
  assumes coverage: "P w \<Longrightarrow> quiet_change f \<Longrightarrow> P (with_coverage f w)"
    and observations: "P w \<Longrightarrow> P (with_observations obs w)"
    and ticks: "P w \<Longrightarrow> P (tick w)"
    and asks: "P w \<Longrightarrow> P (w\<lparr>wk_asked := asked\<rparr>)"
    and addresses: "P w \<Longrightarrow> P (w\<lparr>wk_result := (wk_result w)\<lparr>dc_Addresses := as\<rparr>\<rparr>)"
    and publishes: "P w \<Longrightarrow> may_publish \<Longrightarrow> dd_Allowed (Check a port) \<Longrightarrow> a \<notin> set (wk_published w) \<Longrightarrow>
      P (w\<lparr>wk_published := wk_published w @ [a],
           wk_candidates := wk_candidates w @ [\<lparr>cd_Hostname = seed, cd_Address = a, cd_Port = port\<rparr>]\<rparr>)"
begin

definition fits :: "walk_params \<Rightarrow> bool \<Rightarrow> bool" where
  "fits G publish \<longleftrightarrow> wp_port G = port \<and> (publish \<longrightarrow> may_publish \<and> wp_seed G = seed)"

lemma publish:
  assumes "P w" "fits G publish" "publish" "dd_Allowed (Check a (wp_port G))" "a \<notin> set (wk_published w)"
  shows "P (w\<lparr>wk_published := wk_published w @ [a],
       wk_candidates := wk_candidates w @ [\<lparr>cd_Hostname = wp_seed G, cd_Address = a, cd_Port = wp_port G\<rparr>]\<rparr>)"
  using publishes [OF assms(1), of a] assms(2-5) by (simp add: fits_def)

lemma note_address:
  assumes "P w" "fits G publish"
  shows "P (note_address G scope_of oc fallback reply publish entry w)"
  unfolding note_address_def Let_def
  by (auto split: prod.splits intro!: publish [OF _ assms(2)] observations coverage quiet ticks addresses assms(1))

lemma note_addresses:
  assumes "P w" "fits G publish"
  shows "P (note_addresses G scope_of oc fallback reply publish w)"
proof -
  have "P (fold (note_address G scope_of oc fallback reply publish) es w)" for es
    using assms(1) by (induction es arbitrary: w) (auto intro: note_address assms(2))
  then show ?thesis by (simp add: note_addresses_def)
qed

lemma append_query: "P w \<Longrightarrow> fits G publish \<Longrightarrow> P (appendGraphQuery G scope oc reply publish w)"
  unfolding appendGraphQuery_def Let_def
  by (auto intro!: note_addresses observations coverage quiet)

lemma ask_append: "P w \<Longrightarrow> fits G publish \<Longrightarrow> P (snd (ask_append G scope oc publish question w))"
  by (auto simp: ask_append_def ask_def Let_def intro!: append_query ticks asks)

lemma ask_append': "P w \<Longrightarrow> fits G publish \<Longrightarrow> ask_append G scope oc publish question w = (reply, w') \<Longrightarrow> P w'"
  using ask_append [of w G publish scope oc question] by simp

lemma visit_cname:
  assumes "P w" "fits G (wp_publish G)" "visit_cname G item ri w = (next, ri', w')"
  shows "P w'"
  using assms(3) ask_append' [OF assms(1,2)]
  by (auto simp: visit_cname_def Let_def split: prod.splits if_splits intro!: ask_append assms(2))

lemma receive_ready: "P w \<Longrightarrow> receive_ready W queue o' i' w = Received q o'' i'' w' \<Longrightarrow> P w'"
  by (auto simp: receive_ready_def intro: ticks split: if_splits list.splits)

lemma await_target:
  assumes "P w"
  shows "await_target G queue inputOpen inputs w = Stopped w' \<Longrightarrow> P w'"
    and "await_target G queue inputOpen inputs w = Received q o' i' w' \<Longrightarrow> P w'"
  using assms receive_ready
  by (auto simp: await_target_def receive_ready_def Let_def intro!: ticks coverage quiet split: option.splits if_splits list.splits)

lemma graph_loop:
  assumes "P w" "fits G (wp_publish G)" "graph_loop G queue seen inputOpen inputs ri w = (ri', w')"
  shows "P w'"
  by (rule graph_loop_rule [OF assms(3), where I = "\<lambda>q s p i r w. P w" and Q = "\<lambda>r w. P w"])
    (auto simp: loop_reached_def intro: assms await_target visit_cname coverage quiet)

lemma zone_failed: "P w \<Longrightarrow> P (zone_failed why w)"
  unfolding zone_failed_def by (intro coverage quiet)

lemma zone_loop:
  assumes "P w" "wp_port G = port" "zone_loop n G candidate ri w = (ri', w')"
  shows "P w'"
  using assms
proof (induction n arbitrary: candidate ri w)
  case (Suc n)
  have fits: "fits G False" using Suc.prems(2) by (simp add: fits_def)
  note asked = ask_append' [OF ticks [OF Suc.prems(1)] fits] ask_append' [OF _ fits]
  show ?case using Suc.prems
    by (auto split: if_splits option.splits prod.splits dest: asked Suc.IH [OF _ Suc.prems(2)]
        intro!: zone_failed coverage quiet ticks)
qed (auto intro: zone_failed)

lemma cname_graph: "P w \<Longrightarrow> fits G (wp_publish G) \<Longrightarrow> followCNAMEGraph G inputs w = (ri', w') \<Longrightarrow> P w'"
  unfolding followCNAMEGraph_def by (rule graph_loop)

lemma inherited_zone: "P w \<Longrightarrow> wp_port G = port \<Longrightarrow> followInheritedZone G ri w = (ri', w') \<Longrightarrow> P w'"
  by (auto simp: followInheritedZone_def Let_def split: if_splits option.splits
      intro: zone_loop [of w "G\<lparr>wp_seed := normalizedGraphName (wp_seed G)\<rparr>"])

lemma gather: "P w \<Longrightarrow> P (snd (gather_dependencies E obs found w))"
  by (induction E obs found w rule: gather_dependencies.induct) (auto split: dependency_of.splits intro: zone_failed)

lemma ask_all: "P w \<Longrightarrow> fits G False \<Longrightarrow> P (snd (ask_dependencies G questions ri w))"
proof (induction G questions ri w rule: ask_dependencies.induct)
  case (2 G d t rest ri w)
  show ?case
  proof (cases "dw_ctx (wp_world G) (wk_time w)")
    case None
    from 2(1) [OF None ask_append [OF ticks [OF 2(2)] 2(3)] 2(3)] None show ?thesis by simp
  next
    case (Some e)
    with 2(2) show ?thesis by (auto intro!: coverage quiet ticks)
  qed
qed simp

lemma dependencies:
  assumes "P w" "wp_port G = port"
  shows "P (snd (followDependencies G ri w))"
proof -
  have "fits G False" using assms(2) by (simp add: fits_def)
  with gather [OF assms(1), of "wp_env G" "dc_Observations (wk_result w)" "[]"] show ?thesis
    by (auto simp: followDependencies_def split: prod.splits intro: ask_all)
qed

lemma seed_record: "P (sw_walk s) \<Longrightarrow> P (sw_walk (seed_record G sent oc reply entry s))"
  by (auto simp: seed_record_def send_target_def Let_def split: prod.splits intro!: observations coverage quiet ticks)

lemma seed_records: "P (sw_walk s) \<Longrightarrow> P (sw_walk (fold (seed_record G sent oc reply) es s))"
  by (induction es arbitrary: s) (auto intro: seed_record)

lemma seed_answer:
  assumes "P (sw_walk s)" "fits G (wp_publish G)"
  shows "P (sw_walk (seed_answer G A index s))"
  unfolding seed_answer_def Let_def
  by (auto intro!: note_addresses seed_records observations coverage quiet assms)

lemma seed_answers: "P (sw_walk s) \<Longrightarrow> fits G (wp_publish G) \<Longrightarrow> P (sw_walk (fold (seed_answer G A) order s))"
  by (induction order arbitrary: s) (auto intro: seed_answer)

end

section \<open>Four properties\<close>

definition hides_nothing :: "walk \<Rightarrow> bool" where
  "hides_nothing w \<longleftrightarrow> (cv_Status (dc_Coverage (wk_result w)) = CoverageComplete \<longrightarrow>
     cv_ErrorCodes (dc_Coverage (wk_result w)) = [] \<and> cv_Omitted (dc_Coverage (wk_result w)) = 0)"

definition degraded :: "walk \<Rightarrow> bool" where
  "degraded w \<longleftrightarrow> cv_Status (dc_Coverage (wk_result w)) \<noteq> CoverageComplete"

definition publishes_allowed :: "string \<Rightarrow> nat \<Rightarrow> walk \<Rightarrow> bool" where
  "publishes_allowed seed port w \<longleftrightarrow>
     wk_published w = map cd_Address (wk_candidates w) \<and> distinct (map cd_Address (wk_candidates w))
     \<and> (\<forall>c \<in> set (wk_candidates w). cd_Hostname c = seed \<and> cd_Port c = port \<and> dd_Allowed (Check (cd_Address c) port))"

lemmas walk_ops = with_coverage_def with_observations_def tick_def

interpretation hiding: walk_property hides_nothing seed port True
  by unfold_locales (auto simp: hides_nothing_def walk_ops quiet_change_def)

interpretation degrading: walk_property degraded seed port True
  by unfold_locales (auto simp: degraded_def walk_ops quiet_change_def)

text \<open>The status of a walk that starts complete is never anything but complete or partial.\<close>

definition graded :: "walk \<Rightarrow> bool" where
  "graded w \<longleftrightarrow> cv_Status (dc_Coverage (wk_result w)) \<in> {CoverageComplete, CoveragePartial}"

lemma quiet_grade: "quiet_change f \<Longrightarrow> cv_Status (f c) = cv_Status c \<or> cv_Status (f c) = CoveragePartial"
  by (simp add: quiet_change_def)

interpretation grading: walk_property graded seed port True
proof (unfold_locales, goal_cases)
  case (1 w f)
  with quiet_grade [OF 1(2), of "dc_Coverage (wk_result w)"] show ?case by (auto simp: graded_def walk_ops)
qed (auto simp: graded_def walk_ops)

interpretation publishing: walk_property "publishes_allowed seed port" seed port True
  by unfold_locales (auto simp: publishes_allowed_def walk_ops)

interpretation settled: walk_property "\<lambda>w. wk_published w = ps" seed port False
  by unfold_locales (auto simp: walk_ops)

end
