(* ===== verification/Dns_Cname.thy ===== *)
theory Dns_Cname
  imports Dns_Walks
begin

text \<open>
  What the CNAME walk of internal/collect/dns, graph.go, asks: names reachable by loop-free chains of
  links, each once, and when it reports complete coverage, all of them.
\<close>

section \<open>Questions of a walk\<close>

lemma asked_simps [simp]:
  "wk_asked (with_coverage f w) = wk_asked w" "wk_asked (with_observations obs w) = wk_asked w" "wk_asked (tick w) = wk_asked w"
  by (simp_all add: walk_ops)

lemma asked_note [simp]: "wk_asked (note_address G sc oc fb reply publish entry w) = wk_asked w"
  by (auto simp: note_address_def Let_def split: prod.splits)

lemma asked_notes [simp]: "wk_asked (note_addresses G sc oc fb reply publish w) = wk_asked w"
proof -
  have "wk_asked (fold (note_address G sc oc fb reply publish) es w) = wk_asked w" for es
    by (induction es arbitrary: w) simp_all
  then show ?thesis by (simp add: note_addresses_def)
qed

lemma asked_append [simp]: "wk_asked (appendGraphQuery G sc oc reply publish w) = wk_asked w"
  by (simp add: appendGraphQuery_def Let_def)

lemma asked_ask: "ask_append G sc oc publish q w = (reply, w') \<Longrightarrow> wk_asked w' = wk_asked w @ [(q, reply)]"
  by (auto simp: ask_append_def ask_def Let_def)

lemma asked_await:
  "await_target G q p i w = Stopped w' \<Longrightarrow> wk_asked w' = wk_asked w"
  "await_target G q p i w = Received q' p' i' w' \<Longrightarrow> wk_asked w' = wk_asked w"
  by (auto simp: await_target_def receive_ready_def Let_def split: option.splits list.splits if_splits)

definition cname_questions :: "(dns_question \<times> query_reply) list \<Rightarrow> string list" where
  "cname_questions asked = map (q_Name \<circ> fst) (filter (\<lambda>(q, r). q_Type q = typeCNAME) asked)"

text \<open>The links the replies showed.\<close>

definition links :: "dns_env \<Rightarrow> (dns_question \<times> query_reply) list \<Rightarrow> string \<Rightarrow> string \<Rightarrow> bool" where
  "links E asked x y \<longleftrightarrow> (\<exists>q r. (q, r) \<in> set asked \<and> q_Name q = x \<and> q_Type q = typeCNAME \<and> rp_Err r = None
     \<and> normalizeOutcome E (rp_Result r) None \<in> {Answered, NoData} \<and> y \<in> set (destinations E (rp_Result r)))"

lemma links_append: "links E xs x y \<Longrightarrow> links E (xs @ ys) x y"
  by (auto simp: links_def)

text \<open>What one visit does: it asks for the CNAME of its target first, and nothing but addresses after.\<close>

lemma visit_cname_asked:
  assumes "visit_cname G item ri w = (next, ri', w')"
  obtains reply more where
    "wk_asked w' = wk_asked w @ (\<lparr>q_Name = cn_name item, q_Type = typeCNAME\<rparr>, reply) # more"
    "\<forall>(q, r) \<in> set more. q_Name q = cn_name item \<and> q_Type q \<in> {typeA, typeAAAA}"
    "ri' = ri + 1 + int (length more)"
    "next = (if rp_Err reply = None \<and> normalizeOutcome (wp_env G) (rp_Result reply) None \<in> {Answered, NoData}
       then map (\<lambda>t. \<lparr>cn_name = t, cn_depth = cn_depth item + 1, cn_path = cn_path item @ [cn_name item]\<rparr>)
              (sort (destinations (wp_env G) (rp_Result reply)))
       else [])"
proof -
  define at where "at = (\<lambda>i. (at_request (wp_occurrence G) i)\<lparr>oc_Hop := cn_depth item\<rparr>)"
  define question where "question = (\<lambda>t. \<lparr>q_Name = cn_name item, q_Type = t :: 16 word\<rparr>)"
  obtain reply w1 where 1: "ask_append G ScopeCNAME (at ri) (wp_publish G) (question typeCNAME) w = (reply, w1)" by fastforce
  obtain ra w2 where 2: "ask_append G ScopeCNAME (at (ri + 1)) (wp_publish G) (question typeA) w1 = (ra, w2)" by fastforce
  obtain rb w3 where 3: "ask_append G ScopeCNAME (at (ri + 2)) (wp_publish G) (question typeAAAA) w2 = (rb, w3)" by fastforce
  note asked = asked_ask [OF 1] asked_ask [OF 2] asked_ask [OF 3]
  let ?out = "normalizeOutcome (wp_env G) (rp_Result reply) (rp_Err reply)"
  have v: "(next, ri', w') =
     (if rp_Err reply \<noteq> None \<or> ?out \<noteq> Answered \<and> ?out \<noteq> NoData then ([], ri + 1, w1)
      else if destinations (wp_env G) (rp_Result reply) \<noteq> []
      then (map (\<lambda>t. \<lparr>cn_name = t, cn_depth = cn_depth item + 1, cn_path = cn_path item @ [cn_name item]\<rparr>)
              (sort (destinations (wp_env G) (rp_Result reply))), ri + 1, w1)
      else ([], ri + 3, w3))"
    using assms 1 2 3 unfolding visit_cname_def at_def question_def Let_def by (auto split: if_splits)
  consider "rp_Err reply \<noteq> None \<or> ?out \<noteq> Answered \<and> ?out \<noteq> NoData"
    | "rp_Err reply = None" "?out \<in> {Answered, NoData}" "destinations (wp_env G) (rp_Result reply) \<noteq> []"
    | "rp_Err reply = None" "?out \<in> {Answered, NoData}" "destinations (wp_env G) (rp_Result reply) = []" by blast
  then show ?thesis
  proof cases
    case 1
    with v asked(1) show ?thesis by (intro that [of reply "[]"]) (auto simp: question_def)
  next
    case 2
    with v asked(1) show ?thesis by (intro that [of reply "[]"]) (auto simp: question_def)
  next
    case 3
    with v asked show ?thesis
      by (intro that [of reply "[(question typeA, ra), (question typeAAAA, rb)]"]) (auto simp: question_def)
  qed
qed

section \<open>The invariant of the loop\<close>

text \<open>How a name was reached: along a loop-free path from the root whose first step is an input and whose
  later steps are links.\<close>

definition reached_by :: "dns_env \<Rightarrow> string set \<Rightarrow> string \<Rightarrow> (dns_question \<times> query_reply) list \<Rightarrow> string list \<Rightarrow> string \<Rightarrow> bool" where
  "reached_by E starts root asked path x \<longleftrightarrow>
     path \<noteq> [] \<and> hd path = root \<and> distinct path \<and> hd (tl path @ [x]) \<in> starts
     \<and> successively (links E asked) (tl path @ [x])"

lemma reached_by_mono: "reached_by E starts root xs path x \<Longrightarrow> reached_by E starts root (xs @ ys) path x"
  unfolding reached_by_def by (auto intro: successively_mono links_append)

lemma reached_by_step:
  assumes "reached_by E starts root asked path x" "x \<notin> set path" "links E asked x y"
  shows "reached_by E starts root asked (path @ [x]) y"
  using assms unfolding reached_by_def
  by (auto simp: successively_append_iff hd_append)

definition item_ok :: "dns_env \<Rightarrow> string set \<Rightarrow> string \<Rightarrow> (dns_question \<times> query_reply) list \<Rightarrow> cname_target \<Rightarrow> bool" where
  "item_ok E starts root asked t \<longleftrightarrow>
     cn_depth t = int (length (cn_path t)) \<and> reached_by E starts root asked (cn_path t) (cn_name t)"

definition names :: "cname_target list \<Rightarrow> string set" where
  "names ts = cn_name ` set ts"

lemma names_simps [simp]: "names [] = {}" "names (t # ts) = insert (cn_name t) (names ts)" "names (xs @ ys) = names xs \<union> names ys"
  by (auto simp: names_def)

definition cname_inv ::
    "walk_params \<Rightarrow> string \<Rightarrow> string set \<Rightarrow> cname_target list \<Rightarrow> string list \<Rightarrow> bool \<Rightarrow> cname_target list \<Rightarrow> int \<Rightarrow> walk \<Rightarrow> bool" where
  "cname_inv G root starts queue seen p inputs ri w \<longleftrightarrow>
     cname_questions (wk_asked w) = rev seen \<and> distinct seen
     \<and> (\<forall>(q, r) \<in> set (wk_asked w). q_Name q \<in> set seen \<and> q_Type q \<in> {typeCNAME, typeA, typeAAAA})
     \<and> ri = 6 + int (length (wk_asked w))
     \<and> (\<forall>t \<in> set queue \<union> set inputs. item_ok (wp_env G) starts root (wk_asked w) t)
     \<and> (\<forall>x \<in> set seen. \<exists>path. length path \<le> nat (depth_limit (wp_limits G)) \<and> x \<notin> set path
          \<and> reached_by (wp_env G) starts root (wk_asked w) path x)
     \<and> (\<not> degraded w \<longrightarrow> starts \<subseteq> set seen \<union> names queue \<union> names inputs
          \<and> (\<forall>x y. links (wp_env G) (wk_asked w) x y \<longrightarrow> y \<in> set seen \<union> names queue))
     \<and> (\<not> p \<longrightarrow> inputs = [])"

lemma await_names:
  assumes "await_target G q p i w = Received q' p' i' w'" "q \<noteq> [] \<or> p" "\<not> p \<longrightarrow> i = []"
  shows "set q' \<union> set i' = set q \<union> set i" "\<not> p' \<longrightarrow> i' = []" "set q \<subseteq> set q'" "q' = [] \<Longrightarrow> i' = [] \<and> \<not> p'"
  using assms
  by (auto simp: await_target_def receive_ready_def Let_def split: option.splits list.splits if_splits)

lemma await_degraded:
  "await_target G q p i w = Stopped w' \<Longrightarrow> degraded w'"
  "await_target G q p i w = Received q' p' i' w' \<Longrightarrow> degraded w' = degraded w"
  by (auto simp: await_target_def receive_ready_def Let_def degraded_def walk_ops partly_def
      split: option.splits list.splits if_splits)

lemma names_subset: "set xs \<subseteq> set ys \<Longrightarrow> names xs \<subseteq> names ys"
  by (auto simp: names_def)

text \<open>Waiting keeps the invariant.\<close>

lemma await_inv:
  assumes inv: "cname_inv G root starts q s p i r w" and more: "q \<noteq> [] \<or> p"
    and a: "await_target G q p i w = Received q' p' i' w'"
  shows "cname_inv G root starts q' s p' i' r w'"
proof -
  have closed: "\<not> p \<longrightarrow> i = []" using inv by (simp add: cname_inv_def)
  note n = await_names [OF a more closed]
  have u: "names q' \<union> names i' = names q \<union> names i"
    using n(1) unfolding names_def by (metis image_Un)
  have q: "names q \<subseteq> names q'" using n(3) by (rule names_subset)
  show ?thesis
    using inv n(1,2) u q unfolding cname_inv_def asked_await(2) [OF a] await_degraded(2) [OF a] by blast
qed

text \<open>So does dropping the head of the queue: when it is repeated, or when the walk reports the loss.\<close>

lemma drop_inv:
  assumes inv: "cname_inv G root starts q s p i r w" and q: "sort_key cn_name q = item # rest"
    and w': "wk_asked w' = wk_asked w" "degraded w \<Longrightarrow> degraded w'" and "cn_name item \<in> set s \<or> degraded w'"
  shows "cname_inv G root starts rest s p i r w'"
proof -
  have "set q = set (item # rest)" using q by (metis set_sort)
  then have "set rest \<subseteq> set q" "names q = insert (cn_name item) (names rest)" by (auto simp: names_def)
  then show ?thesis using inv w'(2) assms(5) unfolding cname_inv_def w'(1) by auto
qed

lemma visit_degraded: "degraded w \<Longrightarrow> visit_cname G item ri w = (next, ri', w') \<Longrightarrow> degraded w'"
  by (rule degrading.visit_cname [where seed = "wp_seed G" and port = "wp_port G"]) (simp_all add: degrading.fits_def)

lemma visit_inv:
  assumes inv: "cname_inv G root starts q s p i r w" and q: "sort_key cn_name q = item # rest"
    and item: "cn_name item \<notin> set (cn_path item)" "cn_depth item \<le> depth_limit (wp_limits G)" "cn_name item \<notin> set s"
    and v: "visit_cname G item r w = (next, r', w')"
  shows "cname_inv G root starts (rest @ next) (cn_name item # s) p i r' w'"
proof -
  let ?E = "wp_env G"
  have set_q: "set q = insert item (set rest)" using q by (metis set_sort list.simps(15))
  then have names_q: "names q = insert (cn_name item) (names rest)" by (auto simp: names_def)
  obtain reply more where
    asked: "wk_asked w' = wk_asked w @ (\<lparr>q_Name = cn_name item, q_Type = typeCNAME\<rparr>, reply) # more"
    and more: "\<forall>(q, r) \<in> set more. q_Name q = cn_name item \<and> q_Type q \<in> {typeA, typeAAAA}"
    and r': "r' = r + 1 + int (length more)"
    and nxt: "next = (if rp_Err reply = None \<and> normalizeOutcome ?E (rp_Result reply) None \<in> {Answered, NoData}
       then map (\<lambda>t. \<lparr>cn_name = t, cn_depth = cn_depth item + 1, cn_path = cn_path item @ [cn_name item]\<rparr>)
              (sort (destinations ?E (rp_Result reply)))
       else [])"
    by (rule visit_cname_asked [OF v])
  let ?asked = "wk_asked w" and ?asked' = "wk_asked w'"
  have parts: "cname_questions ?asked = rev s" "distinct s"
      "\<forall>(q, r) \<in> set ?asked. q_Name q \<in> set s \<and> q_Type q \<in> {typeCNAME, typeA, typeAAAA}"
      "r = 6 + int (length ?asked)" "\<forall>t \<in> set q \<union> set i. item_ok ?E starts root ?asked t"
      "\<forall>x \<in> set s. \<exists>path. length path \<le> nat (depth_limit (wp_limits G)) \<and> x \<notin> set path \<and> reached_by ?E starts root ?asked path x"
      "\<not> degraded w \<longrightarrow> starts \<subseteq> set s \<union> names q \<union> names i \<and> (\<forall>x y. links ?E ?asked x y \<longrightarrow> y \<in> set s \<union> names q)"
      "\<not> p \<longrightarrow> i = []"
    using inv unfolding cname_inv_def by blast+
  have mono: "reached_by ?E starts root ?asked path x \<Longrightarrow> reached_by ?E starts root ?asked' path x" for path x
    unfolding asked by (rule reached_by_mono)
  have okmono: "item_ok ?E starts root ?asked t \<Longrightarrow> item_ok ?E starts root ?asked' t" for t
    unfolding item_ok_def using mono by blast
  have item_ok: "item_ok ?E starts root ?asked item" using parts(5) set_q by blast
  have more_cname: "filter (\<lambda>(q, r). q_Type q = typeCNAME) more = []"
    using more by (auto simp: filter_empty_conv)
  have new_link: "links ?E ?asked' x y \<longleftrightarrow> links ?E ?asked x y \<or> x = cn_name item \<and> rp_Err reply = None
      \<and> normalizeOutcome ?E (rp_Result reply) None \<in> {Answered, NoData} \<and> y \<in> set (destinations ?E (rp_Result reply))" for x y
    using more unfolding links_def asked by fastforce
  have next_ok: "item_ok ?E starts root ?asked' t" if t: "t \<in> set next" for t
  proof -
    from t nxt obtain y where y: "y \<in> set (destinations ?E (rp_Result reply))" "rp_Err reply = None"
        "normalizeOutcome ?E (rp_Result reply) None \<in> {Answered, NoData}"
        "t = \<lparr>cn_name = y, cn_depth = cn_depth item + 1, cn_path = cn_path item @ [cn_name item]\<rparr>"
      by (auto split: if_splits)
    have "links ?E ?asked' (cn_name item) y" using new_link y by blast
    moreover have "reached_by ?E starts root ?asked' (cn_path item) (cn_name item)"
      using okmono [OF item_ok] by (simp add: item_ok_def)
    ultimately have "reached_by ?E starts root ?asked' (cn_path item @ [cn_name item]) y"
      using item(1) by (intro reached_by_step)
    with item_ok show ?thesis by (simp add: item_ok_def y(4))
  qed
  show ?thesis unfolding cname_inv_def
  proof (intro conjI)
    show "cname_questions ?asked' = rev (cn_name item # s)"
      using parts(1) more_cname by (simp add: cname_questions_def asked)
    show "distinct (cn_name item # s)" using parts(2) item(3) by simp
    show "\<forall>(q, r) \<in> set ?asked'. q_Name q \<in> set (cn_name item # s) \<and> q_Type q \<in> {typeCNAME, typeA, typeAAAA}"
      using parts(3) more unfolding asked by auto
    show "r' = 6 + int (length ?asked')" using parts(4) by (simp add: r' asked)
    show "\<forall>t \<in> set (rest @ next) \<union> set i. item_ok ?E starts root ?asked' t"
      using parts(5) set_q okmono next_ok by auto
    have "length (cn_path item) \<le> nat (depth_limit (wp_limits G))"
      using item(2) item_ok by (auto simp: item_ok_def)
    moreover have "reached_by ?E starts root ?asked' (cn_path item) (cn_name item)"
      using okmono [OF item_ok] by (simp add: item_ok_def)
    ultimately show "\<forall>x \<in> set (cn_name item # s). \<exists>path. length path \<le> nat (depth_limit (wp_limits G)) \<and> x \<notin> set path
        \<and> reached_by ?E starts root ?asked' path x"
      using parts(6) item(1) mono by (metis set_ConsD)
    have "names next = (if rp_Err reply = None \<and> normalizeOutcome ?E (rp_Result reply) None \<in> {Answered, NoData}
        then set (destinations ?E (rp_Result reply)) else {})"
      unfolding nxt by (auto simp: names_def image_image)
    then show "\<not> degraded w' \<longrightarrow> starts \<subseteq> set (cn_name item # s) \<union> names (rest @ next) \<union> names i
          \<and> (\<forall>x y. links ?E ?asked' x y \<longrightarrow> y \<in> set (cn_name item # s) \<union> names (rest @ next))"
      using parts(7) visit_degraded [OF _ v] names_q new_link by auto
    show "\<not> p \<longrightarrow> i = []" by (rule parts(8))
  qed
qed

section \<open>What the walk asks\<close>

lemma followCNAMEGraph_inv:
  assumes "followCNAMEGraph G inputs (start_walk r0) = (ri, w)"
    and "\<forall>t \<in> set inputs. cn_depth t = 1 \<and> cn_path t = [root]"
  shows "\<exists>s. cname_inv G root (names inputs) [] s False [] ri w \<or> degraded w \<and> (\<exists>q p i. cname_inv G root (names inputs) q s p i ri w)"
proof (rule graph_loop_rule [OF assms(1) [unfolded followCNAMEGraph_def], where I = "cname_inv G root (names inputs)"])
  show "cname_inv G root (names inputs) [] [] True inputs (int (length questionTypes)) (start_walk r0)"
    using assms(2) by (auto simp: cname_inv_def start_walk_def questionTypes_def cname_questions_def links_def item_ok_def
        reached_by_def names_def)
next
  fix s i r w assume inv: "cname_inv G root (names inputs) [] s False i r w"
  then have "i = []" by (simp add: cname_inv_def)
  with inv show "\<exists>s. cname_inv G root (names inputs) [] s False [] r w \<or> degraded w \<and> (\<exists>q p i. cname_inv G root (names inputs) q s p i r w)"
    by blast
next
  fix q s p i r w w' assume inv: "cname_inv G root (names inputs) q s p i r w" and stop: "await_target G q p i w = Stopped w'"
  have "degraded w'" by (rule await_degraded(1) [OF stop])
  moreover have "cname_inv G root (names inputs) q s p i r w'"
    using inv \<open>degraded w'\<close> unfolding cname_inv_def asked_await(1) [OF stop] by blast
  ultimately show "\<exists>s. cname_inv G root (names inputs) [] s False [] r w' \<or> degraded w' \<and> (\<exists>q p i. cname_inv G root (names inputs) q s p i r w')"
    by blast
next
  fix q s p i r w p' i' w' assume inv: "cname_inv G root (names inputs) q s p i r w" and "q \<noteq> [] \<or> p"
    and a: "await_target G q p i w = Received [] p' i' w'"
  from await_inv [OF this] await_names(4) [OF a] show "cname_inv G root (names inputs) [] s False [] r w'"
    using inv \<open>q \<noteq> [] \<or> p\<close> by (simp add: cname_inv_def)
next
  fix q s p i r w q' p' i' w' item rest
  assume inv: "cname_inv G root (names inputs) q s p i r w" and "q \<noteq> [] \<or> p" and "await_target G q p i w = Received q' p' i' w'"
    and q: "sort_key cn_name q' = item # rest"
  note aw = await_inv [OF inv this(2,3)]
  have "degraded (loop_reached w')" by (simp add: loop_reached_def degraded_def walk_ops partly_def because_def)
  then show "cname_inv G root (names inputs) rest s p' i' r (loop_reached w')"
    by (intro drop_inv [OF aw q]) (simp_all add: loop_reached_def)
next
  fix q s p i r w q' p' i' w' item rest
  assume inv: "cname_inv G root (names inputs) q s p i r w" and "q \<noteq> [] \<or> p" and "await_target G q p i w = Received q' p' i' w'"
    and q: "sort_key cn_name q' = item # rest" and "cn_name item \<in> set s"
  then show "cname_inv G root (names inputs) rest s p' i' r w'"
    by (intro drop_inv [OF await_inv [OF inv] q]) auto
next
  fix q s p i r w q' p' i' w' item rest nxt r' w''
  assume inv: "cname_inv G root (names inputs) q s p i r w" and "q \<noteq> [] \<or> p" and "await_target G q p i w = Received q' p' i' w'"
    and q: "sort_key cn_name q' = item # rest" and "cn_name item \<notin> set (cn_path item)"
    "cn_depth item \<le> depth_limit (wp_limits G)" "cn_name item \<notin> set s" "visit_cname G item r w' = (nxt, r', w'')"
  then show "cname_inv G root (names inputs) (rest @ nxt) (cn_name item # s) p' i' r' w''"
    by (intro visit_inv [OF await_inv [OF inv] q]) auto
qed

lemma successively_rtranclp:
  "successively R (xs @ [y]) \<Longrightarrow> hd (xs @ [y]) = x \<Longrightarrow> R\<^sup>*\<^sup>* x y"
proof (induction xs arbitrary: x)
  case (Cons a xs)
  then have "R\<^sup>*\<^sup>* (hd (xs @ [y])) y" by (cases xs) auto
  moreover have "R a (hd (xs @ [y]))" using Cons.prems(1) by (cases xs) auto
  ultimately show ?case using Cons.prems(2) by (auto intro: converse_rtranclp_into_rtranclp)
qed simp

text \<open>C15: The walk along CNAME links always ends. Whatever the resolver answers and however the messages
  arrive, it asks for the CNAME of each name at most once and for nothing but the CNAME, A and AAAA
  records of those names, numbers its requests one after the other from six, and reaches every name by a
  loop-free path of at most as many steps as the configured chain depth, from a received target over
  links that replies showed. When it reports complete coverage it has asked for exactly the names that
  are reachable.\<close>

theorem cname_walk_exact:
  assumes "followCNAMEGraph G inputs (start_walk r0) = (ri, w)"
    and "\<forall>t \<in> set inputs. cn_depth t = 1 \<and> cn_path t = [root]"
  shows "distinct (cname_questions (wk_asked w))
    \<and> (\<forall>(q, r) \<in> set (wk_asked w). q_Name q \<in> set (cname_questions (wk_asked w)) \<and> q_Type q \<in> {typeCNAME, typeA, typeAAAA})
    \<and> ri = 6 + int (length (wk_asked w))
    \<and> (\<forall>x \<in> set (cname_questions (wk_asked w)). \<exists>path. length path \<le> nat (depth_limit (wp_limits G)) \<and> x \<notin> set path
         \<and> reached_by (wp_env G) (cn_name ` set inputs) root (wk_asked w) path x)
    \<and> (cv_Status (dc_Coverage (wk_result w)) = CoverageComplete \<longrightarrow>
         set (cname_questions (wk_asked w)) = {x. \<exists>t \<in> set inputs. (links (wp_env G) (wk_asked w))\<^sup>*\<^sup>* (cn_name t) x})"
proof -
  from followCNAMEGraph_inv [OF assms] obtain s q p i where
    inv: "cname_inv G root (names inputs) q s p i ri w" and fin: "degraded w \<or> q = [] \<and> i = []" by blast
  have qs: "cname_questions (wk_asked w) = rev s" using inv by (simp add: cname_inv_def)
  have paths: "\<exists>path. length path \<le> nat (depth_limit (wp_limits G)) \<and> x \<notin> set path
         \<and> reached_by (wp_env G) (names inputs) root (wk_asked w) path x" if "x \<in> set s" for x
    using inv that unfolding cname_inv_def by blast
  have "set s = {x. \<exists>t \<in> set inputs. (links (wp_env G) (wk_asked w))\<^sup>*\<^sup>* (cn_name t) x}" if "\<not> degraded w"
  proof (intro equalityI subsetI)
    fix x assume "x \<in> set s"
    from paths [OF this] obtain path where r: "reached_by (wp_env G) (names inputs) root (wk_asked w) path x" by blast
    then have "(links (wp_env G) (wk_asked w))\<^sup>*\<^sup>* (hd (tl path @ [x])) x"
      unfolding reached_by_def by (intro successively_rtranclp [of _ "tl path"]) auto
    with r show "x \<in> {x. \<exists>t \<in> set inputs. (links (wp_env G) (wk_asked w))\<^sup>*\<^sup>* (cn_name t) x}"
      unfolding reached_by_def names_def by auto
  next
    fix x assume "x \<in> {x. \<exists>t \<in> set inputs. (links (wp_env G) (wk_asked w))\<^sup>*\<^sup>* (cn_name t) x}"
    then obtain t where t: "t \<in> set inputs" "(links (wp_env G) (wk_asked w))\<^sup>*\<^sup>* (cn_name t) x" by blast
    have closed: "names inputs \<subseteq> set s" "\<And>x y. links (wp_env G) (wk_asked w) x y \<Longrightarrow> y \<in> set s"
      using inv fin that unfolding cname_inv_def by auto
    from t(2) show "x \<in> set s"
      by (cases rule: rtranclp.cases) (use closed t(1) in \<open>auto simp: names_def\<close>)
  qed
  moreover have "distinct (rev s) \<and> (\<forall>(q, r) \<in> set (wk_asked w). q_Name q \<in> set (rev s) \<and> q_Type q \<in> {typeCNAME, typeA, typeAAAA})
      \<and> ri = 6 + int (length (wk_asked w))"
    using inv unfolding cname_inv_def by simp
  ultimately show ?thesis
    using paths unfolding qs degraded_def names_def by simp
qed

definition link_env :: dns_env where
  "link_env = \<lparr>de_unmarshal = (\<lambda>s. Some (zero_payload\<lparr>dp_RRType := ''CNAME'', dp_Value := s\<rparr>)), de_marshal = (\<lambda>p. dp_RRType p),
     de_hash = (\<lambda>_. []), de_net_timeout = (\<lambda>_. False)\<rparr>"

definition link_record :: "string \<Rightarrow> observation" where
  "link_record target = \<lparr>ob_ID = [], ob_Type = ''dns_record'', ob_Subject = [], ob_Relation = [], ob_Scope = [], ob_ObservedAt = 0,
     ob_CollectorVersion = [], ob_Status = ''answered'', ob_Payload = target, ob_ContentHash = []\<rparr>"

text \<open>A resolver that knows one link, from \<open>a.example\<close> to \<open>b.example\<close>.\<close>

definition link_world :: dns_world where
  "link_world = \<lparr>dw_query = (\<lambda>_ q. \<lparr>rp_Result =
       (if q = \<lparr>q_Name = ''a.example'', q_Type = typeCNAME\<rparr>
        then (empty_result q Answered)\<lparr>dr_Records := [link_record ''b.example.'']\<rparr> else empty_result q NoData),
       rp_ObservedAt = 1, rp_FromCache = False, rp_Err = None\<rparr>),
     dw_reserve = (\<lambda>_. True), dw_ctx = (\<lambda>_. None), dw_ready = (\<lambda>_. False)\<rparr>"

definition link_params :: walk_params where
  "link_params = \<lparr>wp_env = link_env, wp_world = link_world, wp_limits = DefaultLimits, wp_seed = ''www.example'', wp_port = 443,
     wp_occurrence = \<lparr>oc_CollectionRunID = [], oc_Seed = [], oc_SeedIndex = 0, oc_RequestIndex = 0, oc_Hop = 0, oc_Attempt = 1,
       oc_ItemIndex = 0\<rparr>, wp_publish = True\<rparr>"

definition link_input :: cname_target where
  "link_input = \<lparr>cn_name = ''a.example'', cn_depth = 1, cn_path = [''www.example'']\<rparr>"

theorem cname_walk_exact_witness:
  "\<exists>ri w. followCNAMEGraph link_params [link_input] (start_walk fresh_result) = (ri, w)
     \<and> distinct (cname_questions (wk_asked w)) \<and> ri = 6 + int (length (wk_asked w))"
proof -
  obtain ri w where w: "followCNAMEGraph link_params [link_input] (start_walk fresh_result) = (ri, w)" by fastforce
  from cname_walk_exact [OF w, of "''www.example''"] w show ?thesis by (auto simp: link_input_def)
qed

end
