(* ===== verification/Dns_Properties.thy ===== *)
theory Dns_Properties
  imports Dns_Cname Go_Library
begin

text \<open>
  What a whole collection of internal/collect/dns, collector.go, guarantees: distinct identifiers,
  coverage that hides nothing and candidates that the destination policy allows.
\<close>

section \<open>Occurrences\<close>

definition slot :: "key \<Rightarrow> string \<times> int \<times> int" where
  "slot key = (case key of (kind, oc, attributes) \<Rightarrow> (kind, oc_RequestIndex oc, oc_ItemIndex oc))"

definition kinds :: "string set" where
  "kinds = {''dns-query'', ''dns-record'', ''dns-address''}"

text \<open>Occurrences of the same seed as a collection; observations with the identifiers of distinct
  occurrences of its requests \<open>R\<close>.\<close>

abbreviation own :: "walk_params \<Rightarrow> occurrence \<Rightarrow> bool" where
  "own G oc \<equiv> oc_SeedIndex oc = oc_SeedIndex (wp_occurrence G)"

definition ids_in :: "walk_params \<Rightarrow> int set \<Rightarrow> observation list \<Rightarrow> bool" where
  "ids_in G R obs \<longleftrightarrow> (\<exists>keys. map ob_ID obs = map (key_id (wp_env G)) keys \<and> distinct (map slot keys)
     \<and> (\<forall>(kind, oc, attributes) \<in> set keys. kind \<in> kinds \<and> oc_RequestIndex oc \<in> R \<and> own G oc))"

lemma ids_in_params [simp]: "ids_in (G\<lparr>wp_world := W\<rparr>) = ids_in G" "ids_in (G\<lparr>wp_seed := seed\<rparr>) = ids_in G"
  by (simp_all add: ids_in_def fun_eq_iff)

lemma ids_in_Nil [simp]: "ids_in G R []"
  by (simp add: ids_in_def exI [of _ "[]"])

lemma ids_in_append:
  assumes "ids_in G R xs" "ids_in G S ys" "R \<inter> S = {}"
  shows "ids_in G (R \<union> S) (xs @ ys)"
proof -
  from assms(1) obtain ks where ks: "map ob_ID xs = map (key_id (wp_env G)) ks" "distinct (map slot ks)"
      "\<forall>(kind, oc, attributes) \<in> set ks. kind \<in> kinds \<and> oc_RequestIndex oc \<in> R \<and> own G oc" unfolding ids_in_def by blast
  from assms(2) obtain ls where ls: "map ob_ID ys = map (key_id (wp_env G)) ls" "distinct (map slot ls)"
      "\<forall>(kind, oc, attributes) \<in> set ls. kind \<in> kinds \<and> oc_RequestIndex oc \<in> S \<and> own G oc" unfolding ids_in_def by blast
  have "slot ` set ks \<inter> slot ` set ls = {}"
    using ks(3) ls(3) assms(3) by (fastforce simp: slot_def)
  with ks ls show ?thesis unfolding ids_in_def by (intro exI [of _ "ks @ ls"]) auto
qed

text \<open>The observations of one answer.\<close>

lemma ids_in_answer:
  assumes "map ob_ID obs = ObservationID (wp_env G) ''dns-query'' oc attributes
      # map (\<lambda>i. ObservationID (wp_env G) ''dns-record'' (oc\<lparr>oc_ItemIndex := int i\<rparr>) []) ix
      @ map (\<lambda>i. ObservationID (wp_env G) ''dns-address'' (oc\<lparr>oc_ItemIndex := int i\<rparr>) []) js"
    and "distinct ix" "distinct js" "own G oc"
  shows "ids_in G {oc_RequestIndex oc} obs"
  unfolding ids_in_def
proof (intro exI conjI)
  let ?keys = "(''dns-query'', oc, attributes) # map (\<lambda>i. (''dns-record'', oc\<lparr>oc_ItemIndex := int i\<rparr>, [])) ix
      @ map (\<lambda>i. (''dns-address'', oc\<lparr>oc_ItemIndex := int i\<rparr>, [])) js"
  show "map ob_ID obs = map (key_id (wp_env G)) ?keys" by (simp add: assms(1) key_id_def)
  show "distinct (map slot ?keys)" using assms(2,3) by (auto simp: slot_def distinct_map inj_on_def)
qed (use assms(4) in \<open>auto simp: kinds_def\<close>)

section \<open>Observations of the walks\<close>

abbreviation observed :: "walk \<Rightarrow> observation list" where
  "observed w \<equiv> dc_Observations (wk_result w)"

lemma observed_simps [simp]:
  "observed (with_coverage f w) = observed w" "observed (with_observations obs w) = observed w @ obs" "observed (tick w) = observed w"
  by (simp_all add: walk_ops)

lemma observed_note_address:
  "\<exists>new. observed (note_address G sc oc fb reply publish (i, a) w) = observed w @ new
     \<and> (new = [] \<or> map ob_ID new = [ObservationID (wp_env G) ''dns-address'' (oc\<lparr>oc_ItemIndex := int i\<rparr>) []])"
  by (auto simp: note_address_def Let_def addressObservation_def)

lemma observed_fold_addresses:
  "\<exists>new js. observed (fold (note_address G sc oc fb reply publish) (enumerate n as) w) = observed w @ new
     \<and> map ob_ID new = map (\<lambda>i. ObservationID (wp_env G) ''dns-address'' (oc\<lparr>oc_ItemIndex := int i\<rparr>) []) js
     \<and> distinct js \<and> (\<forall>j \<in> set js. n \<le> j)"
proof (induction as arbitrary: n w)
  case Nil
  show ?case by (intro exI [of _ "[]"]) simp
next
  case (Cons a as)
  let ?w = "note_address G sc oc fb reply publish (n, a) w"
  obtain new1 where 1: "observed ?w = observed w @ new1
      \<and> (new1 = [] \<or> map ob_ID new1 = [ObservationID (wp_env G) ''dns-address'' (oc\<lparr>oc_ItemIndex := int n\<rparr>) []])"
    using observed_note_address [of G sc oc fb reply publish n a w] ..
  obtain new js where 2: "observed (fold (note_address G sc oc fb reply publish) (enumerate (Suc n) as) ?w) = observed ?w @ new
      \<and> map ob_ID new = map (\<lambda>i. ObservationID (wp_env G) ''dns-address'' (oc\<lparr>oc_ItemIndex := int i\<rparr>) []) js
      \<and> distinct js \<and> (\<forall>j \<in> set js. Suc n \<le> j)"
    using Cons.IH [of "Suc n" ?w] by (elim exE) (rule that)
  show ?case
  proof (cases "new1 = []")
    case True
    with 1 2 show ?thesis by (intro exI [of _ new] exI [of _ js]) auto
  next
    case False
    with 1 2 show ?thesis by (intro exI [of _ "new1 @ new"] exI [of _ "n # js"]) auto
  qed
qed

lemma observed_note_addresses:
  obtains new js where "observed (note_addresses G sc oc fb reply publish w) = observed w @ new"
    "map ob_ID new = map (\<lambda>i. ObservationID (wp_env G) ''dns-address'' (oc\<lparr>oc_ItemIndex := int i\<rparr>) []) js" "distinct js"
  using observed_fold_addresses [of G sc oc fb reply publish 0 "dr_Addresses (rp_Result reply)" w] that
  unfolding note_addresses_def by (elim exE conjE)

lemma map_enumerate_ids:
  "(\<And>i x. f (i, x) = g i) \<Longrightarrow> map f (enumerate n xs) = map g [n..<n + length xs]"
  by (induction xs arbitrary: n) (simp_all add: upt_rec)

text \<open>A walk extends its observations by those of the requests \<open>R\<close>.\<close>

definition extends :: "walk_params \<Rightarrow> int set \<Rightarrow> walk \<Rightarrow> walk \<Rightarrow> bool" where
  "extends G R w w' \<longleftrightarrow> (\<exists>new. observed w' = observed w @ new \<and> ids_in G R new)"

lemma extends_params [simp]: "extends (G\<lparr>wp_world := W\<rparr>) = extends G" "extends (G\<lparr>wp_seed := seed\<rparr>) = extends G"
  by (simp_all add: extends_def fun_eq_iff)

lemma extends_refl [simp]: "observed w' = observed w \<Longrightarrow> extends G R w w'"
  by (simp add: extends_def)

lemma extends_trans:
  assumes "extends G R w w'" "extends G S w' w''" "R \<inter> S = {}"
  shows "extends G (R \<union> S) w w''"
  using assms ids_in_append unfolding extends_def by (metis append_assoc)

lemma extends_observed: "extends G R w w' \<Longrightarrow> observed w = observed v \<Longrightarrow> extends G R v w'"
  "extends G R w w' \<Longrightarrow> observed v = observed w' \<Longrightarrow> extends G R w v"
  by (simp_all add: extends_def)

lemma append_extends:
  assumes "own G oc"
  shows "extends G {oc_RequestIndex oc} w (appendGraphQuery G sc oc reply publish w)"
proof (cases "normalizeOutcome (wp_env G) (rp_Result reply) (rp_Err reply) = Answered")
  case False
  then show ?thesis unfolding extends_def
    by (intro exI conjI ids_in_answer [of _ _ _ _ "[]" "[]"])
      (auto simp: appendGraphQuery_def Let_def queryObservation_def assms)
next
  case True
  define E where "E = wp_env G"
  define query where "query = (queryObservation E (q_Name (dr_Question (rp_Result reply))) (dr_Question (rp_Result reply)) Answered
      (rp_Result reply) (error_text (rp_Err reply)) oc (rp_ObservedAt reply))\<lparr>ob_Scope := sc\<rparr>"
  define records where "records = map (\<lambda>(i, ob). (restamp E oc (rp_ObservedAt reply) i ob)\<lparr>ob_Scope := sc\<rparr>)
      (enumerate 0 (dr_Records (rp_Result reply)))"
  define w1 where "w1 = with_observations records (with_observations [query]
      (with_coverage (count_outcome E reply \<circ> count_omitted reply \<circ> count_attempts reply) w))"
  have a: "appendGraphQuery G sc oc reply publish w
      = note_addresses G (\<lambda>_. sc) oc (q_Name (dr_Question (rp_Result reply))) reply publish w1"
    using True by (simp add: appendGraphQuery_def Let_def w1_def records_def query_def E_def)
  obtain new js where new: "observed (note_addresses G (\<lambda>_. sc) oc (q_Name (dr_Question (rp_Result reply))) reply publish w1) = observed w1 @ new"
    "map ob_ID new = map (\<lambda>i. ObservationID (wp_env G) ''dns-address'' (oc\<lparr>oc_ItemIndex := int i\<rparr>) []) js" "distinct js"
    by (rule observed_note_addresses)
  have "map ob_ID records = map (\<lambda>i. ObservationID E ''dns-record'' (oc\<lparr>oc_ItemIndex := int i\<rparr>) []) [0..<length (dr_Records (rp_Result reply))]"
    unfolding records_def map_map
    by (subst map_enumerate_ids [where g = "\<lambda>i. ObservationID E ''dns-record'' (oc\<lparr>oc_ItemIndex := int i\<rparr>) []"]) (auto simp: restamp_def)
  then have "ids_in G {oc_RequestIndex oc} (query # records @ new)"
    using new(2,3) assms by (intro ids_in_answer [where ix = "[0..<length (dr_Records (rp_Result reply))]" and js = js])
      (auto simp: query_def queryObservation_def E_def)
  moreover have "observed w1 = observed w @ query # records" by (simp add: w1_def)
  ultimately show ?thesis unfolding extends_def a new(1)
    by (intro exI [of _ "query # records @ new"]) (simp add: E_def)
qed

lemma ask_extends:
  assumes "ask_append G sc oc publish q w = (reply, w')" "own G oc"
  shows "extends G {oc_RequestIndex oc} w w'"
proof -
  from assms(1) have "w' = appendGraphQuery G sc oc reply publish (snd (ask (wp_world G) q w))"
    by (auto simp: ask_append_def split: prod.splits)
  moreover have "observed (snd (ask (wp_world G) q w)) = observed w" by (simp add: ask_def Let_def)
  ultimately show ?thesis using append_extends [OF assms(2)] extends_observed(1) by metis
qed

lemma request_at [simp]: "oc_SeedIndex (at_request oc i) = oc_SeedIndex oc" "oc_RequestIndex (at_request oc i) = i" "oc_RequestIndex (oc\<lparr>oc_Hop := h\<rparr>) = oc_RequestIndex oc"
  by (simp_all add: at_request_def)

lemma extends_mono: "extends G R w w' \<Longrightarrow> R \<subseteq> S \<Longrightarrow> extends G S w w'"
  unfolding extends_def ids_in_def by fastforce

text \<open>Requests are numbered one after the other.\<close>

lemma extends_next:
  assumes "extends E {lo..<m} w w'" "extends E {m..<hi} w' w''" "lo \<le> m" "m \<le> hi"
  shows "extends E {lo..<hi} w w''"
proof -
  have "{lo..<m} \<union> {m..<hi} = {lo..<hi}" using assms(3,4) by (rule ivl_disj_un_two(3))
  with extends_trans [OF assms(1,2)] show ?thesis by auto
qed

lemma ask_extends_next:
  assumes "ask_append G sc oc publish q w = (reply, w')" "extends G {lo..<oc_RequestIndex oc} v w" "lo \<le> oc_RequestIndex oc" "own G oc"
  shows "extends G {lo..<oc_RequestIndex oc + 1} v w'"
proof -
  have "extends G {oc_RequestIndex oc..<oc_RequestIndex oc + 1} w w'"
    by (rule extends_mono [OF ask_extends [OF assms(1,4)]]) simp
  from extends_next [OF assms(2) this assms(3)] show ?thesis by simp
qed

lemma visit_extends:
  assumes "visit_cname G item ri w = (next, ri', w')"
  shows "extends G {ri..<ri'} w w' \<and> ri \<le> ri'"
proof -
  define at where "at = (\<lambda>i. (at_request (wp_occurrence G) i)\<lparr>oc_Hop := cn_depth item\<rparr>)"
  define question where "question = (\<lambda>t. \<lparr>q_Name = cn_name item, q_Type = t :: 16 word\<rparr>)"
  have at [simp]: "oc_RequestIndex (at i) = i" "own G (at i)" for i by (simp_all add: at_def)
  obtain reply w1 where 1: "ask_append G ScopeCNAME (at ri) (wp_publish G) (question typeCNAME) w = (reply, w1)" by fastforce
  obtain ra w2 where 2: "ask_append G ScopeCNAME (at (ri + 1)) (wp_publish G) (question typeA) w1 = (ra, w2)" by fastforce
  obtain rb w3 where 3: "ask_append G ScopeCNAME (at (ri + 2)) (wp_publish G) (question typeAAAA) w2 = (rb, w3)" by fastforce
  have e1: "extends G {ri..<ri + 1} w w1" using ask_extends_next [OF 1, of ri w] by simp
  have e2: "extends G {ri..<ri + 2} w w2" using ask_extends_next [OF 2, of ri w] e1 by (simp add: add.commute)
  have e3: "extends G {ri..<ri + 3} w w3" using ask_extends_next [OF 3, of ri w] e2 by (simp add: add.commute)
  have "(ri', w') = (ri + 1, w1) \<or> (ri', w') = (ri + 3, w3)"
    using assms 1 2 3 unfolding visit_cname_def at_def question_def Let_def by (auto split: if_splits)
  with e1 e3 show ?thesis by auto
qed

lemma await_observed:
  "await_target G q p i w = Stopped w' \<Longrightarrow> observed w' = observed w"
  "await_target G q p i w = Received q' p' i' w' \<Longrightarrow> observed w' = observed w"
  by (auto simp: await_target_def receive_ready_def Let_def split: option.splits list.splits if_splits)

lemma cname_extends:
  assumes "followCNAMEGraph G inputs w = (ri', w')"
  shows "extends G {6..<ri'} w w' \<and> 6 \<le> ri'"
proof (rule graph_loop_rule [OF assms [unfolded followCNAMEGraph_def],
      where I = "\<lambda>q s p i r v. extends G {6..<r} w v \<and> 6 \<le> r" and Q = "\<lambda>r v. extends G {6..<r} w v \<and> 6 \<le> r"])
  show "extends G {6..<int (length questionTypes)} w w \<and> 6 \<le> int (length questionTypes)"
    by (simp add: questionTypes_def)
next
  fix q s p i r v v' assume "extends G {6..<r} w v \<and> 6 \<le> r" "await_target G q p i v = Stopped v'"
  then show "extends G {6..<r} w v' \<and> 6 \<le> r" using await_observed(1) extends_observed(2) by metis
next
  fix q s p i r v p' i' v' assume "extends G {6..<r} w v \<and> 6 \<le> r" "await_target G q p i v = Received [] p' i' v'"
  then show "extends G {6..<r} w v' \<and> 6 \<le> r" using await_observed(2) extends_observed(2) by metis
next
  fix q s p i r v q' p' i' v' item rest
  assume "extends G {6..<r} w v \<and> 6 \<le> r" "await_target G q p i v = Received q' p' i' v'"
  then have "extends G {6..<r} w v'" "6 \<le> r" using await_observed(2) extends_observed(2) by metis+
  then show "extends G {6..<r} w (loop_reached v') \<and> 6 \<le> r"
    by (simp add: extends_observed(2) loop_reached_def)
next
  fix q s p i r v q' p' i' v' item rest
  assume "extends G {6..<r} w v \<and> 6 \<le> r" "await_target G q p i v = Received q' p' i' v'"
  then show "extends G {6..<r} w v' \<and> 6 \<le> r" using await_observed(2) extends_observed(2) by metis
next
  fix q s p i r v q' p' i' v' item rest nxt r' v''
  assume "extends G {6..<r} w v \<and> 6 \<le> r" "await_target G q p i v = Received q' p' i' v'"
    and v: "visit_cname G item r v' = (nxt, r', v'')"
  then have "extends G {6..<r} w v'" "6 \<le> r" using await_observed(2) extends_observed(2) by metis+
  with visit_extends [OF v] extends_next show "extends G {6..<r'} w v'' \<and> 6 \<le> r'" by fastforce
qed auto

lemma zone_extends:
  assumes "zone_loop n G candidate ri w = (ri', w')"
  shows "extends G {ri..<ri'} w w' \<and> ri \<le> ri'"
  using assms
proof (induction n arbitrary: candidate ri w)
  case 0
  then show ?case by (auto simp: zone_failed_def)
next
  case (Suc n)
  define oc where "oc = at_request (wp_occurrence G)"
  have oc [simp]: "oc_RequestIndex (oc i) = i" "own G (oc i)" for i by (simp_all add: oc_def)
  obtain reply w1 where 1: "ask_append G ScopeInheritedZone (oc ri) False \<lparr>q_Name = candidate, q_Type = typeSOA\<rparr> (tick w) = (reply, w1)"
    by fastforce
  obtain rb w2 where 2: "ask_append G ScopeInheritedZone (oc (ri + 1)) False \<lparr>q_Name = candidate, q_Type = typeNS\<rparr> w1 = (rb, w2)"
    by fastforce
  have e1: "extends G {ri..<ri + 1} w w1" using ask_extends_next [OF 1, of ri w] by simp
  have e2: "extends G {ri..<ri + 2} w w2" using ask_extends_next [OF 2, of ri w] e1 by (simp add: add.commute)
  have rest: "extends G {ri..<ri'} w w' \<and> ri \<le> ri'" if "zone_loop n G parent (ri + 1) w1 = (ri', w')" for parent
    using Suc.IH [OF that] extends_next [OF e1] by fastforce
  show ?case
    using Suc.prems 1 2 e1 e2 rest unfolding oc_def
    by (auto simp: zone_failed_def intro: extends_observed(2) split: if_splits option.splits prod.splits)
qed

lemma inherited_extends:
  "followInheritedZone G ri w = (ri', w') \<Longrightarrow> extends G {ri..<ri'} w w' \<and> ri \<le> ri'"
  using zone_extends [of _ "G\<lparr>wp_seed := normalizedGraphName (wp_seed G)\<rparr>"] unfolding extends_params
  by (fastforce simp: followInheritedZone_def Let_def split: if_splits option.splits)

lemma gather_observed: "observed (snd (gather_dependencies E obs found w)) = observed w"
  by (induction E obs found w rule: gather_dependencies.induct) (auto simp: zone_failed_def split: dependency_of.splits)

lemma ask_all_extends:
  "ask_dependencies G questions ri w = (ri', w') \<Longrightarrow> extends G {ri..<ri'} w w' \<and> ri \<le> ri'"
proof (induction G questions ri w arbitrary: ri' w' rule: ask_dependencies.induct)
  case (2 G d t rest ri w)
  show ?case
  proof (cases "dw_ctx (wp_world G) (wk_time w)")
    case None
    obtain reply w1 where 1: "ask_append G (snd d) (at_request (wp_occurrence G) ri) False \<lparr>q_Name = fst d, q_Type = t\<rparr> (tick w) = (reply, w1)"
      by fastforce
    have "extends G {ri..<ri + 1} w w1" using ask_extends_next [OF 1, of ri w] by simp
    moreover have "ask_dependencies G rest (ri + 1) w1 = (ri', w')" using 2(2) None 1 by simp
    ultimately show ?thesis using 2(1) [OF None] extends_next 1 by fastforce
  next
    case (Some e)
    with 2(2) show ?thesis by auto
  qed
qed auto

lemma dependencies_extends:
  "followDependencies G ri w = (ri', w') \<Longrightarrow> extends G {ri..<ri'} w w' \<and> ri \<le> ri'"
  using gather_observed [of "wp_env G" "observed w" "[]" w] ask_all_extends extends_observed(1)
  by (fastforce simp: followDependencies_def split: prod.splits)

section \<open>Answers of the seed\<close>

lemma observed_seed_records:
  "observed (sw_walk (fold (seed_record G sent oc reply) (enumerate n obs) s))
    = observed (sw_walk s) @ map (\<lambda>(i, ob). restamp (wp_env G) oc (rp_ObservedAt reply) i ob) (enumerate n obs)"
proof (induction obs arbitrary: n s)
  case (Cons ob obs)
  have "observed (sw_walk (seed_record G sent oc reply (n, ob) s))
      = observed (sw_walk s) @ [restamp (wp_env G) oc (rp_ObservedAt reply) n ob]"
    by (simp add: seed_record_def send_target_def Let_def)
  with Cons.IH [of "Suc n" "seed_record G sent oc reply (n, ob) s"] show ?case by simp
qed simp

lemma seed_request [simp]: "oc_RequestIndex (seed_occurrence oc i reply) = int i"
  "oc_SeedIndex (seed_occurrence oc i reply) = oc_SeedIndex oc"
  by (simp_all add: seed_occurrence_def Let_def at_request_def)

lemma seed_answer_extends:
  "extends G {int i} (sw_walk s) (sw_walk (seed_answer G A i s))"
proof -
  define E where "E = wp_env G"
  define reply where "reply = ar_replies A i"
  define oc where "oc = seed_occurrence (wp_occurrence G) i reply"
  define outcome where "outcome = normalizeOutcome E (rp_Result reply) (rp_Err reply)"
  define query where "query = queryObservation E (wp_seed G) (dr_Question (rp_Result reply)) outcome (rp_Result reply)
      (error_text (rp_Err reply)) oc (rp_ObservedAt reply)"
  define s1 where "s1 = s\<lparr>sw_walk := with_observations [query]
      (with_coverage (count_outcome E reply \<circ> count_omitted reply \<circ> count_seed_attempts reply) (sw_walk s))\<rparr>"
  have oc: "oc_RequestIndex oc = int i" and own: "own G oc" by (simp_all add: oc_def)
  have s1: "observed (sw_walk s1) = observed (sw_walk s) @ [query]" by (simp add: s1_def)
  show ?thesis
  proof (cases "rp_Err reply \<noteq> None \<or> outcome \<noteq> Answered")
    case True
    then have "seed_answer G A i s = s1"
      unfolding seed_answer_def Let_def s1_def query_def outcome_def oc_def reply_def E_def by auto
    moreover have "ids_in G {int i} [query]"
      using ids_in_answer [of "[query]" G oc _ "[]" "[]"] by (simp add: query_def queryObservation_def oc own E_def)
    ultimately show ?thesis unfolding extends_def using s1 E_def by auto
  next
    case False
    define records where "records = map (\<lambda>(j, ob). restamp E oc (rp_ObservedAt reply) j ob) (enumerate 0 (dr_Records (rp_Result reply)))"
    define s2 where "s2 = fold (seed_record G (ar_sent A) oc reply) (enumerate 0 (dr_Records (rp_Result reply))) s1"
    define sc where "sc = (\<lambda>owner. if owner \<noteq> wp_seed G then ScopeCNAME else ScopeRoot)"
    have ans: "seed_answer G A i s = s2\<lparr>sw_walk := note_addresses G sc oc (wp_seed G) reply (wp_publish G) (sw_walk s2)\<rparr>"
    proof -
      have none: "rp_Err (ar_replies A i) = None" using False by (auto simp: reply_def)
      moreover from this have "normalizeOutcome (wp_env G) (rp_Result (ar_replies A i)) None = Answered"
        using False by (simp add: outcome_def E_def reply_def)
      ultimately show ?thesis
        unfolding seed_answer_def Let_def s2_def s1_def query_def outcome_def oc_def reply_def E_def sc_def by simp
    qed
    have s2: "observed (sw_walk s2) = observed (sw_walk s) @ query # records"
      unfolding s2_def observed_seed_records s1 records_def E_def by simp
    obtain new js where new: "observed (note_addresses G sc oc (wp_seed G) reply (wp_publish G) (sw_walk s2)) = observed (sw_walk s2) @ new"
        "map ob_ID new = map (\<lambda>i. ObservationID (wp_env G) ''dns-address'' (oc\<lparr>oc_ItemIndex := int i\<rparr>) []) js" "distinct js"
      by (rule observed_note_addresses)
    have "map ob_ID records = map (\<lambda>i. ObservationID E ''dns-record'' (oc\<lparr>oc_ItemIndex := int i\<rparr>) []) [0..<length (dr_Records (rp_Result reply))]"
      unfolding records_def map_map
      by (subst map_enumerate_ids [where g = "\<lambda>i. ObservationID E ''dns-record'' (oc\<lparr>oc_ItemIndex := int i\<rparr>) []"]) (auto simp: restamp_def)
    then have "ids_in G {oc_RequestIndex oc} (query # records @ new)"
      using new(2,3) own by (intro ids_in_answer [where ix = "[0..<length (dr_Records (rp_Result reply))]" and js = js])
        (auto simp: query_def queryObservation_def E_def)
    moreover have "observed (sw_walk (seed_answer G A i s)) = observed (sw_walk s) @ (query # records @ new)"
      unfolding ans by (simp add: new(1) s2)
    ultimately show ?thesis unfolding extends_def oc E_def by blast
  qed
qed

lemma seed_answers_extend:
  "distinct order \<Longrightarrow> extends G (int ` set order) (sw_walk s) (sw_walk (fold (seed_answer G A) order s))"
proof (induction order arbitrary: s)
  case (Cons i order)
  from extends_trans [OF seed_answer_extends [of G i s A] Cons.IH [of "seed_answer G A i s"]] Cons.prems
  show ?case by (auto simp: image_iff)
qed simp

section \<open>A collection\<close>

text \<open>The parts of a collection.\<close>

lemma collection_parts:
  assumes "collectOccurrence G A W done = (r, cs, w, graph)"
  obtains s ri1 w1 ri2 w2 ri3 w3 where
    "s = fold (seed_answer G A) (ar_order A) \<lparr>sw_walk = start_walk fresh_result, sw_targets = []\<rparr>"
    "followCNAMEGraph (G\<lparr>wp_world := W\<rparr>) (sw_targets s) (start_walk fresh_result) = (ri1, graph)"
    "w1 = (sw_walk s)\<lparr>wk_result := add_graph (wk_result (sw_walk s)) (wk_result graph)\<rparr>"
    "followInheritedZone G ri1 w1 = (ri2, w2)" "followDependencies G ri2 w2 = (ri3, w3)"
    "w = (case done of None \<Rightarrow> w3 | Some e \<Rightarrow> with_coverage (partly 0 [errorCode (wp_env G) e]) w3)"
    "r = wk_result w"
    "cs = first_per_address [] (ar_merge A (wk_candidates (sw_walk s)) (wk_candidates graph))"
  using assms that unfolding collectOccurrence_def Let_def by (auto split: prod.splits)

lemma collection_ids:
  assumes "collectOccurrence G A W done = (r, cs, w, graph)" and "distinct (ar_order A)" "set (ar_order A) \<subseteq> {0..<6}"
  shows "\<exists>R. ids_in G R (dc_Observations r)"
proof -
  from collection_parts [OF assms(1)] obtain s ri1 w1 ri2 w2 ri3 w3 where
    s: "s = fold (seed_answer G A) (ar_order A) \<lparr>sw_walk = start_walk fresh_result, sw_targets = []\<rparr>"
    and g: "followCNAMEGraph (G\<lparr>wp_world := W\<rparr>) (sw_targets s) (start_walk fresh_result) = (ri1, graph)"
    and w1: "w1 = (sw_walk s)\<lparr>wk_result := add_graph (wk_result (sw_walk s)) (wk_result graph)\<rparr>"
    and z: "followInheritedZone G ri1 w1 = (ri2, w2)" and d: "followDependencies G ri2 w2 = (ri3, w3)"
    and r: "w = (case done of None \<Rightarrow> w3 | Some e \<Rightarrow> with_coverage (partly 0 [errorCode (wp_env G) e]) w3)" "r = wk_result w" .
  let ?E = "wp_env G"
  have "ids_in G (int ` set (ar_order A)) (observed (sw_walk s))"
    using seed_answers_extend [OF assms(2), of G "\<lparr>sw_walk = start_walk fresh_result, sw_targets = []\<rparr>" A]
    unfolding s extends_def by (simp add: start_walk_def fresh_result_def)
  moreover have "ids_in G {6..<ri1} (observed graph)" and ri1: "6 \<le> ri1"
    using cname_extends [OF g] unfolding extends_def by (simp_all add: start_walk_def fresh_result_def)
  moreover have "int ` set (ar_order A) \<inter> {6..<ri1} = {}" using assms(3) by auto
  moreover have "observed w1 = observed (sw_walk s) @ observed graph" by (simp add: w1 add_graph_def Let_def)
  ultimately have "ids_in G (int ` set (ar_order A) \<union> {6..<ri1}) (observed w1)" using ids_in_append by metis
  then have e1: "extends G (int ` set (ar_order A) \<union> {6..<ri1}) (start_walk fresh_result) w1"
    by (simp add: extends_def start_walk_def fresh_result_def)
  have ze: "extends G {ri1..<ri2} w1 w2" "ri1 \<le> ri2" using inherited_extends [OF z] by simp_all
  have de: "extends G {ri2..<ri3} w2 w3" "ri2 \<le> ri3" using dependencies_extends [OF d] by simp_all
  have low: "int ` set (ar_order A) \<subseteq> {0..<6}" using assms(3) by auto
  have "extends G (int ` set (ar_order A) \<union> {6..<ri1} \<union> {ri1..<ri2}) (start_walk fresh_result) w2"
    by (rule extends_trans [OF e1 ze(1)]) (use low ri1 in fastforce)
  from extends_trans [OF this de(1)]
  have "extends G (int ` set (ar_order A) \<union> {6..<ri1} \<union> {ri1..<ri2} \<union> {ri2..<ri3}) (start_walk fresh_result) w3"
    using low ri1 ze(2) by fastforce
  then have "ids_in G (int ` set (ar_order A) \<union> {6..<ri1} \<union> {ri1..<ri2} \<union> {ri2..<ri3}) (observed w)"
    unfolding extends_def r(1) by (auto simp: start_walk_def fresh_result_def split: option.splits)
  then show ?thesis unfolding r(2) by blast
qed

text \<open>No two observations of a collection stand for the same occurrence. Every observation, of the
  seed's six answers in whatever order they arrive, of the CNAME walk beside them and of the zone and
  dependency walks after them, has an identifier computed from its kind, its request number and its
  position in the answer, and these are pairwise different; so the identifiers are distinct unless the
  hash collides on them, as the reference check of the report requires.\<close>

lemma dns_observations_distinct:
  assumes "collectOccurrence G A W done = (r, cs, w, graph)" and "distinct (ar_order A)" "set (ar_order A) \<subseteq> {0..<6}"
  shows "\<exists>keys. map ob_ID (dc_Observations r) = map (key_id (wp_env G)) keys \<and> distinct (map slot keys)
    \<and> fst ` set keys \<subseteq> kinds \<and> (inj_on (de_hash (wp_env G)) (set keys) \<longrightarrow> distinct (map ob_ID (dc_Observations r)))"
proof -
  let ?E = "wp_env G"
  obtain R where "ids_in G R (dc_Observations r)" using collection_ids [OF assms] ..
  then obtain keys where keys: "map ob_ID (dc_Observations r) = map (key_id ?E) keys" "distinct (map slot keys)"
      "\<forall>(kind, oc, attributes) \<in> set keys. kind \<in> kinds" unfolding ids_in_def by fastforce
  have "distinct (map (key_id ?E) keys)" if inj: "inj_on (de_hash ?E) (set keys)"
  proof -
    have "inj_on (key_id ?E) (set keys)"
    proof (rule inj_onI)
      fix k l assume k: "k \<in> set keys" and l: "l \<in> set keys" and eq: "key_id ?E k = key_id ?E l"
      have kk: "fst k \<in> kinds" "fst l \<in> kinds" using keys(3) k l by auto
      with eq have "fst k = fst l" "de_hash ?E k = de_hash ?E l"
        by (auto simp: key_id_def ObservationID_def kinds_def split: prod.splits)
      with inj k l show "k = l" by (auto dest: inj_onD)
    qed
    moreover have "distinct keys" using keys(2) by (simp add: distinct_map)
    ultimately show ?thesis by (simp add: distinct_map)
  qed
  with keys show ?thesis by (intro exI [of _ keys]) auto
qed


section \<open>Coverage and candidates\<close>

definition incomplete_reply :: "dns_env \<Rightarrow> query_reply \<Rightarrow> bool" where
  "incomplete_reply E reply \<longleftrightarrow> rp_Err reply \<noteq> None
     \<or> \<not> dnsOutcomeCompleted (normalizeOutcome E (rp_Result reply) None) \<or> dr_Omitted (rp_Result reply) > 0"

text \<open>An answer that failed or left something out degrades the coverage for good.\<close>

lemma incomplete_degrades:
  assumes "incomplete_reply E reply"
  shows "degraded (with_coverage (count_outcome E reply \<circ> count_omitted reply \<circ> f) w)"
  using assms
  by (auto simp: incomplete_reply_def degraded_def walk_ops count_outcome_def count_omitted_def partly_def Let_def
      split: option.splits)

lemma seed_answer_degrades:
  assumes "incomplete_reply (wp_env G) (ar_replies A i)"
  shows "degraded (sw_walk (seed_answer G A i s))"
proof -
  have fits: "degrading.fits (wp_seed G) (wp_port G) G (wp_publish G)" by (simp add: degrading.fits_def)
  show ?thesis
    unfolding seed_answer_def Let_def
    by (auto intro!: degrading.note_addresses [OF _ fits] degrading.seed_records degrading.observations
        incomplete_degrades [OF assms])
qed

lemma seed_answers_degrade:
  assumes "i \<in> set order" "incomplete_reply (wp_env G) (ar_replies A i)"
  shows "degraded (sw_walk (fold (seed_answer G A) order s))"
proof -
  have fits: "degrading.fits (wp_seed G) (wp_port G) G (wp_publish G)" by (simp add: degrading.fits_def)
  from assms(1) obtain before after where "order = before @ i # after" by (meson split_list)
  then show ?thesis using degrading.seed_answers [OF seed_answer_degrades [OF assms(2)] fits] by simp
qed

text \<open>Every walk of a collection satisfies what walks preserve.\<close>

lemma add_graph_hides:
  assumes "hides_nothing w" "hides_nothing g"
  shows "hides_nothing (w\<lparr>wk_result := add_graph (wk_result w) (wk_result g)\<rparr>)"
  using assms by (auto simp: hides_nothing_def add_graph_def Let_def)

lemma add_graph_degraded:
  assumes "degraded w \<or> degraded g"
  shows "degraded (w\<lparr>wk_result := add_graph (wk_result w) (wk_result g)\<rparr>)"
  using assms by (auto simp: degraded_def add_graph_def Let_def)

lemma start_hides: "hides_nothing (start_walk fresh_result)"
  by (simp add: hides_nothing_def start_walk_def fresh_result_def zero_coverage_def)

lemma collection_honest:
  assumes "collectOccurrence G A W done = (r, cs, w, graph)" and "cv_Status (dc_Coverage r) = CoverageComplete"
  shows "cv_ErrorCodes (dc_Coverage r) = [] \<and> cv_Omitted (dc_Coverage r) = 0 \<and> done = None
    \<and> cv_Status (dc_Coverage (wk_result graph)) = CoverageComplete
    \<and> (\<forall>i \<in> set (ar_order A). \<not> incomplete_reply (wp_env G) (ar_replies A i))"
proof -
  from collection_parts [OF assms(1)] obtain s ri1 w1 ri2 w2 ri3 w3 where
    s: "s = fold (seed_answer G A) (ar_order A) \<lparr>sw_walk = start_walk fresh_result, sw_targets = []\<rparr>"
    and g: "followCNAMEGraph (G\<lparr>wp_world := W\<rparr>) (sw_targets s) (start_walk fresh_result) = (ri1, graph)"
    and w1: "w1 = (sw_walk s)\<lparr>wk_result := add_graph (wk_result (sw_walk s)) (wk_result graph)\<rparr>"
    and z: "followInheritedZone G ri1 w1 = (ri2, w2)" and d: "followDependencies G ri2 w2 = (ri3, w3)"
    and r: "w = (case done of None \<Rightarrow> w3 | Some e \<Rightarrow> with_coverage (partly 0 [errorCode (wp_env G) e]) w3)" "r = wk_result w" .
  have fits: "hiding.fits (wp_seed G) (wp_port G) G (wp_publish G)"
    and fits': "hiding.fits (wp_seed G) (wp_port G) (G\<lparr>wp_world := W\<rparr>) (wp_publish (G\<lparr>wp_world := W\<rparr>))"
    by (simp_all add: hiding.fits_def)
  have w3: "w3 = snd (followDependencies G ri2 w2)" using d by simp
  have later: "degraded w1 \<Longrightarrow> degraded w3"
    using degrading.dependencies [of w2 G "wp_port G" ri2] degrading.inherited_zone [OF _ refl z] w3 by simp
  have fine: "done = None \<and> \<not> degraded w3"
    using assms(2) unfolding r by (auto simp: degraded_def walk_ops partly_def split: option.splits)
  then have seed: "\<not> degraded (sw_walk s)" and graph: "\<not> degraded graph" using later add_graph_degraded unfolding w1 by blast+
  have "hides_nothing (sw_walk s)" unfolding s using hiding.seed_answers [OF _ fits] start_hides by simp
  moreover have "hides_nothing graph" by (rule hiding.cname_graph [OF start_hides fits' g])
  ultimately have "hides_nothing w1" unfolding w1 by (rule add_graph_hides)
  then have "hides_nothing w2" by (rule hiding.inherited_zone [OF _ refl z])
  then have "hides_nothing w3" unfolding w3 by (rule hiding.dependencies [OF _ refl])
  moreover have "w = w3" using fine unfolding r by simp
  moreover have "\<not> incomplete_reply (wp_env G) (ar_replies A i)" if "i \<in> set (ar_order A)" for i
    using seed seed_answers_degrade [OF that] unfolding s by blast
  ultimately show ?thesis using fine graph assms(2) unfolding r(2) by (simp add: hides_nothing_def degraded_def)
qed

text \<open>A collection ends complete or partial.\<close>

lemma start_graded: "graded (start_walk fresh_result)"
  by (simp add: graded_def start_walk_def fresh_result_def)

lemma collection_graded:
  assumes "collectOccurrence G A W done = (r, cs, w, graph)"
  shows "cv_Status (dc_Coverage r) \<in> {CoverageComplete, CoveragePartial}"
proof -
  from collection_parts [OF assms] obtain s ri1 w1 ri2 w2 ri3 w3 where
    s: "s = fold (seed_answer G A) (ar_order A) \<lparr>sw_walk = start_walk fresh_result, sw_targets = []\<rparr>"
    and g: "followCNAMEGraph (G\<lparr>wp_world := W\<rparr>) (sw_targets s) (start_walk fresh_result) = (ri1, graph)"
    and w1: "w1 = (sw_walk s)\<lparr>wk_result := add_graph (wk_result (sw_walk s)) (wk_result graph)\<rparr>"
    and z: "followInheritedZone G ri1 w1 = (ri2, w2)" and d: "followDependencies G ri2 w2 = (ri3, w3)"
    and r: "w = (case done of None \<Rightarrow> w3 | Some e \<Rightarrow> with_coverage (partly 0 [errorCode (wp_env G) e]) w3)" "r = wk_result w" .
  have fits: "grading.fits (wp_seed G) (wp_port G) G (wp_publish G)" by (simp add: grading.fits_def)
  have "graded (sw_walk s)" unfolding s using grading.seed_answers [OF _ fits] start_graded by simp
  then have "graded w1" unfolding w1 by (auto simp: graded_def add_graph_def Let_def)
  then have "graded w2" by (rule grading.inherited_zone [OF _ refl z])
  then have "graded w3" using grading.dependencies [of w2 G "wp_port G" ri2] d by simp
  then have "graded w" unfolding r by (auto simp: graded_def walk_ops partly_def split: option.splits)
  then show ?thesis by (simp add: graded_def r(2))
qed

text \<open>C36: The coverage a collection reports is honest. It is complete only when it lists no error and no
  omission, the collection's context had not ended, the CNAME walk beside the seed was complete, and every
  answer to a question of the seed that was received came without an error, with an outcome that settles
  the question, and left nothing out: one failed or truncated answer degrades the coverage for good.\<close>

theorem dns_coverage_honest:
  assumes "collectOccurrence G A W done = (r, cs, w, graph)" and "cv_Status (dc_Coverage r) = CoverageComplete"
  shows "cv_ErrorCodes (dc_Coverage r) = [] \<and> cv_Omitted (dc_Coverage r) = 0 \<and> done = None
    \<and> cv_Status (dc_Coverage (wk_result graph)) = CoverageComplete
    \<and> (\<forall>i \<in> set (ar_order A). \<not> incomplete_reply (wp_env G) (ar_replies A i))"
  using collection_honest [OF assms] .

text \<open>Candidates\<close>

lemma first_per_address_exact:
  "distinct (map cd_Address (first_per_address seen cs))
    \<and> cd_Address ` set (first_per_address seen cs) = cd_Address ` set cs - set seen
    \<and> set (first_per_address seen cs) \<subseteq> set cs"
proof (induction seen cs rule: first_per_address.induct)
  case (2 seen c cs)
  then show ?case by (cases "cd_Address c \<in> set seen") auto
qed simp

lemma start_publishes: "publishes_allowed seed port (start_walk fresh_result)"
  by (simp add: publishes_allowed_def start_walk_def)

text \<open>C12: Whatever the interleaving of the two goroutines of a collection, the candidates it publishes name
  the seed and the requested port, are destinations the policy allows, and no address is published
  twice; an address that either of the walks found is published, exactly once.\<close>

theorem dns_candidates_allowed:
  assumes "collectOccurrence G A W done = (r, cs, w, graph)" and "\<And>xs ys. ar_merge A xs ys \<in> shuffles xs ys"
  shows "distinct (map cd_Address cs)
    \<and> (\<forall>c \<in> set cs. cd_Hostname c = wp_seed G \<and> cd_Port c = wp_port G \<and> dd_Allowed (Check (cd_Address c) (wp_port G)))
    \<and> cd_Address ` set cs = set (wk_published w) \<union> set (wk_published graph)"
proof -
  from collection_parts [OF assms(1)] obtain s ri1 w1 ri2 w2 ri3 w3 where
    s: "s = fold (seed_answer G A) (ar_order A) \<lparr>sw_walk = start_walk fresh_result, sw_targets = []\<rparr>"
    and g: "followCNAMEGraph (G\<lparr>wp_world := W\<rparr>) (sw_targets s) (start_walk fresh_result) = (ri1, graph)"
    and w1: "w1 = (sw_walk s)\<lparr>wk_result := add_graph (wk_result (sw_walk s)) (wk_result graph)\<rparr>"
    and z: "followInheritedZone G ri1 w1 = (ri2, w2)" and d: "followDependencies G ri2 w2 = (ri3, w3)"
    and r: "w = (case done of None \<Rightarrow> w3 | Some e \<Rightarrow> with_coverage (partly 0 [errorCode (wp_env G) e]) w3)"
    and cs: "cs = first_per_address [] (ar_merge A (wk_candidates (sw_walk s)) (wk_candidates graph))" .
  let ?ok = "publishes_allowed (wp_seed G) (wp_port G)"
  have fits: "publishing.fits (wp_seed G) (wp_port G) G (wp_publish G)"
    and fits': "publishing.fits (wp_seed G) (wp_port G) (G\<lparr>wp_world := W\<rparr>) (wp_publish (G\<lparr>wp_world := W\<rparr>))"
    by (simp_all add: publishing.fits_def)
  have seed: "?ok (sw_walk s)" unfolding s using publishing.seed_answers [OF _ fits] start_publishes by simp
  have graph: "?ok graph" by (rule publishing.cname_graph [OF start_publishes fits' g])
  have "set (ar_merge A (wk_candidates (sw_walk s)) (wk_candidates graph)) = set (wk_candidates (sw_walk s)) \<union> set (wk_candidates graph)"
    by (rule set_shuffles [OF assms(2)])
  with first_per_address_exact [of "[]" "ar_merge A (wk_candidates (sw_walk s)) (wk_candidates graph)"]
  have cs': "distinct (map cd_Address cs)" "set cs \<subseteq> set (wk_candidates (sw_walk s)) \<union> set (wk_candidates graph)"
      "cd_Address ` set cs = cd_Address ` set (wk_candidates (sw_walk s)) \<union> cd_Address ` set (wk_candidates graph)"
    unfolding cs by auto
  have "wk_published w2 = wk_published w1" by (rule settled.inherited_zone [OF refl refl z])
  then have "wk_published w3 = wk_published w1" using settled.dependencies [of w2 "wk_published w1" G "wp_port G" ri2] d by simp
  then have "wk_published w = wk_published (sw_walk s)" unfolding r w1 by (simp add: walk_ops split: option.splits)
  with cs' seed graph show ?thesis by (fastforce simp: publishes_allowed_def)
qed

section \<open>A collection of one address\<close>

definition one_arrival :: arrivals where
  "one_arrival = \<lparr>ar_replies = (\<lambda>_. \<lparr>rp_Result =
       (empty_result \<lparr>q_Name = ''www.example'', q_Type = typeA\<rparr> Answered)\<lparr>dr_Addresses := [V4 0x08080808]\<rparr>,
       rp_ObservedAt = 1, rp_FromCache = False, rp_Err = None\<rparr>),
     ar_order = [0], ar_sent = (\<lambda>_. True), ar_merge = (@)\<rparr>"

lemma empty_graph:
  "\<exists>v. followCNAMEGraph link_params [] (start_walk fresh_result) = (6, v) \<and> wk_result v = fresh_result \<and> wk_candidates v = []"
  unfolding followCNAMEGraph_def
  by (subst graph_loop.simps, subst graph_loop.simps)
    (auto simp: await_target_def link_params_def link_world_def walk_ops start_walk_def questionTypes_def)

lemma address_allowed: "dd_Allowed (Check (V4 0x08080808) 443)"
  by (simp add: Check_V4 public4_def blocked4_def in_range_def)

text \<open>The environment of the example reads every payload as a CNAME record.\<close>

lemma cname_only: "\<not> equal_fold ''CNAME'' ''NS''" "\<not> equal_fold ''CNAME'' ''MX''"
  by code_simp+

lemma link_unmarshal [simp]: "wp_env link_params = link_env" "de_unmarshal link_env s = Some (zero_payload\<lparr>dp_RRType := ''CNAME'', dp_Value := s\<rparr>)"
  by (simp_all add: link_params_def link_env_def)

lemma no_zone: "followInheritedZone link_params ri w = (ri, w)"
proof -
  have "ns_status link_env seed nsNoData obs = Some nsNoData" for seed nsNoData obs
    by (induction obs) (simp_all add: cname_only)
  then show ?thesis unfolding followInheritedZone_def Let_def by simp
qed

lemma no_dependencies: "followDependencies link_params ri w = (ri, w)"
proof -
  have "gather_dependencies link_env obs [] w = ([], w)" for obs
    by (induction obs) (simp_all add: dependency_target_def cname_only)
  then show ?thesis by (simp add: followDependencies_def)
qed

definition one_walk :: seed_walk where
  "one_walk = seed_answer link_params one_arrival 0 \<lparr>sw_walk = start_walk fresh_result, sw_targets = []\<rparr>"

lemma one_walk:
  "sw_targets one_walk = []"
  "wk_candidates (sw_walk one_walk) = [\<lparr>cd_Hostname = ''www.example'', cd_Address = V4 0x08080808, cd_Port = 443\<rparr>]"
  "cv_Status (dc_Coverage (wk_result (sw_walk one_walk))) = CoverageComplete"
proof -
  have outcome: "normalizeOutcome link_env (rp_Result (ar_replies one_arrival 0)) None = Answered"
    by (simp add: one_arrival_def normalizeOutcome_def empty_result_def)
  show "sw_targets one_walk = []"
  "wk_candidates (sw_walk one_walk) = [\<lparr>cd_Hostname = ''www.example'', cd_Address = V4 0x08080808, cd_Port = 443\<rparr>]"
  "cv_Status (dc_Coverage (wk_result (sw_walk one_walk))) = CoverageComplete"
  using outcome address_allowed
  by (simp_all add: one_walk_def seed_answer_def one_arrival_def Let_def empty_result_def note_addresses_def note_address_def
    link_params_def link_world_def walk_ops start_walk_def fresh_result_def count_outcome_def count_omitted_def count_seed_attempts_def
    dnsOutcomeCompleted_def)
qed

lemma one_arrival_collected:
  obtains r w graph where "collectOccurrence link_params one_arrival link_world None
      = (r, [\<lparr>cd_Hostname = ''www.example'', cd_Address = V4 0x08080808, cd_Port = 443\<rparr>], w, graph)"
    "cv_Status (dc_Coverage r) = CoverageComplete"
proof -
  obtain v where "followCNAMEGraph link_params [] (start_walk fresh_result) = (6, v)" "wk_result v = fresh_result" "wk_candidates v = []"
    using empty_graph by blast
  moreover have "link_params\<lparr>wp_world := link_world\<rparr> = link_params" by (simp add: link_params_def)
  moreover have "fold (seed_answer link_params one_arrival) (ar_order one_arrival) \<lparr>sw_walk = start_walk fresh_result, sw_targets = []\<rparr>
      = one_walk" "ar_merge one_arrival = (@)" by (simp_all add: one_walk_def one_arrival_def)
  ultimately show ?thesis
    using that one_walk
    by (simp add: collectOccurrence_def Let_def no_zone no_dependencies add_graph_def fresh_result_def zero_coverage_def)
qed

lemma dns_observations_distinct_example:
  "\<exists>r cs w graph keys. collectOccurrence link_params one_arrival link_world None = (r, cs, w, graph)
     \<and> map ob_ID (dc_Observations r) = map (key_id link_env) keys \<and> distinct (map slot keys)"
proof -
  obtain r cs w graph where c: "collectOccurrence link_params one_arrival link_world None = (r, cs, w, graph)" by (metis prod_cases4)
  from dns_observations_distinct [OF c] c show ?thesis by (auto simp: one_arrival_def)
qed

theorem dns_coverage_honest_witness:
  "\<exists>r cs w graph. collectOccurrence link_params one_arrival link_world None = (r, cs, w, graph)
     \<and> cv_ErrorCodes (dc_Coverage r) = [] \<and> cv_Omitted (dc_Coverage r) = 0 \<and> \<not> incomplete_reply link_env (ar_replies one_arrival 0)"
proof -
  obtain r w graph where c: "collectOccurrence link_params one_arrival link_world None
      = (r, [\<lparr>cd_Hostname = ''www.example'', cd_Address = V4 0x08080808, cd_Port = 443\<rparr>], w, graph)"
      "cv_Status (dc_Coverage r) = CoverageComplete" by (rule one_arrival_collected)
  from dns_coverage_honest [OF c] c show ?thesis by (auto simp: one_arrival_def)
qed

theorem dns_candidates_allowed_witness:
  "dd_Allowed (Check (V4 0x08080808) 443)"
proof -
  obtain r w graph where c: "collectOccurrence link_params one_arrival link_world None
      = (r, [\<lparr>cd_Hostname = ''www.example'', cd_Address = V4 0x08080808, cd_Port = 443\<rparr>], w, graph)"
    by (rule one_arrival_collected)
  have "ar_merge one_arrival xs ys \<in> shuffles xs ys" for xs ys
    by (induction xs) (simp_all add: one_arrival_def Cons_in_shuffles_leftI)
  from dns_candidates_allowed [OF c this] show ?thesis by (simp add: link_params_def)
qed

end
