(* ===== verification/Http_Base.thy ===== *)
theory Http_Base
  imports Dns_Base Target
begin

text \<open>
  Package internal/collect/http, collector.go and tls.go: one exchange with one address.

  The network, the TLS library and the clock are the record \<open>exchange\<close>: what the request, the
  handshake and the response of one round trip are. URL references, the JSON encoder, the HTML tokenizer, SHA-256
  and the error types of other packages are the fields of \<open>http_env\<close>.
\<close>

section \<open>Payloads and replies\<close>

record tls_payload =
  tc_URL :: string
  tc_Hostname :: string
  tc_PeerAddress :: addr
  tc_CollectionRunID :: string
  tc_Attempt :: int
  tc_Hop :: int
  tc_Verified :: bool
  tc_Failure :: string
  tc_FingerprintSHA256 :: string
  tc_SubjectCommonName :: string
  tc_DNSNames :: "string list"
  tc_IPAddresses :: "string list"
  tc_NamesOmitted :: int
  tc_FieldsTruncated :: int
  tc_IssuerCommonName :: string
  tc_IssuerOrganization :: "string list"
  tc_NotBefore :: "gotime option"
  tc_NotAfter :: "gotime option"
  tc_TLSVersion :: string
  tc_ALPN :: string

datatype x509_failure = HostnameMismatch | Expired | UnknownAuthority | OtherFailure

record leaf_certificate =
  lf_Raw :: string
  lf_SubjectCommonName :: string
  lf_IssuerCommonName :: string
  lf_IssuerOrganization :: "string list"
  lf_DNSNames :: "string list"
  lf_IPAddresses :: "string list"
  lf_NotBefore :: gotime
  lf_NotAfter :: gotime

record handshake =
  hs_err :: "go_error option"
  hs_version :: string
  hs_protocol :: string
  hs_peers :: "leaf_certificate list"

text \<open>A response: reading at most \<open>n\<close> bytes of its body gives \<open>hr_read n\<close>.\<close>

record http_response =
  hr_StatusCode :: int
  hr_Headers :: "(string \<times> string list) list"
  hr_read :: "nat \<Rightarrow> string \<times> go_error option"
  hr_closeErr :: "go_error option"

record exchange =
  xc_request :: "go_error option"
  xc_handshake :: "handshake option"
  xc_reply :: "go_error + http_response"
  xc_allowance :: int
  xc_handshake_now :: gotime
  xc_now :: gotime

record http_env =
  he_dns :: dns_env
  he_url_Parse :: "string \<Rightarrow> go_error + url"
  he_url_Ref :: "url \<Rightarrow> string \<Rightarrow> go_error + url"
  he_url_String :: "url \<Rightarrow> string"
  he_RawQuery :: "url \<Rightarrow> string"
  he_with_RawQuery :: "string \<Rightarrow> url \<Rightarrow> url"
  he_EscapedPath :: "url \<Rightarrow> string"
  he_marshal_http :: "http_payload \<Rightarrow> go_error + json_value"
  he_marshal_tls :: "tls_payload \<Rightarrow> go_error + json_value"
  he_sha256 :: "string \<Rightarrow> string"
  he_start_tags :: "string \<Rightarrow> (string \<times> (string \<times> string) list) list"
  he_valid_utf8 :: "string \<Rightarrow> string"
  he_x509 :: "go_error \<Rightarrow> x509_failure"
  he_verification_error :: "go_error \<Rightarrow> bool"

definition zero_observation :: observation where
  "zero_observation = \<lparr>ob_ID = [], ob_Type = [], ob_Subject = [], ob_Relation = [], ob_Scope = [], ob_ObservedAt = 0,
     ob_CollectorVersion = [], ob_Status = [], ob_Payload = [], ob_ContentHash = []\<rparr>"

record http_result =
  hx_Observation :: observation
  hx_Observations :: "observation list"
  hx_TLSObservations :: "observation list"
  hx_Coverage :: coverage
  hx_SignalCoverage :: "coverage list"
  hx_PeerAddress :: addr
  hx_Headers :: "(string \<times> string list) list"
  hx_Body :: string
  hx_TLSAttempted :: bool

definition zero_result :: http_result where
  "zero_result = \<lparr>hx_Observation = zero_observation, hx_Observations = [], hx_TLSObservations = [], hx_Coverage = zero_coverage,
     hx_SignalCoverage = [], hx_PeerAddress = NoAddr, hx_Headers = [], hx_Body = [], hx_TLSAttempted = False\<rparr>"

section \<open>Ports, errors and headers\<close>

definition portForScheme :: "string \<Rightarrow> nat" where
  "portForScheme scheme = (if scheme = ''http'' then 80 else 443)"

definition portForURL :: "url \<Rightarrow> nat" where
  "portForURL value =
     (if u_Port value = ''80'' then 80 else if u_Port value = ''443'' then 443 else portForScheme (u_Scheme value))"

definition redactQuery :: "http_env \<Rightarrow> url \<Rightarrow> string" where
  "redactQuery E value =
     (let copyURL = (if he_RawQuery E value \<noteq> [] then he_with_RawQuery E ''redacted'' value else value)
      in he_url_String E (copyURL\<lparr>u_Fragment := []\<rparr>))"

definition selectedHeaders :: "(string \<times> string list) list \<Rightarrow> http_header list" where
  "selectedHeaders headers =
     sort_key hh_Name (map (\<lambda>(name, values). \<lparr>hh_Name = to_lower name, hh_Values = values\<rparr>)
       (filter (\<lambda>(name, values). to_lower name \<in> set [''content-type'', ''server'', ''via'', ''x-powered-by'']) headers))"

definition header_Get :: "(string \<times> string list) list \<Rightarrow> string \<Rightarrow> string" where
  "header_Get headers name = (case map_of headers name of Some (v # vs) \<Rightarrow> v | _ \<Rightarrow> [])"

definition isRedirectStatus :: "int \<Rightarrow> bool" where
  "isRedirectStatus status = (status \<in> set [301, 302, 303, 307, 308])"

definition collectionErrorCode :: "dns_env \<Rightarrow> go_error \<Rightarrow> error_code" where
  "collectionErrorCode E e =
     (if ErrorCodeOf (Some e) \<noteq> CodeNone then ErrorCodeOf (Some e)
      else if errors_is e ContextCanceled then CodeCancelled
      else if errors_is e DeadlineExceeded then CodeTimeout
      else if de_net_timeout E e then CodeTimeout
      else if contains (error_string e) ''response headers exceeded'' then CodeBudgetExceeded
      else CodeCollectionFailed)"

text \<open>An error of a hop, and whether it happened before any response.\<close>

datatype hop_error = PreResponse (hop_cause: go_error) | AfterResponse (hop_cause: go_error)

definition eligibleAddressFallback :: "http_env \<Rightarrow> go_error option \<Rightarrow> hop_error \<Rightarrow> bool" where
  "eligibleAddressFallback E parent err =
     (case err of
        AfterResponse _ \<Rightarrow> False
      | PreResponse e \<Rightarrow>
          if parent \<noteq> None \<or> errors_is e ContextCanceled then False
          else if contains (error_string e) ''response headers exceeded'' then False
          else \<not> he_verification_error E e)"

section \<open>Scripts of a document\<close>

text \<open>The first \<open>src\<close> attribute of a script tag, as an absolute URL without query and fragment.\<close>

definition script_source :: "http_env \<Rightarrow> url \<Rightarrow> string \<times> (string \<times> string) list \<Rightarrow> string option" where
  "script_source E base tag =
     (case tag of (name, attributes) \<Rightarrow>
        if \<not> equal_fold name ''script'' then None
        else case find (\<lambda>(key, value). equal_fold key ''src'') attributes of
            None \<Rightarrow> None
          | Some (_, value) \<Rightarrow>
              (case he_url_Ref E base value of
                 Inl _ \<Rightarrow> None
               | Inr parsed \<Rightarrow>
                   if u_Hostname parsed = [] \<or> u_User parsed \<noteq> None \<or> (u_Scheme parsed \<noteq> ''http'' \<and> u_Scheme parsed \<noteq> ''https'')
                   then None
                   else Some (he_url_String E ((he_with_RawQuery E [] parsed)\<lparr>u_Fragment := []\<rparr>))))"

fun script_scan :: "nat \<Rightarrow> string option list \<Rightarrow> string list \<Rightarrow> string list \<Rightarrow> int \<Rightarrow> string list \<times> int" where
  "script_scan limit [] seen result omitted = (result, omitted)"
| "script_scan limit (None # rest) seen result omitted = script_scan limit rest seen result omitted"
| "script_scan limit (Some value # rest) seen result omitted =
     (if value \<in> set seen then script_scan limit rest seen result omitted
      else if length result < limit then script_scan limit rest (value # seen) (result @ [value]) omitted
      else script_scan limit rest (value # seen) result (omitted + 1))"

definition scriptURLs :: "http_env \<Rightarrow> string \<Rightarrow> url \<Rightarrow> nat \<Rightarrow> string list \<times> int" where
  "scriptURLs E body base limit =
     (case script_scan limit (map (script_source E base) (he_start_tags E body)) [] [] 0 of
        (result, omitted) \<Rightarrow> (sort result, omitted))"

section \<open>The handshake\<close>

abbreviation "maximumTLSNames \<equiv> 64 :: nat"
abbreviation "maximumTLSFieldBytes \<equiv> 255 :: nat"
abbreviation "maximumIssuerOrganizations \<equiv> 4 :: nat"

definition boundedTLSField :: "http_env \<Rightarrow> string \<Rightarrow> string" where
  "boundedTLSField E value = he_valid_utf8 E (take maximumTLSFieldBytes value)"

definition tlsFailureCode :: "http_env \<Rightarrow> go_error option \<Rightarrow> string" where
  "tlsFailureCode E err =
     (case err of
        None \<Rightarrow> ''handshake_failed''
      | Some e \<Rightarrow>
          (case he_x509 E e of
             HostnameMismatch \<Rightarrow> ''hostname_mismatch''
           | Expired \<Rightarrow> ''certificate_expired_or_not_yet_valid''
           | UnknownAuthority \<Rightarrow> ''untrusted_authority''
           | OtherFailure \<Rightarrow> ''handshake_failed''))"

text \<open>How many of the values lose bytes.\<close>

definition fields_truncated :: "string list \<Rightarrow> int" where
  "fields_truncated values = int (length (filter (\<lambda>value. length value > maximumTLSFieldBytes) values))"

definition with_leaf :: "http_env \<Rightarrow> leaf_certificate \<Rightarrow> tls_payload \<Rightarrow> tls_payload" where
  "with_leaf E leaf payload =
     (let organizations = take maximumIssuerOrganizations (lf_IssuerOrganization leaf);
          names = take maximumTLSNames (lf_DNSNames leaf);
          addresses = take (maximumTLSNames - length names) (lf_IPAddresses leaf)
      in payload\<lparr>tc_FingerprintSHA256 := ''sha256:'' @ he_sha256 E (lf_Raw leaf),
           tc_SubjectCommonName := boundedTLSField E (lf_SubjectCommonName leaf),
           tc_IssuerCommonName := boundedTLSField E (lf_IssuerCommonName leaf),
           tc_IssuerOrganization := map (boundedTLSField E) organizations,
           tc_DNSNames := map (boundedTLSField E) names,
           tc_IPAddresses := addresses,
           tc_NamesOmitted := int (length (lf_DNSNames leaf) - length names) + int (length (lf_IPAddresses leaf) - length addresses),
           tc_FieldsTruncated := tc_FieldsTruncated payload
             + fields_truncated (lf_SubjectCommonName leaf # lf_IssuerCommonName leaf # organizations @ names)
             + int (length (lf_IssuerOrganization leaf) - length organizations),
           tc_NotBefore := Some (lf_NotBefore leaf), tc_NotAfter := Some (lf_NotAfter leaf)\<rparr>)"

definition handshake_payload :: "http_env \<Rightarrow> url \<Rightarrow> addr \<Rightarrow> occurrence \<Rightarrow> handshake \<Rightarrow> tls_payload" where
  "handshake_payload E targetURL address oc hs =
     (let verified = (hs_err hs = None \<and> hs_peers hs \<noteq> []);
          payload = \<lparr>tc_URL = u_Scheme targetURL @ ''://'' @ u_Host targetURL, tc_Hostname = u_Hostname targetURL,
            tc_PeerAddress = address, tc_CollectionRunID = oc_CollectionRunID oc, tc_Attempt = oc_Attempt oc, tc_Hop = oc_Hop oc,
            tc_Verified = verified,
            tc_Failure = (if verified then [] else if hs_err hs = None then ''certificate_missing'' else tlsFailureCode E (hs_err hs)),
            tc_FingerprintSHA256 = [], tc_SubjectCommonName = [], tc_DNSNames = [], tc_IPAddresses = [], tc_NamesOmitted = 0,
            tc_FieldsTruncated = fields_truncated [hs_protocol hs], tc_IssuerCommonName = [], tc_IssuerOrganization = [],
            tc_NotBefore = None, tc_NotAfter = None, tc_TLSVersion = hs_version hs, tc_ALPN = boundedTLSField E (hs_protocol hs)\<rparr>
      in case hs_peers hs of [] \<Rightarrow> payload | leaf # _ \<Rightarrow> with_leaf E leaf payload)"

definition handshake_observation ::
    "http_env \<Rightarrow> url \<Rightarrow> addr \<Rightarrow> string \<Rightarrow> occurrence \<Rightarrow> gotime \<Rightarrow> handshake option \<Rightarrow> observation option" where
  "handshake_observation E targetURL address originalHostname oc now seen =
     (case seen of
        None \<Rightarrow> None
      | Some hs \<Rightarrow>
          let payload = handshake_payload E targetURL address oc hs in
          case he_marshal_tls E payload of
              Inl _ \<Rightarrow> None
            | Inr encoded \<Rightarrow>
                Some \<lparr>ob_ID = ObservationID (he_dns E) ''tls-certificate'' oc [u_Scheme targetURL, u_Host targetURL, addr_string address],
                  ob_Type = ''tls_certificate'', ob_Subject = u_Hostname targetURL, ob_Relation = RelationWebDelivery,
                  ob_Scope = (if equal_fold (u_Hostname targetURL) originalHostname then ScopeRoot else ScopeExternalRedirect),
                  ob_ObservedAt = now, ob_CollectorVersion = [], ob_Status = (if tc_Verified payload then ''verified'' else ''unverified''),
                  ob_Payload = encoded, ob_ContentHash = tc_FingerprintSHA256 payload\<rparr>)"

section \<open>One exchange\<close>

definition response_payload ::
    "http_env \<Rightarrow> url \<Rightarrow> addr \<Rightarrow> http_response \<Rightarrow> string \<Rightarrow> bool \<Rightarrow> bool \<Rightarrow> string list \<Rightarrow> int \<Rightarrow> http_payload" where
  "response_payload E targetURL address response body truncated bodyReadFailed scripts omittedScripts =
     \<lparr>hp_URL = redactQuery E targetURL, hp_StatusCode = hr_StatusCode response, hp_PeerAddress = address,
      hp_Headers = selectedHeaders (hr_Headers response), hp_BodyHash = ''sha256:'' @ he_sha256 E body,
      hp_BodyLength = int (length body), hp_BodyTruncated = truncated, hp_BodyReadFailed = bodyReadFailed,
      hp_ScriptURLs = scripts, hp_ScriptURLsOmitted = omittedScripts,
      hp_ScriptScanComplete = Some (\<not> truncated \<and> \<not> bodyReadFailed \<and> omittedScripts = 0)\<rparr>"

definition response_coverage ::
    "dns_env \<Rightarrow> bool \<Rightarrow> go_error option \<Rightarrow> go_error option \<Rightarrow> coverage" where
  "response_coverage E truncated readErr closeErr =
     zero_coverage\<lparr>cv_Capability := ''http'',
       cv_Status := (if truncated \<or> readErr \<noteq> None \<or> closeErr \<noteq> None then CoveragePartial else CoverageComplete),
       cv_Attempted := 1, cv_Completed := 1, cv_Truncated := (if truncated then 1 else 0),
       cv_ErrorCodes := (case readErr of None \<Rightarrow> [] | Some e \<Rightarrow> [collectionErrorCode E e])
         @ (case closeErr of None \<Rightarrow> [] | Some e \<Rightarrow> [collectionErrorCode E e])\<rparr>"

definition signal_coverage :: "bool \<Rightarrow> bool \<Rightarrow> int \<Rightarrow> coverage" where
  "signal_coverage truncated bodyReadFailed omittedScripts =
     (let c = zero_coverage\<lparr>cv_Capability := ''http_script_signals'', cv_Status := CoverageComplete, cv_Attempted := 1,
                cv_Completed := 1, cv_Omitted := omittedScripts\<rparr>
      in if \<not> truncated \<and> \<not> bodyReadFailed \<and> omittedScripts = 0 then c
         else if truncated \<or> bodyReadFailed
         then c\<lparr>cv_Status := CoveragePartial, cv_Truncated := 1, cv_Omitted := omittedScripts + 1,
                cv_Reason := ''body collection ended before all script signals could be examined''\<rparr>
         else c\<lparr>cv_Status := CoveragePartial, cv_Reason := ''unique script signal limit reached''\<rparr>)"

text \<open>The bytes kept of a body, whether it was cut, and the error of reading it.\<close>

definition read_body :: "int \<Rightarrow> http_response \<Rightarrow> string \<times> bool \<times> go_error option" where
  "read_body allowance response =
     (case hr_read response (nat (allowance + 1)) of (body, readErr) \<Rightarrow>
        (take (nat allowance) body, int (length body) > allowance, readErr))"

definition response_location :: "http_response \<Rightarrow> string" where
  "response_location response =
     (if isRedirectStatus (hr_StatusCode response) then header_Get (hr_Headers response) ''Location'' else [])"

definition collectHop ::
    "http_env \<Rightarrow> url \<Rightarrow> addr \<Rightarrow> string \<Rightarrow> occurrence \<Rightarrow> exchange \<Rightarrow> http_result \<times> string \<times> hop_error option" where
  "collectHop E targetURL address originalHostname oc x =
     (if \<not> dd_Allowed (Check address (portForURL targetURL))
      then (zero_result, [], Some (AfterResponse (NewError CodePolicyBlocked ''HTTP destination is prohibited'' None)))
      else case xc_request x of
        Some e \<Rightarrow> (zero_result, [], Some (AfterResponse (Wrap ''create HTTP request'' e)))
      | None \<Rightarrow>
          let tls = (if u_Scheme targetURL = ''https''
                     then (case handshake_observation E targetURL address originalHostname oc (xc_handshake_now x) (xc_handshake x) of
                             None \<Rightarrow> [] | Some ob \<Rightarrow> [ob])
                     else [])
          in case xc_reply x of
            Inl e \<Rightarrow> (zero_result\<lparr>hx_TLSObservations := tls\<rparr>, [], Some (PreResponse (Wrap ''collect HTTP response'' e)))
          | Inr response \<Rightarrow>
              (case read_body (xc_allowance x) response of (body, truncated, readErr) \<Rightarrow>
               (case scriptURLs E body targetURL 128 of (scripts, omittedScripts) \<Rightarrow>
                let bodyReadFailed = (readErr \<noteq> None \<or> hr_closeErr response \<noteq> None);
                    payload = response_payload E targetURL address response body truncated bodyReadFailed scripts omittedScripts;
                    path = (if he_EscapedPath E targetURL = [] then ''/'' else he_EscapedPath E targetURL)
                in case he_marshal_http E payload of
                  Inl e \<Rightarrow> (zero_result, [], Some (AfterResponse (Wrap ''encode HTTP observation'' e)))
                | Inr encoded \<Rightarrow>
                    let observation = \<lparr>ob_ID = ObservationID (he_dns E) ''http-response'' oc
                            [''GET'', u_Scheme targetURL, u_Host targetURL, path, addr_string address],
                          ob_Type = ''http_response'', ob_Subject = u_Hostname targetURL, ob_Relation = RelationWebDelivery,
                          ob_Scope = (if equal_fold (u_Hostname targetURL) originalHostname then ScopeRoot else ScopeExternalRedirect),
                          ob_ObservedAt = xc_now x, ob_CollectorVersion = [], ob_Status = ''responded'', ob_Payload = encoded,
                          ob_ContentHash = hp_BodyHash payload\<rparr>;
                        result = \<lparr>hx_Observation = observation, hx_Observations = [], hx_TLSObservations = tls,
                          hx_Coverage = response_coverage (he_dns E) truncated readErr (hr_closeErr response),
                          hx_SignalCoverage = [signal_coverage truncated bodyReadFailed omittedScripts],
                          hx_PeerAddress = address, hx_Headers = hr_Headers response, hx_Body = body, hx_TLSAttempted = False\<rparr>
                    in (case readErr of
                          Some e \<Rightarrow> (result, [], Some (AfterResponse (Wrap ''read HTTP response'' e)))
                        | None \<Rightarrow>
                            (case hr_closeErr response of
                               Some e \<Rightarrow> (result, [], Some (AfterResponse (Wrap ''close HTTP response'' e)))
                             | None \<Rightarrow> (result, response_location response, None))))))"

end
