(* ===== verification/Http_Collector.thy ===== *)
theory Http_Collector
  imports Http_Base
begin

text \<open>
  Package internal/collect/http, collector.go: the candidates of one hop and the chain of redirects.

  A run is a function of its world: at each step that looks outside, what the context says, whether a
  request is admitted and what the exchange with an address is. A channel of addresses is the list of
  the addresses it will deliver; a wait on the channel and the context may end either way, as the
  world says. The requests made are recorded.
\<close>

section \<open>The world and the run\<close>

datatype resolve_error = Unresolved go_error | PartialResolution int go_error | JoinedResolution resolve_error resolve_error

text \<open>\<open>errors.As\<close> for \<open>*PartialResolutionError\<close>, and the error for its codes: a partial resolution
  unwraps to its cause and prints like it.\<close>

fun as_partial :: "resolve_error \<Rightarrow> (int \<times> go_error) option" where
  "as_partial (Unresolved e) = None"
| "as_partial (PartialResolution n e) = Some (n, e)"
| "as_partial (JoinedResolution a b) = (case as_partial a of Some p \<Rightarrow> Some p | None \<Rightarrow> as_partial b)"

fun resolve_cause :: "resolve_error \<Rightarrow> go_error" where
  "resolve_cause (Unresolved e) = e"
| "resolve_cause (PartialResolution n e) = e"
| "resolve_cause (JoinedResolution a b) = Joined (resolve_cause a) (resolve_cause b)"

text \<open>A streaming resolver delivers addresses, drops some for which the channel has no room, and ends.\<close>

record streamed =
  st_addresses :: "addr list"
  st_dropped :: int
  st_err :: "resolve_error option"

record http_world =
  hw_ctx :: "nat \<Rightarrow> go_error option"
  hw_acquire :: "nat \<Rightarrow> string \<Rightarrow> go_error option"
  hw_exchange :: "nat \<Rightarrow> exchange"
  hw_resolve :: "nat \<Rightarrow> string \<Rightarrow> addr list \<times> resolve_error option"

record http_collector =
  hc_maxRedirects :: int
  hc_maxCandidates :: nat
  hc_resolve :: bool
  hc_streamResolve :: "(string \<Rightarrow> int \<Rightarrow> streamed) option"

record http_dial =
  dl_url :: url
  dl_address :: addr
  dl_occurrence :: occurrence
  dl_exchange :: exchange

record http_run =
  ht_coverage :: coverage
  ht_dials :: "http_dial list"
  ht_time :: nat

definition hcover :: "(coverage \<Rightarrow> coverage) \<Rightarrow> http_run \<Rightarrow> http_run" where
  "hcover f r = r\<lparr>ht_coverage := f (ht_coverage r)\<rparr>"

definition htick :: "http_run \<Rightarrow> http_run" where
  "htick r = r\<lparr>ht_time := Suc (ht_time r)\<rparr>"

definition degrade :: "int \<Rightarrow> error_code list \<Rightarrow> coverage \<Rightarrow> coverage" where
  "degrade omitted codes c = c\<lparr>cv_Status := CoveragePartial, cv_Omitted := cv_Omitted c + omitted,
     cv_ErrorCodes := cv_ErrorCodes c @ codes\<rparr>"

section \<open>The candidates of a hop\<close>

definition request_sent :: "url \<Rightarrow> addr \<Rightarrow> occurrence \<Rightarrow> exchange \<Rightarrow> http_run \<Rightarrow> http_run" where
  "request_sent targetURL address oc x r =
     r\<lparr>ht_dials := ht_dials r @ [\<lparr>dl_url = targetURL, dl_address = address, dl_occurrence = oc, dl_exchange = x\<rparr>]\<rparr>"

definition completed_one :: "coverage \<Rightarrow> coverage" where
  "completed_one c = c\<lparr>cv_Completed := cv_Completed c + 1\<rparr>"

text \<open>The result is that of the hop, its redirect location, its error, the candidates left in the
  source and the run.\<close>

type_synonym hop_output = "(http_result \<times> string \<times> hop_error option) \<times> addr list \<times> http_run"

fun collectHopCandidates ::
    "http_env \<Rightarrow> http_world \<Rightarrow> url \<Rightarrow> addr list \<Rightarrow> string \<Rightarrow> occurrence \<Rightarrow> int \<Rightarrow> hop_error option \<Rightarrow> observation list
      \<Rightarrow> http_run \<Rightarrow> hop_output" where
  "collectHopCandidates E W targetURL [] originalHostname oc dialAttempt lastErr tls r =
     (case hw_ctx W (ht_time r) of
        Some e \<Rightarrow> ((zero_result\<lparr>hx_TLSObservations := tls\<rparr>, [], Some (AfterResponse e)), [], htick r)
      | None \<Rightarrow>
          ((zero_result\<lparr>hx_TLSObservations := tls\<rparr>, [],
            Some (case lastErr of Some e \<Rightarrow> e
                  | None \<Rightarrow> AfterResponse (NewError CodeCapabilityUnavailable ''no approved HTTP destination address'' None))),
           [], htick r))"
| "collectHopCandidates E W targetURL (address # rest) originalHostname oc dialAttempt lastErr tls r =
     (case hw_ctx W (ht_time r) of
        Some e \<Rightarrow> ((zero_result\<lparr>hx_TLSObservations := tls\<rparr>, [], Some (AfterResponse e)), address # rest, htick r)
      | None \<Rightarrow>
          let address = unmap address; r = htick r in
          if \<not> dd_Allowed (Check address (portForURL targetURL))
          then collectHopCandidates E W targetURL rest originalHostname oc dialAttempt lastErr tls
                 (hcover (degrade 1 [CodePolicyBlocked]) r)
          else case hw_acquire W (ht_time r) (JoinHostPort (addr_string address) (nat_string (portForURL targetURL))) of
              Some e \<Rightarrow> ((zero_result\<lparr>hx_TLSObservations := tls\<rparr>, [], Some (AfterResponse e)), rest, htick r)
            | None \<Rightarrow>
                let r = hcover (\<lambda>c. c\<lparr>cv_Attempted := cv_Attempted c + 1\<rparr>) (htick r);
                    attempt = oc\<lparr>oc_Attempt := oc_Attempt oc + dialAttempt\<rparr>;
                    x = hw_exchange W (ht_time r);
                    (result, location, err) = collectHop E targetURL address originalHostname attempt x;
                    r = htick (request_sent targetURL address attempt x r);
                    tls = tls @ hx_TLSObservations result;
                    result = result\<lparr>hx_TLSObservations := tls\<rparr>
                in case err of
                    None \<Rightarrow> ((result, location, None), rest, hcover completed_one r)
                  | Some e \<Rightarrow>
                      if ob_ID (hx_Observation result) \<noteq> [] then ((result, location, Some e), rest, hcover completed_one r)
                      else if \<not> eligibleAddressFallback E (hw_ctx W (ht_time r)) e
                      then ((zero_result\<lparr>hx_TLSObservations := tls\<rparr>, [], Some e), rest, htick r)
                      else collectHopCandidates E W targetURL rest originalHostname oc (dialAttempt + 1) (Some e) tls (htick r))"

section \<open>The chain of redirects\<close>

text \<open>What is collected over the hops, the resolutions whose addresses are still to be drained, each
  with the addresses left and the port they are for, and the run.\<close>

record pending_resolution =
  pr_addresses :: "addr list"
  pr_err :: "resolve_error option"
  pr_port :: nat

record http_chain =
  ch_observations :: "observation list"
  ch_signal :: "coverage list"
  ch_final :: http_result
  ch_tls :: bool
  ch_pending :: "pending_resolution list"
  ch_resolved :: "(string \<times> int) list"
  ch_run :: http_run

abbreviation chain_cover :: "(coverage \<Rightarrow> coverage) \<Rightarrow> http_chain \<Rightarrow> http_chain" where
  "chain_cover f k \<equiv> k\<lparr>ch_run := hcover f (ch_run k)\<rparr>"

definition finish :: "http_chain \<Rightarrow> http_result" where
  "finish k = (ch_final k)\<lparr>hx_Observations := ch_observations k, hx_Coverage := ht_coverage (ch_run k), hx_TLSAttempted := ch_tls k\<rparr>"

text \<open>The next URL of a redirect, or the code of its refusal.\<close>

definition next_target :: "http_env \<Rightarrow> url \<Rightarrow> string \<Rightarrow> error_code + url" where
  "next_target E currentURL location =
     (case he_url_Ref E currentURL location of
        Inl _ \<Rightarrow> Inl CodeInvalidTarget
      | Inr nextURL \<Rightarrow>
          if u_Hostname nextURL = [] \<or> u_User nextURL \<noteq> None \<or> (u_Scheme nextURL \<noteq> ''http'' \<and> u_Scheme nextURL \<noteq> ''https'')
          then Inl CodeInvalidTarget
          else if u_Port nextURL \<noteq> [] \<and> u_Port nextURL \<noteq> ''80'' \<and> u_Port nextURL \<noteq> ''443'' then Inl CodePolicyBlocked
          else Inr nextURL)"

text \<open>The addresses of a redirect target from the plain resolver.\<close>

definition resolve_next :: "http_env \<Rightarrow> http_world \<Rightarrow> url \<Rightarrow> http_chain \<Rightarrow> addr list option \<times> http_chain" where
  "resolve_next E W nextURL k =
     (let (addresses, resolveErr) = hw_resolve W (ht_time (ch_run k)) (u_Hostname nextURL);
          k = k\<lparr>ch_run := htick (ch_run k)\<rparr>;
          port = portForURL nextURL;
          approve = (\<lambda>k. case approvedAddresses addresses port of (approved, blocked) \<Rightarrow>
             let k = (if blocked then chain_cover (degrade 0 [CodePolicyBlocked]) k else k)
             in if approved = [] then (None, chain_cover (degrade 1 (if blocked then [] else [CodeCollectionFailed])) k)
                else (Some approved, k))
      in case resolveErr of
          None \<Rightarrow> approve k
        | Some e \<Rightarrow>
            (case as_partial e of
               None \<Rightarrow> (None, chain_cover (degrade 0 [collectionErrorCode (he_dns E) (resolve_cause e)]) k)
             | Some (omitted, cause) \<Rightarrow>
                 if addresses = [] then (None, chain_cover (degrade 0 [collectionErrorCode (he_dns E) (resolve_cause e)]) k)
                 else approve (chain_cover (degrade (max omitted 1) [collectionErrorCode (he_dns E) cause]) k)))"

text \<open>A resolver that drops addresses joins the loss to its error.\<close>

definition stream_error :: "streamed \<Rightarrow> resolve_error option" where
  "stream_error s =
     (let dropped = PartialResolution (st_dropped s) (NewError CodeBudgetExceeded ''redirect candidate buffer exhausted'' None)
      in if st_dropped s > 0
         then Some (case st_err s of None \<Rightarrow> dropped | Some e \<Rightarrow> JoinedResolution e dropped) else st_err s)"

text \<open>The effect of one hop on the chain; \<open>stream\<close> is the resolution that feeds the hop.\<close>

definition take_hop ::
    "http_env \<Rightarrow> http_world \<Rightarrow> url \<Rightarrow> addr list \<Rightarrow> (resolve_error option) option \<Rightarrow> string \<Rightarrow> occurrence \<Rightarrow> http_chain
      \<Rightarrow> (http_result \<times> string \<times> hop_error option) \<times> http_chain" where
  "take_hop E W currentURL candidates stream originalHostname oc k =
     (let (out, rest, r) = collectHopCandidates E W currentURL candidates originalHostname oc 0 None [] (ch_run k);
          (hopResult, location, err) = out
      in (out, k\<lparr>ch_tls := ch_tls k \<or> equal_fold (u_Scheme currentURL) ''https'',
           ch_signal := ch_signal k @ hx_SignalCoverage hopResult,
           ch_observations := ch_observations k @ hx_TLSObservations hopResult,
           ch_pending := ch_pending k @ (case stream of None \<Rightarrow> []
             | Some e \<Rightarrow> [\<lparr>pr_addresses = rest, pr_err = e, pr_port = portForURL currentURL\<rparr>]),
           ch_run := r\<rparr>))"

definition hop_failed :: "http_env \<Rightarrow> http_result \<Rightarrow> hop_error \<Rightarrow> http_chain \<Rightarrow> http_chain \<times> hop_error option" where
  "hop_failed E hopResult e k =
     (let responded = (ob_ID (hx_Observation hopResult) \<noteq> []);
          code = collectionErrorCode (he_dns E) (hop_cause e);
          k = (if responded
               then chain_cover (\<lambda>c. c\<lparr>cv_Truncated := cv_Truncated c + cv_Truncated (hx_Coverage hopResult)\<rparr>)
                      (k\<lparr>ch_observations := ch_observations k @ [hx_Observation hopResult], ch_final := hopResult\<rparr>)
               else k);
          k = chain_cover (degrade (if ErrorCodeOf (Some (hop_cause e)) = CodeBudgetExceeded then 1 else 0) [code]) k
      in (k, if ob_ID (hx_Observation (ch_final k)) \<noteq> [] then None else Some e))"

definition hop_responded :: "http_result \<Rightarrow> http_chain \<Rightarrow> http_chain" where
  "hop_responded hopResult k =
     (let k = k\<lparr>ch_observations := ch_observations k @ [hx_Observation hopResult], ch_final := hopResult\<rparr>
      in if cv_Status (hx_Coverage hopResult) = CoveragePartial
         then chain_cover (\<lambda>c. c\<lparr>cv_Status := CoveragePartial, cv_Truncated := cv_Truncated c + cv_Truncated (hx_Coverage hopResult)\<rparr>) k
         else k)"

function hop_loop ::
    "http_collector \<Rightarrow> http_env \<Rightarrow> http_world \<Rightarrow> url \<Rightarrow> addr list \<Rightarrow> (resolve_error option) option \<Rightarrow> string \<Rightarrow> occurrence
      \<Rightarrow> int \<Rightarrow> http_chain \<Rightarrow> http_chain \<times> hop_error option" where
  "hop_loop C E W currentURL candidates stream originalHostname oc hop k =
     (case take_hop E W currentURL candidates stream originalHostname (oc\<lparr>oc_Hop := hop\<rparr>) k of
        ((hopResult, location, err), k) \<Rightarrow>
          (case err of
             Some e \<Rightarrow> hop_failed E hopResult e k
           | None \<Rightarrow>
               let k = hop_responded hopResult k in
               if location = [] then (k, None)
               else if hop \<ge> hc_maxRedirects C then (chain_cover (degrade 1 [CodeBudgetExceeded]) k, None)
               else if \<not> hc_resolve C \<and> hc_streamResolve C = None
               then (chain_cover (degrade 1 [CodeCapabilityUnavailable]) k, None)
               else (case next_target E currentURL location of
                   Inl code \<Rightarrow> (chain_cover (degrade 1 [code]) k, None)
                 | Inr nextURL \<Rightarrow>
                     (case hc_streamResolve C of
                        Some resolve \<Rightarrow>
                          let s = resolve (u_Hostname nextURL) (hop + 1) in
                          hop_loop C E W nextURL (st_addresses s) (Some (stream_error s)) originalHostname oc (hop + 1)
                            (k\<lparr>ch_resolved := ch_resolved k @ [(u_Hostname nextURL, hop + 1)]\<rparr>)
                      | None \<Rightarrow>
                          (case resolve_next E W nextURL k of
                             (None, k) \<Rightarrow> (k, None)
                           | (Some approved, k) \<Rightarrow> hop_loop C E W nextURL approved None originalHostname oc (hop + 1) k)))))"
  by pat_completeness auto

termination hop_loop
  by (relation "measure (\<lambda>(C, E, W, u, cs, s, h, oc, hop, k). nat (hc_maxRedirects C + 1 - hop))") auto

declare hop_loop.simps [simp del]

section \<open>A collection\<close>

text \<open>What the collection waits for before it returns: every resolution ends, and the addresses nobody
  took are still checked.\<close>

definition drain_pending :: "http_env \<Rightarrow> pending_resolution \<Rightarrow> coverage \<Rightarrow> coverage" where
  "drain_pending E p c =
     (let c = (case pr_err p of
                 None \<Rightarrow> c
               | Some e \<Rightarrow>
                   (case as_partial e of
                      Some (omitted, cause) \<Rightarrow> degrade (max omitted 1) [collectionErrorCode (he_dns E) cause] c
                    | None \<Rightarrow> degrade 1 [collectionErrorCode (he_dns E) (resolve_cause e)] c))
      in fold (\<lambda>address c. if dd_Allowed (Check (unmap address) (pr_port p)) then c else degrade 0 [CodePolicyBlocked] c)
           (pr_addresses p) c)"

definition fresh_chain :: http_chain where
  "fresh_chain = \<lparr>ch_observations = [], ch_signal = [], ch_final = zero_result, ch_tls = False, ch_pending = [], ch_resolved = [],
     ch_run = \<lparr>ht_coverage = zero_coverage\<lparr>cv_Capability := ''http'', cv_Status := CoverageComplete\<rparr>, ht_dials = [], ht_time = 0\<rparr>\<rparr>"

definition checked_target :: "http_env \<Rightarrow> string \<Rightarrow> go_error + url" where
  "checked_target E rawURL =
     (case he_url_Parse E rawURL of
        Inl e \<Rightarrow> Inl (Wrap ''parse HTTP target'' e)
      | Inr u \<Rightarrow>
          if u_User u \<noteq> None \<or> u_Hostname u = [] \<or> (u_Scheme u \<noteq> ''http'' \<and> u_Scheme u \<noteq> ''https'')
          then Inl (NewError CodeInvalidTarget ''HTTP target is invalid'' None)
          else if u_Port u \<noteq> [] \<and> u_Port u \<noteq> ''80'' \<and> u_Port u \<noteq> ''443''
          then Inl (NewError CodePolicyBlocked ''HTTP target port is prohibited'' None)
          else Inr u)"

definition settle :: "http_env \<Rightarrow> http_chain \<Rightarrow> http_result" where
  "settle E k =
     (let output = finish k
      in output\<lparr>hx_Coverage := fold (drain_pending E) (ch_pending k) (hx_Coverage output), hx_SignalCoverage := ch_signal k\<rparr>)"

definition collectTargetCandidatesOccurrence ::
    "http_collector \<Rightarrow> http_env \<Rightarrow> http_world \<Rightarrow> string \<Rightarrow> addr list \<Rightarrow> occurrence \<Rightarrow> http_result \<times> go_error option \<times> http_chain" where
  "collectTargetCandidatesOccurrence C E W rawURL candidates oc =
     (case checked_target E rawURL of
        Inl e \<Rightarrow> (zero_result, Some e, fresh_chain)
      | Inr currentURL \<Rightarrow>
          (case hop_loop C E W currentURL candidates None (u_Hostname currentURL) oc 0 fresh_chain of
             (k, err) \<Rightarrow> (settle E k, map_option hop_cause err, k)))"

definition CollectTargetOccurrence ::
    "http_collector \<Rightarrow> http_env \<Rightarrow> http_world \<Rightarrow> string \<Rightarrow> addr \<Rightarrow> occurrence \<Rightarrow> http_result \<times> go_error option \<times> http_chain" where
  "CollectTargetOccurrence C E W rawURL address oc = collectTargetCandidatesOccurrence C E W rawURL [address] oc"

definition CollectTargetCandidatesOccurrenceWithRedirectResolver ::
    "http_collector \<Rightarrow> http_env \<Rightarrow> http_world \<Rightarrow> string \<Rightarrow> addr list \<Rightarrow> occurrence \<Rightarrow> (string \<Rightarrow> int \<Rightarrow> streamed)
      \<Rightarrow> http_result \<times> go_error option \<times> http_chain" where
  "CollectTargetCandidatesOccurrenceWithRedirectResolver C E W rawURL candidates oc resolve =
     collectTargetCandidatesOccurrence (C\<lparr>hc_streamResolve := Some resolve\<rparr>) E W rawURL candidates oc"

end
