(* ===== verification/Http_Properties.thy ===== *)
theory Http_Properties
  imports Http_Collector Dns_Properties
begin

text \<open>
  What a collection of internal/collect/http guarantees: where its requests go, which observations it
  retains and what its coverage counts.
\<close>

section \<open>Rules\<close>

text \<open>What holds of every way one hop can end; the invariant is about the URL of the hop, the addresses and the
  resolution that feed it, its number and the chain so far.\<close>

lemma hop_loop_fed:
  assumes "hop_loop C E W u candidates stream h oc hop k = (k', err)" and "I u candidates stream hop k"
    and failed: "\<And>u cs st hop k res loc e k1. I u cs st hop k \<Longrightarrow>
      take_hop E W u cs st h (oc\<lparr>oc_Hop := hop\<rparr>) k = ((res, loc, Some e), k1) \<Longrightarrow> Q (fst (hop_failed E res e k1)) (snd (hop_failed E res e k1))"
    and ended: "\<And>u cs st hop k res k1. I u cs st hop k \<Longrightarrow>
      take_hop E W u cs st h (oc\<lparr>oc_Hop := hop\<rparr>) k = ((res, [], None), k1) \<Longrightarrow> Q (hop_responded res k1) None"
    and stopped: "\<And>u cs st hop k res loc k1 code. I u cs st hop k \<Longrightarrow> loc \<noteq> [] \<Longrightarrow>
      take_hop E W u cs st h (oc\<lparr>oc_Hop := hop\<rparr>) k = ((res, loc, None), k1) \<Longrightarrow>
      Q (chain_cover (degrade 1 [code]) (hop_responded res k1)) None"
    and unresolved: "\<And>u cs st hop k res loc k1 u' k2. I u cs st hop k \<Longrightarrow> loc \<noteq> [] \<Longrightarrow>
      take_hop E W u cs st h (oc\<lparr>oc_Hop := hop\<rparr>) k = ((res, loc, None), k1) \<Longrightarrow>
      resolve_next E W u' (hop_responded res k1) = (None, k2) \<Longrightarrow> Q k2 None"
    and stream: "\<And>u cs st hop k res loc k1 u' resolve. I u cs st hop k \<Longrightarrow> loc \<noteq> [] \<Longrightarrow> hop < hc_maxRedirects C \<Longrightarrow> hc_streamResolve C = Some resolve \<Longrightarrow>
      take_hop E W u cs st h (oc\<lparr>oc_Hop := hop\<rparr>) k = ((res, loc, None), k1) \<Longrightarrow> next_target E u loc = Inr u' \<Longrightarrow>
      I u' (st_addresses (resolve (u_Hostname u') (hop + 1))) (Some (stream_error (resolve (u_Hostname u') (hop + 1)))) (hop + 1)
        ((hop_responded res k1)\<lparr>ch_resolved := ch_resolved (hop_responded res k1) @ [(u_Hostname u', hop + 1)]\<rparr>)"
    and plain: "\<And>u cs st hop k res loc k1 u' ap k2. I u cs st hop k \<Longrightarrow> loc \<noteq> [] \<Longrightarrow> hop < hc_maxRedirects C \<Longrightarrow> hc_streamResolve C = None \<Longrightarrow>
      take_hop E W u cs st h (oc\<lparr>oc_Hop := hop\<rparr>) k = ((res, loc, None), k1) \<Longrightarrow> next_target E u loc = Inr u' \<Longrightarrow>
      resolve_next E W u' (hop_responded res k1) = (Some ap, k2) \<Longrightarrow> I u' ap None (hop + 1) k2"
  shows "Q k' err"
  using assms
proof (induction C E W u candidates stream h oc hop k arbitrary: k' err rule: hop_loop.induct)
  case (1 C E W u candidates stream h oc hop k)
  obtain res loc er k1 where t: "take_hop E W u candidates stream h (oc\<lparr>oc_Hop := hop\<rparr>) k = ((res, loc, er), k1)"
    by (metis surj_pair)
  note I = 1(4) and failed = 1(5) and ended = 1(6) and stopped = 1(7) and unresolved = 1(8) and stream = 1(9) and plain = 1(10)
  show ?case
  proof (cases er)
    case (Some e)
    with 1(3) t have "hop_failed E res e k1 = (k', err)" by (subst (asm) hop_loop.simps) simp
    with failed [OF I] t Some show ?thesis by fastforce
  next
    case None
    note t = t [unfolded None]
    show ?thesis
    proof (cases "loc = []")
      case True
      with 1(3) t have "(hop_responded res k1, None) = (k', err)" by (subst (asm) hop_loop.simps) (simp add: Let_def)
      with ended [OF I] t True show ?thesis by fastforce
    next
      case loc: False
      show ?thesis
      proof (cases "hop \<ge> hc_maxRedirects C \<or> \<not> hc_resolve C \<and> hc_streamResolve C = None \<or> (\<exists>code. next_target E u loc = Inl code)")
        case True
        with 1(3) t loc obtain code where "(chain_cover (degrade 1 [code]) (hop_responded res k1), None) = (k', err)"
          by (subst (asm) hop_loop.simps) (auto simp: Let_def split: if_splits)
        with stopped [OF I loc t, of code] show ?thesis by simp
      next
        case False
        then obtain u' where u': "next_target E u loc = Inr u'" by (metis sum.exhaust)
        have nle: "\<not> hc_maxRedirects C \<le> hop" and less: "hop < hc_maxRedirects C" and some: "\<not> (\<not> hc_resolve C \<and> hc_streamResolve C = None)" using False by auto
        show ?thesis
        proof (cases "hc_streamResolve C")
          case (Some resolve)
          let ?s = "resolve (u_Hostname u') (hop + 1)"
          let ?k = "(hop_responded res k1)\<lparr>ch_resolved := ch_resolved (hop_responded res k1) @ [(u_Hostname u', hop + 1)]\<rparr>"
          have l: "hop_loop C E W u' (st_addresses ?s) (Some (stream_error ?s)) h oc (hop + 1) ?k = (k', err)"
            using 1(3) t loc less Some u' by (subst (asm) hop_loop.simps) (simp add: Let_def)
          show ?thesis
            by (rule 1(2) [OF t [symmetric] refl refl refl refl loc nle some u' Some refl l])
              (fact stream [OF I loc less Some t u'] failed ended stopped unresolved stream plain)+
        next
          case no: None
          show ?thesis
          proof (cases "resolve_next E W u' (hop_responded res k1)")
            case (Pair ap k2)
            show ?thesis
            proof (cases ap)
              case None
              with 1(3) t loc less some no u' Pair have "(k2, None) = (k', err)" by (subst (asm) hop_loop.simps) (auto simp: Let_def)
              with unresolved [OF I loc t] Pair None show ?thesis by fastforce
            next
              case (Some approved)
              have l: "hop_loop C E W u' approved None h oc (hop + 1) k2 = (k', err)"
                using 1(3) t loc less some no u' Pair Some by (subst (asm) hop_loop.simps) (auto simp: Let_def)
              show ?thesis
                by (rule 1(1) [OF t [symmetric] refl refl refl refl loc nle some u' no _ _ l])
                  (simp add: Pair Some, simp add: Pair Some,
                    (fact plain [OF I loc less no t u' Pair [unfolded Some]] failed ended stopped unresolved stream plain)+)
            qed
          qed
        qed
      qed
    qed
  qed
qed

text \<open>The same for an invariant that does not mention what feeds the hop.\<close>

lemma hop_loop_rule:
  assumes "hop_loop C E W u candidates stream h oc hop k = (k', err)" and "I u hop k"
    and failed: "\<And>u cs st hop k res loc e k1. I u hop k \<Longrightarrow>
      take_hop E W u cs st h (oc\<lparr>oc_Hop := hop\<rparr>) k = ((res, loc, Some e), k1) \<Longrightarrow> Q (fst (hop_failed E res e k1)) (snd (hop_failed E res e k1))"
    and ended: "\<And>u cs st hop k res k1. I u hop k \<Longrightarrow>
      take_hop E W u cs st h (oc\<lparr>oc_Hop := hop\<rparr>) k = ((res, [], None), k1) \<Longrightarrow> Q (hop_responded res k1) None"
    and stopped: "\<And>u cs st hop k res loc k1 code. I u hop k \<Longrightarrow> loc \<noteq> [] \<Longrightarrow>
      take_hop E W u cs st h (oc\<lparr>oc_Hop := hop\<rparr>) k = ((res, loc, None), k1) \<Longrightarrow>
      Q (chain_cover (degrade 1 [code]) (hop_responded res k1)) None"
    and unresolved: "\<And>u cs st hop k res loc k1 u' k2. I u hop k \<Longrightarrow> loc \<noteq> [] \<Longrightarrow>
      take_hop E W u cs st h (oc\<lparr>oc_Hop := hop\<rparr>) k = ((res, loc, None), k1) \<Longrightarrow>
      resolve_next E W u' (hop_responded res k1) = (None, k2) \<Longrightarrow> Q k2 None"
    and stream: "\<And>u cs st hop k res loc k1 u'. I u hop k \<Longrightarrow> loc \<noteq> [] \<Longrightarrow> hop < hc_maxRedirects C \<Longrightarrow>
      take_hop E W u cs st h (oc\<lparr>oc_Hop := hop\<rparr>) k = ((res, loc, None), k1) \<Longrightarrow> next_target E u loc = Inr u' \<Longrightarrow>
      I u' (hop + 1) ((hop_responded res k1)\<lparr>ch_resolved := ch_resolved (hop_responded res k1) @ [(u_Hostname u', hop + 1)]\<rparr>)"
    and plain: "\<And>u cs st hop k res loc k1 u' ap k2. I u hop k \<Longrightarrow> loc \<noteq> [] \<Longrightarrow> hop < hc_maxRedirects C \<Longrightarrow>
      take_hop E W u cs st h (oc\<lparr>oc_Hop := hop\<rparr>) k = ((res, loc, None), k1) \<Longrightarrow> next_target E u loc = Inr u' \<Longrightarrow>
      resolve_next E W u' (hop_responded res k1) = (Some ap, k2) \<Longrightarrow> I u' (hop + 1) k2"
  shows "Q k' err"
  by (rule hop_loop_fed [OF assms(1), where I = "\<lambda>u cs st hop k. I u hop k" and Q = Q])
    (fact assms(2) failed ended stopped unresolved | (rule stream, assumption+) | (rule plain, assumption+))+

section \<open>One hop\<close>

text \<open>The exchange of a request again, as a function of what the request records.\<close>

definition hop_of :: "http_env \<Rightarrow> string \<Rightarrow> http_dial \<Rightarrow> http_result \<times> string \<times> hop_error option" where
  "hop_of E h d = collectHop E (dl_url d) (dl_address d) h (dl_occurrence d) (dl_exchange d)"

abbreviation hop_tls :: "http_env \<Rightarrow> string \<Rightarrow> http_dial \<Rightarrow> observation list" where
  "hop_tls E h d \<equiv> hx_TLSObservations (fst (hop_of E h d))"

definition hop_response :: "http_env \<Rightarrow> string \<Rightarrow> http_dial \<Rightarrow> observation list" where
  "hop_response E h d = (let ob = hx_Observation (fst (hop_of E h d)) in if ob_ID ob \<noteq> [] then [ob] else [])"

lemma zero_ids [simp]: "ob_ID zero_observation = []" "hx_Observation zero_result = zero_observation" "hx_TLSObservations zero_result = []"
  by (simp_all add: zero_observation_def zero_result_def)

lemma ObservationID_not_Nil [simp]: "ObservationID E kind oc attributes \<noteq> []"
  by (simp add: ObservationID_def)

text \<open>At most one observation, with an identifier of the occurrence.\<close>

definition own_id :: "http_env \<Rightarrow> string \<Rightarrow> occurrence \<Rightarrow> observation list \<Rightarrow> bool" where
  "own_id E kind oc obs \<longleftrightarrow> obs = [] \<or> (\<exists>ob attributes. obs = [ob] \<and> ob_ID ob = ObservationID (he_dns E) kind oc attributes)"

lemma own_id_Nil [simp]: "own_id E kind oc []"
  by (simp add: own_id_def)

lemma own_id_single: "ob_ID ob = ObservationID (he_dns E) kind oc attributes \<Longrightarrow> own_id E kind oc [ob]"
  by (auto simp: own_id_def)

lemma own_id_handshake:
  "own_id E ''tls-certificate'' oc (if b then case handshake_observation E u a h oc now seen of None \<Rightarrow> [] | Some ob \<Rightarrow> [ob] else [])"
  by (auto simp: own_id_def handshake_observation_def Let_def split: option.splits sum.splits)

lemma collectHop_cases:
  obtains (refused) tls er where "collectHop E u a h oc x = (zero_result\<lparr>hx_TLSObservations := tls\<rparr>, [], Some er)"
      "own_id E ''tls-certificate'' oc tls"
  | (responded) res loc er where "collectHop E u a h oc x = (res, loc, er)" "ob_ID (hx_Observation res) \<noteq> []"
      "\<nexists>e. er = Some (PreResponse e)" "own_id E ''tls-certificate'' oc (hx_TLSObservations res)"
      "own_id E ''http-response'' oc [hx_Observation res]"
proof (cases "dd_Allowed (Check a (portForURL u)) \<and> xc_request x = None")
  case False
  have "\<exists>er. collectHop E u a h oc x = (zero_result, [], Some er)"
  proof (cases "dd_Allowed (Check a (portForURL u))")
    case True
    with False obtain e where "xc_request x = Some e" by auto
    with True show ?thesis by (simp add: collectHop_def)
  qed (simp add: collectHop_def)
  then obtain er where "collectHop E u a h oc x = (zero_result, [], Some er)" ..
  then show ?thesis by (intro refused [of "[]" er]) (simp_all add: zero_result_def)
next
  case sent: True
  note shape = own_id_handshake [of E oc "u_Scheme u = ''https''" u a h "xc_handshake_now x" "xc_handshake x"]
  show ?thesis
  proof (cases "xc_reply x")
    case (Inl e)
    with sent shape show ?thesis by (intro refused) (simp add: collectHop_def Let_def, simp)
  next
    case (Inr response)
    obtain body truncated readErr where b: "read_body (xc_allowance x) response = (body, truncated, readErr)" by (metis surj_pair)
    obtain scripts omitted where s: "scriptURLs E body u 128 = (scripts, omitted)" by (metis surj_pair)
    define payload where "payload = response_payload E u a response body truncated (readErr \<noteq> None \<or> hr_closeErr response \<noteq> None) scripts omitted"
    show ?thesis
    proof (cases "he_marshal_http E payload")
      case (Inl e)
      with sent Inr b s show ?thesis by (intro refused [of "[]"]) (simp_all add: collectHop_def Let_def payload_def zero_result_def)
    next
      case enc: (Inr encoded)
      show ?thesis
      proof (cases readErr)
        case (Some e)
        with sent Inr b s enc show ?thesis
          by (intro responded) (simp add: collectHop_def Let_def payload_def, simp, simp, use shape in simp, rule own_id_single, simp)
      next
        case ok: None
        show ?thesis
        proof (cases "hr_closeErr response")
          case (Some e)
          with ok sent Inr b s enc show ?thesis
            by (intro responded) (simp add: collectHop_def Let_def payload_def, simp, simp, use shape in simp, rule own_id_single, simp)
        next
          case None
          with ok sent Inr b s enc show ?thesis
            by (intro responded) (simp add: collectHop_def Let_def payload_def, simp, simp, use shape in simp, rule own_id_single, simp)
        qed
      qed
    qed
  qed
qed

lemma hop_of_cases:
  obtains (refused) tls er where "hop_response E h d = []" "hop_of E h d = (zero_result\<lparr>hx_TLSObservations := tls\<rparr>, [], Some er)"
  | (responded) "hop_response E h d = [hx_Observation (fst (hop_of E h d))]"
      "ob_ID (hx_Observation (fst (hop_of E h d))) \<noteq> []" "\<nexists>e. snd (snd (hop_of E h d)) = Some (PreResponse e)"
proof (cases rule: collectHop_cases [of E "dl_url d" "dl_address d" h "dl_occurrence d" "dl_exchange d"])
  case (refused tls er)
  then show ?thesis by (intro that(1)) (simp_all add: hop_of_def hop_response_def)
next
  case (responded res loc er)
  then show ?thesis by (intro that(2)) (simp_all add: hop_of_def hop_response_def)
qed

lemma hop_own_ids: "own_id E ''tls-certificate'' (dl_occurrence d) (hop_tls E h d)" "own_id E ''http-response'' (dl_occurrence d) (hop_response E h d)"
  by (cases rule: collectHop_cases [of E "dl_url d" "dl_address d" h "dl_occurrence d" "dl_exchange d"];
      simp add: hop_of_def hop_response_def)+

definition dial_ok :: "url \<Rightarrow> occurrence \<Rightarrow> http_dial \<Rightarrow> bool" where
  "dial_ok u oc d \<longleftrightarrow> dl_url d = u \<and> dd_Allowed (Check (dl_address d) (portForURL u)) \<and> unmap (dl_address d) = dl_address d
     \<and> dl_occurrence d = oc\<lparr>oc_Attempt := oc_Attempt (dl_occurrence d)\<rparr>"

text \<open>A change of coverage hides nothing.\<close>

definition keeps_honest :: "coverage \<Rightarrow> coverage \<Rightarrow> bool" where
  "keeps_honest c c' \<longleftrightarrow> (cv_Status c' = CoverageComplete \<longrightarrow> cv_Status c = CoverageComplete
     \<and> cv_ErrorCodes c' = cv_ErrorCodes c \<and> cv_Omitted c' = cv_Omitted c \<and> cv_Truncated c' = cv_Truncated c)"

lemma keeps_honest_simps [simp]: "keeps_honest c c" "keeps_honest c (degrade n codes c')"
  by (simp_all add: keeps_honest_def degrade_def)

lemma keeps_honest_degraded: "keeps_honest (degrade n codes c') x \<Longrightarrow> keeps_honest c x"
  by (simp add: keeps_honest_def degrade_def)

lemma keeps_honest_trans: "keeps_honest a b \<Longrightarrow> keeps_honest b c \<Longrightarrow> keeps_honest a c"
  by (auto simp: keeps_honest_def)

lemma hcover_simps [simp]:
  "ht_dials (hcover f r) = ht_dials r" "ht_dials (htick r) = ht_dials r" "ht_coverage (hcover f r) = f (ht_coverage r)"
  "ht_coverage (htick r) = ht_coverage r" "ht_coverage (request_sent u a oc x r) = ht_coverage r"
  "ht_dials (request_sent u a oc x r) = ht_dials r @ [\<lparr>dl_url = u, dl_address = a, dl_occurrence = oc, dl_exchange = x\<rparr>]"
  by (simp_all add: hcover_def htick_def request_sent_def)

lemma degrade_counts [simp]: "cv_Attempted (degrade n codes c) = cv_Attempted c" "cv_Completed (degrade n codes c) = cv_Completed c"
  "cv_Status (degrade n codes c) = CoveragePartial"
  by (simp_all add: degrade_def)

text \<open>What the candidates of a hop come to: the requests \<open>new\<close>, and a result that is that of the last of
  them, or an error.\<close>

definition hop_spec ::
    "http_env \<Rightarrow> url \<Rightarrow> string \<Rightarrow> occurrence \<Rightarrow> int \<Rightarrow> observation list \<Rightarrow> http_run \<Rightarrow> http_result \<times> string \<times> hop_error option
      \<Rightarrow> http_run \<Rightarrow> http_dial list \<Rightarrow> bool" where
  "hop_spec E u h oc n tls r out r' new \<longleftrightarrow>
     (case out of (res, loc, er) \<Rightarrow>
        ht_dials r' = ht_dials r @ new \<and> (\<forall>d \<in> set new. dial_ok u oc d)
        \<and> map (\<lambda>d. oc_Attempt (dl_occurrence d)) new = map (\<lambda>j. oc_Attempt oc + n + int j) [0..<length new]
        \<and> hx_TLSObservations res = tls @ concat (map (hop_tls E h) new)
        \<and> (\<forall>d \<in> set (butlast new). \<exists>e. snd (snd (hop_of E h d)) = Some (PreResponse e))
        \<and> cv_Attempted (ht_coverage r') = cv_Attempted (ht_coverage r) + int (length new)
        \<and> cv_Completed (ht_coverage r') = cv_Completed (ht_coverage r) + int (length (concat (map (hop_response E h) new)))
        \<and> keeps_honest (ht_coverage r) (ht_coverage r')
        \<and> (if ob_ID (hx_Observation res) \<noteq> []
           then new \<noteq> [] \<and> (\<exists>ts. res = (fst (hop_of E h (last new)))\<lparr>hx_TLSObservations := ts\<rparr>) \<and> (loc, er) = snd (hop_of E h (last new))
             \<and> concat (map (hop_response E h) new) = [hx_Observation res]
           else (\<exists>ts. res = zero_result\<lparr>hx_TLSObservations := ts\<rparr>) \<and> er \<noteq> None \<and> concat (map (hop_response E h) new) = []))"

lemma hop_spec_more:
  assumes "hop_spec E u h oc (n + 1) (tls @ hop_tls E h d) r1 out r' new"
    and "dial_ok u oc d" "oc_Attempt (dl_occurrence d) = oc_Attempt oc + n" "snd (snd (hop_of E h d)) = Some (PreResponse e)"
      "hop_response E h d = []"
    and "ht_dials r1 = ht_dials r @ [d]" "cv_Attempted (ht_coverage r1) = cv_Attempted (ht_coverage r) + 1"
      "cv_Completed (ht_coverage r1) = cv_Completed (ht_coverage r)" "keeps_honest (ht_coverage r) (ht_coverage r1)"
  shows "hop_spec E u h oc n tls r out r' (d # new)"
proof -
  have "map (\<lambda>j. oc_Attempt oc + n + int j) [0..<length (d # new)]
      = (oc_Attempt oc + n) # map (\<lambda>j. oc_Attempt oc + (n + 1) + int j) [0..<length new]"
    by (simp add: upt_conv_Cons map_Suc_upt [symmetric] comp_def ac_simps del: upt_Suc)
  with assms show ?thesis unfolding hop_spec_def
    by (auto split: if_splits intro: keeps_honest_trans)
qed

lemma hop_spec_none:
  assumes "ht_dials r' = ht_dials r" "cv_Attempted (ht_coverage r') = cv_Attempted (ht_coverage r)"
    "cv_Completed (ht_coverage r') = cv_Completed (ht_coverage r)" "keeps_honest (ht_coverage r) (ht_coverage r')" "er \<noteq> None"
  shows "hop_spec E u h oc n tls r (zero_result\<lparr>hx_TLSObservations := tls\<rparr>, loc, er) r' []"
  using assms by (auto simp: hop_spec_def)

lemma hop_spec_weaken:
  assumes "hop_spec E u h oc n tls r1 out r' new" "ht_dials r1 = ht_dials r" "cv_Attempted (ht_coverage r1) = cv_Attempted (ht_coverage r)"
    "cv_Completed (ht_coverage r1) = cv_Completed (ht_coverage r)" "keeps_honest (ht_coverage r) (ht_coverage r1)"
  shows "hop_spec E u h oc n tls r out r' new"
  using assms unfolding hop_spec_def by (auto split: if_splits intro: keeps_honest_trans)

lemma candidates_spec:
  "collectHopCandidates E W u cs h oc n lastErr tls r = (out, rest, r') \<Longrightarrow> \<exists>new. hop_spec E u h oc n tls r out r' new"
proof (induction cs arbitrary: n lastErr tls r)
  case Nil
  then show ?case by (auto intro!: exI [of _ "[]"] hop_spec_none split: option.splits)
next
  case (Cons address rest0)
  show ?case
  proof (cases "hw_ctx W (ht_time r)")
    case (Some e)
    with Cons.prems show ?thesis by (auto intro!: exI [of _ "[]"] hop_spec_none)
  next
    case ctx: None
    define a where "a = unmap address"
    show ?thesis
    proof (cases "dd_Allowed (Check a (portForURL u))")
      case False
      with Cons.prems ctx have "collectHopCandidates E W u rest0 h oc n lastErr tls (hcover (degrade 1 [CodePolicyBlocked]) (htick r)) = (out, rest, r')"
        by (simp add: a_def Let_def)
      from Cons.IH [OF this] obtain new where "hop_spec E u h oc n tls (hcover (degrade 1 [CodePolicyBlocked]) (htick r)) out r' new" ..
      then have "hop_spec E u h oc n tls r out r' new" by (rule hop_spec_weaken) simp_all
      then show ?thesis ..
    next
      case allowed: True
      show ?thesis
      proof (cases "hw_acquire W (ht_time (htick r)) (JoinHostPort (addr_string a) (nat_string (portForURL u)))")
        case (Some e)
        with Cons.prems ctx allowed show ?thesis by (auto simp: a_def Let_def intro!: exI [of _ "[]"] hop_spec_none)
      next
        case admitted: None
        define r1 where "r1 = hcover (\<lambda>c. c\<lparr>cv_Attempted := cv_Attempted c + 1\<rparr>) (htick (htick r))"
        define attempt where "attempt = oc\<lparr>oc_Attempt := oc_Attempt oc + n\<rparr>"
        define d where "d = \<lparr>dl_url = u, dl_address = a, dl_occurrence = attempt, dl_exchange = hw_exchange W (ht_time r1)\<rparr>"
        define r2 where "r2 = htick (request_sent u a attempt (hw_exchange W (ht_time r1)) r1)"
        obtain res loc er where hop: "hop_of E h d = (res, loc, er)" by (metis surj_pair)
        then have call: "collectHop E u a h attempt (hw_exchange W (ht_time r1)) = (res, loc, er)" by (simp add: hop_of_def d_def)
        have ok: "dial_ok u oc d" using allowed by (simp add: dial_ok_def d_def attempt_def a_def)
        have at: "oc_Attempt (dl_occurrence d) = oc_Attempt oc + n" by (simp add: d_def attempt_def)
        have r2: "ht_dials r2 = ht_dials r @ [d]" "cv_Attempted (ht_coverage r2) = cv_Attempted (ht_coverage r) + 1"
          "cv_Completed (ht_coverage r2) = cv_Completed (ht_coverage r)" "keeps_honest (ht_coverage r) (ht_coverage r2)"
          by (simp_all add: r2_def r1_def d_def keeps_honest_def)
        have one: "hop_spec E u h oc n tls r (res\<lparr>hx_TLSObservations := tls @ hx_TLSObservations res\<rparr>, loc, er) (hcover completed_one r2) [d]"
          if "ob_ID (hx_Observation res) \<noteq> []"
          using that hop ok at r2 unfolding hop_spec_def hop_response_def
          by (auto simp: completed_one_def keeps_honest_def)
        have step: "collectHopCandidates E W u (address # rest0) h oc n lastErr tls r =
          (case er of
             None \<Rightarrow> ((res\<lparr>hx_TLSObservations := tls @ hx_TLSObservations res\<rparr>, loc, None), rest0, hcover completed_one r2)
           | Some e \<Rightarrow>
               if ob_ID (hx_Observation res) \<noteq> []
               then ((res\<lparr>hx_TLSObservations := tls @ hx_TLSObservations res\<rparr>, loc, Some e), rest0, hcover completed_one r2)
               else if \<not> eligibleAddressFallback E (hw_ctx W (ht_time r2)) e
               then ((zero_result\<lparr>hx_TLSObservations := tls @ hx_TLSObservations res\<rparr>, [], Some e), rest0, htick r2)
               else collectHopCandidates E W u rest0 h oc (n + 1) (Some e) (tls @ hx_TLSObservations res) (htick r2))"
          unfolding r2_def using ctx allowed admitted call
          by (simp add: Let_def a_def [symmetric] r1_def [symmetric] attempt_def [symmetric])
        show ?thesis
        proof (cases rule: hop_of_cases [of E h d])
          case responded
          with hop have "ob_ID (hx_Observation res) \<noteq> []" by simp
          moreover from this Cons.prems step have "out = (res\<lparr>hx_TLSObservations := tls @ hx_TLSObservations res\<rparr>, loc, er)" "r' = hcover completed_one r2"
            by (auto split: option.splits)
          ultimately show ?thesis using one by blast
        next
          case (refused ts e)
          with hop have res: "res = zero_result\<lparr>hx_TLSObservations := ts\<rparr>" "loc = []" "er = Some e" by simp_all
          show ?thesis
          proof (cases "eligibleAddressFallback E (hw_ctx W (ht_time r2)) e")
            case True
            with Cons.prems step res have "collectHopCandidates E W u rest0 h oc (n + 1) (Some e) (tls @ ts) (htick r2) = (out, rest, r')"
              by simp
            from Cons.IH [OF this] obtain new where "hop_spec E u h oc (n + 1) (tls @ hop_tls E h d) (htick r2) out r' new"
              using hop res by auto
            moreover obtain e' where "e = PreResponse e'" using True by (cases e) (auto simp: eligibleAddressFallback_def)
            ultimately have "hop_spec E u h oc n tls r out r' (d # new)"
              using ok at r2 refused hop res by (intro hop_spec_more [of E u h oc n tls d "htick r2" out r' new e']) simp_all
            then show ?thesis ..
          next
            case False
            with Cons.prems step res have "out = (zero_result\<lparr>hx_TLSObservations := tls @ ts\<rparr>, [], Some e)" "r' = htick r2" by simp_all
            then show ?thesis using ok at r2 refused(1) hop res by (intro exI [of _ "[d]"]) (auto simp: hop_spec_def)
          qed
        qed
      qed
    qed
  qed
qed

section \<open>The chain\<close>

definition web_target :: "url \<Rightarrow> bool" where
  "web_target u \<longleftrightarrow> u_User u = None \<and> u_Hostname u \<noteq> [] \<and> u_Scheme u \<in> {''http'', ''https''} \<and> u_Port u \<in> {[], ''80'', ''443''}"

lemma web_port: "portForURL u = 80 \<or> portForURL u = 443"
  by (simp add: portForURL_def portForScheme_def)

definition hop_number :: "http_dial \<Rightarrow> int" where "hop_number d = oc_Hop (dl_occurrence d)"

definition dial_slot :: "http_dial \<Rightarrow> int \<times> int" where
  "dial_slot d = (oc_Hop (dl_occurrence d), oc_Attempt (dl_occurrence d))"

abbreviation dials :: "http_chain \<Rightarrow> http_dial list" where
  "dials k \<equiv> ht_dials (ch_run k)"

abbreviation chain_coverage :: "http_chain \<Rightarrow> coverage" where
  "chain_coverage k \<equiv> ht_coverage (ch_run k)"

definition retained :: "http_env \<Rightarrow> string \<Rightarrow> http_dial list \<Rightarrow> observation list" where
  "retained E h ds = concat (map (\<lambda>d. hop_tls E h d @ hop_response E h d) ds)"

text \<open>What the chain has collected before hop \<open>hop\<close>, with observations \<open>extra\<close> still to be added.\<close>

definition chain_ok :: "http_env \<Rightarrow> string \<Rightarrow> occurrence \<Rightarrow> int \<Rightarrow> observation list \<Rightarrow> http_chain \<Rightarrow> bool" where
  "chain_ok E h oc hop extra k \<longleftrightarrow>
     ch_observations k @ extra = retained E h (dials k)
     \<and> (\<forall>d \<in> set (dials k). web_target (dl_url d) \<and> dial_ok (dl_url d) (oc\<lparr>oc_Hop := hop_number d\<rparr>) d \<and> 0 \<le> hop_number d \<and> hop_number d < hop)
     \<and> distinct (map dial_slot (dials k))
     \<and> cv_Attempted (chain_coverage k) = int (length (dials k))
     \<and> cv_Completed (chain_coverage k) = int (length (concat (map (hop_response E h) (dials k))))
     \<and> (cv_Status (chain_coverage k) = CoverageComplete \<longrightarrow>
          cv_ErrorCodes (chain_coverage k) = [] \<and> cv_Omitted (chain_coverage k) = 0 \<and> cv_Truncated (chain_coverage k) = 0)"

lemma chain_ok_run:
  assumes "chain_ok E h oc hop extra k" "ht_dials r = dials k" "cv_Attempted (ht_coverage r) = cv_Attempted (chain_coverage k)"
    "cv_Completed (ht_coverage r) = cv_Completed (chain_coverage k)" "keeps_honest (chain_coverage k) (ht_coverage r)"
  shows "chain_ok E h oc hop extra (k\<lparr>ch_run := r\<rparr>)"
  using assms by (simp add: chain_ok_def keeps_honest_def)

lemma chain_ok_cover:
  assumes "chain_ok E h oc hop extra k" "cv_Attempted (f (chain_coverage k)) = cv_Attempted (chain_coverage k)"
    "cv_Completed (f (chain_coverage k)) = cv_Completed (chain_coverage k)" "keeps_honest (chain_coverage k) (f (chain_coverage k))"
  shows "chain_ok E h oc hop extra (chain_cover f k)"
  using assms by (simp add: chain_ok_def keeps_honest_def)

lemma chain_ok_degrade [simp]: "chain_ok E h oc hop extra k \<Longrightarrow> chain_ok E h oc hop extra (chain_cover (degrade n codes) k)"
  by (rule chain_ok_cover) simp_all

lemma chain_ok_fields [simp]:
  "chain_ok E h oc hop extra (k\<lparr>ch_resolved := rs\<rparr>) = chain_ok E h oc hop extra k"
  "chain_ok E h oc hop extra (k\<lparr>ch_run := htick (ch_run k)\<rparr>) = chain_ok E h oc hop extra k"
  "chain_ok E h oc hop extra (k\<lparr>ch_final := res\<rparr>) = chain_ok E h oc hop extra k"
  "chain_ok E h oc hop [] (k\<lparr>ch_observations := ch_observations k @ extra\<rparr>) = chain_ok E h oc hop extra k"
  by (simp_all add: chain_ok_def)

lemma retained_hop:
  assumes "\<forall>d \<in> set (butlast new). \<exists>e. snd (snd (hop_of E h d)) = Some (PreResponse e)"
  shows "retained E h new = concat (map (hop_tls E h) new) @ concat (map (hop_response E h) new)"
proof (cases new rule: rev_cases)
  case (snoc ys d)
  have none: "hop_response E h d' = []" if "d' \<in> set ys" for d'
    using assms that snoc by (cases rule: hop_of_cases [of E h d']) auto
  have "retained E h ys = concat (map (hop_tls E h) ys)" "concat (map (hop_response E h) ys) = []"
    using none by (induction ys) (auto simp: retained_def)
  with snoc show ?thesis by (simp add: retained_def)
qed (simp add: retained_def)

lemma occurrence_seed: "oc_Seed (oc\<lparr>oc_Hop := hop, oc_Attempt := n\<rparr>) = oc_Seed oc \<and> oc_SeedIndex (oc\<lparr>oc_Hop := hop, oc_Attempt := n\<rparr>) = oc_SeedIndex oc"
  by simp

lemma hop_of_occurrence: "oc_Hop (oc\<lparr>oc_Hop := hop, oc_Attempt := n\<rparr>) = hop"
  by simp

lemma take_hop_ok:
  assumes "take_hop E W u cs st h (oc\<lparr>oc_Hop := hop\<rparr>) k = ((res, loc, er), k1)"
    and ok: "chain_ok E h oc hop [] k" and u: "web_target u" and hop: "0 \<le> hop"
  shows "chain_ok E h oc (hop + 1) (if ob_ID (hx_Observation res) \<noteq> [] then [hx_Observation res] else []) k1
    \<and> ch_final k1 = ch_final k
    \<and> (if ob_ID (hx_Observation res) \<noteq> []
       then dials k1 \<noteq> [] \<and> (\<exists>ts. res = (fst (hop_of E h (last (dials k1))))\<lparr>hx_TLSObservations := ts\<rparr>)
         \<and> (loc, er) = snd (hop_of E h (last (dials k1)))
       else er \<noteq> None)"
proof -
  obtain out rest r where c: "collectHopCandidates E W u cs h (oc\<lparr>oc_Hop := hop\<rparr>) 0 None [] (ch_run k) = (out, rest, r)"
    by (metis surj_pair)
  from candidates_spec [OF c] obtain new where spec: "hop_spec E u h (oc\<lparr>oc_Hop := hop\<rparr>) 0 [] (ch_run k) out r new" ..
  have out: "out = (res, loc, er)" and run: "ch_run k1 = r" "ch_final k1 = ch_final k"
    and obs: "ch_observations k1 = ch_observations k @ hx_TLSObservations res"
    using assms(1) c by (auto simp: take_hop_def Let_def split: prod.splits)
  note spec = spec [unfolded hop_spec_def out prod.case]
  have dials: "dials k1 = dials k @ new" using spec run by simp
  have slots: "dial_slot d \<in> {hop} \<times> UNIV" if "d \<in> set new" for d
  proof -
    from spec that have "dl_occurrence d = oc\<lparr>oc_Hop := hop, oc_Attempt := oc_Attempt (dl_occurrence d)\<rparr>" by (simp add: dial_ok_def)
    then have "oc_Hop (dl_occurrence d) = hop" by (metis hop_of_occurrence)
    then show ?thesis by (simp add: dial_slot_def)
  qed
  have "distinct (map (\<lambda>d. oc_Attempt (dl_occurrence d)) new)"
  proof -
    have "map (\<lambda>d. oc_Attempt (dl_occurrence d)) new = map (\<lambda>j. oc_Attempt (oc\<lparr>oc_Hop := hop\<rparr>) + 0 + int j) [0..<length new]" using spec by blast
    moreover have "distinct \<dots>" by (simp add: distinct_map inj_on_def)
    ultimately show ?thesis by simp
  qed
  then have "distinct (map dial_slot new)" by (auto simp: distinct_map inj_on_def dial_slot_def)
  moreover have "fst (dial_slot d) < hop" if "d \<in> set (dials k)" for d
    using ok that by (simp add: chain_ok_def dial_slot_def hop_number_def)
  then have "dial_slot d \<noteq> dial_slot d'" if "d \<in> set (dials k)" "d' \<in> set new" for d d'
    using slots [OF that(2)] that(1) by fastforce
  then have "dial_slot ` set (dials k) \<inter> dial_slot ` set new = {}" by blast
  moreover have "distinct (map dial_slot (dials k))" using ok by (simp add: chain_ok_def)
  ultimately have distinct: "distinct (map dial_slot (dials k @ new))" by simp
  have number: "hop_number d = hop" if "d \<in> set new" for d using slots [OF that] by (simp add: dial_slot_def hop_number_def)
  have every: "\<forall>d \<in> set (dials k1). web_target (dl_url d) \<and> dial_ok (dl_url d) (oc\<lparr>oc_Hop := hop_number d\<rparr>) d \<and> 0 \<le> hop_number d \<and> hop_number d < hop + 1"
    unfolding dials using ok u hop spec number by (auto simp: chain_ok_def dial_ok_def)
  have responses: "concat (map (hop_response E h) new) = (if ob_ID (hx_Observation res) \<noteq> [] then [hx_Observation res] else [])"
    using spec by (auto split: if_splits)
  have obs': "ch_observations k1 @ (if ob_ID (hx_Observation res) \<noteq> [] then [hx_Observation res] else []) = retained E h (dials k1)"
  proof -
    have "retained E h (dials k1) = retained E h (dials k) @ retained E h new" by (simp add: dials retained_def)
    moreover have "retained E h new = hx_TLSObservations res @ concat (map (hop_response E h) new)"
      using spec retained_hop [of new E h] by simp
    moreover have "ch_observations k = retained E h (dials k)" using ok by (simp add: chain_ok_def)
    ultimately show ?thesis by (simp add: obs responses)
  qed
  have counts: "cv_Attempted (chain_coverage k1) = int (length (dials k1))"
      "cv_Completed (chain_coverage k1) = int (length (concat (map (hop_response E h) (dials k1))))"
    using ok spec unfolding dials run by (auto simp: chain_ok_def)
  have honest: "cv_Status (chain_coverage k1) = CoverageComplete \<longrightarrow>
      cv_ErrorCodes (chain_coverage k1) = [] \<and> cv_Omitted (chain_coverage k1) = 0 \<and> cv_Truncated (chain_coverage k1) = 0"
    using ok spec unfolding run by (auto simp: chain_ok_def keeps_honest_def)
  have "chain_ok E h oc (hop + 1) (if ob_ID (hx_Observation res) \<noteq> [] then [hx_Observation res] else []) k1"
    unfolding chain_ok_def using obs' every distinct counts honest dials by simp
  moreover have "if ob_ID (hx_Observation res) \<noteq> []
       then dials k1 \<noteq> [] \<and> (\<exists>ts. res = (fst (hop_of E h (last (dials k1))))\<lparr>hx_TLSObservations := ts\<rparr>)
         \<and> (loc, er) = snd (hop_of E h (last (dials k1)))
       else er \<noteq> None"
    using spec unfolding dials by (auto split: if_splits)
  ultimately show ?thesis using run(2) by blast
qed

lemma chain_ok_mono: "chain_ok E h oc hop extra k \<Longrightarrow> hop \<le> hop' \<Longrightarrow> chain_ok E h oc hop' extra k"
  by (fastforce simp: chain_ok_def)

definition final_kept :: "http_chain \<Rightarrow> bool" where
  "final_kept k \<longleftrightarrow> ob_ID (hx_Observation (ch_final k)) \<noteq> [] \<longrightarrow> hx_Observation (ch_final k) \<in> set (ch_observations k)"

lemma final_kept_simps [simp]: "final_kept (chain_cover f k) = final_kept k" "final_kept (k\<lparr>ch_resolved := rs\<rparr>) = final_kept k"
  by (simp_all add: final_kept_def)

lemma hop_responded_ok:
  assumes "chain_ok E h oc hop [hx_Observation res] k"
  shows "chain_ok E h oc hop [] (hop_responded res k) \<and> final_kept (hop_responded res k)
    \<and> dials (hop_responded res k) = dials k \<and> ch_final (hop_responded res k) = res
    \<and> (cv_Status (chain_coverage (hop_responded res k)) = CoverageComplete \<longrightarrow> cv_Status (hx_Coverage res) \<noteq> CoveragePartial)"
proof -
  have "chain_ok E h oc hop [] (k\<lparr>ch_observations := ch_observations k @ [hx_Observation res], ch_final := res\<rparr>)"
    using assms by simp
  from chain_ok_cover [OF this, of "\<lambda>c. c\<lparr>cv_Status := CoveragePartial, cv_Truncated := cv_Truncated c + cv_Truncated (hx_Coverage res)\<rparr>"]
  show ?thesis using assms unfolding hop_responded_def Let_def
    by (simp add: final_kept_def keeps_honest_def)
qed

lemma hop_failed_ok:
  assumes "chain_ok E h oc hop (if ob_ID (hx_Observation res) \<noteq> [] then [hx_Observation res] else []) k" "final_kept k"
    and "hop_failed E res e k = (k', err)"
  shows "chain_ok E h oc hop [] k' \<and> final_kept k' \<and> cv_Status (chain_coverage k') = CoveragePartial
    \<and> (err = None \<longleftrightarrow> ob_ID (hx_Observation (ch_final k')) \<noteq> [])"
proof (cases "ob_ID (hx_Observation res) = []")
  case True
  with assms show ?thesis by (auto simp: hop_failed_def Let_def)
next
  case False
  let ?k = "k\<lparr>ch_observations := ch_observations k @ [hx_Observation res], ch_final := res\<rparr>"
  let ?t = "\<lambda>c. c\<lparr>cv_Truncated := cv_Truncated c + cv_Truncated (hx_Coverage res)\<rparr>"
  let ?d = "degrade (if ErrorCodeOf (Some (hop_cause e)) = CodeBudgetExceeded then 1 else 0) [collectionErrorCode (he_dns E) (hop_cause e)]"
  have k': "k' = chain_cover (?d \<circ> ?t) ?k" "err = None"
    using assms(3) False by (auto simp: hop_failed_def Let_def hcover_def)
  have "chain_ok E h oc hop [] ?k" using assms(1) False by simp
  then have "chain_ok E h oc hop [] (chain_cover (?d \<circ> ?t) ?k)"
    by (rule chain_ok_cover) (simp_all add: keeps_honest_def degrade_def)
  then show ?thesis using k' False by (simp add: final_kept_def degrade_def)
qed

lemma resolve_next_ok:
  assumes "resolve_next E W u k = (ap, k')" "chain_ok E h oc hop [] k" "final_kept k"
  shows "chain_ok E h oc hop [] k' \<and> final_kept k' \<and> dials k' = dials k
    \<and> (ap = None \<longrightarrow> cv_Status (chain_coverage k') = CoveragePartial)"
  using assms
  by (auto simp: resolve_next_def Let_def final_kept_def split: prod.splits option.splits if_splits intro!: chain_ok_run)

text \<open>No hop is resolved twice.\<close>

lemma resolved_simps:
  "take_hop E W u cs st h oc k = (out, k1) \<Longrightarrow> ch_resolved k1 = ch_resolved k" "ch_resolved (hop_responded res k) = ch_resolved k"
  "ch_resolved (fst (hop_failed E res e k)) = ch_resolved k" "resolve_next E W u k = (ap, k2) \<Longrightarrow> ch_resolved k2 = ch_resolved k"
  by (auto simp: take_hop_def hop_responded_def hop_failed_def resolve_next_def Let_def split: prod.splits option.splits if_splits)

definition resolved_until :: "int \<Rightarrow> http_chain \<Rightarrow> bool" where
  "resolved_until hop k \<longleftrightarrow> distinct (map snd (ch_resolved k)) \<and> (\<forall>n \<in> snd ` set (ch_resolved k). n \<le> hop)"

lemma resolved_until_same: "ch_resolved k' = ch_resolved k \<Longrightarrow> resolved_until hop k' = resolved_until hop k"
  by (simp add: resolved_until_def)

lemma resolved_until_next:
  "resolved_until hop k \<Longrightarrow> ch_resolved k' = ch_resolved k @ [(h, hop + 1)] \<Longrightarrow> resolved_until (hop + 1) k'"
  by (fastforce simp: resolved_until_def)

lemma resolved_until_mono: "resolved_until hop k \<Longrightarrow> resolved_until (hop + 1) k"
  by (force simp: resolved_until_def)

lemma resolved_once:
  assumes "hop_loop C E W u cs st h oc 0 fresh_chain = (k', err)"
  shows "distinct (map snd (ch_resolved k'))"
proof (rule hop_loop_rule [OF assms, where I = "\<lambda>u. resolved_until" and Q = "\<lambda>k err. distinct (map snd (ch_resolved k))"])
  show "resolved_until 0 fresh_chain" by (simp add: resolved_until_def fresh_chain_def)
next
  fix u cs st hop k res loc k1 u'
  assume "resolved_until hop k" "take_hop E W u cs st h (oc\<lparr>oc_Hop := hop\<rparr>) k = ((res, loc, None), k1)"
  then show "resolved_until (hop + 1) (hop_responded res k1
      \<lparr>ch_resolved := ch_resolved (hop_responded res k1) @ [(u_Hostname u', hop + 1)]\<rparr>)"
    by (intro resolved_until_next [of hop k]) (simp_all add: resolved_simps)
next
  fix u cs st hop k res loc k1 u' ap k2
  assume "resolved_until hop k" "take_hop E W u cs st h (oc\<lparr>oc_Hop := hop\<rparr>) k = ((res, loc, None), k1)"
    "resolve_next E W u' (hop_responded res k1) = (Some ap, k2)"
  then show "resolved_until (hop + 1) k2"
    using resolved_simps(1,2,4) by (metis resolved_until_mono resolved_until_same)
qed (use resolved_simps(1,4) in \<open>simp_all add: resolved_until_def resolved_simps(2,3)\<close>)

text \<open>What a chain that starts at a checked target ends with.\<close>

lemma next_target_web: "next_target E u loc = Inr u' \<Longrightarrow> web_target u'"
  by (auto simp: next_target_def web_target_def split: sum.splits if_splits)

definition chain_end :: "http_collector \<Rightarrow> http_env \<Rightarrow> string \<Rightarrow> occurrence \<Rightarrow> http_chain \<Rightarrow> hop_error option \<Rightarrow> bool" where
  "chain_end C E h oc k err \<longleftrightarrow> chain_ok E h oc (max 0 (hc_maxRedirects C) + 1) [] k \<and> final_kept k
     \<and> (cv_Status (chain_coverage k) = CoverageComplete \<longrightarrow> err = None \<and> dials k \<noteq> [] \<and> snd (hop_of E h (last (dials k))) = ([], None))"

lemma hop_loop_end:
  assumes "hop_loop C E W u cs st h oc 0 fresh_chain = (k', err)" "web_target u"
  shows "chain_end C E h oc k' err"
proof -
  define I where "I = (\<lambda>u hop k. chain_ok E h oc hop [] k \<and> final_kept k \<and> web_target u \<and> 0 \<le> hop \<and> hop \<le> max 0 (hc_maxRedirects C))"
  have taken: "chain_ok E h oc (max 0 (hc_maxRedirects C) + 1) [] (hop_responded res k1) \<and> chain_ok E h oc (hop + 1) [] (hop_responded res k1)
      \<and> final_kept (hop_responded res k1) \<and> dials (hop_responded res k1) \<noteq> []
      \<and> snd (hop_of E h (last (dials (hop_responded res k1)))) = (loc, None)"
    if I: "I u hop k" and t: "take_hop E W u cs st h (oc\<lparr>oc_Hop := hop\<rparr>) k = ((res, loc, None), k1)" for u cs st hop k res loc k1
  proof -
    have "chain_ok E h oc hop [] k" "web_target u" "0 \<le> hop" using I by (simp_all add: I_def)
    from take_hop_ok [OF t this] have k1: "chain_ok E h oc (hop + 1) [hx_Observation res] k1" "dials k1 \<noteq> []"
        "snd (hop_of E h (last (dials k1))) = (loc, None)" by (auto split: if_splits)
    from hop_responded_ok [OF k1(1)] k1(2,3) chain_ok_mono [of E h oc "hop + 1" "[]" "hop_responded res k1"] I
    show ?thesis by (auto simp: I_def)
  qed
  have partial: "cv_Status (chain_coverage (chain_cover (degrade n codes) k)) = CoveragePartial" for n codes k by simp
  show ?thesis
  proof (rule hop_loop_rule [OF assms(1), where I = I and Q = "chain_end C E h oc"])
    show "I u 0 fresh_chain" using assms(2)
      by (simp add: I_def chain_ok_def fresh_chain_def retained_def final_kept_def zero_coverage_def)
  next
    fix u cs st hop k res loc e k1
    assume I: "I u hop k" and t: "take_hop E W u cs st h (oc\<lparr>oc_Hop := hop\<rparr>) k = ((res, loc, Some e), k1)"
    then have "chain_ok E h oc hop [] k" "web_target u" "0 \<le> hop" by (simp_all add: I_def)
    note k1 = take_hop_ok [OF t this]
    have "final_kept k1" using t I k1 by (auto simp: take_hop_def Let_def I_def final_kept_def split: prod.splits)
    from hop_failed_ok [OF k1 [THEN conjunct1] this surjective_pairing] I
    show "chain_end C E h oc (fst (hop_failed E res e k1)) (snd (hop_failed E res e k1))"
      using chain_ok_mono [of E h oc "hop + 1" "[]" "fst (hop_failed E res e k1)"] by (simp add: chain_end_def I_def)
  next
    fix u cs st hop k res k1
    assume "I u hop k" "take_hop E W u cs st h (oc\<lparr>oc_Hop := hop\<rparr>) k = ((res, [], None), k1)"
    from taken [OF this] show "chain_end C E h oc (hop_responded res k1) None" by (simp add: chain_end_def)
  next
    fix u cs st hop k res loc k1 code
    assume "I u hop k" "take_hop E W u cs st h (oc\<lparr>oc_Hop := hop\<rparr>) k = ((res, loc, None), k1)"
    from taken [OF this] show "chain_end C E h oc (chain_cover (degrade 1 [code]) (hop_responded res k1)) None"
      by (simp add: chain_end_def)
  next
    fix u cs st hop k res loc k1 u' k2
    assume I: "I u hop k" "take_hop E W u cs st h (oc\<lparr>oc_Hop := hop\<rparr>) k = ((res, loc, None), k1)"
      and r: "resolve_next E W u' (hop_responded res k1) = (None, k2)"
    from taken [OF I] have t: "chain_ok E h oc (max 0 (hc_maxRedirects C) + 1) [] (hop_responded res k1)" "final_kept (hop_responded res k1)"
      by simp_all
    from resolve_next_ok [OF r t] show "chain_end C E h oc k2 None" by (simp add: chain_end_def)
  next
    fix u cs st hop k res loc k1 u' rs
    assume I: "I u hop k" "take_hop E W u cs st h (oc\<lparr>oc_Hop := hop\<rparr>) k = ((res, loc, None), k1)"
      and n: "next_target E u loc = Inr u'" and less: "hop < hc_maxRedirects C"
    from taken [OF I] next_target_web [OF n] I(1) less
    show "I u' (hop + 1) (hop_responded res k1\<lparr>ch_resolved := rs\<rparr>)" by (simp add: I_def)
  next
    fix u cs st hop k res loc k1 u' ap k2
    assume I: "I u hop k" "take_hop E W u cs st h (oc\<lparr>oc_Hop := hop\<rparr>) k = ((res, loc, None), k1)"
      and n: "next_target E u loc = Inr u'" and less: "hop < hc_maxRedirects C"
      and r: "resolve_next E W u' (hop_responded res k1) = (Some ap, k2)"
    from taken [OF I] have t: "chain_ok E h oc (hop + 1) [] (hop_responded res k1)" "final_kept (hop_responded res k1)" by simp_all
    from resolve_next_ok [OF r t] next_target_web [OF n] I(1) less show "I u' (hop + 1) k2" by (simp add: I_def)
  qed
qed

section \<open>A collection\<close>

lemma checked_target_web: "checked_target E rawURL = Inr u \<Longrightarrow> web_target u"
  by (auto simp: checked_target_def web_target_def split: sum.splits if_splits)

text \<open>The parts of a collection: it refuses its target, or runs its chain and waits for what is pending.\<close>

lemma collection_cases:
  assumes "collectTargetCandidatesOccurrence C E W rawURL candidates oc = (out, err, k)"
  obtains (refused) e where "out = zero_result" "err = Some e" "k = fresh_chain"
  | (ran) u er where "checked_target E rawURL = Inr u" "chain_end C E (u_Hostname u) oc k er" "out = settle E k" "err = map_option hop_cause er"
      "hop_loop C E W u candidates None (u_Hostname u) oc 0 fresh_chain = (k, er)"
proof (cases "checked_target E rawURL")
  case (Inl e)
  with assms show ?thesis by (intro refused) (auto simp: collectTargetCandidatesOccurrence_def)
next
  case (Inr u)
  obtain k' er where l: "hop_loop C E W u candidates None (u_Hostname u) oc 0 fresh_chain = (k', er)" by (metis surj_pair)
  from hop_loop_end [OF l checked_target_web [OF Inr]] assms Inr l show ?thesis
    by (intro ran [of u er]) (auto simp: collectTargetCandidatesOccurrence_def)
qed

lemma fresh_dials [simp]: "dials fresh_chain = []"
  by (simp add: fresh_chain_def)

text \<open>C37: Every request a collection makes, for its target and along redirects, is for a web URL
  without user information on port 80 or 443, and is sent to a concrete address that the destination
  policy allows for that port; a redirect cannot lead it anywhere else, however often the target
  redirects and whatever its resolver returns. No more hops are taken than configured, and no two requests
  are the same attempt of the same hop.\<close>

theorem http_requests_allowed:
  assumes "collectTargetCandidatesOccurrence C E W rawURL candidates oc = (out, err, k)"
  shows "distinct (map dial_slot (dials k))
    \<and> (\<forall>d \<in> set (dials k). web_target (dl_url d) \<and> portForURL (dl_url d) \<in> {80, 443}
         \<and> dd_Allowed (Check (dl_address d) (portForURL (dl_url d))) \<and> unmap (dl_address d) = dl_address d
         \<and> 0 \<le> hop_number d \<and> hop_number d \<le> max 0 (hc_maxRedirects C))"
  using assms
proof (cases rule: collection_cases)
  case (ran u er)
  then show ?thesis using web_port by (auto simp: chain_end_def chain_ok_def dial_ok_def)
qed simp

lemma settle_simps [simp]: "hx_Observations (settle E k) = ch_observations k" "hx_Observation (settle E k) = hx_Observation (ch_final k)"
  "hx_Coverage (settle E k) = fold (drain_pending E) (ch_pending k) (chain_coverage k)"
  by (simp_all add: settle_def finish_def)

lemma drain_addresses:
  "keeps_honest c (fold (\<lambda>a c. if dd_Allowed (Check (unmap a) p) then c else degrade 0 [CodePolicyBlocked] c) as c)
    \<and> cv_Attempted (fold (\<lambda>a c. if dd_Allowed (Check (unmap a) p) then c else degrade 0 [CodePolicyBlocked] c) as c) = cv_Attempted c
    \<and> cv_Completed (fold (\<lambda>a c. if dd_Allowed (Check (unmap a) p) then c else degrade 0 [CodePolicyBlocked] c) as c) = cv_Completed c"
proof (induction as arbitrary: c)
  case (Cons a as)
  from Cons.IH [of "if dd_Allowed (Check (unmap a) p) then c else degrade 0 [CodePolicyBlocked] c"] show ?case
    by (auto intro: keeps_honest_degraded)
qed simp

lemma drain_pending_keeps:
  "keeps_honest c (drain_pending E p c) \<and> cv_Attempted (drain_pending E p c) = cv_Attempted c \<and> cv_Completed (drain_pending E p c) = cv_Completed c"
  unfolding drain_pending_def Let_def
  using drain_addresses [of _ "pr_port p" "pr_addresses p"]
  by (auto split: option.splits intro: keeps_honest_degraded)

lemma drain_all_keep:
  "keeps_honest c (fold (drain_pending E) ps c) \<and> cv_Attempted (fold (drain_pending E) ps c) = cv_Attempted c
    \<and> cv_Completed (fold (drain_pending E) ps c) = cv_Completed c"
proof (induction ps arbitrary: c)
  case (Cons p ps)
  from Cons.IH [of "drain_pending E p c"] drain_pending_keeps [of c E p] show ?case by (auto intro: keeps_honest_trans)
qed simp

text \<open>The identifiers of the observations of distinct requests.\<close>

lemma hop_ids:
  "\<exists>keys. map ob_ID (hop_tls E h d @ hop_response E h d) = map (key_id (he_dns E)) keys \<and> distinct (map fst keys)
    \<and> (\<forall>(kind, oc, attributes) \<in> set keys. kind \<in> {''tls-certificate'', ''http-response''} \<and> oc = dl_occurrence d)"
proof -
  have one: "\<exists>keys. map ob_ID obs = map (key_id (he_dns E)) keys \<and> (keys = [] \<or> (\<exists>attributes. keys = [(kind, oc, attributes)]))"
    if "own_id E kind oc obs" for kind oc obs
  proof (cases "obs = []")
    case False
    with that obtain ob attributes where "obs = [ob]" "ob_ID ob = ObservationID (he_dns E) kind oc attributes" by (auto simp: own_id_def)
    then show ?thesis by (intro exI [of _ "[(kind, oc, attributes)]"]) (simp add: key_id_def)
  qed (simp add: exI [of _ "[]"])
  obtain ks where ks: "map ob_ID (hop_tls E h d) = map (key_id (he_dns E)) ks"
      "ks = [] \<or> (\<exists>attributes. ks = [(''tls-certificate'', dl_occurrence d, attributes)])"
    using one [OF hop_own_ids(1)] by blast
  obtain ls where ls: "map ob_ID (hop_response E h d) = map (key_id (he_dns E)) ls"
      "ls = [] \<or> (\<exists>attributes. ls = [(''http-response'', dl_occurrence d, attributes)])"
    using one [OF hop_own_ids(2)] by blast
  from ks ls show ?thesis by (intro exI [of _ "ks @ ls"]) auto
qed

lemma retained_ids:
  assumes "distinct (map dial_slot ds)"
  shows "\<exists>keys. map ob_ID (retained E h ds) = map (key_id (he_dns E)) keys \<and> distinct keys
    \<and> (\<forall>(kind, oc, attributes) \<in> set keys. kind \<in> {''tls-certificate'', ''http-response''} \<and> oc \<in> dl_occurrence ` set ds)"
  using assms
proof (induction ds)
  case (Cons d ds)
  from Cons.prems have "distinct (map dial_slot ds)" by simp
  from Cons.IH [OF this] obtain keys where keys: "map ob_ID (retained E h ds) = map (key_id (he_dns E)) keys" "distinct keys"
    "\<forall>(kind, oc, attributes) \<in> set keys. kind \<in> {''tls-certificate'', ''http-response''} \<and> oc \<in> dl_occurrence ` set ds" by blast
  from hop_ids [of E h d] obtain ks where ks: "map ob_ID (hop_tls E h d @ hop_response E h d) = map (key_id (he_dns E)) ks"
    "distinct (map fst ks)" "\<forall>(kind, oc, attributes) \<in> set ks. kind \<in> {''tls-certificate'', ''http-response''} \<and> oc = dl_occurrence d" by blast
  have "dl_occurrence d \<notin> dl_occurrence ` set ds" using Cons.prems by (force simp: dial_slot_def)
  moreover have "fst (snd key) \<in> dl_occurrence ` set ds" if "key \<in> set keys" for key using keys(3) that by (cases key) auto
  moreover have "fst (snd key) = dl_occurrence d" if "key \<in> set ks" for key using ks(3) that by (cases key) auto
  ultimately have "set ks \<inter> set keys = {}" by (metis disjoint_iff)
  moreover have "distinct ks" using ks(2) by (simp add: distinct_map)
  moreover have "map ob_ID (retained E h (d # ds)) = map (key_id (he_dns E)) (ks @ keys)"
    using keys(1) ks(1) by (simp add: retained_def)
  moreover have "\<forall>(kind, oc, attributes) \<in> set (ks @ keys). kind \<in> {''tls-certificate'', ''http-response''} \<and> oc \<in> dl_occurrence ` set (d # ds)"
    using keys(3) ks(3) by auto
  ultimately show ?case using keys(2) by (intro exI [of _ "ks @ keys"]) simp
qed (simp add: retained_def exI [of _ "[]"])

lemma collection_observed:
  assumes "collectTargetCandidatesOccurrence C E W rawURL candidates oc = (out, err, k)"
  shows "(\<exists>h. hx_Observations out = retained E h (dials k)
       \<and> (dials k \<noteq> [] \<longrightarrow> cv_Attempted (hx_Coverage out) = int (length (dials k))
            \<and> cv_Completed (hx_Coverage out) = int (length (concat (map (hop_response E h) (dials k))))))
    \<and> (ob_ID (hx_Observation out) \<noteq> [] \<longrightarrow> hx_Observation out \<in> set (hx_Observations out))
    \<and> (\<exists>keys. map ob_ID (hx_Observations out) = map (key_id (he_dns E)) keys \<and> distinct keys
         \<and> (\<forall>(kind, oc', attributes) \<in> set keys. kind \<in> {''tls-certificate'', ''http-response''}
              \<and> oc_Seed oc' = oc_Seed oc \<and> oc_SeedIndex oc' = oc_SeedIndex oc))"
  using assms
proof (cases rule: collection_cases)
  case (refused e)
  then show ?thesis by (auto simp: retained_def zero_result_def zero_observation_def)
next
  case (ran u er)
  let ?h = "u_Hostname u"
  have ok: "chain_ok E ?h oc (max 0 (hc_maxRedirects C) + 1) [] k" "final_kept k" using ran by (simp_all add: chain_end_def)
  have obs: "hx_Observations out = retained E ?h (dials k)" using ok ran by (simp add: chain_ok_def)
  have seeds: "oc_Seed (dl_occurrence d) = oc_Seed oc \<and> oc_SeedIndex (dl_occurrence d) = oc_SeedIndex oc" if "d \<in> set (dials k)" for d
  proof -
    have "dl_occurrence d = oc\<lparr>oc_Hop := hop_number d, oc_Attempt := oc_Attempt (dl_occurrence d)\<rparr>"
      using ok(1) that by (simp add: chain_ok_def dial_ok_def)
    then show ?thesis by (metis occurrence_seed)
  qed
  have "distinct (map dial_slot (dials k))" using ok by (simp add: chain_ok_def)
  from retained_ids [OF this, of E ?h] obtain keys where keys: "map ob_ID (hx_Observations out) = map (key_id (he_dns E)) keys" "distinct keys"
    "\<forall>(kind, oc, attributes) \<in> set keys. kind \<in> {''tls-certificate'', ''http-response''} \<and> oc \<in> dl_occurrence ` set (dials k)"
    unfolding obs by blast
  have "cv_Attempted (hx_Coverage out) = int (length (dials k))"
    "cv_Completed (hx_Coverage out) = int (length (concat (map (hop_response E ?h) (dials k))))"
    using ok ran drain_all_keep [of "chain_coverage k" E "ch_pending k"] by (simp_all add: chain_ok_def)
  moreover have "hx_Observation out \<in> set (hx_Observations out)" if "ob_ID (hx_Observation out) \<noteq> []"
    using that ok(2) ran by (simp add: final_kept_def)
  moreover have "\<forall>(kind, oc', attributes) \<in> set keys. kind \<in> {''tls-certificate'', ''http-response''}
      \<and> oc_Seed oc' = oc_Seed oc \<and> oc_SeedIndex oc' = oc_SeedIndex oc"
    using keys(3) seeds by auto
  ultimately show ?thesis using obs keys(1,2) by (intro conjI exI [of _ ?h] exI [of _ keys]) simp_all
qed

text \<open>C38: The observations of a collection are exactly those of its requests, in the order in which they
  were made: of each its handshake, if one was seen, and its response, if one came. The coverage counts
  as many attempts as requests and as many completions as responses, and the identifiers of the
  observations stand for pairwise different occurrences of the seed they were collected for.\<close>

theorem http_observations_exact:
  assumes "collectTargetCandidatesOccurrence C E W rawURL candidates oc = (out, err, k)"
  shows "(\<exists>h. hx_Observations out = retained E h (dials k)
       \<and> (dials k \<noteq> [] \<longrightarrow> cv_Attempted (hx_Coverage out) = int (length (dials k))
            \<and> cv_Completed (hx_Coverage out) = int (length (concat (map (hop_response E h) (dials k))))))
    \<and> (ob_ID (hx_Observation out) \<noteq> [] \<longrightarrow> hx_Observation out \<in> set (hx_Observations out))
    \<and> (\<exists>keys. map ob_ID (hx_Observations out) = map (key_id (he_dns E)) keys \<and> distinct keys
         \<and> (\<forall>(kind, oc', attributes) \<in> set keys. kind \<in> {''tls-certificate'', ''http-response''}
              \<and> oc_Seed oc' = oc_Seed oc \<and> oc_SeedIndex oc' = oc_SeedIndex oc))"
  by (rule collection_observed [OF assms])

lemma degraded_stays:
  "cv_Status (fold (drain_pending E) ps c) = CoverageComplete \<Longrightarrow>
    \<forall>p \<in> set ps. pr_err p = None \<and> (\<forall>a \<in> set (pr_addresses p). dd_Allowed (Check (unmap a) (pr_port p)))"
proof (induction ps arbitrary: c)
  case (Cons p ps)
  have drained: "cv_Status (drain_pending E p c) = CoverageComplete" "cv_Status c = CoverageComplete"
    using Cons.prems drain_all_keep [of "drain_pending E p c" E ps] drain_pending_keeps [of c E p] by (auto simp: keeps_honest_def)
  let ?f = "\<lambda>as. fold (\<lambda>a c. if dd_Allowed (Check (unmap a) (pr_port p)) then c else degrade 0 [CodePolicyBlocked] c) as"
  have kept: "cv_Status (?f as c) = CoverageComplete \<Longrightarrow> cv_Status c = CoverageComplete" for as c
    using drain_addresses [of c "pr_port p" as] by (simp add: keeps_honest_def)
  have all: "cv_Status (?f as c) = CoverageComplete \<Longrightarrow> \<forall>a \<in> set as. dd_Allowed (Check (unmap a) (pr_port p))" for as c
  proof (induction as arbitrary: c)
    case (Cons a as)
    then show ?case using kept [of as "degrade 0 [CodePolicyBlocked] c"] by (auto split: if_splits)
  qed simp
  have "pr_err p = None"
  proof (rule ccontr)
    assume "pr_err p \<noteq> None"
    then obtain n codes where "drain_pending E p c = ?f (pr_addresses p) (degrade n codes c)"
      by (cases "as_partial (the (pr_err p))") (auto simp: drain_pending_def Let_def)
    with drained(1) kept [of "pr_addresses p" "degrade n codes c"] show False by simp
  qed
  moreover from this drained(1) have "\<forall>a \<in> set (pr_addresses p). dd_Allowed (Check (unmap a) (pr_port p))"
    using all [of "pr_addresses p" c] by (simp add: drain_pending_def Let_def)
  ultimately show ?case using Cons by simp
qed simp

section \<open>A collection of one page\<close>

definition page_env :: http_env where
  "page_env = \<lparr>he_dns = link_env, he_url_Parse = (\<lambda>s. Inr \<lparr>u_Scheme = ''https'', u_User = None, u_Host = s, u_Rest = [], u_Fragment = []\<rparr>),
     he_url_Ref = (\<lambda>_ s. Inl (Errorf s)), he_url_String = u_Host, he_RawQuery = (\<lambda>_. []), he_with_RawQuery = (\<lambda>_ u. u),
     he_EscapedPath = u_Rest, he_marshal_http = (\<lambda>_. Inr []), he_marshal_tls = (\<lambda>_. Inr []), he_sha256 = (\<lambda>s. s),
     he_start_tags = (\<lambda>_. []), he_valid_utf8 = (\<lambda>s. s), he_x509 = (\<lambda>_. OtherFailure), he_verification_error = (\<lambda>_. False)\<rparr>"

definition page_world :: http_world where
  "page_world = \<lparr>hw_ctx = (\<lambda>_. None), hw_acquire = (\<lambda>_ _. None),
     hw_exchange = (\<lambda>_. \<lparr>xc_request = None, xc_handshake = None,
       xc_reply = Inr \<lparr>hr_StatusCode = 200, hr_Headers = [], hr_read = (\<lambda>_. ([], None)), hr_closeErr = None\<rparr>,
       xc_allowance = 100, xc_handshake_now = 1, xc_now = 1\<rparr>),
     hw_resolve = (\<lambda>_ _. ([], None))\<rparr>"

definition page_collector :: http_collector where
  "page_collector = \<lparr>hc_maxRedirects = 5, hc_maxCandidates = 128, hc_resolve = False, hc_streamResolve = None\<rparr>"

definition page_occurrence :: occurrence where
  "page_occurrence = \<lparr>oc_CollectionRunID = [], oc_Seed = ''a'', oc_SeedIndex = 0, oc_RequestIndex = 0, oc_Hop = 0, oc_Attempt = 1,
     oc_ItemIndex = 0\<rparr>"

lemma page_collected:
  "\<exists>out k. collectTargetCandidatesOccurrence page_collector page_env page_world ''a'' [V4 0x08080808] page_occurrence = (out, None, k)
     \<and> cv_Status (hx_Coverage out) = CoverageComplete \<and> length (dials k) = 1"
proof -
  let ?u = "\<lparr>u_Scheme = ''https'', u_User = None, u_Host = ''a'', u_Rest = [], u_Fragment = []\<rparr> :: url"
  have parts: "checked_target page_env ''a'' = Inr ?u" "portForURL ?u = 443" "u_Hostname ?u = ''a''"
    by (simp_all add: checked_target_def page_env_def u_Hostname_def u_Port_def portForURL_def portForScheme_def split_host_port_def has_prefix_def)
  define loop where "loop = hop_loop page_collector page_env page_world ?u [V4 0x08080808] None ''a'' page_occurrence 0 fresh_chain"
  have "snd loop = None \<and> ch_pending (fst loop) = [] \<and> cv_Status (chain_coverage (fst loop)) = CoverageComplete \<and> length (dials (fst loop)) = 1"
    unfolding loop_def hop_loop.simps [of page_collector page_env page_world ?u "[V4 0x08080808]" None "''a''" page_occurrence 0 fresh_chain]
    using address_allowed parts(2)
    by (simp add: take_hop_def collectHop_def page_world_def read_body_def scriptURLs_def page_env_def
      response_location_def isRedirectStatus_def hop_responded_def response_coverage_def fresh_chain_def zero_coverage_def
      completed_one_def Let_def)
  then show ?thesis
    by (cases loop) (simp add: collectTargetCandidatesOccurrence_def parts loop_def)
qed

theorem http_requests_allowed_witness:
  "\<exists>out err k. collectTargetCandidatesOccurrence page_collector page_env page_world ''a'' [V4 0x08080808] page_occurrence = (out, err, k)
     \<and> length (dials k) = 1 \<and> (\<forall>d \<in> set (dials k). dd_Allowed (Check (dl_address d) (portForURL (dl_url d))))"
  using page_collected http_requests_allowed by metis

theorem http_observations_exact_witness:
  "\<exists>out err k h. collectTargetCandidatesOccurrence page_collector page_env page_world ''a'' [V4 0x08080808] page_occurrence = (out, err, k)
     \<and> hx_Observations out = retained page_env h (dials k)"
  using page_collected http_observations_exact by metis

end
