(* ===== verification/Http_Coverage.thy ===== *)
theory Http_Coverage
  imports Http_Properties
begin

text \<open>
  What complete coverage of a collection of internal/collect/http promises, said of the exchanges and of the
  answers of the resolver themselves: every body was read whole, and every resolution of a redirect came back
  whole and was used or checked whole.
\<close>

section \<open>Exchanges and resolutions\<close>

text \<open>A request without an answer, and one whose response was read to its end within the allowance and closed
  without an error.\<close>

definition unanswered :: "http_dial \<Rightarrow> bool" where
  "unanswered d \<longleftrightarrow> (\<exists>e. xc_reply (dl_exchange d) = Inl e)"

definition answered_in_full :: "http_dial \<Rightarrow> http_response \<Rightarrow> bool" where
  "answered_in_full d response \<longleftrightarrow>
     xc_request (dl_exchange d) = None \<and> xc_reply (dl_exchange d) = Inr response \<and> hr_closeErr response = None
     \<and> (\<exists>body. hr_read response (nat (xc_allowance (dl_exchange d) + 1)) = (body, None) \<and> int (length body) \<le> xc_allowance (dl_exchange d))"

text \<open>The answer of a resolver gave the address of the request, and the policy allows all of it.\<close>

definition gives_address :: "http_dial \<Rightarrow> addr list \<Rightarrow> bool" where
  "gives_address d answer \<longleftrightarrow> dl_address d \<in> unmap ` set answer
     \<and> (\<forall>a \<in> set answer. dd_Allowed (Check (unmap a) (portForURL (dl_url d))))"

text \<open>The resolution of the host of a request after a redirect: no error, nothing dropped, all of it allowed.\<close>

definition resolved_whole :: "http_collector \<Rightarrow> http_world \<Rightarrow> http_dial \<Rightarrow> bool" where
  "resolved_whole C W d \<longleftrightarrow>
     (case hc_streamResolve C of
        Some resolve \<Rightarrow>
          let s = resolve (u_Hostname (dl_url d)) (hop_number d)
          in st_err s = None \<and> st_dropped s \<le> 0 \<and> gives_address d (st_addresses s)
      | None \<Rightarrow> \<exists>t answer. hw_resolve W t (u_Hostname (dl_url d)) = (answer, None) \<and> gives_address d answer)"

text \<open>A request of a hop follows the redirect of a response of the hop before it.\<close>

definition follows_redirect :: "http_env \<Rightarrow> http_dial list \<Rightarrow> url \<Rightarrow> int \<Rightarrow> bool" where
  "follows_redirect E ds u hop \<longleftrightarrow>
     (\<exists>d \<in> set ds. \<exists>response. hop_number d = hop - 1 \<and> answered_in_full d response \<and> response_location response \<noteq> []
        \<and> next_target E (dl_url d) (response_location response) = Inr u)"

text \<open>One request of a collection from \<open>candidates\<close> at \<open>u0\<close>: where it came from, and what came of it and of its hop.\<close>

definition dial_whole :: "http_collector \<Rightarrow> http_env \<Rightarrow> http_world \<Rightarrow> url \<Rightarrow> addr list \<Rightarrow> http_dial list \<Rightarrow> http_dial \<Rightarrow> bool" where
  "dial_whole C E W u0 candidates ds d \<longleftrightarrow>
     (unanswered d \<or> (\<exists>response. answered_in_full d response))
     \<and> (\<exists>d' \<in> set ds. hop_number d' = hop_number d \<and> (\<exists>response. answered_in_full d' response))
     \<and> (if hop_number d = 0 then dl_url d = u0 \<and> dl_address d \<in> unmap ` set candidates
        else resolved_whole C W d \<and> follows_redirect E ds (dl_url d) (hop_number d))"

definition chain_whole :: "http_collector \<Rightarrow> http_env \<Rightarrow> http_world \<Rightarrow> url \<Rightarrow> addr list \<Rightarrow> http_chain \<Rightarrow> bool" where
  "chain_whole C E W u0 candidates k \<longleftrightarrow>
     (\<forall>d \<in> set (dials k). dial_whole C E W u0 candidates (dials k) d)
     \<and> (\<forall>(host, hop) \<in> set (ch_resolved k). \<exists>d \<in> set (dials k). u_Hostname (dl_url d) = host \<and> hop_number d = hop)
     \<and> (\<exists>response. dials k \<noteq> [] \<and> answered_in_full (last (dials k)) response \<and> response_location response = [])"

section \<open>One hop\<close>

lemma pre_response_unanswered: "snd (snd (collectHop E u a h oc x)) = Some (PreResponse e) \<Longrightarrow> \<exists>e'. xc_reply x = Inl e'"
  by (auto simp: collectHop_def Let_def split: if_splits option.splits sum.splits prod.splits)

lemma hop_whole:
  assumes "snd (hop_of E h d) = (loc, None)" "cv_Status (hx_Coverage (fst (hop_of E h d))) \<noteq> CoveragePartial"
  shows "\<exists>response. answered_in_full d response \<and> loc = response_location response"
  using assms
  by (auto simp: hop_of_def collectHop_def answered_in_full_def response_coverage_def read_body_def Let_def
      split: if_splits option.splits sum.splits prod.splits)

text \<open>The candidates a hop took, and those it left.\<close>

lemma candidates_used:
  "collectHopCandidates E W u cs h oc n lastErr tls r = (out, rest, r') \<Longrightarrow>
    \<exists>used new. cs = used @ rest \<and> ht_dials r' = ht_dials r @ new \<and> (\<forall>d \<in> set new. dl_address d \<in> unmap ` set used)
      \<and> (cv_Status (ht_coverage r') = CoverageComplete \<longrightarrow>
           cv_Status (ht_coverage r) = CoverageComplete \<and> (\<forall>a \<in> set used. dd_Allowed (Check (unmap a) (portForURL u))))"
  (is "_ \<Longrightarrow> \<exists>used new. ?P cs rest r r' used new")
proof (induction cs arbitrary: n lastErr tls r)
  case Nil
  then show ?case by (auto split: option.splits)
next
  case (Cons a cs)
  let ?port = "portForURL u"
  show ?case
  proof (cases "dd_Allowed (Check (unmap a) ?port) \<or> hw_ctx W (ht_time r) \<noteq> None")
    case False
    with Cons.prems have "collectHopCandidates E W u cs h oc n lastErr tls (hcover (degrade 1 [CodePolicyBlocked]) (htick r)) = (out, rest, r')"
      by (simp add: Let_def)
    from Cons.IH [OF this] obtain used new where "?P cs rest (hcover (degrade 1 [CodePolicyBlocked]) (htick r)) r' used new" by blast
    then show ?thesis by (intro exI [of _ "a # used"] exI [of _ new]) auto
  next
    case True
    show ?thesis
    proof (cases "hw_ctx W (ht_time r)")
      case (Some e)
      with Cons.prems show ?thesis by (intro exI [of _ "[]"]) auto
    next
      case ctx: None
      with True have allowed: "dd_Allowed (Check (unmap a) ?port)" by simp
      let ?r = "htick (htick r)"
      define x where "x = hw_exchange W (ht_time (hcover (\<lambda>c. c\<lparr>cv_Attempted := cv_Attempted c + 1\<rparr>) ?r))"
      define oc' where "oc' = oc\<lparr>oc_Attempt := oc_Attempt oc + n\<rparr>"
      define r2 where "r2 = htick (request_sent u (unmap a) oc' x (hcover (\<lambda>c. c\<lparr>cv_Attempted := cv_Attempted c + 1\<rparr>) ?r))"
      obtain res loc er where call: "collectHop E u (unmap a) h oc' x = (res, loc, er)" by (metis surj_pair)
      show ?thesis
      proof (cases "hw_acquire W (ht_time (htick r)) (JoinHostPort (addr_string (unmap a)) (nat_string ?port))")
        case (Some e)
        with Cons.prems ctx allowed show ?thesis by (intro exI [of _ "[a]"] exI [of _ "[]"]) (auto simp: Let_def)
      next
        case None
        have r2: "ht_dials r2 = ht_dials r @ [\<lparr>dl_url = u, dl_address = unmap a, dl_occurrence = oc', dl_exchange = x\<rparr>]"
          "cv_Status (ht_coverage r2) = cv_Status (ht_coverage r)" by (simp_all add: r2_def)
        have "(rest = cs \<and> ht_dials r' = ht_dials r2 \<and> cv_Status (ht_coverage r') = cv_Status (ht_coverage r2))
            \<or> (\<exists>er' tls'. collectHopCandidates E W u cs h oc (n + 1) er' tls' (htick r2) = (out, rest, r'))"
          using Cons.prems ctx allowed None call
          by (auto simp: Let_def x_def [symmetric] oc'_def [symmetric] r2_def [symmetric] completed_one_def split: option.splits if_splits)
        then show ?thesis
        proof (elim disjE exE)
          assume "rest = cs \<and> ht_dials r' = ht_dials r2 \<and> cv_Status (ht_coverage r') = cv_Status (ht_coverage r2)"
          with r2 allowed show ?thesis by (intro exI [of _ "[a]"]) auto
        next
          fix er' tls' assume "collectHopCandidates E W u cs h oc (n + 1) er' tls' (htick r2) = (out, rest, r')"
          from Cons.IH [OF this] obtain used new where "?P cs rest (htick r2) r' used new" by blast
          with r2 allowed show ?thesis
            by (intro exI [of _ "a # used"] exI [of _ "\<lparr>dl_url = u, dl_address = unmap a, dl_occurrence = oc', dl_exchange = x\<rparr> # new"]) auto
        qed
      qed
    qed
  qed
qed

section \<open>The chain\<close>

definition pendings_whole :: "http_chain \<Rightarrow> bool" where
  "pendings_whole k \<longleftrightarrow> (\<forall>p \<in> set (ch_pending k). pr_err p = None \<and> (\<forall>a \<in> set (pr_addresses p). dd_Allowed (Check (unmap a) (pr_port p))))"

lemma hop_responded_keeps [simp]:
  "dials (hop_responded res k) = dials k" "ch_pending (hop_responded res k) = ch_pending k"
  "pendings_whole (hop_responded res k) = pendings_whole k" "pendings_whole (k\<lparr>ch_resolved := rs\<rparr>) = pendings_whole k"
  by (simp_all add: hop_responded_def pendings_whole_def Let_def)

lemma hop_responded_complete:
  "cv_Status (chain_coverage (hop_responded res k)) = CoverageComplete \<Longrightarrow>
    cv_Status (chain_coverage k) = CoverageComplete \<and> cv_Status (hx_Coverage res) \<noteq> CoveragePartial"
  by (auto simp: hop_responded_def Let_def split: if_splits)

text \<open>A hop that answers and leaves the coverage complete: its requests, the last of them answered in full.\<close>

lemma taken_whole:
  assumes "take_hop E W u cs st h (oc\<lparr>oc_Hop := hop\<rparr>) k = ((res, loc, None), k1)"
    and "cv_Status (chain_coverage (hop_responded res k1)) = CoverageComplete"
  obtains used rest new response where "cs = used @ rest" "dials k1 = dials k @ new" "new \<noteq> []" "ch_resolved k1 = ch_resolved k"
    "ch_pending k1 = ch_pending k @ (case st of None \<Rightarrow> [] | Some e \<Rightarrow> [\<lparr>pr_addresses = rest, pr_err = e, pr_port = portForURL u\<rparr>])"
    "\<forall>d \<in> set new. dl_url d = u \<and> hop_number d = hop \<and> dl_address d \<in> unmap ` set used \<and> (unanswered d \<or> (\<exists>response. answered_in_full d response))"
    "\<forall>a \<in> set used. dd_Allowed (Check (unmap a) (portForURL u))"
    "answered_in_full (last new) response" "loc = response_location response" "cv_Status (chain_coverage k) = CoverageComplete"
proof -
  obtain out rest r where c: "collectHopCandidates E W u cs h (oc\<lparr>oc_Hop := hop\<rparr>) 0 None [] (ch_run k) = (out, rest, r)"
    by (metis surj_pair)
  have k1: "out = (res, loc, None)" "ch_run k1 = r" "ch_resolved k1 = ch_resolved k"
      "ch_pending k1 = ch_pending k @ (case st of None \<Rightarrow> [] | Some e \<Rightarrow> [\<lparr>pr_addresses = rest, pr_err = e, pr_port = portForURL u\<rparr>])"
    using assms(1) c by (auto simp: take_hop_def Let_def split: prod.splits)
  from hop_responded_complete [OF assms(2)] have complete: "cv_Status (ht_coverage r) = CoverageComplete" "cv_Status (hx_Coverage res) \<noteq> CoveragePartial"
    by (simp_all add: k1)
  from candidates_spec [OF c] obtain new where "hop_spec E u h (oc\<lparr>oc_Hop := hop\<rparr>) 0 [] (ch_run k) out r new" ..
  note spec = this [unfolded hop_spec_def k1 prod.case]
  from candidates_used [OF c] complete(1) obtain used new' where used: "cs = used @ rest" "ht_dials r = ht_dials (ch_run k) @ new'"
      "\<forall>d \<in> set new'. dl_address d \<in> unmap ` set used" "\<forall>a \<in> set used. dd_Allowed (Check (unmap a) (portForURL u))"
      "cv_Status (chain_coverage k) = CoverageComplete" by blast
  have new: "new' = new" "new \<noteq> []" using spec used(2) by (auto split: if_splits)
  have last: "(loc, None) = snd (hop_of E h (last new))" "\<exists>ts. res = (fst (hop_of E h (last new)))\<lparr>hx_TLSObservations := ts\<rparr>"
    using spec by (auto split: if_splits)
  then have "cv_Status (hx_Coverage (fst (hop_of E h (last new)))) \<noteq> CoveragePartial" using complete(2) by auto
  from hop_whole [OF last(1) [symmetric] this] obtain response where response: "answered_in_full (last new) response" "loc = response_location response" by blast
  have "dl_url d = u \<and> hop_number d = hop \<and> dl_address d \<in> unmap ` set used \<and> (unanswered d \<or> (\<exists>response. answered_in_full d response))"
    if d: "d \<in> set new" for d
  proof -
    have "dial_ok u (oc\<lparr>oc_Hop := hop\<rparr>) d" using spec d by simp
    then have "dl_url d = u" "dl_occurrence d = oc\<lparr>oc_Hop := hop, oc_Attempt := oc_Attempt (dl_occurrence d)\<rparr>" by (simp_all add: dial_ok_def)
    then have "dl_url d = u \<and> hop_number d = hop" unfolding hop_number_def by (metis hop_of_occurrence)
    moreover have "unanswered d \<or> (\<exists>response. answered_in_full d response)"
    proof (cases "d = last new")
      case False
      then have "d \<in> set (butlast new)" using d by (cases new rule: rev_cases) auto
      then show ?thesis using spec pre_response_unanswered unfolding hop_of_def unanswered_def by blast
    qed (use response(1) in blast)
    ultimately show ?thesis using used(3) d new(1) by blast
  qed
  with used new response k1 spec show ?thesis by (intro that [of used rest new response]) auto
qed

lemma approved_whole:
  "approved_loop port as ap b = (ap', b') \<Longrightarrow>
    set ap' \<subseteq> set ap \<union> unmap ` set as \<and> (\<not> b' \<longrightarrow> \<not> b \<and> (\<forall>a \<in> set as. dd_Allowed (Check (unmap a) port)))"
proof (induction as arbitrary: ap b)
  case (Cons a as)
  let ?allowed = "dd_Allowed (Check (unmap a) port)"
  let ?ap = "if ?allowed \<and> unmap a \<notin> set ap then ap @ [unmap a] else ap"
  have "approved_loop port as ?ap (b \<or> \<not> ?allowed) = (ap', b')" using Cons.prems by (simp add: Let_def)
  note ih = Cons.IH [OF this]
  have "set ?ap \<subseteq> set ap \<union> {unmap a}" by auto
  with ih have "set ap' \<subseteq> set ap \<union> unmap ` set (a # as)" by (simp only: list.set image_insert) blast
  moreover from ih have "\<not> b' \<longrightarrow> \<not> b \<and> ?allowed \<and> (\<forall>a \<in> set as. dd_Allowed (Check (unmap a) port))" by blast
  ultimately show ?case by simp
qed simp

text \<open>The plain resolver: complete coverage after it means that its answer was whole.\<close>

lemma resolve_next_whole:
  assumes "resolve_next E W u k = (Some ap, k')" "cv_Status (chain_coverage k') = CoverageComplete"
  shows "(\<exists>t answer. hw_resolve W t (u_Hostname u) = (answer, None) \<and> set ap \<subseteq> unmap ` set answer
      \<and> (\<forall>a \<in> set answer. dd_Allowed (Check (unmap a) (portForURL u))))
    \<and> cv_Status (chain_coverage k) = CoverageComplete \<and> dials k' = dials k \<and> ch_pending k' = ch_pending k \<and> ch_resolved k' = ch_resolved k"
proof -
  obtain answer err where a: "hw_resolve W (ht_time (ch_run k)) (u_Hostname u) = (answer, err)" by fastforce
  obtain approved blocked where ap: "approvedAddresses answer (portForURL u) = (approved, blocked)" by fastforce
  have "err = None" "\<not> blocked" "ap = approved" "k' = k\<lparr>ch_run := htick (ch_run k)\<rparr>"
    using assms a ap by (auto simp: resolve_next_def Let_def split: option.splits if_splits)
  with assms(2) a ap approved_whole [of "portForURL u" answer "[]" False] show ?thesis by (fastforce simp: approvedAddresses_def)
qed

text \<open>What feeds hop \<open>hop\<close> at \<open>u\<close>, and what the chain has done before it.\<close>

definition fed :: "http_collector \<Rightarrow> http_env \<Rightarrow> http_world \<Rightarrow> url \<Rightarrow> addr list \<Rightarrow> url \<Rightarrow> addr list \<Rightarrow> (resolve_error option) option \<Rightarrow> int \<Rightarrow> http_chain \<Rightarrow> bool" where
  "fed C E W u0 candidates u cs st hop k \<longleftrightarrow>
     (if hop = 0 then u = u0 \<and> cs = candidates
      else follows_redirect E (dials k) u hop
        \<and> (case hc_streamResolve C of
             Some resolve \<Rightarrow> cs = st_addresses (resolve (u_Hostname u) hop) \<and> st = Some (stream_error (resolve (u_Hostname u) hop))
           | None \<Rightarrow> \<exists>t answer. hw_resolve W t (u_Hostname u) = (answer, None) \<and> set cs \<subseteq> unmap ` set answer
               \<and> (\<forall>a \<in> set answer. dd_Allowed (Check (unmap a) (portForURL u)))))"

definition tried :: "http_chain \<Rightarrow> string \<times> int \<Rightarrow> bool" where
  "tried k r \<longleftrightarrow> (case r of (host, hop) \<Rightarrow> \<exists>d \<in> set (dials k). u_Hostname (dl_url d) = host \<and> hop_number d = hop)"

definition in_progress ::
    "http_collector \<Rightarrow> http_env \<Rightarrow> http_world \<Rightarrow> url \<Rightarrow> addr list \<Rightarrow> url \<Rightarrow> addr list \<Rightarrow> (resolve_error option) option \<Rightarrow> int \<Rightarrow> http_chain \<Rightarrow> bool" where
  "in_progress C E W u0 candidates u cs st hop k \<longleftrightarrow>
     0 \<le> hop \<and> (cv_Status (chain_coverage k) = CoverageComplete \<and> pendings_whole k \<longrightarrow>
       fed C E W u0 candidates u cs st hop k
       \<and> (\<forall>d \<in> set (dials k). dial_whole C E W u0 candidates (dials k) d)
       \<and> (\<forall>r \<in> set (ch_resolved k). r = (u_Hostname u, hop) \<or> tried k r))"

lemma follows_redirect_more: "follows_redirect E ds u hop \<Longrightarrow> set ds \<subseteq> set ds' \<Longrightarrow> follows_redirect E ds' u hop"
  unfolding follows_redirect_def by blast

lemma dial_whole_more: "dial_whole C E W u0 candidates ds d \<Longrightarrow> set ds \<subseteq> set ds' \<Longrightarrow> dial_whole C E W u0 candidates ds' d"
  unfolding dial_whole_def using follows_redirect_more [of E ds "dl_url d" "hop_number d" ds'] by (auto split: if_splits)

lemma tried_more: "tried k r \<Longrightarrow> set (dials k) \<subseteq> set (dials k') \<Longrightarrow> tried k' r"
  unfolding tried_def by (auto split: prod.splits)

lemma stream_error_None: "stream_error s = None \<longleftrightarrow> st_err s = None \<and> \<not> st_dropped s > 0"
  by (auto simp: stream_error_def Let_def split: option.splits)

text \<open>A source from which some addresses were taken, all of them allowed, while the rest passed the drain.\<close>

lemma fed_resolved:
  assumes "fed C E W u0 candidates u (used @ rest) st hop k" "hop \<noteq> 0" "hop_number d = hop" "dl_url d = u"
    and "dl_address d \<in> unmap ` set used" "\<forall>a \<in> set used. dd_Allowed (Check (unmap a) (portForURL u))"
    and "\<forall>e. st = Some e \<longrightarrow> e = None \<and> (\<forall>a \<in> set rest. dd_Allowed (Check (unmap a) (portForURL u)))"
  shows "resolved_whole C W d"
proof (cases "hc_streamResolve C")
  case (Some resolve)
  let ?s = "resolve (u_Hostname u) hop"
  have s: "st_addresses ?s = used @ rest" "st = Some (stream_error ?s)"
    using assms(1,2) Some by (simp_all add: fed_def)
  with assms(7) have none: "stream_error ?s = None" and rest: "\<forall>a \<in> set rest. dd_Allowed (Check (unmap a) (portForURL u))" by simp_all
  from none have "st_err ?s = None" "st_dropped ?s \<le> 0" by (auto simp: stream_error_None)
  then show ?thesis
    using Some s(1) assms(3-6) rest by (auto simp: resolved_whole_def gives_address_def Let_def)
next
  case None
  with assms(1,2) obtain t answer where a: "hw_resolve W t (u_Hostname u) = (answer, None)" "set (used @ rest) \<subseteq> unmap ` set answer"
      "\<forall>a \<in> set answer. dd_Allowed (Check (unmap a) (portForURL u))" by (auto simp: fed_def)
  have "dl_address d \<in> unmap ` set answer" using assms(5) a(2) by fastforce
  with None a assms(4) show ?thesis by (auto simp: resolved_whole_def gives_address_def)
qed

text \<open>One hop of a chain that stays complete.\<close>

lemma hop_kept_whole:
  assumes "in_progress C E W u0 candidates u cs st hop k"
    and t: "take_hop E W u cs st h (oc\<lparr>oc_Hop := hop\<rparr>) k = ((res, loc, None), k1)"
    and complete: "cv_Status (chain_coverage (hop_responded res k1)) = CoverageComplete" "pendings_whole k1"
  shows "(\<forall>d \<in> set (dials k1). dial_whole C E W u0 candidates (dials k1) d) \<and> (\<forall>r \<in> set (ch_resolved k1). tried k1 r) \<and> dials k1 \<noteq> []
    \<and> hop_number (last (dials k1)) = hop \<and> dl_url (last (dials k1)) = u
    \<and> (\<exists>response. answered_in_full (last (dials k1)) response \<and> response_location response = loc)"
  using t complete(1)
proof (rule taken_whole)
  fix used rest new response
  assume cs: "cs = used @ rest" and dials: "dials k1 = dials k @ new" and "new \<noteq> []" and resolved: "ch_resolved k1 = ch_resolved k"
    and pending: "ch_pending k1 = ch_pending k @ (case st of None \<Rightarrow> [] | Some e \<Rightarrow> [\<lparr>pr_addresses = rest, pr_err = e, pr_port = portForURL u\<rparr>])"
    and new: "\<forall>d \<in> set new. dl_url d = u \<and> hop_number d = hop \<and> dl_address d \<in> unmap ` set used \<and> (unanswered d \<or> (\<exists>response. answered_in_full d response))"
    and used: "\<forall>a \<in> set used. dd_Allowed (Check (unmap a) (portForURL u))"
    and last: "answered_in_full (last new) response" "loc = response_location response" and k: "cv_Status (chain_coverage k) = CoverageComplete"
  have "pendings_whole k" using complete(2) pending by (simp add: pendings_whole_def)
  with assms(1) k have fed: "fed C E W u0 candidates u cs st hop k" and before: "\<forall>d \<in> set (dials k). dial_whole C E W u0 candidates (dials k) d"
    and once: "\<forall>r \<in> set (ch_resolved k). r = (u_Hostname u, hop) \<or> tried k r" by (simp_all add: in_progress_def)
  have rest: "\<forall>e. st = Some e \<longrightarrow> e = None \<and> (\<forall>a \<in> set rest. dd_Allowed (Check (unmap a) (portForURL u)))"
    using complete(2) pending by (auto simp: pendings_whole_def)
  have member: "last new \<in> set new" using \<open>new \<noteq> []\<close> by simp
  have whole: "dial_whole C E W u0 candidates (dials k1) d" if d: "d \<in> set new" for d
  proof -
    have "resolved_whole C W d \<and> follows_redirect E (dials k1) u hop" if "hop \<noteq> 0"
      using fed_resolved [OF fed [unfolded cs] that _ _ _ used rest, of d] new d fed that follows_redirect_more [of E "dials k" u hop "dials k1"]
      by (simp add: fed_def dials)
    moreover have "u = u0 \<and> dl_address d \<in> unmap ` set candidates" if "hop = 0"
      using fed that new d cs by (auto simp: fed_def)
    moreover have "\<exists>d' \<in> set (dials k1). hop_number d' = hop \<and> (\<exists>response. answered_in_full d' response)"
      using last(1) member new dials by auto
    ultimately show ?thesis using new d by (simp add: dial_whole_def)
  qed
  have "tried k1 r" if "r \<in> set (ch_resolved k1)" for r
  proof (cases "tried k r")
    case True
    then show ?thesis using dials by (auto intro: tried_more)
  next
    case False
    with once that [unfolded resolved] have "r = (u_Hostname u, hop)" by blast
    then show ?thesis using member new dials by (auto simp: tried_def)
  qed
  moreover have "\<forall>d \<in> set (dials k1). dial_whole C E W u0 candidates (dials k1) d"
    using whole before dial_whole_more [of C E W u0 candidates "dials k" _ "dials k1"] by (auto simp: dials)
  moreover have "last (dials k1) = last new" "dials k1 \<noteq> []" using dials \<open>new \<noteq> []\<close> by simp_all
  ultimately show ?thesis using last member new by auto
qed

lemma last_redirects:
  assumes "ds \<noteq> []" "\<exists>response. answered_in_full (last ds) response \<and> response_location response = loc"
    and "loc \<noteq> []" "next_target E (dl_url (last ds)) loc = Inr u'"
  shows "follows_redirect E ds u' (hop_number (last ds) + 1)"
  using assms unfolding follows_redirect_def by (intro bexI [of _ "last ds"]) auto

text \<open>The whole chain.\<close>

lemma hop_loop_whole:
  assumes "hop_loop C E W u0 candidates None h oc 0 fresh_chain = (k', err)"
    and "cv_Status (chain_coverage k') = CoverageComplete" "pendings_whole k'"
  shows "chain_whole C E W u0 candidates k'"
proof -
  define Q where "Q = (\<lambda>k (err :: hop_error option). cv_Status (chain_coverage k) = CoverageComplete \<and> pendings_whole k \<longrightarrow> chain_whole C E W u0 candidates k)"
  have partial: "Q k err" if "cv_Status (chain_coverage k) = CoveragePartial" for k err using that by (simp add: Q_def)
  have "Q k' err"
  proof (rule hop_loop_fed [OF assms(1), where I = "in_progress C E W u0 candidates" and Q = Q])
    show "in_progress C E W u0 candidates u0 candidates None 0 fresh_chain"
      by (simp add: in_progress_def fed_def) (simp add: fresh_chain_def)
  next
    fix u cs st hop k res loc e k1
    show "Q (fst (hop_failed E res e k1)) (snd (hop_failed E res e k1))"
      by (rule partial) (simp add: hop_failed_def Let_def)
  next
    fix u cs st hop k res k1
    assume "in_progress C E W u0 candidates u cs st hop k" "take_hop E W u cs st h (oc\<lparr>oc_Hop := hop\<rparr>) k = ((res, [], None), k1)"
    from hop_kept_whole [OF this] show "Q (hop_responded res k1) None"
      by (auto simp: Q_def chain_whole_def tried_def resolved_simps)
  next
    fix u cs st hop k res loc k1 code
    show "Q (chain_cover (degrade 1 [code]) (hop_responded res k1)) None" by (rule partial) simp
  next
    fix u cs st hop k res loc k1 u' k2
    assume "resolve_next E W u' (hop_responded res k1) = (None, k2)"
    then show "Q k2 None"
      by (intro partial) (auto simp: resolve_next_def Let_def split: prod.splits option.splits if_splits)
  next
    fix u cs st hop k res loc k1 u' resolve
    assume I: "in_progress C E W u0 candidates u cs st hop k" and t: "take_hop E W u cs st h (oc\<lparr>oc_Hop := hop\<rparr>) k = ((res, loc, None), k1)"
      and n: "next_target E u loc = Inr u'" "loc \<noteq> []" "hc_streamResolve C = Some resolve"
    let ?k = "hop_responded res k1\<lparr>ch_resolved := ch_resolved (hop_responded res k1) @ [(u_Hostname u', hop + 1)]\<rparr>"
    have "0 \<le> hop" using I by (simp add: in_progress_def)
    with hop_kept_whole [OF I t] n
    show "in_progress C E W u0 candidates u' (st_addresses (resolve (u_Hostname u') (hop + 1))) (Some (stream_error (resolve (u_Hostname u') (hop + 1)))) (hop + 1) ?k"
      using last_redirects [of "dials k1" loc E u'] unfolding in_progress_def fed_def
      by (auto simp: tried_def resolved_simps)
  next
    fix u cs st hop k res loc k1 u' ap k2
    assume I: "in_progress C E W u0 candidates u cs st hop k" and t: "take_hop E W u cs st h (oc\<lparr>oc_Hop := hop\<rparr>) k = ((res, loc, None), k1)"
      and n: "next_target E u loc = Inr u'" "loc \<noteq> []" "hc_streamResolve C = None"
      and r: "resolve_next E W u' (hop_responded res k1) = (Some ap, k2)"
    have "0 \<le> hop" using I by (simp add: in_progress_def)
    then show "in_progress C E W u0 candidates u' ap None (hop + 1) k2"
    proof (cases "cv_Status (chain_coverage k2) = CoverageComplete \<and> pendings_whole k2")
      case True
      note next_whole = resolve_next_whole [OF r True [THEN conjunct1]]
      with True have "pendings_whole k1" by (simp add: pendings_whole_def)
      from hop_kept_whole [OF I t next_whole [THEN conjunct2, THEN conjunct1] this] next_whole n \<open>0 \<le> hop\<close>
      show ?thesis
        using last_redirects [of "dials k1" loc E u'] unfolding in_progress_def fed_def
        by (auto simp: tried_def resolved_simps)
    qed (auto simp: in_progress_def)
  qed
  with assms(2,3) show ?thesis by (simp add: Q_def)
qed

section \<open>Complete coverage\<close>

lemma collection_complete:
  assumes "collectTargetCandidatesOccurrence C E W rawURL candidates oc = (out, err, k)"
    and "cv_Status (hx_Coverage out) = CoverageComplete"
  shows "err = None \<and> cv_ErrorCodes (hx_Coverage out) = [] \<and> cv_Omitted (hx_Coverage out) = 0 \<and> cv_Truncated (hx_Coverage out) = 0
    \<and> dials k \<noteq> [] \<and> (\<exists>h. snd (hop_of E h (last (dials k))) = ([], None))
    \<and> (\<forall>p \<in> set (ch_pending k). pr_err p = None \<and> (\<forall>a \<in> set (pr_addresses p). dd_Allowed (Check (unmap a) (pr_port p))))
    \<and> (\<exists>u. checked_target E rawURL = Inr u \<and> chain_whole C E W u candidates k)"
  using assms(1)
proof (cases rule: collection_cases)
  case (refused e)
  with assms(2) show ?thesis by (simp add: zero_result_def zero_coverage_def)
next
  case (ran u er)
  then have status: "cv_Status (fold (drain_pending E) (ch_pending k) (chain_coverage k)) = CoverageComplete" using assms(2) by simp
  with drain_all_keep [of "chain_coverage k" E "ch_pending k"] have calm:
    "cv_Status (chain_coverage k) = CoverageComplete" "cv_ErrorCodes (hx_Coverage out) = cv_ErrorCodes (chain_coverage k)"
    "cv_Omitted (hx_Coverage out) = cv_Omitted (chain_coverage k)" "cv_Truncated (hx_Coverage out) = cv_Truncated (chain_coverage k)"
    using ran by (auto simp: keeps_honest_def)
  moreover have pending: "\<forall>p \<in> set (ch_pending k). pr_err p = None \<and> (\<forall>a \<in> set (pr_addresses p). dd_Allowed (Check (unmap a) (pr_port p)))"
    by (rule degraded_stays [OF status])
  ultimately have "chain_whole C E W u candidates k"
    using hop_loop_whole [OF ran(5)] by (simp add: pendings_whole_def)
  with ran(1,2,4) pending calm show ?thesis by (auto simp: chain_end_def chain_ok_def)
qed

text \<open>C39: A collection that reports complete coverage has hidden nothing. It returns no error and lists no
  error code, omission or truncation. It accepted its URL and made requests; each of them got no response, so
  that the next address was tried, or was answered in full: its body was read to the end within the allowance
  and closed without an error. Every hop was answered in full by one of its requests. The requests of the first
  hop are for the given URL at given candidates. Those of a later hop follow the redirect of a full answer of
  the hop before; the resolution of their host ended without an error and dropped nothing, gave their address
  and only addresses that the policy allows. Every host that was resolved was also asked, and the last request
  was answered in full by a response that redirects nowhere further.\<close>

theorem http_coverage_honest:
  assumes "collectTargetCandidatesOccurrence C E W rawURL candidates oc = (out, err, k)"
    and "cv_Status (hx_Coverage out) = CoverageComplete"
  shows "err = None \<and> cv_ErrorCodes (hx_Coverage out) = [] \<and> cv_Omitted (hx_Coverage out) = 0 \<and> cv_Truncated (hx_Coverage out) = 0
    \<and> dials k \<noteq> [] \<and> (\<exists>h. snd (hop_of E h (last (dials k))) = ([], None))
    \<and> (\<forall>p \<in> set (ch_pending k). pr_err p = None \<and> (\<forall>a \<in> set (pr_addresses p). dd_Allowed (Check (unmap a) (pr_port p))))
    \<and> (\<exists>u. checked_target E rawURL = Inr u \<and> chain_whole C E W u candidates k)"
  by (rule collection_complete [OF assms])

theorem http_coverage_honest_witness:
  "\<exists>out err k u response. collectTargetCandidatesOccurrence page_collector page_env page_world ''a'' [V4 0x08080808] page_occurrence = (out, err, k)
     \<and> cv_ErrorCodes (hx_Coverage out) = [] \<and> length (dials k) = 1
     \<and> chain_whole page_collector page_env page_world u [V4 0x08080808] k \<and> answered_in_full (last (dials k)) response"
proof -
  from page_collected obtain out k where
    run: "collectTargetCandidatesOccurrence page_collector page_env page_world ''a'' [V4 0x08080808] page_occurrence = (out, None, k)"
      "cv_Status (hx_Coverage out) = CoverageComplete" "length (dials k) = 1" by blast
  note honest = http_coverage_honest [OF run(1,2)]
  then obtain u where u: "chain_whole page_collector page_env page_world u [V4 0x08080808] k" by blast
  then obtain response where "answered_in_full (last (dials k)) response" by (auto simp: chain_whole_def)
  with honest run u show ?thesis
    by (intro exI [of _ out] exI [of _ None] exI [of _ k] exI [of _ u] exI [of _ response]) blast
qed

end
