(* ===== verification/App_Redirect.thy ===== *)
theory App_Redirect
  imports Http_Collector Dns_Job
begin

text \<open>
  Package internal/app, redirect.go: the resolver of redirect targets, which asks the query cache of the
  analysis for both address families and publishes addresses as the answers arrive.

  The two answers come in either order; which addresses the budget reserves is part of the world.
\<close>

section \<open>Outcomes and scopes\<close>

definition redirectOutcome :: "dns_result \<Rightarrow> dns_outcome" where
  "redirectOutcome result =
     (if dr_Outcome result \<noteq> OutcomeUnset then dr_Outcome result
      else if dr_ResponseCode result = 0
      then (if dr_Addresses result \<noteq> [] \<or> dr_Records result \<noteq> [] then Answered else NoData)
      else if dr_ResponseCode result = 3 then NXDomain
      else if dr_ResponseCode result = 2 then SERVFAIL
      else if dr_ResponseCode result = 5 then Refused
      else OutcomeFailed)"

definition redirectOutcomeError :: "dns_result \<Rightarrow> go_error option" where
  "redirectOutcomeError result =
     (case redirectOutcome result of
        Answered \<Rightarrow> None | NoData \<Rightarrow> None | NXDomain \<Rightarrow> None
      | TimedOut \<Rightarrow> Some (NewError CodeTimeout ''redirect DNS query timed out'' None)
      | OutcomeCancelled \<Rightarrow> Some (NewError CodeCancelled ''redirect DNS query was cancelled'' None)
      | BudgetExhausted \<Rightarrow> Some (NewError CodeBudgetExceeded ''redirect DNS query budget exhausted'' None)
      | _ \<Rightarrow> Some (NewError CodeCollectionFailed ''redirect DNS query failed'' None))"

definition redirectDNSScope :: "string \<Rightarrow> string list \<Rightarrow> scope" where
  "redirectDNSScope hostname roots =
     (let hostname = trim_suffix (to_lower hostname) ''.'' in
      if hostname \<in> set roots then ScopeRoot
      else if list_ex (\<lambda>root. has_suffix hostname (''.'' @ root)) roots then ScopeSubdomain
      else ScopeExternalRedirect)"

section \<open>Observations of an answer\<close>

definition query_error_outcome :: "go_error \<Rightarrow> dns_outcome" where
  "query_error_outcome e =
     (if errors_is e DeadlineExceeded \<or> ErrorCodeOf (Some e) = CodeTimeout then TimedOut
      else if errors_is e ContextCanceled \<or> ErrorCodeOf (Some e) = CodeCancelled then OutcomeCancelled
      else if ErrorCodeOf (Some e) = CodeBudgetExceeded then BudgetExhausted
      else OutcomeFailed)"

definition redirectDNSObservations ::
    "dns_env \<Rightarrow> query_reply \<Rightarrow> string \<Rightarrow> int \<Rightarrow> occurrence \<Rightarrow> string list \<Rightarrow> observation list" where
  "redirectDNSObservations E reply hostname hop base roots =
     (let result = rp_Result reply;
          aaaa = (q_Type (dr_Question result) = typeAAAA);
          rrtype = (if aaaa then ''AAAA'' else ''A'');
          oc = base\<lparr>oc_Hop := hop, oc_RequestIndex := (if aaaa then 1 else 0)\<rparr>;
          outcome = (case rp_Err reply of None \<Rightarrow> redirectOutcome result | Some e \<Rightarrow> query_error_outcome e);
          query = \<lparr>ob_ID = ObservationID E ''redirect-dns-query'' oc [hostname, rrtype], ob_Type = ''dns_query'',
            ob_Subject = hostname, ob_Relation = [], ob_Scope = redirectDNSScope hostname roots, ob_ObservedAt = rp_ObservedAt reply,
            ob_CollectorVersion = [], ob_Status = outcome_string outcome,
            ob_Payload = de_marshal E (zero_payload\<lparr>dp_RRType := rrtype, dp_Owner := hostname, dp_Outcome := outcome,
              dp_ResponseCode := dr_ResponseCode result, dp_Resolver := dr_Resolver result, dp_Transport := dr_Transport result,
              dp_PolicyReason := (case rp_Err reply of None \<Rightarrow> [] | Some e \<Rightarrow> error_string e)\<rparr>),
            ob_ContentHash = []\<rparr>
      in if outcome \<noteq> Answered then [query]
         else query # map (\<lambda>(index, record).
                record\<lparr>ob_ID := ObservationID E ''redirect-dns-record'' (oc\<lparr>oc_ItemIndex := int index\<rparr>) [hostname, rrtype],
                       ob_ObservedAt := (if ob_ObservedAt record = 0 then rp_ObservedAt reply else ob_ObservedAt record),
                       ob_Scope := redirectDNSScope (ob_Subject record) roots\<rparr>)
              (enumerate 0 (dr_Records result)))"

section \<open>A resolution\<close>

record redirect_state =
  rs_retained :: "observation list"
  rs_failures :: "go_error list"
  rs_omitted :: int
  rs_published :: "addr list"
  rs_asked :: nat

definition reserve_redirect :: "(nat \<Rightarrow> bool) \<Rightarrow> addr \<Rightarrow> redirect_state \<Rightarrow> redirect_state" where
  "reserve_redirect reserve address s =
     (let s' = s\<lparr>rs_asked := Suc (rs_asked s)\<rparr> in
      if \<not> reserve (rs_asked s)
      then s'\<lparr>rs_failures := rs_failures s' @ [NewError CodeBudgetExceeded ''resolved address budget exhausted'' None],
              rs_omitted := rs_omitted s' + 1\<rparr>
      else s'\<lparr>rs_published := rs_published s' @ [unmap address]\<rparr>)"

definition redirect_answer ::
    "dns_env \<Rightarrow> occurrence \<Rightarrow> string list \<Rightarrow> string \<Rightarrow> int \<Rightarrow> (nat \<Rightarrow> bool) \<Rightarrow> query_reply \<Rightarrow> redirect_state \<Rightarrow> redirect_state" where
  "redirect_answer E occurrence roots hostname hop reserve reply s =
     (let result = rp_Result reply;
          s = s\<lparr>rs_retained := rs_retained s @ redirectDNSObservations E reply hostname hop occurrence roots\<rparr>;
          err = (case rp_Err reply of None \<Rightarrow> redirectOutcomeError result | Some e \<Rightarrow> Some e)
      in case err of
          Some e \<Rightarrow> s\<lparr>rs_failures := rs_failures s @ [e], rs_omitted := rs_omitted s + max (dr_Omitted result) 1\<rparr>
        | None \<Rightarrow>
            let s = (if dr_Omitted result > 0
                     then s\<lparr>rs_failures := rs_failures s @ [NewError CodeBudgetExceeded ''redirect DNS response was truncated'' None],
                            rs_omitted := rs_omitted s + dr_Omitted result\<rparr>
                     else s)
            in fold (reserve_redirect reserve) (dr_Addresses result) s)"

text \<open>\<open>errors.Join\<close> of a non-empty list; a join of one error has the codes and the text of that error.\<close>

fun join_errors :: "go_error list \<Rightarrow> go_error" where
  "join_errors [e] = e"
| "join_errors (e # es) = Joined e (join_errors es)"
| "join_errors [] = Errorf []"

definition redirect_error :: "redirect_state \<Rightarrow> resolve_error option" where
  "redirect_error s =
     (if rs_failures s = [] then None
      else if rs_published s = [] then Some (Unresolved (join_errors (rs_failures s)))
      else Some (PartialResolution (rs_omitted s) (join_errors (rs_failures s))))"

record redirect_world =
  rw_replies :: "query_reply \<times> query_reply"
  rw_reserve :: "nat \<Rightarrow> bool"
  rw_room :: "nat \<Rightarrow> bool"

definition redirectResolver ::
    "dns_env \<Rightarrow> occurrence \<Rightarrow> string list \<Rightarrow> redirect_world \<Rightarrow> string \<Rightarrow> int \<Rightarrow> redirect_state" where
  "redirectResolver E occurrence roots W hostname hop =
     (let answer = redirect_answer E occurrence roots hostname hop (rw_reserve W)
      in answer (snd (rw_replies W)) (answer (fst (rw_replies W))
           \<lparr>rs_retained = [], rs_failures = [], rs_omitted = 0, rs_published = [], rs_asked = 0\<rparr>))"

text \<open>A buffered channel takes an address while it has room, which it has as long as fewer addresses than its
  capacity were sent; afterwards it depends on the receiver.\<close>

fun deliver :: "(nat \<Rightarrow> bool) \<Rightarrow> nat \<Rightarrow> nat \<Rightarrow> nat \<Rightarrow> addr list \<Rightarrow> addr list \<times> int" where
  "deliver room capacity sent i [] = ([], 0)"
| "deliver room capacity sent i (a # as) =
     (if sent < capacity \<or> room i
      then (case deliver room capacity (Suc sent) (Suc i) as of (taken, dropped) \<Rightarrow> (a # taken, dropped))
      else (case deliver room capacity sent (Suc i) as of (taken, dropped) \<Rightarrow> (taken, dropped + 1)))"

definition redirect_stream :: "nat \<Rightarrow> redirect_world \<Rightarrow> redirect_state \<Rightarrow> streamed" where
  "redirect_stream capacity W s =
     (case deliver (rw_room W) capacity 0 0 (rs_published s) of
        (taken, dropped) \<Rightarrow> \<lparr>st_addresses = taken, st_dropped = dropped, st_err = redirect_error s\<rparr>)"

section \<open>Properties\<close>

lemma redirect_scope_iff:
  "redirectDNSScope hostname roots \<noteq> ScopeExternalRedirect \<longleftrightarrow> withinAnyScope (trim_suffix (to_lower hostname) ''.'') roots"
  by (auto simp: redirectDNSScope_def withinAnyScope_def Let_def list_ex_iff)

lemma deliver_all:
  "deliver room capacity sent i as = (taken, dropped) \<Longrightarrow> set taken \<subseteq> set as \<and> int (length taken) + dropped = int (length as)
     \<and> 0 \<le> dropped \<and> (sent + length as \<le> capacity \<longrightarrow> taken = as)"
  by (induction room capacity sent i as arbitrary: taken dropped rule: deliver.induct) (fastforce split: if_splits prod.splits)+

definition settled_reply :: "query_reply \<Rightarrow> bool" where
  "settled_reply reply \<longleftrightarrow> rp_Err reply = None \<and> redirectOutcomeError (rp_Result reply) = None"

abbreviation (input) settled_addresses :: "query_reply \<Rightarrow> addr list" where
  "settled_addresses reply \<equiv> (if settled_reply reply then dr_Addresses (rp_Result reply) else [])"

text \<open>The addresses reserved when the first is the \<open>n\<close>th to be asked for.\<close>

definition reserved_from :: "(nat \<Rightarrow> bool) \<Rightarrow> nat \<Rightarrow> addr list \<Rightarrow> addr list" where
  "reserved_from reserve n as = map (unmap \<circ> snd) (filter (\<lambda>(i, a). reserve i) (enumerate n as))"

lemma reserved_from_Cons: "reserved_from reserve n (a # as) = (if reserve n then [unmap a] else []) @ reserved_from reserve (Suc n) as"
  by (simp add: reserved_from_def)

lemma reserved_from_append: "reserved_from reserve n (as @ bs) = reserved_from reserve n as @ reserved_from reserve (n + length as) bs"
  by (induction as arbitrary: n) (simp_all add: reserved_from_Cons, simp add: reserved_from_def)

definition refused_from :: "(nat \<Rightarrow> bool) \<Rightarrow> nat \<Rightarrow> addr list \<Rightarrow> nat" where
  "refused_from reserve n as = length (filter (\<lambda>(i, a). \<not> reserve i) (enumerate n as))"

lemma reserve_all:
  "fold (reserve_redirect reserve) as s = s' \<Longrightarrow>
     rs_published s' = rs_published s @ reserved_from reserve (rs_asked s) as \<and> rs_asked s' = rs_asked s + length as
     \<and> rs_retained s' = rs_retained s
     \<and> (rs_failures s' = [] \<longleftrightarrow> rs_failures s = [] \<and> refused_from reserve (rs_asked s) as = 0)
     \<and> rs_omitted s' = rs_omitted s + int (refused_from reserve (rs_asked s) as)"
proof (induction as arbitrary: s)
  case (Cons a as)
  from Cons.IH [of "reserve_redirect reserve a s"] Cons.prems show ?case
    by (auto simp: reserve_redirect_def Let_def reserved_from_Cons refused_from_def)
qed (simp add: reserved_from_def refused_from_def)

text \<open>What one answer leaves out.\<close>

definition left_out :: "(nat \<Rightarrow> bool) \<Rightarrow> nat \<Rightarrow> query_reply \<Rightarrow> int" where
  "left_out reserve n reply =
     (if settled_reply reply
      then max (dr_Omitted (rp_Result reply)) 0 + int (refused_from reserve n (dr_Addresses (rp_Result reply)))
      else max (dr_Omitted (rp_Result reply)) 1)"

lemma redirect_answer_exact:
  assumes "redirect_answer E oc roots h hop reserve reply s = s'"
  shows "rs_published s' = rs_published s @ reserved_from reserve (rs_asked s) (settled_addresses reply)
    \<and> rs_asked s' = rs_asked s + length (settled_addresses reply)
    \<and> rs_retained s' = rs_retained s @ redirectDNSObservations E reply h hop oc roots
    \<and> (rs_failures s' = [] \<longleftrightarrow> rs_failures s = [] \<and> left_out reserve (rs_asked s) reply = 0)
    \<and> rs_omitted s' = rs_omitted s + left_out reserve (rs_asked s) reply"
proof (cases "settled_reply reply")
  case True
  then have ok: "rp_Err reply = None" "redirectOutcomeError (rp_Result reply) = None" by (simp_all add: settled_reply_def)
  define s0 where "s0 = s\<lparr>rs_retained := rs_retained s @ redirectDNSObservations E reply h hop oc roots\<rparr>"
  define s1 where "s1 = (if dr_Omitted (rp_Result reply) > 0
     then s0\<lparr>rs_failures := rs_failures s0 @ [NewError CodeBudgetExceeded ''redirect DNS response was truncated'' None],
             rs_omitted := rs_omitted s0 + dr_Omitted (rp_Result reply)\<rparr> else s0)"
  have "fold (reserve_redirect reserve) (dr_Addresses (rp_Result reply)) s1 = s'"
    using assms ok by (simp add: redirect_answer_def s1_def s0_def Let_def split: if_splits)
  from reserve_all [OF this] True show ?thesis by (auto simp: s1_def s0_def left_out_def)
next
  case False
  then obtain e where "(case rp_Err reply of None \<Rightarrow> redirectOutcomeError (rp_Result reply) | Some e \<Rightarrow> Some e) = Some e"
    by (cases "rp_Err reply") (auto simp: settled_reply_def)
  with assms False show ?thesis
    by (auto simp: redirect_answer_def Let_def left_out_def reserved_from_def)
qed

text \<open>The resolution of a redirect target publishes exactly the addresses of the answers that settled
  their question and that the budget reserved, in the order of arrival and read as IPv4 where they are
  IPv4-mapped. It returns no error exactly when both answers settled and nothing was left out;
  otherwise the error is a partial resolution that counts everything left out if an address was
  published, and a plain failure if none was. What it retains are the observations of both answers.\<close>

lemma redirect_resolution_exact:
  fixes W :: redirect_world and E :: dns_env and oc :: occurrence and roots :: "string list" and hostname :: string and hop :: int
  defines "earlier \<equiv> fst (rw_replies W)" and "later \<equiv> snd (rw_replies W)"
  defines "s \<equiv> redirectResolver E oc roots W hostname hop"
    and "found \<equiv> reserved_from (rw_reserve W) 0 (settled_addresses earlier @ settled_addresses later)"
    and "lost \<equiv> left_out (rw_reserve W) 0 earlier + left_out (rw_reserve W) (length (settled_addresses earlier)) later"
  shows "rs_published s = found
    \<and> (case redirect_error s of
         None \<Rightarrow> lost = 0
       | Some (PartialResolution n e) \<Rightarrow> found \<noteq> [] \<and> n = lost \<and> 0 < lost
       | Some e \<Rightarrow> found = [] \<and> 0 < lost)
    \<and> rs_retained s = redirectDNSObservations E earlier hostname hop oc roots @ redirectDNSObservations E later hostname hop oc roots"
proof -
  define s0 where "s0 = \<lparr>rs_retained = [], rs_failures = [], rs_omitted = 0, rs_published = [], rs_asked = 0\<rparr>"
  define s1 where "s1 = redirect_answer E oc roots hostname hop (rw_reserve W) earlier s0"
  have s: "redirect_answer E oc roots hostname hop (rw_reserve W) later s1 = s"
    by (simp add: s_def redirectResolver_def s1_def s0_def earlier_def later_def Let_def)
  note a = redirect_answer_exact [OF s1_def [symmetric]] and b = redirect_answer_exact [OF s]
  have pos: "0 \<le> left_out (rw_reserve W) n reply" for n reply by (simp add: left_out_def le_max_iff_disj)
  have "rs_published s = found" "rs_omitted s = lost"
    using a b by (simp_all add: s0_def found_def lost_def reserved_from_append)
  moreover have "rs_failures s = [] \<longleftrightarrow> lost = 0"
    using a b pos [of 0 earlier] pos [of "length (settled_addresses earlier)" later] by (auto simp: s0_def lost_def)
  moreover have "0 \<le> lost" using pos [of 0 earlier] pos [of "length (settled_addresses earlier)" later] by (simp add: lost_def)
  moreover have "rs_retained s = redirectDNSObservations E earlier hostname hop oc roots @ redirectDNSObservations E later hostname hop oc roots"
    using a b by (simp add: s0_def)
  ultimately show ?thesis by (simp add: redirect_error_def)
qed

end
