(* ===== verification/App_Base.thy ===== *)
theory App_Base
  imports Http_Collector Ctlog Aggregate
begin

text \<open>
  Package internal/app, service.go and contracts.go: the service and its readers, the seeds of a request and
  their URLs, the coverage of TLS and scripts, technologies and the status of a report.

  The readers, detectors and stores behind the interfaces of contracts.go are functions: of the context where the code
  passes one, and already applied to the view of the service. The JSON codecs are the fields of \<open>app_env\<close>.
\<close>

section \<open>The service\<close>

record technology_detection =
  td_Name :: string
  td_DetectorID :: string
  td_ExplanationGranularity :: string

text \<open>An address and the observations that found it for a subject and a scope.\<close>

record address_input =
  in_subject :: string
  in_scope :: scope
  in_address :: addr
  in_observationIDs :: "string list"

record app_env =
  ae_http :: http_env
  ae_unmarshal_http :: "json_value \<Rightarrow> http_payload option"
  ae_unmarshal_tls :: "json_value \<Rightarrow> tls_payload option"
  ae_unmarshal_technology :: "json_value \<Rightarrow> technology_payload option"
  ae_marshal_technology :: "technology_payload \<Rightarrow> go_error + json_value"
  ae_marshal_association :: "association \<Rightarrow> go_error + json_value"
  ae_marshal_asn :: "asn_record \<Rightarrow> go_error + json_value"
  ae_marshal_candidate :: "ct_candidate \<Rightarrow> go_error + json_value"
  ae_content :: content_env
  ae_group_order :: "groups \<Rightarrow> groups"
  ae_id_order :: map_order
  ae_provenance_order :: map_order
  ae_provenance_group :: "json_value \<Rightarrow> string option"
  ae_input_order :: "(string \<times> address_input) list \<Rightarrow> (string \<times> address_input) list"

abbreviation ae_dns :: "app_env \<Rightarrow> dns_env" where
  "ae_dns E \<equiv> he_dns (ae_http E)"

text \<open>\<open>hex.EncodeToString(sum[:12])\<close>, from the digest in hexadecimal.\<close>

definition digest12 :: "app_env \<Rightarrow> string \<Rightarrow> string" where
  "digest12 E s = take 24 (he_sha256 (ae_http E) s)"

text \<open>\<open>aggregate.Build\<close> with SHA-256 and with the iteration orders of the maps.\<close>

definition findings_of :: "app_env \<Rightarrow> evidence list \<Rightarrow> finding list" where
  "findings_of E = Build (digest12 E) (ae_group_order E) (ae_id_order E) (ae_provenance_order E) (ae_provenance_group E)"

type_synonym prefix_reader = "go_error option \<Rightarrow> ip_lookup_request \<Rightarrow> association list \<times> coverage \<times> go_error option"
type_synonym asn_reader = "go_error option \<Rightarrow> addr \<Rightarrow> asn_record list \<times> coverage \<times> go_error option"
type_synonym ct_reader = "go_error option \<Rightarrow> string \<Rightarrow> int \<Rightarrow> go_error + query_result"
type_synonym detector = "(nat \<Rightarrow> go_error option) \<Rightarrow> observation list \<Rightarrow> evidence list \<times> coverage list"
type_synonym web_detector = "go_error option \<Rightarrow> (string \<times> string list) list \<Rightarrow> string \<Rightarrow> technology_detection list \<times> coverage"

record dependencies =
  de_DNS :: "limits option"
  de_HTTP :: "http_collector option"
  de_Detectors :: "detector list"
  de_WebDetector :: "web_detector option"
  de_Prefixes :: "prefix_reader option"
  de_ASN :: "asn_reader option"
  de_Store :: "(nat \<Rightarrow> string \<Rightarrow> go_error + report) option"
  de_CT :: "ct_reader option"
  de_CTEnabled :: bool
  de_CTMaximumSeed :: int
  de_View :: attribution_view
  de_BuildProvenance :: build_provenance
  de_RulesDigest :: provenance_value
  de_FingerprintDigest :: provenance_value
  de_ObservationContextID :: string
  de_HTTPScheme :: string
  de_TargetTimeout :: duration
  de_Limits :: limits

record service =
  sv_dns :: "limits option"
  sv_http :: "http_collector option"
  sv_detectors :: "detector list"
  sv_webDetector :: "web_detector option"
  sv_prefixes :: "prefix_reader option"
  sv_asn :: "asn_reader option"
  sv_store :: "(nat \<Rightarrow> string \<Rightarrow> go_error + report) option"
  sv_ct :: "ct_reader option"
  sv_ctEnabled :: bool
  sv_ctMaximumSeed :: int
  sv_view :: attribution_view
  sv_buildProvenance :: build_provenance
  sv_rulesDigest :: provenance_value
  sv_fingerprintDigest :: provenance_value
  sv_observationContextID :: string
  sv_httpScheme :: string
  sv_targetTimeout :: duration
  sv_limits :: limits

text \<open>The clock and the controller are part of the world of a call.\<close>

definition NewService :: "dependencies \<Rightarrow> service" where
  "NewService d =
     \<lparr>sv_dns = de_DNS d, sv_http = de_HTTP d, sv_detectors = de_Detectors d, sv_webDetector = de_WebDetector d,
      sv_prefixes = de_Prefixes d, sv_asn = de_ASN d, sv_store = de_Store d, sv_ct = de_CT d, sv_ctEnabled = de_CTEnabled d,
      sv_ctMaximumSeed = de_CTMaximumSeed d, sv_view = de_View d, sv_buildProvenance = bp_Explicit (de_BuildProvenance d),
      sv_rulesDigest = pv_Explicit (de_RulesDigest d), sv_fingerprintDigest = pv_Explicit (de_FingerprintDigest d),
      sv_observationContextID = de_ObservationContextID d,
      sv_httpScheme = (if de_HTTPScheme d = [] then ''https'' else de_HTTPScheme d),
      sv_targetTimeout = de_TargetTimeout d, sv_limits = de_Limits d\<rparr>"

definition seedLimit :: "service \<Rightarrow> int" where
  "seedLimit s = (if li_SeedHostnames (sv_limits s) > 0 then li_SeedHostnames (sv_limits s) else li_SeedHostnames DefaultLimits)"

definition addressLimit :: "service \<Rightarrow> int" where
  "addressLimit s =
     (if li_ResolvedAddresses (sv_limits s) > 0 then li_ResolvedAddresses (sv_limits s) else li_ResolvedAddresses DefaultLimits)"

definition prefixAssociationLimit :: "service \<Rightarrow> int" where
  "prefixAssociationLimit s =
     (if li_PrefixAssociations (sv_limits s) > 0 then li_PrefixAssociations (sv_limits s) else li_PrefixAssociations DefaultLimits)"

section \<open>Seeds\<close>

definition boundedSeeds :: "http_env \<Rightarrow> normalized_request \<Rightarrow> int \<Rightarrow> string list" where
  "boundedSeeds E request limit =
     (let canonical = tg_Canonical (nr_Target request);
          primary = (if tg_Kind (nr_Target request) = TargetURL
                     then (case he_url_Parse E canonical of Inl _ \<Rightarrow> canonical | Inr parsed \<Rightarrow> u_Hostname parsed)
                     else canonical);
          result = (if primary \<in> set (nr_SeedHostnames request) then [primary] else []);
          others = filter (\<lambda>seed. seed \<noteq> primary) (nr_SeedHostnames request)
      in result @ take (nat limit - length result) others)"

definition seedURL :: "http_env \<Rightarrow> normalized_request \<Rightarrow> string \<Rightarrow> string \<Rightarrow> string" where
  "seedURL E request hostname fallbackScheme =
     (let fallback = fallbackScheme @ ''://'' @ hostname @ ''/''
      in if tg_Kind (nr_Target request) \<noteq> TargetURL then fallback
         else case he_url_Parse E (tg_Canonical (nr_Target request)) of
             Inl _ \<Rightarrow> fallback
           | Inr parsed \<Rightarrow> if u_Hostname parsed = hostname then he_url_String E parsed else fallback)"

definition seedPort :: "http_env \<Rightarrow> normalized_request \<Rightarrow> string \<Rightarrow> string \<Rightarrow> nat" where
  "seedPort E request hostname fallbackScheme =
     (case he_url_Parse E (seedURL E request hostname fallbackScheme) of
        Inl _ \<Rightarrow> 443
      | Inr parsed \<Rightarrow>
          if u_Port parsed = ''80'' then 80
          else if u_Port parsed = ''443'' then 443
          else if u_Scheme parsed = ''http'' then 80
          else 443)"

definition scopeForSeed :: "string \<Rightarrow> string list \<Rightarrow> scope" where
  "scopeForSeed hostname roots = (if hostname \<in> set roots then ScopeRoot else ScopeSubdomain)"

section \<open>TLS and script coverage\<close>

definition tls_observed :: "app_env \<Rightarrow> observation \<Rightarrow> coverage \<Rightarrow> coverage" where
  "tls_observed E ob c =
     (if ob_Type ob \<noteq> ''tls_certificate'' then c
      else
        let c = c\<lparr>cv_Attempted := cv_Attempted c + 1\<rparr>;
            failed = c\<lparr>cv_Status := CoveragePartial, cv_ErrorCodes := cv_ErrorCodes c @ [CodeCollectionFailed]\<rparr>
        in case ae_unmarshal_tls E (ob_Payload ob) of
            None \<Rightarrow> failed
          | Some payload \<Rightarrow>
              if ob_Status ob \<noteq> ''verified'' \<or> \<not> tc_Verified payload \<or> tc_FingerprintSHA256 payload = [] then failed
              else
                let c = c\<lparr>cv_Completed := cv_Completed c + 1\<rparr>
                in if tc_NamesOmitted payload > 0 \<or> tc_FieldsTruncated payload > 0
                   then c\<lparr>cv_Status := CoveragePartial,
                          cv_Omitted := cv_Omitted c + (tc_NamesOmitted payload + tc_FieldsTruncated payload),
                          cv_Truncated := cv_Truncated c + 1\<rparr>
                   else c)"

definition tlsObservationCoverage :: "app_env \<Rightarrow> string \<Rightarrow> observation list \<Rightarrow> bool \<Rightarrow> coverage" where
  "tlsObservationCoverage E capability observations attempted =
     (let c = fold (tls_observed E) observations (zero_coverage\<lparr>cv_Capability := capability, cv_Status := CoverageComplete\<rparr>)
      in if cv_Attempted c = 0
         then c\<lparr>cv_Status := CoverageUnavailable, cv_Reason := ''no retained TLS handshake evidence'',
                cv_Attempted := (if attempted then 1 else 0)\<rparr>
         else if cv_Status c = CoveragePartial
         then c\<lparr>cv_Reason := ''one or more TLS handshakes failed or certificate fields were omitted''\<rparr>
         else c)"

definition https_url :: "http_env \<Rightarrow> string \<Rightarrow> bool" where
  "https_url E raw = (case he_url_Parse E raw of Inl _ \<Rightarrow> False | Inr parsed \<Rightarrow> equal_fold (u_Scheme parsed) ''https'')"

definition tlsCertificateCoverage ::
    "app_env \<Rightarrow> normalized_request \<Rightarrow> observation list \<Rightarrow> string \<Rightarrow> bool \<Rightarrow> coverage" where
  "tlsCertificateCoverage E request observations fallbackScheme tlsAttempted =
     (let c = zero_coverage\<lparr>cv_Capability := ''tls_certificate''\<rparr> in
      if nr_Mode request = ModeDNS then c\<lparr>cv_Status := CoverageSkipped, cv_Reason := ''DNS-only mode''\<rparr>
      else if \<not> (tlsAttempted
            \<or> list_ex (\<lambda>hostname. https_url (ae_http E) (seedURL (ae_http E) request hostname fallbackScheme)) (nr_SeedHostnames request)
            \<or> list_ex (\<lambda>ob. ob_Type ob = ''http_response''
                  \<and> (case ae_unmarshal_http E (ob_Payload ob) of None \<Rightarrow> False | Some payload \<Rightarrow> https_url (ae_http E) (hp_URL payload)))
                observations)
      then c\<lparr>cv_Status := CoverageSkipped, cv_Reason := ''plain HTTP has no TLS session''\<rparr>
      else tlsObservationCoverage E ''tls_certificate'' observations tlsAttempted)"

definition replayTLSCertificateCoverage :: "app_env \<Rightarrow> report \<Rightarrow> observation list \<Rightarrow> coverage" where
  "replayTLSCertificateCoverage E original observations =
     (let skipped = (\<lambda>why. zero_coverage\<lparr>cv_Capability := ''replay_tls_certificate'', cv_Status := CoverageSkipped, cv_Reason := why\<rparr>)
      in case find (\<lambda>item. cv_Capability item = ''tls_certificate'' \<and> cv_Status item = CoverageSkipped) (re_Coverage original) of
          Some item \<Rightarrow> skipped (cv_Reason item)
        | None \<Rightarrow>
            if re_Mode original = ModeDNS then skipped ''DNS-only mode''
            else if tg_Kind (re_Target original) = TargetURL \<and> has_prefix (tg_Canonical (re_Target original)) ''http://''
              \<and> \<not> (list_ex (\<lambda>item. cv_Capability item = ''tls_certificate'' \<and> cv_Status item \<noteq> CoverageSkipped) (re_Coverage original)
                 \<or> list_ex (\<lambda>ob. ob_Type ob = ''tls_certificate'' \<or> ob_Type ob = ''http_response''
                      \<and> (case ae_unmarshal_http E (ob_Payload ob) of None \<Rightarrow> False | Some payload \<Rightarrow> has_prefix (hp_URL payload) ''https://''))
                   observations)
            then skipped ''plain HTTP had no retained TLS session''
            else tlsObservationCoverage E ''replay_tls_certificate'' observations False)"

definition replay_script_coverage :: "http_payload option \<Rightarrow> coverage" where
  "replay_script_coverage decoded =
     (let item = zero_coverage\<lparr>cv_Capability := ''replay_script_signals'', cv_Status := CoverageComplete, cv_Attempted := 1,
                   cv_Completed := 1\<rparr>;
          unknown = item\<lparr>cv_Status := CoverageUnavailable,
                   cv_Reason := ''retained response does not identify script scan completeness''\<rparr>
      in case decoded of
          None \<Rightarrow> unknown
        | Some payload \<Rightarrow>
            (case hp_ScriptScanComplete payload of
               None \<Rightarrow> unknown
             | Some True \<Rightarrow> item
             | Some False \<Rightarrow>
                 let item = item\<lparr>cv_Status := CoveragePartial, cv_Omitted := hp_ScriptURLsOmitted payload\<rparr>
                 in if hp_BodyTruncated payload \<or> hp_BodyReadFailed payload
                    then item\<lparr>cv_Truncated := 1, cv_Omitted := cv_Omitted item + 1,
                           cv_Reason := ''body collection ended before all script signals could be examined''\<rparr>
                    else item\<lparr>cv_Reason := ''unique script signal limit reached''\<rparr>))"

definition replayScriptSignalCoverage :: "app_env \<Rightarrow> observation list \<Rightarrow> coverage list" where
  "replayScriptSignalCoverage E observations =
     map (\<lambda>ob. replay_script_coverage (ae_unmarshal_http E (ob_Payload ob)))
       (filter (\<lambda>ob. ob_Type ob = ''http_response'') observations)"

section \<open>Technologies\<close>

definition technologyObservation :: "app_env \<Rightarrow> technology_detection \<Rightarrow> observation \<Rightarrow> observation option" where
  "technologyObservation E detection source =
     (if td_Name detection = [] \<or> td_DetectorID detection = [] then None
      else case ae_marshal_technology E
             \<lparr>tp_Name = td_Name detection, tp_DetectorID = td_DetectorID detection,
              tp_ExplanationGranularity = (if td_ExplanationGranularity detection = [] then ''detector_result''
                                           else td_ExplanationGranularity detection)\<rparr> of
          Inl _ \<Rightarrow> None
        | Inr payload \<Rightarrow>
            Some \<lparr>ob_ID = ''technology-'' @ digest12 E (td_DetectorID detection @ [CHR 0x00] @ ob_ID source @ [CHR 0x00] @ td_Name detection),
              ob_Type = ''technology'', ob_Subject = ob_Subject source, ob_Relation = RelationWebIntegration,
              ob_Scope = ob_Scope source, ob_ObservedAt = ob_ObservedAt source, ob_CollectorVersion = td_DetectorID detection,
              ob_Status = ''detected'', ob_Payload = payload, ob_ContentHash = []\<rparr>)"

definition evidenceReferences :: "string \<Rightarrow> evidence list \<Rightarrow> bool" where
  "evidenceReferences observationID evidence = list_ex (\<lambda>item. observationID \<in> set (ev_ObservationIDs item)) evidence"

text \<open>A name is valid UTF-8; a rune that is no ASCII letter or digit becomes one hyphen. (The code also
  lowers the two other runes that have an ASCII lower case.)\<close>

definition technology_char :: "char \<Rightarrow> string" where
  "technology_char c =
     (if is_lower_letter c \<or> is_digit c then [c] else if byte_in 0x80 0xBF c then [] else ''-'')"

definition normalizeTechnologyID :: "string \<Rightarrow> string" where
  "normalizeTechnologyID value = trim_right CHR ''-'' (trim_left CHR ''-'' (concat (map technology_char (to_lower value))))"

definition technology_evidence :: "app_env \<Rightarrow> gotime \<Rightarrow> observation \<Rightarrow> technology_payload \<Rightarrow> evidence" where
  "technology_evidence E classifiedAt ob payload =
     \<lparr>ev_ID = ''evidence-technology-'' @ digest12 E (''technology-taxonomy-v1'' @ [CHR 0x00] @ ob_ID ob @ [CHR 0x00] @ tp_Name payload),
      ev_ObservationIDs = [ob_ID ob], ev_DatasetRecords = [], ev_ClassifiedAt = classifiedAt,
      ev_DetectorID = (if tp_DetectorID payload = [] then ob_CollectorVersion ob else tp_DetectorID payload), ev_RuleID = [],
      ev_Subject = ob_Subject ob, ev_ProviderID = [], ev_ProductID = ''webtech.'' @ normalizeTechnologyID (tp_Name payload),
      ev_Category = ''web_technology'', ev_Relation = RelationWebIntegration, ev_Strength = StrengthModerate,
      ev_Activity = ActivityResponding, ev_Scope = ob_Scope ob,
      ev_Explanation = ''passive detector result: '' @ tp_Name payload\<rparr>"

definition unmapped_technology :: "app_env \<Rightarrow> evidence list \<Rightarrow> gotime \<Rightarrow> observation \<Rightarrow> evidence list" where
  "unmapped_technology E existing classifiedAt ob =
     (if ob_Type ob \<noteq> ''technology'' \<or> evidenceReferences (ob_ID ob) existing then []
      else case ae_unmarshal_technology E (ob_Payload ob) of
          None \<Rightarrow> []
        | Some payload \<Rightarrow> if tp_Name payload = [] then [] else [technology_evidence E classifiedAt ob payload])"

definition classifyUnmappedTechnology ::
    "app_env \<Rightarrow> observation list \<Rightarrow> evidence list \<Rightarrow> gotime \<Rightarrow> evidence list \<times> coverage option" where
  "classifyUnmappedTechnology E observations existing classifiedAt =
     (let evidence = concat (map (unmapped_technology E existing classifiedAt) observations)
      in (evidence,
          if evidence = [] then None
          else Some (zero_coverage\<lparr>cv_Capability := ''technology_taxonomy'', cv_Status := CoverageComplete,
                 cv_Attempted := int (length evidence), cv_Completed := int (length evidence)\<rparr>)))"

section \<open>Status, provenance and targets of reports\<close>

definition useful_observation :: "observation \<Rightarrow> bool" where
  "useful_observation ob =
     (ob_Status ob = outcome_string Answered \<or> ob_Status ob = outcome_string NoData \<or> ob_Status ob = outcome_string NXDomain
      \<or> ob_Status ob = ''responded'' \<or> ob_Status ob = ''policy_blocked'')"

definition incomplete_coverage :: "coverage \<Rightarrow> bool" where
  "incomplete_coverage item = (cv_Status item = CoveragePartial \<or> cv_Status item = CoverageUnavailable)"

definition reportStatus :: "go_error option \<Rightarrow> observation list \<Rightarrow> coverage list \<Rightarrow> report_status" where
  "reportStatus ctx observations coverage =
     (if (case ctx of None \<Rightarrow> False | Some e \<Rightarrow> errors_is e ContextCanceled) then StatusCancelled
      else
        let useful = list_ex useful_observation observations; partial = list_ex incomplete_coverage coverage
        in if \<not> useful \<and> partial then StatusFailed
           else if partial then StatusPartial
           else StatusComplete)"

definition liveProvenance :: "service \<Rightarrow> report_provenance" where
  "liveProvenance s =
     (let provenance = ExplicitReportProvenance (sv_buildProvenance s) (KnownProvenance (av_policyVersion (sv_view s)))
            (sv_fingerprintDigest s) (sv_rulesDigest s)
      in if sv_observationContextID s = [] then provenance
         else provenance\<lparr>rp_Collection :=
           (rp_Collection provenance)\<lparr>cp_ObservationContext := Some (KnownProvenance (sv_observationContextID s))\<rparr>\<rparr>)"

definition reclassificationProvenance :: "service \<Rightarrow> report \<Rightarrow> report_provenance" where
  "reclassificationProvenance s original =
     \<lparr>rp_Collection = (case re_Provenance original of None \<Rightarrow> UnknownCollectionProvenance | Some p \<Rightarrow> rp_Collection p),
      rp_Classification = \<lparr>lp_Build = bp_Explicit (sv_buildProvenance s), lp_RulesDigest = pv_Explicit (sv_rulesDigest s)\<rparr>\<rparr>"

definition validateHistoricalReportTarget :: "report \<Rightarrow> go_error option" where
  "validateHistoricalReportTarget r =
     (let check = (\<lambda>value. ValidatePersistentInput (zero_analyze_request\<lparr>ar_Target := value, ar_Kind := tg_Kind (re_Target r)\<rparr>))
      in case check (tg_Original (re_Target r)) of
          Some e \<Rightarrow> Some e
        | None \<Rightarrow> check (tg_Canonical (re_Target r)))"

end
