(* ===== verification/App_Enrich.thy ===== *)
theory App_Enrich
  imports App_Base Prefix_Index Asn
begin

text \<open>
  Package internal/app, service.go: the addresses of the observations, their enrichment with prefix associations and ASN
  records, the coverage and usability of the sources, and the lookup of one address.

  The lookups of a run are numbered; \<open>ctx\<close> is the context each of them sees.
\<close>

section \<open>Addresses\<close>

definition observed_address :: "app_env \<Rightarrow> observation \<Rightarrow> addr" where
  "observed_address E ob =
     (if ob_Type ob = ''dns_address''
      then (case de_unmarshal (ae_dns E) (ob_Payload ob) of None \<Rightarrow> NoAddr | Some payload \<Rightarrow> dp_Address payload)
      else if ob_Type ob = ''http_response''
      then (case ae_unmarshal_http E (ob_Payload ob) of None \<Rightarrow> NoAddr | Some payload \<Rightarrow> hp_PeerAddress payload)
      else NoAddr)"

definition input_key :: "string \<Rightarrow> scope \<Rightarrow> addr \<Rightarrow> string" where
  "input_key subject scope address = join [CHR 0x00] [subject, scope, addr_string address]"

definition note_input ::
    "app_env \<Rightarrow> observation \<Rightarrow> (string \<times> address_input) list \<Rightarrow> (string \<times> address_input) list" where
  "note_input E ob byKey =
     (let address = unmap (observed_address E ob); key = input_key (ob_Subject ob) (ob_Scope ob) address in
      if \<not> addr_valid address then byKey
      else
        let input = (case map_of byKey key of Some input \<Rightarrow> input
               | None \<Rightarrow> \<lparr>in_subject = ob_Subject ob, in_scope = ob_Scope ob, in_address = address, in_observationIDs = []\<rparr>);
            input = (if ob_ID ob \<in> set (in_observationIDs input) then input
                     else input\<lparr>in_observationIDs := in_observationIDs input @ [ob_ID ob]\<rparr>)
        in AList.update key input byKey)"

definition sorted_ids :: "address_input \<Rightarrow> address_input" where
  "sorted_ids input = input\<lparr>in_observationIDs := sort (in_observationIDs input)\<rparr>"

definition addressInputs :: "app_env \<Rightarrow> observation list \<Rightarrow> address_input list" where
  "addressInputs E observations =
     sort_key (\<lambda>input. input_key (in_subject input) (in_scope input) (in_address input))
       (map (sorted_ids \<circ> snd) (ae_input_order E (fold (note_input E) observations [])))"

section \<open>Sources\<close>

definition sourceCoverage :: "service \<Rightarrow> addr list \<Rightarrow> gotime \<Rightarrow> coverage list" where
  "sourceCoverage s addresses classifiedAt =
     (let wantV4 = list_ex (\<lambda>a. is4 (unmap a)) addresses;
          wantV6 = list_ex (\<lambda>a. is6 a \<and> is6 (unmap a)) addresses
      in map (\<lambda>c. zero_coverage\<lparr>cv_Capability := cs_Name c, cv_Status := cs_Status c, cv_Reason := cs_Reason c,
               cv_DataAgeSeconds := map_option (\<lambda>age. sgn age * (\<bar>age\<bar> div second)) (cs_SourceAge c)\<rparr>)
           (filter (\<lambda>c. if cs_Name c = ''asn_source/ipv6'' then wantV6
                        else if cs_Name c = ''asn_source/ipv4'' then wantV4
                        else has_prefix (cs_Name c) ''prefix_source/'')
             (CapabilitiesAt (sv_view s) classifiedAt)))"

definition usable_capability :: "capability_state \<Rightarrow> bool" where
  "usable_capability c = (cs_Status c = CoverageComplete \<or> cs_Status c = CoveragePartial)"

definition sourceCapabilityUsable :: "service \<Rightarrow> string \<Rightarrow> bool" where
  "sourceCapabilityUsable s name =
     (let matching = filter (\<lambda>c. cs_Name c = name) (Capabilities (sv_view s))
      in matching = [] \<or> list_ex usable_capability matching)"

definition sourceGroupUsable :: "service \<Rightarrow> string \<Rightarrow> bool" where
  "sourceGroupUsable s prefix =
     (let matching = filter (\<lambda>c. has_prefix (cs_Name c) prefix) (Capabilities (sv_view s))
      in matching = [] \<or> list_ex usable_capability matching)"

definition prefix_usable :: "service \<Rightarrow> prefix_reader option" where
  "prefix_usable s = (if sourceGroupUsable s ''prefix_source/'' then sv_prefixes s else None)"

definition asn_source :: "addr \<Rightarrow> string" where
  "asn_source address = (if is4 address then ''asn_source/ipv4'' else ''asn_source/ipv6'')"

section \<open>Evidence\<close>

definition prefixEvidence :: "app_env \<Rightarrow> address_input \<Rightarrow> gotime \<Rightarrow> association \<Rightarrow> go_error + evidence" where
  "prefixEvidence E input classifiedAt association =
     (case ae_marshal_association E association of
        Inl e \<Rightarrow> Inl (Wrap ''encode prefix association'' e)
      | Inr encoded \<Rightarrow>
          Inr \<lparr>ev_ID = ''evidence-prefix-'' @ digest12 E (as_ID association @ [CHR 0x00] @ join '','' (in_observationIDs input)),
            ev_ObservationIDs = in_observationIDs input,
            ev_DatasetRecords = [\<lparr>ds_SourceID = as_SourceID association, ds_Revision = as_SourceRevision association,
              ds_Digest = as_SourceDigest association, ds_RecordRef = as_RecordRef association, ds_Fields = encoded,
              ds_PublishedAt = None, ds_EffectiveAt = None\<rparr>],
            ev_ClassifiedAt = classifiedAt, ev_DetectorID = ''prefix-v1'', ev_RuleID = [], ev_Subject = in_subject input,
            ev_ProviderID = as_ProviderID association, ev_ProductID = as_ProductID association,
            ev_Category = ''cloud_infrastructure'', ev_Relation = RelationServiceRange, ev_Strength = StrengthModerate,
            ev_Activity = ActivityUnknown, ev_Scope = in_scope input,
            ev_Explanation = ''address is contained by a normalized local prefix record''\<rparr>)"

definition asnEvidence :: "app_env \<Rightarrow> address_input \<Rightarrow> gotime \<Rightarrow> asn_record \<Rightarrow> go_error + evidence" where
  "asnEvidence E input classifiedAt asn =
     (case ae_marshal_asn E asn of
        Inl e \<Rightarrow> Inl (Wrap ''encode ASN record'' e)
      | Inr encoded \<Rightarrow>
          Inr \<lparr>ev_ID = ''evidence-asn-'' @ digest12 E (nat_string (unat (an_ASN asn)) @ [CHR 0x00] @ an_RecordRef asn @ [CHR 0x00]
              @ join '','' (in_observationIDs input)),
            ev_ObservationIDs = in_observationIDs input,
            ev_DatasetRecords = [\<lparr>ds_SourceID = an_SourceID asn, ds_Revision = an_SourceRevision asn,
              ds_Digest = an_SourceDigest asn, ds_RecordRef = an_RecordRef asn, ds_Fields = encoded,
              ds_PublishedAt = None, ds_EffectiveAt = None\<rparr>],
            ev_ClassifiedAt = classifiedAt, ev_DetectorID = ''asn-v1'', ev_RuleID = [], ev_Subject = in_subject input,
            ev_ProviderID = ''asn:'' @ nat_string (unat (an_ASN asn)), ev_ProductID = [],
            ev_Category = ''network'', ev_Relation = RelationNetworkProvider, ev_Strength = StrengthWeak,
            ev_Activity = ActivityUnknown, ev_Scope = in_scope input,
            ev_Explanation = ''address is contained by a local ASN interval; organization attribution is not a product claim''\<rparr>)"

section \<open>Enrichment\<close>

text \<open>The loop over the inputs: look up, cover, and make evidence of every record.\<close>

fun look_up_inputs ::
    "(nat \<Rightarrow> address_input \<Rightarrow> 'r list \<times> coverage) \<Rightarrow> (address_input \<Rightarrow> 'r \<Rightarrow> go_error + evidence) \<Rightarrow> nat \<Rightarrow> address_input list
      \<Rightarrow> go_error + evidence list \<times> coverage list" where
  "look_up_inputs look conclude n [] = Inr ([], [])"
| "look_up_inputs look conclude n (input # rest) =
     (case look n input of (records, item) \<Rightarrow>
        and_then (map_result (conclude input) records) (\<lambda>evidence.
        and_then (look_up_inputs look conclude (Suc n) rest) (\<lambda>(more, coverage).
          Inr (evidence @ more, item # coverage))))"

definition failed_lookup :: "go_error option \<Rightarrow> coverage \<Rightarrow> coverage" where
  "failed_lookup err item =
     (case err of None \<Rightarrow> item
      | Some e \<Rightarrow> item\<lparr>cv_Status := CoverageUnavailable, cv_ErrorCodes := cv_ErrorCodes item @ [ErrorCodeOf err]\<rparr>)"

definition limited_associations :: "int \<Rightarrow> association list \<Rightarrow> coverage \<Rightarrow> association list \<times> coverage" where
  "limited_associations limit associations item =
     (if int (length associations) > limit
      then (take (nat limit) associations,
            item\<lparr>cv_Status := CoveragePartial, cv_Omitted := cv_Omitted item + (int (length associations) - limit),
                 cv_ErrorCodes := cv_ErrorCodes item @ [CodeBudgetExceeded],
                 cv_Reason := ''configured prefix association limit reached''\<rparr>)
      else (associations, item))"

definition prefix_lookup ::
    "service \<Rightarrow> prefix_reader \<Rightarrow> (nat \<Rightarrow> go_error option) \<Rightarrow> nat \<Rightarrow> address_input \<Rightarrow> association list \<times> coverage" where
  "prefix_lookup s reader ctx n input =
     (case reader (ctx n) \<lparr>lk_Address = in_address input, lk_Match = ''all'', lk_IncludeRetired = False, lk_Categories = []\<rparr> of
        (associations, item, err) \<Rightarrow> limited_associations (prefixAssociationLimit s) associations (failed_lookup err item))"

definition asn_lookup ::
    "asn_reader \<Rightarrow> (nat \<Rightarrow> go_error option) \<Rightarrow> nat \<Rightarrow> address_input \<Rightarrow> asn_record list \<times> coverage" where
  "asn_lookup reader ctx n input =
     (case reader (ctx n) (in_address input) of (records, item, err) \<Rightarrow> (records, failed_lookup err item))"

definition unavailable :: "string \<Rightarrow> string \<Rightarrow> coverage" where
  "unavailable capability why =
     zero_coverage\<lparr>cv_Capability := capability, cv_Status := CoverageUnavailable, cv_Reason := why\<rparr>"

definition enrich_prefixes ::
    "app_env \<Rightarrow> service \<Rightarrow> (nat \<Rightarrow> go_error option) \<Rightarrow> gotime \<Rightarrow> address_input list \<Rightarrow> go_error + evidence list \<times> coverage list" where
  "enrich_prefixes E s ctx classifiedAt inputs =
     (case prefix_usable s of
        None \<Rightarrow> Inr ([], [unavailable ''prefix'' ''prefix source is unavailable''])
      | Some reader \<Rightarrow>
          look_up_inputs (prefix_lookup s reader ctx) (\<lambda>input. prefixEvidence E input classifiedAt) 0 inputs)"

definition enrich_asn ::
    "app_env \<Rightarrow> service \<Rightarrow> (nat \<Rightarrow> go_error option) \<Rightarrow> gotime \<Rightarrow> address_input list \<Rightarrow> go_error + evidence list \<times> coverage list" where
  "enrich_asn E s ctx classifiedAt inputs =
     (case sv_asn s of
        None \<Rightarrow> Inr ([], [unavailable ''asn'' ''ASN source is unavailable''])
      | Some reader \<Rightarrow>
          look_up_inputs (asn_lookup reader ctx) (\<lambda>input. asnEvidence E input classifiedAt) (length inputs)
            (filter (\<lambda>input. sourceCapabilityUsable s (asn_source (in_address input))) inputs))"

definition enrichAddresses ::
    "app_env \<Rightarrow> service \<Rightarrow> (nat \<Rightarrow> go_error option) \<Rightarrow> observation list \<Rightarrow> gotime \<Rightarrow> go_error + evidence list \<times> coverage list" where
  "enrichAddresses E s ctx observations classifiedAt =
     (let inputs = addressInputs E observations in
      if inputs = [] then Inr ([], [])
      else
        and_then (enrich_prefixes E s ctx classifiedAt inputs) (\<lambda>(evidence, coverage).
        and_then (enrich_asn E s ctx classifiedAt inputs) (\<lambda>(more, further).
          Inr (evidence @ more, sourceCoverage s (map in_address inputs) classifiedAt @ coverage @ further))))"

section \<open>The lookup of one address\<close>

record ip_lookup_result =
  il_Address :: addr
  il_Status :: report_status
  il_Associations :: "association list"
  il_ASN :: "asn_record list"
  il_Coverage :: "coverage list"

text \<open>The admission of a call: the controller it finds, if the service has one, and how its wait for a permit goes.\<close>

record admission =
  ad_controller :: "controller option"
  ad_before :: "go_error option"
  ad_wait :: wait_end
  ad_after :: "go_error option"
  ad_synchronous :: "go_error option option"

definition admit :: "admission \<Rightarrow> go_error option" where
  "admit a =
     (case ad_controller a of
        None \<Rightarrow> PromoteSynchronousAdmission (ad_before a) (ad_synchronous a)
      | Some c \<Rightarrow> (case snd (Begin (ad_before a) (ad_wait a) (ad_after a) (ad_synchronous a) (begin_wait c)) of
            Inl e \<Rightarrow> Some e | Inr execution \<Rightarrow> None))"

definition source_gone :: "go_error \<Rightarrow> bool" where
  "source_gone e = (ErrorCodeOf (Some e) = CodeCapabilityUnavailable \<or> ErrorCodeOf (Some e) = CodeSourceUnavailable)"

text \<open>The two halves of the lookup give the records, the coverage and whether the source answered.\<close>

definition lookup_prefix_half ::
    "service \<Rightarrow> go_error option \<Rightarrow> ip_lookup_request \<Rightarrow> go_error + association list \<times> coverage \<times> bool" where
  "lookup_prefix_half s ctx request =
     (case prefix_usable s of
        None \<Rightarrow> Inr ([], unavailable ''prefix'' ''prefix source is unavailable'', False)
      | Some reader \<Rightarrow>
          (case reader ctx request of (associations, item, err) \<Rightarrow>
            (case err of
               Some e \<Rightarrow> if source_gone e then Inr ([], item, False) else Inl (Wrap ''lookup prefixes'' e)
             | None \<Rightarrow>
                 let limit = prefixAssociationLimit s; item' = snd (limited_associations limit associations item)
                 in Inr (fst (limited_associations limit associations item),
                      if int (length associations) > limit \<and> CodeBudgetExceeded \<in> set (cv_ErrorCodes item)
                      then item'\<lparr>cv_ErrorCodes := cv_ErrorCodes item\<rparr> else item', True))))"

definition lookup_asn_half ::
    "service \<Rightarrow> go_error option \<Rightarrow> ip_lookup_request \<Rightarrow> go_error + asn_record list \<times> coverage \<times> bool" where
  "lookup_asn_half s ctx request =
     (case (if sourceCapabilityUsable s (asn_source (unmap (lk_Address request))) then sv_asn s else None) of
        None \<Rightarrow> Inr ([], unavailable ''asn'' ''ASN source is unavailable'', False)
      | Some reader \<Rightarrow>
          (case reader ctx (lk_Address request) of (records, item, err) \<Rightarrow>
            (case err of
               Some e \<Rightarrow> if source_gone e then Inr ([], item, False) else Inl (Wrap ''lookup ASN'' e)
             | None \<Rightarrow> Inr (records, item, True))))"

definition LookupIP ::
    "service \<Rightarrow> admission \<Rightarrow> (nat \<Rightarrow> go_error option) \<Rightarrow> gotime \<Rightarrow> ip_lookup_request \<Rightarrow> go_error + ip_lookup_result" where
  "LookupIP s a ctx now request =
     (if \<not> addr_valid (lk_Address request) then Inl (NewError CodeInvalidTarget ''IP address is invalid'' None)
      else if sv_prefixes s = None \<and> sv_asn s = None
      then Inl (NewError CodeCapabilityUnavailable ''local IP lookup is unavailable'' None)
      else case admit a of
        Some e \<Rightarrow> Inl e
      | None \<Rightarrow>
          and_then (lookup_prefix_half s (ctx 0) request) (\<lambda>(associations, prefix_item, prefix_answered).
          and_then (lookup_asn_half s (ctx 1) request) (\<lambda>(records, asn_item, asn_answered).
            if \<not> prefix_answered \<and> \<not> asn_answered
            then Inl (NewError CodeCapabilityUnavailable ''all local IP lookup sources are unavailable'' None)
            else
              let address = unmap (lk_Address request);
                  coverage = sourceCoverage s [address] now @ [prefix_item, asn_item]
              in Inr \<lparr>il_Address = address,
                   il_Status = (if list_all (\<lambda>item. cv_Status item = CoverageComplete) coverage then StatusComplete else StatusPartial),
                   il_Associations = associations, il_ASN = records, il_Coverage = coverage\<rparr>)))"

end
