(* ===== verification/App_Lookups.thy ===== *)
theory App_Lookups
  imports App_Enrich Http_Coverage
begin

text \<open>
  Enrichment is exact: the contract of the readers behind internal/app, what the service concludes from it, and
  the two indexes of internal/enrich that keep it.
\<close>

section \<open>The readers of the indexes\<close>

definition index_prefixes :: "'t bart \<Rightarrow> 't prefix_index \<Rightarrow> prefix_reader" where
  "index_prefixes T i ctx request =
     (case LookupPrefixes T i ctx request of Inl e \<Rightarrow> ([], zero_coverage, Some e) | Inr (associations, item) \<Rightarrow> (associations, item, None))"

definition index_asn :: "asn_index \<Rightarrow> asn_reader" where
  "index_asn i ctx address =
     (case LookupASN i ctx address of Inl e \<Rightarrow> ([], zero_coverage, Some e) | Inr (records, item) \<Rightarrow> (records, item, None))"

text \<open>What the service asks for an address.\<close>

definition all_of :: "addr \<Rightarrow> ip_lookup_request" where
  "all_of a = \<lparr>lk_Address = a, lk_Match = ''all'', lk_IncludeRetired = False, lk_Categories = []\<rparr>"

lemma map_result_image: "map_result f xs = Inr ys \<Longrightarrow> set ys = {y. \<exists>x \<in> set xs. f x = Inr y}"
  by (induction xs arbitrary: ys) (auto simp: and_then_Inr_iff)

section \<open>The contract of a reader\<close>

text \<open>An index \<open>i\<close> that was loaded from a content answers a live call with exactly the records of the
  content that hold for the address, and a call whose context ended with its error.\<close>

locale range_reader =
  fixes reader :: "'i \<Rightarrow> go_error option \<Rightarrow> addr \<Rightarrow> 'r list \<times> coverage \<times> go_error option"
    and loaded :: "'i \<Rightarrow> 'c \<Rightarrow> bool"
    and holds :: "'c \<Rightarrow> addr \<Rightarrow> 'r \<Rightarrow> bool"
  assumes answers: "loaded i c \<Longrightarrow> addr_valid a \<Longrightarrow> \<exists>records item. reader i None a = (records, item, None)
      \<and> set records = {r. holds c a r} \<and> cv_Status item = CoverageComplete"
    and ends: "\<exists>item. reader i (Some e) a = ([], item, Some e)"
begin

definition examined :: "'i \<Rightarrow> (nat \<Rightarrow> go_error option) \<Rightarrow> nat \<Rightarrow> address_input \<Rightarrow> 'r list \<times> coverage" where
  "examined i ctx n input = (case reader i (ctx n) (in_address input) of (records, item, err) \<Rightarrow> (records, failed_lookup err item))"

lemma examined_exact:
  assumes "loaded i c" "addr_valid (in_address input)" "examined i ctx n input = (records, item)"
    and "\<not> incomplete_coverage item"
  shows "set records = {r. holds c (in_address input) r}"
proof (cases "ctx n")
  case None
  with answers [OF assms(1,2)] assms(3) show ?thesis by (auto simp: examined_def)
next
  case (Some e)
  with ends [of i e "in_address input"] assms(3,4) show ?thesis
    by (auto simp: examined_def failed_lookup_def incomplete_coverage_def)
qed

text \<open>A loop over lookups that return what is examined, or fewer records with incomplete coverage.\<close>

lemma looked_up_exact:
  assumes "look_up_inputs look conclude n inputs = Inr (evidence, coverage)" "loaded i c"
    and "\<forall>input \<in> set inputs. addr_valid (in_address input)" "\<forall>item \<in> set coverage. \<not> incomplete_coverage item"
    and look: "\<And>n input records item. look n input = (records, item) \<Longrightarrow> \<not> incomplete_coverage item \<Longrightarrow> examined i ctx n input = (records, item)"
  shows "set evidence = {ev. \<exists>input \<in> set inputs. \<exists>r. holds c (in_address input) r \<and> conclude input r = Inr ev}"
  using assms(1,3,4)
proof (induction inputs arbitrary: n evidence coverage)
  case (Cons input rest)
  obtain records item where l: "look n input = (records, item)" by fastforce
  with Cons.prems(1) obtain found more further where
    found: "map_result (conclude input) records = Inr found" and rest: "look_up_inputs look conclude (Suc n) rest = Inr (more, further)"
    and e: "evidence = found @ more" "coverage = item # further"
    by (auto simp: and_then_Inr_iff)
  have "set records = {r. holds c (in_address input) r}"
    using examined_exact [OF assms(2) _ look [OF l]] Cons.prems(2,3) e(2) by simp
  then have "set found = {ev. \<exists>r. holds c (in_address input) r \<and> conclude input r = Inr ev}"
    using map_result_image [OF found] by auto
  moreover have "set more = {ev. \<exists>input \<in> set rest. \<exists>r. holds c (in_address input) r \<and> conclude input r = Inr ev}"
    using Cons.IH [OF rest] Cons.prems(2,3) e(2) by simp
  ultimately show ?case unfolding e(1) by auto
qed simp

end

text \<open>Both indexes keep the contract. The prefix index does so over any routing table with its documented laws,
  when it was built from associations with valid prefixes and pairwise distinct identifiers.\<close>

definition prefixes_loaded :: "'t bart \<Rightarrow> 't prefix_index \<Rightarrow> association list \<Rightarrow> bool" where
  "prefixes_loaded T i associations \<longleftrightarrow> i = NewPrefix T associations \<and> bart_laws T
     \<and> (\<forall>x \<in> set associations. prefix_valid (as_Prefix x)) \<and> distinct (map as_ID associations)"

definition association_holds :: "association list \<Rightarrow> addr \<Rightarrow> association \<Rightarrow> bool" where
  "association_holds associations a x \<longleftrightarrow> x \<in> set (eligible associations False (unmap a))"

definition asn_holds :: "interval list \<Rightarrow> addr \<Rightarrow> asn_record \<Rightarrow> bool" where
  "asn_holds intervals a r \<longleftrightarrow> (\<exists>x \<in> set intervals. covers_addr (unmap a) x \<and> r = asn_record_of x)"

interpretation prefix_ranges: range_reader "\<lambda>i ctx a. index_prefixes T i ctx (all_of a)" "prefixes_loaded T" association_holds
  for T :: "'t bart"
proof (unfold_locales, goal_cases)
  case (1 i c a)
  then obtain result where r: "LookupPrefixes T i None (all_of a) = Inr (result, prefix_coverage)"
      "mset result = mset (expected c (all_of a))"
    using lookup_expected [of T c "all_of a"] by (auto simp: prefixes_loaded_def all_of_def)
  have "set result = set (expected c (all_of a))" using r(2) by (rule mset_eq_setD)
  also have "\<dots> = {x. association_holds c a x}" by (auto simp: expected_def all_of_def association_holds_def Let_def)
  finally show ?case using r(1) by (simp add: index_prefixes_def prefix_coverage_def)
next
  case (2 i e a)
  show ?case by (simp add: index_prefixes_def LookupPrefixes_def)
qed

interpretation asn_ranges: range_reader index_asn "\<lambda>i intervals. NewASN intervals = Inr i" asn_holds
proof (unfold_locales, goal_cases)
  case (1 i c a)
  then show ?case using lookup_scan [of c i a] by (auto simp: index_asn_def asn_coverage_def asn_holds_def)
next
  case (2 i e a)
  show ?case by (simp add: index_asn_def LookupASN_def)
qed

section \<open>The inputs of a run\<close>

text \<open>Where an observation found an address, and what the inputs have to be.\<close>

type_synonym location = "string \<times> scope \<times> addr"

definition location_of :: "app_env \<Rightarrow> observation \<Rightarrow> location" where
  "location_of E ob = (ob_Subject ob, ob_Scope ob, unmap (observed_address E ob))"

definition locating :: "app_env \<Rightarrow> observation list \<Rightarrow> observation list" where
  "locating E obs = filter (\<lambda>ob. addr_valid (observed_address E ob)) obs"

definition location_key :: "location \<Rightarrow> string" where
  "location_key l = (case l of (subject, sc, a) \<Rightarrow> input_key subject sc a)"

definition found_at :: "app_env \<Rightarrow> observation list \<Rightarrow> location \<Rightarrow> string set" where
  "found_at E obs l = ob_ID ` {ob \<in> set (locating E obs). location_of E ob = l}"

definition input_at :: "app_env \<Rightarrow> observation list \<Rightarrow> location \<Rightarrow> address_input" where
  "input_at E obs l = (case l of (subject, sc, a) \<Rightarrow>
     \<lparr>in_subject = subject, in_scope = sc, in_address = a, in_observationIDs = sorted_list_of_set (found_at E obs l)\<rparr>)"

text \<open>The map of the code while it reads the observations.\<close>

definition gathered :: "app_env \<Rightarrow> location set \<Rightarrow> observation list \<Rightarrow> (string \<times> address_input) list \<Rightarrow> bool" where
  "gathered E L obs m \<longleftrightarrow> distinct (map fst m) \<and> fst ` set m = (location_key \<circ> location_of E) ` set (locating E obs)
     \<and> (\<forall>l \<in> L. \<forall>i. map_of m (location_key l) = Some i \<longrightarrow> l = (in_subject i, in_scope i, in_address i)
          \<and> distinct (in_observationIDs i) \<and> set (in_observationIDs i) = found_at E obs l)"

lemma gathered_step:
  assumes "gathered E L obs m" and inj: "inj_on location_key L" and here: "set (locating E (obs @ [ob])) \<subseteq> {ob. location_of E ob \<in> L}"
  shows "gathered E L (obs @ [ob]) (note_input E ob m)"
proof (cases "addr_valid (observed_address E ob)")
  case False
  with assms(1) show ?thesis by (auto simp: gathered_def note_input_def locating_def found_at_def)
next
  case True
  define k where "k = location_of E ob"
  obtain i where made: "note_input E ob m = AList.update (location_key k) i m"
    and same: "k = (in_subject i, in_scope i, in_address i)"
    and ids: "distinct (in_observationIDs i)" "set (in_observationIDs i) = insert (ob_ID ob) (found_at E obs k)"
  proof -
    have k: "location_key k = input_key (ob_Subject ob) (ob_Scope ob) (unmap (observed_address E ob))" "k \<in> L"
      using here True by (auto simp: k_def location_key_def location_of_def locating_def)
    show ?thesis
    proof (cases "map_of m (location_key k)")
      case None
      then have "location_key k \<notin> fst ` set m" by (simp add: map_of_eq_None_iff)
      then have none: "found_at E obs k = {}" using assms(1) by (auto simp: gathered_def found_at_def)
      from None True show ?thesis
        by (intro that [of "\<lparr>in_subject = ob_Subject ob, in_scope = ob_Scope ob, in_address = unmap (observed_address E ob), in_observationIDs = [ob_ID ob]\<rparr>"])
          (simp_all add: note_input_def Let_def k none, simp_all add: k_def location_of_def)
    next
      case (Some i0)
      then have i0: "k = (in_subject i0, in_scope i0, in_address i0)" "distinct (in_observationIDs i0)" "set (in_observationIDs i0) = found_at E obs k"
        using assms(1) k(2) by (auto simp: gathered_def)
      show ?thesis
        using Some True i0 k(1)
        by (intro that [of "if ob_ID ob \<in> set (in_observationIDs i0) then i0 else i0\<lparr>in_observationIDs := in_observationIDs i0 @ [ob_ID ob]\<rparr>"])
          (auto simp: note_input_def Let_def)
    qed
  qed
  have found: "found_at E (obs @ [ob]) l = (if l = k then insert (ob_ID ob) (found_at E obs k) else found_at E obs l)" for l
    using True by (auto simp: found_at_def locating_def k_def)
  have "k \<in> L" using here True by (simp add: k_def locating_def)
  with inj have key: "location_key l = location_key k \<longleftrightarrow> l = k" if "l \<in> L" for l using that by (auto simp: inj_on_def)
  have "distinct (map fst (AList.update (location_key k) i m))"
    using assms(1) by (simp add: gathered_def distinct_update)
  moreover have "fst ` set (AList.update (location_key k) i m) = (location_key \<circ> location_of E) ` set (locating E (obs @ [ob]))"
    using assms(1) True by (simp add: gathered_def dom_update locating_def k_def)
  moreover have "l = (in_subject j, in_scope j, in_address j) \<and> distinct (in_observationIDs j)
      \<and> set (in_observationIDs j) = found_at E (obs @ [ob]) l"
    if l: "l \<in> L" and j: "map_of (AList.update (location_key k) i m) (location_key l) = Some j" for l j
  proof (cases "l = k")
    case True
    with j have "j = i" by (simp add: update_conv')
    with True same ids show ?thesis by (simp add: found)
  next
    case False
    with j key [OF l] have "map_of m (location_key l) = Some j" by (simp add: update_conv')
    with assms(1) l False show ?thesis by (simp add: gathered_def found)
  qed
  ultimately show ?thesis unfolding gathered_def made by blast
qed

abbreviation locations :: "app_env \<Rightarrow> observation list \<Rightarrow> location set" where
  "locations E obs \<equiv> location_of E ` set (locating E obs)"

lemma gathered_all:
  assumes "inj_on location_key (locations E obs)"
  shows "gathered E (locations E obs) obs (fold (note_input E) obs [])"
proof -
  have "gathered E (locations E obs) xs (fold (note_input E) xs [])" if "set xs \<subseteq> set obs" for xs
    using that
  proof (induction xs rule: rev_induct)
    case Nil
    show ?case by (simp add: gathered_def locating_def)
  next
    case (snoc ob xs)
    have "set (locating E (xs @ [ob])) \<subseteq> {ob. location_of E ob \<in> locations E obs}"
      using snoc.prems by (auto simp: locating_def)
    with snoc gathered_step [OF _ assms] show ?case by simp
  qed
  then show ?thesis by simp
qed

lemma sorted_ids_at:
  assumes "l = (in_subject i, in_scope i, in_address i)" "distinct (in_observationIDs i)" "set (in_observationIDs i) = found_at E obs l"
  shows "sorted_ids i = input_at E obs l"
proof -
  have "sort (in_observationIDs i) = sorted_list_of_set (found_at E obs l)"
    using assms(2) sorted_list_of_set_sort_remdups [of "in_observationIDs i"] by (simp add: assms(3) distinct_remdups_id)
  then show ?thesis by (simp add: sorted_ids_def input_at_def assms(1))
qed

lemma address_inputs_exact:
  assumes "inj_on location_key (locations E obs)" "permutes (ae_input_order E)"
  shows "set (addressInputs E obs) = input_at E obs ` locations E obs"
proof -
  define m where "m = fold (note_input E) obs []"
  have g: "gathered E (locations E obs) obs m" using gathered_all [OF assms(1)] by (simp add: m_def)
  then have m: "distinct (map fst m)" "fst ` set m = location_key ` locations E obs" by (simp_all add: gathered_def image_comp)
  have at: "sorted_ids i = input_at E obs l" if "l \<in> locations E obs" "map_of m (location_key l) = Some i" for l i
    using g that sorted_ids_at [of l i E obs] unfolding gathered_def by blast
  have "(sorted_ids \<circ> snd) ` set m = input_at E obs ` locations E obs" (is "?A = ?B")
  proof (intro equalityI subsetI)
    fix x assume "x \<in> ?A"
    then obtain k i where ki: "(k, i) \<in> set m" "x = sorted_ids i" by auto
    have "k \<in> fst ` set m" using image_eqI [OF _ ki(1), of k fst] by simp
    then obtain l where l: "l \<in> locations E obs" "k = location_key l" unfolding m(2) by (rule imageE)
    have "x = input_at E obs l" using at [OF l(1)] map_of_is_SomeI [OF m(1) ki(1)] ki(2) l(2) by simp
    then show "x \<in> ?B" by (rule image_eqI) (rule l(1))
  next
    fix x assume "x \<in> ?B"
    then obtain l where l: "l \<in> locations E obs" "x = input_at E obs l" by blast
    then have "location_key l \<in> fst ` set m" unfolding m(2) by (intro imageI)
    then obtain i where i: "(location_key l, i) \<in> set m" by force
    have "sorted_ids i = x" using at [OF l(1) map_of_is_SomeI [OF m(1) i]] l(2) by simp
    with i show "x \<in> ?A" by force
  qed
  then show ?thesis using permutes_set [OF assms(2), of m] by (simp add: addressInputs_def m_def)
qed

section \<open>Enrichment\<close>

lemma examined_lookups:
  assumes "limited_associations limit associations (failed_lookup err item) = (records, item')" "\<not> incomplete_coverage item'"
  shows "records = associations \<and> item' = failed_lookup err item"
  using assms by (auto simp: limited_associations_def incomplete_coverage_def split: if_splits)

lemma prefixes_looked_up:
  assumes "enrich_prefixes E s ctx t inputs = Inr (evidence, coverage)" "sv_prefixes s = Some (index_prefixes T i)"
    and "prefixes_loaded T i associations" "\<forall>input \<in> set inputs. addr_valid (in_address input)"
    and "\<forall>item \<in> set coverage. \<not> incomplete_coverage item"
  shows "set evidence = {ev. \<exists>input \<in> set inputs. \<exists>x. association_holds associations (in_address input) x \<and> prefixEvidence E input t x = Inr ev}"
proof -
  have "sourceGroupUsable s ''prefix_source/''"
    using assms(1,5) by (rule_tac ccontr) (auto simp: enrich_prefixes_def prefix_usable_def unavailable_def incomplete_coverage_def)
  then have "prefix_usable s = Some (index_prefixes T i)" using assms(2) by (simp add: prefix_usable_def)
  with assms(1) have "look_up_inputs (prefix_lookup s (index_prefixes T i) ctx) (\<lambda>input. prefixEvidence E input t) 0 inputs = Inr (evidence, coverage)"
    by (simp add: enrich_prefixes_def)
  then show ?thesis
  proof (rule prefix_ranges.looked_up_exact [OF _ assms(3-5)])
    fix n input records item
    assume "prefix_lookup s (index_prefixes T i) ctx n input = (records, item)" "\<not> incomplete_coverage item"
    then show "prefix_ranges.examined T i ctx n input = (records, item)"
      unfolding prefix_lookup_def all_of_def [symmetric]
      by (auto simp: prefix_ranges.examined_def split: prod.splits dest!: examined_lookups)
  qed
qed

lemma asn_looked_up:
  assumes "enrich_asn E s ctx t inputs = Inr (evidence, coverage)" "sv_asn s = Some (index_asn i)"
    and "NewASN intervals = Inr i" "\<forall>input \<in> set inputs. addr_valid (in_address input)"
    and "\<forall>item \<in> set coverage. \<not> incomplete_coverage item"
  shows "set evidence = {ev. \<exists>input \<in> set inputs. sourceCapabilityUsable s (asn_source (in_address input))
      \<and> (\<exists>r. asn_holds intervals (in_address input) r \<and> asnEvidence E input t r = Inr ev)}"
proof -
  let ?inputs = "filter (\<lambda>input. sourceCapabilityUsable s (asn_source (in_address input))) inputs"
  have "look_up_inputs (asn_lookup (index_asn i) ctx) (\<lambda>input. asnEvidence E input t) (length inputs) ?inputs = Inr (evidence, coverage)"
    using assms(1,2) by (simp add: enrich_asn_def)
  then have "set evidence = {ev. \<exists>input \<in> set ?inputs. \<exists>r. asn_holds intervals (in_address input) r \<and> asnEvidence E input t r = Inr ev}"
    by (rule asn_ranges.looked_up_exact [OF _ assms(3) _ assms(5)]) (use assms(4) in \<open>auto simp: asn_lookup_def asn_ranges.examined_def\<close>)
  then show ?thesis by auto
qed

text \<open>C40: Enrichment over the loaded indexes is exact whenever its coverage hides nothing; the associations of the
  prefix index have valid prefixes and pairwise distinct identifiers. The evidence is
  then precisely: for every subject, scope and address that an observation names, one item for each
  unretired prefix association whose range contains the address, and one for the ASN interval that contains it
  if the source of its family is usable; and each item cites exactly the observations of that subject, scope
  and address. A lookup that fails, an ended context or a cut list of associations shows up as
  incomplete coverage instead.\<close>

theorem enrichment_exact:
  assumes "enrichAddresses E s ctx obs t = Inr (evidence, coverage)" and "\<forall>item \<in> set coverage. \<not> incomplete_coverage item"
    and "sv_prefixes s = Some (index_prefixes T i)" "prefixes_loaded T i associations"
    and "sv_asn s = Some (index_asn j)" "NewASN intervals = Inr j"
    and "inj_on location_key (locations E obs)" "permutes (ae_input_order E)"
  shows "set evidence = (\<Union>l \<in> locations E obs.
      {ev. \<exists>x. association_holds associations (snd (snd l)) x \<and> prefixEvidence E (input_at E obs l) t x = Inr ev}
      \<union> {ev. sourceCapabilityUsable s (asn_source (snd (snd l)))
            \<and> (\<exists>r. asn_holds intervals (snd (snd l)) r \<and> asnEvidence E (input_at E obs l) t r = Inr ev)})"
proof -
  define inputs where "inputs = addressInputs E obs"
  have inputs: "set inputs = input_at E obs ` locations E obs"
    unfolding inputs_def by (rule address_inputs_exact [OF assms(7,8)])
  have address: "in_address (input_at E obs l) = snd (snd l)" for l by (simp add: input_at_def split: prod.splits)
  have valid: "\<forall>input \<in> set inputs. addr_valid (in_address input)"
    unfolding inputs by (auto simp: address location_of_def locating_def)
  show ?thesis
  proof (cases "inputs = []")
    case True
    with inputs have "locations E obs = {}" by simp
    with True assms(1) show ?thesis by (simp add: enrichAddresses_def inputs_def)
  next
    case False
    with assms(1) obtain found more items further where
      p: "enrich_prefixes E s ctx t inputs = Inr (found, items)" and a: "enrich_asn E s ctx t inputs = Inr (more, further)"
      and e: "evidence = found @ more" "coverage = sourceCoverage s (map in_address inputs) t @ items @ further"
      by (auto simp: enrichAddresses_def inputs_def [symmetric] Let_def and_then_Inr_iff)
    then have e': "set items \<subseteq> set coverage" "set further \<subseteq> set coverage" by auto
    have "set found = {ev. \<exists>input \<in> set inputs. \<exists>x. association_holds associations (in_address input) x \<and> prefixEvidence E input t x = Inr ev}"
      using prefixes_looked_up [OF p assms(3,4) valid] assms(2) e'(1) by blast
    moreover have "set more = {ev. \<exists>input \<in> set inputs. sourceCapabilityUsable s (asn_source (in_address input))
        \<and> (\<exists>r. asn_holds intervals (in_address input) r \<and> asnEvidence E input t r = Inr ev)}"
      using asn_looked_up [OF a assms(5,6) valid] assms(2) e'(2) by blast
    ultimately have "set evidence = {ev. \<exists>input \<in> set inputs. \<exists>x. association_holds associations (in_address input) x \<and> prefixEvidence E input t x = Inr ev}
        \<union> {ev. \<exists>input \<in> set inputs. sourceCapabilityUsable s (asn_source (in_address input))
            \<and> (\<exists>r. asn_holds intervals (in_address input) r \<and> asnEvidence E input t r = Inr ev)}" by (simp add: e(1))
    then show ?thesis unfolding inputs by (auto simp: address)
  qed
qed

section \<open>One address\<close>

text \<open>An environment that reads every DNS payload as one address, and a service over two small indexes.\<close>

definition look_env :: app_env where
  "look_env = \<lparr>ae_http = page_env\<lparr>he_dns := link_env\<lparr>de_unmarshal := (\<lambda>_. Some (zero_payload\<lparr>dp_Address := V4 5\<rparr>))\<rparr>\<rparr>,
     ae_unmarshal_http = (\<lambda>_. None), ae_unmarshal_tls = (\<lambda>_. None), ae_unmarshal_technology = (\<lambda>_. None),
     ae_marshal_technology = (\<lambda>_. Inr []), ae_marshal_association = (\<lambda>_. Inr []), ae_marshal_asn = (\<lambda>_. Inr []),
     ae_marshal_candidate = (\<lambda>c. Inr (ca_Hostname c)),
     ae_content = \<lparr>ce_project = (\<lambda>_. Inr []), ce_quote = (\<lambda>s. s), ce_sha256 = (\<lambda>s. s)\<rparr>,
     ae_group_order = (\<lambda>m. m), ae_id_order = (\<lambda>m. m), ae_provenance_order = (\<lambda>m. m), ae_provenance_group = (\<lambda>_. None),
     ae_input_order = (\<lambda>m. m)\<rparr>"

lemma look_env_simps [simp]:
  "de_unmarshal (ae_dns look_env) v = Some (zero_payload\<lparr>dp_Address := V4 5\<rparr>)" "ae_input_order look_env = (\<lambda>m. m)"
  "ae_marshal_association look_env x = Inr []" "ae_marshal_asn look_env r = Inr []"
  by (simp_all add: look_env_def)

definition look_observation :: observation where
  "look_observation = (sample_observation ''o'')\<lparr>ob_Type := ''dns_address''\<rparr>"

definition look_asn :: asn_index where
  "look_asn = \<lparr>ix_v4 = [example_interval (V4 4) (V4 6)], ix_v6 = []\<rparr>"

definition look_service :: service where
  "look_service = \<lparr>sv_dns = Some DefaultLimits, sv_http = None, sv_detectors = [], sv_webDetector = None,
     sv_prefixes = Some (index_prefixes list_bart (NewPrefix list_bart [example_association ''a'' 5 32])), sv_asn = Some (index_asn look_asn),
     sv_store = None, sv_ct = None, sv_ctEnabled = False, sv_ctMaximumSeed = 0, sv_view = NewAttributionView [] [] [] [],
     sv_buildProvenance = \<lparr>bp_Revision = UnknownProvenance, bp_Dirty = BuildDirtyUnknown\<rparr>, sv_rulesDigest = UnknownProvenance,
     sv_fingerprintDigest = UnknownProvenance, sv_observationContextID = [], sv_httpScheme = ''https'', sv_targetTimeout = 0,
     sv_limits = DefaultLimits\<rparr>"

lemma look_loaded: "prefixes_loaded list_bart (NewPrefix list_bart [example_association ''a'' 5 32]) [example_association ''a'' 5 32]"
  by (simp add: prefixes_loaded_def list_bart_laws example_association_def prefix_valid_def)

lemma look_asn: "NewASN [example_interval (V4 4) (V4 6)] = Inr look_asn"
  by (simp add: NewASN_def invalid_interval_def example_interval_def addr_compare_def less_eq_addr_def Let_def sort_key_def look_asn_def)

lemma look_association: "association_holds [example_association ''a'' 5 32] (V4 5) x \<longleftrightarrow> x = example_association ''a'' 5 32"
  by (auto simp: association_holds_def eligible_def masked_def example_association_def prefix_masked_def zero_association_def)

lemma look_interval: "asn_holds [example_interval (V4 4) (V4 6)] (V4 5) r \<longleftrightarrow> r = asn_record_of (example_interval (V4 4) (V4 6))"
  by (auto simp: asn_holds_def covers_addr_def example_interval_def less_eq_addr_def addr_compare_def)

lemma look_locations: "locations look_env [look_observation] = {(''example.com'', [], V4 5)}"
  by (simp add: locating_def location_of_def look_observation_def observed_address_def sample_observation_def)

lemma look_inputs: "set (addressInputs look_env [look_observation]) = {input_at look_env [look_observation] (''example.com'', [], V4 5)}"
  using address_inputs_exact [of look_env "[look_observation]"] by (simp add: look_locations permutes_id)

lemma look_enriched:
  "\<exists>evidence coverage. enrichAddresses look_env look_service (\<lambda>_. None) [look_observation] t = Inr (evidence, coverage)
     \<and> (\<forall>item \<in> set coverage. \<not> incomplete_coverage item)"
proof -
  obtain r where p: "LookupPrefixes list_bart (NewPrefix list_bart [example_association ''a'' 5 32]) None (all_of (V4 5)) = Inr (r, prefix_coverage)"
      "mset r = {#example_association ''a'' 5 32#}"
    using lookup_expected [OF list_bart_laws, of "[example_association ''a'' 5 32]" "all_of (V4 5)"]
    by (auto simp: example_association_def prefix_valid_def all_of_def expected_def eligible_def masked_def prefix_masked_def zero_association_def)
  obtain x where x: "addressInputs look_env [look_observation] = [x]" "in_address x = V4 5"
  proof -
    have "length (addressInputs look_env [look_observation]) = 1"
      by (simp add: addressInputs_def note_input_def observed_address_def look_observation_def Let_def)
    then obtain x where x: "addressInputs look_env [look_observation] = [x]" by (auto simp: length_Suc_conv)
    with look_inputs have "x = input_at look_env [look_observation] (''example.com'', [], V4 5)" by simp
    then have "in_address x = V4 5" by (simp add: input_at_def)
    with x show ?thesis by (rule that)
  qed
  have a: "LookupASN look_asn None (V4 5) = Inr ([asn_record_of (example_interval (V4 4) (V4 6))], asn_coverage)"
    using lookup_scan [OF look_asn, of "V4 5"] by (simp add: covers_addr_def example_interval_def less_eq_addr_def addr_compare_def)
  have "size r = 1" using arg_cong [OF p(2), of size] by simp
  then have len: "int (length r) \<le> prefixAssociationLimit look_service" by (simp add: prefixAssociationLimit_def look_service_def DefaultLimits_def)
  have source: "sourceGroupUsable look_service ''prefix_source/''" "sourceCapabilityUsable look_service name"
    "sourceCoverage look_service as t = []" for name as
    by (simp_all add: look_service_def sourceGroupUsable_def sourceCapabilityUsable_def Capabilities_def NewAttributionView_def
      cloneCapabilities_def sourceCoverage_def CapabilitiesAt_def)
  have "prefix_lookup look_service (index_prefixes list_bart (NewPrefix list_bart [example_association ''a'' 5 32])) (\<lambda>_. None) 0 x = (r, prefix_coverage)"
    using p(1) len by (simp add: prefix_lookup_def index_prefixes_def x(2) all_of_def limited_associations_def failed_lookup_def)
  moreover have "\<exists>evs. map_result (prefixEvidence look_env x t) r = Inr evs"
    by (induction r) (auto simp: prefixEvidence_def)
  ultimately have 1: "\<exists>evs. enrich_prefixes look_env look_service (\<lambda>_. None) t [x] = Inr (evs, [prefix_coverage])"
    using source(1) by (auto simp: enrich_prefixes_def prefix_usable_def look_service_def)
  have "asn_lookup (index_asn look_asn) (\<lambda>_. None) 1 x = ([asn_record_of (example_interval (V4 4) (V4 6))], asn_coverage)"
    using a by (simp add: asn_lookup_def index_asn_def x(2) failed_lookup_def)
  moreover have "\<exists>ev. asnEvidence look_env x t asn = Inr ev" for asn by (simp add: asnEvidence_def)
  then obtain ev where "asnEvidence look_env x t (asn_record_of (example_interval (V4 4) (V4 6))) = Inr ev" by blast
  moreover have "sv_asn look_service = Some (index_asn look_asn)" by (simp add: look_service_def)
  ultimately have 2: "\<exists>evs. enrich_asn look_env look_service (\<lambda>_. None) t [x] = Inr (evs, [asn_coverage])"
    by (simp add: enrich_asn_def source(2))
  from 1 2 show ?thesis
    by (auto simp: enrichAddresses_def x source incomplete_coverage_def prefix_coverage_def asn_coverage_def)
qed

theorem enrichment_exact_witness:
  "\<exists>evidence coverage ev. enrichAddresses look_env look_service (\<lambda>_. None) [look_observation] 0 = Inr (evidence, coverage)
     \<and> ev \<in> set evidence \<and> ev_ProviderID ev = ''aws'' \<and> ev_ObservationIDs ev = [''o'']"
proof -
  obtain evidence coverage where e: "enrichAddresses look_env look_service (\<lambda>_. None) [look_observation] 0 = Inr (evidence, coverage)"
      "\<forall>item \<in> set coverage. \<not> incomplete_coverage item" using look_enriched by blast
  have "sv_prefixes look_service = Some (index_prefixes list_bart (NewPrefix list_bart [example_association ''a'' 5 32]))"
      "sv_asn look_service = Some (index_asn look_asn)" "permutes (ae_input_order look_env)"
    by (simp_all add: look_service_def permutes_id)
  note exact = enrichment_exact [OF e this(1) look_loaded this(2) look_asn _ this(3)]
  have o: "found_at look_env [look_observation] (''example.com'', [], V4 5) = {''o''}"
  proof -
    have "locating look_env [look_observation] = [look_observation]" "location_of look_env look_observation = (''example.com'', [], V4 5)"
        "ob_ID look_observation = ''o''"
      by (simp_all add: locating_def location_of_def look_observation_def observed_address_def sample_observation_def)
    then show ?thesis by (auto simp: found_at_def)
  qed
  define ev where "ev = projr (prefixEvidence look_env (input_at look_env [look_observation] (''example.com'', [], V4 5)) 0 (example_association ''a'' 5 32))"
  have ev: "prefixEvidence look_env (input_at look_env [look_observation] (''example.com'', [], V4 5)) 0 (example_association ''a'' 5 32) = Inr ev"
      "ev_ProviderID ev = ''aws''" "ev_ObservationIDs ev = [''o'']"
    by (simp_all add: ev_def prefixEvidence_def input_at_def o example_association_def)
  then have "ev \<in> set evidence" using exact by (auto simp: look_locations look_association)
  with e(1) ev show ?thesis by blast
qed

end
