(* ===== verification/App_Service.thy ===== *)
theory App_Service
  imports App_Redirect App_Lookups
begin

text \<open>
  Package internal/app, service.go: the plan of certificate-transparency seeds, an analysis, and the
  reclassification of a stored report.

  The world of an analysis says what its collectors, readers and clocks see; every seed has a world of its own, in
  which the collectors of DNS and HTTP run side by side.
\<close>

section \<open>Certificate-transparency seeds\<close>

record ct_plan =
  pl_seeds :: "string list"
  pl_observations :: "observation list"
  pl_limit :: int
  pl_coverage :: coverage
  pl_partial :: bool
  pl_identities :: "string list"

definition once :: "error_code \<Rightarrow> error_code list \<Rightarrow> error_code list" where
  "once code codes = (if code \<in> set codes then codes else codes @ [code])"

definition ct_observation :: "app_env \<Rightarrow> string \<Rightarrow> string \<Rightarrow> nat \<Rightarrow> ct_candidate \<Rightarrow> json_value \<Rightarrow> observation" where
  "ct_observation E runID root index candidate payload =
     (let oc = \<lparr>oc_CollectionRunID = runID, oc_Seed = root, oc_SeedIndex = 0, oc_RequestIndex = 0, oc_Hop = 0, oc_Attempt = 0,
                oc_ItemIndex = int index\<rparr>
      in \<lparr>ob_ID = ObservationID (ae_dns E) ''ct-name'' oc [ca_Hostname candidate], ob_Type = ''ct_name'',
          ob_Subject = ca_Hostname candidate, ob_Relation = [], ob_Scope = ScopeSubdomain, ob_ObservedAt = ca_LoggedAt candidate,
          ob_CollectorVersion = ''ct-index-v1'', ob_Status = ''historical_discovery'', ob_Payload = payload,
          ob_ContentHash = ''sha256:'' @ he_sha256 (ae_http E) (''ct-name-v1'' @ [CHR 0x00] @ payload)\<rparr>)"

text \<open>A candidate that is new becomes a seed, with an observation if it can be encoded. The set of seen names is
  that of the seeds.\<close>

definition plan_candidate :: "app_env \<Rightarrow> string \<Rightarrow> string \<Rightarrow> nat \<times> ct_candidate \<Rightarrow> ct_plan \<Rightarrow> ct_plan" where
  "plan_candidate E runID root entry p =
     (case entry of (index, candidate) \<Rightarrow>
        if ca_Hostname candidate \<in> set (pl_seeds p) then p
        else
          let p = p\<lparr>pl_seeds := pl_seeds p @ [ca_Hostname candidate]\<rparr>
          in case ae_marshal_candidate E candidate of
              Inl _ \<Rightarrow> p
            | Inr payload \<Rightarrow> p\<lparr>pl_observations := pl_observations p @ [ct_observation E runID root index candidate payload],
                            pl_limit := pl_limit p - 1\<rparr>)"

text \<open>The loop over the roots; the error is that of a failed query.\<close>

fun plan_roots ::
    "app_env \<Rightarrow> ct_reader \<Rightarrow> (nat \<Rightarrow> go_error option) \<Rightarrow> string \<Rightarrow> nat \<Rightarrow> string list \<Rightarrow> ct_plan \<Rightarrow> ct_plan \<times> go_error option" where
  "plan_roots E discover ctx runID n [] p = (p, None)"
| "plan_roots E discover ctx runID n (root # roots) p =
     (if pl_limit p \<le> 0
      then (p\<lparr>pl_coverage := (pl_coverage p)\<lparr>cv_Omitted := cv_Omitted (pl_coverage p) + int (length (root # roots)),
                cv_ErrorCodes := once CodeBudgetExceeded (cv_ErrorCodes (pl_coverage p))\<rparr>,
              pl_partial := True\<rparr>, None)
      else case discover (ctx n) root (pl_limit p) of
          Inl e \<Rightarrow> (p, Some e)
        | Inr result \<Rightarrow>
            let c = pl_coverage p;
                c = c\<lparr>cv_Attempted := cv_Attempted c + int (qr_Available result), cv_Omitted := cv_Omitted c + int (qr_Omitted result),
                      cv_ErrorCodes := (if qr_Omitted result > 0 then once CodeBudgetExceeded (cv_ErrorCodes c) else cv_ErrorCodes c)\<rparr>;
                p = p\<lparr>pl_coverage := c, pl_partial := pl_partial p \<or> qr_Partial result \<or> qr_Omitted result > 0,
                      pl_identities := pl_identities p @ [qr_IndexIdentity result]\<rparr>
            in plan_roots E discover ctx runID (Suc n) roots
                 (fold (plan_candidate E runID root) (enumerate 0 (qr_Candidates result)) p))"

definition ct_limit :: "service \<Rightarrow> normalized_request \<Rightarrow> int" where
  "ct_limit s request =
     min (if sv_ctMaximumSeed s \<le> 0 then 20 else sv_ctMaximumSeed s) (seedLimit s - int (length (nr_SeedHostnames request)))"

definition ct_completed :: "ct_plan \<Rightarrow> coverage" where
  "ct_completed p =
     (let c = (pl_coverage p)\<lparr>cv_Completed := int (length (pl_observations p)), cv_Reason := join '','' (pl_identities p)\<rparr>
      in if cv_Attempted c = 0 then c\<lparr>cv_Status := CoverageComplete, cv_Reason := ''empty_index''\<rparr>
         else if pl_partial p \<or> cv_Omitted c > 0 then c\<lparr>cv_Status := CoveragePartial\<rparr>
         else c\<lparr>cv_Status := CoverageComplete\<rparr>)"

text \<open>The result is the request with its new seeds, the observations and the coverage, if discovery was asked for.\<close>

definition planCTDiscovery ::
    "app_env \<Rightarrow> service \<Rightarrow> (nat \<Rightarrow> go_error option) \<Rightarrow> string \<Rightarrow> normalized_request
      \<Rightarrow> normalized_request \<times> observation list \<times> coverage option" where
  "planCTDiscovery E s ctx runID request =
     (let c = zero_coverage\<lparr>cv_Capability := ''ct_discovery''\<rparr> in
      if \<not> nr_CTDiscovery request then (request, [], None)
      else if \<not> sv_ctEnabled s then (request, [], Some (c\<lparr>cv_Status := CoverageSkipped, cv_Reason := ''disabled''\<rparr>))
      else case sv_ct s of
          None \<Rightarrow> (request, [], Some (c\<lparr>cv_Status := CoverageUnavailable, cv_Reason := ''local CT index is unavailable''\<rparr>))
        | Some discover \<Rightarrow>
            if ct_limit s request \<le> 0
            then (request, [], Some (c\<lparr>cv_Status := CoveragePartial, cv_Reason := ''seed hostname limit reached'', cv_Omitted := 1,
                                      cv_ErrorCodes := [CodeBudgetExceeded]\<rparr>))
            else
              (case plan_roots E discover ctx runID 0 (nr_ScopeRoots request)
                  \<lparr>pl_seeds = nr_SeedHostnames request, pl_observations = [], pl_limit = ct_limit s request, pl_coverage = c,
                   pl_partial = False, pl_identities = []\<rparr> of
                 (p, err) \<Rightarrow>
                   (request\<lparr>nr_SeedHostnames := pl_seeds p\<rparr>, pl_observations p,
                    Some (case err of
                        Some e \<Rightarrow> (pl_coverage p)\<lparr>cv_Status := CoverageUnavailable, cv_Reason := ''query local CT index: '' @ error_string e\<rparr>
                      | None \<Rightarrow> ct_completed p))))"

section \<open>The collection of one seed\<close>

record seed_world =
  sd_world :: dns_world
  sd_arrivals :: arrivals
  sd_graph :: dns_world
  sd_done :: "go_error option"
  sd_room :: "nat \<Rightarrow> bool"
  sd_http :: http_world
  sd_redirect :: "string \<Rightarrow> int \<Rightarrow> redirect_world"
  sd_order :: "observation list list \<Rightarrow> observation list list"

record seed_run =
  sr_hostname :: string
  sr_dns :: dns_collected
  sr_http :: "(http_result \<times> observation list \<times> go_error option) option"

definition seed_occurrence_of :: "string \<Rightarrow> nat \<Rightarrow> string \<Rightarrow> occurrence" where
  "seed_occurrence_of runID index seed =
     \<lparr>oc_CollectionRunID = runID, oc_Seed = seed, oc_SeedIndex = int index, oc_RequestIndex = 0, oc_Hop = 0, oc_Attempt = 1,
      oc_ItemIndex = 0\<rparr>"

text \<open>The resolutions of one collection append what they retain under a lock, in whatever order their answers arrive.\<close>

definition retained_chunks :: "app_env \<Rightarrow> occurrence \<Rightarrow> string list \<Rightarrow> seed_world \<Rightarrow> string \<times> int \<Rightarrow> observation list list" where
  "retained_chunks E oc roots w resolved =
     (case resolved of (hostname, hop) \<Rightarrow>
        let W = sd_redirect w hostname hop
        in [redirectDNSObservations (ae_dns E) (fst (rw_replies W)) hostname hop oc roots,
            redirectDNSObservations (ae_dns E) (snd (rw_replies W)) hostname hop oc roots])"

definition no_approved_address :: "http_result \<Rightarrow> http_result" where
  "no_approved_address r =
     r\<lparr>hx_Coverage := (hx_Coverage r)\<lparr>cv_Status := CoverageUnavailable, cv_Reason := ''no approved address''\<rparr>\<rparr>"

definition dns_params :: "app_env \<Rightarrow> limits \<Rightarrow> service \<Rightarrow> normalized_request \<Rightarrow> occurrence \<Rightarrow> string \<Rightarrow> seed_world \<Rightarrow> bool \<Rightarrow> walk_params" where
  "dns_params E limits s request oc seed w publish =
     \<lparr>wp_env = ae_dns E, wp_world = sd_world w, wp_limits = limits, wp_seed = seed,
      wp_port = seedPort (ae_http E) request seed (sv_httpScheme s), wp_occurrence = oc, wp_publish = publish\<rparr>"

definition fetch_seed ::
    "app_env \<Rightarrow> service \<Rightarrow> http_collector \<Rightarrow> normalized_request \<Rightarrow> occurrence \<Rightarrow> string \<Rightarrow> seed_world \<Rightarrow> addr list
      \<Rightarrow> http_result \<times> go_error option \<times> http_chain" where
  "fetch_seed E s C request oc seed w addresses =
     CollectTargetCandidatesOccurrenceWithRedirectResolver C (ae_http E) (sd_http w)
       (seedURL (ae_http E) request seed (sv_httpScheme s)) addresses oc
       (\<lambda>hostname hop. redirect_stream (hc_maxCandidates C) (sd_redirect w hostname hop)
          (redirectResolver (ae_dns E) oc (nr_ScopeRoots request) (sd_redirect w hostname hop) hostname hop))"

definition seed_http ::
    "app_env \<Rightarrow> service \<Rightarrow> http_collector \<Rightarrow> normalized_request \<Rightarrow> occurrence \<Rightarrow> string \<Rightarrow> seed_world \<Rightarrow> addr list
      \<Rightarrow> http_result \<times> observation list \<times> go_error option" where
  "seed_http E s C request oc seed w addresses =
     (case fetch_seed E s C request oc seed w addresses of
        (result, err, k) \<Rightarrow>
          let retained = concat (sd_order w (concat (map (retained_chunks E oc (nr_ScopeRoots request) w) (ch_resolved k))))
          in if ErrorCodeOf err = CodeCapabilityUnavailable then (no_approved_address result, retained, None)
             else (result, retained, err))"

definition collect_seed ::
    "app_env \<Rightarrow> limits \<Rightarrow> service \<Rightarrow> normalized_request \<Rightarrow> string \<Rightarrow> (nat \<Rightarrow> seed_world) \<Rightarrow> nat \<times> string \<Rightarrow> seed_run" where
  "collect_seed E limits s request runID worlds entry =
     (case entry of (index, seed) \<Rightarrow>
        let w = worlds index; oc = seed_occurrence_of runID index seed;
            http = (if nr_Mode request = ModeFull then sv_http s else None)
        in case collectOccurrence (dns_params E limits s request oc seed w (http \<noteq> None)) (sd_arrivals w) (sd_graph w) (sd_done w) of
            (result, published, _, _) \<Rightarrow>
              (case http of
                 None \<Rightarrow> \<lparr>sr_hostname = seed, sr_dns = result, sr_http = None\<rparr>
               | Some C \<Rightarrow>
                   (case deliver (sd_room w) (nat (addressLimit s)) 0 0 (map cd_Address published) of
                      (taken, dropped) \<Rightarrow>
                        \<lparr>sr_hostname = seed,
                         sr_dns = (if dropped > 0
                                   then result\<lparr>dc_Coverage := degrade dropped [CodeBudgetExceeded] (dc_Coverage result)\<rparr> else result),
                         sr_http = Some (seed_http E s C request oc seed w taken)\<rparr>)))"

section \<open>An analysis\<close>

record analysis_world =
  aw_admission :: admission
  aw_runID :: "go_error + string"
  aw_startedAt :: gotime
  aw_classifiedAt :: gotime
  aw_endedAt :: gotime
  aw_ct :: "nat \<Rightarrow> go_error option"
  aw_seeds :: "nat \<Rightarrow> seed_world"
  aw_web :: "nat \<Rightarrow> go_error option"
  aw_detect :: "nat \<Rightarrow> nat \<Rightarrow> go_error option"
  aw_enrich :: "nat \<Rightarrow> go_error option"
  aw_ended :: "go_error option"

definition bound_seeds :: "app_env \<Rightarrow> service \<Rightarrow> normalized_request \<Rightarrow> normalized_request \<times> coverage list" where
  "bound_seeds E s request =
     (let limit = seedLimit s; planned = int (length (nr_SeedHostnames request)) in
      if planned > limit
      then
        let seeds = boundedSeeds (ae_http E) request limit; omitted = planned - limit
        in (request\<lparr>nr_SeedHostnames := seeds\<rparr>,
            [zero_coverage\<lparr>cv_Capability := ''seed_hostnames'', cv_Status := CoveragePartial,
               cv_Attempted := int (length seeds) + omitted, cv_Completed := int (length seeds), cv_Omitted := omitted,
               cv_Reason := ''configured seed hostname limit reached'', cv_ErrorCodes := [CodeBudgetExceeded]\<rparr>])
      else (request, []))"

definition rescope_dns :: "scope \<Rightarrow> observation \<Rightarrow> observation" where
  "rescope_dns sc ob = (if ob_Scope ob = [] \<or> ob_Scope ob = ScopeRoot then ob\<lparr>ob_Scope := sc\<rparr> else ob)"

definition rescope_http :: "scope \<Rightarrow> observation \<Rightarrow> observation" where
  "rescope_http sc ob = (if ob_Scope ob \<noteq> ScopeExternalRedirect then ob\<lparr>ob_Scope := sc\<rparr> else ob)"

definition run_scope :: "normalized_request \<Rightarrow> seed_run \<Rightarrow> scope" where
  "run_scope request r = scopeForSeed (sr_hostname r) (nr_ScopeRoots request)"

definition http_runs :: "seed_run list \<Rightarrow> (seed_run \<times> http_result \<times> observation list \<times> go_error option) list" where
  "http_runs runs = concat (map (\<lambda>r. case sr_http r of None \<Rightarrow> [] | Some x \<Rightarrow> [(r, x)]) runs)"

definition collected_observations :: "normalized_request \<Rightarrow> observation list \<Rightarrow> seed_run list \<Rightarrow> observation list" where
  "collected_observations request ct_observations runs =
     ct_observations
     @ concat (map (\<lambda>r. map (rescope_dns (run_scope request r)) (dc_Observations (sr_dns r))) runs)
     @ concat (map (\<lambda>(r, result, retained, _). retained @ map (rescope_http (run_scope request r)) (hx_Observations result)) (http_runs runs))"

definition collected_coverage :: "normalized_request \<Rightarrow> seed_run list \<Rightarrow> coverage list" where
  "collected_coverage request runs =
     map (dc_Coverage \<circ> sr_dns) runs
     @ (if nr_Mode request = ModeDNS
        then [zero_coverage\<lparr>cv_Capability := ''http'', cv_Status := CoverageSkipped, cv_Reason := ''DNS-only mode''\<rparr>]
        else if http_runs runs = [] then [unavailable ''http'' ''no approved address''] else [])
     @ concat (map (\<lambda>(r, result, _). hx_Coverage result # hx_SignalCoverage result) (http_runs runs))"

text \<open>Technologies of the responses that were collected without an error.\<close>

definition web_technologies ::
    "app_env \<Rightarrow> web_detector \<Rightarrow> (nat \<Rightarrow> go_error option) \<Rightarrow> normalized_request \<Rightarrow> seed_run list \<Rightarrow> (observation list \<times> coverage) list" where
  "web_technologies E web ctx request runs =
     map (\<lambda>(n, r, result, _).
        case web (ctx n) (hx_Headers result) (hx_Body result) of
          (detected, item) \<Rightarrow>
            (List.map_filter (\<lambda>d. technologyObservation E d (rescope_http (run_scope request r) (hx_Observation result))) detected, item))
       (enumerate 0 (filter (\<lambda>(r, result, _, err). err = None \<and> ob_ID (hx_Observation result) \<noteq> []) (http_runs runs)))"

definition detect_all ::
    "detector list \<Rightarrow> (nat \<Rightarrow> nat \<Rightarrow> go_error option) \<Rightarrow> observation list \<Rightarrow> (evidence \<Rightarrow> evidence) \<Rightarrow> evidence list \<times> coverage list" where
  "detect_all detectors ctx observations stamp =
     (let outputs = map (\<lambda>(n, detect). detect (ctx n) observations) (enumerate 0 detectors)
      in (map stamp (concat (map fst outputs)), concat (map snd outputs)))"

definition stamp_missing :: "gotime \<Rightarrow> evidence \<Rightarrow> evidence" where
  "stamp_missing t ev = (if ev_ClassifiedAt ev = 0 then ev\<lparr>ev_ClassifiedAt := t\<rparr> else ev)"

definition option_list :: "'a option \<Rightarrow> 'a list" where
  "option_list x = (case x of None \<Rightarrow> [] | Some y \<Rightarrow> [y])"

definition identified :: "app_env \<Rightarrow> string \<Rightarrow> string \<Rightarrow> report \<Rightarrow> go_error + report" where
  "identified E id_failed references_failed r =
     (case ContentID (ae_content E) r of
        Inl e \<Rightarrow> Inl (Wrap id_failed e)
      | Inr i \<Rightarrow>
          (case ValidateReferences (r\<lparr>re_ID := i\<rparr>) of
             Some e \<Rightarrow> Inl (Wrap references_failed e)
           | None \<Rightarrow> Inr (r\<lparr>re_ID := i\<rparr>)))"

text \<open>From the collected observations to the evidence: detectors, unmapped technologies and enrichment.\<close>

definition classified ::
    "app_env \<Rightarrow> service \<Rightarrow> (nat \<Rightarrow> nat \<Rightarrow> go_error option) \<Rightarrow> (nat \<Rightarrow> go_error option) \<Rightarrow> gotime \<Rightarrow> (evidence \<Rightarrow> evidence) \<Rightarrow> coverage list
      \<Rightarrow> observation list \<Rightarrow> go_error + evidence list \<times> coverage list" where
  "classified E s detect_ctx enrich_ctx t stamp replay observations =
     (case detect_all (sv_detectors s) detect_ctx observations stamp of (detected, detector_coverage) \<Rightarrow>
      (case classifyUnmappedTechnology E observations detected t of (technology, technology_coverage) \<Rightarrow>
        and_then (enrichAddresses E s enrich_ctx observations t) (\<lambda>(enriched, enriched_coverage).
          Inr (detected @ technology @ enriched,
               detector_coverage @ option_list technology_coverage @ replay @ enriched_coverage))))"


text \<open>The observations that were collected, the coverage of the collection, and the technologies of the responses.\<close>

definition collected ::
    "app_env \<Rightarrow> service \<Rightarrow> analysis_world \<Rightarrow> normalized_request \<Rightarrow> coverage list \<Rightarrow> observation list \<Rightarrow> seed_run list
      \<Rightarrow> observation list \<times> coverage list" where
  "collected E s w request planned ct_observations runs =
     (let observations = collected_observations request ct_observations runs;
          tlsAttempted = list_ex (\<lambda>(_, result, _). hx_TLSAttempted result) (http_runs runs);
          coverage = planned @ collected_coverage request runs
            @ [tlsCertificateCoverage E request observations (sv_httpScheme s) tlsAttempted];
          technologies = (case sv_webDetector s of None \<Rightarrow> [] | Some web \<Rightarrow> web_technologies E web (aw_web w) request runs)
      in (observations @ concat (map fst technologies), coverage @ map snd technologies))"

definition live_report ::
    "app_env \<Rightarrow> service \<Rightarrow> analysis_world \<Rightarrow> normalized_request \<Rightarrow> observation list \<Rightarrow> evidence list \<Rightarrow> coverage list \<Rightarrow> report" where
  "live_report E s w request observations evidence coverage =
     \<lparr>re_SchemaVersion = SchemaVersion, re_ContentIDVersion = ReportContentIDVersion, re_ID = [], re_OriginalReportID = [],
      re_Target = nr_Target request, re_Mode = nr_Mode request, re_StartedAt = aw_startedAt w, re_EndedAt = aw_endedAt w,
      re_ClassifiedAt = aw_classifiedAt w, re_BundleID = av_bundleID (sv_view s), re_BuildID = CompatibilityID (sv_buildProvenance s),
      re_Provenance = Some (liveProvenance s), re_Status = reportStatus (aw_ended w) observations coverage,
      re_Observations = observations, re_Evidence = evidence, re_Findings = findings_of E evidence, re_Coverage = coverage,
      re_Warnings = []\<rparr>"

text \<open>What is decided before any seed is collected: the limits of the DNS collector, the run, the seeds, the
  observations and the coverage of their discovery.\<close>

record analysis_plan =
  ap_limits :: limits
  ap_runID :: string
  ap_request :: normalized_request
  ap_observations :: "observation list"
  ap_coverage :: "coverage list"

definition plan_analysis :: "target_env \<Rightarrow> app_env \<Rightarrow> service \<Rightarrow> analysis_world \<Rightarrow> analyze_request \<Rightarrow> go_error + analysis_plan" where
  "plan_analysis T E s w request =
     (case NormalizeWithSeedLimit T request (max (li_SeedHostnames DefaultLimits) (seedLimit s)) of
        Inl e \<Rightarrow> Inl (Wrap ''normalize target'' e)
      | Inr normalized \<Rightarrow>
          if tg_Kind (nr_Target normalized) = TargetIP
          then Inl (NewError CodeInvalidOptions ''use LookupIP for an IP target'' None)
          else case sv_dns s of
            None \<Rightarrow> Inl (NewError CodeCapabilityUnavailable ''DNS collector is unavailable'' None)
          | Some limits \<Rightarrow>
              (case admit (aw_admission w) of
                 Some e \<Rightarrow> Inl e
               | None \<Rightarrow>
                   (case aw_runID w of
                      Inl e \<Rightarrow> Inl (Wrap ''create collection run ID'' e)
                    | Inr runID \<Rightarrow>
                        (case bound_seeds E s normalized of (bounded, seed_coverage) \<Rightarrow>
                          (case planCTDiscovery E s (aw_ct w) runID bounded of (planned, ct_observations, ct_coverage) \<Rightarrow>
                            Inr \<lparr>ap_limits = limits, ap_runID = runID, ap_request = planned, ap_observations = ct_observations,
                              ap_coverage = seed_coverage @ option_list ct_coverage\<rparr>)))))"

definition seed_runs :: "app_env \<Rightarrow> service \<Rightarrow> analysis_world \<Rightarrow> analysis_plan \<Rightarrow> seed_run list" where
  "seed_runs E s w p =
     map (collect_seed E (ap_limits p) s (ap_request p) (ap_runID p) (aw_seeds w)) (enumerate 0 (nr_SeedHostnames (ap_request p)))"

definition analyze_seeds :: "app_env \<Rightarrow> service \<Rightarrow> analysis_world \<Rightarrow> analysis_plan \<Rightarrow> go_error + report" where
  "analyze_seeds E s w p =
     (case collected E s w (ap_request p) (ap_coverage p) (ap_observations p) (seed_runs E s w p) of (observations, coverage) \<Rightarrow>
       and_then (classified E s (aw_detect w) (aw_enrich w) (aw_classifiedAt w) (stamp_missing (aw_classifiedAt w)) [] observations)
         (\<lambda>(evidence, more).
           identified E ''create report ID'' ''validate report references''
             (live_report E s w (ap_request p) observations evidence (coverage @ more))))"

definition Analyze :: "target_env \<Rightarrow> app_env \<Rightarrow> service \<Rightarrow> analysis_world \<Rightarrow> analyze_request \<Rightarrow> go_error + report" where
  "Analyze T E s w request = and_then (plan_analysis T E s w request) (analyze_seeds E s w)"

section \<open>Reclassification\<close>

definition load_replay :: "(nat \<Rightarrow> string \<Rightarrow> go_error + report) \<Rightarrow> nat \<Rightarrow> string \<Rightarrow> go_error + report" where
  "load_replay store n reportID =
     (case store n reportID of
        Inl e \<Rightarrow> Inl (if ErrorCodeOf (Some e) \<noteq> CodeNone then Wrap ''load replay input'' e
                      else NewError CodePersistenceFailed ''load replay input'' (Some e))
      | Inr original \<Rightarrow> (case validateHistoricalReportTarget original of Some e \<Rightarrow> Inl e | None \<Rightarrow> Inr original))"

definition address_path :: "app_env \<Rightarrow> service \<Rightarrow> observation list \<Rightarrow> bool" where
  "address_path E s observations =
     (let inputs = addressInputs E observations
      in inputs \<noteq> [] \<and> sv_prefixes s \<noteq> None \<and> sourceGroupUsable s ''prefix_source/''
       \<or> sv_asn s \<noteq> None \<and> list_ex (\<lambda>input. sourceCapabilityUsable s (asn_source (in_address input))) inputs)"

definition ValidateReclassify :: "app_env \<Rightarrow> service \<Rightarrow> string \<Rightarrow> string \<Rightarrow> go_error option" where
  "ValidateReclassify E s reportID bundleID =
     (if reportID = [] then Some (NewError CodeInvalidOptions ''report ID is required'' None)
      else case sv_store s of
        None \<Rightarrow> Some (NewError CodeCapabilityUnavailable ''reclassification input storage is unavailable'' None)
      | Some store \<Rightarrow>
          if bundleID \<noteq> [] \<and> bundleID \<noteq> av_bundleID (sv_view s)
          then Some (NewError CodeBundleUnavailable ''requested bundle is not loaded'' None)
          else case load_replay store 0 reportID of
            Inl e \<Rightarrow> Some e
          | Inr original \<Rightarrow>
              if re_Observations original = [] \<and> re_Evidence original = []
              then Some (NewError CodeCapabilityUnavailable ''report has no retained replay inputs'' None)
              else if \<not> (sv_detectors s \<noteq> [] \<and> re_Observations original \<noteq> [])
                \<and> \<not> list_ex (\<lambda>ob. ob_Type ob = ''technology'') (re_Observations original)
                \<and> \<not> address_path E s (re_Observations original)
              then Some (NewError CodeCapabilityUnavailable ''no replay classifier is usable for retained inputs'' None)
              else None)"

record replay_world =
  ry_admission :: admission
  ry_classifiedAt :: gotime
  ry_endedAt :: gotime
  ry_detect :: "nat \<Rightarrow> nat \<Rightarrow> go_error option"
  ry_enrich :: "nat \<Rightarrow> go_error option"

abbreviation "original_collection \<equiv> ''original_collection/''"

definition original_coverage :: "report \<Rightarrow> coverage list" where
  "original_coverage original = map (\<lambda>c. c\<lparr>cv_Capability := original_collection @ cv_Capability c\<rparr>) (re_Coverage original)"

definition replay_coverage :: "app_env \<Rightarrow> report \<Rightarrow> coverage list" where
  "replay_coverage E original =
     original_coverage original @ replayScriptSignalCoverage E (re_Observations original)
       @ [replayTLSCertificateCoverage E original (re_Observations original)]"

definition replay_webtech :: "service \<Rightarrow> observation list \<Rightarrow> coverage list" where
  "replay_webtech s observations =
     (if sv_webDetector s \<noteq> None \<and> list_ex (\<lambda>ob. ob_Type ob = ''http_response'') observations
       \<and> \<not> list_ex (\<lambda>ob. ob_Type ob = ''technology'') observations
      then [unavailable ''replay_webtech'' ''raw response bytes and raw technology labels were not retained''] else [])"

definition replayStatus :: "coverage list \<Rightarrow> report_status" where
  "replayStatus coverage =
     (if list_ex (\<lambda>item. \<not> has_prefix (cv_Capability item) original_collection \<and> incomplete_coverage item) coverage
      then StatusPartial else StatusComplete)"

definition replayed_report :: "app_env \<Rightarrow> service \<Rightarrow> replay_world \<Rightarrow> report \<Rightarrow> evidence list \<Rightarrow> coverage list \<Rightarrow> report" where
  "replayed_report E s w original evidence coverage =
     \<lparr>re_SchemaVersion = SchemaVersion, re_ContentIDVersion = ReportContentIDVersion, re_ID = [], re_OriginalReportID = re_ID original,
      re_Target = re_Target original, re_Mode = ModeReclassify, re_StartedAt = ry_classifiedAt w, re_EndedAt = ry_endedAt w,
      re_ClassifiedAt = ry_classifiedAt w, re_BundleID = av_bundleID (sv_view s), re_BuildID = CompatibilityID (sv_buildProvenance s),
      re_Provenance = Some (reclassificationProvenance s original), re_Status = replayStatus coverage,
      re_Observations = re_Observations original, re_Evidence = evidence, re_Findings = findings_of E evidence, re_Coverage = coverage,
      re_Warnings = []\<rparr>"

text \<open>The store is read twice, by the validation and by the replay.\<close>

definition Reclassify :: "app_env \<Rightarrow> service \<Rightarrow> replay_world \<Rightarrow> string \<Rightarrow> string \<Rightarrow> go_error + report" where
  "Reclassify E s w reportID bundleID =
     (case ValidateReclassify E s reportID bundleID of
        Some e \<Rightarrow> Inl e
      | None \<Rightarrow>
          (case (case ad_controller (ry_admission w) of None \<Rightarrow> None | Some _ \<Rightarrow> admit (ry_admission w)) of
             Some e \<Rightarrow> Inl e
           | None \<Rightarrow>
               and_then (load_replay (the (sv_store s)) 1 reportID) (\<lambda>original.
               and_then (classified E s (ry_detect w) (ry_enrich w) (ry_classifiedAt w)
                   (\<lambda>ev. ev\<lparr>ev_ClassifiedAt := ry_classifiedAt w\<rparr>) (replay_webtech s (re_Observations original)) (re_Observations original))
                 (\<lambda>(evidence, more).
                   identified E ''create reclassified report ID'' ''validate reclassified report references''
                     (replayed_report E s w original evidence (replay_coverage E original @ more))))))"

end
