(* ===== verification/App_Seeds.thy ===== *)
theory App_Seeds
  imports App_Service
begin

text \<open>
  The seeds an analysis takes from certificate transparency: the contract of the source of names behind
  internal/app, what the plan guarantees over it, and the index of internal/ctlog that keeps it.
\<close>

section \<open>The candidates of one root\<close>

text \<open>The plan \<open>p'\<close> has the seeds \<open>new\<close> over \<open>p\<close>, each with an observation.\<close>

definition adds :: "ct_plan \<Rightarrow> string list \<Rightarrow> ct_plan \<Rightarrow> bool" where
  "adds p new p' \<longleftrightarrow> pl_seeds p' = pl_seeds p @ new \<and> map ob_Subject (pl_observations p') = map ob_Subject (pl_observations p) @ new
     \<and> pl_limit p' = pl_limit p - int (length new) \<and> pl_coverage p' = pl_coverage p \<and> pl_partial p' = pl_partial p"

lemma adds_trans: "adds p xs p1 \<Longrightarrow> adds p1 ys p2 \<Longrightarrow> adds p (xs @ ys) p2"
  by (simp add: adds_def)

lemma candidate_added:
  assumes "ae_marshal_candidate E c = Inr v"
  shows "adds p (if ca_Hostname c \<in> set (pl_seeds p) then [] else [ca_Hostname c]) (plan_candidate E runID root (n, c) p)"
  using assms by (simp add: adds_def plan_candidate_def Let_def ct_observation_def)

lemma candidates_added:
  assumes "\<And>c. \<exists>v. ae_marshal_candidate E c = Inr v" "distinct (pl_seeds p)"
  shows "\<exists>new. adds p new (fold (plan_candidate E runID root) (enumerate n cs) p) \<and> distinct (pl_seeds p @ new)
    \<and> set new = ca_Hostname ` set cs - set (pl_seeds p) \<and> length new \<le> length cs"
  using assms(2)
proof (induction cs arbitrary: n p)
  case Nil
  then show ?case by (simp add: adds_def)
next
  case (Cons c cs)
  define one where "one = (if ca_Hostname c \<in> set (pl_seeds p) then [] else [ca_Hostname c])"
  obtain v where "ae_marshal_candidate E c = Inr v" using assms(1) by blast
  from candidate_added [OF this] have first: "adds p one (plan_candidate E runID root (n, c) p)" by (simp add: one_def)
  then have seeds: "pl_seeds (plan_candidate E runID root (n, c) p) = pl_seeds p @ one" by (simp add: adds_def)
  moreover have "distinct (pl_seeds p @ one)" using Cons.prems by (simp add: one_def)
  ultimately obtain new where "adds (plan_candidate E runID root (n, c) p) new
        (fold (plan_candidate E runID root) (enumerate (Suc n) cs) (plan_candidate E runID root (n, c) p))"
      "distinct ((pl_seeds p @ one) @ new)" "set new = ca_Hostname ` set cs - set (pl_seeds p @ one)" "length new \<le> length cs"
    using Cons.IH [of "plan_candidate E runID root (n, c) p" "Suc n"] by auto
  with adds_trans [OF first this(1)] show ?case
    by (intro exI [of _ "one @ new"]) (auto simp: one_def)
qed

section \<open>The contract of a source of names\<close>

text \<open>A source that knows the names \<open>known root\<close> at or below a root returns, of a query that succeeds, at most
  as many of them as it was asked for, and counts those it left out.\<close>

locale name_source =
  fixes discover :: "'i \<Rightarrow> ct_reader" and loaded :: "'i \<Rightarrow> (string \<Rightarrow> string set) \<Rightarrow> bool"
  assumes answered: "loaded i known \<Longrightarrow> discover i ctx root limit = Inr q \<Longrightarrow> 0 < limit \<Longrightarrow>
      int (length (qr_Candidates q)) \<le> limit \<and> ca_Hostname ` set (qr_Candidates q) \<subseteq> known root
      \<and> qr_Available q = length (qr_Candidates q) + qr_Omitted q
      \<and> (qr_Omitted q = 0 \<longrightarrow> known root \<subseteq> ca_Hostname ` set (qr_Candidates q))"
begin

text \<open>What the loop over the roots keeps: the names it added to the seeds \<open>old\<close> are known at the roots it has
  asked for, and unless the plan is partial they are all of those.\<close>

definition planned :: "(string \<Rightarrow> string set) \<Rightarrow> string list \<Rightarrow> int \<Rightarrow> string set \<Rightarrow> ct_plan \<Rightarrow> bool" where
  "planned known old limit roots p \<longleftrightarrow>
     pl_seeds p = old @ map ob_Subject (pl_observations p) \<and> distinct (pl_seeds p)
     \<and> ob_Subject ` set (pl_observations p) \<subseteq> \<Union> (known ` roots)
     \<and> pl_limit p = limit - int (length (pl_observations p)) \<and> 0 \<le> pl_limit p
     \<and> (\<not> pl_partial p \<longrightarrow> \<Union> (known ` roots) \<subseteq> set (pl_seeds p) \<and> cv_Omitted (pl_coverage p) = 0)
     \<and> 0 \<le> cv_Omitted (pl_coverage p) \<and> 0 \<le> cv_Attempted (pl_coverage p)
     \<and> (cv_Attempted (pl_coverage p) = 0 \<longrightarrow> \<Union> (known ` roots) = {} \<and> pl_limit p = limit)"

lemma root_planned:
  assumes "planned known old limit roots p" "loaded i known" "discover i ctx root (pl_limit p) = Inr q" "0 < pl_limit p"
    and "\<And>c. \<exists>v. ae_marshal_candidate E c = Inr v"
    and p': "pl_seeds p' = pl_seeds p" "pl_observations p' = pl_observations p" "pl_limit p' = pl_limit p"
      "cv_Attempted (pl_coverage p') = cv_Attempted (pl_coverage p) + int (qr_Available q)"
      "cv_Omitted (pl_coverage p') = cv_Omitted (pl_coverage p) + int (qr_Omitted q)"
      "pl_partial p' = (pl_partial p \<or> qr_Partial q \<or> qr_Omitted q > 0)"
  shows "planned known old limit (insert root roots) (fold (plan_candidate E runID root) (enumerate 0 (qr_Candidates q)) p')"
proof -
  define cs where "cs = qr_Candidates q"
  note q = answered [OF assms(2-4), folded cs_def]
  define new where "new = map ob_Subject (pl_observations p)"
  with assms(1) have new: "pl_seeds p = old @ new" "distinct (pl_seeds p)" "set new \<subseteq> \<Union> (known ` roots)"
      "map ob_Subject (pl_observations p) = new" "pl_limit p = limit - int (length new)"
    unfolding planned_def new_def set_map length_map by blast+
  obtain more where more: "adds p' more (fold (plan_candidate E runID root) (enumerate 0 cs) p')" "distinct (pl_seeds p @ more)"
      "set more = ca_Hostname ` set cs - set (pl_seeds p)" "length more \<le> length cs"
    using candidates_added [OF assms(5), of p' runID root 0 cs] new(2) p'(1) by auto
  define r where "r = fold (plan_candidate E runID root) (enumerate 0 cs) p'"
  have r: "pl_seeds r = old @ (new @ more)" "map ob_Subject (pl_observations r) = new @ more" "pl_limit r = pl_limit p - int (length more)"
      "pl_coverage r = pl_coverage p'" "pl_partial r = pl_partial p'" "distinct (pl_seeds r)" "set (pl_seeds r) = set (pl_seeds p) \<union> ca_Hostname ` set cs"
    using more new p' by (auto simp: adds_def r_def)
  have "set (new @ more) \<subseteq> \<Union> (known ` insert root roots)" using new(3) more(3) q by auto
  moreover have "pl_limit r = limit - int (length (new @ more))" "0 \<le> pl_limit r" using r(3) new(5) more(4) q by auto
  moreover have "\<Union> (known ` insert root roots) \<subseteq> set (pl_seeds r) \<and> cv_Omitted (pl_coverage r) = 0" if "\<not> pl_partial r"
  proof -
    have "\<not> pl_partial p" "qr_Omitted q = 0" using that r(5) p'(6) by auto
    then have "\<Union> (known ` roots) \<subseteq> set (pl_seeds p)" "cv_Omitted (pl_coverage p) = 0" "known root \<subseteq> ca_Hostname ` set cs"
      using assms(1) q unfolding planned_def by blast+
    then show ?thesis using \<open>qr_Omitted q = 0\<close> r(4,7) p'(5) by auto
  qed
  moreover have "\<Union> (known ` insert root roots) = {} \<and> pl_limit r = limit" if "cv_Attempted (pl_coverage r) = 0"
  proof -
    have "cv_Attempted (pl_coverage p) = 0 \<and> qr_Available q = 0" using that assms(1) unfolding r p' by (auto simp: planned_def)
    with assms(1) q more(4) show ?thesis by (auto simp: planned_def r(3))
  qed
  moreover have "0 \<le> cv_Omitted (pl_coverage r)" "0 \<le> cv_Attempted (pl_coverage r)"
    using assms(1) unfolding r(4) p'(4,5) planned_def by simp_all
  ultimately have "planned known old limit (insert root roots) r"
    using r(1,6) unfolding planned_def r(2) by (metis length_map list.set_map r(2))
  then show ?thesis by (simp add: r_def cs_def)
qed

lemma roots_planned:
  assumes "plan_roots E (discover i) ctx runID n roots p = (p', err)" "planned known old limit done p" "loaded i known" "0 < limit"
    and "\<And>c. \<exists>v. ae_marshal_candidate E c = Inr v"
  shows "\<exists>asked \<subseteq> set roots. planned known old limit (done \<union> asked) p' \<and> (err = None \<longrightarrow> asked = set roots \<or> pl_partial p' \<and> cv_Omitted (pl_coverage p') > 0 \<and> cv_Attempted (pl_coverage p') \<noteq> 0)"
  using assms(1,2)
proof (induction roots arbitrary: n p "done")
  case Nil
  then show ?case by auto
next
  case (Cons root roots)
  show ?case
  proof (cases "pl_limit p \<le> 0")
    case True
    then have "cv_Attempted (pl_coverage p) \<noteq> 0" using Cons.prems(2) assms(4) by (auto simp: planned_def)
    with True Cons.prems show ?thesis by (intro exI [of _ "{}"]) (auto simp: planned_def)
  next
    case False
    show ?thesis
    proof (cases "discover i (ctx n) root (pl_limit p)")
      case (Inl e)
      with Cons.prems False show ?thesis by (intro exI [of _ "{}"]) auto
    next
      case (Inr q)
      define c where "c = (pl_coverage p)\<lparr>cv_Attempted := cv_Attempted (pl_coverage p) + int (qr_Available q),
        cv_Omitted := cv_Omitted (pl_coverage p) + int (qr_Omitted q)\<rparr>"
      define p1 where "p1 = p\<lparr>pl_coverage := c\<lparr>cv_ErrorCodes := (if qr_Omitted q > 0 then once CodeBudgetExceeded (cv_ErrorCodes c) else cv_ErrorCodes c)\<rparr>,
        pl_partial := pl_partial p \<or> qr_Partial q \<or> qr_Omitted q > 0, pl_identities := pl_identities p @ [qr_IndexIdentity q]\<rparr>"
      define p2 where "p2 = fold (plan_candidate E runID root) (enumerate 0 (qr_Candidates q)) p1"
      have rest: "plan_roots E (discover i) ctx runID (Suc n) roots p2 = (p', err)"
        using Cons.prems(1) False Inr by (cases "qr_Omitted q > 0") (simp_all add: p2_def p1_def c_def Let_def)
      have "planned known old limit (insert root done) p2"
        unfolding p2_def
        by (rule root_planned [OF Cons.prems(2) assms(3) Inr _ assms(5)]) (use False in \<open>simp_all add: p1_def c_def\<close>)
      from Cons.IH [OF rest this] obtain asked where "asked \<subseteq> set roots" "planned known old limit (insert root done \<union> asked) p'"
          "err = None \<longrightarrow> asked = set roots \<or> pl_partial p' \<and> cv_Omitted (pl_coverage p') > 0 \<and> cv_Attempted (pl_coverage p') \<noteq> 0" by blast
      then show ?thesis by (intro exI [of _ "insert root asked"]) auto
    qed
  qed
qed


text \<open>The whole plan.\<close>

lemma discovery_planned:
  assumes "planCTDiscovery E s ctx runID request = (request', obs, Some coverage)"
    and "sv_ct s = Some (discover i)" "loaded i known" "\<And>c. \<exists>v. ae_marshal_candidate E c = Inr v"
    and "distinct (nr_SeedHostnames request)"
  shows "\<exists>new. nr_SeedHostnames request' = nr_SeedHostnames request @ new \<and> distinct (nr_SeedHostnames request')
    \<and> set new \<subseteq> \<Union> (known ` set (nr_ScopeRoots request)) \<and> map ob_Subject obs = new
    \<and> (new \<noteq> [] \<longrightarrow> int (length new) \<le> ct_limit s request)
    \<and> (cv_Status coverage = CoverageComplete \<longrightarrow> \<Union> (known ` set (nr_ScopeRoots request)) \<subseteq> set (nr_SeedHostnames request'))"
proof (cases "nr_CTDiscovery request \<and> sv_ctEnabled s \<and> 0 < ct_limit s request")
  case False
  with assms(1,2,5) show ?thesis by (auto simp: planCTDiscovery_def Let_def split: if_splits)
next
  case True
  define p0 where "p0 = \<lparr>pl_seeds = nr_SeedHostnames request, pl_observations = [], pl_limit = ct_limit s request,
    pl_coverage = zero_coverage\<lparr>cv_Capability := ''ct_discovery''\<rparr>, pl_partial = False, pl_identities = []\<rparr>"
  obtain p err where p: "plan_roots E (discover i) ctx runID 0 (nr_ScopeRoots request) p0 = (p, err)" by fastforce
  have "planned known (nr_SeedHostnames request) (ct_limit s request) {} p0"
    using True assms(5) by (auto simp: planned_def p0_def zero_coverage_def)
  from roots_planned [OF p this assms(3) _ assms(4)] True obtain asked where asked: "asked \<subseteq> set (nr_ScopeRoots request)"
      "planned known (nr_SeedHostnames request) (ct_limit s request) asked p"
      "err = None \<longrightarrow> asked = set (nr_ScopeRoots request) \<or> pl_partial p \<and> cv_Omitted (pl_coverage p) > 0 \<and> cv_Attempted (pl_coverage p) \<noteq> 0"
    by auto
  have out: "request' = request\<lparr>nr_SeedHostnames := pl_seeds p\<rparr>" "obs = pl_observations p"
      "coverage = (case err of Some e \<Rightarrow> (pl_coverage p)\<lparr>cv_Status := CoverageUnavailable, cv_Reason := ''query local CT index: '' @ error_string e\<rparr>
        | None \<Rightarrow> ct_completed p)"
    using assms(1,2) True p by (auto simp: planCTDiscovery_def Let_def p0_def)
  define new where "new = map ob_Subject (pl_observations p)"
  with asked(2) have new: "pl_seeds p = nr_SeedHostnames request @ new" "distinct (pl_seeds p)" "set new \<subseteq> \<Union> (known ` asked)"
      "map ob_Subject (pl_observations p) = new" "pl_limit p = ct_limit s request - int (length new)" "0 \<le> pl_limit p"
    unfolding planned_def new_def set_map length_map by blast+
  have "\<Union> (known ` set (nr_ScopeRoots request)) \<subseteq> set (pl_seeds p)" if "cv_Status coverage = CoverageComplete"
  proof -
    have none: "err = None" and c: "cv_Status (ct_completed p) = CoverageComplete" using that out(3) by (auto split: option.splits)
    have att: "cv_Attempted (pl_coverage p) = 0 \<or> \<not> pl_partial p"
      using c by (auto simp: ct_completed_def Let_def split: if_splits)
    then have "asked = set (nr_ScopeRoots request)" using asked(3) none by auto
    with asked(2) att show ?thesis by (auto simp: planned_def)
  qed
  moreover have "set new \<subseteq> \<Union> (known ` set (nr_ScopeRoots request))" using new(3) asked(1) by blast
  moreover have "int (length new) \<le> ct_limit s request" using new(5,6) by simp
  ultimately show ?thesis using new(1,2,4) unfolding out(1,2) by (intro exI [of _ new]) simp
qed

end

section \<open>The index of logged names\<close>

type_synonym record_order = "(string \<times> ct_record) list \<Rightarrow> (string \<times> ct_record) list"
type_synonym ct_index = "(string \<Rightarrow> string) \<times> target_env \<times> record_order \<times> record_order \<times> ct_store"

definition index_names :: "ct_index \<Rightarrow> ct_reader" where
  "index_names i ctx root limit = (case i of (hash, env, o1, o2, store) \<Rightarrow> Discover hash env o1 o2 ctx root limit store)"

definition logged_names :: "target_env \<Rightarrow> ct_store \<Rightarrow> string \<Rightarrow> string set" where
  "logged_names env store root = (case ct_normalizeName env root of Inl _ \<Rightarrow> {} | Inr normal \<Rightarrow> ct_Name ` concrete normal store)"

definition names_loaded :: "ct_index \<Rightarrow> (string \<Rightarrow> string set) \<Rightarrow> bool" where
  "names_loaded i known = (case i of (hash, env, o1, o2, store) \<Rightarrow> permutes o1 \<and> permutes o2 \<and> known = logged_names env store)"

interpretation ct_names: name_source index_names names_loaded
proof (unfold_locales, goal_cases)
  case (1 i known ctx root limit q)
  obtain hash env o1 o2 store where i: "i = (hash, env, o1, o2, store)" by (metis prod_cases5)
  from 1 have o: "permutes o1" "permutes o2" "known = logged_names env store" by (simp_all add: names_loaded_def i)
  have q: "Discover hash env o1 o2 ctx root limit store = Inr q" using 1 by (simp add: index_names_def i)
  then obtain normal where n: "ctx = None" "ct_normalizeName env root = Inr normal" "1 \<le> limit"
    by (auto simp: Discover_def and_then_Inr_iff split: option.splits if_splits)
  define rs where "rs = ranked o2 (filter (discoverable normal) (map snd (o1 (st_records store))))"
  have r: "qr_Candidates q = map ct_candidate_of (take (nat limit) rs)" "qr_Available q = length rs" "qr_Omitted q = length rs - nat limit"
    using Discover_ranked [OF n(3,2) o(1), of hash o2 store] q unfolding n(1) by (auto simp: Let_def rs_def)
  have names: "ct_Name ` set rs = known root"
    unfolding rs_def ranked_props(2) [OF o(2)] set_candidates [OF o(1)] by (simp add: o(3) logged_names_def n(2))
  have host: "ca_Hostname ` set (map ct_candidate_of xs) = ct_Name ` set xs" for xs
    by (simp add: image_image ct_candidate_of_def)
  have "ca_Hostname ` set (qr_Candidates q) \<subseteq> known root"
    unfolding r(1) host names [symmetric] by (rule image_mono [OF set_take_subset])
  moreover have "known root \<subseteq> ca_Hostname ` set (qr_Candidates q)" if "qr_Omitted q = 0"
    using that unfolding r(1) host names [symmetric] r(3) by simp
  ultimately show ?case using r 1(3) by auto
qed

text \<open>C14: The seeds an analysis takes from the local certificate-transparency index follow the seeds of the
  request, repeat none of them, and are concrete names that a logged certificate carries at or below one
  of the request's scope roots; each has an observation. All together they stay within the seed limit and
  the new ones within the configured maximum. And when the coverage of the discovery is complete, every such name
  is among the seeds. The hypothesis on the encoder is that it encodes every candidate.\<close>

theorem ct_seeds_exact:
  assumes "planCTDiscovery E s ctx runID request = (request', obs, Some coverage)"
    and "sv_ct s = Some (index_names (hash, env, o1, o2, store))" "permutes o1" "permutes o2"
    and "\<And>c. \<exists>v. ae_marshal_candidate E c = Inr v"
    and "distinct (nr_SeedHostnames request)" "int (length (nr_SeedHostnames request)) \<le> seedLimit s"
  shows "\<exists>new. nr_SeedHostnames request' = nr_SeedHostnames request @ new \<and> distinct (nr_SeedHostnames request')
    \<and> set new \<subseteq> (\<Union>root \<in> set (nr_ScopeRoots request). logged_names env store root) \<and> map ob_Subject obs = new
    \<and> int (length (nr_SeedHostnames request')) \<le> seedLimit s
    \<and> int (length new) \<le> (if sv_ctMaximumSeed s \<le> 0 then 20 else sv_ctMaximumSeed s)
    \<and> (cv_Status coverage = CoverageComplete \<longrightarrow>
         (\<Union>root \<in> set (nr_ScopeRoots request). logged_names env store root) \<subseteq> set (nr_SeedHostnames request'))"
proof -
  have "names_loaded (hash, env, o1, o2, store) (logged_names env store)" using assms(3,4) by (simp add: names_loaded_def)
  from ct_names.discovery_planned [OF assms(1,2) this assms(5,6)] obtain new where
    "nr_SeedHostnames request' = nr_SeedHostnames request @ new" "distinct (nr_SeedHostnames request')"
    "set new \<subseteq> \<Union> (logged_names env store ` set (nr_ScopeRoots request))" "map ob_Subject obs = new"
    "new \<noteq> [] \<longrightarrow> int (length new) \<le> ct_limit s request"
    "cv_Status coverage = CoverageComplete \<longrightarrow> \<Union> (logged_names env store ` set (nr_ScopeRoots request)) \<subseteq> set (nr_SeedHostnames request')"
    by blast
  with assms(7) show ?thesis by (intro exI [of _ new]) (auto simp: ct_limit_def min_def split: if_splits)
qed

definition seeds_store :: ct_store where
  "seeds_store = snd (Import None [example_ct ''a.example.com'' 5 ProvenanceVerifiedLog] NewCtStore)"

definition seeds_service :: service where
  "seeds_service = look_service\<lparr>sv_ct := Some (index_names (\<lambda>s. s, plain_env, \<lambda>m. m, \<lambda>m. m,
     seeds_store)), sv_ctEnabled := True\<rparr>"

definition seeds_request :: normalized_request where
  "seeds_request = (plan_result (domain_request ''example.com'' []) ''example.com'' TargetDomain [''example.com''])
     \<lparr>nr_ScopeRoots := [''example.com''], nr_CTDiscovery := True\<rparr>"

lemma seeds_planned:
  "\<exists>obs coverage. planCTDiscovery look_env seeds_service (\<lambda>_. None) ''run'' seeds_request
      = (seeds_request\<lparr>nr_SeedHostnames := [''example.com'', ''a.example.com'']\<rparr>, obs, Some coverage)
     \<and> cv_Status coverage = CoverageComplete"
proof -
  have d: "\<exists>h. Discover (\<lambda>s. s) plain_env (\<lambda>m. m) (\<lambda>m. m) None ''example.com'' 20
      seeds_store
    = Inr \<lparr>qr_Candidates = [ct_candidate_of (example_ct ''a.example.com'' 5 ProvenanceVerifiedLog)], qr_Available = 1, qr_Omitted = 0,
        qr_IndexIdentity = h, qr_Partial = False\<rparr>"
    by (simp add: seeds_store_def Discover_def ct_normalize_example Import_def importLocked_def NewCtStore_def discoverable_def withinRoots_def
      has_suffix_def put_best_def example_ct_def Let_def)
  have l: "ct_limit seeds_service seeds_request = 20" "nr_CTDiscovery seeds_request" "nr_SeedHostnames seeds_request = [''example.com'']"
      "nr_ScopeRoots seeds_request = [''example.com'']" "sv_ctEnabled seeds_service"
      "sv_ct seeds_service = Some (index_names (\<lambda>s. s, plain_env, \<lambda>m. m, \<lambda>m. m, seeds_store))"
      "ca_Hostname (ct_candidate_of (example_ct n t p)) = n" for n t p
    by (simp_all add: ct_candidate_of_def example_ct_def ct_limit_def seeds_service_def seeds_request_def plan_result_def domain_request_def seedLimit_def look_service_def DefaultLimits_def)
  have e: "ae_marshal_candidate look_env c = Inr (ca_Hostname c)" for c by (simp add: look_env_def)
  from d obtain h where "Discover (\<lambda>s. s) plain_env (\<lambda>m. m) (\<lambda>m. m) None ''example.com'' 20
      seeds_store
    = Inr \<lparr>qr_Candidates = [ct_candidate_of (example_ct ''a.example.com'' 5 ProvenanceVerifiedLog)], qr_Available = 1, qr_Omitted = 0,
        qr_IndexIdentity = h, qr_Partial = False\<rparr>" ..
  then show ?thesis
    by (simp add: planCTDiscovery_def Let_def l e index_names_def plan_candidate_def ct_completed_def zero_coverage_def)
qed

theorem ct_seeds_exact_witness:
  "\<exists>obs coverage. planCTDiscovery look_env seeds_service (\<lambda>_. None) ''run'' seeds_request
      = (seeds_request\<lparr>nr_SeedHostnames := [''example.com'', ''a.example.com'']\<rparr>, obs, Some coverage)
     \<and> logged_names plain_env seeds_store ''example.com''
         \<subseteq> {''example.com'', ''a.example.com''}
     \<and> map ob_Subject obs = [''a.example.com'']"
proof -
  obtain obs coverage where p: "planCTDiscovery look_env seeds_service (\<lambda>_. None) ''run'' seeds_request
      = (seeds_request\<lparr>nr_SeedHostnames := [''example.com'', ''a.example.com'']\<rparr>, obs, Some coverage)" "cv_Status coverage = CoverageComplete"
    using seeds_planned by blast
  have s: "sv_ct seeds_service = Some (index_names (\<lambda>s. s, plain_env, \<lambda>m. m, \<lambda>m. m,
     seeds_store))" by (simp add: seeds_service_def)
  have r: "nr_SeedHostnames seeds_request = [''example.com'']" "nr_ScopeRoots seeds_request = [''example.com'']"
    by (simp_all add: seeds_request_def plan_result_def domain_request_def)
  have "\<exists>v. ae_marshal_candidate look_env c = Inr v" for c by (simp add: look_env_def)
  from ct_seeds_exact [OF p(1) s permutes_id permutes_id this] p(2) show ?thesis
    by (simp add: r p(1)) (simp add: seeds_service_def seedLimit_def look_service_def DefaultLimits_def)
qed

end
