(* ===== verification/App_Example.thy ===== *)
theory App_Example
  imports App_Service
begin

text \<open>
  A small analysis, of one domain in DNS mode whose only answer is that it has no data: the input at which the
  properties of analyses are applied.
\<close>

definition quiet_arrivals :: arrivals where
  "quiet_arrivals = \<lparr>ar_replies = (\<lambda>_. \<lparr>rp_Result = empty_result \<lparr>q_Name = ''example.com'', q_Type = typeA\<rparr> NoData, rp_ObservedAt = 1,
     rp_FromCache = False, rp_Err = None\<rparr>), ar_order = [0], ar_sent = (\<lambda>_. True), ar_merge = (@)\<rparr>"

definition answer_of :: "16 word \<Rightarrow> query_reply" where
  "answer_of t = \<lparr>rp_Result = empty_result \<lparr>q_Name = ''example.com'', q_Type = t\<rparr> NoData, rp_ObservedAt = 1, rp_FromCache = False, rp_Err = None\<rparr>"

definition quiet_world :: seed_world where
  "quiet_world = \<lparr>sd_world = link_world, sd_arrivals = quiet_arrivals, sd_graph = link_world, sd_done = None, sd_room = (\<lambda>_. True),
     sd_http = page_world,
     sd_redirect = (\<lambda>_ _. \<lparr>rw_replies = (answer_of typeA, answer_of typeAAAA), rw_reserve = (\<lambda>_. True), rw_room = (\<lambda>_. True)\<rparr>),
     sd_order = (\<lambda>xs. xs)\<rparr>"

definition quiet_admission :: admission where
  "quiet_admission = \<lparr>ad_controller = None, ad_before = None, ad_wait = Granted None, ad_after = None, ad_synchronous = None\<rparr>"

definition quiet_analysis :: analysis_world where
  "quiet_analysis = \<lparr>aw_admission = quiet_admission, aw_runID = Inr ''run'', aw_startedAt = 1, aw_classifiedAt = 2, aw_endedAt = 3,
     aw_ct = (\<lambda>_. None), aw_seeds = (\<lambda>_. quiet_world), aw_web = (\<lambda>_. None), aw_detect = (\<lambda>_ _. None), aw_enrich = (\<lambda>_. None),
     aw_ended = None\<rparr>"

definition dns_request :: analyze_request where
  "dns_request = (domain_request ''example.com'' [])\<lparr>ar_Mode := ModeDNS, ar_IncludeWWW := Some False\<rparr>"

text \<open>A detector that concludes something from the first observation.\<close>

definition first_evidence :: "observation \<Rightarrow> evidence" where
  "first_evidence ob = (example_evidence ''e1'' ''aws'' StrengthWeak)\<lparr>ev_ObservationIDs := [ob_ID ob]\<rparr>"

definition first_detector :: detector where
  "first_detector ctx observations = (map first_evidence (take 1 observations), [])"

definition quiet_service :: "(nat \<Rightarrow> string \<Rightarrow> go_error + report) option \<Rightarrow> service" where
  "quiet_service store = look_service\<lparr>sv_detectors := [first_detector], sv_store := store\<rparr>"

lemma quiet_service_simps [simp]:
  "sv_detectors (quiet_service store) = [first_detector]" "sv_store (quiet_service store) = store" "sv_dns (quiet_service store) = Some DefaultLimits"
  "sv_http (quiet_service store) = None" "sv_webDetector (quiet_service store) = None" "sv_httpScheme (quiet_service store) = ''https''"
  "sv_view (quiet_service store) = NewAttributionView [] [] [] []" "seedLimit (quiet_service store) = 32"
  "sv_buildProvenance (quiet_service store) = \<lparr>bp_Revision = UnknownProvenance, bp_Dirty = BuildDirtyUnknown\<rparr>"
  by (simp_all add: quiet_service_def look_service_def seedLimit_def DefaultLimits_def)

definition quiet_plan :: analysis_plan where
  "quiet_plan = \<lparr>ap_limits = DefaultLimits, ap_runID = ''run'',
     ap_request = (plan_result dns_request ''example.com'' TargetDomain [''example.com''])\<lparr>nr_ScopeRoots := [''example.com'']\<rparr>,
     ap_observations = [], ap_coverage = []\<rparr>"

lemma quiet_planned: "plan_analysis plain_env look_env (quiet_service store) quiet_analysis dns_request = Inr quiet_plan"
proof -
  have n: "NormalizeWithSeedLimit plain_env dns_request 32
      = Inr ((plan_result dns_request ''example.com'' TargetDomain [''example.com''])\<lparr>nr_ScopeRoots := [''example.com'']\<rparr>)"
    by (simp add: dns_request_def target_eval)
  have a: "admit (aw_admission quiet_analysis) = None"
    by (simp add: admit_def quiet_analysis_def quiet_admission_def PromoteSynchronousAdmission_def)
  have s: "li_SeedHostnames DefaultLimits = 32" by (simp add: DefaultLimits_def)
  show ?thesis
    by (simp add: plan_analysis_def n a s) (simp add: quiet_analysis_def plan_result_def bound_seeds_def planCTDiscovery_def
      dns_request_def domain_request_def Let_def option_list_def quiet_plan_def)
qed

text \<open>Its collection.\<close>

lemma quiet_walks:
  assumes "wp_env G = ae_dns look_env"
  shows "followInheritedZone G ri w = (ri, w)" "followDependencies G ri w = (ri, w)"
proof -
  have u: "de_unmarshal (wp_env G) v = Some (zero_payload\<lparr>dp_Address := V4 5\<rparr>)" for v by (simp add: assms)
  have "\<not> equal_fold [] ''NS''" "\<not> equal_fold [] ''MX''" by code_simp+
  moreover have "dp_RRType zero_payload = []" by (simp add: zero_payload_def)
  ultimately have rr: "\<not> equal_fold (dp_RRType zero_payload) ''NS''" "\<not> equal_fold (dp_RRType zero_payload) ''MX''" by simp_all
  have "ns_status (wp_env G) seed nsNoData obs = Some nsNoData" for seed nsNoData obs
    by (induction obs) (simp_all add: rr u)
  then show "followInheritedZone G ri w = (ri, w)" unfolding followInheritedZone_def Let_def by simp
  have "gather_dependencies (wp_env G) obs [] w = ([], w)" for obs
    by (induction obs) (simp_all add: dependency_target_def rr u)
  then show "followDependencies G ri w = (ri, w)" by (simp add: followDependencies_def)
qed

lemma quiet_graph:
  "\<exists>v. followCNAMEGraph (G\<lparr>wp_world := link_world\<rparr>) [] (start_walk fresh_result) = (6, v) \<and> wk_result v = fresh_result \<and> wk_candidates v = []"
  unfolding followCNAMEGraph_def
  by (subst graph_loop.simps, subst graph_loop.simps)
    (auto simp: await_target_def link_world_def walk_ops start_walk_def questionTypes_def)

definition quiet_query :: observation where
  "quiet_query = queryObservation (ae_dns look_env) ''example.com'' \<lparr>q_Name = ''example.com'', q_Type = typeA\<rparr> NoData
     (empty_result \<lparr>q_Name = ''example.com'', q_Type = typeA\<rparr> NoData) [] (at_request (seed_occurrence_of ''run'' 0 ''example.com'') 0) 1"

lemma quiet_collected:
  "\<exists>r w graph. collectOccurrence (dns_params look_env DefaultLimits (quiet_service store) (ap_request quiet_plan)
        (seed_occurrence_of ''run'' 0 ''example.com'') ''example.com'' quiet_world publish) quiet_arrivals link_world None = (r, [], w, graph)
     \<and> dc_Observations r = [quiet_query] \<and> cv_Status (dc_Coverage r) = CoverageComplete"
proof -
  define G where "G = dns_params look_env DefaultLimits (quiet_service store) (ap_request quiet_plan)
        (seed_occurrence_of ''run'' 0 ''example.com'') ''example.com'' quiet_world publish"
  have env: "wp_env G = ae_dns look_env" "wp_seed G = ''example.com''" "wp_occurrence G = seed_occurrence_of ''run'' 0 ''example.com''"
    by (simp_all add: G_def dns_params_def)
  obtain v where v: "followCNAMEGraph (G\<lparr>wp_world := link_world\<rparr>) [] (start_walk fresh_result) = (6, v)" "wk_result v = fresh_result" "wk_candidates v = []"
    using quiet_graph by blast
  define reply where "reply = ar_replies quiet_arrivals 0"
  define res where "res = empty_result \<lparr>q_Name = ''example.com'', q_Type = typeA\<rparr> NoData"
  have reply: "rp_Err reply = None" "rp_Result reply = res" "rp_ObservedAt reply = 1" "\<not> rp_FromCache reply"
      "normalizeOutcome E res None = NoData" "dr_Attempt res = 0" "dr_Omitted res = 0"
      "dr_Question res = \<lparr>q_Name = ''example.com'', q_Type = typeA\<rparr>" for E
    by (simp_all add: reply_def res_def quiet_arrivals_def normalizeOutcome_def empty_result_def)
  have query: "quiet_query = queryObservation (ae_dns look_env) ''example.com'' \<lparr>q_Name = ''example.com'', q_Type = typeA\<rparr> NoData
     res [] (at_request (seed_occurrence_of ''run'' 0 ''example.com'') 0) 1" by (simp add: quiet_query_def res_def)
  define s where "s = seed_answer G quiet_arrivals 0 \<lparr>sw_walk = start_walk fresh_result, sw_targets = []\<rparr>"
  have s: "sw_targets s = []" "wk_candidates (sw_walk s) = []" "dc_Observations (wk_result (sw_walk s)) = [quiet_query]"
      "cv_Status (dc_Coverage (wk_result (sw_walk s))) = CoverageComplete"
    unfolding s_def seed_answer_def reply_def [symmetric] Let_def
    by (simp_all add: reply env seed_occurrence_def Let_def count_outcome_def count_omitted_def count_seed_attempts_def dnsOutcomeCompleted_def
      walk_ops start_walk_def fresh_result_def zero_coverage_def error_text_def query)
  have fresh: "dc_Observations fresh_result = []" "cv_Status (dc_Coverage fresh_result) = CoverageComplete"
    by (simp_all add: fresh_result_def zero_coverage_def)
  have fold: "fold (seed_answer G quiet_arrivals) (ar_order quiet_arrivals) \<lparr>sw_walk = start_walk fresh_result, sw_targets = []\<rparr> = s"
      "ar_merge quiet_arrivals = (@)" by (simp_all add: s_def quiet_arrivals_def)
  have "\<exists>r w graph. collectOccurrence G quiet_arrivals link_world None = (r, [], w, graph) \<and> dc_Observations r = [quiet_query]
      \<and> cv_Status (dc_Coverage r) = CoverageComplete"
    using v s by (simp add: collectOccurrence_def fold Let_def quiet_walks [OF env(1)] add_graph_def fresh)
  then show ?thesis unfolding G_def .
qed

text \<open>Its report.\<close>

definition quiet_skipped :: "coverage list" where
  "quiet_skipped = [zero_coverage\<lparr>cv_Capability := ''http'', cv_Status := CoverageSkipped, cv_Reason := ''DNS-only mode''\<rparr>,
     zero_coverage\<lparr>cv_Capability := ''tls_certificate'', cv_Status := CoverageSkipped, cv_Reason := ''DNS-only mode''\<rparr>]"

definition seen_query :: observation where
  "seen_query = rescope_dns (scopeForSeed ''example.com'' [''example.com'']) quiet_query"

lemma quiet_runs:
  "\<exists>item. collected look_env (quiet_service store) quiet_analysis (ap_request quiet_plan) (ap_coverage quiet_plan) (ap_observations quiet_plan)
      (seed_runs look_env (quiet_service store) quiet_analysis quiet_plan) = ([seen_query], item # quiet_skipped) \<and> cv_Status item = CoverageComplete"
proof -
  have request: "nr_SeedHostnames (ap_request quiet_plan) = [''example.com'']" "nr_Mode (ap_request quiet_plan) = ModeDNS"
      "nr_ScopeRoots (ap_request quiet_plan) = [''example.com'']" "ap_limits quiet_plan = DefaultLimits" "ap_runID quiet_plan = ''run''"
      "ap_coverage quiet_plan = []" "ap_observations quiet_plan = []"
    by (simp_all add: quiet_plan_def plan_result_def request_mode_def dns_request_def)
  have parts: "sd_arrivals quiet_world = quiet_arrivals" "sd_graph quiet_world = link_world" "sd_done quiet_world = None"
      "aw_seeds quiet_analysis = (\<lambda>_. quiet_world)" by (simp_all add: quiet_world_def quiet_analysis_def)
  obtain r w graph where c: "collectOccurrence (dns_params look_env DefaultLimits (quiet_service store) (ap_request quiet_plan)
        (seed_occurrence_of ''run'' 0 ''example.com'') ''example.com'' quiet_world False) quiet_arrivals link_world None = (r, [], w, graph)"
      "dc_Observations r = [quiet_query]" "cv_Status (dc_Coverage r) = CoverageComplete"
    using quiet_collected by blast
  have "seed_runs look_env (quiet_service store) quiet_analysis quiet_plan = [\<lparr>sr_hostname = ''example.com'', sr_dns = r, sr_http = None\<rparr>]"
    by (simp add: seed_runs_def request collect_seed_def Let_def parts c(1))
  with c(2,3) show ?thesis
    by (simp add: collected_def Let_def collected_observations_def collected_coverage_def http_runs_def request run_scope_def seen_query_def
      tlsCertificateCoverage_def quiet_skipped_def)
qed

text \<open>No part of an analysis reads the store.\<close>

lemma unstored:
  "seedLimit (s\<lparr>sv_store := st\<rparr>) = seedLimit s" "addressLimit (s\<lparr>sv_store := st\<rparr>) = addressLimit s"
  "ct_limit (s\<lparr>sv_store := st\<rparr>) = ct_limit s" "prefixAssociationLimit (s\<lparr>sv_store := st\<rparr>) = prefixAssociationLimit s"
  "dns_params E limits (s\<lparr>sv_store := st\<rparr>) = dns_params E limits s" "fetch_seed E (s\<lparr>sv_store := st\<rparr>) = fetch_seed E s"
  "liveProvenance (s\<lparr>sv_store := st\<rparr>) = liveProvenance s" "sourceCoverage (s\<lparr>sv_store := st\<rparr>) = sourceCoverage s"
  "sourceCapabilityUsable (s\<lparr>sv_store := st\<rparr>) = sourceCapabilityUsable s" "sourceGroupUsable (s\<lparr>sv_store := st\<rparr>) = sourceGroupUsable s"
  by (simp_all add: Let_def ct_limit_def seedLimit_def addressLimit_def prefixAssociationLimit_def dns_params_def fetch_seed_def liveProvenance_def sourceCoverage_def
    sourceCapabilityUsable_def sourceGroupUsable_def fun_eq_iff)

lemma enrich_unstored: "enrichAddresses E (s\<lparr>sv_store := st\<rparr>) = enrichAddresses E s"
proof -
  have "prefix_lookup (s\<lparr>sv_store := st\<rparr>) = prefix_lookup s" "prefix_usable (s\<lparr>sv_store := st\<rparr>) = prefix_usable s"
    by (simp_all add: Let_def prefix_lookup_def prefix_usable_def unstored fun_eq_iff)
  note unstored = unstored this
  have "enrich_prefixes E (s\<lparr>sv_store := st\<rparr>) = enrich_prefixes E s"
    by (intro ext) (simp add: Let_def enrich_prefixes_def unstored cong: option.case_cong if_cong)
  moreover have "enrich_asn E (s\<lparr>sv_store := st\<rparr>) = enrich_asn E s"
    by (intro ext) (simp add: Let_def enrich_asn_def unstored cong: option.case_cong if_cong)
  ultimately show ?thesis by (intro ext) (simp add: Let_def enrichAddresses_def unstored)
qed

lemma Analyze_unstored: "Analyze T E (s\<lparr>sv_store := st\<rparr>) w request = Analyze T E s w request"
proof -
  have http: "seed_http E (s\<lparr>sv_store := st\<rparr>) = seed_http E s" by (intro ext) (simp add: Let_def seed_http_def unstored)
  have seed: "collect_seed E limits (s\<lparr>sv_store := st\<rparr>) = collect_seed E limits s" for limits
    by (intro ext) (simp add: Let_def collect_seed_def unstored http cong: option.case_cong if_cong)
  have plan: "planCTDiscovery E (s\<lparr>sv_store := st\<rparr>) = planCTDiscovery E s" "bound_seeds E (s\<lparr>sv_store := st\<rparr>) = bound_seeds E s"
    by (intro ext, simp add: Let_def planCTDiscovery_def bound_seeds_def unstored cong: option.case_cong if_cong)+
  have "collected E (s\<lparr>sv_store := st\<rparr>) = collected E s" "live_report E (s\<lparr>sv_store := st\<rparr>) = live_report E s"
    by (intro ext, simp add: Let_def collected_def live_report_def unstored)+
  moreover have "classified E (s\<lparr>sv_store := st\<rparr>) = classified E s"
    by (intro ext) (simp add: Let_def classified_def enrich_unstored)
  ultimately have seeds: "analyze_seeds E (s\<lparr>sv_store := st\<rparr>) = analyze_seeds E s"
    by (intro ext) (simp add: Let_def analyze_seeds_def seed_runs_def seed)
  have "plan_analysis T E (s\<lparr>sv_store := st\<rparr>) = plan_analysis T E s"
    by (intro ext) (simp add: Let_def plan_analysis_def unstored plan cong: option.case_cong if_cong sum.case_cong)
  with seeds show ?thesis by (simp add: Let_def Analyze_def)
qed

text \<open>Its classification and its report.\<close>

lemma quiet_classified:
  "classified look_env (quiet_service store) d en t stamp [] [seen_query] = Inr ([stamp (first_evidence seen_query)], [])"
proof -
  have type: "ob_Type seen_query = ''dns_query''" by (simp add: seen_query_def rescope_dns_def quiet_query_def queryObservation_def)
  have "addressInputs look_env [seen_query] = []"
    by (simp add: addressInputs_def note_input_def observed_address_def type)
  then have e: "enrichAddresses look_env (quiet_service store) en [seen_query] t = Inr ([], [])" by (simp add: enrichAddresses_def)
  show ?thesis
    by (simp add: classified_def detect_all_def first_detector_def classifyUnmappedTechnology_def unmapped_technology_def type e option_list_def)
qed

lemma quiet_identified:
  assumes "re_Observations r = [seen_query]" "re_Evidence r = [first_evidence seen_query\<lparr>ev_ClassifiedAt := t\<rparr>]"
    and "re_Findings r = findings_of look_env (re_Evidence r)" "re_ContentIDVersion r = ReportContentIDVersion"
  shows "\<exists>i. i \<noteq> [] \<and> identified look_env a b r = Inr (r\<lparr>re_ID := i\<rparr>)"
proof -
  have "re_ContentIDVersion (canonicalReport x) = re_ContentIDVersion x" for x by (simp add: canonicalReport_def)
  with assms(4) obtain i where i: "ContentID (ae_content look_env) r = Inr i" "i \<noteq> []"
    by (simp add: ContentID_def contentCanonicalJSON_def Let_def) (simp add: look_env_def)
  define r1 where "r1 = r\<lparr>re_ID := i\<rparr>"
  have query: "ob_ID seen_query \<noteq> []" by (simp add: seen_query_def rescope_dns_def quiet_query_def queryObservation_def)
  define ev where "ev = first_evidence seen_query\<lparr>ev_ClassifiedAt := t\<rparr>"
  have ev: "ev_ID ev = ''e1''" "ev_ObservationIDs ev = [ob_ID seen_query]" "ev_ProviderID ev = ''aws''"
    by (simp_all add: ev_def first_evidence_def example_evidence_def)
  have r1: "re_Observations r1 = [seen_query]" "re_Evidence r1 = [ev]" using assms(1,2) by (simp_all add: r1_def ev_def)
  have "ValidateReferences (r1\<lparr>re_Findings := Build (digest12 look_env) (ae_group_order look_env) (ae_id_order look_env)
      (ae_provenance_order look_env) (ae_provenance_group look_env) (re_Evidence r1)\<rparr>) = None"
  proof (rule aggregated_report_validates)
    show "ValidateReferences (r1\<lparr>re_Findings := []\<rparr>) = None" using query by (simp add: ValidateReferences_def r1 ev)
  qed (simp_all add: r1 ev look_env_def permutes_id)
  moreover have "r1\<lparr>re_Findings := findings_of look_env (re_Evidence r)\<rparr> = r1" using assms(3) by (simp add: r1_def)
  moreover have "re_Evidence r1 = re_Evidence r" by (simp add: r1_def)
  ultimately have "ValidateReferences r1 = None" by (simp add: findings_of_def)
  with i show ?thesis by (auto simp: identified_def r1_def)
qed

lemma quiet_analyzed:
  obtains r where "\<And>store. Analyze plain_env look_env (quiet_service store) quiet_analysis dns_request = Inr r" "re_Status r = StatusComplete"
    "re_Observations r = [seen_query]" "re_Evidence r = [first_evidence seen_query\<lparr>ev_ClassifiedAt := 2\<rparr>]" "re_ID r \<noteq> []"
    "re_Target r = \<lparr>tg_Original = ''example.com'', tg_Canonical = ''example.com'', tg_Kind = TargetDomain\<rparr>"
proof -
  obtain item where c: "collected look_env (quiet_service None) quiet_analysis (ap_request quiet_plan) (ap_coverage quiet_plan) (ap_observations quiet_plan)
      (seed_runs look_env (quiet_service None) quiet_analysis quiet_plan) = ([seen_query], item # quiet_skipped)" "cv_Status item = CoverageComplete"
    using quiet_runs by blast
  have stamp: "stamp_missing 2 (first_evidence seen_query) = first_evidence seen_query\<lparr>ev_ClassifiedAt := 2\<rparr>"
    by (simp add: stamp_missing_def first_evidence_def example_evidence_def)
  define r0 where "r0 = live_report look_env (quiet_service None) quiet_analysis (ap_request quiet_plan) [seen_query]
    [first_evidence seen_query\<lparr>ev_ClassifiedAt := 2\<rparr>] (item # quiet_skipped)"
  have r0: "re_Observations r0 = [seen_query]" "re_Evidence r0 = [first_evidence seen_query\<lparr>ev_ClassifiedAt := 2\<rparr>]"
      "re_Findings r0 = findings_of look_env (re_Evidence r0)" "re_ContentIDVersion r0 = ReportContentIDVersion"
      "re_Target r0 = \<lparr>tg_Original = ''example.com'', tg_Canonical = ''example.com'', tg_Kind = TargetDomain\<rparr>"
      "re_Status r0 = StatusComplete"
    using c(2) by (simp_all add: r0_def live_report_def quiet_plan_def plan_result_def dns_request_def domain_request_def reportStatus_def
      quiet_analysis_def quiet_skipped_def incomplete_coverage_def Let_def)
  obtain i where i: "i \<noteq> []" "identified look_env ''create report ID'' ''validate report references'' r0 = Inr (r0\<lparr>re_ID := i\<rparr>)"
    using quiet_identified [OF r0(1-4)] by blast
  have "aw_classifiedAt quiet_analysis = 2" by (simp add: quiet_analysis_def)
  then have "Analyze plain_env look_env (quiet_service None) quiet_analysis dns_request = Inr (r0\<lparr>re_ID := i\<rparr>)"
    using i(2) by (simp add: Analyze_def quiet_planned analyze_seeds_def c(1) quiet_classified stamp r0_def)
  moreover have "quiet_service store = (quiet_service None)\<lparr>sv_store := store\<rparr>" for store by (simp add: quiet_service_def)
  ultimately have "Analyze plain_env look_env (quiet_service store) quiet_analysis dns_request = Inr (r0\<lparr>re_ID := i\<rparr>)" for store
    by (metis Analyze_unstored)
  with r0 i(1) show ?thesis by (intro that [of "r0\<lparr>re_ID := i\<rparr>"]) simp_all
qed

end
