(* ===== verification/App_Identifiers.thy ===== *)
theory App_Identifiers
  imports App_Example
begin

text \<open>
  The identifiers of the observations of an analysis: those of certificate transparency, of DNS, of redirects and
  of HTTP, over all seeds, stand for pairwise different occurrences.
\<close>

section \<open>Occurrences of a seed\<close>

text \<open>The kind of an observation, its seed, and its hop and request.\<close>

type_synonym seed_tag = "string \<times> int \<times> int \<times> int"

definition seed_tag :: "key \<Rightarrow> seed_tag" where
  "seed_tag key = (case key of (kind, oc, attributes) \<Rightarrow> (kind, oc_SeedIndex oc, oc_Hop oc, oc_RequestIndex oc))"

definition tagged :: "dns_env \<Rightarrow> seed_tag set \<Rightarrow> observation list \<Rightarrow> bool" where
  "tagged E tags obs \<longleftrightarrow> (\<exists>keys. map ob_ID obs = map (key_id E) keys \<and> distinct keys \<and> seed_tag ` set keys \<subseteq> tags)"

lemma tagged_Nil [simp]: "tagged E tags []"
  by (simp add: tagged_def exI [of _ "[]"])

lemma tagged_mono: "tagged E tags obs \<Longrightarrow> tags \<subseteq> tags' \<Longrightarrow> tagged E tags' obs"
  unfolding tagged_def by blast

lemma tagged_ids: "map ob_ID obs' = map ob_ID obs \<Longrightarrow> tagged E tags obs' = tagged E tags obs"
  by (simp add: tagged_def)

lemma tagged_append:
  assumes "tagged E A xs" "tagged E B ys" "A \<inter> B = {}"
  shows "tagged E (A \<union> B) (xs @ ys)"
proof -
  from assms(1,2) obtain ks ls where
    "map ob_ID xs = map (key_id E) ks" "distinct ks" "seed_tag ` set ks \<subseteq> A"
    "map ob_ID ys = map (key_id E) ls" "distinct ls" "seed_tag ` set ls \<subseteq> B" by (auto simp: tagged_def)
  with assms(3) show ?thesis unfolding tagged_def by (intro exI [of _ "ks @ ls"]) auto
qed

text \<open>A permutation of observations permutes what they stand for.\<close>

lemma map_permuted:
  assumes "mset ys = mset (map f xs)"
  shows "\<exists>zs. map f zs = ys \<and> mset zs = mset xs"
  using assms
proof (induction ys arbitrary: xs)
  case (Cons y ys)
  then have "y \<in> set (map f xs)" by (metis list.set_intros(1) mset_eq_setD)
  then obtain x where x: "x \<in> set xs" "f x = y" by auto
  then have xs: "mset xs = add_mset x (mset (remove1 x xs))" by simp
  then have "mset (map f xs) = add_mset y (mset (map f (remove1 x xs)))" by (simp only: mset_map image_mset_add_mset x(2))
  with Cons.prems have "mset ys = mset (map f (remove1 x xs))" by simp
  from Cons.IH [OF this] obtain zs where "map f zs = ys" "mset zs = mset (remove1 x xs)" by blast
  with x xs show ?case by (intro exI [of _ "x # zs"]) simp
qed simp

lemma tagged_permuted:
  assumes "tagged E tags obs" "mset obs' = mset obs"
  shows "tagged E tags obs'"
proof -
  from assms(1) obtain ks where ks: "map ob_ID obs = map (key_id E) ks" "distinct ks" "seed_tag ` set ks \<subseteq> tags" by (auto simp: tagged_def)
  have "mset (map ob_ID obs') = mset (map (key_id E) ks)" using assms(2) ks(1) by (metis mset_map)
  then obtain ls where ls: "map (key_id E) ls = map ob_ID obs'" "mset ls = mset ks" by (metis map_permuted)
  then have "distinct ls" "set ls = set ks" using ks(2) by (metis mset_eq_imp_distinct_iff) (metis ls(2) mset_eq_setD)
  with ls(1) ks(3) show ?thesis unfolding tagged_def by (intro exI [of _ ls]) simp
qed

text \<open>Observations of different seeds.\<close>

lemma tagged_seeds:
  assumes "\<And>i x. (i, x) \<in> set (enumerate n xs) \<Longrightarrow> tagged E (K \<times> {int i} \<times> UNIV) (f (i, x))"
  shows "tagged E (K \<times> {int n..} \<times> UNIV) (concat (map f (enumerate n xs)))"
  using assms
proof (induction xs arbitrary: n)
  case (Cons x xs)
  have "tagged E (K \<times> {int n} \<times> UNIV) (f (n, x))" using Cons.prems by simp
  moreover have "tagged E (K \<times> {int (Suc n)..} \<times> UNIV) (concat (map f (enumerate (Suc n) xs)))"
    using Cons.IH [of "Suc n"] Cons.prems by simp
  ultimately have "tagged E (K \<times> {int n} \<times> UNIV \<union> K \<times> {int (Suc n)..} \<times> UNIV) (f (n, x) @ concat (map f (enumerate (Suc n) xs)))"
    by (rule tagged_append) auto
  then show ?case unfolding enumerate_simps by (simp) (erule tagged_mono, auto)
qed simp

section \<open>Names of certificate transparency\<close>

definition names_tagged :: "app_env \<Rightarrow> ct_plan \<Rightarrow> bool" where
  "names_tagged E p \<longleftrightarrow> (\<exists>keys. map ob_ID (pl_observations p) = map (key_id (ae_dns E)) keys \<and> distinct (map (snd \<circ> snd) keys)
     \<and> (\<forall>(kind, oc, attributes) \<in> set keys. kind = ''ct-name'' \<and> oc_SeedIndex oc = 0 \<and> (\<exists>h \<in> set (pl_seeds p). attributes = [h])))"

lemma names_tagged_same [simp]:
  "names_tagged E (p\<lparr>pl_coverage := c, pl_partial := b, pl_identities := is\<rparr>) = names_tagged E p"
  "names_tagged E (p\<lparr>pl_coverage := c, pl_partial := b\<rparr>) = names_tagged E p"
  by (simp_all add: names_tagged_def)

lemma candidate_tagged:
  assumes "names_tagged E p"
  shows "names_tagged E (plan_candidate E runID root (index, c) p)"
proof (cases "ca_Hostname c \<in> set (pl_seeds p)")
  case True
  with assms show ?thesis by (simp add: plan_candidate_def)
next
  case False
  from assms obtain keys where keys: "map ob_ID (pl_observations p) = map (key_id (ae_dns E)) keys" "distinct (map (snd \<circ> snd) keys)"
    "\<forall>(kind, oc, attributes) \<in> set keys. kind = ''ct-name'' \<and> oc_SeedIndex oc = 0 \<and> (\<exists>h \<in> set (pl_seeds p). attributes = [h])"
    by (auto simp: names_tagged_def)
  show ?thesis
  proof (cases "ae_marshal_candidate E c")
    case (Inl e)
    with False keys show ?thesis by (fastforce simp: names_tagged_def plan_candidate_def Let_def)
  next
    case (Inr payload)
    define key :: key where "key = (''ct-name'', \<lparr>oc_CollectionRunID = runID, oc_Seed = root, oc_SeedIndex = 0, oc_RequestIndex = 0, oc_Hop = 0,
      oc_Attempt = 0, oc_ItemIndex = int index\<rparr>, [ca_Hostname c])"
    have "[ca_Hostname c] \<notin> set (map (snd \<circ> snd) keys)" using keys(3) False by fastforce
    then have "distinct (map (snd \<circ> snd) (keys @ [key]))" using keys(2) by (simp add: key_def)
    moreover have "pl_seeds (plan_candidate E runID root (index, c) p) = pl_seeds p @ [ca_Hostname c]"
      "map ob_ID (pl_observations (plan_candidate E runID root (index, c) p)) = map (key_id (ae_dns E)) (keys @ [key])"
      using False Inr keys(1) by (simp_all add: plan_candidate_def Let_def ct_observation_def key_id_def key_def)
    moreover have "\<forall>(kind, oc, attributes) \<in> set (keys @ [key]). kind = ''ct-name'' \<and> oc_SeedIndex oc = 0
        \<and> (\<exists>h \<in> set (pl_seeds p @ [ca_Hostname c]). attributes = [h])"
      using keys(3) by (fastforce simp: key_def)
    ultimately show ?thesis unfolding names_tagged_def by (intro exI [of _ "keys @ [key]"]) simp
  qed
qed

lemma candidates_tagged:
  "names_tagged E p \<Longrightarrow> names_tagged E (fold (plan_candidate E runID root) (enumerate n cs) p)"
  by (induction cs arbitrary: n p) (simp_all add: candidate_tagged)

lemma roots_tagged:
  "plan_roots E discover ctx runID n roots p = (p', err) \<Longrightarrow> names_tagged E p \<Longrightarrow> names_tagged E p'"
proof (induction roots arbitrary: n p)
  case (Cons root roots)
  then show ?case
    by (auto simp: Let_def split: if_splits sum.splits intro!: candidates_tagged elim!: Cons.IH)
qed simp

lemma names_observed:
  assumes "planCTDiscovery E s ctx runID request = (request', obs, item)"
  shows "tagged (ae_dns E) ({''ct-name''} \<times> {0} \<times> UNIV) obs"
proof -
  have t: "tagged (ae_dns E) ({''ct-name''} \<times> {0} \<times> UNIV) (pl_observations p)" if "names_tagged E p" for p
  proof -
    from that obtain keys where "map ob_ID (pl_observations p) = map (key_id (ae_dns E)) keys" "distinct (map (snd \<circ> snd) keys)"
      "\<forall>(kind, oc, attributes) \<in> set keys. kind = ''ct-name'' \<and> oc_SeedIndex oc = 0" unfolding names_tagged_def by fastforce
    then show ?thesis unfolding tagged_def by (intro exI [of _ keys]) (auto simp: distinct_map seed_tag_def)
  qed
  have start: "names_tagged E p" if "pl_observations p = []" for p
    using that by (simp add: names_tagged_def exI [of _ "[]"])
  show ?thesis
  proof (cases "nr_CTDiscovery request \<and> sv_ctEnabled s \<and> sv_ct s \<noteq> None \<and> ct_limit s request > 0")
    case False
    with assms have "obs = []" by (auto simp: planCTDiscovery_def Let_def split: if_splits option.splits)
    then show ?thesis by simp
  next
    case True
    then obtain d where d: "sv_ct s = Some d" by blast
    define p0 where "p0 = \<lparr>pl_seeds = nr_SeedHostnames request, pl_observations = [], pl_limit = ct_limit s request,
      pl_coverage = zero_coverage\<lparr>cv_Capability := ''ct_discovery''\<rparr>, pl_partial = False, pl_identities = []\<rparr>"
    obtain p err where p: "plan_roots E d ctx runID 0 (nr_ScopeRoots request) p0 = (p, err)" by fastforce
    have "pl_observations p0 = []" by (simp add: p0_def)
    from t [OF roots_tagged [OF p start [OF this]]] show ?thesis
      using assms True d p by (auto simp: planCTDiscovery_def Let_def p0_def)
  qed
qed

section \<open>The observations of a seed\<close>

text \<open>A world in which the collectors of a seed answer as they are asked: each question of the seed is answered at
  most once, and a redirect target is resolved for one family and the other.\<close>

definition world_ok :: "seed_world \<Rightarrow> bool" where
  "world_ok w \<longleftrightarrow> distinct (ar_order (sd_arrivals w)) \<and> set (ar_order (sd_arrivals w)) \<subseteq> {0..<6} \<and> permutes (sd_order w)
     \<and> (\<forall>hostname hop. case rw_replies (sd_redirect w hostname hop) of (a, b) \<Rightarrow>
          (q_Type (dr_Question (rp_Result a)) = typeAAAA) \<noteq> (q_Type (dr_Question (rp_Result b)) = typeAAAA))"

definition redirect_kinds :: "string set" where
  "redirect_kinds = {''redirect-dns-query'', ''redirect-dns-record''}"

lemma reply_tagged:
  "tagged E (redirect_kinds \<times> {oc_SeedIndex oc} \<times> {hop} \<times> {if q_Type (dr_Question (rp_Result reply)) = typeAAAA then 1 else 0})
     (redirectDNSObservations E reply hostname hop oc roots)"
proof -
  define aaaa where "aaaa \<longleftrightarrow> q_Type (dr_Question (rp_Result reply)) = typeAAAA"
  define attributes where "attributes = [hostname, if aaaa then ''AAAA'' else ''A'']"
  define oc' where "oc' = oc\<lparr>oc_Hop := hop, oc_RequestIndex := (if aaaa then 1 else 0)\<rparr>"
  define ks where "ks = (''redirect-dns-query'', oc', attributes) #
    map (\<lambda>(i, record :: observation). (''redirect-dns-record'', oc'\<lparr>oc_ItemIndex := int i\<rparr>, attributes)) (enumerate 0 (dr_Records (rp_Result reply)))"
  have "distinct (map (\<lambda>(i, record :: observation). (''redirect-dns-record'', oc'\<lparr>oc_ItemIndex := int i\<rparr>, attributes)) (enumerate 0 rs))" for rs
  proof -
    have "map (\<lambda>(i, record :: observation). (''redirect-dns-record'', oc'\<lparr>oc_ItemIndex := int i\<rparr>, attributes)) (enumerate 0 rs)
        = map (\<lambda>i. (''redirect-dns-record'', oc'\<lparr>oc_ItemIndex := int i\<rparr>, attributes)) [0..<length rs]"
    proof -
      have "map (\<lambda>(i, record :: observation). g i) (enumerate 0 rs) = map g (map fst (enumerate 0 rs))" for g :: "nat \<Rightarrow> key"
        by (simp add: case_prod_beta comp_def del: map_fst_enumerate)
      then show ?thesis by (simp only: map_fst_enumerate) simp
    qed
    moreover have "inj (\<lambda>i. (''redirect-dns-record'', oc'\<lparr>oc_ItemIndex := int i\<rparr>, attributes))"
      by (rule injI, drule arg_cong [of _ _ "\<lambda>key. oc_ItemIndex (fst (snd key))"]) simp
    ultimately show ?thesis by (auto simp: distinct_map intro: inj_on_subset)
  qed
  then have "distinct ks" by (auto simp: ks_def)
  moreover have "seed_tag ` set ks \<subseteq> redirect_kinds \<times> {oc_SeedIndex oc} \<times> {hop} \<times> {if aaaa then 1 else 0}"
    by (auto simp: ks_def seed_tag_def redirect_kinds_def oc'_def)
  moreover have "map ob_ID (redirectDNSObservations E reply hostname hop oc roots) = map (key_id E) ks
      \<or> map ob_ID (redirectDNSObservations E reply hostname hop oc roots) = map (key_id E) [hd ks]"
    by (auto simp: redirectDNSObservations_def Let_def ks_def key_id_def aaaa_def attributes_def oc'_def)
  ultimately show ?thesis unfolding tagged_def aaaa_def [symmetric]
    by (elim disjE) (blast, intro exI [of _ "[hd ks]"], auto simp: ks_def)
qed

lemma redirects_tagged:
  assumes "world_ok w" "distinct (map snd resolved)"
  shows "tagged (ae_dns E) (redirect_kinds \<times> {oc_SeedIndex oc} \<times> snd ` set resolved \<times> UNIV)
    (concat (concat (map (retained_chunks E oc roots w) resolved)))"
  using assms(2)
proof (induction resolved)
  case (Cons target resolved)
  obtain hostname hop where target: "target = (hostname, hop)" by fastforce
  obtain a b where ab: "rw_replies (sd_redirect w hostname hop) = (a, b)" by fastforce
  have "(q_Type (dr_Question (rp_Result a)) = typeAAAA) \<noteq> (q_Type (dr_Question (rp_Result b)) = typeAAAA)"
    using assms(1) ab unfolding world_ok_def by (metis (mono_tags, lifting) case_prod_conv)
  then have "tagged (ae_dns E) (redirect_kinds \<times> {oc_SeedIndex oc} \<times> {hop} \<times> {if q_Type (dr_Question (rp_Result a)) = typeAAAA then 1 else 0}
        \<union> redirect_kinds \<times> {oc_SeedIndex oc} \<times> {hop} \<times> {if q_Type (dr_Question (rp_Result b)) = typeAAAA then 1 else 0})
      (redirectDNSObservations (ae_dns E) a hostname hop oc roots @ redirectDNSObservations (ae_dns E) b hostname hop oc roots)"
    by (intro tagged_append reply_tagged) auto
  then have "tagged (ae_dns E) (redirect_kinds \<times> {oc_SeedIndex oc} \<times> {hop} \<times> UNIV)
      (redirectDNSObservations (ae_dns E) a hostname hop oc roots @ redirectDNSObservations (ae_dns E) b hostname hop oc roots)"
    by (rule tagged_mono) auto
  then have "tagged (ae_dns E) (redirect_kinds \<times> {oc_SeedIndex oc} \<times> {hop} \<times> UNIV) (concat (retained_chunks E oc roots w target))"
    by (simp add: retained_chunks_def target ab Let_def)
  moreover have "tagged (ae_dns E) (redirect_kinds \<times> {oc_SeedIndex oc} \<times> snd ` set resolved \<times> UNIV)
      (concat (concat (map (retained_chunks E oc roots w) resolved)))" using Cons by simp
  ultimately have "tagged (ae_dns E) (redirect_kinds \<times> {oc_SeedIndex oc} \<times> {hop} \<times> UNIV
        \<union> redirect_kinds \<times> {oc_SeedIndex oc} \<times> snd ` set resolved \<times> UNIV)
      (concat (retained_chunks E oc roots w target) @ concat (concat (map (retained_chunks E oc roots w) resolved)))"
    by (rule tagged_append) (use Cons.prems in \<open>auto simp: target\<close>)
  then show ?case by (simp add: target) (erule tagged_mono, auto)
qed simp

lemma permuted_concat: "permutes p \<Longrightarrow> mset (concat (p xss)) = mset (concat xss)"
  unfolding permutes_def mset_concat by (metis mset_map sum_mset_sum_list)

definition http_kinds :: "string set" where
  "http_kinds = {''tls-certificate'', ''http-response''}"

lemma fetch_tagged:
  assumes "seed_http E s C request oc seed w addresses = (result, kept, err)" "world_ok w"
  shows "tagged (ae_dns E) ((redirect_kinds \<union> http_kinds) \<times> {oc_SeedIndex oc} \<times> UNIV) (kept @ map (rescope_http sc) (hx_Observations result))"
proof -
  obtain out er k where f: "fetch_seed E s C request oc seed w addresses = (out, er, k)" by (metis prod_cases3)
  note run = f [unfolded fetch_seed_def CollectTargetCandidatesOccurrenceWithRedirectResolver_def]
  have r: "hx_Observations result = hx_Observations out"
      "kept = concat (sd_order w (concat (map (retained_chunks E oc (nr_ScopeRoots request) w) (ch_resolved k))))"
    using assms(1) by (auto simp: seed_http_def f Let_def no_approved_address_def split: if_splits)
  have "distinct (map snd (ch_resolved k))"
  proof (cases "checked_target (ae_http E) (seedURL (ae_http E) request seed (sv_httpScheme s))")
    case (Inl e)
    with run have "k = fresh_chain" by (simp add: collectTargetCandidatesOccurrence_def)
    then show ?thesis by (simp add: fresh_chain_def)
  next
    case (Inr u)
    with run resolved_once show ?thesis by (fastforce simp: collectTargetCandidatesOccurrence_def split: prod.splits)
  qed
  from redirects_tagged [OF assms(2) this, of E oc "nr_ScopeRoots request"]
  have "tagged (ae_dns E) (redirect_kinds \<times> {oc_SeedIndex oc} \<times> UNIV) kept"
    unfolding r(2) by (rule tagged_mono [OF tagged_permuted]) (use assms(2) in \<open>auto simp: world_ok_def intro: permuted_concat\<close>)
  moreover have "tagged (ae_dns E) (http_kinds \<times> {oc_SeedIndex oc} \<times> UNIV) (map (rescope_http sc) (hx_Observations result))"
  proof -
    from collection_observed [OF run] obtain keys where keys: "map ob_ID (hx_Observations out) = map (key_id (ae_dns E)) keys" "distinct keys"
      "\<forall>(kind, oc', attributes) \<in> set keys. kind \<in> http_kinds \<and> oc_SeedIndex oc' = oc_SeedIndex oc"
      unfolding http_kinds_def by fastforce
    have "map ob_ID (map (rescope_http sc) (hx_Observations result)) = map ob_ID (hx_Observations out)"
      by (simp add: r(1) rescope_http_def)
    with keys show ?thesis unfolding tagged_def by (intro exI [of _ keys]) (auto simp: seed_tag_def)
  qed
  ultimately show ?thesis
    by (rule tagged_mono [OF tagged_append]) (auto simp: redirect_kinds_def http_kinds_def)
qed

lemma resolve_tagged:
  assumes "collectOccurrence (dns_params E limits s request oc seed w publish) (sd_arrivals w) W done = (r, cs, walk, graph)" "world_ok w"
  shows "tagged (ae_dns E) (kinds \<times> {oc_SeedIndex oc} \<times> UNIV) (map (rescope_dns sc) (dc_Observations r))"
proof -
  have "distinct (ar_order (sd_arrivals w))" "set (ar_order (sd_arrivals w)) \<subseteq> {0..<6}" using assms(2) by (simp_all add: world_ok_def)
  from collection_ids [OF assms(1) this] obtain R where "ids_in (dns_params E limits s request oc seed w publish) R (dc_Observations r)" ..
  then obtain keys where keys: "map ob_ID (dc_Observations r) = map (key_id (ae_dns E)) keys" "distinct (map slot keys)"
      "\<forall>(kind, oc', attributes) \<in> set keys. kind \<in> kinds \<and> oc_SeedIndex oc' = oc_SeedIndex oc"
    unfolding ids_in_def dns_params_def by fastforce
  moreover have "map ob_ID (map (rescope_dns sc) (dc_Observations r)) = map ob_ID (dc_Observations r)" by (simp add: rescope_dns_def)
  ultimately show ?thesis unfolding tagged_def by (intro exI [of _ keys]) (auto simp: seed_tag_def distinct_map)
qed

section \<open>All observations\<close>

lemma http_runs_map: "concat (map f (http_runs runs)) = concat (map (\<lambda>r. case sr_http r of None \<Rightarrow> [] | Some x \<Rightarrow> f (r, x)) runs)"
  by (induction runs) (auto simp: http_runs_def split: option.splits)

definition all_kinds :: "string set" where
  "all_kinds = insert ''ct-name'' (kinds \<union> redirect_kinds \<union> http_kinds)"

lemma collected_tagged:
  assumes "plan_analysis T E s w request = Inr p" "\<And>index. world_ok (aw_seeds w index)"
  shows "tagged (ae_dns E) (all_kinds \<times> UNIV) (collected_observations (ap_request p) (ap_observations p) (seed_runs E s w p))"
proof -
  define run where "run = collect_seed E (ap_limits p) s (ap_request p) (ap_runID p) (aw_seeds w)"
  define dns where "dns = (\<lambda>entry. map (rescope_dns (run_scope (ap_request p) (run entry))) (dc_Observations (sr_dns (run entry))))"
  define http where "http = (\<lambda>entry. case sr_http (run entry) of None \<Rightarrow> []
    | Some x \<Rightarrow> fst (snd x) @ map (rescope_http (run_scope (ap_request p) (run entry))) (hx_Observations (fst x)))"
  define seeds where "seeds = enumerate 0 (nr_SeedHostnames (ap_request p))"
  obtain request0 item where "planCTDiscovery E s (aw_ct w) (ap_runID p) request0 = (ap_request p, ap_observations p, item)"
    using assms(1) by (auto simp: plan_analysis_def split: sum.splits if_splits option.splits prod.splits)
  then have names: "tagged (ae_dns E) ({''ct-name''} \<times> {0} \<times> UNIV) (ap_observations p)" by (rule names_observed)
  have d: "tagged (ae_dns E) (kinds \<times> {int i} \<times> UNIV) (dns (i, x))" for i x
  proof -
    define publish where "publish \<longleftrightarrow> (if nr_Mode (ap_request p) = ModeFull then sv_http s else None) \<noteq> None"
    obtain r cs walk graph where c: "collectOccurrence (dns_params E (ap_limits p) s (ap_request p) (seed_occurrence_of (ap_runID p) i x) x (aw_seeds w i) publish)
        (sd_arrivals (aw_seeds w i)) (sd_graph (aw_seeds w i)) (sd_done (aw_seeds w i)) = (r, cs, walk, graph)" by (metis prod_cases4)
    have "dc_Observations (sr_dns (run (i, x))) = dc_Observations r"
      using c unfolding run_def collect_seed_def by (auto simp: Let_def publish_def split: option.splits if_splits prod.splits)
    with resolve_tagged [OF c assms(2)] show ?thesis by (simp add: dns_def seed_occurrence_of_def)
  qed
  have h: "tagged (ae_dns E) ((redirect_kinds \<union> http_kinds) \<times> {int i} \<times> UNIV) (http (i, x))" for i x
  proof (cases "sr_http (run (i, x))")
    case None
    then show ?thesis by (simp add: http_def)
  next
    case (Some y)
    obtain result kept err where y: "y = (result, kept, err)" by (metis prod_cases3)
    then obtain C taken where "seed_http E s C (ap_request p) (seed_occurrence_of (ap_runID p) i x) x (aw_seeds w i) taken = (result, kept, err)"
      using Some unfolding run_def collect_seed_def by (auto simp: Let_def split: option.splits if_splits prod.splits)
    from fetch_tagged [OF this assms(2)] show ?thesis by (simp add: http_def Some y seed_occurrence_of_def)
  qed
  have all: "collected_observations (ap_request p) (ap_observations p) (seed_runs E s w p) = ap_observations p @ concat (map dns seeds) @ concat (map http seeds)"
    by (simp add: collected_observations_def seed_runs_def run_def [symmetric] http_runs_map dns_def http_def seeds_def comp_def case_prod_unfold cong: option.case_cong)
  have "tagged (ae_dns E) (kinds \<times> {int 0..} \<times> UNIV \<union> (redirect_kinds \<union> http_kinds) \<times> {int 0..} \<times> UNIV)
      (concat (map dns seeds) @ concat (map http seeds))"
    unfolding seeds_def by (intro tagged_append tagged_seeds d h) (auto simp: kinds_def redirect_kinds_def http_kinds_def)
  from tagged_append [OF names this] show ?thesis
    unfolding all by (rule tagged_mono) (auto simp: all_kinds_def kinds_def redirect_kinds_def http_kinds_def)
qed

text \<open>An identifier determines the kind and the hash of what it stands for.\<close>

definition kind_list :: "string list" where
  "kind_list = [''ct-name'', ''dns-query'', ''dns-record'', ''dns-address'', ''redirect-dns-query'', ''redirect-dns-record'',
     ''tls-certificate'', ''http-response'']"

lemma kinds_apart: "list_all (\<lambda>k. list_all (\<lambda>l. take (Suc (length k)) (l @ ''-'') = k @ ''-'' \<longrightarrow> k = l) kind_list) kind_list"
  by code_simp

lemma kind_apart:
  assumes "k @ ''-'' @ x = l @ ''-'' @ y" "k \<in> all_kinds" "l \<in> all_kinds"
  shows "k = l"
proof -
  have shorter: "take (Suc (length a)) (b @ ''-'') = a @ ''-''" if "a @ ''-'' @ u = b @ ''-'' @ v" "length a \<le> length b" for a b u v :: string
    using arg_cong [OF that(1), of "take (Suc (length a))"] that(2) by (cases "length a = length b") simp_all
  have kl: "k \<in> set kind_list" "l \<in> set kind_list"
    using assms(2,3) by (auto simp: all_kinds_def kinds_def redirect_kinds_def http_kinds_def kind_list_def)
  have apart: "a = b" if "take (Suc (length a)) (b @ ''-'') = a @ ''-''" "a \<in> set kind_list" "b \<in> set kind_list" for a b
    using kinds_apart that unfolding list_all_iff by blast
  show ?thesis
  proof (cases "length k \<le> length l")
    case True
    from apart [OF shorter [OF assms(1) this] kl] show ?thesis .
  next
    case False
    then have "length l \<le> length k" by simp
    from apart [OF shorter [OF assms(1) [symmetric] this] kl(2,1)] show ?thesis ..
  qed
qed

lemma key_id_eq:
  assumes "key_id E k = key_id E l" "fst k \<in> all_kinds" "fst l \<in> all_kinds"
  shows "de_hash E k = de_hash E l"
proof -
  have eq: "fst k @ ''-'' @ de_hash E k = fst l @ ''-'' @ de_hash E l"
    using assms(1) by (simp add: key_id_def ObservationID_def case_prod_beta)
  from kind_apart [OF eq assms(2,3)] eq show ?thesis by simp
qed

text \<open>C13: No two observations an analysis collects stand for the same occurrence. Over all seeds of the plan, the
  names of certificate transparency, the answers and records of DNS, those of the redirects, and the
  handshakes and responses of HTTP have identifiers computed from pairwise different kinds and occurrences,
  in whatever order the resolutions of the redirects retained them; so the identifiers differ, and pass the
  reference check of the report, unless the hash collides. The hypotheses are that no question of a seed is answered
  twice and that the two answers of a resolution are one for IPv4 and one for IPv6.\<close>

theorem observations_distinct:
  assumes "plan_analysis T E s w request = Inr p" and "\<And>index. world_ok (aw_seeds w index)"
  defines "observations \<equiv> collected_observations (ap_request p) (ap_observations p) (seed_runs E s w p)"
  shows "\<exists>keys. map ob_ID observations = map (key_id (ae_dns E)) keys \<and> distinct keys
    \<and> (inj_on (de_hash (ae_dns E)) (set keys) \<longrightarrow> distinct (map ob_ID observations))"
proof -
  obtain keys where keys: "map ob_ID observations = map (key_id (ae_dns E)) keys" "distinct keys" "seed_tag ` set keys \<subseteq> all_kinds \<times> UNIV"
    using collected_tagged [OF assms(1,2)] unfolding observations_def tagged_def by blast
  have kind: "fst k \<in> all_kinds" if "k \<in> set keys" for k
  proof -
    have "seed_tag k \<in> all_kinds \<times> UNIV" using keys(3) that by blast
    then show ?thesis by (simp add: seed_tag_def split: prod.splits)
  qed
  have "distinct (map (key_id (ae_dns E)) keys)" if inj: "inj_on (de_hash (ae_dns E)) (set keys)"
  proof -
    have "inj_on (key_id (ae_dns E)) (set keys)"
      using inj kind key_id_eq by (meson inj_onD inj_onI)
    with keys(2) show ?thesis by (simp add: distinct_map)
  qed
  with keys(1,2) show ?thesis by (intro exI [of _ keys]) simp
qed

theorem observations_distinct_witness:
  "\<exists>keys. map ob_ID (collected_observations (ap_request quiet_plan) (ap_observations quiet_plan)
        (seed_runs look_env (quiet_service None) quiet_analysis quiet_plan)) = map (key_id (ae_dns look_env)) keys \<and> distinct keys"
proof -
  have "world_ok (aw_seeds quiet_analysis index)" for index
    by (simp add: world_ok_def quiet_analysis_def quiet_world_def quiet_arrivals_def answer_of_def empty_result_def permutes_id)
  from observations_distinct [OF quiet_planned this] show ?thesis by blast
qed

end
