(* ===== verification/App_Replay.thy ===== *)
theory App_Replay
  imports App_Example
begin

text \<open>
  A report is reproducible: what a reclassification concludes from the observations of a report that was just made
  is what the analysis concluded, but for the time of the classification.
\<close>

section \<open>Conclusions do not depend on the time\<close>

definition classified_at :: "gotime \<Rightarrow> evidence \<Rightarrow> evidence" where
  "classified_at t ev = ev\<lparr>ev_ClassifiedAt := t\<rparr>"

lemma classified_at_simps [simp]:
  "ev_ObservationIDs (classified_at t ev) = ev_ObservationIDs ev" "ev_ObservationIDs (stamp_missing t ev) = ev_ObservationIDs ev"
  "classified_at t (classified_at t' ev) = classified_at t ev" "classified_at t (stamp_missing t' ev) = classified_at t ev"
  by (simp_all add: classified_at_def stamp_missing_def)

lemma map_result_restamp:
  assumes "\<And>x. conclude' x = map_sum (\<lambda>e. e) g (conclude x)"
  shows "map_result conclude' xs = map_sum (\<lambda>e. e) (map g) (map_result conclude xs)"
  by (induction xs) (auto simp: assms and_then_def split: sum.splits)

lemma look_up_restamp:
  assumes "\<And>input r. conclude' input r = map_sum (\<lambda>e. e) g (conclude input r)"
  shows "look_up_inputs look conclude' n inputs = map_sum (\<lambda>e. e) (map_prod (map g) (\<lambda>c. c)) (look_up_inputs look conclude n inputs)"
  by (induction inputs arbitrary: n)
    (auto simp: map_result_restamp [of "conclude' _" g "conclude _"] assms and_then_def split: sum.splits prod.splits)

lemma conclusions_restamp:
  "prefixEvidence E input t' x = map_sum (\<lambda>e. e) (classified_at t') (prefixEvidence E input t x)"
  "asnEvidence E input t' r = map_sum (\<lambda>e. e) (classified_at t') (asnEvidence E input t r)"
  by (auto simp: prefixEvidence_def asnEvidence_def classified_at_def Let_def split: sum.splits)

lemma enrich_restamp:
  assumes "enrichAddresses E s ctx obs t = Inr (evidence, coverage)"
  shows "\<exists>coverage'. enrichAddresses E s ctx obs t' = Inr (map (classified_at t') evidence, coverage')"
proof -
  have "enrich_prefixes E s ctx t' inputs = map_sum (\<lambda>e. e) (map_prod (map (classified_at t')) (\<lambda>c. c)) (enrich_prefixes E s ctx t inputs)"
    "enrich_asn E s ctx t' inputs = map_sum (\<lambda>e. e) (map_prod (map (classified_at t')) (\<lambda>c. c)) (enrich_asn E s ctx t inputs)" for inputs
    unfolding enrich_prefixes_def enrich_asn_def
    by (auto simp: look_up_restamp [OF conclusions_restamp(1)] look_up_restamp [OF conclusions_restamp(2)] split: option.splits)
  with assms show ?thesis by (auto simp: enrichAddresses_def and_then_def Let_def split: if_splits sum.splits)
qed

lemma technology_restamp:
  fixes f f' :: "evidence \<Rightarrow> evidence"
  assumes "classifyUnmappedTechnology E obs (map f detected) t = (evidence, item)"
    and "\<And>ev. ev_ObservationIDs (f ev) = ev_ObservationIDs ev" "\<And>ev. ev_ObservationIDs (f' ev) = ev_ObservationIDs ev"
  shows "classifyUnmappedTechnology E obs (map f' detected) t' = (map (classified_at t') evidence, item)"
proof -
  have refs: "evidenceReferences i (map f detected) = evidenceReferences i detected" "evidenceReferences i (map f' detected) = evidenceReferences i detected" for i
    using assms(2,3) by (simp_all add: evidenceReferences_def list_ex_iff)
  have "unmapped_technology E (map f' detected) t' = map (classified_at t') \<circ> unmapped_technology E (map f detected) t"
    by (rule ext) (auto simp: unmapped_technology_def refs technology_evidence_def classified_at_def split: option.splits)
  then have "concat (map (unmapped_technology E (map f' detected) t') obs)
      = map (classified_at t') (concat (map (unmapped_technology E (map f detected) t) obs))"
    by (simp add: map_concat)
  with assms(1) show ?thesis by (auto simp: classifyUnmappedTechnology_def Let_def)
qed

lemma classified_restamp:
  assumes "classified E s d en t (stamp_missing t) replay obs = Inr (evidence, coverage)"
  shows "\<exists>coverage'. classified E s d en t' (classified_at t') replay' obs = Inr (map (classified_at t') evidence, coverage')"
proof -
  define outputs where "outputs = map (\<lambda>(n, detect). detect (d n) obs) (enumerate 0 (sv_detectors s))"
  define raw where "raw = concat (map fst outputs)"
  have all: "detect_all (sv_detectors s) d obs stamp = (map stamp raw, concat (map snd outputs))" for stamp
    by (simp add: detect_all_def outputs_def raw_def)
  obtain technology item where tech: "classifyUnmappedTechnology E obs (map (stamp_missing t) raw) t = (technology, item)" by fastforce
  obtain enriched covered where en: "enrichAddresses E s en obs t = Inr (enriched, covered)"
      "evidence = map (stamp_missing t) raw @ technology @ enriched"
    using assms by (auto simp: classified_def all tech and_then_Inr_iff)
  from enrich_restamp [OF en(1), of t'] technology_restamp [OF tech, of "classified_at t'" t'] en(2) show ?thesis
    by (auto simp: classified_def all and_then_def comp_def)
qed

section \<open>Analyses and their reports\<close>

lemma identified_cases:
  "(\<exists>i. identified E a b r = Inr (r\<lparr>re_ID := i\<rparr>)) \<or> (\<exists>e. identified E a b r = Inl (Wrap a e) \<or> identified E a b r = Inl (Wrap b e))"
  by (auto simp: identified_def split: sum.splits option.splits)

lemma identified_report:
  assumes "identified E a b r0 = Inr r"
  obtains i where "r = r0\<lparr>re_ID := i\<rparr>" "ContentID (ae_content E) r0 = Inr i" "ValidateReferences r = None"
  using assms by (auto simp: identified_def split: sum.splits option.splits)

text \<open>The parts of a report.\<close>

lemma Analyze_parts:
  assumes "Analyze T E s w request = Inr r"
  obtains p observations coverage evidence more i where "plan_analysis T E s w request = Inr p"
    "collected E s w (ap_request p) (ap_coverage p) (ap_observations p) (seed_runs E s w p) = (observations, coverage)"
    "classified E s (aw_detect w) (aw_enrich w) (aw_classifiedAt w) (stamp_missing (aw_classifiedAt w)) [] observations = Inr (evidence, more)"
    "r = (live_report E s w (ap_request p) observations evidence (coverage @ more))\<lparr>re_ID := i\<rparr>"
    "ValidateReferences r = None"
proof -
  obtain p where p: "plan_analysis T E s w request = Inr p" "analyze_seeds E s w p = Inr r"
    using assms by (auto simp: Analyze_def and_then_Inr_iff)
  obtain observations coverage where c: "collected E s w (ap_request p) (ap_coverage p) (ap_observations p) (seed_runs E s w p) = (observations, coverage)"
    by fastforce
  obtain evidence more where e: "classified E s (aw_detect w) (aw_enrich w) (aw_classifiedAt w) (stamp_missing (aw_classifiedAt w)) [] observations = Inr (evidence, more)"
      "identified E ''create report ID'' ''validate report references''
         (live_report E s w (ap_request p) observations evidence (coverage @ more)) = Inr r"
    using p(2) by (auto simp: analyze_seeds_def c and_then_Inr_iff)
  from e(2) obtain i where "r = (live_report E s w (ap_request p) observations evidence (coverage @ more))\<lparr>re_ID := i\<rparr>" "ValidateReferences r = None"
    by (rule identified_report)
  with p c e show ?thesis by (intro that)
qed

text \<open>C7: A report can be reproduced. If a report that an analysis made is stored, and the service that made it
  replays it, then whatever the replay returns cites the original and keeps its target, bundle,
  observations and collection provenance, carries the whole coverage of the collection marked as such, and
  draws exactly the evidence of the analysis again, in the same order, changed only in the time of the
  classification. The replay can only fail where the new report is identified.\<close>

theorem replay_reproduces:
  assumes "Analyze T E s w request = Inr r" and "sv_store s = Some store" "\<And>n. store n (re_ID r) = Inr r"
    and "ValidateReclassify E s (re_ID r) bundle = None" "ad_controller (ry_admission v) = None"
    and "ry_detect v = aw_detect w" "ry_enrich v = aw_enrich w"
  shows "case Reclassify E s v (re_ID r) bundle of
      Inl e \<Rightarrow> \<exists>cause. e = Wrap ''create reclassified report ID'' cause \<or> e = Wrap ''validate reclassified report references'' cause
    | Inr r' \<Rightarrow> re_OriginalReportID r' = re_ID r \<and> re_Target r' = re_Target r \<and> re_BundleID r' = re_BundleID r
        \<and> re_Observations r' = re_Observations r \<and> re_Evidence r' = map (classified_at (ry_classifiedAt v)) (re_Evidence r)
        \<and> map_option rp_Collection (re_Provenance r') = map_option rp_Collection (re_Provenance r)
        \<and> (\<exists>more. re_Coverage r' = original_coverage r @ more)"
proof -
  obtain p :: analysis_plan and observations coverage evidence more i where
    e: "classified E s (aw_detect w) (aw_enrich w) (aw_classifiedAt w) (stamp_missing (aw_classifiedAt w)) [] observations = Inr (evidence, more)"
    and r: "r = (live_report E s w (ap_request p) observations evidence (coverage @ more))\<lparr>re_ID := i\<rparr>"
    by (rule Analyze_parts [OF assms(1)]) (rule that)
  have loaded: "load_replay store 1 (re_ID r) = Inr r"
    using assms(2-4) by (auto simp: ValidateReclassify_def load_replay_def split: if_splits sum.splits option.splits)
  from r have obs: "re_Observations r = observations" "re_Evidence r = evidence" by (simp_all add: live_report_def)
  obtain more' where "classified E s (ry_detect v) (ry_enrich v) (ry_classifiedAt v) (\<lambda>ev. ev\<lparr>ev_ClassifiedAt := ry_classifiedAt v\<rparr>)
      (replay_webtech s (re_Observations r)) (re_Observations r) = Inr (map (classified_at (ry_classifiedAt v)) evidence, more')"
    using classified_restamp [OF e, of "ry_classifiedAt v" "replay_webtech s observations"] by (auto simp: obs assms(6,7) classified_at_def [abs_def])
  then have "Reclassify E s v (re_ID r) bundle = identified E ''create reclassified report ID'' ''validate reclassified report references''
      (replayed_report E s v r (map (classified_at (ry_classifiedAt v)) evidence) (replay_coverage E r @ more'))"
    using assms(2,4,5) loaded by (simp add: Reclassify_def and_then_def)
  moreover have "re_BundleID r = av_bundleID (sv_view s)" "re_Provenance r = Some (liveProvenance s)" by (simp_all add: r live_report_def)
  ultimately show ?thesis
    using identified_cases [of E "''create reclassified report ID''" "''validate reclassified report references''"
      "replayed_report E s v r (map (classified_at (ry_classifiedAt v)) evidence) (replay_coverage E r @ more')"]
    by (auto simp: replayed_report_def replay_coverage_def reclassificationProvenance_def obs)
qed

definition quiet_replay :: replay_world where
  "quiet_replay = \<lparr>ry_admission = quiet_admission, ry_classifiedAt = 7, ry_endedAt = 8, ry_detect = (\<lambda>_ _. None), ry_enrich = (\<lambda>_. None)\<rparr>"

theorem replay_reproduces_witness:
  "\<exists>r r'. Analyze plain_env look_env (quiet_service (Some (\<lambda>_ _. Inr r))) quiet_analysis dns_request = Inr r
     \<and> Reclassify look_env (quiet_service (Some (\<lambda>_ _. Inr r))) quiet_replay (re_ID r) [] = Inr r'
     \<and> re_Observations r' = [seen_query] \<and> re_Evidence r' = [first_evidence seen_query\<lparr>ev_ClassifiedAt := 7\<rparr>]"
proof -
  obtain r where r: "\<And>store. Analyze plain_env look_env (quiet_service store) quiet_analysis dns_request = Inr r"
    "re_Observations r = [seen_query]" "re_Evidence r = [first_evidence seen_query\<lparr>ev_ClassifiedAt := 2\<rparr>]" "re_ID r \<noteq> []"
    "re_Target r = \<lparr>tg_Original = ''example.com'', tg_Canonical = ''example.com'', tg_Kind = TargetDomain\<rparr>"
    using quiet_analyzed by metis
  define s where "s = quiet_service (Some (\<lambda>_ _. Inr r))"
  have load: "load_replay (\<lambda>_ _. Inr r) n (re_ID r) = Inr r" for n
    by (simp add: load_replay_def validateHistoricalReportTarget_def r(5) ValidatePersistentInput_def zero_analyze_request_def Let_def)
  have valid: "ValidateReclassify look_env s (re_ID r) [] = None"
    using r by (simp add: ValidateReclassify_def s_def load)
  have ctx: "ad_controller (ry_admission quiet_replay) = None" "ry_detect quiet_replay = aw_detect quiet_analysis"
      "ry_enrich quiet_replay = aw_enrich quiet_analysis" "ry_classifiedAt quiet_replay = 7"
    by (simp_all add: quiet_replay_def quiet_admission_def quiet_analysis_def)
  have "replay_webtech s (re_Observations r) = []" by (simp add: replay_webtech_def s_def)
  then obtain i where "Reclassify look_env s quiet_replay (re_ID r) [] = Inr
      ((replayed_report look_env s quiet_replay r [first_evidence seen_query\<lparr>ev_ClassifiedAt := 7\<rparr>] (replay_coverage look_env r))\<lparr>re_ID := i\<rparr>)"
    using valid ctx(1,4) quiet_identified [of "replayed_report look_env s quiet_replay r [first_evidence seen_query\<lparr>ev_ClassifiedAt := 7\<rparr>]
        (replay_coverage look_env r)" 7 "''create reclassified report ID''" "''validate reclassified report references''"]
    by (auto simp: Reclassify_def s_def load r(2) quiet_classified replayed_report_def)
  then obtain r' where r': "Reclassify look_env s quiet_replay (re_ID r) [] = Inr r'" by blast
  have "sv_store s = Some (\<lambda>_ _. Inr r)" "\<And>n. (\<lambda>_ _. Inr r :: go_error + report) n (re_ID r) = Inr r" by (simp_all add: s_def)
  from replay_reproduces [OF r(1) [of "Some (\<lambda>_ _. Inr r)", folded s_def] this valid ctx(1-3)]
  have "re_Observations r' = [seen_query] \<and> re_Evidence r' = [first_evidence seen_query\<lparr>ev_ClassifiedAt := 7\<rparr>]"
    by (simp add: r' r(2,3) ctx(4) classified_at_def)
  with r(1) r' show ?thesis unfolding s_def by blast
qed

end
