(* ===== verification/App_Analysis.thy ===== *)
theory App_Analysis
  imports App_Replay
begin

text \<open>
  What the status of a report promises: a complete report hides nothing of what its collectors, detectors and
  readers left out. And what its identifiers promise: no two collected observations stand for the same occurrence.
\<close>

section \<open>The coverage of a fetch\<close>

text \<open>A collection that ran ends complete or partial.\<close>

definition coverage_graded :: "coverage \<Rightarrow> bool" where
  "coverage_graded c \<longleftrightarrow> cv_Status c \<in> {CoverageComplete, CoveragePartial}"

lemma coverage_graded_simps [simp]: "coverage_graded (degrade n codes c)" "coverage_graded (completed_one c) = coverage_graded c"
  "coverage_graded (c\<lparr>cv_Attempted := n\<rparr>) = coverage_graded c" "coverage_graded (c\<lparr>cv_Truncated := m\<rparr>) = coverage_graded c"
  "coverage_graded (c\<lparr>cv_Status := CoveragePartial\<rparr>)"
  by (simp_all add: coverage_graded_def degrade_def completed_one_def)

lemma candidates_graded:
  "collectHopCandidates E W u cs h oc n err tls r = (out, rest, r') \<Longrightarrow> coverage_graded (ht_coverage r) \<Longrightarrow> coverage_graded (ht_coverage r')"
proof (induction cs arbitrary: n err tls r)
  case Nil
  then show ?case by (auto split: option.splits)
next
  case (Cons a cs)
  show ?case
    using Cons.prems by (auto simp: Let_def split: option.splits if_splits prod.splits dest: Cons.IH)
qed

lemma take_hop_graded:
  assumes "take_hop E W u cs st h oc k = (out, k')" "coverage_graded (chain_coverage k)"
  shows "coverage_graded (chain_coverage k')"
  using assms by (auto simp: take_hop_def Let_def split: prod.splits intro: candidates_graded)

lemma hop_steps_graded:
  "coverage_graded (chain_coverage k) \<Longrightarrow> coverage_graded (chain_coverage (hop_responded res k))"
  "coverage_graded (chain_coverage (fst (hop_failed E res e k)))"
  "coverage_graded (chain_coverage k) \<Longrightarrow> coverage_graded (chain_coverage (snd (resolve_next E W u k)))"
  by (simp_all add: hop_responded_def hop_failed_def resolve_next_def approvedAddresses_def Let_def split: prod.splits option.splits if_splits)

lemma hop_loop_graded:
  assumes "hop_loop C E W u cs st h oc hop k = (k', err)" "coverage_graded (chain_coverage k)"
  shows "coverage_graded (chain_coverage k')"
proof (rule hop_loop_rule [OF assms(1), where I = "\<lambda>u hop k. coverage_graded (chain_coverage k)" and Q = "\<lambda>k err. coverage_graded (chain_coverage k)"])
  fix u cs st hop k res loc k1
  assume "coverage_graded (chain_coverage k)" "take_hop E W u cs st h (oc\<lparr>oc_Hop := hop\<rparr>) k = ((res, loc, None), k1)"
  from hop_steps_graded(1) [OF take_hop_graded [OF this(2,1)]] have ok: "coverage_graded (chain_coverage (hop_responded res k1))" .
  then show "coverage_graded (chain_coverage (hop_responded res k1\<lparr>ch_resolved := rs\<rparr>))" for rs by simp
  show "coverage_graded (chain_coverage k2)" if "resolve_next E W u' (hop_responded res k1) = (None, k2)" for u' k2
    using hop_steps_graded(3) [OF ok, of E W u'] that by simp
  show "coverage_graded (chain_coverage k2)" if "resolve_next E W u' (hop_responded res k1) = (Some ap, k2)" for u' ap k2
    using hop_steps_graded(3) [OF ok, of E W u'] that by simp
  show "coverage_graded (chain_coverage (hop_responded res k1))" by (rule ok)
qed (use assms(2) hop_steps_graded(2) in simp_all)

lemma drain_graded:
  "coverage_graded c \<Longrightarrow> coverage_graded (fold (drain_pending E) ps c)"
proof (induction ps arbitrary: c)
  case (Cons p ps)
  have "coverage_graded c \<Longrightarrow> coverage_graded (fold (\<lambda>a c. if dd_Allowed (Check (unmap a) q) then c else degrade 0 [CodePolicyBlocked] c) as c)"
    for c as q by (induction as arbitrary: c) simp_all
  with Cons show ?case by (simp add: drain_pending_def Let_def split: option.splits)
qed simp

lemma collection_settled:
  assumes "collectTargetCandidatesOccurrence C E W rawURL candidates oc = (out, err, k)" "checked_target E rawURL = Inr u"
  shows "coverage_graded (hx_Coverage out)"
proof -
  obtain k' er where l: "hop_loop C E W u candidates None (u_Hostname u) oc 0 fresh_chain = (k', er)" by (metis surj_pair)
  have "coverage_graded (chain_coverage fresh_chain)" by (simp add: fresh_chain_def coverage_graded_def)
  from drain_graded [OF hop_loop_graded [OF l this]] l assms show ?thesis by (auto simp: collectTargetCandidatesOccurrence_def)
qed

section \<open>Complete reports\<close>

lemma reportStatus_complete:
  "reportStatus ctx obs coverage = StatusComplete \<Longrightarrow> \<forall>item \<in> set coverage. \<not> incomplete_coverage item"
  by (auto simp: reportStatus_def Let_def list_ex_iff split: if_splits)

lemma deliver_none_dropped:
  "deliver space capacity sent i as = (taken, dropped) \<Longrightarrow> \<not> dropped > 0 \<Longrightarrow> taken = as"
proof -
  assume d: "deliver space capacity sent i as = (taken, dropped)" "\<not> dropped > 0"
  have "0 \<le> dropped" if "deliver space capacity sent i as = (taken, dropped)" for space capacity sent i as taken dropped
    using deliver_all [OF that] by simp
  with d show "taken = as"
    by (induction space capacity sent i as arbitrary: taken dropped rule: deliver.induct) (fastforce split: if_splits prod.splits)+
qed

text \<open>What was collected for a seed: the answers to its questions, and the fetch of its page from the addresses
  they gave.\<close>

definition resolved_fully :: "dns_env \<Rightarrow> seed_world \<Rightarrow> bool" where
  "resolved_fully E w \<longleftrightarrow> sd_done w = None
     \<and> (\<forall>i \<in> set (ar_order (sd_arrivals w)). \<not> incomplete_reply E (ar_replies (sd_arrivals w) i))"

text \<open>The resolver of redirects that a fetch is given, and the two replies of a resolution that lost nothing: both
  settled their question and omitted no record, and together they name the address of the request and only
  addresses that the policy allows.\<close>

definition seed_resolver ::
    "app_env \<Rightarrow> http_collector \<Rightarrow> normalized_request \<Rightarrow> occurrence \<Rightarrow> seed_world \<Rightarrow> string \<Rightarrow> int \<Rightarrow> streamed" where
  "seed_resolver E C request oc w = (\<lambda>hostname hop. redirect_stream (hc_maxCandidates C) (sd_redirect w hostname hop)
     (redirectResolver (ae_dns E) oc (nr_ScopeRoots request) (sd_redirect w hostname hop) hostname hop))"

definition redirect_whole :: "redirect_world \<Rightarrow> http_dial \<Rightarrow> bool" where
  "redirect_whole W d \<longleftrightarrow>
     (case rw_replies W of (earlier, later) \<Rightarrow>
        settled_reply earlier \<and> settled_reply later \<and> dr_Omitted (rp_Result earlier) \<le> 0 \<and> dr_Omitted (rp_Result later) \<le> 0
        \<and> gives_address d (dr_Addresses (rp_Result earlier) @ dr_Addresses (rp_Result later)))"

definition fetched_fully :: "app_env \<Rightarrow> service \<Rightarrow> analysis_plan \<Rightarrow> (nat \<Rightarrow> seed_world) \<Rightarrow> nat \<times> string \<Rightarrow> bool" where
  "fetched_fully E s p worlds entry \<longleftrightarrow>
     (case entry of (index, seed) \<Rightarrow>
        let w = worlds index; oc = seed_occurrence_of (ap_runID p) index seed
        in \<exists>C dns published walk graph result k u. sv_http s = Some C
           \<and> collectOccurrence (dns_params E (ap_limits p) s (ap_request p) oc seed w True) (sd_arrivals w) (sd_graph w) (sd_done w)
               = (dns, published, walk, graph)
           \<and> fetch_seed E s C (ap_request p) oc seed w (map cd_Address published) = (result, None, k)
           \<and> checked_target (ae_http E) (seedURL (ae_http E) (ap_request p) seed (sv_httpScheme s)) = Inr u
           \<and> chain_whole (C\<lparr>hc_streamResolve := Some (seed_resolver E C (ap_request p) oc w)\<rparr>) (ae_http E) (sd_http w)
               u (map cd_Address published) k
           \<and> (\<forall>d \<in> set (dials k). hop_number d \<noteq> 0 \<longrightarrow> redirect_whole (sd_redirect w (u_Hostname (dl_url d)) (hop_number d)) d))"

lemma left_out_none:
  assumes "left_out reserve n reply = 0"
  shows "settled_reply reply \<and> dr_Omitted (rp_Result reply) \<le> 0 \<and> refused_from reserve n (dr_Addresses (rp_Result reply)) = 0"
proof -
  have "settled_reply reply" using assms by (auto simp: left_out_def max_def split: if_splits)
  moreover have "max (dr_Omitted (rp_Result reply)) 0 + int (refused_from reserve n (dr_Addresses (rp_Result reply))) = 0"
    using assms calculation by (simp add: left_out_def)
  then have "max (dr_Omitted (rp_Result reply)) 0 = 0" "refused_from reserve n (dr_Addresses (rp_Result reply)) = 0"
    by (smt (verit) max.cobounded2 of_nat_0_le_iff of_nat_eq_0_iff)+
  ultimately show ?thesis by linarith
qed

lemma none_refused: "refused_from reserve n as = 0 \<Longrightarrow> reserved_from reserve n as = map unmap as"
proof (induction as arbitrary: n)
  case (Cons a as)
  then show ?case by (auto simp: refused_from_def reserved_from_Cons split: if_splits)
qed (simp add: reserved_from_def)

text \<open>A resolution that the collector took whole is one whose replies were whole.\<close>

lemma stream_whole:
  assumes "redirect_stream capacity W (redirectResolver E oc roots W host hop) = s" "st_err s = None" "st_dropped s \<le> 0"
    and "gives_address d (st_addresses s)"
  shows "redirect_whole W d"
proof -
  let ?r = "redirectResolver E oc roots W host hop"
  obtain earlier later where replies: "rw_replies W = (earlier, later)" by fastforce
  obtain taken dropped where d: "deliver (rw_room W) capacity 0 0 (rs_published ?r) = (taken, dropped)" by fastforce
  then have s: "s = \<lparr>st_addresses = taken, st_dropped = dropped, st_err = redirect_error ?r\<rparr>"
    using assms(1) by (simp add: redirect_stream_def)
  with assms(3) deliver_none_dropped [OF d] have taken: "taken = rs_published ?r" by simp
  let ?n = "length (if settled_reply earlier then dr_Addresses (rp_Result earlier) else [])"
  have "redirect_error ?r = None" using assms(2) s by simp
  with redirect_resolution_exact [of E oc roots W host hop, unfolded replies fst_conv snd_conv]
  have lost: "left_out (rw_reserve W) 0 earlier + left_out (rw_reserve W) ?n later = 0"
    and found: "rs_published ?r = reserved_from (rw_reserve W) 0 ((if settled_reply earlier then dr_Addresses (rp_Result earlier) else [])
      @ (if settled_reply later then dr_Addresses (rp_Result later) else []))"
    by (simp_all split del: if_split)
  have "0 \<le> left_out (rw_reserve W) n reply" for n reply by (simp add: left_out_def le_max_iff_disj)
  with lost have "left_out (rw_reserve W) 0 earlier = 0" "left_out (rw_reserve W) ?n later = 0" by (smt (verit))+
  note whole = this [THEN left_out_none]
  have "rs_published ?r = map unmap (dr_Addresses (rp_Result earlier)) @ map unmap (dr_Addresses (rp_Result later))"
    using found whole by (simp add: reserved_from_append none_refused)
  then have "gives_address d (dr_Addresses (rp_Result earlier) @ dr_Addresses (rp_Result later))"
    using assms(4) unfolding s taken by (simp add: gives_address_def image_Un image_image ball_Un)
  with whole show ?thesis by (simp add: redirect_whole_def replies)
qed

lemma incomplete_graded: "cv_Status c \<in> {CoverageComplete, CoveragePartial} \<Longrightarrow> \<not> incomplete_coverage c \<Longrightarrow> cv_Status c = CoverageComplete"
  by (auto simp: incomplete_coverage_def)

lemma collect_seed_resolved:
  assumes "\<not> incomplete_coverage (dc_Coverage (sr_dns (collect_seed E limits s request runID worlds (index, seed))))"
  shows "resolved_fully (ae_dns E) (worlds index)"
proof -
  define w where "w = worlds index"
  define publish where "publish \<longleftrightarrow> (if nr_Mode request = ModeFull then sv_http s else None) \<noteq> None"
  obtain dns published walk graph where c: "collectOccurrence (dns_params E limits s request (seed_occurrence_of runID index seed) seed w publish)
      (sd_arrivals w) (sd_graph w) (sd_done w) = (dns, published, walk, graph)" by (metis prod_cases4)
  have "\<not> incomplete_coverage (dc_Coverage dns)"
    using assms c unfolding collect_seed_def
    by (auto simp: Let_def w_def publish_def incomplete_coverage_def split: option.splits if_splits prod.splits)
  then have "cv_Status (dc_Coverage dns) = CoverageComplete" using collection_graded [OF c] incomplete_graded by blast
  from collection_honest [OF c this] show ?thesis by (simp add: resolved_fully_def w_def dns_params_def)
qed

lemma collect_seed_fetched:
  assumes "sr_http (collect_seed E (ap_limits p) s (ap_request p) (ap_runID p) worlds (index, seed)) = Some (result, kept, err)"
    and "\<not> incomplete_coverage (dc_Coverage (sr_dns (collect_seed E (ap_limits p) s (ap_request p) (ap_runID p) worlds (index, seed))))"
    and "\<not> incomplete_coverage (hx_Coverage result)"
    and "checked_target (ae_http E) (seedURL (ae_http E) (ap_request p) seed (sv_httpScheme s)) = Inr u"
  shows "fetched_fully E s p worlds (index, seed)"
proof -
  define w where "w = worlds index"
  define oc where "oc = seed_occurrence_of (ap_runID p) index seed"
  obtain C where C: "nr_Mode (ap_request p) = ModeFull" "sv_http s = Some C"
    using assms(1) by (auto simp: collect_seed_def Let_def split: prod.splits option.splits if_splits)
  obtain dns published walk graph where c: "collectOccurrence (dns_params E (ap_limits p) s (ap_request p) oc seed w True)
      (sd_arrivals w) (sd_graph w) (sd_done w) = (dns, published, walk, graph)" by (metis prod_cases4)
  obtain taken dropped where d: "deliver (sd_room w) (nat (addressLimit s)) 0 0 (map cd_Address published) = (taken, dropped)" by fastforce
  have seed: "collect_seed E (ap_limits p) s (ap_request p) (ap_runID p) worlds (index, seed) =
      \<lparr>sr_hostname = seed, sr_dns = (if dropped > 0 then dns\<lparr>dc_Coverage := degrade dropped [CodeBudgetExceeded] (dc_Coverage dns)\<rparr> else dns),
       sr_http = Some (seed_http E s C (ap_request p) oc seed w taken)\<rparr>"
    using c d C unfolding w_def oc_def collect_seed_def by simp
  have "\<not> dropped > 0" using assms(2) by (auto simp: seed incomplete_coverage_def)
  with deliver_none_dropped [OF d] have taken: "taken = map cd_Address published" .
  obtain out er k where f: "fetch_seed E s C (ap_request p) oc seed w taken = (out, er, k)" by (metis prod_cases3)
  let ?C = "C\<lparr>hc_streamResolve := Some (seed_resolver E C (ap_request p) oc w)\<rparr>"
  have "ErrorCodeOf er \<noteq> CodeCapabilityUnavailable" "result = out"
    using assms(1,3) unfolding seed
    by (auto simp: seed_http_def f Let_def no_approved_address_def incomplete_coverage_def split: if_splits)
  moreover note run = f [unfolded fetch_seed_def CollectTargetCandidatesOccurrenceWithRedirectResolver_def, folded seed_resolver_def]
  ultimately have "cv_Status (hx_Coverage out) = CoverageComplete"
    using collection_settled [OF run assms(4)] assms(3) incomplete_graded by (auto simp: coverage_graded_def)
  note complete = collection_complete [OF run this]
  with assms(4) have chain: "chain_whole ?C (ae_http E) (sd_http w) u taken k" by auto
  have "redirect_whole (sd_redirect w (u_Hostname (dl_url d)) (hop_number d)) d" if "d \<in> set (dials k)" "hop_number d \<noteq> 0" for d
  proof -
    have "resolved_whole ?C (sd_http w) d" using chain that by (simp add: chain_whole_def dial_whole_def)
    then show ?thesis
      using stream_whole [OF refl, of "hc_maxCandidates C" "sd_redirect w (u_Hostname (dl_url d)) (hop_number d)" "ae_dns E" oc
        "nr_ScopeRoots (ap_request p)" "u_Hostname (dl_url d)" "hop_number d" d]
      by (simp add: resolved_whole_def seed_resolver_def Let_def)
  qed
  with complete chain f c C(2) assms(4) show ?thesis
    unfolding fetched_fully_def taken oc_def w_def by (auto simp: Let_def)
qed

lemma http_runs_iff: "(r, x) \<in> set (http_runs runs) \<longleftrightarrow> r \<in> set runs \<and> sr_http r = Some x"
  by (cases x) (auto simp: http_runs_def split: option.splits intro!: bexI [of _ r])

lemma collect_seed_http: "sr_http (collect_seed E limits s request runID worlds entry) = None \<longleftrightarrow> \<not> (nr_Mode request = ModeFull \<and> sv_http s \<noteq> None)"
  by (simp add: collect_seed_def Let_def split: prod.splits option.splits del: not_None_eq)

lemma classified_enriched:
  assumes "classified E s d en t stamp replay observations = Inr (evidence, items)"
  shows "\<exists>enriched covered. enrichAddresses E s en observations t = Inr (enriched, covered) \<and> set enriched \<subseteq> set evidence \<and> set covered \<subseteq> set items"
  using assms by (auto simp: classified_def and_then_Inr_iff split: prod.splits)

text \<open>C6: A report that says it is complete hides nothing. None of its coverage is partial or unavailable. For
  every seed of the plan each answer that was received settled its question. Unless DNS alone was asked for,
  each seed whose URL the collector accepts was fetched from the addresses DNS published for it, all of which
  reached the collector: each request got no response, so that the next address was tried, or was answered in
  full, its body read to the end and closed without an error; every hop was answered in full by one of its
  requests; each request of a later hop follows the redirect of a full answer and goes to an address that the
  two DNS replies for its host gave, and these replies settled their questions, omitted nothing and gave only
  addresses that the policy allows; and the last response redirects nowhere further. The enrichment of the
  observations, all of which is in the evidence, was whole as well.\<close>

theorem complete_report_hides_nothing:
  assumes "Analyze T E s w request = Inr r" "re_Status r = StatusComplete"
  shows "(\<forall>item \<in> set (re_Coverage r). \<not> incomplete_coverage item)
    \<and> (\<exists>p. plan_analysis T E s w request = Inr p \<and> (\<forall>item \<in> set (ap_coverage p). \<not> incomplete_coverage item)
         \<and> (\<forall>entry \<in> set (enumerate 0 (nr_SeedHostnames (ap_request p))).
              resolved_fully (ae_dns E) (aw_seeds w (fst entry))
              \<and> (nr_Mode (ap_request p) \<noteq> ModeDNS \<longrightarrow>
                   (\<forall>u. checked_target (ae_http E) (seedURL (ae_http E) (ap_request p) (snd entry) (sv_httpScheme s)) = Inr u
                      \<longrightarrow> fetched_fully E s p (aw_seeds w) entry))))
    \<and> (\<exists>evidence coverage. enrichAddresses E s (aw_enrich w) (re_Observations r) (re_ClassifiedAt r) = Inr (evidence, coverage)
         \<and> set evidence \<subseteq> set (re_Evidence r) \<and> (\<forall>item \<in> set coverage. \<not> incomplete_coverage item))"
proof -
  obtain p :: analysis_plan and observations coverage evidence more i where p: "plan_analysis T E s w request = Inr p"
    and c: "collected E s w (ap_request p) (ap_coverage p) (ap_observations p) (seed_runs E s w p) = (observations, coverage)"
    and e: "classified E s (aw_detect w) (aw_enrich w) (aw_classifiedAt w) (stamp_missing (aw_classifiedAt w)) [] observations = Inr (evidence, more)"
    and r: "r = (live_report E s w (ap_request p) observations evidence (coverage @ more))\<lparr>re_ID := i\<rparr>"
    by (rule Analyze_parts [OF assms(1)]) (rule that)
  from assms(2) have whole: "\<forall>item \<in> set (coverage @ more). \<not> incomplete_coverage item"
    unfolding r by (intro reportStatus_complete) (simp add: live_report_def)
  have parts: "set (ap_coverage p) \<subseteq> set coverage" "set (collected_coverage (ap_request p) (seed_runs E s w p)) \<subseteq> set coverage"
    using c by (auto simp: collected_def Let_def)
  have seeds: "resolved_fully (ae_dns E) (aw_seeds w (fst entry))
      \<and> (nr_Mode (ap_request p) \<noteq> ModeDNS \<longrightarrow>
           (\<forall>u. checked_target (ae_http E) (seedURL (ae_http E) (ap_request p) (snd entry) (sv_httpScheme s)) = Inr u
              \<longrightarrow> fetched_fully E s p (aw_seeds w) entry))"
    if entry: "entry \<in> set (enumerate 0 (nr_SeedHostnames (ap_request p)))" for entry
  proof -
    obtain index seed where entry_is: "entry = (index, seed)" by fastforce
    define run where "run = collect_seed E (ap_limits p) s (ap_request p) (ap_runID p) (aw_seeds w) (index, seed)"
    have run: "run \<in> set (seed_runs E s w p)" using entry unfolding seed_runs_def run_def entry_is by simp
    have dns: "\<not> incomplete_coverage (dc_Coverage (sr_dns run))"
      using run whole parts(2) by (auto simp: collected_coverage_def)
    have "fetched_fully E s p (aw_seeds w) (index, seed)"
      if mode: "nr_Mode (ap_request p) \<noteq> ModeDNS"
        and u: "checked_target (ae_http E) (seedURL (ae_http E) (ap_request p) seed (sv_httpScheme s)) = Inr u" for u
    proof -
      have "incomplete_coverage (unavailable ''http'' ''no approved address'')" by (simp add: unavailable_def incomplete_coverage_def)
      moreover have "unavailable ''http'' ''no approved address'' \<in> set coverage" if "http_runs (seed_runs E s w p) = []"
        using that mode parts(2) by (simp add: collected_coverage_def)
      ultimately have "http_runs (seed_runs E s w p) \<noteq> []" using whole by auto
      then obtain run' x where "(run', x) \<in> set (http_runs (seed_runs E s w p))" by (metis list.set_intros(1) neq_Nil_conv prod.exhaust)
      then obtain entry' where "sr_http (collect_seed E (ap_limits p) s (ap_request p) (ap_runID p) (aw_seeds w) entry') = Some x"
        by (auto simp: http_runs_iff seed_runs_def)
      then have "nr_Mode (ap_request p) = ModeFull \<and> sv_http s \<noteq> None"
        using collect_seed_http by (metis option.distinct(1))
      then have "sr_http run \<noteq> None" unfolding run_def collect_seed_http by simp
      then obtain result kept err where h: "sr_http run = Some (result, kept, err)" by (metis not_None_eq prod_cases3)
      then have "(run, result, kept, err) \<in> set (http_runs (seed_runs E s w p))" using run by (simp add: http_runs_iff)
      then have "hx_Coverage result \<in> set (collected_coverage (ap_request p) (seed_runs E s w p))"
        by (fastforce simp: collected_coverage_def)
      with whole parts(2) have "\<not> incomplete_coverage (hx_Coverage result)" by auto
      from collect_seed_fetched [OF h [unfolded run_def] dns [unfolded run_def] this u] show ?thesis .
    qed
    with collect_seed_resolved [OF dns [unfolded run_def]] show ?thesis by (simp add: entry_is)
  qed
  obtain enriched covered where en: "enrichAddresses E s (aw_enrich w) observations (aw_classifiedAt w) = Inr (enriched, covered)"
      "set enriched \<subseteq> set evidence" "set covered \<subseteq> set more"
    using classified_enriched [OF e] by blast
  with whole p seeds parts(1) show ?thesis
    unfolding r by (intro conjI exI [of _ p] exI [of _ enriched] exI [of _ covered]) (auto simp: live_report_def)
qed

theorem complete_report_hides_nothing_witness:
  "\<exists>r. Analyze plain_env look_env (quiet_service None) quiet_analysis dns_request = Inr r \<and> re_Observations r = [seen_query]
     \<and> (\<forall>item \<in> set (re_Coverage r). \<not> incomplete_coverage item) \<and> resolved_fully (ae_dns look_env) quiet_world"
proof -
  obtain r where r: "Analyze plain_env look_env (quiet_service None) quiet_analysis dns_request = Inr r" "re_Status r = StatusComplete"
      "re_Observations r = [seen_query]" using quiet_analyzed by metis
  have "(0, ''example.com'') \<in> set (enumerate 0 (nr_SeedHostnames (ap_request quiet_plan)))" "aw_seeds quiet_analysis 0 = quiet_world"
    by (simp_all add: quiet_plan_def plan_result_def quiet_analysis_def)
  with complete_report_hides_nothing [OF r(1,2)] r show ?thesis by (fastforce simp: quiet_planned)
qed

end
