(* ===== verification/Detect_Suffix.thy ===== *)
theory Detect_Suffix
  imports Model Go_Library
begin

text \<open>
  Package internal/detect/cdnsuffix: the detector that matches the destinations of CNAME records
  against the DNS suffixes of an imported bundle.

  JSON decoding of a payload, JSON encoding of a record and the truncated SHA-256 are arguments. A
  Go map is an association list; the code only iterates over it to sort each of its slices, which no
  order of iteration changes.
\<close>

section \<open>The index\<close>

record suffix_record =
  sr_ID :: string
  sr_Suffix :: string
  sr_Category :: string
  sr_ProviderID :: string
  sr_SourceID :: string
  sr_Revision :: string
  sr_Digest :: string
  sr_RecordRef :: string
  sr_ProvenanceGroup :: string
  sr_RecordRefs :: "string list"

record suffix_detector =
  sd_bySuffix :: "(string \<times> suffix_record list) list"
  sd_omitted :: int

record suffix_env =
  se_unmarshal_dns :: "json_value \<Rightarrow> dns_payload option"
  se_marshal :: "suffix_record \<Rightarrow> json_value option"
  se_hash :: "string \<Rightarrow> string"

definition supportedCategory :: "string \<Rightarrow> bool" where
  "supportedCategory category = (category \<in> {''cdn'', ''waf'', ''cloud''})"

definition records_at :: "(string \<times> suffix_record list) list \<Rightarrow> string \<Rightarrow> suffix_record list" where
  "records_at m suffix = (case map_of m suffix of None \<Rightarrow> [] | Some rs \<Rightarrow> rs)"

definition index_record :: "suffix_record \<Rightarrow> suffix_detector \<Rightarrow> suffix_detector" where
  "index_record record d =
     (if \<not> supportedCategory (sr_Category record) then d\<lparr>sd_omitted := sd_omitted d + 1\<rparr>
      else d\<lparr>sd_bySuffix := AList.update (sr_Suffix record)
               (records_at (sd_bySuffix d) (sr_Suffix record) @ [record]) (sd_bySuffix d)\<rparr>)"

definition NewSuffix :: "suffix_record list \<Rightarrow> suffix_detector" where
  "NewSuffix records =
     (let d = fold index_record records \<lparr>sd_bySuffix = [], sd_omitted = 0\<rparr>
      in d\<lparr>sd_bySuffix := map (\<lambda>(suffix, rs). (suffix, sort_key sr_ID rs)) (sd_bySuffix d)\<rparr>)"

section \<open>Capability\<close>

abbreviation "no_suffix_reason \<equiv> ''no usable imported CDN suffix records''"
abbreviation "omitted_suffix_reason \<equiv> ''imported suffix categories without a supported relationship were omitted''"

definition SuffixCapability :: "suffix_detector \<Rightarrow> capability_state" where
  "SuffixCapability d =
     (let state = \<lparr>cs_Name = ''cdn_suffix'', cs_Status = CoverageComplete, cs_Reason = [], cs_SourceAge = None, cs_PublishedAt = None\<rparr> in
      if sd_bySuffix d = [] then state\<lparr>cs_Status := CoverageUnavailable, cs_Reason := no_suffix_reason\<rparr>
      else if sd_omitted d > 0 then state\<lparr>cs_Status := CoveragePartial, cs_Reason := omitted_suffix_reason\<rparr>
      else state)"

section \<open>Detection\<close>

definition suffix_label :: "string \<Rightarrow> bool" where
  "suffix_label l =
     (l \<noteq> [] \<and> length l \<le> 63 \<and> hd l \<noteq> CHR ''-'' \<and> last l \<noteq> CHR ''-''
      \<and> list_all (\<lambda>c. is_lower_letter c \<or> is_digit c \<or> c = CHR ''-'') l)"

definition normalizedName :: "string \<Rightarrow> string option" where
  "normalizedName value =
     (let name = to_lower (trim_suffix value ''.'') in
      if name = [] \<or> length name > 253 then None
      else if list_all suffix_label (split_on CHR ''.'' name) then Some name
      else None)"

definition suffix_evidence :: "suffix_env \<Rightarrow> observation \<Rightarrow> suffix_record \<Rightarrow> json_value \<Rightarrow> evidence" where
  "suffix_evidence E ob record json =
     \<lparr>ev_ID = ''evidence-cdn-suffix-'' @ se_hash E (sr_ID record @ [CHR 0x00] @ ob_ID ob),
      ev_ObservationIDs = [ob_ID ob],
      ev_DatasetRecords = [\<lparr>ds_SourceID = sr_SourceID record, ds_Revision = sr_Revision record, ds_Digest = sr_Digest record,
        ds_RecordRef = sr_RecordRef record, ds_Fields = json, ds_PublishedAt = None, ds_EffectiveAt = None\<rparr>],
      ev_ClassifiedAt = 0, ev_DetectorID = ''cdn-suffix-v1'', ev_RuleID = [], ev_Subject = ob_Subject ob,
      ev_ProviderID = sr_ProviderID record, ev_ProductID = [], ev_Category = sr_Category record,
      ev_Relation = RelationWebDelivery, ev_Strength = StrengthModerate, ev_Activity = ActivityConfigured,
      ev_Scope = ob_Scope ob, ev_Explanation = ''CNAME destination matches an imported provider suffix''\<rparr>"

definition level_evidence :: "suffix_env \<Rightarrow> suffix_detector \<Rightarrow> observation \<Rightarrow> string \<Rightarrow> evidence list" where
  "level_evidence E d ob name =
     List.map_filter (\<lambda>record. map_option (suffix_evidence E ob record) (se_marshal E record))
       (records_at (sd_bySuffix d) name)"

lemma cut_shorter: "cut c s = (a, b, True) \<Longrightarrow> length b < length s"
  by (auto dest!: cut_found)

text \<open>The walk from a name to its parents, one label at a time.\<close>

function suffix_loop :: "suffix_env \<Rightarrow> suffix_detector \<Rightarrow> observation \<Rightarrow> string \<Rightarrow> evidence list" where
  "suffix_loop E d ob name =
     (if name = [] then []
      else level_evidence E d ob name @
        (case cut CHR ''.'' name of (before, rest, found) \<Rightarrow> if \<not> found then [] else suffix_loop E d ob rest))"
  by auto
termination by (relation "measure (\<lambda>(E, d, ob, name). length name)") (auto dest: cut_shorter [OF sym])

declare suffix_loop.simps [simp del]

text \<open>The name an observation is matched by: the valid destination of an answered CNAME record outside mail.\<close>

definition cname_destination :: "suffix_env \<Rightarrow> observation \<Rightarrow> string option" where
  "cname_destination E ob =
     (if ob_Type ob \<noteq> ''dns_record'' \<or> ob_Status ob \<noteq> ''answered'' \<or> ob_Scope ob = ScopeMailDependency then None
      else (case se_unmarshal_dns E (ob_Payload ob) of
          None \<Rightarrow> None
        | Some payload \<Rightarrow> if \<not> equal_fold (dp_RRType payload) ''CNAME'' then None else normalizedName (dp_Value payload)))"

definition suffix_matches :: "suffix_env \<Rightarrow> suffix_detector \<Rightarrow> observation \<Rightarrow> evidence list" where
  "suffix_matches E d ob =
     (case cname_destination E ob of None \<Rightarrow> [] | Some name \<Rightarrow> suffix_loop E d ob name)"

text \<open>The loop over the observations: the evidence, the number of observations completed and whether
  the context ended. \<open>ctx n\<close> is the context before observation \<open>n\<close>.\<close>

fun suffix_observations ::
    "suffix_env \<Rightarrow> suffix_detector \<Rightarrow> (nat \<Rightarrow> go_error option) \<Rightarrow> nat \<Rightarrow> observation list \<Rightarrow> evidence list \<times> nat \<times> bool" where
  "suffix_observations E d ctx n [] = ([], n, False)"
| "suffix_observations E d ctx n (ob # obs) =
     (case ctx n of
        Some e \<Rightarrow> ([], n, True)
      | None \<Rightarrow> (case suffix_observations E d ctx (Suc n) obs of
          (evs, completed, cancelled) \<Rightarrow> (suffix_matches E d ob @ evs, completed, cancelled)))"

definition DetectSuffix ::
    "suffix_env \<Rightarrow> suffix_detector \<Rightarrow> (nat \<Rightarrow> go_error option) \<Rightarrow> observation list \<Rightarrow> evidence list \<times> coverage list" where
  "DetectSuffix E d ctx observations =
     (let coverage = zero_coverage\<lparr>cv_Capability := ''cdn_suffix'', cv_Attempted := int (length observations),
            cv_Omitted := sd_omitted d\<rparr> in
      if sd_bySuffix d = [] then
        ([], [coverage\<lparr>cv_Status := CoverageUnavailable, cv_Reason := cs_Reason (SuffixCapability d)\<rparr>])
      else (case suffix_observations E d ctx 0 observations of
          (evs, completed, True) \<Rightarrow>
            (evs, [coverage\<lparr>cv_Completed := int completed, cv_Status := CoveragePartial,
                    cv_ErrorCodes := [CodeCancelled], cv_Reason := ''suffix detection cancelled''\<rparr>])
        | (evs, completed, False) \<Rightarrow>
            (sort_key ev_ID evs,
             [if sd_omitted d > 0
              then coverage\<lparr>cv_Completed := int completed, cv_Status := CoveragePartial, cv_Reason := omitted_suffix_reason\<rparr>
              else coverage\<lparr>cv_Completed := int completed, cv_Status := CoverageComplete\<rparr>])))"

section \<open>What the index holds\<close>

lemma records_at_index_record:
  "records_at (sd_bySuffix (index_record r d)) s =
     records_at (sd_bySuffix d) s @ (if supportedCategory (sr_Category r) \<and> sr_Suffix r = s then [r] else [])"
  by (simp add: index_record_def records_at_def AList.update_conv' split: option.splits)

lemma records_at_fold:
  "records_at (sd_bySuffix (fold index_record rs d)) s =
     records_at (sd_bySuffix d) s @ filter (\<lambda>r. supportedCategory (sr_Category r) \<and> sr_Suffix r = s) rs"
  by (induction rs arbitrary: d) (simp_all add: records_at_index_record)

lemma omitted_fold:
  "sd_omitted (fold index_record rs d) = sd_omitted d + int (length (filter (\<lambda>r. \<not> supportedCategory (sr_Category r)) rs))"
  by (induction rs arbitrary: d) (auto simp: index_record_def)

lemma map_of_mapped: "map_of (map (\<lambda>(k, v). (k, f v)) m) k = map_option f (map_of m k)"
  by (induction m) auto

lemma NewSuffix_records:
  "records_at (sd_bySuffix (NewSuffix rs)) s = sort_key sr_ID (filter (\<lambda>r. supportedCategory (sr_Category r) \<and> sr_Suffix r = s) rs)"
  using records_at_fold [of rs "\<lparr>sd_bySuffix = [], sd_omitted = 0\<rparr>" s]
  by (auto simp: NewSuffix_def Let_def records_at_def map_of_mapped split: option.splits)

lemma NewSuffix_omitted:
  "sd_omitted (NewSuffix rs) = int (length (filter (\<lambda>r. \<not> supportedCategory (sr_Category r)) rs))"
  by (simp add: NewSuffix_def Let_def omitted_fold)

lemma fold_index_empty:
  "sd_bySuffix (fold index_record rs d) = [] \<longleftrightarrow> sd_bySuffix d = [] \<and> (\<forall>r \<in> set rs. \<not> supportedCategory (sr_Category r))"
proof (induction rs arbitrary: d)
  case (Cons r rs)
  have "AList.update k v m \<noteq> []" for k v and m :: "(string \<times> suffix_record list) list"
    by (cases m) auto
  with Cons show ?case by (auto simp: index_record_def)
qed simp

lemma NewSuffix_empty: "sd_bySuffix (NewSuffix rs) = [] \<longleftrightarrow> (\<forall>r \<in> set rs. \<not> supportedCategory (sr_Category r))"
  by (simp add: NewSuffix_def Let_def fold_index_empty)

section \<open>What the walk visits\<close>

lemma split_on_cut:
  "split_on c s = (case cut c s of (a, b, found) \<Rightarrow> if found then a # split_on c b else [s])"
  by (induction c s rule: cut.induct) (auto split: prod.splits)

lemma at_or_below_step:
  assumes "cut CHR ''.'' name = (a, rest, True)"
  shows "at_or_below name root \<longleftrightarrow> root = name \<or> at_or_below rest root"
proof
  assume "at_or_below name root"
  then obtain ls where ls: "split_on CHR ''.'' name = ls @ split_on CHR ''.'' root" by (auto simp: at_or_below_def)
  show "root = name \<or> at_or_below rest root"
  proof (cases ls)
    case Nil
    with ls have "root = name" by (metis append_Nil join_split_on)
    then show ?thesis ..
  next
    case (Cons l ls')
    with ls assms show ?thesis by (auto simp: at_or_below_def split_on_cut [of _ name])
  qed
next
  assume "root = name \<or> at_or_below rest root"
  moreover have "at_or_below name rest"
    using assms by (auto simp: at_or_below_def split_on_cut [of _ name])
  ultimately show "at_or_below name root" by (auto intro: at_or_below_trans)
qed

lemma at_or_below_last:
  assumes "cut CHR ''.'' name = (a, rest, False)"
  shows "at_or_below name root \<longleftrightarrow> root = name"
proof
  assume "at_or_below name root"
  then obtain ls where "split_on CHR ''.'' name = ls @ split_on CHR ''.'' root" by (auto simp: at_or_below_def)
  with assms have "ls @ split_on CHR ''.'' root = [name]" by (simp add: split_on_cut [of _ name])
  then have "split_on CHR ''.'' root = [name]" by (cases ls) auto
  then show "root = name" using join_split_on [of "CHR ''.''" root] by simp
qed simp

lemma at_or_below_empty: "at_or_below [] root \<longleftrightarrow> root = []"
  using at_or_below_last [of "[]" "[]" "[]"] by simp

text \<open>The walk collects the records of every suffix of the name that starts at a label.\<close>

lemma suffix_loop_set:
  "set (suffix_loop E d ob name) = (\<Union>root \<in> {root. root \<noteq> [] \<and> at_or_below name root}. set (level_evidence E d ob root))"
proof (induction E d ob name rule: suffix_loop.induct)
  case (1 E d ob name)
  obtain a rest found where c: "cut CHR ''.'' name = (a, rest, found)" by (cases "cut CHR ''.'' name") auto
  show ?case
  proof (cases "name = []")
    case True
    then show ?thesis by (simp add: suffix_loop.simps at_or_below_empty)
  next
    case False
    show ?thesis
    proof (cases found)
      case True
      have "{root. root \<noteq> [] \<and> at_or_below name root} = insert name {root. root \<noteq> [] \<and> at_or_below rest root}"
        using at_or_below_step [of name a rest] c True False by auto
      moreover have "suffix_loop E d ob name = level_evidence E d ob name @ suffix_loop E d ob rest"
        using False c True by (subst suffix_loop.simps) simp
      ultimately show ?thesis using 1 [OF False c [symmetric] refl] True by simp
    next
      case stop: False
      have "{root. root \<noteq> [] \<and> at_or_below name root} = {name}"
        using at_or_below_last [of name a rest] c stop False by auto
      moreover have "suffix_loop E d ob name = level_evidence E d ob name"
        using False c stop by (subst suffix_loop.simps) simp
      ultimately show ?thesis by simp
    qed
  qed
qed

definition suffix_match :: "suffix_env \<Rightarrow> observation \<Rightarrow> suffix_record \<Rightarrow> json_value \<Rightarrow> bool" where
  "suffix_match E ob r json \<longleftrightarrow>
     (\<exists>name. cname_destination E ob = Some name \<and> at_or_below name (sr_Suffix r))
     \<and> supportedCategory (sr_Category r) \<and> sr_Suffix r \<noteq> [] \<and> se_marshal E r = Some json"

lemma in_level_evidence:
  "ev \<in> set (level_evidence E (NewSuffix rs) ob root) \<longleftrightarrow>
     (\<exists>r \<in> set rs. \<exists>json. supportedCategory (sr_Category r) \<and> sr_Suffix r = root \<and> se_marshal E r = Some json \<and> ev = suffix_evidence E ob r json)"
  by (force simp: level_evidence_def NewSuffix_records map_filter_def image_iff)

lemma in_suffix_matches:
  "ev \<in> set (suffix_matches E (NewSuffix rs) ob) \<longleftrightarrow>
     (\<exists>r \<in> set rs. \<exists>json. suffix_match E ob r json \<and> ev = suffix_evidence E ob r json)"
proof (cases "cname_destination E ob")
  case (Some name)
  then show ?thesis by (auto simp: suffix_matches_def suffix_loop_set in_level_evidence suffix_match_def)
qed (simp add: suffix_matches_def suffix_match_def)

section \<open>What the detector reports\<close>

lemma suffix_observations_spec:
  "suffix_observations E d ctx n obs = (evs, m, c) \<Longrightarrow>
     n \<le> m \<and> m \<le> n + length obs \<and> evs = concat (map (suffix_matches E d) (take (m - n) obs))
     \<and> (if c then m < n + length obs \<and> ctx m \<noteq> None else m = n + length obs)"
proof (induction obs arbitrary: n evs)
  case (Cons ob obs)
  show ?case
  proof (cases "ctx n")
    case None
    obtain evs' where rest: "suffix_observations E d ctx (Suc n) obs = (evs', m, c)" "evs = suffix_matches E d ob @ evs'"
      using Cons.prems None by (auto split: prod.splits)
    note IH = Cons.IH [OF rest(1)]
    have "take (m - n) (ob # obs) = ob # take (m - Suc n) obs" using IH by (auto simp: take_Cons')
    then show ?thesis using IH rest(2) by auto
  qed (use Cons.prems in auto)
qed auto

text \<open>C29: The suffix detector reports exactly the pairs of an answered CNAME record outside mail and a
  bundle record of a supported category whose suffix is the destination or one of its parent domains,
  label by label, among the observations it completed. It completes all of them unless the bundle has
  no usable record or the context ended; complete coverage means that no record of the bundle was left
  out and that the evidence is sorted by identifier.\<close>

theorem suffix_detection_exact:
  assumes "DetectSuffix E (NewSuffix rs) ctx obs = (evs, covs)"
  shows "\<exists>cov k. covs = [cov] \<and> cv_Completed cov = int k \<and> k \<le> length obs
     \<and> set evs = {suffix_evidence E ob r json |ob r json. ob \<in> set (take k obs) \<and> r \<in> set rs \<and> suffix_match E ob r json}
     \<and> cv_Omitted cov = int (length (filter (\<lambda>r. \<not> supportedCategory (sr_Category r)) rs))
     \<and> (cv_Status cov = CoverageUnavailable \<longleftrightarrow> (\<forall>r \<in> set rs. \<not> supportedCategory (sr_Category r)))
     \<and> (k < length obs \<longrightarrow> cv_Status cov = CoverageUnavailable \<or> cv_ErrorCodes cov = [CodeCancelled] \<and> ctx k \<noteq> None)
     \<and> (cv_Status cov = CoverageComplete \<longrightarrow> k = length obs \<and> sorted (map ev_ID evs) \<and> (\<forall>r \<in> set rs. supportedCategory (sr_Category r)))"
proof (cases "sd_bySuffix (NewSuffix rs) = []")
  case True
  note none = True [unfolded NewSuffix_empty]
  have "evs = []" using assms True by (simp add: DetectSuffix_def Let_def)
  moreover have "suffix_match E ob r json \<Longrightarrow> r \<in> set rs \<Longrightarrow> False" for ob r json using none by (simp add: suffix_match_def)
  ultimately show ?thesis
    using assms True none by (intro exI [of _ "hd covs"] exI [of _ 0]) (auto simp: DetectSuffix_def Let_def NewSuffix_omitted zero_coverage_def)
next
  case False
  obtain found k c where run: "suffix_observations E (NewSuffix rs) ctx 0 obs = (found, k, c)" by (metis prod_cases3)
  note S = suffix_observations_spec [OF run]
  have found: "set found = {suffix_evidence E ob r json |ob r json. ob \<in> set (take k obs) \<and> r \<in> set rs \<and> suffix_match E ob r json}"
    unfolding conjunct1 [OF conjunct2 [OF conjunct2 [OF S]]] by (simp add: set_eq_iff in_suffix_matches) blast
  have all: "sd_omitted (NewSuffix rs) \<le> 0 \<longleftrightarrow> (\<forall>r \<in> set rs. supportedCategory (sr_Category r))"
    by (auto simp: NewSuffix_omitted filter_empty_conv)
  show ?thesis
  proof (cases c)
    case True
    then have "evs = found" "covs = [hd covs]" "cv_Status (hd covs) = CoveragePartial" "cv_ErrorCodes (hd covs) = [CodeCancelled]"
      "cv_Completed (hd covs) = int k" "cv_Omitted (hd covs) = sd_omitted (NewSuffix rs)"
      using assms False run by (auto simp: DetectSuffix_def Let_def)
    then show ?thesis using S found False True
      by (intro exI [of _ "hd covs"] exI [of _ k]) (simp add: NewSuffix_empty NewSuffix_omitted)
  next
    case whole: False
    then have "evs = sort_key ev_ID found" "covs = [hd covs]"
      "cv_Status (hd covs) = (if sd_omitted (NewSuffix rs) > 0 then CoveragePartial else CoverageComplete)"
      "cv_Completed (hd covs) = int k" "cv_Omitted (hd covs) = sd_omitted (NewSuffix rs)"
      using assms False run by (auto simp: DetectSuffix_def Let_def)
    then show ?thesis using S found False whole all
      by (intro exI [of _ "hd covs"] exI [of _ k]) (auto simp: NewSuffix_empty NewSuffix_omitted not_less)
  qed
qed

definition example_suffix :: "string \<Rightarrow> string \<Rightarrow> string \<Rightarrow> suffix_record" where
  "example_suffix name suffix category = \<lparr>sr_ID = name, sr_Suffix = suffix, sr_Category = category, sr_ProviderID = ''acme'',
     sr_SourceID = ''cdncheck-data'', sr_Revision = [], sr_Digest = [], sr_RecordRef = [], sr_ProvenanceGroup = [], sr_RecordRefs = []\<rparr>"

definition example_suffix_env :: suffix_env where
  "example_suffix_env = \<lparr>
     se_unmarshal_dns = (\<lambda>v. Some \<lparr>dp_RRType = ''CNAME'', dp_Owner = [], dp_Outcome = Answered, dp_Value = v, dp_Address = NoAddr,
       dp_TTL = 0, dp_Section = [], dp_ResponseCode = 0, dp_Resolver = [], dp_Transport = [], dp_PolicyReason = []\<rparr>),
     se_marshal = (\<lambda>r. Some (sr_ID r)), se_hash = (\<lambda>s. s)\<rparr>"

definition example_cname :: observation where
  "example_cname = \<lparr>ob_ID = ''o'', ob_Type = ''dns_record'', ob_Subject = ''www.example.org'', ob_Relation = [], ob_Scope = ScopeRoot,
     ob_ObservedAt = 0, ob_CollectorVersion = [], ob_Status = ''answered'', ob_Payload = ''a.Edge.test.'', ob_ContentHash = []\<rparr>"

theorem suffix_detection_exact_witness:
  "\<exists>cov k evs. DetectSuffix example_suffix_env
       (NewSuffix [example_suffix ''a'' ''edge.test'' ''cdn'', example_suffix ''b'' ''dge.test'' ''cdn'', example_suffix ''c'' ''edge.test'' ''common''])
       (\<lambda>_. None) [example_cname] = (evs, [cov]) \<and> cv_Completed cov = int k \<and> cv_Omitted cov = 1
       \<and> map ev_ID evs = [''evidence-cdn-suffix-a'' @ [CHR 0x00] @ ''o'']"
proof -
  let ?D = "DetectSuffix example_suffix_env
       (NewSuffix [example_suffix ''a'' ''edge.test'' ''cdn'', example_suffix ''b'' ''dge.test'' ''cdn'', example_suffix ''c'' ''edge.test'' ''common''])
       (\<lambda>_. None) [example_cname]"
  obtain evs covs where run: "?D = (evs, covs)" by (cases ?D)
  have "map ev_ID (fst ?D) = [''evidence-cdn-suffix-a'' @ [CHR 0x00] @ ''o'']" by code_simp
  with suffix_detection_exact [OF run] run show ?thesis by (auto simp: example_suffix_def supportedCategory_def)
qed

end
