(* ===== verification/Inventory_Import.thy ===== *)
theory Inventory_Import
  imports Target Go_Library
begin

text \<open>
  Package internal/inventory: host names, the search key of a name and the import of a chunk of
  sightings (inventory.go).

  SHA-256, with its hexadecimal form, and the JSON encoding of a request are arguments; the durable
  store is the function its interface names. A receiver or store that is nil is \<open>None\<close>.
\<close>

section \<open>Names\<close>

record inventory_env =
  iv_target :: target_env
  iv_sha256 :: "string \<Rightarrow> string"

definition AssetID :: "inventory_env \<Rightarrow> string \<Rightarrow> string" where
  "AssetID E hostname = ''asset-sha256:'' @ iv_sha256 E hostname"

definition ReverseLabels :: "string \<Rightarrow> string" where
  "ReverseLabels hostname = join ''.'' (rev (split_on CHR ''.'' hostname)) @ ''.''"

definition hostname_request :: "string \<Rightarrow> analyze_request" where
  "hostname_request raw = zero_analyze_request\<lparr>ar_Target := raw, ar_Kind := TargetDomain, ar_Mode := ModeDNS, ar_IncludeWWW := Some False\<rparr>"

definition NormalizeHostname :: "inventory_env \<Rightarrow> string \<Rightarrow> go_error + string \<times> string" where
  "NormalizeHostname E raw =
     (case Normalize (iv_target E) (hostname_request raw) of
        Inl e \<Rightarrow> Inl e
      | Inr normalized \<Rightarrow> Inr (tg_Canonical (nr_Target normalized), nr_IDNAProfileVersion normalized))"

definition WithinScope :: "string \<Rightarrow> string \<Rightarrow> bool" where
  "WithinScope hostname root = (hostname = root \<or> has_suffix hostname (''.'' @ root))"

section \<open>Import\<close>

abbreviation "MaximumImportEntries \<equiv> 1000 :: nat"

record inventory_entry =
  ie_Hostname :: string
  ie_ObservedAt :: "gotime option"

record import_request =
  iq_OperationID :: string
  iq_ChunkID :: string
  iq_SourceID :: string
  iq_ScopeRoots :: "string list"
  iq_Entries :: "inventory_entry list"

record import_counts =
  ic_Accepted :: int
  ic_Duplicate :: int
  ic_Invalid :: int
  ic_Wildcard :: int
  ic_OutOfScope :: int
  ic_Suppressed :: int
  ic_Stale :: int

definition zero_counts :: import_counts where
  "zero_counts = \<lparr>ic_Accepted = 0, ic_Duplicate = 0, ic_Invalid = 0, ic_Wildcard = 0, ic_OutOfScope = 0,
     ic_Suppressed = 0, ic_Stale = 0\<rparr>"

record import_receipt =
  ip_OperationID :: string
  ip_ChunkID :: string
  ip_Counts :: import_counts

record sighting =
  sg_AssetID :: string
  sg_Hostname :: string
  sg_ReversedLabels :: string
  sg_NormalizationVersion :: string
  sg_SourceID :: string
  sg_FirstObservedAt :: "gotime option"
  sg_LastObservedAt :: "gotime option"
  sg_ScopeRoots :: "string list"

type_synonym 's import_store =
  "import_receipt \<Rightarrow> string \<Rightarrow> string list \<Rightarrow> sighting list \<Rightarrow> gotime \<Rightarrow> 's \<Rightarrow> 's \<times> (go_error + import_receipt)"

text \<open>The state of the loop over the entries: the counts, the position of each host name and the sightings.\<close>

record import_state =
  im_Counts :: import_counts
  im_seen :: "string \<rightharpoonup> nat"
  im_sightings :: "sighting list"

definition widen_sighting :: "gotime option \<Rightarrow> sighting \<Rightarrow> sighting" where
  "widen_sighting observedAt s =
     (case observedAt of
        None \<Rightarrow> s
      | Some observed \<Rightarrow>
          let s = (if sg_FirstObservedAt s = None \<or> observed < the (sg_FirstObservedAt s)
                   then s\<lparr>sg_FirstObservedAt := Some observed\<rparr> else s)
          in (if sg_LastObservedAt s = None \<or> observed > the (sg_LastObservedAt s)
              then s\<lparr>sg_LastObservedAt := Some observed\<rparr> else s))"

definition import_entry :: "inventory_env \<Rightarrow> string \<Rightarrow> string list \<Rightarrow> inventory_entry \<Rightarrow> import_state \<Rightarrow> import_state" where
  "import_entry E sourceID roots entry st =
     (if has_prefix (trim_space (ie_Hostname entry)) ''*.''
      then st\<lparr>im_Counts := (im_Counts st)\<lparr>ic_Wildcard := ic_Wildcard (im_Counts st) + 1\<rparr>\<rparr>
      else (case NormalizeHostname E (ie_Hostname entry) of
        Inl e \<Rightarrow> st\<lparr>im_Counts := (im_Counts st)\<lparr>ic_Invalid := ic_Invalid (im_Counts st) + 1\<rparr>\<rparr>
      | Inr (hostname, version) \<Rightarrow>
          let matches = filter (WithinScope hostname) roots in
          if matches = [] then st\<lparr>im_Counts := (im_Counts st)\<lparr>ic_OutOfScope := ic_OutOfScope (im_Counts st) + 1\<rparr>\<rparr>
          else (case im_seen st hostname of
            Some index \<Rightarrow>
              st\<lparr>im_Counts := (im_Counts st)\<lparr>ic_Duplicate := ic_Duplicate (im_Counts st) + 1\<rparr>,
                 im_sightings := (im_sightings st)[index := widen_sighting (ie_ObservedAt entry) (im_sightings st ! index)]\<rparr>
          | None \<Rightarrow>
              st\<lparr>im_seen := (im_seen st)(hostname \<mapsto> length (im_sightings st)),
                 im_sightings := im_sightings st @ [\<lparr>sg_AssetID = AssetID E hostname, sg_Hostname = hostname,
                   sg_ReversedLabels = ReverseLabels hostname, sg_NormalizationVersion = version, sg_SourceID = sourceID,
                   sg_FirstObservedAt = ie_ObservedAt entry, sg_LastObservedAt = ie_ObservedAt entry, sg_ScopeRoots = matches\<rparr>]\<rparr>)))"

text \<open>The loop; \<open>ctx n\<close> is the context before entry \<open>n\<close>.\<close>

fun import_entries ::
    "inventory_env \<Rightarrow> string \<Rightarrow> string list \<Rightarrow> (nat \<Rightarrow> go_error option) \<Rightarrow> nat \<Rightarrow> inventory_entry list \<Rightarrow> import_state \<Rightarrow> go_error + import_state" where
  "import_entries E sourceID roots ctx n [] st = Inr st"
| "import_entries E sourceID roots ctx n (entry # entries) st =
     (case ctx n of
        Some e \<Rightarrow> Inl e
      | None \<Rightarrow> import_entries E sourceID roots ctx (Suc n) entries (import_entry E sourceID roots entry st))"

definition identity_control :: "string \<Rightarrow> bool" where
  "identity_control value = (index_any [CHR 0x00, CHR 0x0D, CHR 0x0A] value \<noteq> None)"

definition import_bounded :: "import_request \<Rightarrow> bool" where
  "import_bounded req =
     (\<not> (length (iq_OperationID req) = 0 \<or> length (iq_OperationID req) > 128 \<or> length (iq_ChunkID req) = 0 \<or> length (iq_ChunkID req) > 128
       \<or> length (iq_SourceID req) = 0 \<or> length (iq_SourceID req) > 128 \<or> length (iq_ScopeRoots req) = 0 \<or> length (iq_ScopeRoots req) > 32
       \<or> length (iq_Entries req) = 0 \<or> length (iq_Entries req) > MaximumImportEntries))"

definition import_roots :: "inventory_env \<Rightarrow> string list \<Rightarrow> go_error + string list" where
  "import_roots E raws =
     and_then (map_result (\<lambda>raw. case NormalizeHostname E raw of
                   Inl e \<Rightarrow> Inl (Wrap ''normalize inventory scope'' e) | Inr (root, _) \<Rightarrow> Inr root) raws)
       (\<lambda>roots. Inr (compact (sort roots)))"

text \<open>Everything before the call of the store: the receipt, the digest, the roots and the sightings it is called with.\<close>

definition prepare_import ::
    "inventory_env \<Rightarrow> (import_request \<Rightarrow> go_error + string) \<Rightarrow> (nat \<Rightarrow> go_error option) \<Rightarrow> import_request \<Rightarrow>
     go_error + import_receipt \<times> string \<times> string list \<times> sighting list" where
  "prepare_import E marshal ctx req =
     (if \<not> import_bounded req
      then Inl (NewError CodeInvalidOptions ''inventory import requires bounded identities, scopes, and entries'' None)
      else if list_ex identity_control [iq_OperationID req, iq_ChunkID req, iq_SourceID req]
      then Inl (NewError CodeInvalidOptions ''inventory import identity contains control text'' None)
      else and_then (import_roots E (iq_ScopeRoots req)) (\<lambda>roots.
        (case marshal req of
           Inl e \<Rightarrow> Inl (Wrap ''encode inventory import identity'' e)
         | Inr canonicalRequest \<Rightarrow>
             and_then (import_entries E (iq_SourceID req) roots ctx 0 (iq_Entries req)
                         \<lparr>im_Counts = zero_counts, im_seen = (\<lambda>_. None), im_sightings = []\<rparr>) (\<lambda>st.
               Inr (\<lparr>ip_OperationID = iq_OperationID req, ip_ChunkID = iq_ChunkID req, ip_Counts = im_Counts st\<rparr>,
                    ''sha256:'' @ iv_sha256 E canonicalRequest, roots, im_sightings st)))))"

definition Import_chunk ::
    "inventory_env \<Rightarrow> (import_request \<Rightarrow> go_error + string) \<Rightarrow> 's import_store option \<Rightarrow> gotime \<Rightarrow> (nat \<Rightarrow> go_error option) \<Rightarrow>
     import_request \<Rightarrow> 's \<Rightarrow> 's \<times> (go_error + import_receipt)" where
  "Import_chunk E marshal store startedAt ctx req s =
     (case store of
        None \<Rightarrow> (s, Inl (NewError CodeInvalidOptions ''inventory import requires bounded identities, scopes, and entries'' None))
      | Some ImportInventoryChunk \<Rightarrow>
          (case prepare_import E marshal ctx req of
             Inl e \<Rightarrow> (s, Inl e)
           | Inr (receipt, digest, roots, sightings) \<Rightarrow> ImportInventoryChunk receipt digest roots sightings startedAt s))"

section \<open>The key of descendant searches\<close>

definition dotted :: "string list \<Rightarrow> string" where
  "dotted ls = concat (map (\<lambda>l. l @ ''.'') ls)"

lemma dotted_simps [simp]: "dotted [] = []" "dotted (l # ls) = l @ CHR ''.'' # dotted ls"
  by (simp_all add: dotted_def)

lemma join_dotted: "ls \<noteq> [] \<Longrightarrow> join ''.'' ls @ ''.'' = dotted ls"
  by (induction "''.''" ls rule: join.induct) auto

lemma ReverseLabels_dotted: "ReverseLabels h = dotted (rev (split_on CHR ''.'' h))"
  unfolding ReverseLabels_def by (rule join_dotted) simp

lemma split_on_parts: "l \<in> set (split_on c s) \<Longrightarrow> c \<notin> set l"
  by (induction s arbitrary: l) (auto split: if_splits list.splits)

lemma separator_inj:
  "c \<notin> set l \<Longrightarrow> c \<notin> set k \<Longrightarrow> l @ c # x = k @ c # y \<longleftrightarrow> l = k \<and> x = y"
  by (induction l arbitrary: k) (case_tac k; auto)+

lemma dotted_prefix:
  assumes "\<forall>l \<in> set ks. CHR ''.'' \<notin> set l" "\<forall>l \<in> set ls. CHR ''.'' \<notin> set l"
  shows "(\<exists>t. dotted ls = dotted ks @ t) \<longleftrightarrow> (\<exists>ms. ls = ks @ ms)"
  using assms
proof (induction ks arbitrary: ls)
  case (Cons k ks)
  show ?case
  proof (cases ls)
    case (Cons l ls')
    then show ?thesis using Cons.IH [of ls'] Cons.prems by (auto simp: separator_inj)
  qed simp
qed simp

lemma reverse_key_prefix: "has_prefix (ReverseLabels h) (ReverseLabels root) \<longleftrightarrow> at_or_below h root"
proof -
  have "has_prefix (ReverseLabels h) (ReverseLabels root) \<longleftrightarrow> (\<exists>ms. rev (split_on CHR ''.'' h) = rev (split_on CHR ''.'' root) @ ms)"
    unfolding ReverseLabels_dotted has_prefix_iff by (rule dotted_prefix) (auto dest: split_on_parts)
  also have "\<dots> \<longleftrightarrow> at_or_below h root" unfolding at_or_below_def by (metis rev_append rev_rev_ident)
  finally show ?thesis .
qed

text \<open>The search key of a host name is a prefix key for its descendants: the key of a root is a prefix of
  the key of a name exactly when the name is the root or lies below it, label by label, which is also what the
  scope check of an import decides.\<close>

lemma reverse_labels_prefix:
  "has_prefix (ReverseLabels hostname) (ReverseLabels root) \<longleftrightarrow> WithinScope hostname root"
  unfolding reverse_key_prefix WithinScope_def label_suffix_iff [symmetric] by simp

section \<open>What an import keeps\<close>

text \<open>The account of a chunk: the name an entry is admitted under, the names in the order they first
  occur, the times a name was observed and the sighting that follows.\<close>

definition wildcard_entry :: "inventory_entry \<Rightarrow> bool" where
  "wildcard_entry entry = has_prefix (trim_space (ie_Hostname entry)) ''*.''"

definition invalid_entry :: "inventory_env \<Rightarrow> inventory_entry \<Rightarrow> bool" where
  "invalid_entry E entry \<longleftrightarrow> \<not> wildcard_entry entry \<and> (\<exists>e. NormalizeHostname E (ie_Hostname entry) = Inl e)"

definition entry_name :: "inventory_env \<Rightarrow> string list \<Rightarrow> inventory_entry \<Rightarrow> string option" where
  "entry_name E roots entry =
     (if wildcard_entry entry then None
      else (case NormalizeHostname E (ie_Hostname entry) of
          Inl e \<Rightarrow> None
        | Inr (hostname, version) \<Rightarrow> if list_ex (WithinScope hostname) roots then Some hostname else None))"

definition admitted_names :: "inventory_env \<Rightarrow> string list \<Rightarrow> inventory_entry list \<Rightarrow> string list" where
  "admitted_names E roots entries = List.map_filter (entry_name E roots) entries"

definition first_names :: "string list \<Rightarrow> string list" where
  "first_names ns = rev (remdups (rev ns))"

definition observed_times :: "inventory_env \<Rightarrow> string list \<Rightarrow> inventory_entry list \<Rightarrow> string \<Rightarrow> gotime list" where
  "observed_times E roots entries hostname =
     List.map_filter (\<lambda>entry. if entry_name E roots entry = Some hostname then ie_ObservedAt entry else None) entries"

definition sighting_of :: "inventory_env \<Rightarrow> string \<Rightarrow> string list \<Rightarrow> inventory_entry list \<Rightarrow> string \<Rightarrow> sighting" where
  "sighting_of E sourceID roots entries hostname =
     (let times = observed_times E roots entries hostname in
      \<lparr>sg_AssetID = AssetID E hostname, sg_Hostname = hostname, sg_ReversedLabels = ReverseLabels hostname,
       sg_NormalizationVersion = idnaVersion, sg_SourceID = sourceID,
       sg_FirstObservedAt = (if times = [] then None else Some (Min (set times))),
       sg_LastObservedAt = (if times = [] then None else Some (Max (set times))),
       sg_ScopeRoots = filter (at_or_below hostname) roots\<rparr>)"

lemma WithinScope_iff: "WithinScope hostname root \<longleftrightarrow> at_or_below hostname root"
  unfolding WithinScope_def label_suffix_iff [symmetric] by simp

lemma NormalizeHostname_version:
  assumes "NormalizeHostname E raw = Inr (hostname, version)"
  shows "version = idnaVersion"
proof -
  obtain r where "NormalizeWithSeedLimit (iv_target E) (hostname_request raw) 32 = Inr r" "version = nr_IDNAProfileVersion r"
    using assms by (auto simp: NormalizeHostname_def Normalize_def split: sum.splits)
  then show ?thesis
    by (auto simp: NormalizeWithSeedLimit_def hostname_request_def normalize_domain_target_def plan_seeds_def plan_result_def
        and_then_Inr_iff Let_def split: if_splits option.splits sum.splits)
qed

lemma first_names_snoc: "first_names (ns @ [n]) = (if n \<in> set ns then first_names ns else first_names ns @ [n])"
  by (simp add: first_names_def)

lemma first_names_facts [simp]: "set (first_names ns) = set ns" "distinct (first_names ns)"
  by (simp_all add: first_names_def)

lemma admitted_names_snoc:
  "admitted_names E roots (es @ [e]) = admitted_names E roots es @ (case entry_name E roots e of None \<Rightarrow> [] | Some h \<Rightarrow> [h])"
  by (simp add: admitted_names_def map_filter_def split: option.splits)

lemma observed_times_snoc:
  "observed_times E roots (es @ [e]) h = observed_times E roots es h
     @ (if entry_name E roots e = Some h then (case ie_ObservedAt e of None \<Rightarrow> [] | Some t \<Rightarrow> [t]) else [])"
  by (simp add: observed_times_def map_filter_def split: option.splits)

lemma observed_times_fresh: "h \<notin> set (admitted_names E roots es) \<Longrightarrow> observed_times E roots es h = []"
  by (auto simp: observed_times_def admitted_names_def map_filter_def filter_empty_conv image_iff split: if_splits)

lemma sighting_of_other: "entry_name E roots e \<noteq> Some h \<Longrightarrow> sighting_of E src roots (es @ [e]) h = sighting_of E src roots es h"
  by (simp add: sighting_of_def observed_times_snoc)

lemma extreme_insert:
  fixes ts :: "gotime list"
  assumes "ts \<noteq> []"
  shows "Min (insert t (set ts)) = (if t < Min (set ts) then t else Min (set ts))"
    "Max (insert t (set ts)) = (if t > Max (set ts) then t else Max (set ts))"
  using assms by (simp_all add: min_def max_def del: Min_less_iff Max_less_iff Min_le_iff Min_ge_iff Max_le_iff Max_ge_iff Min_gr_iff Max_gr_iff)

lemma sighting_of_widened:
  "entry_name E roots e = Some h \<Longrightarrow> sighting_of E src roots (es @ [e]) h = widen_sighting (ie_ObservedAt e) (sighting_of E src roots es h)"
  by (cases "ie_ObservedAt e"; cases "observed_times E roots es h = []")
    (simp_all add: sighting_of_def observed_times_snoc widen_sighting_def Let_def extreme_insert
      del: Min_less_iff Max_less_iff Min_le_iff Min_ge_iff Max_le_iff Max_ge_iff Min_gr_iff Max_gr_iff)

definition counted :: "inventory_env \<Rightarrow> string list \<Rightarrow> inventory_entry list \<Rightarrow> import_counts" where
  "counted E roots es = zero_counts\<lparr>
     ic_Wildcard := int (length (filter wildcard_entry es)),
     ic_Invalid := int (length (filter (invalid_entry E) es)),
     ic_OutOfScope := int (length (filter (\<lambda>e. \<not> wildcard_entry e \<and> \<not> invalid_entry E e \<and> entry_name E roots e = None) es)),
     ic_Duplicate := int (length (admitted_names E roots es)) - int (card (set (admitted_names E roots es)))\<rparr>"

definition import_account :: "inventory_env \<Rightarrow> string \<Rightarrow> string list \<Rightarrow> inventory_entry list \<Rightarrow> import_state \<Rightarrow> bool" where
  "import_account E src roots es st \<longleftrightarrow>
     (let names = first_names (admitted_names E roots es) in
      im_Counts st = counted E roots es
      \<and> im_sightings st = map (sighting_of E src roots es) names
      \<and> (\<forall>h i. im_seen st h = Some i \<longleftrightarrow> i < length names \<and> names ! i = h))"

lemma first_names_card: "length (first_names ns) = card (set ns)"
  by (metis distinct_card first_names_facts)

lemma import_entry_account:
  assumes "import_account E src roots es st"
  shows "import_account E src roots (es @ [e]) (import_entry E src roots e st)"
proof -
  define names where "names = first_names (admitted_names E roots es)"
  have A: "im_Counts st = counted E roots es" "im_sightings st = map (sighting_of E src roots es) names"
    "\<And>h i. im_seen st h = Some i \<longleftrightarrow> i < length names \<and> names ! i = h"
    using assms by (simp_all add: import_account_def Let_def names_def)
  have names: "set names = set (admitted_names E roots es)" "distinct names" by (simp_all add: names_def)
  show ?thesis
  proof (cases "entry_name E roots e")
    case None
    have same: "map (sighting_of E src roots (es @ [e])) names = im_sightings st"
      using A(2) None by (simp add: sighting_of_other)
    have "im_sightings (import_entry E src roots e st) = im_sightings st \<and> im_seen (import_entry E src roots e st) = im_seen st
      \<and> im_Counts (import_entry E src roots e st) = counted E roots (es @ [e])"
      using None A(1)
      by (auto simp: import_entry_def entry_name_def wildcard_entry_def [symmetric] counted_def zero_counts_def invalid_entry_def
          admitted_names_snoc filter_empty_conv list_ex_iff Let_def split: sum.splits if_splits)
    then show ?thesis using A same None
      by (simp add: import_account_def admitted_names_snoc names_def [symmetric])
  next
    case (Some h)
    then have entry: "\<not> wildcard_entry e" "NormalizeHostname E (ie_Hostname e) = Inr (h, idnaVersion)" "filter (WithinScope h) roots \<noteq> []"
      using NormalizeHostname_version by (auto simp: entry_name_def filter_empty_conv list_ex_iff split: if_splits sum.splits)
    have scopes: "filter (WithinScope h) roots = filter (at_or_below h) roots" by (simp add: WithinScope_iff [abs_def])
    show ?thesis
    proof (cases "h \<in> set names")
      case True
      then obtain i where i: "i < length names" "names ! i = h" by (meson in_set_conv_nth)
      then have seen: "im_seen st h = Some i" using A(3) by blast
      have "map (sighting_of E src roots (es @ [e])) names
        = (im_sightings st)[i := widen_sighting (ie_ObservedAt e) (im_sightings st ! i)]"
        unfolding A(2) using i names(2) Some
        by (intro nth_equalityI) (auto simp: nth_list_update sighting_of_widened nth_eq_iff_index_eq intro!: sighting_of_other)
      moreover have "counted E roots (es @ [e]) = (counted E roots es)\<lparr>ic_Duplicate := ic_Duplicate (counted E roots es) + 1\<rparr>"
        using entry Some True names(1) by (simp add: counted_def invalid_entry_def admitted_names_snoc insert_absorb)
      moreover have "import_entry E src roots e st =
        st\<lparr>im_Counts := (counted E roots es)\<lparr>ic_Duplicate := ic_Duplicate (counted E roots es) + 1\<rparr>,
           im_sightings := (im_sightings st)[i := widen_sighting (ie_ObservedAt e) (im_sightings st ! i)]\<rparr>"
        using entry seen A(1) by (simp add: import_entry_def wildcard_entry_def [symmetric] Let_def)
      ultimately show ?thesis using A(3) True Some names(1)
        by (simp add: import_account_def admitted_names_snoc first_names_snoc names_def [symmetric])
    next
      case False
      then have seen: "im_seen st h = None" using A(3) by (metis not_None_eq nth_mem)
      have new: "sighting_of E src roots (es @ [e]) h = \<lparr>sg_AssetID = AssetID E h, sg_Hostname = h,
          sg_ReversedLabels = ReverseLabels h, sg_NormalizationVersion = idnaVersion, sg_SourceID = src,
          sg_FirstObservedAt = ie_ObservedAt e, sg_LastObservedAt = ie_ObservedAt e, sg_ScopeRoots = filter (WithinScope h) roots\<rparr>"
        using Some False names(1) by (simp add: sighting_of_def observed_times_snoc observed_times_fresh scopes split: option.splits)
      have old: "map (sighting_of E src roots (es @ [e])) names = im_sightings st"
        unfolding A(2) using False Some by (auto intro!: sighting_of_other)
      have "import_entry E src roots e st = st\<lparr>im_seen := (im_seen st)(h \<mapsto> length names),
          im_sightings := im_sightings st @ [sighting_of E src roots (es @ [e]) h]\<rparr>"
        using entry seen A(2) by (simp add: import_entry_def wildcard_entry_def [symmetric] Let_def new)
      moreover have "counted E roots (es @ [e]) = counted E roots es"
        using entry Some False names(1) by (simp add: counted_def invalid_entry_def admitted_names_snoc)
      ultimately show ?thesis using A(1,3) False Some names(1) old
        by (auto simp: import_account_def admitted_names_snoc first_names_snoc names_def [symmetric] nth_append)
    qed
  qed
qed

lemma import_entries_account:
  "import_entries E src roots ctx n es st = Inr st' \<Longrightarrow> import_account E src roots us st \<Longrightarrow> import_account E src roots (us @ es) st'"
proof (induction es arbitrary: n us st)
  case (Cons e es)
  then show ?case using import_entry_account [OF Cons.prems(2), of e]
    by (auto split: option.splits) (metis append_Cons append_Nil append_assoc)
qed simp

lemma import_entries_Inl: "import_entries E src roots ctx n es st = Inl e \<Longrightarrow> \<exists>k. n \<le> k \<and> k < n + length es \<and> ctx k = Some e"
proof (induction es arbitrary: n st)
  case (Cons a es)
  show ?case
  proof (cases "ctx n")
    case None
    then obtain k where "Suc n \<le> k" "k < Suc n + length es" "ctx k = Some e" using Cons by fastforce
    then show ?thesis by (intro exI [of _ k]) auto
  next
    case (Some e')
    then show ?thesis using Cons.prems by (intro exI [of _ n]) auto
  qed
qed simp

lemma import_roots_Inr:
  assumes "import_roots E raws = Inr roots"
  shows "sorted roots" "distinct roots" "raws \<noteq> [] \<Longrightarrow> roots \<noteq> []"
    "set roots = {root. \<exists>raw \<in> set raws. \<exists>v. NormalizeHostname E raw = Inr (root, v)}"
proof -
  define f where "f = (\<lambda>raw. case NormalizeHostname E raw of Inl e \<Rightarrow> Inl (Wrap ''normalize inventory scope'' e) | Inr (root, _) \<Rightarrow> Inr root)"
  obtain rs where rs: "map_result f raws = Inr rs" "roots = compact (sort rs)"
    using assms by (auto simp: import_roots_def f_def and_then_Inr_iff)
  have all: "list_all2 (\<lambda>x y. f x = Inr y) raws rs" by (rule map_result_Inr [OF rs(1)])
  have eq: "f x = Inr y \<longleftrightarrow> (\<exists>v. NormalizeHostname E x = Inr (y, v))" for x y by (auto simp: f_def split: sum.splits)
  show "sorted roots" "distinct roots" by (simp_all add: rs)
  show "roots \<noteq> []" if "raws \<noteq> []"
    using that list_all2_lengthD [OF all] rs(2) by (metis compact_eq_Nil length_0_conv length_sort)
  have "set rs = {y. \<exists>x \<in> set raws. f x = Inr y}"
    using all by (induction raws rs) auto
  then show "set roots = {root. \<exists>raw \<in> set raws. \<exists>v. NormalizeHostname E raw = Inr (root, v)}"
    by (simp add: rs eq)
qed

lemma import_roots_ok: "(\<exists>roots. import_roots E raws = Inr roots) \<longleftrightarrow> (\<forall>raw \<in> set raws. \<exists>h v. NormalizeHostname E raw = Inr (h, v))"
proof -
  have "(\<exists>ys. map_result f xs = Inr ys) \<longleftrightarrow> (\<forall>x \<in> set xs. \<exists>y. f x = Inr y)" for f :: "string \<Rightarrow> go_error + string" and xs
    by (induction xs) (auto simp: and_then_Inr_iff)
  moreover have "(\<exists>root. (case NormalizeHostname E raw of Inl e \<Rightarrow> Inl (Wrap ''normalize inventory scope'' e) | Inr (root, _) \<Rightarrow> Inr root) = Inr root)
      \<longleftrightarrow> (\<exists>h v. NormalizeHostname E raw = Inr (h, v))" for raw
    by (auto split: sum.splits)
  ultimately show ?thesis by (simp add: import_roots_def and_then_Inr_iff)
qed

lemma import_entries_ok: "(\<exists>st'. import_entries E src roots ctx n es st = Inr st') \<longleftrightarrow> (\<forall>k < length es. ctx (n + k) = None)"
proof (induction es arbitrary: n st)
  case (Cons e es)
  have "(\<forall>k < length (e # es). ctx (n + k) = None) \<longleftrightarrow> ctx n = None \<and> (\<forall>k < length es. ctx (Suc n + k) = None)"
    by (simp add: All_less_Suc2)
  with Cons show ?case by (auto split: option.splits)
qed simp

definition import_acceptable :: "inventory_env \<Rightarrow> (import_request \<Rightarrow> go_error + string) \<Rightarrow> (nat \<Rightarrow> go_error option) \<Rightarrow> import_request \<Rightarrow> bool" where
  "import_acceptable E marshal ctx req \<longleftrightarrow>
     import_bounded req \<and> \<not> list_ex identity_control [iq_OperationID req, iq_ChunkID req, iq_SourceID req]
     \<and> (\<forall>raw \<in> set (iq_ScopeRoots req). \<exists>h v. NormalizeHostname E raw = Inr (h, v))
     \<and> (\<exists>canonical. marshal req = Inr canonical) \<and> (\<forall>k < length (iq_Entries req). ctx k = None)"

lemma counted_total:
  "ic_Wildcard (counted E roots es) + ic_Invalid (counted E roots es) + ic_OutOfScope (counted E roots es)
     + ic_Duplicate (counted E roots es) + int (length (first_names (admitted_names E roots es))) = int (length es)"
proof -
  have "length (filter wildcard_entry es) + length (filter (invalid_entry E) es)
      + length (filter (\<lambda>e. \<not> wildcard_entry e \<and> \<not> invalid_entry E e \<and> entry_name E roots e = None) es)
      + length (admitted_names E roots es) = length es"
    by (induction es) (auto simp: admitted_names_def map_filter_def entry_name_def invalid_entry_def split: sum.splits)
  then show ?thesis by (simp add: counted_def zero_counts_def first_names_card)
qed

lemma set_map_filter_Some: "set (List.map_filter f xs) = {y. \<exists>x \<in> set xs. f x = Some y}"
  by (induction xs) (auto simp: map_filter_def)

lemma admitted_names_set:
  "set (admitted_names E roots es) = {h. \<exists>e \<in> set es. \<exists>v. \<not> wildcard_entry e
      \<and> NormalizeHostname E (ie_Hostname e) = Inr (h, v) \<and> (\<exists>root \<in> set roots. at_or_below h root)}"
proof -
  have "entry_name E roots e = Some h \<longleftrightarrow> (\<exists>v. \<not> wildcard_entry e \<and> NormalizeHostname E (ie_Hostname e) = Inr (h, v)
      \<and> (\<exists>root \<in> set roots. at_or_below h root))" for e h
    by (auto simp: entry_name_def list_ex_iff WithinScope_iff split: sum.splits if_splits)
  then show ?thesis by (simp add: admitted_names_def set_map_filter_Some Bex_def)
qed

lemma prepare_import_Inr:
  assumes "import_acceptable E marshal ctx req"
    and "import_roots E (iq_ScopeRoots req) = Inr roots" "marshal req = Inr canonical"
  shows "prepare_import E marshal ctx req = Inr
    (\<lparr>ip_OperationID = iq_OperationID req, ip_ChunkID = iq_ChunkID req, ip_Counts = counted E roots (iq_Entries req)\<rparr>,
     ''sha256:'' @ iv_sha256 E canonical, roots,
     map (sighting_of E (iq_SourceID req) roots (iq_Entries req)) (first_names (admitted_names E roots (iq_Entries req))))"
proof -
  let ?st = "\<lparr>im_Counts = zero_counts, im_seen = (\<lambda>_. None), im_sightings = []\<rparr>"
  obtain st where st: "import_entries E (iq_SourceID req) roots ctx 0 (iq_Entries req) ?st = Inr st"
    using assms(1) import_entries_ok [of E "iq_SourceID req" roots ctx 0 "iq_Entries req" ?st] by (auto simp: import_acceptable_def)
  have "import_account E (iq_SourceID req) roots [] ?st"
    by (simp add: import_account_def counted_def admitted_names_def map_filter_def first_names_def zero_counts_def)
  from import_entries_account [OF st this] show ?thesis
    using assms st by (simp add: prepare_import_def import_acceptable_def import_account_def Let_def)
qed

lemma prepare_import_Inl:
  assumes "\<not> import_acceptable E marshal ctx req"
  shows "\<exists>e. prepare_import E marshal ctx req = Inl e"
proof (cases "import_roots E (iq_ScopeRoots req)")
  case (Inr roots)
  let ?run = "import_entries E (iq_SourceID req) roots ctx 0 (iq_Entries req) \<lparr>im_Counts = zero_counts, im_seen = (\<lambda>_. None), im_sightings = []\<rparr>"
  show ?thesis
  proof (cases ?run)
    case st: (Inr st)
    then have "\<forall>k < length (iq_Entries req). ctx k = None" by (metis add_0 import_entries_ok)
    with assms Inr import_roots_ok [of E "iq_ScopeRoots req"] show ?thesis
      by (cases "marshal req") (auto simp: prepare_import_def import_acceptable_def)
  next
    case (Inl e)
    with Inr show ?thesis by (cases "marshal req") (auto simp: prepare_import_def)
  qed
qed (auto simp: prepare_import_def)

text \<open>C28: The import of a chunk is exact. A request that is bounded, has plain identities and valid scope roots,
  can be encoded and is not cancelled reaches the store once, with its sorted distinct roots, one sighting for
  every admitted name in the order the names first occur, and counts that account for every entry. A sighting
  names the scopes its name lies in, at least one, and spans the times it was observed. Any other request is an
  error that no store changes.\<close>

theorem import_exact:
  "if import_acceptable E marshal ctx req
   then \<exists>roots canonical names. marshal req = Inr canonical \<and> sorted roots \<and> distinct roots \<and> distinct names
     \<and> set roots = {root. \<exists>raw \<in> set (iq_ScopeRoots req). \<exists>v. NormalizeHostname E raw = Inr (root, v)}
     \<and> set names = {h. \<exists>e \<in> set (iq_Entries req). \<exists>v. \<not> wildcard_entry e \<and> NormalizeHostname E (ie_Hostname e) = Inr (h, v)
          \<and> (\<exists>root \<in> set roots. at_or_below h root)}
     \<and> names = first_names (admitted_names E roots (iq_Entries req))
     \<and> ic_Wildcard (counted E roots (iq_Entries req)) + ic_Invalid (counted E roots (iq_Entries req))
        + ic_OutOfScope (counted E roots (iq_Entries req)) + ic_Duplicate (counted E roots (iq_Entries req))
        + int (length names) = int (length (iq_Entries req))
     \<and> (\<forall>store s. Import_chunk E marshal (Some store) now ctx req s = store
          \<lparr>ip_OperationID = iq_OperationID req, ip_ChunkID = iq_ChunkID req, ip_Counts = counted E roots (iq_Entries req)\<rparr>
          (''sha256:'' @ iv_sha256 E canonical) roots (map (sighting_of E (iq_SourceID req) roots (iq_Entries req)) names) now (s :: 's))
   else \<exists>e. \<forall>store s. Import_chunk E marshal (Some store) now ctx req (s :: 's) = (s, Inl e)"
proof (cases "import_acceptable E marshal ctx req")
  case True
  obtain roots canonical where ok: "import_roots E (iq_ScopeRoots req) = Inr roots" "marshal req = Inr canonical"
    using True import_roots_ok [of E "iq_ScopeRoots req"] by (auto simp: import_acceptable_def)
  show ?thesis
    unfolding if_P [OF True]
    by (intro exI [of _ roots] exI [of _ canonical] exI [of _ "first_names (admitted_names E roots (iq_Entries req))"] conjI allI
        ok(2) import_roots_Inr(1,2,4) [OF ok(1)] first_names_facts(2) counted_total refl)
      (simp_all add: admitted_names_set Import_chunk_def prepare_import_Inr [OF True ok])
next
  case False
  show ?thesis unfolding if_not_P [OF False] using prepare_import_Inl [OF False] by (auto simp: Import_chunk_def)
qed

definition example_inventory_env :: inventory_env where
  "example_inventory_env = \<lparr>iv_target = plain_env, iv_sha256 = (\<lambda>s. s)\<rparr>"

definition example_import :: import_request where
  "example_import = \<lparr>iq_OperationID = ''op'', iq_ChunkID = ''1'', iq_SourceID = ''dns'', iq_ScopeRoots = [''example.com''],
     iq_Entries = [\<lparr>ie_Hostname = ''b.example.com'', ie_ObservedAt = Some 5\<rparr>, \<lparr>ie_Hostname = ''*.example.com'', ie_ObservedAt = None\<rparr>,
       \<lparr>ie_Hostname = ''a.test'', ie_ObservedAt = None\<rparr>, \<lparr>ie_Hostname = ''B.example.com'', ie_ObservedAt = Some 2\<rparr>]\<rparr>"

lemma example_hostnames:
  "NormalizeHostname example_inventory_env ''example.com'' = Inr (''example.com'', idnaVersion)"
  by (simp add: NormalizeHostname_def Normalize_def hostname_request_def zero_analyze_request_def example_inventory_env_def target_eval)

theorem import_exact_witness:
  "import_acceptable example_inventory_env (\<lambda>_. Inr ''json'') (\<lambda>_. None) example_import
   \<and> (\<exists>roots names. \<forall>store s. Import_chunk example_inventory_env (\<lambda>_. Inr ''json'') (Some store) 7 (\<lambda>_. None) example_import s = store
          \<lparr>ip_OperationID = ''op'', ip_ChunkID = ''1'', ip_Counts = counted example_inventory_env roots (iq_Entries example_import)\<rparr>
          ''sha256:json'' roots (map (sighting_of example_inventory_env ''dns'' roots (iq_Entries example_import)) names) 7 (s :: nat))"
proof -
  have ok: "import_acceptable example_inventory_env (\<lambda>_. Inr ''json'') (\<lambda>_. None) example_import"
    by (simp add: import_acceptable_def example_import_def import_bounded_def identity_control_def example_hostnames)
  from import_exact [where E = example_inventory_env and marshal = "\<lambda>_. Inr ''json''" and ctx = "\<lambda>_. None" and req = example_import
      and now = 7] ok show ?thesis
    by (auto simp: example_import_def example_inventory_env_def)
qed

end
