(* ===== verification/Inventory_Search.thy ===== *)
theory Inventory_Search
  imports Inventory_Import
begin

text \<open>
  Package internal/inventory: the preparation of a search, its page cursors and the operations of the
  service that read or change known assets (search.go and inventory.go), and the escaping of search
  text for a SQL pattern (store/postgres/inventory_search.go).

  The JSON encodings of a cursor and of the filters it is bound to and the URL form of base64 are
  arguments. A deadline that the service sets on its context reaches the store with the call.
\<close>

section \<open>Requests\<close>

type_synonym search_mode = string
abbreviation "SearchBrowse \<equiv> ''browse''"
abbreviation "SearchExact \<equiv> ''exact''"
abbreviation "SearchDescendant \<equiv> ''descendant''"
abbreviation "SearchPrefix \<equiv> ''prefix''"
abbreviation "SearchPartial \<equiv> ''partial''"

record search_request =
  sq_Mode :: search_mode
  sq_Query :: string
  sq_ScopeRoot :: string
  sq_Limit :: int
  sq_Cursor :: string
  sq_IncludeArchived :: bool

record inventory_source =
  is_Kind :: string
  is_ID :: string
  is_Provenance :: string
  is_Verification :: string
  is_FirstObservedAt :: "gotime option"
  is_LastObservedAt :: "gotime option"
  is_FirstReceivedAt :: gotime
  is_LastReceivedAt :: gotime
  is_Reference :: string
  is_LogID :: string
  is_EntryIndex :: string
  is_CheckpointID :: string

record asset =
  as_ID :: string
  as_Hostname :: string
  as_NormalizationVersion :: string
  as_ArchivedAt :: "gotime option"
  as_DeletionGeneration :: int
  as_Scopes :: "string list"
  as_Sources :: "inventory_source list"

record asset_page =
  pg_Items :: "asset list"
  pg_NextCursor :: string

record page_cursor =
  pc_Filter :: string
  pc_After :: string

record search_codec =
  co_base64 :: "string \<Rightarrow> string"
  co_unbase64 :: "string \<Rightarrow> go_error + string"
  co_cursor :: "page_cursor \<Rightarrow> string"
  co_uncursor :: "string \<Rightarrow> page_cursor option"
  co_filter :: "search_mode \<times> string \<times> string \<times> bool \<Rightarrow> string"

text \<open>\<open>len([]rune(s))\<close>: a byte that starts no valid encoding counts as one character.\<close>

fun rune_len :: "string \<Rightarrow> nat" where
  "rune_len [] = 0"
| "rune_len (a # s) =
     (if byte_in 194 223 a then (case s of b # r \<Rightarrow> if byte_in 128 191 b then 2 else 1 | _ \<Rightarrow> 1)
      else if byte_in 224 239 a then
        (case s of b # c # r \<Rightarrow>
             if byte_in (if of_char a = (224::nat) then 160 else 128) (if of_char a = (237::nat) then 159 else 191) b
                \<and> byte_in 128 191 c then 3 else 1 | _ \<Rightarrow> 1)
      else if byte_in 240 244 a then
        (case s of b # c # d # r \<Rightarrow>
             if byte_in (if of_char a = (240::nat) then 144 else 128) (if of_char a = (244::nat) then 143 else 191) b
                \<and> byte_in 128 191 c \<and> byte_in 128 191 d then 4 else 1 | _ \<Rightarrow> 1)
      else 1)"

lemma rune_len_pos [simp]: "s \<noteq> [] \<Longrightarrow> 0 < rune_len s"
  by (cases s) (auto split: list.splits)

function rune_count :: "string \<Rightarrow> nat" where
  "rune_count s = (if s = [] then 0 else Suc (rune_count (drop (rune_len s) s)))"
  by auto
termination by (relation "measure length") auto

declare rune_count.simps [simp del]

definition searchFingerprint :: "inventory_env \<Rightarrow> search_codec \<Rightarrow> search_request \<Rightarrow> string" where
  "searchFingerprint E C req =
     iv_sha256 E (co_filter C (sq_Mode req, sq_Query req, sq_ScopeRoot req, sq_IncludeArchived req))"

definition NextCursor :: "inventory_env \<Rightarrow> search_codec \<Rightarrow> search_request \<Rightarrow> string \<Rightarrow> string" where
  "NextCursor E C req after = co_base64 C (co_cursor C \<lparr>pc_Filter = searchFingerprint E C req, pc_After = after\<rparr>)"

text \<open>The scope root and the query of a request after the checks on them.\<close>

definition search_scope :: "inventory_env \<Rightarrow> search_request \<Rightarrow> go_error + search_request" where
  "search_scope E req =
     (if sq_ScopeRoot req \<noteq> [] then
        (case NormalizeHostname E (sq_ScopeRoot req) of Inl e \<Rightarrow> Inl e | Inr (root, _) \<Rightarrow> Inr (req\<lparr>sq_ScopeRoot := root\<rparr>))
      else Inr req)"

definition search_query :: "inventory_env \<Rightarrow> search_request \<Rightarrow> go_error + search_request" where
  "search_query E req =
     (if sq_Mode req \<in> {SearchExact, SearchDescendant} then
        (case NormalizeHostname E (sq_Query req) of Inl e \<Rightarrow> Inl e | Inr (query, _) \<Rightarrow> Inr (req\<lparr>sq_Query := query\<rparr>))
      else if sq_Mode req \<in> {SearchPrefix, SearchPartial} then
        (let req = req\<lparr>sq_Query := to_lower (trim_space (sq_Query req))\<rparr> in
         if length (sq_Query req) = 0 \<or> length (sq_Query req) > 253 \<or> identity_control (sq_Query req)
         then Inl (NewError CodeInvalidOptions ''invalid inventory search text'' None)
         else if sq_Mode req = SearchPartial \<and> rune_count (sq_Query req) < 3 \<and> sq_ScopeRoot req = []
         then Inl (NewError CodeInvalidOptions ''unscoped partial search needs at least three characters'' None)
         else Inr req)
      else if sq_Query req \<noteq> [] then Inl (NewError CodeInvalidOptions ''browse does not accept search text'' None)
      else Inr req)"

text \<open>The cursor of a request whose filters are settled.\<close>

definition search_cursor :: "inventory_env \<Rightarrow> search_codec \<Rightarrow> search_request \<Rightarrow> go_error + search_request \<times> string" where
  "search_cursor E C req =
     (let fingerprint = searchFingerprint E C req in
      if sq_Cursor req = [] then Inr (req, [])
      else if length (sq_Cursor req) > 1024 then Inl (NewError CodeInvalidOptions ''invalid inventory cursor'' None)
      else (case co_unbase64 C (sq_Cursor req) of
          Inl e \<Rightarrow> Inl (NewError CodeInvalidOptions ''invalid inventory cursor'' (Some e))
        | Inr encoded \<Rightarrow>
            (case co_uncursor C encoded of
               None \<Rightarrow> Inl (NewError CodeInvalidOptions ''inventory cursor does not match filters'' None)
             | Some cursor \<Rightarrow>
                 if pc_Filter cursor \<noteq> fingerprint \<or> pc_After cursor = [] \<or> length (pc_After cursor) > 253
                 then Inl (NewError CodeInvalidOptions ''inventory cursor does not match filters'' None)
                 else (case NormalizeHostname E (pc_After cursor) of
                     Inl e \<Rightarrow> Inl (NewError CodeInvalidOptions ''invalid inventory cursor hostname'' (Some e))
                   | Inr (hostname, _) \<Rightarrow>
                       if hostname \<noteq> pc_After cursor
                       then Inl (NewError CodeInvalidOptions ''invalid inventory cursor hostname'' None)
                       else Inr (req, pc_After cursor)))))"

definition PrepareSearch :: "inventory_env \<Rightarrow> search_codec \<Rightarrow> search_request \<Rightarrow> go_error + search_request \<times> string" where
  "PrepareSearch E C req =
     (let req = (if sq_Mode req = [] then req\<lparr>sq_Mode := SearchBrowse\<rparr> else req) in
      if sq_Mode req \<notin> {SearchBrowse, SearchExact, SearchDescendant, SearchPrefix, SearchPartial}
      then Inl (NewError CodeInvalidOptions ''unsupported inventory search mode'' None)
      else
        let req = (if sq_Limit req = 0 then req\<lparr>sq_Limit := 50\<rparr> else req) in
        if sq_Limit req < 1 \<or> sq_Limit req > 100
        then Inl (NewError CodeInvalidOptions ''inventory page limit must be between 1 and 100'' None)
        else and_then (search_scope E req) (\<lambda>req. and_then (search_query E req) (\<lambda>req. search_cursor E C req)))"

section \<open>The service\<close>

text \<open>The store behind the service: its state is passed explicitly.\<close>

record 's inventory_store =
  vs_Search :: "search_request \<Rightarrow> string \<Rightarrow> 's \<Rightarrow> go_error + asset_page"
  vs_Read :: "string \<Rightarrow> 's \<Rightarrow> go_error + asset"
  vs_Archive :: "string \<Rightarrow> bool \<Rightarrow> 's \<Rightarrow> 's \<times> (go_error + asset)"
  vs_Delete :: "string \<Rightarrow> bool \<Rightarrow> 's \<Rightarrow> 's \<times> (go_error + int)"

abbreviation "no_inventory_store \<equiv> NewError CodeInvalidOptions ''inventory store is required'' None"

definition SearchAssets :: "inventory_env \<Rightarrow> search_codec \<Rightarrow> 's inventory_store option \<Rightarrow> search_request \<Rightarrow> 's \<Rightarrow> go_error + asset_page" where
  "SearchAssets E C store req s =
     (case store of
        None \<Rightarrow> Inl no_inventory_store
      | Some ops \<Rightarrow> and_then (PrepareSearch E C req) (\<lambda>(prepared, after). vs_Search ops prepared after s))"

definition ReadAsset :: "inventory_env \<Rightarrow> 's inventory_store option \<Rightarrow> string \<Rightarrow> 's \<Rightarrow> go_error + asset" where
  "ReadAsset E store raw s =
     (case store of
        None \<Rightarrow> Inl no_inventory_store
      | Some ops \<Rightarrow> and_then (NormalizeHostname E raw) (\<lambda>(hostname, _). vs_Read ops hostname s))"

definition ArchiveAsset :: "inventory_env \<Rightarrow> 's inventory_store option \<Rightarrow> string \<Rightarrow> bool \<Rightarrow> 's \<Rightarrow> 's \<times> (go_error + asset)" where
  "ArchiveAsset E store raw archived s =
     (case store of
        None \<Rightarrow> (s, Inl no_inventory_store)
      | Some ops \<Rightarrow> (case NormalizeHostname E raw of
          Inl e \<Rightarrow> (s, Inl e) | Inr (hostname, _) \<Rightarrow> vs_Archive ops hostname archived s))"

definition DeleteAsset :: "inventory_env \<Rightarrow> 's inventory_store option \<Rightarrow> string \<Rightarrow> bool \<Rightarrow> 's \<Rightarrow> 's \<times> (go_error + int)" where
  "DeleteAsset E store raw suppress s =
     (case store of
        None \<Rightarrow> (s, Inl no_inventory_store)
      | Some ops \<Rightarrow> (case NormalizeHostname E raw of
          Inl e \<Rightarrow> (s, Inl e) | Inr (hostname, _) \<Rightarrow> vs_Delete ops hostname suppress s))"

section \<open>SQL patterns\<close>

text \<open>\<open>value LIKE pattern ESCAPE '\'\<close>: a percent sign stands for any text, an underscore for one
  character, and the character after a backslash for itself.\<close>

fun sql_like :: "string \<Rightarrow> string \<Rightarrow> bool" where
  "sql_like [] s = (s = [])"
| "sql_like (p # ps) s =
     (if p = CHR ''%'' then sql_like ps s \<or> (case s of [] \<Rightarrow> False | _ # s' \<Rightarrow> sql_like (p # ps) s')
      else if p = CHR ''_'' then (case s of [] \<Rightarrow> False | _ # s' \<Rightarrow> sql_like ps s')
      else if p = CHR 0x5C then
        (case ps of [] \<Rightarrow> False | q # qs \<Rightarrow> (case s of [] \<Rightarrow> False | x # s' \<Rightarrow> x = q \<and> sql_like qs s'))
      else (case s of [] \<Rightarrow> False | x # s' \<Rightarrow> x = p \<and> sql_like ps s'))"

fun escapeInventoryLike :: "string \<Rightarrow> string" where
  "escapeInventoryLike [] = []"
| "escapeInventoryLike (c # cs) =
     (if c \<in> {CHR 0x5C, CHR ''%'', CHR ''_''} then CHR 0x5C # c # escapeInventoryLike cs else c # escapeInventoryLike cs)"

lemma sql_like_escaped: "sql_like (escapeInventoryLike q @ p) s \<longleftrightarrow> (\<exists>t. s = q @ t \<and> sql_like p t)"
proof (induction q arbitrary: s)
  case (Cons c q)
  then show ?case by (cases s) auto
qed simp

lemma sql_like_any: "sql_like (CHR ''%'' # p) s \<longleftrightarrow> (\<exists>u t. s = u @ t \<and> sql_like p t)"
proof (induction s)
  case (Cons c s)
  have "(\<exists>u t. c # s = u @ t \<and> sql_like p t) \<longleftrightarrow> sql_like p (c # s) \<or> (\<exists>u t. s = u @ t \<and> sql_like p t)"
    by (metis append_Cons append_Nil list.exhaust list.inject)
  with Cons show ?case by simp
qed simp

lemma sql_like_rest [simp]: "sql_like ''%'' s"
  using sql_like_any [of "[]" s] by simp

lemma contains_iff: "contains s p \<longleftrightarrow> (\<exists>u t. s = u @ p @ t)"
proof (induction s)
  case (Cons c s)
  have "(\<exists>u t. c # s = u @ p @ t) \<longleftrightarrow> has_prefix (c # s) p \<or> (\<exists>u t. s = u @ p @ t)"
    by (metis append_Cons append_Nil has_prefix_iff list.exhaust list.inject)
  with Cons show ?case by simp
qed auto

end
