(* ===== verification/Inventory_Store.thy ===== *)
theory Inventory_Store
  imports Inventory_Search Ctlog Jobs
begin

text \<open>
  Package internal/store/postgres: the inventory tables and the transactions on them (inventory.go and
  inventory_search.go, over the schema of migrations/006_inventory.sql).

  Each table is the list of its rows; a statement is its documented effect on them: \<open>ON CONFLICT\<close> on the
  index it names, a unique violation on another index, the referential check of a foreign key and the
  rows a deletion cascades to. Text compares by bytes, as the columns are declared \<open>COLLATE "C"\<close>.
  A transaction is one step: the advisory locks it takes order it after the others on the same names, and an
  error rolls it back. Which statement fails, and the clock of the server, are arguments. The server keeps
  times as microseconds; here they are kept as they are.
\<close>

section \<open>Tables\<close>

record asset_row =
  at_ID :: string
  at_Hostname :: string
  at_Reversed :: string
  at_Version :: string
  at_ArchivedAt :: "gotime option"
  at_Generation :: int

record membership_row =
  mb_AssetID :: string
  mb_Root :: string
  mb_Hostname :: string

record source_row =
  so_AssetID :: string
  so_Source :: inventory_source

record tombstone_row =
  tb_Generation :: int
  tb_Suppressed :: bool
  tb_DeletedAt :: gotime

record chunk_row =
  ck_Hash :: string
  ck_Counts :: import_counts

datatype projection_status = ProjectionPending | ProjectionRunning | ProjectionFailed

record projection_row =
  pj_Generation :: int
  pj_Status :: projection_status
  pj_Attempts :: int

record inventory_db =
  db_assets :: "asset_row list"
  db_scopes :: "string list"
  db_memberships :: "membership_row list"
  db_sources :: "source_row list"
  db_tombstones :: "(string \<times> tombstone_row) list"
  db_chunks :: "((string \<times> string) \<times> chunk_row) list"
  db_projection :: "((string \<times> string) \<times> projection_row) list"

definition empty_db :: inventory_db where
  "empty_db = \<lparr>db_assets = [], db_scopes = [], db_memberships = [], db_sources = [], db_tombstones = [],
     db_chunks = [], db_projection = []\<rparr>"

text \<open>What a transaction meets: whether an operation on a key fails, the hooks of tests, the clock when it
  begins and when it writes a row, and the key by which the collation of the server orders text.\<close>

record tx_world =
  tw_fault :: "string \<Rightarrow> string \<Rightarrow> go_error option"
  tw_hook :: "string \<Rightarrow> go_error option"
  tw_now :: gotime
  tw_clock :: "string \<Rightarrow> gotime"
  tw_collate :: "string \<Rightarrow> string"

definition persistence :: "string \<Rightarrow> go_error \<Rightarrow> go_error" where
  "persistence operation e = NewError CodePersistenceFailed operation (Some e)"

definition statement :: "tx_world \<Rightarrow> string \<Rightarrow> string \<Rightarrow> 'a \<Rightarrow> go_error + 'a" where
  "statement W operation key x = (case tw_fault W operation key of Some e \<Rightarrow> Inl (persistence operation e) | None \<Rightarrow> Inr x)"

definition hook :: "tx_world \<Rightarrow> string \<Rightarrow> 'a \<Rightarrow> go_error + 'a" where
  "hook W name x = (case tw_hook W name of Some e \<Rightarrow> Inl e | None \<Rightarrow> Inr x)"

text \<open>A transaction that returns an error leaves the database as it was.\<close>

definition transaction :: "'s \<Rightarrow> go_error + 's \<times> 'a \<Rightarrow> 's \<times> (go_error + 'a)" where
  "transaction s r = (case r of Inl e \<Rightarrow> (s, Inl e) | Inr (s', x) \<Rightarrow> (s', Inr x))"

section \<open>Scopes and memberships\<close>

definition row_in_root :: "string \<Rightarrow> string \<Rightarrow> bool" where
  "row_in_root hostname root = (hostname = root \<or> sql_like (''%.'' @ root) hostname)"

definition insert_scope :: "string \<Rightarrow> inventory_db \<Rightarrow> inventory_db" where
  "insert_scope root db = (if root \<in> set (db_scopes db) then db else db\<lparr>db_scopes := db_scopes db @ [root]\<rparr>)"

definition add_membership :: "membership_row \<Rightarrow> membership_row list \<Rightarrow> membership_row list" where
  "add_membership m ms =
     (if list_ex (\<lambda>x. mb_AssetID x = mb_AssetID m \<and> mb_Root x = mb_Root m) ms then ms else ms @ [m])"

definition backfill_scope :: "string \<Rightarrow> inventory_db \<Rightarrow> inventory_db" where
  "backfill_scope root db =
     db\<lparr>db_memberships := fold add_membership
         (map (\<lambda>a. \<lparr>mb_AssetID = at_ID a, mb_Root = root, mb_Hostname = at_Hostname a\<rparr>)
            (filter (\<lambda>a. row_in_root (at_Hostname a) root) (db_assets db)))
         (db_memberships db)\<rparr>"

fun register_roots :: "tx_world \<Rightarrow> string \<Rightarrow> string \<Rightarrow> string list \<Rightarrow> inventory_db \<Rightarrow> go_error + inventory_db" where
  "register_roots W insert_op backfill_op [] db = Inr db"
| "register_roots W insert_op backfill_op (root # roots) db =
     and_then (statement W insert_op root (insert_scope root db)) (\<lambda>db.
     and_then (statement W backfill_op root (backfill_scope root db)) (\<lambda>db.
       register_roots W insert_op backfill_op roots db))"

definition RegisterInventoryScopes :: "inventory_env \<Rightarrow> tx_world \<Rightarrow> string list \<Rightarrow> inventory_db \<Rightarrow> inventory_db \<times> go_error option" where
  "RegisterInventoryScopes E W rawRoots db =
     (if rawRoots = [] \<or> length rawRoots > 32
      then (db, Some (NewError CodeInvalidOptions ''inventory scopes must contain 1 to 32 roots'' None))
      else (case map_result (\<lambda>raw. and_then (NormalizeHostname E raw) (\<lambda>(root, _). Inr root)) rawRoots of
          Inl e \<Rightarrow> (db, Some e)
        | Inr roots \<Rightarrow>
            (case transaction db
               (and_then (statement W ''begin inventory scope registration'' [] db) (\<lambda>db.
                and_then (statement W ''lock inventory scope registration'' [] db) (\<lambda>db.
                and_then (register_roots W ''register inventory scope'' ''backfill inventory scope'' (sort roots) db) (\<lambda>db.
                and_then (statement W ''commit inventory scope registration'' [] db) (\<lambda>db. Inr (db, ())))))) of
               (db, Inl e) \<Rightarrow> (db, Some e)
             | (db, Inr _) \<Rightarrow> (db, None))))"

section \<open>Publishing a sighting\<close>

text \<open>The two conditions on the tombstone of a name: it is suppressed; it was deleted at or after a time.\<close>

definition tombstone_state :: "string \<Rightarrow> gotime \<Rightarrow> inventory_db \<Rightarrow> bool \<times> bool" where
  "tombstone_state hostname startedAt db =
     (case map_of (db_tombstones db) hostname of
        None \<Rightarrow> (False, False)
      | Some t \<Rightarrow> (tb_Suppressed t, tb_DeletedAt t \<ge> startedAt))"

definition tombstone_generation :: "string \<Rightarrow> inventory_db \<Rightarrow> int" where
  "tombstone_generation hostname db = (case map_of (db_tombstones db) hostname of None \<Rightarrow> 0 | Some t \<Rightarrow> tb_Generation t)"

abbreviation "unique_violation \<equiv> Errorf ''duplicate key value violates unique constraint''"
abbreviation "foreign_key_violation \<equiv> Errorf ''violates foreign key constraint''"

text \<open>Inserting an asset: whether a row was added.\<close>

definition insert_asset :: "tx_world \<Rightarrow> string \<Rightarrow> string \<Rightarrow> string \<Rightarrow> string \<Rightarrow> string \<Rightarrow> inventory_db \<Rightarrow> go_error + inventory_db \<times> bool" where
  "insert_asset W operation assetID hostname reversed version db =
     and_then (statement W operation hostname db) (\<lambda>db.
       if list_ex (\<lambda>a. at_Hostname a = hostname) (db_assets db) then Inr (db, False)
       else if list_ex (\<lambda>a. at_ID a = assetID) (db_assets db) then Inl (persistence operation unique_violation)
       else Inr (db\<lparr>db_assets := db_assets db @ [\<lparr>at_ID = assetID, at_Hostname = hostname, at_Reversed = reversed,
              at_Version = version, at_ArchivedAt = None, at_Generation = tombstone_generation hostname db\<rparr>]\<rparr>, True))"

definition asset_known :: "string \<Rightarrow> inventory_db \<Rightarrow> bool" where
  "asset_known assetID db = list_ex (\<lambda>a. at_ID a = assetID) (db_assets db)"

definition least :: "gotime option \<Rightarrow> gotime option \<Rightarrow> gotime option" where
  "least a b = (case a of None \<Rightarrow> b | Some x \<Rightarrow> (case b of None \<Rightarrow> a | Some y \<Rightarrow> Some (min x y)))"

definition greatest :: "gotime option \<Rightarrow> gotime option \<Rightarrow> gotime option" where
  "greatest a b = (case a of None \<Rightarrow> b | Some x \<Rightarrow> (case b of None \<Rightarrow> a | Some y \<Rightarrow> Some (max x y)))"

definition same_source :: "source_row \<Rightarrow> source_row \<Rightarrow> bool" where
  "same_source a b \<longleftrightarrow> so_AssetID a = so_AssetID b \<and> is_Kind (so_Source a) = is_Kind (so_Source b)
     \<and> is_ID (so_Source a) = is_ID (so_Source b) \<and> is_Provenance (so_Source a) = is_Provenance (so_Source b)"

definition merge_source :: "source_row \<Rightarrow> source_row \<Rightarrow> source_row" where
  "merge_source old new =
     (let o' = so_Source old; n = so_Source new in
      old\<lparr>so_Source := o'\<lparr>is_Verification := is_Verification n,
        is_FirstObservedAt := least (is_FirstObservedAt o') (is_FirstObservedAt n),
        is_LastObservedAt := greatest (is_LastObservedAt o') (is_LastObservedAt n),
        is_LastReceivedAt := is_LastReceivedAt n, is_Reference := is_Reference n, is_LogID := is_LogID n,
        is_EntryIndex := is_EntryIndex n, is_CheckpointID := is_CheckpointID n\<rparr>\<rparr>)"

definition put_source :: "source_row \<Rightarrow> source_row list \<Rightarrow> source_row list" where
  "put_source new rows =
     (if list_ex (same_source new) rows then map (\<lambda>old. if same_source new old then merge_source old new else old) rows
      else rows @ [new])"

definition sighting_source :: "tx_world \<Rightarrow> sighting \<Rightarrow> string \<Rightarrow> string \<Rightarrow> string \<Rightarrow> string \<Rightarrow> string \<Rightarrow> string \<Rightarrow> string \<Rightarrow> source_row" where
  "sighting_source W s kind provenance verification reference logID entryIndex checkpointID =
     \<lparr>so_AssetID = sg_AssetID s, so_Source = \<lparr>is_Kind = kind, is_ID = sg_SourceID s, is_Provenance = provenance,
       is_Verification = verification, is_FirstObservedAt = sg_FirstObservedAt s, is_LastObservedAt = sg_LastObservedAt s,
       is_FirstReceivedAt = tw_clock W (sg_Hostname s), is_LastReceivedAt = tw_clock W (sg_Hostname s), is_Reference = reference,
       is_LogID = logID, is_EntryIndex = entryIndex, is_CheckpointID = checkpointID\<rparr>\<rparr>"

definition upsertInventorySighting ::
    "tx_world \<Rightarrow> sighting \<Rightarrow> string \<Rightarrow> string \<Rightarrow> string \<Rightarrow> string \<Rightarrow> string \<Rightarrow> string \<Rightarrow> string \<Rightarrow> inventory_db \<Rightarrow> go_error + inventory_db" where
  "upsertInventorySighting W s kind provenance verification reference logID entryIndex checkpointID db =
     (let roots = filter (row_in_root (sg_Hostname s)) (db_scopes db) in
      and_then (statement W ''link inventory scopes'' (sg_Hostname s) db) (\<lambda>db.
      if roots \<noteq> [] \<and> \<not> asset_known (sg_AssetID s) db then Inl (persistence ''link inventory scopes'' foreign_key_violation)
      else
        let db = db\<lparr>db_memberships := fold add_membership
              (map (\<lambda>root. \<lparr>mb_AssetID = sg_AssetID s, mb_Root = root, mb_Hostname = sg_Hostname s\<rparr>) roots) (db_memberships db)\<rparr> in
        and_then (statement W ''upsert inventory source'' (sg_Hostname s) db) (\<lambda>db.
        if \<not> asset_known (sg_AssetID s) db then Inl (persistence ''upsert inventory source'' foreign_key_violation)
        else Inr (db\<lparr>db_sources := put_source
                (sighting_source W s kind provenance verification reference logID entryIndex checkpointID) (db_sources db)\<rparr>))))"

section \<open>Importing a chunk\<close>

definition lockInventoryHostname :: "tx_world \<Rightarrow> string \<Rightarrow> 'a \<Rightarrow> go_error + 'a" where
  "lockInventoryHostname W hostname x = statement W ''lock inventory hostname'' hostname x"

definition import_sighting :: "tx_world \<Rightarrow> gotime \<Rightarrow> sighting \<Rightarrow> import_counts \<times> inventory_db \<Rightarrow> go_error + import_counts \<times> inventory_db" where
  "import_sighting W startedAt s state =
     (case state of (counts, db) \<Rightarrow>
      and_then (lockInventoryHostname W (sg_Hostname s) db) (\<lambda>db.
      and_then (statement W ''read inventory suppression'' (sg_Hostname s) db) (\<lambda>db.
        (case tombstone_state (sg_Hostname s) startedAt db of
           (True, _) \<Rightarrow> Inr (counts\<lparr>ic_Suppressed := ic_Suppressed counts + 1\<rparr>, db)
         | (False, True) \<Rightarrow> Inr (counts\<lparr>ic_Stale := ic_Stale counts + 1\<rparr>, db)
         | (False, False) \<Rightarrow>
             and_then (insert_asset W ''insert inventory asset'' (sg_AssetID s) (sg_Hostname s) (sg_ReversedLabels s)
                         (sg_NormalizationVersion s) db) (\<lambda>(db, inserted).
             let counts = (if inserted then counts\<lparr>ic_Accepted := ic_Accepted counts + 1\<rparr>
                           else counts\<lparr>ic_Duplicate := ic_Duplicate counts + 1\<rparr>) in
             and_then (upsertInventorySighting W s ''hostname_import'' ''imported_unverified'' ''unverified'' [] [] [] [] db)
               (\<lambda>db. Inr (counts, db)))))))"

fun import_sightings :: "tx_world \<Rightarrow> gotime \<Rightarrow> sighting list \<Rightarrow> import_counts \<times> inventory_db \<Rightarrow> go_error + import_counts \<times> inventory_db" where
  "import_sightings W startedAt [] state = Inr state"
| "import_sightings W startedAt (s # ss) state =
     and_then (import_sighting W startedAt s state) (import_sightings W startedAt ss)"

text \<open>Counts decoded over the counts of a receipt: a counter that JSON omits when it is zero keeps its value.\<close>

definition decode_counts :: "import_counts \<Rightarrow> import_counts \<Rightarrow> import_counts" where
  "decode_counts stored counts =
     stored\<lparr>ic_Suppressed := (if ic_Suppressed stored = 0 then ic_Suppressed counts else ic_Suppressed stored),
            ic_Stale := (if ic_Stale stored = 0 then ic_Stale counts else ic_Stale stored)\<rparr>"

definition repeated_chunk :: "tx_world \<Rightarrow> import_receipt \<Rightarrow> string \<Rightarrow> chunk_row \<Rightarrow> go_error + import_receipt" where
  "repeated_chunk W receipt payloadHash existing =
     and_then (statement W ''read inventory import chunk'' (ip_ChunkID receipt) existing) (\<lambda>existing.
       if ck_Hash existing \<noteq> payloadHash
       then Inl (NewError CodeIdempotencyConflict ''inventory import chunk changed'' None)
       else Inr (receipt\<lparr>ip_Counts := decode_counts (ck_Counts existing) (ip_Counts receipt)\<rparr>))"

definition fresh_chunk ::
    "tx_world \<Rightarrow> import_receipt \<Rightarrow> string \<Rightarrow> string list \<Rightarrow> sighting list \<Rightarrow> gotime \<Rightarrow> inventory_db \<Rightarrow> go_error + inventory_db \<times> import_receipt" where
  "fresh_chunk W receipt payloadHash roots sightings startedAt db =
     and_then (statement W ''lock inventory scope registration'' [] db) (\<lambda>db.
     and_then (register_roots W ''insert inventory scope'' ''backfill inventory scope membership'' roots db) (\<lambda>db.
     and_then (hook W ''beforeInventoryPublish'' db) (\<lambda>db.
     and_then (import_sightings W startedAt (sort_key sg_Hostname sightings) (ip_Counts receipt, db)) (\<lambda>(counts, db).
     and_then (statement W ''store inventory import counts'' (ip_ChunkID receipt)
         (db\<lparr>db_chunks := AList.update (ip_OperationID receipt, ip_ChunkID receipt)
               \<lparr>ck_Hash = payloadHash, ck_Counts = counts\<rparr> (db_chunks db)\<rparr>)) (\<lambda>db.
     and_then (hook W ''beforeInventoryCommit'' db) (\<lambda>db.
     and_then (statement W ''commit inventory import'' [] db) (\<lambda>db.
       Inr (db, receipt\<lparr>ip_Counts := counts\<rparr>))))))))"

definition ImportInventoryChunk ::
    "tx_world \<Rightarrow> import_receipt \<Rightarrow> string \<Rightarrow> string list \<Rightarrow> sighting list \<Rightarrow> gotime \<Rightarrow> inventory_db \<Rightarrow>
     inventory_db \<times> (go_error + import_receipt)" where
  "ImportInventoryChunk W receipt payloadHash roots sightings startedAt db =
     transaction db
       (and_then (statement W ''begin inventory import'' [] db) (\<lambda>db.
        and_then (statement W ''timestamp inventory import'' [] (tw_now W)) (\<lambda>startedAt.
        and_then (statement W ''reserve inventory import chunk'' (ip_ChunkID receipt) db) (\<lambda>db.
          (case map_of (db_chunks db) (ip_OperationID receipt, ip_ChunkID receipt) of
             Some existing \<Rightarrow> and_then (repeated_chunk W receipt payloadHash existing) (\<lambda>receipt. Inr (db, receipt))
           | None \<Rightarrow> fresh_chunk W receipt payloadHash roots sightings startedAt db)))))"

section \<open>Publishing other sources\<close>

definition boundedInventorySourceID :: "inventory_env \<Rightarrow> string \<Rightarrow> string" where
  "boundedInventorySourceID E source = (if length source \<le> 128 then source else ''source-sha256:'' @ iv_sha256 E source)"

text \<open>A certificate-transparency record within the transaction of its collection.\<close>

definition upsertCTInventory :: "inventory_env \<Rightarrow> tx_world \<Rightarrow> ct_record \<Rightarrow> gotime \<Rightarrow> inventory_db \<Rightarrow> go_error + inventory_db" where
  "upsertCTInventory E W record startedAt db =
     (if ct_Wildcard record then Inr db
      else and_then (statement W ''lock inventory scope publication'' [] db) (\<lambda>db.
       (case NormalizeHostname E (ct_Name record) of
          Inl e \<Rightarrow> Inl (Wrap ''normalize CT inventory name'' e)
        | Inr (hostname, version) \<Rightarrow>
            and_then (lockInventoryHostname W hostname db) (\<lambda>db.
            and_then (statement W ''read CT inventory suppression'' hostname db) (\<lambda>db.
            (case tombstone_state hostname startedAt db of (suppressed, stale) \<Rightarrow>
             if suppressed \<or> stale then Inr db
             else
               let s = \<lparr>sg_AssetID = AssetID E hostname, sg_Hostname = hostname, sg_ReversedLabels = ReverseLabels hostname,
                     sg_NormalizationVersion = version, sg_SourceID = boundedInventorySourceID E (ct_SourceID record),
                     sg_FirstObservedAt = Some (ct_LoggedAt record), sg_LastObservedAt = Some (ct_LoggedAt record), sg_ScopeRoots = []\<rparr> in
               and_then (insert_asset W ''insert CT inventory asset'' (sg_AssetID s) hostname (sg_ReversedLabels s) version db) (\<lambda>(db, _).
               let reference = (if length (ct_CertificateHash record) > 255 then ''sha256:'' @ iv_sha256 E (ct_CertificateHash record)
                                else ct_CertificateHash record);
                   entryIndex = (case ct_EntryIndex record of None \<Rightarrow> [] | Some n \<Rightarrow> nat_string n) in
               upsertInventorySighting W s ''ct'' (ct_Provenance record) (ct_Provenance record) reference
                 (boundedInventorySourceID E (ct_LogID record)) entryIndex (boundedInventorySourceID E (ct_CheckpointID record)) db)))))))"

text \<open>The earliest and the latest time at which a report observed its own target.\<close>

definition observed_span :: "string \<Rightarrow> observation list \<Rightarrow> gotime option \<times> gotime option" where
  "observed_span hostname observations =
     fold (\<lambda>ob (first, latest).
         if ob_Subject ob \<noteq> hostname \<or> ob_ObservedAt ob = 0 then (first, latest)
         else (if first = None \<or> ob_ObservedAt ob < the first then Some (ob_ObservedAt ob) else first,
               if latest = None \<or> ob_ObservedAt ob > the latest then Some (ob_ObservedAt ob) else latest))
       observations (None, None)"

definition report_hostname :: "inventory_env \<Rightarrow> report \<Rightarrow> go_error + string option" where
  "report_hostname E r =
     (if tg_Kind (re_Target r) = TargetDomain then Inr (Some (tg_Canonical (re_Target r)))
      else if tg_Kind (re_Target r) = TargetURL then
        (case url_Parse (iv_target E) (tg_Canonical (re_Target r)) of
           Inl e \<Rightarrow> Inl (NewError CodeInvalidOptions ''report target URL is invalid'' (Some e))
         | Inr parsed \<Rightarrow> Inr (Some (u_Hostname parsed)))
      else Inr None)"

definition put_projection :: "string \<Rightarrow> string \<Rightarrow> string \<Rightarrow> inventory_db \<Rightarrow> inventory_db" where
  "put_projection reportID version assetID db =
     (case find (\<lambda>a. at_ID a = assetID) (db_assets db) of
        None \<Rightarrow> db
      | Some a \<Rightarrow>
          (case map_of (db_projection db) (reportID, version) of
             None \<Rightarrow> db\<lparr>db_projection := AList.update (reportID, version)
                 \<lparr>pj_Generation = at_Generation a, pj_Status = ProjectionPending, pj_Attempts = 0\<rparr> (db_projection db)\<rparr>
           | Some t \<Rightarrow>
               if pj_Status t = ProjectionFailed \<and> pj_Attempts t \<ge> 5
               then db\<lparr>db_projection := AList.update (reportID, version) (t\<lparr>pj_Status := ProjectionPending, pj_Attempts := 0\<rparr>)
                        (db_projection db)\<rparr>
               else db))"

text \<open>The asset a report is published under: \<open>None\<close> when the selected asset is gone or was deleted since.\<close>

definition report_asset ::
    "inventory_env \<Rightarrow> tx_world \<Rightarrow> string \<Rightarrow> string \<Rightarrow> inventory_selection option \<Rightarrow> inventory_db \<Rightarrow> go_error + inventory_db \<times> string option" where
  "report_asset E W hostname version selection db =
     (case selection of
        Some sel \<Rightarrow>
          and_then (statement W ''validate selected inventory asset generation'' hostname db) (\<lambda>db.
            (case find (\<lambda>a. at_ID a = is_AssetID sel \<and> at_Hostname a = hostname) (db_assets db) of
               None \<Rightarrow> Inr (db, None)
             | Some a \<Rightarrow> if at_Generation a \<noteq> is_DeletionGeneration sel then Inr (db, None) else Inr (db, Some (is_AssetID sel))))
      | None \<Rightarrow>
          and_then (insert_asset W ''insert report inventory asset'' (AssetID E hostname) hostname (ReverseLabels hostname) version db)
            (\<lambda>(db, _). Inr (db, Some (AssetID E hostname))))"

definition publishReportInventory ::
    "inventory_env \<Rightarrow> string \<Rightarrow> tx_world \<Rightarrow> report \<Rightarrow> inventory_selection option \<Rightarrow> inventory_db \<Rightarrow> go_error + inventory_db" where
  "publishReportInventory E descriptionVersion W r selection db =
     and_then (report_hostname E r) (\<lambda>raw. (case raw of
        None \<Rightarrow> Inr db
      | Some raw \<Rightarrow>
         (case NormalizeHostname E raw of
            Inl e \<Rightarrow> Inl (NewError CodeInvalidOptions ''report target hostname is invalid'' (Some e))
          | Inr (hostname, version) \<Rightarrow>
              and_then (statement W ''lock report inventory scope publication'' [] db) (\<lambda>db.
              and_then (lockInventoryHostname W hostname db) (\<lambda>db.
              and_then (statement W ''read report inventory deletion'' hostname db) (\<lambda>db.
              (case tombstone_state hostname (re_StartedAt r) db of (suppressed, stale) \<Rightarrow>
               if suppressed \<or> stale then Inr db
               else and_then (report_asset E W hostname version selection db) (\<lambda>(db, assetID). (case assetID of
                   None \<Rightarrow> Inr db
                 | Some assetID \<Rightarrow>
                     let span = observed_span hostname (re_Observations r);
                         s = \<lparr>sg_AssetID = assetID, sg_Hostname = hostname, sg_ReversedLabels = [], sg_NormalizationVersion = [],
                              sg_SourceID = boundedInventorySourceID E (re_ID r), sg_FirstObservedAt = fst span,
                              sg_LastObservedAt = snd span, sg_ScopeRoots = []\<rparr>;
                         verification = (if snd span \<noteq> None then ''collected'' else ''attempted'') in
                     and_then (upsertInventorySighting W s ''report'' ''report'' verification [] [] [] [] db) (\<lambda>db.
                       statement W ''queue inventory report projection'' (re_ID r)
                         (put_projection (re_ID r) descriptionVersion assetID db)))))))))))"

section \<open>Reading\<close>

text \<open>The scopes and sources of the assets of a page, in the orders the queries ask for.\<close>

definition asset_facts :: "tx_world \<Rightarrow> inventory_db \<Rightarrow> asset \<Rightarrow> asset" where
  "asset_facts W db a =
     a\<lparr>as_Scopes := sort (map mb_Root (filter (\<lambda>m. mb_AssetID m = as_ID a) (db_memberships db))),
       as_Sources := sort_key (\<lambda>x. (tw_collate W (is_Kind x), tw_collate W (is_ID x), tw_collate W (is_Provenance x)))
         (map so_Source (filter (\<lambda>x. so_AssetID x = as_ID a) (db_sources db)))\<rparr>"

definition populateInventoryFacts :: "tx_world \<Rightarrow> inventory_db \<Rightarrow> asset list \<Rightarrow> go_error + asset list" where
  "populateInventoryFacts W db assets =
     (if assets = [] then Inr []
      else and_then (statement W ''read inventory memberships'' [] ()) (\<lambda>_.
           and_then (statement W ''read inventory sources'' [] ()) (\<lambda>_. Inr (map (asset_facts W db) assets))))"

definition row_asset :: "asset_row \<Rightarrow> asset" where
  "row_asset a = \<lparr>as_ID = at_ID a, as_Hostname = at_Hostname a, as_NormalizationVersion = at_Version a,
     as_ArchivedAt = at_ArchivedAt a, as_DeletionGeneration = at_Generation a, as_Scopes = [], as_Sources = []\<rparr>"

definition read_row :: "tx_world \<Rightarrow> string \<Rightarrow> string \<Rightarrow> (asset_row \<Rightarrow> bool) \<Rightarrow> inventory_db \<Rightarrow> go_error + asset" where
  "read_row W operation key selects db =
     and_then (statement W operation key (find selects (db_assets db))) (\<lambda>found. (case found of
        None \<Rightarrow> Inl (NewError CodeNotFound ''inventory asset not found'' None)
      | Some a \<Rightarrow> and_then (populateInventoryFacts W db [row_asset a]) (\<lambda>items. Inr (hd items))))"

definition ReadInventory :: "tx_world \<Rightarrow> string \<Rightarrow> inventory_db \<Rightarrow> go_error + asset" where
  "ReadInventory W hostname db = read_row W ''read inventory asset'' hostname (\<lambda>a. at_Hostname a = hostname) db"

definition ReadInventoryByID :: "tx_world \<Rightarrow> string \<Rightarrow> inventory_db \<Rightarrow> go_error + asset" where
  "ReadInventoryByID W i db = read_row W ''read inventory asset by ID'' i (\<lambda>a. at_ID a = i) db"

text \<open>The condition of a search on an asset.\<close>

definition inventorySearchPredicate :: "search_request \<Rightarrow> asset_row \<Rightarrow> bool" where
  "inventorySearchPredicate req a =
     (if sq_Mode req = SearchExact then at_Hostname a = sq_Query req
      else if sq_Mode req = SearchDescendant then
        (let argument = ReverseLabels (sq_Query req) @ ''%'' in
         sql_like argument (at_Reversed a) \<and> at_Reversed a \<noteq> take (length argument - 1) argument)
      else if sq_Mode req = SearchPrefix then sql_like (escapeInventoryLike (sq_Query req) @ ''%'') (at_Hostname a)
      else if sq_Mode req = SearchPartial then sql_like (''%'' @ escapeInventoryLike (sq_Query req) @ ''%'') (at_Hostname a)
      else [] \<le> at_Hostname a)"

text \<open>The candidate rows with the host name they are ordered by: the assets, or the memberships of a scope joined
  with the assets.\<close>

definition search_candidates :: "search_request \<Rightarrow> inventory_db \<Rightarrow> (string \<times> asset_row) list" where
  "search_candidates req db =
     (if sq_ScopeRoot req = [] then map (\<lambda>a. (at_Hostname a, a)) (db_assets db)
      else concat (map (\<lambda>m. map (\<lambda>a. (if sq_Mode req = SearchDescendant then at_Hostname a else mb_Hostname m, a))
                              (filter (\<lambda>a. at_ID a = mb_AssetID m) (db_assets db)))
                     (filter (\<lambda>m. mb_Root m = sq_ScopeRoot req) (db_memberships db))))"

definition search_rows :: "search_request \<Rightarrow> string \<Rightarrow> inventory_db \<Rightarrow> asset_row list" where
  "search_rows req after db =
     take (nat (sq_Limit req + 1)) (map snd (sort_key fst
       (filter (\<lambda>(hostname, a). after < hostname \<and> (sq_IncludeArchived req \<or> at_ArchivedAt a = None) \<and> inventorySearchPredicate req a)
          (search_candidates req db))))"

definition SearchInventory ::
    "inventory_env \<Rightarrow> search_codec \<Rightarrow> tx_world \<Rightarrow> search_request \<Rightarrow> string \<Rightarrow> inventory_db \<Rightarrow> go_error + asset_page" where
  "SearchInventory E C W req after db =
     and_then (statement W ''search inventory'' [] (map row_asset (search_rows req after db))) (\<lambda>items.
       let (items, next) =
         (if int (length items) > sq_Limit req
          then (let items = take (nat (sq_Limit req)) items in (items, NextCursor E C req (as_Hostname (last items))))
          else (items, []))
       in and_then (populateInventoryFacts W db items) (\<lambda>items. Inr \<lparr>pg_Items = items, pg_NextCursor = next\<rparr>))"

section \<open>Archiving and deleting\<close>

definition ArchiveInventory :: "tx_world \<Rightarrow> string \<Rightarrow> bool \<Rightarrow> inventory_db \<Rightarrow> inventory_db \<times> (go_error + asset)" where
  "ArchiveInventory W hostname archived db =
     (let mark = (\<lambda>a. if at_Hostname a \<noteq> hostname then a
                   else if archived then a\<lparr>at_ArchivedAt := (case at_ArchivedAt a of None \<Rightarrow> Some (tw_now W) | Some t \<Rightarrow> Some t)\<rparr>
                   else a\<lparr>at_ArchivedAt := None\<rparr>) in
      (case statement W ''archive inventory asset'' hostname (db\<lparr>db_assets := map mark (db_assets db)\<rparr>) of
         Inl e \<Rightarrow> (db, Inl e)
       | Inr db \<Rightarrow> (db, ReadInventory W hostname db)))"

definition bury :: "tx_world \<Rightarrow> string \<Rightarrow> bool \<Rightarrow> inventory_db \<Rightarrow> inventory_db" where
  "bury W hostname suppress db =
     db\<lparr>db_tombstones := AList.update hostname
          \<lparr>tb_Generation = (case map_of (db_tombstones db) hostname of None \<Rightarrow> 1 | Some t \<Rightarrow> tb_Generation t + 1),
           tb_Suppressed = suppress, tb_DeletedAt = tw_now W\<rparr> (db_tombstones db)\<rparr>"

definition remove_assets :: "string \<Rightarrow> inventory_db \<Rightarrow> inventory_db" where
  "remove_assets hostname db =
     (let gone = map at_ID (filter (\<lambda>a. at_Hostname a = hostname) (db_assets db)) in
      db\<lparr>db_assets := filter (\<lambda>a. at_Hostname a \<noteq> hostname) (db_assets db),
         db_memberships := filter (\<lambda>m. mb_AssetID m \<notin> set gone) (db_memberships db),
         db_sources := filter (\<lambda>x. so_AssetID x \<notin> set gone) (db_sources db)\<rparr>)"

definition DeleteInventory :: "tx_world \<Rightarrow> string \<Rightarrow> bool \<Rightarrow> inventory_db \<Rightarrow> inventory_db \<times> (go_error + int)" where
  "DeleteInventory W hostname suppress db =
     transaction db
       (and_then (statement W ''begin inventory deletion'' [] db) (\<lambda>db.
        and_then (lockInventoryHostname W hostname db) (\<lambda>db.
        and_then (statement W ''record inventory deletion'' hostname (bury W hostname suppress db)) (\<lambda>db.
        let generation = tombstone_generation hostname db in
        and_then (statement W ''delete inventory asset'' hostname (remove_assets hostname db)) (\<lambda>db.
        and_then (statement W ''commit inventory deletion'' [] db) (\<lambda>db. Inr (db, generation)))))))"

text \<open>The store as the service sees it.\<close>

definition postgres_inventory :: "inventory_env \<Rightarrow> search_codec \<Rightarrow> tx_world \<Rightarrow> inventory_db inventory_store" where
  "postgres_inventory E C W =
     \<lparr>vs_Search = SearchInventory E C W, vs_Read = ReadInventory W, vs_Archive = ArchiveInventory W, vs_Delete = DeleteInventory W\<rparr>"

end
