(* ===== verification/Inventory_Invariant.thy ===== *)
theory Inventory_Invariant
  imports Inventory_Store
begin

text \<open>
  What the transactions on the inventory keep: every asset is identified by its name, memberships are
  exactly the pairs of an asset and a registered scope it lies in, generations follow the tombstones, and
  a suppressed name has no asset. \<open>inventory_step\<close> is one call of the service or one publication.
\<close>

section \<open>Names without pattern characters\<close>

definition plain_name :: "string \<Rightarrow> bool" where
  "plain_name s \<longleftrightarrow> CHR ''%'' \<notin> set s \<and> CHR ''_'' \<notin> set s \<and> CHR 0x5C \<notin> set s"

lemma escape_plain: "plain_name q \<Longrightarrow> escapeInventoryLike q = q"
  by (induction q) (auto simp: plain_name_def)

lemma join_chars: "set (join [c] ls) \<subseteq> insert c (\<Union>(set ` set ls))"
  by (induction "[c]" ls rule: join.induct) auto

lemma not_dns_char: "\<not> dns_char CHR ''%''" "\<not> dns_char CHR ''_''" "\<not> dns_char CHR 0x5C"
  by (simp_all add: dns_char_def)

lemma validDNSName_plain:
  assumes "validDNSName s"
  shows "plain_name s"
proof -
  have "dns_char x \<or> x = CHR ''.''" if "x \<in> set s" for x
  proof -
    have "x \<in> set (join [CHR ''.''] (split_on CHR ''.'' s))" using that by (simp add: join_split_on)
    then obtain l where "x = CHR ''.'' \<or> l \<in> set (split_on CHR ''.'' s) \<and> x \<in> set l" using join_chars by fastforce
    then show ?thesis using assms by (auto simp: validDNSName_def valid_label_def list_all_iff)
  qed
  then show ?thesis unfolding plain_name_def using not_dns_char by fastforce
qed

lemma NormalizeHostname_valid: "NormalizeHostname E raw = Inr (h, v) \<Longrightarrow> validDNSName h"
  by (auto simp: NormalizeHostname_def Normalize_def NormalizeWithSeedLimit_def hostname_request_def normalize_domain_target_def
      plan_seeds_def and_then_Inr_iff Let_def plan_result_def split: if_splits option.splits sum.splits
      dest: normalizeDomain_Inr)

text \<open>A name some input normalises to.\<close>

definition normal_name :: "inventory_env \<Rightarrow> string \<Rightarrow> bool" where
  "normal_name E h \<longleftrightarrow> (\<exists>raw v. NormalizeHostname E raw = Inr (h, v))"

lemma row_in_root_iff:
  assumes "plain_name root"
  shows "row_in_root h root \<longleftrightarrow> at_or_below h root"
proof -
  have plain: "plain_name (''.'' @ root)" using assms by (simp add: plain_name_def)
  have "sql_like (''%.'' @ root) h \<longleftrightarrow> (\<exists>u t. h = u @ t \<and> sql_like (escapeInventoryLike (''.'' @ root) @ []) t)"
    using sql_like_any [of "''.'' @ root" h] escape_plain [OF plain] by simp
  also have "\<dots> \<longleftrightarrow> has_suffix h (''.'' @ root)" unfolding sql_like_escaped has_suffix_iff by simp
  finally show ?thesis unfolding row_in_root_def label_suffix_iff [symmetric] by simp
qed

section \<open>The invariant\<close>

definition membership_of :: "asset_row \<Rightarrow> string \<Rightarrow> membership_row" where
  "membership_of a root = \<lparr>mb_AssetID = at_ID a, mb_Root = root, mb_Hostname = at_Hostname a\<rparr>"

definition identified :: "inventory_env \<Rightarrow> inventory_db \<Rightarrow> bool" where
  "identified E db \<longleftrightarrow> distinct (map at_Hostname (db_assets db)) \<and> distinct (map at_ID (db_assets db))
     \<and> (\<forall>a \<in> set (db_assets db). at_ID a = AssetID E (at_Hostname a) \<and> at_Reversed a = ReverseLabels (at_Hostname a)
          \<and> at_Generation a = tombstone_generation (at_Hostname a) db \<and> normal_name E (at_Hostname a))"

text \<open>The memberships are those of the assets in the registered scopes; the assets in \<open>pending\<close> are not linked yet.\<close>

definition linked :: "string set \<Rightarrow> inventory_db \<Rightarrow> bool" where
  "linked pending db \<longleftrightarrow>
     (\<forall>m \<in> set (db_memberships db). \<exists>a \<in> set (db_assets db). \<exists>root \<in> set (db_scopes db). at_or_below (at_Hostname a) root \<and> m = membership_of a root)
     \<and> (\<forall>a \<in> set (db_assets db). at_Hostname a \<notin> pending \<longrightarrow>
          (\<forall>root \<in> set (db_scopes db). at_or_below (at_Hostname a) root \<longrightarrow> membership_of a root \<in> set (db_memberships db)))
     \<and> distinct (db_memberships db) \<and> distinct (db_scopes db) \<and> (\<forall>root \<in> set (db_scopes db). validDNSName root)"

definition buried :: "inventory_db \<Rightarrow> bool" where
  "buried db \<longleftrightarrow> (\<forall>a \<in> set (db_assets db). \<forall>t. map_of (db_tombstones db) (at_Hostname a) = Some t \<longrightarrow> \<not> tb_Suppressed t)"

definition sourced :: "inventory_db \<Rightarrow> bool" where
  "sourced db \<longleftrightarrow> (\<forall>x \<in> set (db_sources db). asset_known (so_AssetID x) db)"

definition inventory_ok :: "inventory_env \<Rightarrow> string set \<Rightarrow> inventory_db \<Rightarrow> bool" where
  "inventory_ok E pending db \<longleftrightarrow> identified E db \<and> linked pending db \<and> buried db \<and> sourced db"

lemma empty_ok: "inventory_ok E {} empty_db"
  by (simp add: inventory_ok_def identified_def linked_def buried_def sourced_def empty_db_def)

lemma distinct_map_eq: "distinct (map f xs) \<Longrightarrow> x \<in> set xs \<Longrightarrow> y \<in> set xs \<Longrightarrow> f x = f y \<Longrightarrow> x = y"
  by (auto simp: distinct_map inj_on_def)

lemma statement_Inr [simp]: "statement W op key x = Inr y \<longleftrightarrow> tw_fault W op key = None \<and> y = x"
  by (auto simp: statement_def split: option.splits)

lemma hook_Inr [simp]: "hook W n x = Inr y \<longleftrightarrow> tw_hook W n = None \<and> y = x"
  by (auto simp: hook_def split: option.splits)

text \<open>Rows added to memberships that a key determines.\<close>

lemma add_membership_set:
  assumes "\<forall>x \<in> insert m (set ms). \<forall>y \<in> insert m (set ms). mb_AssetID x = mb_AssetID y \<and> mb_Root x = mb_Root y \<longrightarrow> x = y"
  shows "set (add_membership m ms) = insert m (set ms)" "distinct ms \<Longrightarrow> distinct (add_membership m ms)"
  using assms by (auto simp: add_membership_def list_ex_iff)

lemma fold_membership_set:
  assumes "\<forall>x \<in> set ns \<union> set ms. \<forall>y \<in> set ns \<union> set ms. mb_AssetID x = mb_AssetID y \<and> mb_Root x = mb_Root y \<longrightarrow> x = y"
  shows "set (fold add_membership ns ms) = set ns \<union> set ms \<and> (distinct ms \<longrightarrow> distinct (fold add_membership ns ms))"
  using assms
proof (induction ns arbitrary: ms)
  case (Cons n ns)
  have "set (add_membership n ms) = insert n (set ms)" "distinct ms \<Longrightarrow> distinct (add_membership n ms)"
    using Cons.prems by (auto intro!: add_membership_set)
  with Cons.IH [of "add_membership n ms"] Cons.prems show ?case by auto
qed simp

lemma membership_of_inj:
  assumes "identified E db" "a \<in> set (db_assets db)" "b \<in> set (db_assets db)" "mb_AssetID (membership_of a r) = mb_AssetID (membership_of b q)"
    "mb_Root (membership_of a r) = mb_Root (membership_of b q)"
  shows "membership_of a r = membership_of b q"
  using assms distinct_map_eq [of at_ID "db_assets db" a b] by (auto simp: identified_def membership_of_def)

lemma linked_member: "linked P db \<Longrightarrow> m \<in> set (db_memberships db) \<Longrightarrow> \<exists>a \<in> set (db_assets db). \<exists>r. m = membership_of a r"
  unfolding linked_def by blast

lemma keyed_members:
  assumes "identified E db" "\<forall>z \<in> M. \<exists>a \<in> set (db_assets db). \<exists>r. z = membership_of a r"
  shows "\<forall>x \<in> M. \<forall>y \<in> M. mb_AssetID x = mb_AssetID y \<and> mb_Root x = mb_Root y \<longrightarrow> x = y"
proof (intro ballI impI)
  fix x y assume xy: "x \<in> M" "y \<in> M" "mb_AssetID x = mb_AssetID y \<and> mb_Root x = mb_Root y"
  obtain a r b q where "a \<in> set (db_assets db)" "x = membership_of a r" "b \<in> set (db_assets db)" "y = membership_of b q"
    using assms(2) xy(1,2) by meson
  then show "x = y" using xy(3) membership_of_inj [OF assms(1)] by blast
qed

text \<open>Memberships of known assets added to linked ones.\<close>

lemma linked_add:
  assumes ok: "identified E db" "linked pending db"
    and new: "\<forall>n \<in> set ns. \<exists>a \<in> set (db_assets db). \<exists>root \<in> set (db_scopes db). at_or_below (at_Hostname a) root \<and> n = membership_of a root"
    and complete: "\<forall>a \<in> set (db_assets db). at_Hostname a \<in> pending - pending' \<longrightarrow>
          (\<forall>root \<in> set (db_scopes db). at_or_below (at_Hostname a) root \<longrightarrow> membership_of a root \<in> set ns)"
  shows "linked pending' (db\<lparr>db_memberships := fold add_membership ns (db_memberships db)\<rparr>)"
proof -
  have "\<forall>z \<in> set ns \<union> set (db_memberships db). \<exists>a \<in> set (db_assets db). \<exists>r. z = membership_of a r"
    using new ok(2) unfolding linked_def by blast
  note keyed = keyed_members [OF ok(1) this]
  show ?thesis using fold_membership_set [OF keyed] new complete ok(2) by (auto simp: linked_def)
qed

section \<open>Statements that keep the invariant\<close>

lemma tombstone_same [simp]:
  "tombstone_generation h (db\<lparr>db_memberships := m\<rparr>) = tombstone_generation h db"
  "tombstone_generation h (db\<lparr>db_scopes := sc\<rparr>) = tombstone_generation h db"
  "tombstone_generation h (db\<lparr>db_assets := as\<rparr>) = tombstone_generation h db"
  "tombstone_generation h (db\<lparr>db_sources := so\<rparr>) = tombstone_generation h db"
  "tombstone_generation h (db\<lparr>db_chunks := ch\<rparr>) = tombstone_generation h db"
  "tombstone_generation h (db\<lparr>db_projection := pj\<rparr>) = tombstone_generation h db"
  by (simp_all add: tombstone_generation_def)

lemma known_same [simp]:
  "asset_known i (db\<lparr>db_memberships := m\<rparr>) = asset_known i db"
  "asset_known i (db\<lparr>db_scopes := sc\<rparr>) = asset_known i db"
  "asset_known i (db\<lparr>db_sources := so\<rparr>) = asset_known i db"
  "asset_known i (db\<lparr>db_chunks := ch\<rparr>) = asset_known i db"
  "asset_known i (db\<lparr>db_tombstones := tb\<rparr>) = asset_known i db"
  "asset_known i (db\<lparr>db_projection := pj\<rparr>) = asset_known i db"
  by (simp_all add: asset_known_def)

lemma ok_other_tables:
  "inventory_ok E P (db\<lparr>db_chunks := ch\<rparr>) = inventory_ok E P db" "inventory_ok E P (db\<lparr>db_projection := pj\<rparr>) = inventory_ok E P db"
  by (simp_all add: inventory_ok_def identified_def linked_def buried_def sourced_def)

lemma backfill_ok:
  assumes "inventory_ok E {} db" "validDNSName root"
  shows "inventory_ok E {} (backfill_scope root (insert_scope root db))"
proof (cases "root \<in> set (db_scopes db)")
  case True
  have "linked {} (backfill_scope root db)"
    unfolding backfill_scope_def
    using assms True row_in_root_iff [OF validDNSName_plain [OF assms(2)]]
    by (intro linked_add [of E db "{}"]) (auto simp: inventory_ok_def membership_of_def)
  with assms True show ?thesis
    by (simp add: insert_scope_def inventory_ok_def identified_def buried_def sourced_def backfill_scope_def)
next
  case False
  let ?db = "db\<lparr>db_scopes := db_scopes db @ [root]\<rparr>" and ?new = "filter (\<lambda>a. row_in_root (at_Hostname a) root) (db_assets db)"
  let ?ns = "map (\<lambda>a. \<lparr>mb_AssetID = at_ID a, mb_Root = root, mb_Hostname = at_Hostname a\<rparr>) ?new"
  have ident: "identified E ?db" using assms(1) by (simp add: inventory_ok_def identified_def)
  have linked: "linked {} db" using assms(1) by (simp add: inventory_ok_def)
  have ns: "set ?ns = {membership_of a root |a. a \<in> set (db_assets db) \<and> at_or_below (at_Hostname a) root}"
    using row_in_root_iff [OF validDNSName_plain [OF assms(2)]] by (auto simp: membership_of_def)
  have "\<forall>z \<in> set ?ns \<union> set (db_memberships db). \<exists>a \<in> set (db_assets ?db). \<exists>r. z = membership_of a r"
    using linked_member [OF linked] unfolding ns by auto
  note keyed = keyed_members [OF ident this]
  have "linked {} (backfill_scope root ?db)"
  proof -
    let ?ms = "fold add_membership ?ns (db_memberships db)"
    have ms: "set ?ms = {membership_of a root |a. a \<in> set (db_assets db) \<and> at_or_below (at_Hostname a) root} \<union> set (db_memberships db)"
      "distinct ?ms"
      using fold_membership_set [OF keyed] linked unfolding ns by (simp_all add: linked_def)
    have "\<exists>a \<in> set (db_assets db). \<exists>r \<in> set (db_scopes ?db). at_or_below (at_Hostname a) r \<and> m = membership_of a r" if "m \<in> set ?ms" for m
      using that linked unfolding ms(1) linked_def by fastforce
    moreover have "membership_of a r \<in> set ?ms" if "a \<in> set (db_assets db)" "r \<in> set (db_scopes ?db)" "at_or_below (at_Hostname a) r" for a r
      using that linked unfolding ms(1) linked_def by auto
    ultimately show ?thesis using ms(2) linked assms(2) False by (simp add: linked_def backfill_scope_def)
  qed
  with assms False show ?thesis
    by (simp add: insert_scope_def inventory_ok_def identified_def buried_def sourced_def backfill_scope_def)
qed

lemma register_roots_ok:
  "register_roots W p q roots db = Inr db' \<Longrightarrow> inventory_ok E {} db \<Longrightarrow> \<forall>root \<in> set roots. validDNSName root \<Longrightarrow> inventory_ok E {} db'"
  by (induction roots arbitrary: db) (auto simp: and_then_Inr_iff backfill_ok)

lemma insert_asset_ok:
  assumes "insert_asset W op i h (ReverseLabels h) v db = Inr (db', b)" "inventory_ok E {} db" "i = AssetID E h" "normal_name E h"
    and "\<not> fst (tombstone_state h t db)"
  shows "inventory_ok E {h} db' \<and> (\<exists>a \<in> set (db_assets db'). at_ID a = i \<and> at_Hostname a = h)
    \<and> db_tombstones db' = db_tombstones db"
proof (cases "list_ex (\<lambda>a. at_Hostname a = h) (db_assets db)")
  case True
  then show ?thesis using assms
    by (auto simp: insert_asset_def and_then_Inr_iff inventory_ok_def linked_def identified_def list_ex_iff)
next
  case False
  let ?a = "\<lparr>at_ID = i, at_Hostname = h, at_Reversed = ReverseLabels h, at_Version = v, at_ArchivedAt = None,
      at_Generation = tombstone_generation h db\<rparr>"
  have db': "db' = db\<lparr>db_assets := db_assets db @ [?a]\<rparr>" and new: "\<not> list_ex (\<lambda>a. at_ID a = i) (db_assets db)"
    using assms(1) False by (auto simp: insert_asset_def and_then_Inr_iff split: if_splits)
  have "identified E db'" using assms False new by (auto simp: db' inventory_ok_def identified_def list_ex_iff)
  moreover have "linked {h} db'" using assms(2) by (auto simp: db' inventory_ok_def linked_def)
  moreover have "buried db'" using assms(2,5) by (auto simp: db' inventory_ok_def buried_def tombstone_state_def)
  moreover have "sourced db'" using assms(2) by (auto simp: db' inventory_ok_def sourced_def asset_known_def)
  ultimately show ?thesis by (auto simp: db' inventory_ok_def)
qed

lemma put_source_assets: "x \<in> set (put_source new rows) \<Longrightarrow> so_AssetID x = so_AssetID new \<or> (\<exists>y \<in> set rows. so_AssetID x = so_AssetID y)"
  by (auto simp: put_source_def merge_source_def Let_def split: if_splits)

lemma upsert_ok:
  assumes "upsertInventorySighting W s k p v r l e c db = Inr db'" "inventory_ok E P db" "P \<subseteq> {sg_Hostname s}"
    and "\<exists>a \<in> set (db_assets db). at_ID a = sg_AssetID s \<and> at_Hostname a = sg_Hostname s"
  shows "inventory_ok E {} db' \<and> db_assets db' = db_assets db \<and> db_tombstones db' = db_tombstones db \<and> db_chunks db' = db_chunks db"
proof -
  obtain a where a: "a \<in> set (db_assets db)" "at_ID a = sg_AssetID s" "at_Hostname a = sg_Hostname s" using assms(4) by blast
  let ?ns = "map (\<lambda>root. \<lparr>mb_AssetID = sg_AssetID s, mb_Root = root, mb_Hostname = sg_Hostname s\<rparr>)
     (filter (row_in_root (sg_Hostname s)) (db_scopes db))"
  let ?db = "db\<lparr>db_memberships := fold add_membership ?ns (db_memberships db)\<rparr>"
  have ok: "identified E db" "linked P db" "buried db" "sourced db" using assms(2) by (simp_all add: inventory_ok_def)
  have scopes: "row_in_root (sg_Hostname s) root \<longleftrightarrow> at_or_below (sg_Hostname s) root" if "root \<in> set (db_scopes db)" for root
    using that ok(2) row_in_root_iff validDNSName_plain unfolding linked_def by blast
  have "linked {} ?db"
  proof (rule linked_add [OF ok(1,2)])
    show "\<forall>n \<in> set ?ns. \<exists>a \<in> set (db_assets db). \<exists>root \<in> set (db_scopes db). at_or_below (at_Hostname a) root \<and> n = membership_of a root"
      using a scopes by (force simp: membership_of_def)
    show "\<forall>b \<in> set (db_assets db). at_Hostname b \<in> P - {} \<longrightarrow> (\<forall>root \<in> set (db_scopes db). at_or_below (at_Hostname b) root \<longrightarrow> membership_of b root \<in> set ?ns)"
    proof (intro ballI impI)
      fix b root assume b: "b \<in> set (db_assets db)" "at_Hostname b \<in> P - {}" "root \<in> set (db_scopes db)" "at_or_below (at_Hostname b) root"
      then have "at_Hostname b = at_Hostname a" using assms(3) a by auto
      then have "b = a" using b(1) a(1) ok(1) distinct_map_eq [of at_Hostname] unfolding identified_def by blast
      then show "membership_of b root \<in> set ?ns" using b a scopes by (auto simp: membership_of_def)
    qed
  qed
  moreover obtain so where db': "db' = ?db\<lparr>db_sources := so\<rparr>" and so: "so = put_source (sighting_source W s k p v r l e c) (db_sources db)"
    and known: "asset_known (sg_AssetID s) db"
    using assms(1) by (auto simp: upsertInventorySighting_def Let_def and_then_Inr_iff split: if_splits)
  moreover have "sourced db'"
    using ok(4) known unfolding sourced_def db' so by (auto dest!: put_source_assets simp: sighting_source_def)
  ultimately show ?thesis using ok(1,3) by (simp add: inventory_ok_def identified_def linked_def buried_def)
qed

section \<open>Transactions that keep the invariant\<close>

definition wf_sighting :: "inventory_env \<Rightarrow> sighting \<Rightarrow> bool" where
  "wf_sighting E s \<longleftrightarrow> sg_AssetID s = AssetID E (sg_Hostname s) \<and> sg_ReversedLabels s = ReverseLabels (sg_Hostname s) \<and> normal_name E (sg_Hostname s)"

lemma publish_ok:
  assumes "insert_asset W op (sg_AssetID s) (sg_Hostname s) (sg_ReversedLabels s) v db = Inr (db1, b)"
    and "upsertInventorySighting W s k p vr l r e c db1 = Inr db2"
    and "inventory_ok E {} db" "wf_sighting E s" "\<not> fst (tombstone_state (sg_Hostname s) t db)"
  shows "inventory_ok E {} db2 \<and> db_tombstones db2 = db_tombstones db"
proof -
  have "insert_asset W op (sg_AssetID s) (sg_Hostname s) (ReverseLabels (sg_Hostname s)) v db = Inr (db1, b)"
    using assms(1,4) by (simp add: wf_sighting_def)
  from insert_asset_ok [OF this assms(3) _ _ assms(5)] assms(4)
  have "inventory_ok E {sg_Hostname s} db1" "\<exists>a \<in> set (db_assets db1). at_ID a = sg_AssetID s \<and> at_Hostname a = sg_Hostname s"
    "db_tombstones db1 = db_tombstones db"
    by (auto simp: wf_sighting_def)
  from upsert_ok [OF assms(2) this(1) _ this(2)] this(3) show ?thesis by simp
qed

lemma import_sighting_ok:
  assumes "import_sighting W t s (counts, db) = Inr (counts', db')" "inventory_ok E {} db" "wf_sighting E s"
  shows "inventory_ok E {} db' \<and> db_tombstones db' = db_tombstones db"
  using assms
  by (auto simp: import_sighting_def and_then_Inr_iff lockInventoryHostname_def Let_def split: prod.splits bool.splits if_splits
      dest: publish_ok [where t = t])

lemma import_sightings_ok:
  "import_sightings W t ss (counts, db) = Inr (counts', db') \<Longrightarrow> inventory_ok E {} db \<Longrightarrow> \<forall>s \<in> set ss. wf_sighting E s \<Longrightarrow>
     inventory_ok E {} db' \<and> db_tombstones db' = db_tombstones db"
proof (induction ss arbitrary: counts db)
  case (Cons s ss)
  obtain c1 db1 where run: "import_sighting W t s (counts, db) = Inr (c1, db1)" "import_sightings W t ss (c1, db1) = Inr (counts', db')"
    using Cons.prems(1) by (auto simp: and_then_Inr_iff)
  from import_sighting_ok [OF run(1) Cons.prems(2)] Cons.prems(3) Cons.IH [OF run(2)] show ?case by simp
qed simp

lemma register_roots_tombstones:
  "register_roots W p q roots db = Inr db' \<Longrightarrow> db_tombstones db' = db_tombstones db \<and> db_chunks db' = db_chunks db"
proof (induction roots arbitrary: db)
  case (Cons root roots)
  from Cons.IH [of "backfill_scope root (insert_scope root db)"] Cons.prems show ?case
    by (simp add: and_then_Inr_iff backfill_scope_def insert_scope_def)
qed simp

lemma fresh_chunk_ok:
  assumes "fresh_chunk W receipt hash roots ss t db = Inr (db', r)" "inventory_ok E {} db"
    and "\<forall>root \<in> set roots. validDNSName root" "\<forall>s \<in> set ss. wf_sighting E s"
  shows "inventory_ok E {} db' \<and> db_tombstones db' = db_tombstones db"
proof -
  obtain db1 counts db2 where run: "register_roots W ''insert inventory scope'' ''backfill inventory scope membership'' roots db = Inr db1"
    "import_sightings W t (sort_key sg_Hostname ss) (ip_Counts receipt, db1) = Inr (counts, db2)"
    and db': "\<exists>ch. db' = db2\<lparr>db_chunks := ch\<rparr>"
    using assms(1) by (auto simp: fresh_chunk_def and_then_Inr_iff)
  have "inventory_ok E {} db1" by (rule register_roots_ok [OF run(1) assms(2,3)])
  from import_sightings_ok [OF run(2) this] assms(4) register_roots_tombstones [OF run(1)] db' show ?thesis
    by (auto simp: ok_other_tables)
qed

lemma ImportInventoryChunk_ok:
  assumes "ImportInventoryChunk W receipt hash roots ss t db = (db', r)" "inventory_ok E {} db"
    and "\<forall>root \<in> set roots. validDNSName root" "\<forall>s \<in> set ss. wf_sighting E s"
  shows "inventory_ok E {} db' \<and> db_tombstones db' = db_tombstones db"
proof -
  have "db' = db \<or> (\<exists>r. fresh_chunk W receipt hash roots ss (tw_now W) db = Inr (db', r))"
    using assms(1) by (auto simp: ImportInventoryChunk_def transaction_def and_then_Inr_iff split: sum.splits option.splits)
  then show ?thesis using fresh_chunk_ok assms(2-) by blast
qed

lemma prepare_import_wf:
  assumes "prepare_import E marshal ctx req = Inr (receipt, digest, roots, ss)"
  shows "\<forall>root \<in> set roots. validDNSName root" "\<forall>s \<in> set ss. wf_sighting E s"
    "ic_Suppressed (ip_Counts receipt) = 0" "ic_Stale (ip_Counts receipt) = 0"
proof -
  have ok: "import_acceptable E marshal ctx req" using assms prepare_import_Inl [of E marshal ctx req] by auto
  obtain rs canonical where rs: "import_roots E (iq_ScopeRoots req) = Inr rs" "marshal req = Inr canonical"
    using ok import_roots_ok [of E "iq_ScopeRoots req"] by (auto simp: import_acceptable_def)
  have eq: "roots = rs" "ss = map (sighting_of E (iq_SourceID req) rs (iq_Entries req)) (first_names (admitted_names E rs (iq_Entries req)))"
    "receipt = \<lparr>ip_OperationID = iq_OperationID req, ip_ChunkID = iq_ChunkID req, ip_Counts = counted E rs (iq_Entries req)\<rparr>"
    using assms prepare_import_Inr [OF ok rs] by auto
  show "\<forall>root \<in> set roots. validDNSName root"
    using import_roots_Inr(4) [OF rs(1)] NormalizeHostname_valid unfolding eq by blast
  show "\<forall>s \<in> set ss. wf_sighting E s"
    unfolding eq by (auto simp: wf_sighting_def sighting_of_def Let_def admitted_names_set normal_name_def)
  show "ic_Suppressed (ip_Counts receipt) = 0" "ic_Stale (ip_Counts receipt) = 0"
    by (simp_all add: eq counted_def zero_counts_def)
qed

lemma Import_chunk_ok:
  assumes "Import_chunk E marshal (Some (ImportInventoryChunk W)) now ctx req db = (db', r)" "inventory_ok E {} db"
  shows "inventory_ok E {} db' \<and> db_tombstones db' = db_tombstones db"
proof (cases "prepare_import E marshal ctx req")
  case (Inr x)
  obtain receipt digest roots ss where x: "x = (receipt, digest, roots, ss)" by (metis prod_cases4)
  then show ?thesis
    using assms Inr ImportInventoryChunk_ok [OF _ assms(2) prepare_import_wf(1,2) [OF Inr [unfolded x]]] by (simp add: Import_chunk_def)
qed (use assms in \<open>simp add: Import_chunk_def\<close>)

lemma upsertCTInventory_ok:
  assumes "upsertCTInventory E W record t db = Inr db'" "inventory_ok E {} db"
  shows "inventory_ok E {} db' \<and> db_tombstones db' = db_tombstones db"
proof (cases "NormalizeHostname E (ct_Name record)")
  case (Inr x)
  obtain h v where x: "x = (h, v)" by (cases x)
  have valid: "normal_name E h" using Inr x by (auto simp: normal_name_def)
  show ?thesis
  proof (cases "ct_Wildcard record \<or> fst (tombstone_state h t db) \<or> snd (tombstone_state h t db)")
    case True
    with assms Inr x show ?thesis
      by (auto simp: upsertCTInventory_def and_then_Inr_iff lockInventoryHostname_def split: prod.splits if_splits)
  next
    case False
    let ?s = "\<lparr>sg_AssetID = AssetID E h, sg_Hostname = h, sg_ReversedLabels = ReverseLabels h,
       sg_NormalizationVersion = v, sg_SourceID = boundedInventorySourceID E (ct_SourceID record),
       sg_FirstObservedAt = Some (ct_LoggedAt record), sg_LastObservedAt = Some (ct_LoggedAt record), sg_ScopeRoots = []\<rparr>"
    obtain db1 b k p vr l r e where run: "insert_asset W ''insert CT inventory asset'' (AssetID E h) h (ReverseLabels h) v db = Inr (db1, b)"
      "upsertInventorySighting W ?s ''ct'' k p vr l r e db1 = Inr db'"
      using assms(1) False Inr x
      by (auto simp: upsertCTInventory_def and_then_Inr_iff lockInventoryHostname_def Let_def split: prod.splits if_splits)
    have "wf_sighting E ?s" using valid by (simp add: wf_sighting_def)
    from publish_ok [where s = ?s and t = t, simplified, OF run(1) run(2) assms(2) this] False show ?thesis by simp
  qed
qed (use assms in \<open>auto simp: upsertCTInventory_def and_then_Inr_iff split: if_splits\<close>)

lemma put_projection_same:
  "inventory_ok E P (put_projection i v a db) = inventory_ok E P db" "db_tombstones (put_projection i v a db) = db_tombstones db"
  "db_chunks (put_projection i v a db) = db_chunks db" "db_assets (put_projection i v a db) = db_assets db"
  by (auto simp: put_projection_def ok_other_tables split: option.splits)

lemma report_asset_ok:
  assumes "report_asset E W h v selection db = Inr (db', Some i)" "inventory_ok E {} db" "normal_name E h" "\<not> fst (tombstone_state h t db)"
  shows "inventory_ok E {h} db' \<and> (\<exists>a \<in> set (db_assets db'). at_ID a = i \<and> at_Hostname a = h) \<and> db_tombstones db' = db_tombstones db"
proof (cases selection)
  case None
  then show ?thesis
    using assms insert_asset_ok [of W "''insert report inventory asset''" "AssetID E h" h v db _ _ E t]
    by (auto simp: report_asset_def and_then_Inr_iff)
next
  case (Some sel)
  then have "db' = db" "i = is_AssetID sel" "\<exists>a. find (\<lambda>a. at_ID a = is_AssetID sel \<and> at_Hostname a = h) (db_assets db) = Some a"
    using assms(1) by (auto simp: report_asset_def and_then_Inr_iff split: option.splits if_splits)
  then show ?thesis using assms(2) by (auto simp: find_Some_iff inventory_ok_def linked_def)
qed

text \<open>What a published report does to the database: nothing, or one sighting of its target and its projection.\<close>

lemma publishReportInventory_cases:
  assumes "publishReportInventory E dv W r selection db = Inr db'"
  obtains "db' = db"
  | h v i db1 s k p vr l rf e db2 where "normal_name E h" "\<not> fst (tombstone_state h (re_StartedAt r) db)"
      "report_asset E W h v selection db = Inr (db1, Some i)" "sg_AssetID s = i" "sg_Hostname s = h"
      "upsertInventorySighting W s k p vr l rf e [] db1 = Inr db2" "db' = put_projection (re_ID r) dv i db2"
  | h v db1 where "report_asset E W h v selection db = Inr (db1, None)" "db' = db1"
proof (cases "report_hostname E r")
  case (Inr raw)
  show ?thesis
  proof (cases raw)
    case None
    then show ?thesis using assms Inr that(1) by (simp add: publishReportInventory_def)
  next
    case (Some name)
    then obtain h v where h: "NormalizeHostname E name = Inr (h, v)"
      using assms Inr by (auto simp: publishReportInventory_def split: sum.splits)
    show ?thesis
    proof (cases "fst (tombstone_state h (re_StartedAt r) db) \<or> snd (tombstone_state h (re_StartedAt r) db)")
      case True
      then show ?thesis using assms Inr Some h that(1)
        by (auto simp: publishReportInventory_def and_then_Inr_iff lockInventoryHostname_def split: prod.splits if_splits)
    next
      case False
      then obtain db1 i where a: "report_asset E W h v selection db = Inr (db1, i)"
        using assms Inr Some h
        by (auto simp: publishReportInventory_def and_then_Inr_iff lockInventoryHostname_def split: prod.splits if_splits)
      show ?thesis
      proof (cases i)
        case None
        then show ?thesis using assms Inr Some h a False that(3)
          by (auto simp: publishReportInventory_def and_then_Inr_iff lockInventoryHostname_def split: prod.splits if_splits)
      next
        case (Some i')
        let ?s = "\<lparr>sg_AssetID = i', sg_Hostname = h, sg_ReversedLabels = [], sg_NormalizationVersion = [],
            sg_SourceID = boundedInventorySourceID E (re_ID r), sg_FirstObservedAt = fst (observed_span h (re_Observations r)),
            sg_LastObservedAt = snd (observed_span h (re_Observations r)), sg_ScopeRoots = []\<rparr>"
        obtain db2 k p vr l rf e where "upsertInventorySighting W ?s k p vr l rf e [] db1 = Inr db2"
          "db' = put_projection (re_ID r) dv i' db2"
          using assms Inr \<open>raw = Some name\<close> h a False Some
          by (auto simp: publishReportInventory_def and_then_Inr_iff lockInventoryHostname_def Let_def split: prod.splits if_splits)
        moreover have "normal_name E h" using h by (auto simp: normal_name_def)
        ultimately show ?thesis using that(2) [of h v db1 i' ?s] a Some False by simp
      qed
    qed
  qed
qed (use assms in \<open>simp add: publishReportInventory_def\<close>)

lemma report_asset_None: "report_asset E W h v selection db = Inr (db1, None) \<Longrightarrow> db1 = db"
  by (auto simp: report_asset_def and_then_Inr_iff split: option.splits if_splits)

lemma publishReportInventory_ok:
  assumes "publishReportInventory E dv W r selection db = Inr db'" "inventory_ok E {} db"
  shows "inventory_ok E {} db' \<and> db_tombstones db' = db_tombstones db"
  using assms(1)
proof (cases rule: publishReportInventory_cases)
  case (2 h v i db1 s k p vr l rf e db2)
  from report_asset_ok [OF 2(3) assms(2) 2(1,2)] have "inventory_ok E {h} db1"
    "\<exists>a \<in> set (db_assets db1). at_ID a = sg_AssetID s \<and> at_Hostname a = sg_Hostname s" "db_tombstones db1 = db_tombstones db"
    using 2 by auto
  from upsert_ok [OF 2(6) this(1) _ this(2)] this(3) 2 show ?thesis by (simp add: put_projection_same)
next
  case (3 h v db1)
  then show ?thesis using report_asset_None [OF 3(1)] assms(2) by simp
qed (use assms(2) in simp)

definition marked :: "(asset_row \<Rightarrow> asset_row) \<Rightarrow> bool" where
  "marked f \<longleftrightarrow> (\<forall>a. at_ID (f a) = at_ID a \<and> at_Hostname (f a) = at_Hostname a \<and> at_Reversed (f a) = at_Reversed a
     \<and> at_Generation (f a) = at_Generation a)"

lemma marked_ok: "marked f \<Longrightarrow> inventory_ok E {} db \<Longrightarrow> inventory_ok E {} (db\<lparr>db_assets := map f (db_assets db)\<rparr>)"
  by (auto simp: inventory_ok_def identified_def linked_def buried_def sourced_def asset_known_def marked_def membership_of_def
      comp_def list_ex_iff)

lemma ArchiveInventory_ok:
  assumes "ArchiveInventory W h flag db = (db', r)" "inventory_ok E {} db"
  shows "inventory_ok E {} db' \<and> db_tombstones db' = db_tombstones db"
proof -
  have "db' = db \<or> (\<exists>f. marked f \<and> db' = db\<lparr>db_assets := map f (db_assets db)\<rparr>)"
    using assms(1)
    by (auto simp: ArchiveInventory_def statement_def marked_def Let_def split: option.splits
        intro!: exI [of _ "\<lambda>a. if at_Hostname a \<noteq> h then a
                   else if flag then a\<lparr>at_ArchivedAt := (case at_ArchivedAt a of None \<Rightarrow> Some (tw_now W) | Some t \<Rightarrow> Some t)\<rparr>
                   else a\<lparr>at_ArchivedAt := None\<rparr>"])
  then show ?thesis using marked_ok assms(2) by auto
qed

lemma remove_assets_ok:
  assumes "inventory_ok E {} db"
  shows "inventory_ok E {} (remove_assets h (bury W h suppress db))"
proof -
  let ?b = "bury W h suppress db"
  have gone: "i \<in> set (map at_ID (filter (\<lambda>a. at_Hostname a = h) (db_assets db))) \<longleftrightarrow> at_Hostname a = h"
    if "a \<in> set (db_assets db)" "at_ID a = i" for a i
    using that assms distinct_map_eq [of at_ID "db_assets db"] by (fastforce simp: inventory_ok_def identified_def)
  have ident: "identified E (remove_assets h ?b)"
    using assms
    by (auto simp: inventory_ok_def identified_def remove_assets_def bury_def Let_def distinct_map_filter tombstone_generation_def
        AList.update_conv')
  have link: "linked {} (remove_assets h ?b)"
    using assms gone
    by (fastforce simp: inventory_ok_def linked_def remove_assets_def bury_def Let_def membership_of_def)
  have "buried (remove_assets h ?b)"
    using assms by (auto simp: inventory_ok_def buried_def remove_assets_def bury_def Let_def AList.update_conv')
  moreover have "sourced (remove_assets h ?b)"
    unfolding sourced_def
  proof
    fix x assume "x \<in> set (db_sources (remove_assets h ?b))"
    then have x: "x \<in> set (db_sources db)" "so_AssetID x \<notin> set (map at_ID (filter (\<lambda>a. at_Hostname a = h) (db_assets db)))"
      by (auto simp: remove_assets_def bury_def Let_def)
    then obtain a where a: "a \<in> set (db_assets db)" "at_ID a = so_AssetID x"
      using assms by (auto simp: inventory_ok_def sourced_def asset_known_def list_ex_iff)
    then have "at_Hostname a \<noteq> h" using gone x(2) by blast
    with a show "asset_known (so_AssetID x) (remove_assets h ?b)"
      by (auto simp: asset_known_def remove_assets_def bury_def Let_def list_ex_iff)
  qed
  ultimately show ?thesis using ident link by (simp add: inventory_ok_def)
qed

lemma DeleteInventory_cases:
  assumes "DeleteInventory W h suppress db = (db', r)"
  obtains e where "db' = db" "r = Inl e"
  | "db' = remove_assets h (bury W h suppress db)" "r = Inr (tombstone_generation h (bury W h suppress db))"
  using assms by (auto simp: DeleteInventory_def transaction_def and_then_Inr_iff lockInventoryHostname_def Let_def split: sum.splits)

section \<open>Reachable inventories\<close>

text \<open>One call of the service, or one publication inside the transaction of a collection or a report; only
  names in \<open>D\<close> are deleted.\<close>

inductive inventory_step :: "inventory_env \<Rightarrow> search_codec \<Rightarrow> string set \<Rightarrow> inventory_db \<Rightarrow> inventory_db \<Rightarrow> bool" for E C D where
  step_import: "Import_chunk E marshal (Some (ImportInventoryChunk W)) now ctx req db = (db', r) \<Longrightarrow> inventory_step E C D db db'"
| step_scopes: "RegisterInventoryScopes E W roots db = (db', e) \<Longrightarrow> inventory_step E C D db db'"
| step_ct: "upsertCTInventory E W record t db = Inr db' \<Longrightarrow> inventory_step E C D db db'"
| step_report: "publishReportInventory E dv W rep selection db = Inr db' \<Longrightarrow> inventory_step E C D db db'"
| step_archive: "ArchiveAsset E (Some (postgres_inventory E C W)) raw flag db = (db', r) \<Longrightarrow> inventory_step E C D db db'"
| step_delete: "DeleteAsset E (Some (postgres_inventory E C W)) raw suppress db = (db', n) \<Longrightarrow>
    (\<forall>h v. NormalizeHostname E raw = Inr (h, v) \<longrightarrow> h \<in> D) \<Longrightarrow> inventory_step E C D db db'"

abbreviation "inventory_run E C D \<equiv> (inventory_step E C D)\<^sup>*\<^sup>*"

lemma RegisterInventoryScopes_ok:
  assumes "RegisterInventoryScopes E W raws db = (db', e)" "inventory_ok E {} db"
  shows "inventory_ok E {} db' \<and> db_tombstones db' = db_tombstones db \<and> db_chunks db' = db_chunks db"
proof (cases "raws = [] \<or> length raws > 32")
  case False
  let ?names = "map_result (\<lambda>raw. and_then (NormalizeHostname E raw) (\<lambda>(root, _). Inr root)) raws"
  show ?thesis
  proof (cases ?names)
    case (Inr roots)
    have valid: "\<forall>root \<in> set (sort roots). validDNSName root"
      using map_result_set [OF Inr] NormalizeHostname_valid by (fastforce simp: and_then_Inr_iff)
    have "db' = db \<or> register_roots W ''register inventory scope'' ''backfill inventory scope'' (sort roots) db = Inr db'"
      using assms(1) False Inr
      by (auto simp: RegisterInventoryScopes_def transaction_def and_then_Inr_iff split: sum.splits prod.splits if_splits)
    then show ?thesis using register_roots_ok [OF _ assms(2) valid] register_roots_tombstones assms(2) by auto
  qed (use assms False in \<open>auto simp: RegisterInventoryScopes_def split: if_splits\<close>)
qed (use assms in \<open>auto simp: RegisterInventoryScopes_def\<close>)

lemma ArchiveAsset_ok:
  assumes "ArchiveAsset E (Some (postgres_inventory E C W)) raw flag db = (db', r)" "inventory_ok E {} db"
  shows "inventory_ok E {} db' \<and> db_tombstones db' = db_tombstones db"
  using assms ArchiveInventory_ok
  by (auto simp: ArchiveAsset_def postgres_inventory_def split: sum.splits prod.splits)

lemma DeleteAsset_cases:
  assumes "DeleteAsset E (Some (postgres_inventory E C W)) raw suppress db = (db', r)"
  obtains e where "db' = db" "r = Inl e"
  | h v where "NormalizeHostname E raw = Inr (h, v)" "db' = remove_assets h (bury W h suppress db)"
      "r = Inr (tombstone_generation h (bury W h suppress db))"
  using assms
  by (auto simp: DeleteAsset_def postgres_inventory_def split: sum.splits prod.splits elim!: DeleteInventory_cases)

lemma inventory_step_ok: "inventory_step E C D db db' \<Longrightarrow> inventory_ok E {} db \<Longrightarrow> inventory_ok E {} db'"
proof (induction rule: inventory_step.induct)
  case (step_delete W raw suppress db db' n)
  then show ?case using remove_assets_ok by (auto elim!: DeleteAsset_cases)
qed (auto dest: Import_chunk_ok RegisterInventoryScopes_ok upsertCTInventory_ok publishReportInventory_ok ArchiveAsset_ok)

lemma inventory_run_ok: "inventory_run E C D db db' \<Longrightarrow> inventory_ok E {} db \<Longrightarrow> inventory_ok E {} db'"
  by (induction rule: rtranclp_induct) (auto intro: inventory_step_ok)

text \<open>C20: In every inventory the service can reach there is one asset per name, identified by the hash of its
  name and stored under its search key, the memberships are exactly the pairs of an asset and a registered scope
  root it lies at or below, without repetition, every source belongs to an asset, and no name whose tombstone is
  suppressed has an asset. Transactions that fail anywhere are included.\<close>

theorem inventory_consistent:
  assumes "inventory_run E C UNIV empty_db db"
  shows "distinct (map at_Hostname (db_assets db)) \<and> (\<forall>a \<in> set (db_assets db). at_ID a = AssetID E (at_Hostname a)
        \<and> at_Reversed a = ReverseLabels (at_Hostname a))
    \<and> set (db_memberships db) = {\<lparr>mb_AssetID = at_ID a, mb_Root = root, mb_Hostname = at_Hostname a\<rparr> |a root.
        a \<in> set (db_assets db) \<and> root \<in> set (db_scopes db) \<and> at_or_below (at_Hostname a) root}
    \<and> distinct (db_memberships db)
    \<and> (\<forall>x \<in> set (db_sources db). \<exists>a \<in> set (db_assets db). so_AssetID x = at_ID a)
    \<and> (\<forall>a \<in> set (db_assets db). \<forall>t. map_of (db_tombstones db) (at_Hostname a) = Some t \<longrightarrow> \<not> tb_Suppressed t)"
proof -
  have ok: "identified E db" "linked {} db" "buried db" "sourced db"
    using inventory_run_ok [OF assms empty_ok] by (simp_all add: inventory_ok_def)
  have "set (db_memberships db) = {membership_of a root |a root.
        a \<in> set (db_assets db) \<and> root \<in> set (db_scopes db) \<and> at_or_below (at_Hostname a) root}"
    using ok(2) unfolding linked_def by fastforce
  then show ?thesis
    using ok(1,3,4) ok(2) unfolding membership_of_def identified_def linked_def buried_def sourced_def asset_known_def list_ex_iff
    by (simp add: eq_commute)
qed

end
