(* ===== verification/Inventory_Properties.thy ===== *)
theory Inventory_Properties
  imports Inventory_Invariant
begin

text \<open>
  What the inventory promises across transactions: a deletion is final until the name is discovered again,
  a suppressed name never is, a chunk is imported once, and a search that follows its cursors lists every
  matching asset once.
\<close>

section \<open>Deletion\<close>

lemma find_Some_in: "find P xs = Some x \<Longrightarrow> x \<in> set xs \<and> P x"
  by (auto simp: find_Some_iff)

lemma step_tombstones:
  assumes "inventory_step E C D db db'" "inventory_ok E {} db"
  shows "db_tombstones db' = db_tombstones db \<or> (\<exists>W h suppress. h \<in> D \<and> db' = remove_assets h (bury W h suppress db))"
  using assms
proof (induction rule: inventory_step.induct)
  case (step_delete W raw suppress db db' n)
  from step_delete(1) show ?case by (rule DeleteAsset_cases) (use step_delete in auto)
qed (auto dest: Import_chunk_ok RegisterInventoryScopes_ok upsertCTInventory_ok publishReportInventory_ok ArchiveAsset_ok)

lemma buried_generation:
  "tombstone_generation h (remove_assets k (bury W k suppress db)) = tombstone_generation h db + (if h = k then 1 else 0)"
  by (simp add: tombstone_generation_def remove_assets_def bury_def Let_def AList.update_conv' split: option.splits)

lemma run_generation:
  "inventory_run E C D db db' \<Longrightarrow> inventory_ok E {} db \<Longrightarrow> tombstone_generation h db \<le> tombstone_generation h db'"
proof (induction rule: rtranclp_induct)
  case (step db1 db2)
  have "tombstone_generation h db1 \<le> tombstone_generation h db2"
    using step_tombstones [OF step(2) inventory_run_ok [OF step(1) step.prems]]
    by (auto simp: buried_generation) (simp add: tombstone_generation_def)
  then show ?case using step by simp
qed simp

lemma run_tombstone:
  "inventory_run E C D db db' \<Longrightarrow> inventory_ok E {} db \<Longrightarrow> h \<notin> D \<Longrightarrow> map_of (db_tombstones db') h = map_of (db_tombstones db) h"
proof (induction rule: rtranclp_induct)
  case (step db1 db2)
  have "map_of (db_tombstones db2) h = map_of (db_tombstones db1) h"
    using step_tombstones [OF step(2) inventory_run_ok [OF step(1) step.prems(1)]] step.prems(2)
    by (auto simp: remove_assets_def bury_def Let_def AList.update_conv')
  then show ?case using step by simp
qed simp

text \<open>C19: A deletion is final. After the name of an asset is deleted no asset has it; an asset that is discovered
  under the name later has a larger generation, so that a report collected for the deleted asset is not published
  under it, whatever happened in between; and if the deletion suppressed the name, no import, certificate or
  report brings it back until it is deleted again without suppression.\<close>

theorem deletion_final:
  assumes before: "inventory_run E C UNIV empty_db db" and a: "a \<in> set (db_assets db)" "at_Hostname a = h"
    and deleted: "DeleteAsset E (Some (postgres_inventory E C W)) raw suppress db = (db1, Inr generation)"
    and name: "NormalizeHostname E raw = Inr (h, v)"
  shows "(\<forall>b \<in> set (db_assets db1). at_Hostname b \<noteq> h) \<and> at_Generation a < generation
    \<and> (\<forall>db2. inventory_run E C UNIV db1 db2 \<longrightarrow>
          (\<forall>b \<in> set (db_assets db2). at_Hostname b = h \<longrightarrow> generation \<le> at_Generation b)
          \<and> (\<forall>dv W' r raw' v' db3. report_hostname E r = Inr (Some raw') \<longrightarrow> NormalizeHostname E raw' = Inr (h, v') \<longrightarrow>
              publishReportInventory E dv W' r (Some \<lparr>is_AssetID = at_ID a, is_DeletionGeneration = at_Generation a\<rparr>) db2 = Inr db3 \<longrightarrow>
              db3 = db2))
    \<and> (suppress \<longrightarrow> (\<forall>db2. inventory_run E C (- {h}) db1 db2 \<longrightarrow> (\<forall>b \<in> set (db_assets db2). at_Hostname b \<noteq> h)))"
proof -
  have ok: "inventory_ok E {} db" by (rule inventory_run_ok [OF before empty_ok])
  have db1: "db1 = remove_assets h (bury W h suppress db)" and gen: "generation = tombstone_generation h (bury W h suppress db)"
    using deleted name by (auto elim!: DeleteAsset_cases)
  have ok1: "inventory_ok E {} db1" unfolding db1 by (rule remove_assets_ok [OF ok])
  have ag: "at_Generation a = tombstone_generation h db" using ok a by (auto simp: inventory_ok_def identified_def)
  have g1: "tombstone_generation h db1 = generation" "generation = tombstone_generation h db + 1"
    using buried_generation [of h h W suppress db] gen by (simp_all add: db1 remove_assets_def Let_def tombstone_generation_def)
  have later: "generation \<le> at_Generation b" if run: "inventory_run E C UNIV db1 db2" and b: "b \<in> set (db_assets db2)" "at_Hostname b = h" for db2 b
  proof -
    have "at_Generation b = tombstone_generation h db2"
      using inventory_run_ok [OF run ok1] b by (auto simp: inventory_ok_def identified_def)
    then show ?thesis using run_generation [OF run ok1, of h] g1(1) by simp
  qed
  have inert: "db3 = db2" if run: "inventory_run E C UNIV db1 db2" and r: "report_hostname E r = Inr (Some raw')" "NormalizeHostname E raw' = Inr (h, v')"
    and pub: "publishReportInventory E dv W' r (Some \<lparr>is_AssetID = at_ID a, is_DeletionGeneration = at_Generation a\<rparr>) db2 = Inr db3"
    for db2 dv W' r raw' v' db3
  proof -
    have "report_asset E W' h v' (Some \<lparr>is_AssetID = at_ID a, is_DeletionGeneration = at_Generation a\<rparr>) db2 = Inr (db', i) \<Longrightarrow> db' = db2 \<and> i = None" for db' i
      using later [OF run] ag g1(2)
      by (fastforce simp: report_asset_def and_then_Inr_iff split: option.splits if_splits dest!: find_Some_in)
    with pub r show ?thesis
      by (auto simp: publishReportInventory_def and_then_Inr_iff lockInventoryHostname_def split: prod.splits if_splits option.splits)
  qed
  have gone: "at_Hostname b \<noteq> h" if s: suppress and run: "inventory_run E C (- {h}) db1 db2" and b: "b \<in> set (db_assets db2)" for db2 b
  proof
    assume "at_Hostname b = h"
    moreover have "map_of (db_tombstones db2) h = map_of (db_tombstones db1) h" using run_tombstone [OF run ok1] by simp
    then have "\<exists>t. map_of (db_tombstones db2) h = Some t \<and> tb_Suppressed t"
      using s by (simp add: db1 remove_assets_def bury_def Let_def AList.update_conv')
    ultimately show False using inventory_run_ok [OF run ok1] b by (auto simp: inventory_ok_def buried_def)
  qed
  have now: "\<forall>b \<in> set (db_assets db1). at_Hostname b \<noteq> h" by (auto simp: db1 remove_assets_def Let_def)
  have older: "at_Generation a < generation" using ag g1(2) by simp
  show ?thesis by (intro conjI allI impI ballI) (use now older later inert gone in blast)+
qed

section \<open>Repeated chunks\<close>

lemma insert_asset_chunks: "insert_asset W op i h rv v db = Inr (db', b) \<Longrightarrow> db_chunks db' = db_chunks db"
  by (auto simp: insert_asset_def and_then_Inr_iff split: if_splits)

lemma upsert_chunks: "upsertInventorySighting W s k p v r l e c db = Inr db' \<Longrightarrow> db_chunks db' = db_chunks db"
  by (auto simp: upsertInventorySighting_def Let_def and_then_Inr_iff split: if_splits)

lemma import_sighting_chunks: "import_sighting W t s (counts, db) = Inr (counts', db') \<Longrightarrow> db_chunks db' = db_chunks db"
  by (auto simp: import_sighting_def and_then_Inr_iff lockInventoryHostname_def Let_def split: prod.splits bool.splits if_splits
      dest!: insert_asset_chunks upsert_chunks)

lemma import_sightings_chunks: "import_sightings W t ss (counts, db) = Inr (counts', db') \<Longrightarrow> db_chunks db' = db_chunks db"
  by (induction ss arbitrary: counts db) (auto simp: and_then_Inr_iff dest!: import_sighting_chunks)

lemma fresh_chunk_chunks:
  assumes "fresh_chunk W receipt hash roots ss t db = Inr (db', r)"
  shows "\<exists>counts. db_chunks db' = AList.update (ip_OperationID receipt, ip_ChunkID receipt) \<lparr>ck_Hash = hash, ck_Counts = counts\<rparr> (db_chunks db)
    \<and> r = receipt\<lparr>ip_Counts := counts\<rparr>"
  using assms
  by (auto simp: fresh_chunk_def and_then_Inr_iff dest!: import_sightings_chunks register_roots_tombstones)

text \<open>What a call does to the recorded chunks.\<close>

lemma ImportInventoryChunk_cases:
  assumes "ImportInventoryChunk W receipt hash roots ss t db = (db', r)"
  obtains e where "db' = db" "r = Inl e"
  | row where "db' = db" "map_of (db_chunks db) (ip_OperationID receipt, ip_ChunkID receipt) = Some row" "ck_Hash row = hash"
      "r = Inr (receipt\<lparr>ip_Counts := decode_counts (ck_Counts row) (ip_Counts receipt)\<rparr>)"
  | counts where "map_of (db_chunks db) (ip_OperationID receipt, ip_ChunkID receipt) = None"
      "db_chunks db' = AList.update (ip_OperationID receipt, ip_ChunkID receipt) \<lparr>ck_Hash = hash, ck_Counts = counts\<rparr> (db_chunks db)"
      "r = Inr (receipt\<lparr>ip_Counts := counts\<rparr>)"
proof (cases "map_of (db_chunks db) (ip_OperationID receipt, ip_ChunkID receipt)")
  case None
  then have "db' = db \<and> (\<exists>e. r = Inl e) \<or> (\<exists>r'. r = Inr r' \<and> fresh_chunk W receipt hash roots ss (tw_now W) db = Inr (db', r'))"
    using assms by (auto simp: ImportInventoryChunk_def transaction_def and_then_Inr_iff split: sum.splits)
  then show ?thesis using None that(1,3) fresh_chunk_chunks by blast
next
  case (Some row)
  then show ?thesis using assms that(1,2)
    by (auto simp: ImportInventoryChunk_def repeated_chunk_def transaction_def and_then_Inr_iff split: sum.splits if_splits)
qed

lemma step_chunks:
  "inventory_step E C D db db' \<Longrightarrow> map_of (db_chunks db) k = Some row \<Longrightarrow> map_of (db_chunks db') k = Some row"
proof (induction rule: inventory_step.induct)
  case (step_import marshal W now ctx req db db' r)
  show ?case
  proof (cases "prepare_import E marshal ctx req")
    case (Inr x)
    obtain receipt digest roots ss where x: "x = (receipt, digest, roots, ss)" by (metis prod_cases4)
    with step_import Inr have "ImportInventoryChunk W receipt digest roots ss now db = (db', r)" by (simp add: Import_chunk_def)
    then show ?thesis by (rule ImportInventoryChunk_cases) (use step_import(2) in \<open>auto simp: AList.update_conv'\<close>)
  qed (use step_import in \<open>simp add: Import_chunk_def\<close>)
next
  case (step_scopes W roots db db' e)
  then show ?case
    by (auto simp: RegisterInventoryScopes_def transaction_def and_then_Inr_iff split: sum.splits prod.splits if_splits
        dest!: register_roots_tombstones)
next
  case (step_ct W rc t db db')
  then show ?case
    by (auto simp: upsertCTInventory_def and_then_Inr_iff lockInventoryHostname_def Let_def split: sum.splits prod.splits if_splits
        dest!: insert_asset_chunks upsert_chunks)
next
  case (step_report dv W rep selection db db')
  have same: "report_asset E W h v selection db = Inr (db1, i) \<Longrightarrow> db_chunks db1 = db_chunks db" for h v db1 i
    by (auto simp: report_asset_def and_then_Inr_iff split: option.splits if_splits dest!: insert_asset_chunks)
  from step_report(1) show ?case
    by (rule publishReportInventory_cases) (use step_report(2) same in \<open>auto simp: put_projection_same dest!: upsert_chunks\<close>)
next
  case (step_archive W raw flag db db' r)
  then show ?case
    by (auto simp: ArchiveAsset_def postgres_inventory_def ArchiveInventory_def statement_def Let_def split: sum.splits prod.splits option.splits)
next
  case (step_delete W raw suppress db db' n)
  from step_delete(1) show ?case
    by (rule DeleteAsset_cases) (use step_delete(3) in \<open>auto simp: remove_assets_def bury_def Let_def\<close>)
qed

lemma run_chunks:
  "inventory_run E C D db db' \<Longrightarrow> map_of (db_chunks db) k = Some row \<Longrightarrow> map_of (db_chunks db') k = Some row"
  by (induction rule: rtranclp_induct) (auto intro: step_chunks)

lemma prepare_import_identity:
  assumes "prepare_import E marshal ctx req = Inr (receipt, digest, roots, ss)"
  shows "ip_OperationID receipt = iq_OperationID req" "ip_ChunkID receipt = iq_ChunkID req"
    "\<exists>c. marshal req = Inr c \<and> digest = ''sha256:'' @ iv_sha256 E c"
proof -
  have ok: "import_acceptable E marshal ctx req" using assms prepare_import_Inl [of E marshal ctx req] by auto
  obtain rs canonical where rs: "import_roots E (iq_ScopeRoots req) = Inr rs" "marshal req = Inr canonical"
    using ok import_roots_ok [of E "iq_ScopeRoots req"] by (auto simp: import_acceptable_def)
  show "ip_OperationID receipt = iq_OperationID req" "ip_ChunkID receipt = iq_ChunkID req"
    "\<exists>c. marshal req = Inr c \<and> digest = ''sha256:'' @ iv_sha256 E c"
    using assms prepare_import_Inr [OF ok rs] rs(2) by auto
qed

lemma decode_counts_zero: "ic_Suppressed c = 0 \<Longrightarrow> ic_Stale c = 0 \<Longrightarrow> decode_counts stored c = stored"
  by (simp add: decode_counts_def)

text \<open>C27: A chunk is imported once. After an import succeeded, any request under its operation and chunk leaves the
  inventory as it is, whatever happened in between and wherever it fails; it succeeds only if its encoding has the
  digest of the first, and is then answered with the first receipt.\<close>

theorem import_repeatable:
  assumes first: "Import_chunk E marshal (Some (ImportInventoryChunk W)) now ctx req db = (db1, Inr receipt)"
    and run: "inventory_run E C UNIV db1 db2"
    and key: "iq_OperationID req' = iq_OperationID req" "iq_ChunkID req' = iq_ChunkID req"
    and again: "Import_chunk E marshal (Some (ImportInventoryChunk W')) now' ctx' req' db2 = (db3, r)"
  shows "db3 = db2 \<and> (\<forall>receipt'. r = Inr receipt' \<longrightarrow> receipt' = receipt
    \<and> (\<exists>c c'. marshal req = Inr c \<and> marshal req' = Inr c' \<and> iv_sha256 E c' = iv_sha256 E c))"
proof -
  obtain rc digest roots ss where p: "prepare_import E marshal ctx req = Inr (rc, digest, roots, ss)"
    "ImportInventoryChunk W rc digest roots ss now db = (db1, Inr receipt)"
    using first by (auto simp: Import_chunk_def split: sum.splits)
  note pid = prepare_import_identity [OF p(1)] and zero = prepare_import_wf(3,4) [OF p(1)]
  have "\<exists>row. map_of (db_chunks db1) (iq_OperationID req, iq_ChunkID req) = Some row \<and> ck_Hash row = digest \<and> receipt = rc\<lparr>ip_Counts := ck_Counts row\<rparr>"
    using p(2) by (rule ImportInventoryChunk_cases) (use pid zero in \<open>auto simp: AList.update_conv' decode_counts_zero\<close>)
  then obtain row where row: "map_of (db_chunks db2) (iq_OperationID req, iq_ChunkID req) = Some row" "ck_Hash row = digest"
    "receipt = rc\<lparr>ip_Counts := ck_Counts row\<rparr>" using run_chunks [OF run] by blast
  show ?thesis
  proof (cases "prepare_import E marshal ctx' req'")
    case (Inr x)
    obtain rc' digest' roots' ss' where x: "x = (rc', digest', roots', ss')" by (metis prod_cases4)
    note q = Inr [unfolded x]
    have call: "ImportInventoryChunk W' rc' digest' roots' ss' now' db2 = (db3, r)" using again q by (simp add: Import_chunk_def)
    have same: "rc'\<lparr>ip_Counts := c\<rparr> = rc\<lparr>ip_Counts := c\<rparr>" for c
      using prepare_import_identity(1,2) [OF q] pid(1,2) key by simp
    from call show ?thesis
      by (rule ImportInventoryChunk_cases)
        (use row key pid prepare_import_identity [OF q] prepare_import_wf(3,4) [OF q] same in \<open>auto simp: decode_counts_zero\<close>)
  qed (use again in \<open>auto simp: Import_chunk_def\<close>)
qed

end
