(* ===== verification/Inventory_Paging.thy ===== *)
theory Inventory_Paging
  imports Inventory_Properties
begin

text \<open>
  What a search of the inventory returns: the condition SQL evaluates is the one the search mode names, a page
  holds the next matching assets in the order of their names, and its cursor continues after the last of them.
\<close>

section \<open>Matching\<close>

text \<open>What the search modes mean.\<close>

definition mode_matches :: "search_request \<Rightarrow> string \<Rightarrow> bool" where
  "mode_matches req h =
     (if sq_Mode req = SearchExact then h = sq_Query req
      else if sq_Mode req = SearchDescendant then at_or_below h (sq_Query req) \<and> h \<noteq> sq_Query req
      else if sq_Mode req = SearchPrefix then has_prefix h (sq_Query req)
      else if sq_Mode req = SearchPartial then contains h (sq_Query req)
      else True)"

definition search_matches :: "search_request \<Rightarrow> inventory_db \<Rightarrow> asset_row \<Rightarrow> bool" where
  "search_matches req db a \<longleftrightarrow>
     (sq_IncludeArchived req \<or> at_ArchivedAt a = None)
     \<and> (sq_ScopeRoot req \<noteq> [] \<longrightarrow> sq_ScopeRoot req \<in> set (db_scopes db) \<and> at_or_below (at_Hostname a) (sq_ScopeRoot req))
     \<and> mode_matches req (at_Hostname a)"

lemma reverse_key_inj: "ReverseLabels h = ReverseLabels root \<longleftrightarrow> h = root"
proof
  assume eq: "ReverseLabels h = ReverseLabels root"
  then have "at_or_below h root" "at_or_below root h"
    using reverse_key_prefix [of h root] reverse_key_prefix [of root h] by (auto simp: has_prefix_iff)
  then obtain ls ms where "split_on CHR ''.'' h = ls @ split_on CHR ''.'' root" "split_on CHR ''.'' root = ms @ split_on CHR ''.'' h"
    unfolding at_or_below_def by blast
  then have "split_on CHR ''.'' h = (ls @ ms) @ split_on CHR ''.'' h" "split_on CHR ''.'' h = ls @ split_on CHR ''.'' root" by simp_all
  then have "split_on CHR ''.'' h = split_on CHR ''.'' root" by (simp only: self_append_conv2 append_is_Nil_conv) simp
  then show "h = root" by (metis join_split_on)
qed simp

lemma sql_like_prefix: "sql_like (escapeInventoryLike q @ ''%'') s \<longleftrightarrow> has_prefix s q"
  unfolding sql_like_escaped has_prefix_iff using sql_like_rest by blast

lemma sql_like_contains: "sql_like (''%'' @ escapeInventoryLike q @ ''%'') s \<longleftrightarrow> contains s q"
proof -
  have "sql_like (''%'' @ escapeInventoryLike q @ ''%'') s \<longleftrightarrow> (\<exists>u t. s = u @ t \<and> sql_like (escapeInventoryLike q @ ''%'') t)"
    using sql_like_any [of "escapeInventoryLike q @ ''%''" s] by (simp del: sql_like.simps)
  then show ?thesis unfolding sql_like_prefix by (auto simp: contains_iff has_prefix_iff)
qed

lemma join_superset: "l \<in> set ls \<Longrightarrow> set l \<subseteq> set (join sep ls)"
  by (induction sep ls rule: join.induct) auto

lemma ReverseLabels_plain:
  assumes "plain_name q"
  shows "plain_name (ReverseLabels q)"
proof -
  have "set (ReverseLabels q) \<subseteq> insert CHR ''.'' (\<Union>(set ` set (split_on CHR ''.'' q)))"
    using join_chars [of "CHR ''.''" "rev (split_on CHR ''.'' q)"] by (auto simp: ReverseLabels_def)
  also have "\<dots> \<subseteq> insert CHR ''.'' (set q)"
    using join_superset [of _ "split_on CHR ''.'' q" "''.''"] by (auto simp: join_split_on)
  finally show ?thesis using assms by (auto simp: plain_name_def)
qed

text \<open>The condition of the query is the condition of the mode.\<close>

lemma predicate_matches:
  assumes "at_Reversed a = ReverseLabels (at_Hostname a)" "sq_Mode req = SearchDescendant \<Longrightarrow> plain_name (sq_Query req)"
  shows "inventorySearchPredicate req a \<longleftrightarrow> mode_matches req (at_Hostname a)"
proof (cases "sq_Mode req = SearchDescendant")
  case True
  let ?key = "ReverseLabels (sq_Query req)"
  have "sql_like (?key @ ''%'') (at_Reversed a) \<longleftrightarrow> at_or_below (at_Hostname a) (sq_Query req)"
    using sql_like_prefix [of ?key] escape_plain [OF ReverseLabels_plain] assms True by (simp add: reverse_key_prefix del: sql_like.simps)
  then show ?thesis
    using True assms(1) by (simp add: inventorySearchPredicate_def mode_matches_def Let_def reverse_key_inj del: sql_like.simps)
next
  case False
  have "[] \<le> h" for h :: string by simp
  with False show ?thesis
    unfolding inventorySearchPredicate_def mode_matches_def sql_like_prefix sql_like_contains by simp
qed

section \<open>Pages\<close>

lemma filter_key_single:
  "distinct (map f xs) \<Longrightarrow> x \<in> set xs \<Longrightarrow> filter (\<lambda>y. f y = f x) xs = [x]"
  by (induction xs) (auto simp: filter_empty_conv image_iff)

text \<open>The candidate rows are those of the scope, each once, under the name they are ordered by.\<close>

lemma search_candidates_exact:
  assumes "inventory_ok E {} db"
  shows "set (search_candidates req db) = {(at_Hostname a, a) |a. a \<in> set (db_assets db)
      \<and> (sq_ScopeRoot req \<noteq> [] \<longrightarrow> sq_ScopeRoot req \<in> set (db_scopes db) \<and> at_or_below (at_Hostname a) (sq_ScopeRoot req))}
    \<and> distinct (map fst (search_candidates req db))"
proof (cases "sq_ScopeRoot req = []")
  case True
  then show ?thesis using assms by (auto simp: search_candidates_def inventory_ok_def identified_def comp_def)
next
  case False
  have ident: "identified E db" and link: "linked {} db" using assms by (simp_all add: inventory_ok_def)
  define ms where "ms = filter (\<lambda>m. mb_Root m = sq_ScopeRoot req) (db_memberships db)"
  define row where "row = (\<lambda>m. SOME a. a \<in> set (db_assets db) \<and> m = membership_of a (mb_Root m))"
  have row: "row m \<in> set (db_assets db) \<and> m = membership_of (row m) (mb_Root m)" if "m \<in> set (db_memberships db)" for m
  proof -
    have "\<exists>a. a \<in> set (db_assets db) \<and> m = membership_of a (mb_Root m)"
      using linked_member [OF link that] by (auto simp: membership_of_def)
    then show ?thesis unfolding row_def by (rule someI_ex)
  qed
  have facts: "mb_AssetID m = at_ID (row m)" "mb_Hostname m = at_Hostname (row m)" if "m \<in> set (db_memberships db)" for m
    using row [OF that] by (metis membership_of_def membership_row.select_convs)+
  have inner: "map (\<lambda>a. (if sq_Mode req = SearchDescendant then at_Hostname a else mb_Hostname m, a))
      (filter (\<lambda>a. at_ID a = mb_AssetID m) (db_assets db)) = [(at_Hostname (row m), row m)]" if "m \<in> set ms" for m
    using that filter_key_single [of at_ID "db_assets db" "row m"] ident row [of m] facts [of m]
    by (simp add: ms_def identified_def)
  have cands: "search_candidates req db = map (\<lambda>m. (at_Hostname (row m), row m)) ms"
  proof -
    have "search_candidates req db = concat (map (\<lambda>m. [(at_Hostname (row m), row m)]) ms)"
      using False inner by (simp add: search_candidates_def ms_def [symmetric] cong: map_cong)
    then show ?thesis by (simp add: concat_map_singleton)
  qed
  have "inj_on (\<lambda>m. at_Hostname (row m)) (set ms)"
  proof
    fix m n assume mn: "m \<in> set ms" "n \<in> set ms" "at_Hostname (row m) = at_Hostname (row n)"
    then have in_db: "m \<in> set (db_memberships db)" "n \<in> set (db_memberships db)" "mb_Root m = mb_Root n" by (auto simp: ms_def)
    then have "row m = row n"
      using row mn(3) ident distinct_map_eq [of at_Hostname "db_assets db"] unfolding identified_def by blast
    then show "m = n" using row in_db by metis
  qed
  then have dist: "distinct (map fst (search_candidates req db))"
    using link by (simp add: cands distinct_map comp_def ms_def linked_def)
  have own: "row (membership_of a (sq_ScopeRoot req)) = a"
    if "a \<in> set (db_assets db)" "membership_of a (sq_ScopeRoot req) \<in> set (db_memberships db)" for a
    using row [OF that(2)] that(1) ident distinct_map_eq [of at_ID "db_assets db"] facts(1) [OF that(2)]
    by (simp add: identified_def membership_of_def)
  have "a \<in> row ` set ms \<longleftrightarrow> a \<in> set (db_assets db) \<and> sq_ScopeRoot req \<in> set (db_scopes db) \<and> at_or_below (at_Hostname a) (sq_ScopeRoot req)" for a
  proof
    assume "a \<in> row ` set ms"
    then obtain m where m: "m \<in> set (db_memberships db)" "mb_Root m = sq_ScopeRoot req" "a = row m" by (auto simp: ms_def)
    then obtain b root where b: "b \<in> set (db_assets db)" "root \<in> set (db_scopes db)" "at_or_below (at_Hostname b) root" "m = membership_of b root"
      using link unfolding linked_def by blast
    then have "b = a" using row [OF m(1)] m(3) ident distinct_map_eq [of at_ID "db_assets db" a b] facts(1) [OF m(1)]
      by (simp add: identified_def membership_of_def)
    then show "a \<in> set (db_assets db) \<and> sq_ScopeRoot req \<in> set (db_scopes db) \<and> at_or_below (at_Hostname a) (sq_ScopeRoot req)"
      using b m(2) by (simp add: membership_of_def)
  next
    assume a: "a \<in> set (db_assets db) \<and> sq_ScopeRoot req \<in> set (db_scopes db) \<and> at_or_below (at_Hostname a) (sq_ScopeRoot req)"
    then have "membership_of a (sq_ScopeRoot req) \<in> set ms"
      using link unfolding linked_def by (simp add: ms_def membership_of_def)
    then show "a \<in> row ` set ms" using own a by (force simp: ms_def)
  qed
  then have rows: "row ` set ms = {a \<in> set (db_assets db). sq_ScopeRoot req \<in> set (db_scopes db) \<and> at_or_below (at_Hostname a) (sq_ScopeRoot req)}"
    by blast
  have "set (search_candidates req db) = (\<lambda>a. (at_Hostname a, a)) ` (row ` set ms)" by (simp add: cands image_image)
  then have "set (search_candidates req db) = {(at_Hostname a, a) |a. a \<in> set (db_assets db) \<and> sq_ScopeRoot req \<in> set (db_scopes db)
      \<and> at_or_below (at_Hostname a) (sq_ScopeRoot req)}"
    unfolding rows by blast
  then show ?thesis using False dist by simp
qed

definition search_names :: "search_request \<Rightarrow> inventory_db \<Rightarrow> string list" where
  "search_names req db = sorted_list_of_set (at_Hostname ` {a \<in> set (db_assets db). search_matches req db a})"

lemma search_names_facts: "sorted (search_names req db)" "distinct (search_names req db)"
  "set (search_names req db) = at_Hostname ` {a \<in> set (db_assets db). search_matches req db a}"
  by (simp_all add: search_names_def)

lemma search_rows_exact:
  assumes ok: "inventory_ok E {} db" and plain: "sq_Mode req = SearchDescendant \<Longrightarrow> plain_name (sq_Query req)"
  shows "map at_Hostname (search_rows req after db) = take (nat (sq_Limit req + 1)) (filter (\<lambda>h. after < h) (search_names req db))
    \<and> set (search_rows req after db) \<subseteq> {a \<in> set (db_assets db). search_matches req db a}"
proof -
  define L where "L = filter (\<lambda>(h, a). after < h \<and> (sq_IncludeArchived req \<or> at_ArchivedAt a = None) \<and> inventorySearchPredicate req a)
          (search_candidates req db)"
  have cands: "set (search_candidates req db) = {(at_Hostname a, a) |a. a \<in> set (db_assets db)
      \<and> (sq_ScopeRoot req \<noteq> [] \<longrightarrow> sq_ScopeRoot req \<in> set (db_scopes db) \<and> at_or_below (at_Hostname a) (sq_ScopeRoot req))}"
    "distinct (map fst (search_candidates req db))" using search_candidates_exact [OF ok] by auto
  have pred: "inventorySearchPredicate req a \<longleftrightarrow> mode_matches req (at_Hostname a)" if "a \<in> set (db_assets db)" for a
    using that ok plain by (intro predicate_matches) (auto simp: inventory_ok_def identified_def)
  have L: "set L = {(at_Hostname a, a) |a. a \<in> set (db_assets db) \<and> search_matches req db a \<and> after < at_Hostname a}"
    using pred by (auto simp: L_def cands(1) search_matches_def)
  have "distinct (map fst L)" using cands(2) unfolding L_def by (rule distinct_map_filter)
  then have dist: "distinct (map fst (sort_key fst L))"
    using mset_eq_imp_distinct_iff [of "map fst (sort_key fst L)" "map fst L"] by simp
  have "fst ` set L = {h \<in> set (search_names req db). after < h}"
    unfolding L search_names_facts(3) by force
  then have "map fst (sort_key fst L) = filter (\<lambda>h. after < h) (search_names req db)"
    using search_names_facts(1,2) [of req db] dist
    by (intro sorted_distinct_set_unique) (simp_all add: sorted_wrt_filter)
  moreover have "map at_Hostname (map snd (sort_key fst L)) = map fst (sort_key fst L)" using L by auto
  ultimately have "map at_Hostname (map snd (sort_key fst L)) = filter (\<lambda>h. after < h) (search_names req db)" by simp
  then show ?thesis
    using L by (auto simp: search_rows_def L_def [symmetric] take_map [symmetric] dest!: in_set_takeD)
qed

end
