(* ===== verification/Inventory_Validation.thy ===== *)
theory Inventory_Validation
  imports Inventory_Paging
begin

text \<open>
  Package internal/inventory: the admission of known assets for collection (validation.go). A selection is
  followed page by page; the loop ends when a page has no cursor, so that it is a \<open>partial_function\<close>: with a store
  that always returns one it would not.
\<close>

section \<open>The validator\<close>

record validation_request =
  vr_IdempotencyKey :: string
  vr_BundleID :: string
  vr_Mode :: analysis_mode
  vr_AssetIDs :: "string list"
  vr_Selection :: "search_request option"
  vr_ScopeRoot :: string

record 's validator =
  va_inventory :: "(search_request \<Rightarrow> go_error + asset_page) option"
  va_assets :: "(string \<Rightarrow> go_error + asset) option"
  va_jobs :: "(submit_request \<Rightarrow> 's \<Rightarrow> 's \<times> (go_error + job)) option"

abbreviation "too_many_assets \<equiv> NewError CodeInvalidOptions ''validation selection exceeds 1000 assets'' None"

partial_function (option) select_pages ::
    "(search_request \<Rightarrow> go_error + asset_page) \<Rightarrow> search_request \<Rightarrow> asset list \<Rightarrow> (go_error + asset list) option" where
  "select_pages search selection assets =
     (case search selection of
        Inl e \<Rightarrow> Some (Inl e)
      | Inr page \<Rightarrow>
          (let assets = assets @ pg_Items page in
           if length assets > 1000 \<or> length assets = 1000 \<and> pg_NextCursor page \<noteq> [] then Some (Inl too_many_assets)
           else if pg_NextCursor page = [] then Some (Inr assets)
           else select_pages search (selection\<lparr>sq_Cursor := pg_NextCursor page\<rparr>) assets))"

fun select_ids :: "(string \<Rightarrow> go_error + asset) \<Rightarrow> string \<Rightarrow> string list \<Rightarrow> go_error + asset list" where
  "select_ids read scope [] = Inr []"
| "select_ids read scope (i # ids) =
     and_then (read i) (\<lambda>asset.
       if as_ArchivedAt asset \<noteq> None
       then Inl (NewError CodeInvalidOptions ''archived assets need explicit restoration before validation'' None)
       else if scope \<noteq> [] \<and> scope \<notin> set (as_Scopes asset)
       then Inl (NewError CodeInvalidOptions ''asset is outside the selected scope'' None)
       else and_then (select_ids read scope ids) (\<lambda>assets. Inr (asset # assets)))"

text \<open>\<open>slices.CompactFunc\<close> with equality of identifiers.\<close>

fun compact_assets :: "asset list \<Rightarrow> asset list" where
  "compact_assets (a # b # as) = (if as_ID a = as_ID b then compact_assets (a # as) else a # compact_assets (b # as))"
| "compact_assets as = as"

definition validation_target :: "validation_request \<Rightarrow> asset \<Rightarrow> analyze_request" where
  "validation_target req a = zero_analyze_request\<lparr>ar_Target := as_Hostname a, ar_Kind := TargetDomain, ar_Mode := vr_Mode req,
     ar_IncludeWWW := Some False, ar_CTDiscovery := False,
     ar_ScopeRoots := (if vr_ScopeRoot req \<noteq> [] then [vr_ScopeRoot req] else [])\<rparr>"

definition validation_submit :: "string \<Rightarrow> validation_request \<Rightarrow> asset list \<Rightarrow> submit_request" where
  "validation_submit operatorID req assets =
     \<lparr>sr_OperatorID = operatorID, sr_IdempotencyKey = vr_IdempotencyKey req, sr_BundleID = vr_BundleID req,
      sr_Targets = map (validation_target req) assets, sr_Reclassifications = [],
      sr_InventorySelections = map (\<lambda>a. \<lparr>is_AssetID = as_ID a, is_DeletionGeneration = as_DeletionGeneration a\<rparr>) assets\<rparr>"

definition validation_selection :: "validation_request \<Rightarrow> search_request \<Rightarrow> search_request" where
  "validation_selection req selection =
     (let selection = selection\<lparr>sq_Cursor := [], sq_IncludeArchived := False, sq_Limit := 100\<rparr>
      in if vr_ScopeRoot req \<noteq> [] then selection\<lparr>sq_ScopeRoot := vr_ScopeRoot req\<rparr> else selection)"

definition validation_scope :: "inventory_env \<Rightarrow> validation_request \<Rightarrow> go_error + validation_request" where
  "validation_scope E req =
     (if vr_ScopeRoot req \<noteq> [] then
        (case NormalizeHostname E (vr_ScopeRoot req) of Inl e \<Rightarrow> Inl e | Inr (root, _) \<Rightarrow> Inr (req\<lparr>vr_ScopeRoot := root\<rparr>))
      else Inr req)"

definition selected_assets ::
    "(search_request \<Rightarrow> go_error + asset_page) \<Rightarrow> (string \<Rightarrow> go_error + asset) \<Rightarrow> validation_request \<Rightarrow> (go_error + asset list) option" where
  "selected_assets search read req =
     (case vr_Selection req of
        Some selection \<Rightarrow> select_pages search (validation_selection req selection) []
      | None \<Rightarrow> Some (select_ids read (vr_ScopeRoot req) (vr_AssetIDs req)))"

definition admit_assets :: "(submit_request \<Rightarrow> 's \<Rightarrow> 's \<times> (go_error + job)) \<Rightarrow> string \<Rightarrow> validation_request \<Rightarrow> asset list \<Rightarrow> 's \<Rightarrow> 's \<times> (go_error + job)" where
  "admit_assets submit operatorID req assets s =
     (if assets = [] then (s, Inl (NewError CodeInvalidOptions ''validation selected no assets'' None))
      else submit (validation_submit operatorID req (compact_assets (sort_key as_Hostname assets))) s)"

definition validation_bounded :: "string \<Rightarrow> validation_request \<Rightarrow> bool" where
  "validation_bounded operatorID req =
     (\<not> (operatorID = [] \<or> vr_IdempotencyKey req = [] \<or> (vr_Mode req \<noteq> ModeDNS \<and> vr_Mode req \<noteq> ModeFull)
         \<or> (vr_AssetIDs req = []) = (vr_Selection req = None) \<or> length (vr_AssetIDs req) > 1000))"

definition ValidateAssets ::
    "inventory_env \<Rightarrow> 's validator \<Rightarrow> string \<Rightarrow> validation_request \<Rightarrow> 's \<Rightarrow> ('s \<times> (go_error + job)) option" where
  "ValidateAssets E v operatorID req s =
     (case (va_inventory v, va_assets v, va_jobs v) of
        (Some search, Some read, Some submit) \<Rightarrow>
          if \<not> validation_bounded operatorID req
          then Some (s, Inl (NewError CodeInvalidOptions ''validation requires one bounded selection and DNS or full mode'' None))
          else (case validation_scope E req of
              Inl e \<Rightarrow> Some (s, Inl e)
            | Inr req \<Rightarrow>
                (case selected_assets search read req of
                   None \<Rightarrow> None
                 | Some (Inl e) \<Rightarrow> Some (s, Inl e)
                 | Some (Inr assets) \<Rightarrow> Some (admit_assets submit operatorID req assets s)))
      | _ \<Rightarrow> Some (s, Inl (NewError CodeCapabilityUnavailable ''inventory validation is unavailable'' None)))"

section \<open>Following the cursors\<close>

text \<open>What a cursor codec must do for the cursors the code makes, whose filter is the digest of a search and whose
  name is a host name: give back what it was given, within the length a cursor may have.\<close>

definition cursor_codec :: "inventory_env \<Rightarrow> search_codec \<Rightarrow> bool" where
  "cursor_codec E C \<longleftrightarrow>
     (\<forall>req h. validDNSName h \<and> length h \<le> 253 \<longrightarrow>
        (let c = \<lparr>pc_Filter = searchFingerprint E C req, pc_After = h\<rparr>
         in co_unbase64 C (co_base64 C (co_cursor C c)) = Inr (co_cursor C c) \<and> co_uncursor C (co_cursor C c) = Some c
            \<and> NextCursor E C req h \<noteq> [] \<and> length (NextCursor E C req h) \<le> 1024))"

lemma NextCursor_cursor [simp]: "NextCursor E C (req\<lparr>sq_Cursor := c\<rparr>) h = NextCursor E C req h"
  by (simp add: NextCursor_def searchFingerprint_def)

lemma search_matches_same: "search_matches (req\<lparr>sq_Cursor := c\<rparr>) db = search_matches req db"
  by (rule ext, cases req) (simp only: search_matches_def mode_matches_def search_request.simps)

lemma search_cursor_continue:
  assumes "cursor_codec E C" "NormalizeHostname E h = Inr (h, v)" "h \<noteq> []" "length h \<le> 253"
  shows "search_cursor E C (req\<lparr>sq_Cursor := NextCursor E C req h\<rparr>) = Inr (req\<lparr>sq_Cursor := NextCursor E C req h\<rparr>, h)"
proof -
  let ?n = "NextCursor E C req h"
  have "validDNSName h" using assms(2) NormalizeHostname_valid by blast
  with assms(1,4) have codec: "co_unbase64 C (co_base64 C (co_cursor C \<lparr>pc_Filter = searchFingerprint E C req, pc_After = h\<rparr>))
      = Inr (co_cursor C \<lparr>pc_Filter = searchFingerprint E C req, pc_After = h\<rparr>)"
    "co_uncursor C (co_cursor C \<lparr>pc_Filter = searchFingerprint E C req, pc_After = h\<rparr>) = Some \<lparr>pc_Filter = searchFingerprint E C req, pc_After = h\<rparr>"
    and n: "?n \<noteq> []" "length ?n \<le> 1024"
    unfolding cursor_codec_def Let_def by blast+
  have "co_unbase64 C ?n = Inr (co_cursor C \<lparr>pc_Filter = searchFingerprint E C req, pc_After = h\<rparr>)"
    "co_uncursor C (co_cursor C \<lparr>pc_Filter = searchFingerprint E C req, pc_After = h\<rparr>) = Some \<lparr>pc_Filter = searchFingerprint E C req, pc_After = h\<rparr>"
    using codec by (simp_all add: NextCursor_def)
  moreover have "searchFingerprint E C (req\<lparr>sq_Cursor := ?n\<rparr>) = searchFingerprint E C req" by (simp add: searchFingerprint_def)
  ultimately show ?thesis using n assms(2-4) by (simp add: search_cursor_def Let_def not_less)
qed

text \<open>A cursor continues the search it was made for.\<close>

lemma search_scope_cursor:
  "search_scope E (req\<lparr>sq_Cursor := c\<rparr>) = (case search_scope E req of Inl e \<Rightarrow> Inl e | Inr r \<Rightarrow> Inr (r\<lparr>sq_Cursor := c\<rparr>))"
  by (auto simp: search_scope_def split: sum.splits)

lemma search_query_cursor:
  "search_query E (req\<lparr>sq_Cursor := c\<rparr>) = (case search_query E req of Inl e \<Rightarrow> Inl e | Inr r \<Rightarrow> Inr (r\<lparr>sq_Cursor := c\<rparr>))"
  by (auto simp: search_query_def Let_def split: sum.splits)

definition search_filters :: "inventory_env \<Rightarrow> search_request \<Rightarrow> go_error + search_request" where
  "search_filters E req =
     (let req = (if sq_Mode req = [] then req\<lparr>sq_Mode := SearchBrowse\<rparr> else req) in
      if sq_Mode req \<notin> {SearchBrowse, SearchExact, SearchDescendant, SearchPrefix, SearchPartial}
      then Inl (NewError CodeInvalidOptions ''unsupported inventory search mode'' None)
      else
        let req = (if sq_Limit req = 0 then req\<lparr>sq_Limit := 50\<rparr> else req) in
        if sq_Limit req < 1 \<or> sq_Limit req > 100
        then Inl (NewError CodeInvalidOptions ''inventory page limit must be between 1 and 100'' None)
        else and_then (search_scope E req) (search_query E))"

lemma PrepareSearch_filters: "PrepareSearch E C req = and_then (search_filters E req) (search_cursor E C)"
  by (simp add: PrepareSearch_def search_filters_def Let_def and_then_def split: sum.splits)

lemma search_filters_cursor:
  "search_filters E (req\<lparr>sq_Cursor := c\<rparr>) = (case search_filters E req of Inl e \<Rightarrow> Inl e | Inr r \<Rightarrow> Inr (r\<lparr>sq_Cursor := c\<rparr>))"
proof -
  have commute: "r\<lparr>sq_Cursor := c, sq_Mode := m\<rparr> = r\<lparr>sq_Mode := m, sq_Cursor := c\<rparr>"
    "r\<lparr>sq_Cursor := c, sq_Limit := l\<rparr> = r\<lparr>sq_Limit := l, sq_Cursor := c\<rparr>" for r m l
    by simp_all
  have settled: "and_then (search_scope E (r\<lparr>sq_Cursor := c\<rparr>)) (search_query E)
      = (case and_then (search_scope E r) (search_query E) of Inl e \<Rightarrow> Inl e | Inr r \<Rightarrow> Inr (r\<lparr>sq_Cursor := c\<rparr>))" for r
    by (simp add: search_scope_cursor and_then_def search_query_cursor split: sum.splits)
  show ?thesis
    by (cases "sq_Mode req = []"; cases "sq_Limit req = 0") (simp_all add: search_filters_def Let_def settled commute)
qed

lemma prepare_without_cursor:
  assumes "PrepareSearch E C (req\<lparr>sq_Cursor := []\<rparr>) = Inr (prep, after)"
  obtains r where "search_filters E req = Inr r" "prep = r\<lparr>sq_Cursor := []\<rparr>" "after = []" "sq_Cursor prep = []"
  using assms by (cases "search_filters E req") (auto simp: PrepareSearch_filters search_filters_cursor search_cursor_def)

lemma prepare_continue:
  assumes "PrepareSearch E C (req\<lparr>sq_Cursor := []\<rparr>) = Inr (prep, [])"
    and "cursor_codec E C" "NormalizeHostname E h = Inr (h, v)" "h \<noteq> []" "length h \<le> 253"
  shows "PrepareSearch E C (req\<lparr>sq_Cursor := NextCursor E C prep h\<rparr>) = Inr (prep\<lparr>sq_Cursor := NextCursor E C prep h\<rparr>, h)"
proof -
  obtain r where "search_filters E req = Inr r" "prep = r\<lparr>sq_Cursor := []\<rparr>" using prepare_without_cursor [OF assms(1)] by blast
  then show ?thesis
    using search_cursor_continue [OF assms(2-5), of r]
    by (simp add: PrepareSearch_filters search_filters_cursor)
qed

definition fault_free :: "tx_world \<Rightarrow> bool" where
  "fault_free W \<longleftrightarrow> (\<forall>operation key. tw_fault W operation key = None)"

lemma fault_free_statement [simp]: "fault_free W \<Longrightarrow> statement W operation key x = Inr x"
  by (simp add: fault_free_def statement_def)

text \<open>A page as the service returns it.\<close>

definition page_assets :: "tx_world \<Rightarrow> inventory_db \<Rightarrow> asset_row list \<Rightarrow> asset list" where
  "page_assets W db rows = map (\<lambda>a. asset_facts W db (row_asset a)) rows"

lemma SearchInventory_page:
  assumes "fault_free W" "1 \<le> sq_Limit req"
  shows "SearchInventory E C W req after db =
    (let rows = search_rows req after db; n = nat (sq_Limit req) in
     Inr \<lparr>pg_Items = page_assets W db (if int (length rows) > sq_Limit req then take n rows else rows),
          pg_NextCursor = (if int (length rows) > sq_Limit req then NextCursor E C req (at_Hostname (last (take n rows))) else [])\<rparr>)"
proof -
  have populate: "populateInventoryFacts W db (map row_asset rows) = Inr (page_assets W db rows)" for rows
    using assms(1) by (simp add: populateInventoryFacts_def page_assets_def comp_def)
  have last_host: "as_Hostname (last (map row_asset rows)) = at_Hostname (last rows)" if "rows \<noteq> []" for rows
    using that by (simp add: last_map row_asset_def)
  show ?thesis
  proof (cases "int (length (search_rows req after db)) > sq_Limit req")
    case True
    then have "take (nat (sq_Limit req)) (search_rows req after db) \<noteq> []" using assms(2) by auto
    with True show ?thesis using assms populate last_host by (simp add: SearchInventory_def Let_def take_map)
  next
    case False
    then show ?thesis using assms populate by (simp add: SearchInventory_def Let_def)
  qed
qed

section \<open>The rows of a search in order\<close>

definition matching_rows :: "search_request \<Rightarrow> inventory_db \<Rightarrow> asset_row list" where
  "matching_rows req db = sort_key at_Hostname (filter (search_matches req db) (db_assets db))"

lemma matching_rows_facts:
  assumes "inventory_ok E {} db"
  shows "map at_Hostname (matching_rows req db) = search_names req db"
    "set (matching_rows req db) = {a \<in> set (db_assets db). search_matches req db a}"
proof -
  show rows: "set (matching_rows req db) = {a \<in> set (db_assets db). search_matches req db a}" by (simp add: matching_rows_def)
  have "distinct (map at_Hostname (filter (search_matches req db) (db_assets db)))"
    using assms by (intro distinct_map_filter) (simp add: inventory_ok_def identified_def)
  then have "distinct (map at_Hostname (matching_rows req db))"
    using mset_eq_imp_distinct_iff [of "map at_Hostname (matching_rows req db)" "map at_Hostname (filter (search_matches req db) (db_assets db))"]
    by (simp add: matching_rows_def)
  then show "map at_Hostname (matching_rows req db) = search_names req db"
    using search_names_facts [of req db] rows by (intro sorted_distinct_set_unique) (simp_all add: matching_rows_def)
qed

lemma search_rows_matching:
  assumes ok: "inventory_ok E {} db" and plain: "sq_Mode req = SearchDescendant \<Longrightarrow> plain_name (sq_Query req)"
  shows "search_rows req after db = take (nat (sq_Limit req + 1)) (filter (\<lambda>a. after < at_Hostname a) (matching_rows req db))"
proof -
  let ?rows = "take (nat (sq_Limit req + 1)) (filter (\<lambda>a. after < at_Hostname a) (matching_rows req db))"
  have names: "map at_Hostname (search_rows req after db) = map at_Hostname ?rows"
    using search_rows_exact [OF ok plain] matching_rows_facts(1) [OF ok, of req, symmetric] by (simp add: filter_map comp_def take_map)
  have "set (search_rows req after db) \<union> set ?rows \<subseteq> set (db_assets db)"
    using search_rows_exact [OF ok plain] matching_rows_facts(2) [OF ok, of req] by (auto dest!: in_set_takeD)
  moreover have "inj_on at_Hostname (set (db_assets db))"
    using ok by (simp add: inventory_ok_def identified_def distinct_map)
  ultimately show ?thesis using names by (metis inj_on_map_eq_map inj_on_subset)
qed

text \<open>The rows after the last row of a page.\<close>

lemma rows_after:
  assumes "sorted (map f (xs @ y # zs))" "distinct (map f (xs @ y # zs))"
  shows "filter (\<lambda>a. (f y :: 'k :: linorder) < f a) (xs @ y # zs) = zs"
proof -
  have "\<forall>x \<in> set xs. \<not> f y < f x" using assms(1) by (auto simp: sorted_append not_less)
  moreover have "\<forall>z \<in> set zs. f y < f z" using assms by (force simp: sorted_append order_less_le)
  ultimately show ?thesis by (simp add: filter_empty_conv filter_id_conv)
qed

lemma normal_name_bounds:
  assumes "normal_name E h"
  shows "h \<noteq> []" "length h \<le> 253" "validDNSName h"
proof -
  show valid: "validDNSName h" using assms NormalizeHostname_valid by (auto simp: normal_name_def)
  then show "h \<noteq> []" by (auto simp: validDNSName_def valid_label_def)
  show "length h \<le> 253"
    using assms
    by (auto simp: normal_name_def NormalizeHostname_def Normalize_def NormalizeWithSeedLimit_def hostname_request_def normalize_domain_target_def
        plan_seeds_def and_then_Inr_iff Let_def plan_result_def split: if_splits option.splits sum.splits dest: normalizeDomain_Inr)
qed

lemma prepared_descendant:
  assumes "PrepareSearch E C req = Inr (prep, after)" "sq_Mode prep = SearchDescendant"
  shows "plain_name (sq_Query prep)"
proof -
  obtain r1 r2 where r: "search_query E r1 = Inr r2" "search_cursor E C r2 = Inr (prep, after)"
    using assms(1) by (auto simp: PrepareSearch_def and_then_Inr_iff Let_def split: if_splits)
  have "prep = r2" using r(2) by (auto simp: search_cursor_def Let_def split: if_splits sum.splits option.splits)
  then show ?thesis using r(1) assms(2) NormalizeHostname_valid validDNSName_plain
    by (auto simp: search_query_def Let_def split: if_splits sum.splits)
qed

lemma search_scope_limit: "search_scope E r = Inr r' \<Longrightarrow> sq_Limit r' = sq_Limit r"
  by (auto simp: search_scope_def split: if_splits sum.splits)

lemma search_query_limit: "search_query E r = Inr r' \<Longrightarrow> sq_Limit r' = sq_Limit r"
  by (auto simp: search_query_def Let_def split: if_splits sum.splits)

lemma search_cursor_same: "search_cursor E C r = Inr (r', after) \<Longrightarrow> r' = r"
  by (auto simp: search_cursor_def Let_def split: if_splits sum.splits option.splits)

lemma prepared_limit: "PrepareSearch E C req = Inr (prep, after) \<Longrightarrow> 1 \<le> sq_Limit prep"
  unfolding PrepareSearch_def Let_def
  by (auto simp: and_then_Inr_iff split: if_splits dest!: search_scope_limit search_query_limit search_cursor_same)

section \<open>The loop over the pages\<close>

lemma matching_rows_cursor [simp]: "matching_rows (req\<lparr>sq_Cursor := c\<rparr>) db = matching_rows req db"
  by (simp add: matching_rows_def search_matches_same)

lemma page_assets_append: "page_assets W db (xs @ ys) = page_assets W db xs @ page_assets W db ys"
  by (simp add: page_assets_def)

lemma length_page_assets [simp]: "length (page_assets W db rows) = length rows"
  by (simp add: page_assets_def)

lemma select_pages_loop:
  assumes ok: "inventory_ok E {} db" and codec: "cursor_codec E C" and W: "fault_free W"
    and stable: "\<forall>a \<in> set (db_assets db). \<exists>v. NormalizeHostname E (at_Hostname a) = Inr (at_Hostname a, v)"
    and prep: "PrepareSearch E C (sel\<lparr>sq_Cursor := []\<rparr>) = Inr (prep, [])" and limit: "1 \<le> sq_Limit prep"
    and search: "search = (\<lambda>req. SearchAssets E C (Some (postgres_inventory E C W)) req db)"
  shows "matching_rows prep db = before @ rest \<Longrightarrow> rest = filter (\<lambda>a. after < at_Hostname a) (matching_rows prep db) \<Longrightarrow>
    PrepareSearch E C (sel\<lparr>sq_Cursor := c\<rparr>) = Inr (prep\<lparr>sq_Cursor := c\<rparr>, after) \<Longrightarrow> length before < 1000 \<Longrightarrow>
    select_pages search (sel\<lparr>sq_Cursor := c\<rparr>) (page_assets W db before)
      = Some (if length (matching_rows prep db) > 1000 then Inl too_many_assets else Inr (page_assets W db (matching_rows prep db)))"
proof (induction rest arbitrary: before after c rule: length_induct)
  case (1 rest)
  let ?R = "matching_rows prep db" and ?n = "nat (sq_Limit prep)"
  have plain: "sq_Mode (prep\<lparr>sq_Cursor := c\<rparr>) = SearchDescendant \<Longrightarrow> plain_name (sq_Query (prep\<lparr>sq_Cursor := c\<rparr>))"
    by (rule prepared_descendant [OF 1(4)])
  have rows: "search_rows (prep\<lparr>sq_Cursor := c\<rparr>) after db = take (Suc ?n) rest"
    using search_rows_matching [OF ok plain, of after] 1(3) limit by (simp add: nat_add_distrib)
  have page: "search (sel\<lparr>sq_Cursor := c\<rparr>) = Inr \<lparr>pg_Items = page_assets W db (take ?n rest),
      pg_NextCursor = (if length rest > ?n then NextCursor E C prep (at_Hostname (last (take ?n rest))) else [])\<rparr>"
    using SearchInventory_page [OF W, of "prep\<lparr>sq_Cursor := c\<rparr>" E C after db] limit 1(4)
    by (auto simp: search SearchAssets_def postgres_inventory_def rows Let_def min_def)
  show ?case
  proof (cases "length rest > ?n")
    case False
    then show ?thesis using page 1(2)
      by (subst select_pages.simps) (simp add: page_assets_append [symmetric])
  next
    case True
    define y where "y = last (take ?n rest)"
    have n: "0 < ?n" using limit by simp
    have "take ?n rest \<noteq> []" using True n by auto
    then have split: "take ?n rest = butlast (take ?n rest) @ [y]" unfolding y_def by (rule append_butlast_last_id [symmetric])
    then have R: "?R = (before @ butlast (take ?n rest)) @ y # drop ?n rest"
      using 1(2) by (metis append.assoc append_Cons append_Nil append_take_drop_id)
    have y: "y \<in> set (db_assets db)" using R matching_rows_facts(2) [OF ok, of prep] by (metis in_set_conv_decomp mem_Collect_eq)
    have name: "normal_name E (at_Hostname y)" using ok y by (auto simp: inventory_ok_def identified_def)
    obtain v where v: "NormalizeHostname E (at_Hostname y) = Inr (at_Hostname y, v)" using stable y by blast
    let ?c = "NextCursor E C prep (at_Hostname y)"
    have c: "?c \<noteq> []" using codec normal_name_bounds(2,3) [OF name] by (auto simp: cursor_codec_def Let_def)
    have next_prep: "PrepareSearch E C (sel\<lparr>sq_Cursor := ?c\<rparr>) = Inr (prep\<lparr>sq_Cursor := ?c\<rparr>, at_Hostname y)"
      by (rule prepare_continue [OF prep codec v normal_name_bounds(1,2) [OF name]])
    have after: "drop ?n rest = filter (\<lambda>a. at_Hostname y < at_Hostname a) ?R"
      using rows_after [of at_Hostname "before @ butlast (take ?n rest)" y "drop ?n rest"] R
        matching_rows_facts(1) [OF ok, of prep] search_names_facts(1,2) [of prep db] by metis
    have whole: "?R = (before @ take ?n rest) @ drop ?n rest" using 1(2) by simp
    have shorter: "length (drop ?n rest) < length rest" using True n by simp
    have later: "length (before @ take ?n rest) < 1000 \<Longrightarrow>
        select_pages search (sel\<lparr>sq_Cursor := ?c\<rparr>) (page_assets W db (before @ take ?n rest))
      = Some (if length ?R > 1000 then Inl too_many_assets else Inr (page_assets W db ?R))"
      using 1(1) shorter whole after next_prep by blast
    have len: "length ?R = length before + length rest" using 1(2) by simp
    show ?thesis
    proof (cases "length before + ?n < 1000")
      case small: True
      then show ?thesis using page True c later
        by (subst select_pages.simps) (simp add: y_def [symmetric] page_assets_append [symmetric] del: append_assoc)
    next
      case False
      then show ?thesis using page True c len
        by (subst select_pages.simps) (auto simp: y_def [symmetric] Let_def not_less le_eq_less_or_eq)
    qed
  qed
qed

lemma compact_assets_distinct: "distinct (map as_ID as) \<Longrightarrow> compact_assets as = as"
  by (induction as rule: compact_assets.induct) auto

lemma page_assets_fields [simp]:
  "map as_Hostname (page_assets W db rows) = map at_Hostname rows" "map as_ID (page_assets W db rows) = map at_ID rows"
  "map as_DeletionGeneration (page_assets W db rows) = map at_Generation rows"
  by (simp_all add: page_assets_def asset_facts_def row_asset_def)

text \<open>C21: The admission of a selection is exact, over every inventory the service can reach. Following the cursors
  of the search always ends, with every matching asset once, in the order of the names, and no other. More than
  1000 of them or none are an error that submits nothing; otherwise exactly one job is submitted, with one target
  per asset and the deletion generation each asset has. The cursor codec gives back what it encoded, the statements
  do not fail, and normalisation accepts the names it produced.\<close>

theorem validation_exact:
  assumes run: "inventory_run E C UNIV empty_db db" and codec: "cursor_codec E C" and W: "fault_free W"
    and stable: "\<forall>a \<in> set (db_assets db). \<exists>v. NormalizeHostname E (at_Hostname a) = Inr (at_Hostname a, v)"
    and v: "va_inventory v = Some (\<lambda>req. SearchAssets E C (Some (postgres_inventory E C W)) req db)"
      "va_assets v = Some read" "va_jobs v = Some submit"
    and req: "validation_bounded operatorID req" "vr_Selection req = Some selection" "validation_scope E req = Inr req'"
    and prep: "PrepareSearch E C (validation_selection req' selection) = Inr (prep, [])"
  shows "\<exists>rows. set rows = {a \<in> set (db_assets db). search_matches prep db a} \<and> sorted_wrt (<) (map at_Hostname rows)
    \<and> (if length rows > 1000 then ValidateAssets E v operatorID req s = Some (s, Inl too_many_assets)
       else if rows = [] then ValidateAssets E v operatorID req s
         = Some (s, Inl (NewError CodeInvalidOptions ''validation selected no assets'' None))
       else \<exists>sub :: submit_request. ValidateAssets E v operatorID req s = Some (submit sub s)
         \<and> map ar_Target (sr_Targets sub) = map at_Hostname rows \<and> sr_Reclassifications sub = []
         \<and> sr_InventorySelections sub = map (\<lambda>a. \<lparr>is_AssetID = at_ID a, is_DeletionGeneration = at_Generation a\<rparr>) rows)"
proof -
  have ok: "inventory_ok E {} db" by (rule inventory_run_ok [OF run empty_ok])
  let ?R = "matching_rows prep db" and ?sel = "validation_selection req' selection"
  have sel: "?sel\<lparr>sq_Cursor := []\<rparr> = ?sel" by (simp add: validation_selection_def Let_def)
  have cursor: "prep\<lparr>sq_Cursor := []\<rparr> = prep"
    using prepare_without_cursor [of E C ?sel prep "[]"] prep sel by (metis search_request.surjective search_request.update_convs(5))
  have limit: "1 \<le> sq_Limit prep"
    by (rule prepared_limit [OF prep])
  have "at_Hostname a \<noteq> []" if "a \<in> set ?R" for a
    using that matching_rows_facts(2) [OF ok, of prep] ok normal_name_bounds(1) [of E "at_Hostname a"]
    by (auto simp: inventory_ok_def identified_def)
  then have hosts: "\<forall>a \<in> set ?R. [] < at_Hostname a" by (metis Nil_less_Cons neq_Nil_conv)
  have "select_pages (\<lambda>req. SearchAssets E C (Some (postgres_inventory E C W)) req db) (?sel\<lparr>sq_Cursor := []\<rparr>) (page_assets W db [])
      = Some (if length ?R > 1000 then Inl too_many_assets else Inr (page_assets W db ?R))"
    by (rule select_pages_loop [OF ok codec W stable _ limit refl, where rest = ?R and after = "[]" and sel = ?sel])
      (use prep sel cursor hosts in \<open>simp_all add: filter_id_conv\<close>)
  then have pages: "selected_assets (\<lambda>req. SearchAssets E C (Some (postgres_inventory E C W)) req db) read req'
      = Some (if length ?R > 1000 then Inl too_many_assets else Inr (page_assets W db ?R))"
    using req(2,3) sel by (auto simp: selected_assets_def validation_scope_def page_assets_def split: if_splits sum.splits)
  have names: "sorted (map at_Hostname ?R)" "distinct (map at_Hostname ?R)"
    using matching_rows_facts(1) [OF ok, of prep] search_names_facts(1,2) [of prep db] by simp_all
  have "distinct (map at_ID ?R)"
    using names(2) matching_rows_facts(2) [OF ok, of prep] ok
    by (auto simp: distinct_map inj_on_def inventory_ok_def identified_def)
  then have assets: "compact_assets (sort_key as_Hostname (page_assets W db ?R)) = page_assets W db ?R"
    using names(1) by (subst sort_key_id_if_sorted) (simp_all add: compact_assets_distinct)
  have submitted: "ValidateAssets E v operatorID req s =
      (if length ?R > 1000 then Some (s, Inl too_many_assets) else Some (admit_assets submit operatorID req' (page_assets W db ?R) s))"
    using v req(1,3) pages by (simp add: ValidateAssets_def)
  have "map ar_Target (sr_Targets (validation_submit operatorID req' (page_assets W db ?R))) = map at_Hostname ?R"
    "sr_InventorySelections (validation_submit operatorID req' (page_assets W db ?R)) = map (\<lambda>a. \<lparr>is_AssetID = at_ID a, is_DeletionGeneration = at_Generation a\<rparr>) ?R"
    by (simp_all add: validation_submit_def validation_target_def page_assets_def asset_facts_def row_asset_def)
  moreover have "sorted_wrt (<) (map at_Hostname ?R)" using names strict_sorted_iff by blast
  ultimately show ?thesis
    using matching_rows_facts(2) [OF ok, of prep] submitted assets
    by (intro exI [of _ ?R]) (auto simp: admit_assets_def page_assets_def validation_submit_def)
qed

end
