(* ===== verification/Inventory_Example.thy ===== *)
theory Inventory_Example
  imports Inventory_Validation
begin

text \<open>
  One small inventory: the import of one chunk, on which the properties of the inventory are applied.
\<close>

definition sample_env :: inventory_env where
  "sample_env = \<lparr>iv_target = plain_env, iv_sha256 = (\<lambda>_. ''d'')\<rparr>"

definition sample_world :: tx_world where
  "sample_world = \<lparr>tw_fault = (\<lambda>_ _. None), tw_hook = (\<lambda>_. None), tw_now = 9, tw_clock = (\<lambda>_. 9), tw_collate = (\<lambda>s. s)\<rparr>"

definition sample_request :: import_request where
  "sample_request = \<lparr>iq_OperationID = ''op'', iq_ChunkID = ''1'', iq_SourceID = ''dns'', iq_ScopeRoots = [''a.com''],
     iq_Entries = [\<lparr>ie_Hostname = ''b.a.com'', ie_ObservedAt = Some 5\<rparr>]\<rparr>"

definition sample_codec :: search_codec where
  "sample_codec = \<lparr>co_base64 = (\<lambda>s. s), co_unbase64 = Inr,
     co_cursor = (\<lambda>c. replicate (length (pc_Filter c)) CHR ''x'' @ CHR ''y'' # pc_Filter c @ pc_After c),
     co_uncursor = (\<lambda>s. let n = length (takeWhile (\<lambda>x. x = CHR ''x'') s); rest = drop (Suc n) s
        in Some \<lparr>pc_Filter = take n rest, pc_After = drop n rest\<rparr>),
     co_filter = (\<lambda>_. [])\<rparr>"

definition sample_row :: asset_row where
  "sample_row = \<lparr>at_ID = ''asset-sha256:d'', at_Hostname = ''b.a.com'', at_Reversed = ''com.a.b.'', at_Version = idnaVersion,
     at_ArchivedAt = None, at_Generation = 0\<rparr>"

definition sample_import :: "inventory_db \<Rightarrow> inventory_db \<times> (go_error + import_receipt)" where
  "sample_import db = Import_chunk sample_env (\<lambda>_. Inr ''json'') (Some (ImportInventoryChunk sample_world)) 7 (\<lambda>_. None) sample_request db"

definition sample_db :: inventory_db where
  "sample_db = fst (sample_import empty_db)"

lemma sample_assets: "db_assets sample_db = [sample_row]"
  by code_simp

lemma sample_receipt: "snd (sample_import empty_db) = Inr \<lparr>ip_OperationID = ''op'', ip_ChunkID = ''1'', ip_Counts = zero_counts\<lparr>ic_Accepted := 1\<rparr>\<rparr>"
  by code_simp

lemma sample_host: "NormalizeHostname sample_env ''b.a.com'' = Inr (''b.a.com'', idnaVersion)"
  by code_simp

lemma sample_imported: "sample_import empty_db = (sample_db, Inr \<lparr>ip_OperationID = ''op'', ip_ChunkID = ''1'', ip_Counts = zero_counts\<lparr>ic_Accepted := 1\<rparr>\<rparr>)"
  using sample_receipt by (simp add: sample_db_def prod_eq_iff)

lemma inventory_sample_run: "inventory_run sample_env C UNIV empty_db sample_db"
  using sample_imported unfolding sample_import_def by (blast intro: step_import)

theorem inventory_consistent_witness:
  "inventory_run sample_env sample_codec UNIV empty_db sample_db
   \<and> set (db_memberships sample_db) = {\<lparr>mb_AssetID = at_ID a, mb_Root = root, mb_Hostname = at_Hostname a\<rparr> |a root.
        a \<in> {sample_row} \<and> root \<in> set (db_scopes sample_db) \<and> at_or_below (at_Hostname a) root}"
  using inventory_consistent [OF inventory_sample_run [of sample_codec]] inventory_sample_run by (simp add: sample_assets)

theorem import_repeatable_witness:
  "snd (sample_import sample_db) = Inr \<lparr>ip_OperationID = ''op'', ip_ChunkID = ''1'', ip_Counts = zero_counts\<lparr>ic_Accepted := 1\<rparr>\<rparr>
   \<and> fst (sample_import sample_db) = sample_db"
proof -
  have "case snd (sample_import sample_db) of Inl e \<Rightarrow> False | Inr r \<Rightarrow> True" by code_simp
  then have again: "\<exists>r. snd (sample_import sample_db) = Inr r" by (auto split: sum.splits)
  have "sample_import sample_db = (fst (sample_import sample_db), snd (sample_import sample_db))" by simp
  from import_repeatable [OF sample_imported [unfolded sample_import_def] rtranclp.rtrancl_refl [of "inventory_step sample_env sample_codec UNIV"]
      refl refl this [unfolded sample_import_def]] again
  show ?thesis unfolding sample_import_def by auto
qed

theorem deletion_final_witness:
  "\<exists>db1. DeleteAsset sample_env (Some (postgres_inventory sample_env sample_codec sample_world)) ''b.a.com'' True sample_db = (db1, Inr 1)
   \<and> (\<forall>db2. inventory_run sample_env sample_codec (- {''b.a.com''}) db1 db2 \<longrightarrow> (\<forall>b \<in> set (db_assets db2). at_Hostname b \<noteq> ''b.a.com''))"
proof -
  let ?D = "DeleteAsset sample_env (Some (postgres_inventory sample_env sample_codec sample_world)) ''b.a.com'' True sample_db"
  have "snd ?D = Inr 1" by code_simp
  then have deleted: "?D = (fst ?D, Inr 1)" by (simp add: prod_eq_iff)
  have "sample_row \<in> set (db_assets sample_db)" "at_Hostname sample_row = ''b.a.com''" by (simp_all add: sample_assets sample_row_def)
  from deletion_final [OF inventory_sample_run this deleted sample_host] deleted show ?thesis by blast
qed

lemma sample_cursor_codec: "cursor_codec sample_env sample_codec"
proof -
  have "takeWhile (\<lambda>x. x = CHR ''x'') (replicate n CHR ''x'' @ CHR ''y'' # t) = replicate n CHR ''x''" for n t
    by (induction n) simp_all
  then have "co_uncursor sample_codec (co_cursor sample_codec c) = Some c" for c :: page_cursor by (simp add: sample_codec_def Let_def)
  moreover have "co_unbase64 sample_codec (co_base64 sample_codec x) = Inr x" for x by (simp add: sample_codec_def)
  moreover have "length h \<le> 253 \<Longrightarrow> NextCursor sample_env sample_codec req h \<noteq> [] \<and> length (NextCursor sample_env sample_codec req h) \<le> 1024" for req h
    by (simp add: sample_codec_def NextCursor_def searchFingerprint_def sample_env_def)
  ultimately show ?thesis unfolding cursor_codec_def Let_def by blast
qed

definition sample_validation :: validation_request where
  "sample_validation = \<lparr>vr_IdempotencyKey = ''k'', vr_BundleID = [], vr_Mode = ModeDNS, vr_AssetIDs = [],
     vr_Selection = Some \<lparr>sq_Mode = [], sq_Query = [], sq_ScopeRoot = [], sq_Limit = 0, sq_Cursor = [], sq_IncludeArchived = False\<rparr>,
     vr_ScopeRoot = []\<rparr>"

definition sample_validator :: "nat validator" where
  "sample_validator = \<lparr>va_inventory = Some (\<lambda>req. SearchAssets sample_env sample_codec (Some (postgres_inventory sample_env sample_codec sample_world)) req sample_db),
     va_assets = Some (\<lambda>_. Inl ContextCanceled), va_jobs = Some (\<lambda>sub n. (n + length (sr_Targets sub), Inl ContextCanceled))\<rparr>"

theorem validation_exact_witness:
  "\<exists>sub :: submit_request. ValidateAssets sample_env sample_validator ''op'' sample_validation 0 = Some (length (sr_Targets sub), Inl ContextCanceled)
     \<and> map ar_Target (sr_Targets sub) = [''b.a.com'']"
proof -
  let ?sel = "\<lparr>sq_Mode = [], sq_Query = [], sq_ScopeRoot = [], sq_Limit = 0, sq_Cursor = [], sq_IncludeArchived = False\<rparr>"
  let ?prep = "\<lparr>sq_Mode = SearchBrowse, sq_Query = [], sq_ScopeRoot = [], sq_Limit = 100, sq_Cursor = [], sq_IncludeArchived = False\<rparr>"
  have W: "fault_free sample_world" by (simp add: fault_free_def sample_world_def)
  have stable: "\<forall>a \<in> set (db_assets sample_db). \<exists>v. NormalizeHostname sample_env (at_Hostname a) = Inr (at_Hostname a, v)"
    using sample_host by (simp add: sample_assets sample_row_def)
  have bounded: "validation_bounded ''op'' sample_validation" "vr_Selection sample_validation = Some ?sel"
    "validation_scope sample_env sample_validation = Inr sample_validation"
    by (simp_all add: validation_bounded_def sample_validation_def validation_scope_def)
  have prep: "PrepareSearch sample_env sample_codec (validation_selection sample_validation ?sel) = Inr (?prep, [])" by code_simp
  have v: "va_inventory sample_validator = Some (\<lambda>req. SearchAssets sample_env sample_codec (Some (postgres_inventory sample_env sample_codec sample_world)) req sample_db)"
    "va_assets sample_validator = Some (\<lambda>_. Inl ContextCanceled)"
    "va_jobs sample_validator = Some (\<lambda>sub n. (n + length (sr_Targets sub), Inl ContextCanceled))" by (simp_all add: sample_validator_def)
  from validation_exact [OF inventory_sample_run sample_cursor_codec W stable v bounded prep, of 0] show ?thesis
  proof (elim exE conjE)
    fix rows
    assume rows: "set rows = {a \<in> set (db_assets sample_db). search_matches ?prep sample_db a}" "sorted_wrt (<) (map at_Hostname rows)"
      "if length rows > 1000 then ValidateAssets sample_env sample_validator ''op'' sample_validation 0 = Some (0, Inl too_many_assets)
       else if rows = [] then ValidateAssets sample_env sample_validator ''op'' sample_validation 0
         = Some (0, Inl (NewError CodeInvalidOptions ''validation selected no assets'' None))
       else \<exists>sub :: submit_request. ValidateAssets sample_env sample_validator ''op'' sample_validation 0 = Some (0 + length (sr_Targets sub), Inl ContextCanceled)
           \<and> map ar_Target (sr_Targets sub) = map at_Hostname rows \<and> sr_Reclassifications sub = []
           \<and> sr_InventorySelections sub = map (\<lambda>a. \<lparr>is_AssetID = at_ID a, is_DeletionGeneration = at_Generation a\<rparr>) rows"
  have "search_matches ?prep sample_db sample_row" by (simp add: search_matches_def mode_matches_def sample_row_def)
  then have one: "set rows = {sample_row}" using rows(1) by (auto simp: sample_assets)
  moreover have "distinct rows" using rows(2) by (metis distinct_map strict_sorted_iff)
  ultimately have "length rows = 1" using distinct_card [of rows] by simp
  then have single: "rows = [sample_row]" using one by (cases rows) auto
  then have "\<not> length rows > 1000" "rows \<noteq> []" by simp_all
  with rows(3) obtain sub :: submit_request where
      "ValidateAssets sample_env sample_validator ''op'' sample_validation 0 = Some (0 + length (sr_Targets sub), Inl ContextCanceled)"
      "map ar_Target (sr_Targets sub) = map at_Hostname rows"
    by (simp only: if_False if_not_P) blast
  then show ?thesis by (intro exI [of _ sub]) (simp only: single add_0 list.map, simp add: sample_row_def)
  qed
qed

end
