(* ===== verification/Spec2Isabelle.thy ===== *)
theory Spec2Isabelle
  imports Json_Number Runner Policy_Gate Aggregate Prefix_Index Ctlog_Collector Datasets Rules Dns_Properties Http_Coverage
    App_Redirect App_Lookups App_Seeds App_Identifiers App_Analysis Detect_Suffix Inventory_Example
begin

text \<open>
  Verification of cloudattrib, a Go service that attributes a domain, URL or IP address to the
  cloud providers and products behind it. A request is normalised into a seed plan, collectors
  gather DNS and HTTP observations within a policy and a budget, detectors and dataset lookups turn
  observations into evidence, evidence is aggregated into findings, and the report is stored by a
  job store whose workers hold leases. A certificate-transparency collector feeds further host
  names, a dataset manager publishes the bundles the lookups use, and an inventory in PostgreSQL keeps
  the names that operators import, certificates log and reports observe.

  \<^bold>\<open>Theories and the code they model\<close> (paths under src/internal):

  \<^item> Go_Base, Go_Library: the parts of the Go language and its standard library the packages use
    (strings, slices, bufio, errors), and the generic lemmas and locales; Netip: net/netip addresses
    and prefixes at their 32 and 128 bit widths.
  \<^item> Model, Report, Json_Number: model/types.go, error.go, status.go, view.go, provenance.go and
    json.go. Go's error values are the datatype \<open>go_error\<close>; a result pair is a sum.
  \<^item> Target: target/normalize.go. IDNA, the public-suffix list and URL parsing are the fields of
    \<open>target_env\<close>.
  \<^item> Jobs, Jobs_Invariant, Jobs_Steps, Jobs_Properties: jobs/types.go, validation.go, memory.go. The
    store is a record; each method is a function on it, one step of the relation \<open>step\<close> per call
    because the code holds one mutex. Runner: jobs/runner.go, with the renewal goroutine as a list of
    its events.
  \<^item> Policy_Destination: policy/destination.go and the address filter of collect/http/collector.go.
    Policy_Budget, Policy_Gate: policy/budget.go, each call cut into the atomic steps between which
    goroutines interleave.
  \<^item> Rules_Spf, Rules: rules/engine.go. Detect_Suffix: detect/cdnsuffix/detector.go. Aggregate: aggregate/aggregate.go.
  \<^item> Asn: ingest/iptoasn/import.go and enrich/asn/index.go. Prefix_Index: enrich/prefix/index.go, over
    the documented laws of the routing table it uses, which speak of canonical (valid and masked) prefixes.
  \<^item> Ctlog, Ctlog_Collector: ctlog/types.go, import.go, memory.go and collector.go. Log server, proof
    checks, certificate parsing and hashing are arguments.
  \<^item> Datasets: datasets/manager.go.
  \<^item> Dns_Base, Dns_Job, Dns_Graph, Dns_Collector: model/identity.go and collect/dns/collector.go,
    job.go and graph.go. A concurrent query of the shared cache is cut into the steps between which
    goroutines run. A walk is a function of its world: what the cache answers, when the context ends,
    whether an address is reserved and a message is ready, each at the step it is looked at. Dns_Walks,
    Dns_Cname, Dns_Properties: what the walks and a whole collection guarantee.
  \<^item> Http_Base, Http_Collector, Http_Properties: collect/http/collector.go and tls.go. A round trip is a
    record of what the request, the handshake and the response were; the requests made are recorded.
    Http_Coverage: what complete coverage says of these exchanges and of the answers of the resolver.
  \<^item> App_Redirect: app/redirect.go. App_Base, App_Enrich: app/contracts.go and app/service.go, with the
    readers and detectors behind its interfaces as functions. App_Lookups: enrichment over the two indexes.
    App_Service: the plan of certificate-transparency seeds, an analysis from its request to its report, and the
    reclassification of a stored report. What the collectors of a seed and the clocks see is a record of the world;
    App_Example holds one small analysis. App_Seeds, App_Identifiers, App_Analysis, App_Replay: what the
    service guarantees.
  \<^item> Inventory_Import, Inventory_Search, Inventory_Validation: inventory/inventory.go, search.go and
    validation.go. Inventory_Store: store/postgres/inventory.go and inventory_search.go; a table is the list of
    its rows, a statement its documented effect on them, and any statement may fail. Inventory_Invariant: the
    steps of the whole inventory as a relation and its invariant. Inventory_Paging: what a search selects.
    Inventory_Properties: deletion and repeated imports. Inventory_Example: one small inventory.

  \<^bold>\<open>What the lemmas show.\<close> Target: the seed plan of an accepted request is sorted, in scope and
  within its limit; unsafe input is rejected. Jobs: reservation counts, pins, job status and attempt
  bounds as invariants of every reachable store, refinement of an abstract target lifecycle,
  idempotence of submission and completion, fencing of stale workers; the runner settles what it
  claims. Policy: the destination check equals a decision on the IANA special-purpose intervals; no
  interleaving exceeds a budget, a concurrency limit or the rate of a destination. Report: reference
  validation accepts exactly the well-formed reports; canonical forms are independent of order and
  canonical numbers decide equality of values. Rules: bundle validation guarantees what detection
  concludes, detection is exact, and the SPF checker equals a declarative account. Aggregate:
  findings are determined by the set of evidence, one per group, with mutual conflicts. Enrichment:
  both lookups equal a linear scan. Certificate transparency: verified provenance is earned,
  progress is exact and bounded, discovery and import are sound. Datasets: a bundle in use is never
  removed. DNS: the query cache spends its budget once per question and serves every waiting call, the
  CNAME walk terminates (its queue decreases in a multiset order of the remaining depths) and asks what
  is reachable, published candidates are allowed destinations, coverage hides nothing and observations
  stand for distinct occurrences. HTTP: every request along a chain of redirects is allowed, the
  observations are exactly those of the requests, and complete coverage means that every hop was answered in
  full and every redirect resolved whole. Application:
  redirect targets resolve to what the budget reserved, enrichment makes exactly the evidence the
  indexes hold for the observed addresses, the seeds from certificate transparency are exact, no two
  observations of an analysis stand for the same occurrence, a complete report hides nothing that any collector
  or reader left out, and a stored report can be reproduced. The suffix detector
  reports exactly the label-wise suffixes of the bundle. Inventory: an import accounts for every entry and is
  made once, every reachable inventory links each asset to exactly the registered scopes it lies in, a deletion
  is final against reports, imports and certificates, and following the cursors of a search ends with every
  matching asset once. This theory composes rules, aggregation and reference validation: the report of a bundle
  validates if its rules without a provider conclude web technologies, which loading does not check.

  \<^bold>\<open>Interfaces.\<close> Locales state the contracts between components and are interpreted on the
  model's own operations: the ranking of duplicates (\<open>best_of\<close>, by evidence identifier, provenance
  and certificate name), the store the runner drives, \<open>walk_property\<close>: which primitive changes a
  property of DNS walks must survive, interpreted on five properties, \<open>range_reader\<close>: what the service relies
  on from a lookup source, interpreted on the prefix and the ASN index, and \<open>name_source\<close>: what it relies on from
  a source of logged names, interpreted on the index of certificate transparency.

  \<^bold>\<open>Bounds and fuel.\<close> No definition uses fuel: loops recurse on their data or on a measure proved to
  decrease. Counters that Go keeps in \<open>int\<close> are integers; the tree sizes and indices of the
  certificate log are naturals with the wrap-around of \<open>uint64\<close> and the conversion to \<open>int64\<close>
  written out, and the theorem that needs them small says so. Iteration over a Go map is a
  permutation given as an argument, so the theorems hold for every order.

  \<^bold>\<open>Not modelled.\<close> Network transports, the TLS protocol, the DNS wire format and resolver, HTML parsing, SQL, the HTTP API, the
  command line and the wiring of processes: their behaviour is that of servers and libraries. SHA-256,
  JSON codecs and regular expressions are arguments. Of the PostgreSQL store only the inventory tables are
  modelled; the job theorems concern the in-process store. The adapters of third-party detectors, the range
  importers, the dataset repository, configuration, report retention and the embedding-based retrieval of the
  inventory are not modelled either: the detectors are arguments of the service, and the rest reads files, calls
  databases or model servers. Names and record types are compared as
  ASCII: the folding of other Unicode letters in \<open>strings.EqualFold\<close> and \<open>strings.ToLower\<close> does not
  arise for them.
\<close>

section \<open>From rules to a stored report\<close>

text \<open>C3: If every rule of a loaded engine that has no provider concludes a web technology (category
  \<open>web_technology\<close>, relation \<open>web_integration\<close>), then the evidence of the engine and the findings aggregated from
  it make a report that passes the reference check every store applies. This holds for observations with
  distinct non-empty identifiers, as long as SHA-256 does not collide on the identifiers used, whatever the
  observations say, whether or not detection was cancelled, and in whatever order Go iterates its maps. The
  condition on rules without a provider is a condition on the bundle: \<^const>\<open>Load\<close> does not enforce it
  (engine.go, line 203), and without it the report can be refused (\<open>provider_less_refused\<close>).\<close>

theorem rules_report_validates:
  assumes load: "decodes_plain decode" "Load E decode data = Inr e"
    and detect: "Detect E e ctx obs = (evs, cov)"
    and ids: "distinct (map ob_ID obs)" "[] \<notin> ob_ID ` set obs"
    and hash: "inj_on (rule_hash E) (evidence_keys (eg_rules e) obs)" "inj_on (findingID h) (key_of ` set evs)"
    and technology: "\<forall>r \<in> set (eg_rules e). em_ProviderID (ru_Emit r) = [] \<longrightarrow>
          em_Category (ru_Emit r) = ''web_technology'' \<and> em_Relation (ru_Emit r) = RelationWebIntegration"
    and orders: "permutes og" "permutes oi" "permutes op"
  shows "ValidateReferences (r\<lparr>re_Observations := obs, re_Evidence := evs, re_Findings := Build h og oi op pg evs\<rparr>) = None"
proof -
  have rules: "\<forall>r \<in> set (eg_rules e). wf_rule (eg_providers e) (eg_products e) r" "distinct (map ru_ID (eg_rules e))"
    using Load_Inr [OF load] by auto
  then have "\<forall>r \<in> set (eg_rules e). validID (ru_ID r)" unfolding wf_rule_def by blast
  then have evs: "distinct (map ev_ID evs)"
    using Detect_ids_distinct [OF detect] rules(2) ids(1) hash(1) by blast
  have item: "\<exists>ob \<in> set obs. \<exists>r \<in> set (eg_rules e). ev = fired E (ob, r)" if "ev \<in> set evs" for ev
    using Detect_subset [OF detect] that unfolding firing_pairs_set by blast
  have "wf_report (r\<lparr>re_Observations := obs, re_Evidence := evs, re_Findings := []\<rparr>)"
    using ids evs item by (fastforce simp: wf_report_def fired_def rule_evidence_def)
  moreover have "\<forall>ev \<in> set evs. ev_ProviderID ev = [] \<longrightarrow> ev_ProductID ev \<noteq> []
           \<and> ev_Category ev = ''web_technology'' \<and> ev_Relation ev = RelationWebIntegration"
  proof (intro ballI impI)
    fix ev assume "ev \<in> set evs" and none: "ev_ProviderID ev = []"
    from item [OF this(1)] obtain ob r where r: "r \<in> set (eg_rules e)" and ev: "ev = fired E (ob, r)" by blast
    from rules(1) r obtain p where "p \<in> set (eg_products e)" "pd_ID p = em_ProductID (ru_Emit r)"
      unfolding wf_rule_def by blast
    then have "em_ProductID (ru_Emit r) \<noteq> []" using Load_products [OF load(2)] validID_chars(1) by metis
    with none technology r show "ev_ProductID ev \<noteq> [] \<and> ev_Category ev = ''web_technology'' \<and> ev_Relation ev = RelationWebIntegration"
      by (simp add: ev fired_def rule_evidence_def)
  qed
  ultimately show ?thesis
    using aggregated_report_validates [of "r\<lparr>re_Observations := obs, re_Evidence := evs\<rparr>" h og oi op pg] hash(2) orders
    by (simp add: ValidateReferences_iff)
qed

theorem rules_report_validates_witness:
  "ValidateReferences (zero_report\<lparr>re_Observations := [example_observation ''dns_record'' ''x.acme.net.''],
     re_Evidence := [fired example_env (example_observation ''dns_record'' ''x.acme.net.'', cname_rule)],
     re_Findings := Build (\<lambda>s. s) rev rev (\<lambda>m. m) (\<lambda>_. None)
       [fired example_env (example_observation ''dns_record'' ''x.acme.net.'', cname_rule)]\<rparr>) = None"
proof (rule rules_report_validates [OF example_decodes example_loads])
  show "Detect example_env example_engine (\<lambda>_. None) [example_observation ''dns_record'' ''x.acme.net.'']
    = ([fired example_env (example_observation ''dns_record'' ''x.acme.net.'', cname_rule)],
       [zero_coverage\<lparr>cv_Capability := ''rules'', cv_Status := CoverageComplete, cv_Attempted := 1, cv_Completed := 1\<rparr>])"
    by code_simp
  show "inj_on (rule_hash example_env) (evidence_keys (eg_rules example_engine) [example_observation ''dns_record'' ''x.acme.net.''])"
    by (simp add: example_env_def)
qed (simp_all add: example_simps permutes_id permutes_rev)

text \<open>The condition is needed: one piece of evidence without a provider that concludes any other relation has
  the whole report refused.\<close>

lemma provider_less_refused:
  assumes "ev \<in> set (re_Evidence r)" "ev_ProviderID ev = []" "ev_Relation ev \<noteq> RelationWebIntegration" "permutes og"
  shows "ValidateReferences (r\<lparr>re_Findings := Build h og oi op pg (re_Evidence r)\<rparr>) \<noteq> None"
proof -
  have "key_of ev \<in> finding_key ` set (group_findings h og oi op pg (re_Evidence r))"
    using assms(1) group_findings_keys(2) [OF assms(4)] by blast
  then obtain f0 where f0: "f0 \<in> set (group_findings h og oi op pg (re_Evidence r))" "finding_key f0 = key_of ev" by auto
  define f where "f = with_conflicts (group_findings h og oi op pg (re_Evidence r)) f0"
  have f: "f \<in> set (Build h og oi op pg (re_Evidence r))" "finding_key f = key_of ev"
    using f0 by (simp_all add: Build_eq f_def)
  then have "\<not> wf_finding (ev_ID ` set (re_Evidence r)) f"
    using assms(2,3) by (auto simp: wf_finding_def technology_only_def finding_key_def key_of_def)
  with f(1) show ?thesis by (auto simp: ValidateReferences_iff wf_report_def)
qed

end
